(* ===== verification/Prelude.thy ===== *)
theory Prelude
  imports Main "HOL-Library.Word" "HOL-Library.Multiset"
begin

text \<open>
  Shared vocabulary of the development.

  \<^item> \<open>exn\<close> and \<open>result\<close>: a C++ function that may throw returns a value of \<open>exn + 'a\<close>;
    \<open>undefined_behaviour\<close> stands for the operations the language leaves undefined (reading an
    empty \<open>std::optional\<close>, indexing a container past its end). The theorems of the components
    show that this value does not occur in well-formed states.
  \<^item> \<open>occupants\<close>: the values held by a vector of optionals, in order, with the lemmas that
    move sums and counts through an update of one slot.
  \<^item> \<open>first_index\<close> and \<open>next_seat\<close>: the two search loops used over seats.
  \<^item> The named collections \<open>result_simps\<close> (the laws of \<open>bind_result\<close>) and \<open>occ_simps\<close>
    (the laws of \<open>occupants\<close>).
\<close>

section \<open>Machine integers\<close>

type_synonym u8 = "8 word"
type_synonym u32 = "32 word"
type_synonym u64 = "64 word"

lemma unat_of_nat_u64: "n < 2 ^ 64 \<Longrightarrow> unat (of_nat n :: u64) = n"
  by (simp add: unat_of_nat)

lemma unat_u64_less: "unat (x :: u64) < 2 ^ 64"
  using unsigned_less [of x] by simp

lemma u64_mod_less: "b \<noteq> 0 \<Longrightarrow> (v :: u64) mod b < b"
  by (simp add: word_less_nat_alt unat_mod unat_gt_0)

section \<open>Exceptions\<close>

datatype exn =
    invalid_argument
  | out_of_range
  | length_error
  | logic_error
  | bad_optional_access
  | undefined_behaviour

type_synonym 'a result = "exn + 'a"

named_theorems result_simps "laws of bind_result"
named_theorems occ_simps "laws of occupants"

definition bind_result :: "'a result \<Rightarrow> ('a \<Rightarrow> 'b result) \<Rightarrow> 'b result" where
  "bind_result m f = (case m of Inl e \<Rightarrow> Inl e | Inr x \<Rightarrow> f x)"

lemma bind_result_Inl [simp]: "bind_result (Inl e) f = Inl e"
  by (simp add: bind_result_def)

lemma bind_result_Inr [simp]: "bind_result (Inr x) f = f x"
  by (simp add: bind_result_def)

lemma bind_result_eq_Inr [result_simps]:
  "(bind_result m f = Inr y) = (\<exists>x. m = Inr x \<and> f x = Inr y)"
  by (cases m) auto

lemma bind_result_eq_Inl [result_simps]:
  "(bind_result m f = Inl e) = (m = Inl e \<or> (\<exists>x. m = Inr x \<and> f x = Inl e))"
  by (cases m) auto

lemma bind_result_cong [fundef_cong]:
  "m = m' \<Longrightarrow> (\<And>x. m' = Inr x \<Longrightarrow> f x = f' x) \<Longrightarrow> bind_result m f = bind_result m' f'"
  by (cases m') auto

section \<open>Lists\<close>

lemma length_filter_eq_iff: "length (filter P xs) = length xs \<longleftrightarrow> (\<forall>x \<in> set xs. P x)"
proof (induction xs)
  case (Cons x xs)
  have "length (filter P xs) \<noteq> Suc (length xs)" using length_filter_le [of P xs] by linarith
  with Cons show ?case by simp
qed simp

section \<open>Searching a sequence\<close>

text \<open>The index of the first element that satisfies a predicate (a forward \<open>for\<close> loop that
  returns on the first hit).\<close>

fun first_index :: "('a \<Rightarrow> bool) \<Rightarrow> 'a list \<Rightarrow> nat option" where
  "first_index P [] = None"
| "first_index P (x # xs) = (if P x then Some 0 else map_option Suc (first_index P xs))"

lemma first_index_SomeD:
  "first_index P xs = Some i \<Longrightarrow> i < length xs \<and> P (xs ! i) \<and> (\<forall>j < i. \<not> P (xs ! j))"
proof (induction xs arbitrary: i)
  case Nil
  then show ?case by simp
next
  case (Cons x xs)
  then show ?case by (auto split: if_splits simp: less_Suc_eq_0_disj)
qed

lemma first_index_None_iff: "first_index P xs = None \<longleftrightarrow> (\<forall>x \<in> set xs. \<not> P x)"
  by (induction xs) auto

lemma first_index_unique:
  "i < length xs \<Longrightarrow> P (xs ! i) \<Longrightarrow> (\<And>j. j < length xs \<Longrightarrow> P (xs ! j) \<Longrightarrow> j = i)
   \<Longrightarrow> first_index P xs = Some i"
  by (metis first_index_SomeD first_index_None_iff nth_mem option.exhaust)

section \<open>Occupied slots of a vector of optionals\<close>

fun occupants :: "'a option list \<Rightarrow> 'a list" where
  "occupants [] = []"
| "occupants (None # xs) = occupants xs"
| "occupants (Some x # xs) = x # occupants xs"

lemma occupants_append [occ_simps]: "occupants (xs @ ys) = occupants xs @ occupants ys"
  by (induction xs rule: occupants.induct) auto

lemma set_occupants [occ_simps]: "x \<in> set (occupants xs) \<longleftrightarrow> Some x \<in> set xs"
  by (induction xs rule: occupants.induct) auto

lemma occupants_map [occ_simps]: "occupants (map (map_option f) xs) = map f (occupants xs)"
  by (induction xs rule: occupants.induct) auto

lemma occupants_replicate_None [simp]: "occupants (replicate n None) = []"
  by (induction n) auto

lemma occupants_split:
  assumes "i < length xs"
  shows "occupants xs = occupants (take i xs) @ occupants [xs ! i] @ occupants (drop (Suc i) xs)"
proof -
  have "occupants xs = occupants (take i xs @ [xs ! i] @ drop (Suc i) xs)"
    using id_take_nth_drop [OF assms] by simp
  then show ?thesis by (simp only: occupants_append)
qed

lemma occupants_update:
  assumes "i < length xs"
  shows "occupants (xs[i := y]) =
    occupants (take i xs) @ occupants [y] @ occupants (drop (Suc i) xs)"
  using occupants_split [of i "xs[i := y]"] assms by simp

lemma nth_in_occupants: "i < length xs \<Longrightarrow> xs ! i = Some x \<Longrightarrow> x \<in> set (occupants xs)"
  by (metis nth_mem set_occupants)

lemma occupants_nth: "x \<in> set (occupants xs) \<Longrightarrow> \<exists>i < length xs. xs ! i = Some x"
  by (metis in_set_conv_nth set_occupants)

text \<open>Replacing the value in an occupied slot, as a rewrite of sums, counts and images.\<close>

lemma sum_occupants_update:
  fixes f :: "'a \<Rightarrow> int"
  assumes "i < length xs" and "xs ! i = Some x"
  shows "sum_list (map f (occupants (xs[i := Some y]))) =
    sum_list (map f (occupants xs)) - f x + f y"
  by (simp add: occupants_split [OF assms(1)] occupants_update [OF assms(1)] assms(2))

lemma map_occupants_update_same:
  assumes "i < length xs" and "xs ! i = Some x" and "f y = f x"
  shows "map f (occupants (xs[i := Some y])) = map f (occupants xs)"
  by (simp add: occupants_split [OF assms(1)] occupants_update [OF assms(1)] assms(2,3))

lemma occupants_vacate:
  assumes "i < length xs" and "xs ! i = Some x"
  shows "mset (occupants xs) = add_mset x (mset (occupants (xs[i := None])))"
  by (simp add: occupants_split [OF assms(1)] occupants_update [OF assms(1)] assms(2))

lemma occupants_fill:
  assumes "i < length xs" and "xs ! i = None"
  shows "mset (occupants (xs[i := Some y])) = add_mset y (mset (occupants xs))"
  by (simp add: occupants_split [OF assms(1)] occupants_update [OF assms(1)] assms(2))

lemma length_occupants: "length (occupants xs) \<le> length xs"
  by (induction xs rule: occupants.induct) auto

section \<open>Circular search\<close>

text \<open>
  \<open>next_seat P n from\<close> is the loop
  \<open>for (offset = 1; offset <= n; ++offset) { index = (from + offset) % n; if (P index) return index; }\<close>
  and returns the first hit.
\<close>

definition next_seat :: "(nat \<Rightarrow> bool) \<Rightarrow> nat \<Rightarrow> nat \<Rightarrow> nat option" where
  "next_seat P n from = List.find P (map (\<lambda>offset. (from + offset) mod n) [1..<Suc n])"

lemma next_seat_SomeD: "next_seat P n from = Some i \<Longrightarrow> P i \<and> i < n"
  by (auto simp: next_seat_def find_Some_iff simp del: upt_Suc)

lemma circular_cover:
  fixes i n "from" :: nat
  assumes "i < n"
  shows "\<exists>offset \<in> {1..n}. (from + offset) mod n = i"
proof -
  let ?o = "(i + n - from mod n) mod n"
  have n: "0 < n" and le: "from mod n < n" using assms by (auto simp: less_le_trans)
  have *: "(from + ?o) mod n = i"
  proof -
    have "(from + ?o) mod n = (from mod n + (i + n - from mod n)) mod n"
      by (simp add: mod_add_eq mod_add_left_eq mod_add_right_eq)
    also have "\<dots> = (i + n) mod n" using le by simp
    also have "\<dots> = i" using assms by simp
    finally show ?thesis .
  qed
  show ?thesis
  proof (cases "?o = 0")
    case True
    then have "(from + n) mod n = i" using * by simp
    then show ?thesis using n by (intro bexI [of _ n]) auto
  next
    case False
    moreover have "?o < n" using n by simp
    ultimately show ?thesis using * by (intro bexI [of _ ?o]) auto
  qed
qed

lemma next_seat_None_iff: "next_seat P n from = None \<longleftrightarrow> (\<forall>i < n. \<not> P i)"
proof
  assume none: "next_seat P n from = None"
  show "\<forall>i < n. \<not> P i"
  proof (intro allI impI)
    fix i assume "i < n"
    then obtain k where "k \<in> {1..n}" "(from + k) mod n = i" using circular_cover by blast
    then have "i \<in> set (map (\<lambda>offset. (from + offset) mod n) [1..<Suc n])"
      by (auto simp: less_Suc_eq_le simp del: upt_Suc)
    then show "\<not> P i" using none unfolding next_seat_def find_None_iff by blast
  qed
next
  assume *: "\<forall>i < n. \<not> P i"
  then show "next_seat P n from = None"
    by (cases n) (auto simp: next_seat_def find_None_iff simp del: upt_Suc)
qed

lemma next_seat_ex: "i < n \<Longrightarrow> P i \<Longrightarrow> \<exists>j. next_seat P n from = Some j"
  using next_seat_None_iff [of P n "from"] by (cases "next_seat P n from") auto

lemma next_seat_cong: "(\<And>i. i < n \<Longrightarrow> P i = Q i) \<Longrightarrow> next_seat P n from = next_seat Q n from"
  unfolding next_seat_def
  by (intro find_cong) (auto simp: less_Suc_eq_le)

end
