(* ===== verification/Cards.thy ===== *)
theory Cards
  imports Prelude
begin

text \<open>
  Model of \<open>src/include/poker/domain/card.hpp\<close> and \<open>src/src/poker/domain/card.cpp\<close>: suits, ranks,
  cards, the card index used by every duplicate check, the ordered deck and the two-character
  notation. \<open>Suit\<close> and \<open>Rank\<close> are scoped enumerations; the only casts into them in the program
  are the ones of \<open>orderedDeck\<close>, whose loop bounds are the bounds of the enumerations, so a card of
  the program always carries an enumerator. The \<open>uint8_t\<close> values of ranks, suits and indices stay
  below 52 and are modelled as \<open>nat\<close>.
\<close>

section \<open>Cards\<close>

datatype Suit = clubs | diamonds | hearts | spades

datatype Rank =
  two | three | four | five | six | seven | eight | nine | ten | jack | queen | king | ace

record Card =
  rank :: Rank
  suit :: Suit

text \<open>The underlying values of the enumerators.\<close>

fun suitValue :: "Suit \<Rightarrow> nat" where
  "suitValue clubs = 0"
| "suitValue diamonds = 1"
| "suitValue hearts = 2"
| "suitValue spades = 3"

fun rankValue :: "Rank \<Rightarrow> nat" where
  "rankValue two = 2"
| "rankValue three = 3"
| "rankValue four = 4"
| "rankValue five = 5"
| "rankValue six = 6"
| "rankValue seven = 7"
| "rankValue eight = 8"
| "rankValue nine = 9"
| "rankValue ten = 10"
| "rankValue jack = 11"
| "rankValue queen = 12"
| "rankValue king = 13"
| "rankValue ace = 14"

definition cardIndex :: "Card \<Rightarrow> nat" where
  "cardIndex c = suitValue (suit c) * 13 + rankValue (rank c) - 2"

text \<open>\<open>static_cast<Suit>\<close> and \<open>static_cast<Rank>\<close> on the values in range.\<close>

definition castSuit :: "nat \<Rightarrow> Suit" where
  "castSuit n = [clubs, diamonds, hearts, spades] ! n"

definition castRank :: "nat \<Rightarrow> Rank" where
  "castRank n =
     [two, three, four, five, six, seven, eight, nine, ten, jack, queen, king, ace] ! (n - 2)"

definition orderedDeck :: "Card list" where
  "orderedDeck =
     concat (map (\<lambda>s. map (\<lambda>r. \<lparr>rank = castRank r, suit = castSuit s\<rparr>) [2..<15]) [0..<4])"

text \<open>\<open>toString(Card)\<close>; its range check never fails on an enumerator.\<close>

definition rankStrings :: "string list" where
  "rankStrings = ['''', '''', ''2'', ''3'', ''4'', ''5'', ''6'', ''7'', ''8'', ''9'', ''T'',
                  ''J'', ''Q'', ''K'', ''A'']"

definition suitStrings :: "string list" where
  "suitStrings = [''c'', ''d'', ''h'', ''s'']"

definition cardToString :: "Card \<Rightarrow> string result" where
  "cardToString c =
     (let r = rankValue (rank c); s = suitValue (suit c) in
      if r < 2 \<or> r > 14 \<or> s > 3 then Inl invalid_argument
      else Inr (rankStrings ! r @ suitStrings ! s))"

section \<open>Properties of cards\<close>

lemma rankValue_bounds: "2 \<le> rankValue r" "rankValue r \<le> 14"
  by (cases r; simp)+

lemma suitValue_le: "suitValue s \<le> 3"
  by (cases s) simp_all

lemma rankValue_inject [simp]: "rankValue r = rankValue r' \<longleftrightarrow> r = r'"
  by (cases r; cases r'; simp)

lemma suitValue_inject [simp]: "suitValue s = suitValue s' \<longleftrightarrow> s = s'"
  by (cases s; cases s'; simp)

lemma rankValue_castRank [simp]: "2 \<le> n \<Longrightarrow> n \<le> 14 \<Longrightarrow> rankValue (castRank n) = n"
proof -
  assume "2 \<le> n" "n \<le> 14"
  then have "n \<in> set [2..<15]" by (simp only: set_upt) auto
  moreover have "\<forall>m \<in> set [2..<15]. rankValue (castRank m) = m"
    by (simp add: castRank_def upt_conv_Cons)
  ultimately show ?thesis by blast
qed

lemma cardIndex_less: "cardIndex c < 52"
  using rankValue_bounds [of "rank c"] suitValue_le [of "suit c"] by (simp add: cardIndex_def)

lemma cardIndex_inject [simp]: "cardIndex c = cardIndex c' \<longleftrightarrow> c = c'"
proof
  assume eq: "cardIndex c = cardIndex c'"
  have b: "\<exists>k < 13. rankValue (rank x) = k + 2" for x :: Card
    using rankValue_bounds [of "rank x"] by (intro exI [of _ "rankValue (rank x) - 2"]) auto
  obtain k k' where k: "k < 13" "rankValue (rank c) = k + 2"
    and k': "k' < 13" "rankValue (rank c') = k' + 2" using b by meson
  have sum: "suitValue (suit c) * 13 + k = suitValue (suit c') * 13 + k'"
    using eq k k' by (simp add: cardIndex_def)
  have "suitValue (suit c) = suitValue (suit c')"
    using arg_cong [OF sum, of "\<lambda>n. n div 13"] k(1) k'(1) by simp
  moreover from this sum have "k = k'" by simp
  ultimately show "c = c'" using k k' by (metis Card.equality old.unit.exhaust rankValue_inject suitValue_inject)
qed simp

lemma inj_cardIndex: "inj cardIndex"
  by (rule injI) simp

lemma castRank_rankValue [simp]: "castRank (rankValue r) = r"
  by (cases r) (simp_all add: castRank_def)

lemma castSuit_suitValue [simp]: "castSuit (suitValue s) = s"
  by (cases s) (simp_all add: castSuit_def numeral_eq_Suc)

lemma length_orderedDeck [simp]: "length orderedDeck = 52"
  by (simp add: orderedDeck_def length_concat comp_def upt_conv_Cons)

lemma set_orderedDeck [simp]: "set orderedDeck = UNIV"
proof -
  have "c \<in> set orderedDeck" for c :: Card
  proof -
    let ?row = "\<lambda>s. map (\<lambda>r. \<lparr>rank = castRank r, suit = castSuit s\<rparr>) [2..<15]"
    have s: "suitValue (suit c) \<in> set [0..<4]" and r: "rankValue (rank c) \<in> set [2..<15]"
      using rankValue_bounds [of "rank c"] suitValue_le [of "suit c"]
      unfolding set_upt atLeastLessThan_iff by linarith+
    have "c = \<lparr>rank = castRank (rankValue (rank c)), suit = castSuit (suitValue (suit c))\<rparr>"
      by simp
    then have "c \<in> set (?row (suitValue (suit c)))"
      unfolding set_map using r by (rule image_eqI)
    moreover have "?row (suitValue (suit c)) \<in> set (map ?row [0..<4])"
      unfolding set_map using s by (rule imageI)
    ultimately show ?thesis unfolding orderedDeck_def set_concat by (rule UN_I [rotated])
  qed
  then show ?thesis by auto
qed

lemma map_cardIndex_orderedDeck: "map cardIndex orderedDeck = [0..<52]"
  by (simp add: orderedDeck_def cardIndex_def castRank_def castSuit_def upt_conv_Cons numeral_eq_Suc
      del: upt_Suc)

lemma distinct_orderedDeck [simp]: "distinct orderedDeck"
  by (metis distinct_map distinct_upt map_cardIndex_orderedDeck)

lemma cardToString_ok: "\<exists>s. cardToString c = Inr s \<and> length s = 2"
  by (cases "rank c"; cases "suit c")
    (simp_all add: cardToString_def rankStrings_def suitStrings_def numeral_eq_Suc)

lemma rankStrings_inject: "rankStrings ! rankValue r = rankStrings ! rankValue r' \<Longrightarrow> r = r'"
  by (cases r; simp add: rankStrings_def numeral_eq_Suc; cases r'; simp)

lemma suitStrings_inject: "suitStrings ! suitValue s = suitStrings ! suitValue s' \<Longrightarrow> s = s'"
  by (cases s; simp add: suitStrings_def numeral_eq_Suc; cases s'; simp)

lemma length_rankStrings: "length (rankStrings ! rankValue r) = 1"
  by (cases r) (simp_all add: rankStrings_def numeral_eq_Suc)

lemma cardToString_inject: "cardToString c = cardToString c' \<longleftrightarrow> c = c'"
proof
  assume eq: "cardToString c = cardToString c'"
  have "rankStrings ! rankValue (rank c) @ suitStrings ! suitValue (suit c) =
      rankStrings ! rankValue (rank c') @ suitStrings ! suitValue (suit c')"
    using eq rankValue_bounds [of "rank c"] rankValue_bounds [of "rank c'"]
      suitValue_le [of "suit c"] suitValue_le [of "suit c'"]
    by (simp add: cardToString_def Let_def)
  then have "rank c = rank c'" "suit c = suit c'"
    by (auto simp: append_eq_append_conv length_rankStrings
        dest: rankStrings_inject suitStrings_inject)
  then show "c = c'" by simp
qed simp

section \<open>The duplicate check\<close>

text \<open>
  \<open>seen\<close> is the \<open>std::array<bool, 52>\<close> that \<open>evaluateFive\<close>, \<open>evaluateBest\<close>, the \<open>Deck\<close>
  constructor and \<open>validHandSettlement\<close> fill card by card; a repeated index ends the loop.
\<close>

fun markSeen :: "bool list \<Rightarrow> Card list \<Rightarrow> bool list result" where
  "markSeen seen [] = Inr seen"
| "markSeen seen (c # rest) =
     (let index = cardIndex c in
      if index \<ge> length seen \<or> seen ! index then Inl invalid_argument
      else markSeen (seen[index := True]) rest)"

definition noneSeen :: "bool list" where
  "noneSeen = replicate 52 False"

lemma length_noneSeen [simp]: "length noneSeen = 52"
  by (simp add: noneSeen_def)

lemma markSeen_Inr_iff:
  "length seen = 52 \<Longrightarrow>
   (\<exists>seen'. markSeen seen cs = Inr seen') \<longleftrightarrow> distinct cs \<and> (\<forall>c \<in> set cs. \<not> seen ! cardIndex c)"
proof (induction cs arbitrary: seen)
  case Nil
  then show ?case by simp
next
  case (Cons c cs)
  have lt: "cardIndex d < 52" for d by (rule cardIndex_less)
  show ?case
  proof (cases "seen ! cardIndex c")
    case True
    then show ?thesis using Cons.prems by simp
  next
    case False
    let ?seen = "seen[cardIndex c := True]"
    have "(\<exists>seen'. markSeen ?seen cs = Inr seen') \<longleftrightarrow>
        distinct cs \<and> (\<forall>d \<in> set cs. \<not> ?seen ! cardIndex d)"
      using Cons.IH [of ?seen] Cons.prems by simp
    also have "(\<forall>d \<in> set cs. \<not> ?seen ! cardIndex d) \<longleftrightarrow>
        c \<notin> set cs \<and> (\<forall>d \<in> set cs. \<not> seen ! cardIndex d)"
      using Cons.prems lt by (auto simp: nth_list_update)
    finally show ?thesis using False Cons.prems lt [of c] by (auto simp: Let_def not_le)
  qed
qed

lemma markSeen_noneSeen: "(\<exists>seen'. markSeen noneSeen cs = Inr seen') \<longleftrightarrow> distinct cs"
  using markSeen_Inr_iff [of noneSeen cs] by (auto simp: noneSeen_def cardIndex_less)

lemma markSeen_error: "\<not> distinct cs \<Longrightarrow> markSeen noneSeen cs = Inl invalid_argument"
proof -
  have "markSeen seen cs = Inl e \<Longrightarrow> e = invalid_argument" for seen e
    by (induction cs arbitrary: seen) (auto simp: Let_def split: if_splits)
  moreover assume "\<not> distinct cs"
  ultimately show ?thesis using markSeen_noneSeen by (metis sum.exhaust)
qed

end
