(* ===== verification/Hand_Evaluator.thy ===== *)
theory Hand_Evaluator
  imports Cards
begin

text \<open>
  Model of \<open>src/include/poker/domain/hand_evaluator.hpp\<close> and
  \<open>src/src/poker/domain/hand_evaluator.cpp\<close>. The arrays \<open>counts\<close> (by rank, 15 entries) and
  \<open>suit_counts\<close> (4 entries) are lists; the \<open>for (rank = 14; rank >= 2; --rank)\<close> loops run over
  \<open>ranksDown\<close>. \<open>HandValue\<close> is a datatype rather than a record so that the comparison operators of
  the class become an instance of \<open>linorder\<close>.
\<close>

section \<open>Hand values and their order\<close>

datatype HandCategory =
  high_card | one_pair | two_pair | three_of_a_kind | straight | flush | full_house
| four_of_a_kind | straight_flush

fun categoryIndex :: "HandCategory \<Rightarrow> nat" where
  "categoryIndex high_card = 0"
| "categoryIndex one_pair = 1"
| "categoryIndex two_pair = 2"
| "categoryIndex three_of_a_kind = 3"
| "categoryIndex straight = 4"
| "categoryIndex flush = 5"
| "categoryIndex full_house = 6"
| "categoryIndex four_of_a_kind = 7"
| "categoryIndex straight_flush = 8"

lemma categoryIndex_inject [simp]: "categoryIndex a = categoryIndex b \<longleftrightarrow> a = b"
  by (cases a; cases b; simp)

datatype HandValue = HandValue (category: HandCategory) (tiebreak: "nat list")

text \<open>\<open>std::array<uint8_t, 5>\<close> compares lexicographically.\<close>

fun lexLess :: "nat list \<Rightarrow> nat list \<Rightarrow> bool" where
  "lexLess [] [] = False"
| "lexLess [] (y # ys) = True"
| "lexLess (x # xs) [] = False"
| "lexLess (x # xs) (y # ys) = (if x < y then True else if y < x then False else lexLess xs ys)"

lemma lexLess_irrefl [simp]: "\<not> lexLess xs xs"
  by (induction xs) auto

lemma lexLess_trans: "lexLess xs ys \<Longrightarrow> lexLess ys zs \<Longrightarrow> lexLess xs zs"
proof (induction xs ys arbitrary: zs rule: lexLess.induct)
  case (2 y ys)
  then show ?case by (cases zs) auto
next
  case (4 x xs y ys)
  then show ?case by (cases zs) (auto split: if_splits)
qed auto

lemma lexLess_total: "lexLess xs ys \<or> xs = ys \<or> lexLess ys xs"
  by (induction xs ys rule: lexLess.induct) auto

instantiation HandValue :: linorder
begin

definition less_HandValue :: "HandValue \<Rightarrow> HandValue \<Rightarrow> bool" where
  "less_HandValue lhs rhs \<longleftrightarrow>
     categoryIndex (category lhs) < categoryIndex (category rhs) \<or>
     (category lhs = category rhs \<and> lexLess (tiebreak lhs) (tiebreak rhs))"

definition less_eq_HandValue :: "HandValue \<Rightarrow> HandValue \<Rightarrow> bool" where
  "less_eq_HandValue lhs rhs \<longleftrightarrow> \<not> rhs < lhs"

instance
proof
  fix x y z :: HandValue
  show "(x < y) = (x \<le> y \<and> \<not> y \<le> x)"
    by (auto simp: less_HandValue_def less_eq_HandValue_def dest: lexLess_trans)
  show "x \<le> x" by (simp add: less_HandValue_def less_eq_HandValue_def)
  show "x \<le> y \<Longrightarrow> y \<le> z \<Longrightarrow> x \<le> z"
    unfolding less_HandValue_def less_eq_HandValue_def
    using categoryIndex_inject lexLess_trans lexLess_total by (metis linorder_neqE_nat order.strict_trans)
  show "x \<le> y \<Longrightarrow> y \<le> x \<Longrightarrow> x = y"
    using lexLess_total [of "tiebreak x" "tiebreak y"]
    by (auto simp: less_HandValue_def less_eq_HandValue_def not_less intro!: HandValue.expand)
  show "x \<le> y \<or> y \<le> x"
    by (auto simp: less_HandValue_def less_eq_HandValue_def dest: lexLess_trans)
qed

end

section \<open>The evaluator\<close>

definition ranksDown :: "nat list" where
  "ranksDown = rev [2..<15]"

text \<open>\<open>straightHigh\<close>: \<open>consecutive\<close> is the running length of the current run of present ranks.\<close>

fun straightScan :: "nat list \<Rightarrow> nat \<Rightarrow> nat list \<Rightarrow> nat option" where
  "straightScan counts consecutive [] = None"
| "straightScan counts consecutive (r # rs) =
     (if counts ! r > 0
      then (if consecutive + 1 = 5 then Some (r + 4) else straightScan counts (consecutive + 1) rs)
      else straightScan counts 0 rs)"

definition straightHigh :: "nat list \<Rightarrow> nat" where
  "straightHigh counts =
     (case straightScan counts 0 ranksDown of
        Some high \<Rightarrow> high
      | None \<Rightarrow>
          (if counts ! 14 > 0 \<and> counts ! 2 > 0 \<and> counts ! 3 > 0 \<and> counts ! 4 > 0 \<and> counts ! 5 > 0
           then 5 else 0))"

definition descendingRanks :: "nat list \<Rightarrow> nat list" where
  "descendingRanks counts = concat (map (\<lambda>r. replicate (counts ! r) r) ranksDown)"

text \<open>The counting loop of \<open>evaluateFive\<close>.\<close>

fun countCards :: "bool list \<times> nat list \<times> nat list \<Rightarrow> Card list
    \<Rightarrow> (bool list \<times> nat list \<times> nat list) result" where
  "countCards st [] = Inr st"
| "countCards (seen, counts, suit_counts) (c # rest) =
     (let index = cardIndex c in
      if index \<ge> length seen \<or> seen ! index then Inl invalid_argument
      else countCards
             (seen[index := True],
              counts[rankValue (rank c) := counts ! rankValue (rank c) + 1],
              suit_counts[suitValue (suit c) := suit_counts ! suitValue (suit c) + 1]) rest)"

text \<open>The loop that finds \<open>four\<close>, \<open>three\<close> and up to two \<open>pairs\<close>.\<close>

fun groupScan :: "nat list \<Rightarrow> nat \<times> nat \<times> nat list \<Rightarrow> nat list \<Rightarrow> nat \<times> nat \<times> nat list" where
  "groupScan counts acc [] = acc"
| "groupScan counts (quad, trip, pairs) (r # rs) =
     (let count = counts ! r in
      if count = 4 then groupScan counts (r, trip, pairs) rs
      else if count = 3 then groupScan counts (quad, r, pairs) rs
      else if count = 2 \<and> length pairs < 2 then groupScan counts (quad, trip, pairs @ [r]) rs
      else groupScan counts (quad, trip, pairs) rs)"

text \<open>The kicker loops: the ranks that occur once, from the ace down, at most \<open>n\<close> of them. The
  result array starts as zeros, hence the padding.\<close>

definition kickers :: "nat list \<Rightarrow> nat \<Rightarrow> nat list" where
  "kickers counts n =
     (let found = take n (filter (\<lambda>r. counts ! r = 1) ranksDown)
      in found @ replicate (n - length found) 0)"

definition evaluateFive :: "Card list \<Rightarrow> HandValue result" where
  "evaluateFive cards =
     bind_result (countCards (noneSeen, replicate 15 0, replicate 4 0) cards)
       (\<lambda>(seen, counts, suit_counts).
         let is_flush = list_ex (\<lambda>count. count = 5) suit_counts;
             high = straightHigh counts;
             (quad, trip, pairs) = groupScan counts (0, 0, []) ranksDown
         in Inr
           (if is_flush \<and> high \<noteq> 0 then HandValue straight_flush [high, 0, 0, 0, 0]
            else if quad \<noteq> 0 then HandValue four_of_a_kind ([quad] @ kickers counts 1 @ [0, 0, 0])
            else if trip \<noteq> 0 \<and> length pairs > 0 then
              HandValue full_house [trip, pairs ! 0, 0, 0, 0]
            else if is_flush then HandValue flush (descendingRanks counts)
            else if high \<noteq> 0 then HandValue straight [high, 0, 0, 0, 0]
            else if trip \<noteq> 0 then HandValue three_of_a_kind ([trip] @ kickers counts 2 @ [0, 0])
            else if length pairs \<ge> 2 then
              HandValue two_pair ([pairs ! 0, pairs ! 1] @ kickers counts 1 @ [0, 0])
            else if length pairs = 1 then
              HandValue one_pair ([pairs ! 0] @ kickers counts 3 @ [0])
            else HandValue high_card (descendingRanks counts)))"

text \<open>The five nested index loops of \<open>evaluateBest\<close>, in the order they run.\<close>

definition fiveIndices :: "nat \<Rightarrow> nat list list" where
  "fiveIndices n =
     concat (map (\<lambda>a. concat (map (\<lambda>b. concat (map (\<lambda>c. concat (map (\<lambda>d. map (\<lambda>e. [a, b, c, d, e])
       [Suc d..<n]) [Suc c..<n - 1])) [Suc b..<n - 2])) [Suc a..<n - 3])) [0..<n - 4])"

fun bestOf :: "Card list \<Rightarrow> HandValue option \<Rightarrow> nat list list \<Rightarrow> HandValue option result" where
  "bestOf cards best [] = Inr best"
| "bestOf cards best (ix # rest) =
     bind_result (evaluateFive (map (nth cards) ix))
       (\<lambda>v. case best of
              None \<Rightarrow> bestOf cards (Some v) rest
            | Some b \<Rightarrow> bestOf cards (Some (if b < v then v else b)) rest)"

definition evaluateBest :: "Card list \<Rightarrow> HandValue result" where
  "evaluateBest cards =
     (if length cards < 5 \<or> length cards > 7 then Inl invalid_argument
      else bind_result (markSeen noneSeen cards)
        (\<lambda>_. bind_result (bestOf cards None (fiveIndices (length cards)))
          (\<lambda>best. Inr (case best of None \<Rightarrow> HandValue high_card [0, 0, 0, 0, 0] | Some b \<Rightarrow> b))))"

fun categoryToString :: "HandCategory \<Rightarrow> string" where
  "categoryToString high_card = ''high card''"
| "categoryToString one_pair = ''one pair''"
| "categoryToString two_pair = ''two pair''"
| "categoryToString three_of_a_kind = ''three of a kind''"
| "categoryToString straight = ''straight''"
| "categoryToString flush = ''flush''"
| "categoryToString full_house = ''full house''"
| "categoryToString four_of_a_kind = ''four of a kind''"
| "categoryToString straight_flush = ''straight flush''"

end
