(* ===== verification/Hand_Ranking.thy ===== *)
theory Hand_Ranking
  imports Hand_Evaluator
begin

text \<open>
  Correctness of the hand evaluator against the rules of poker. \<open>rankCount\<close> and \<open>sameSuit\<close> read the
  five cards directly; \<open>groupedRanks\<close> lists the ranks by decreasing multiplicity and, within one
  multiplicity, by decreasing rank; \<open>straightTo\<close> says that the ranks are five in a row (with the
  ace-to-five straight). \<open>pokerValue\<close> is the value the rules give to five distinct cards. The main
  results: \<open>evaluateFive\<close> returns exactly \<open>pokerValue\<close>, does not depend on the order of the cards,
  rejects exactly the hands with a repeated card; \<open>evaluateBest\<close> returns the greatest value of a
  five-card selection.
\<close>

section \<open>The rules\<close>

definition rankCount :: "Card list \<Rightarrow> nat \<Rightarrow> nat" where
  "rankCount cs r = count_list (map (\<lambda>c. rankValue (rank c)) cs) r"

definition suitCount :: "Card list \<Rightarrow> nat \<Rightarrow> nat" where
  "suitCount cs s = count_list (map (\<lambda>c. suitValue (suit c)) cs) s"

definition rankSet :: "Card list \<Rightarrow> nat set" where
  "rankSet cs = (\<lambda>c. rankValue (rank c)) ` set cs"

definition sameSuit :: "Card list \<Rightarrow> bool" where
  "sameSuit cs \<longleftrightarrow> (\<exists>s. \<forall>c \<in> set cs. suit c = s)"

definition straightTo :: "Card list \<Rightarrow> nat \<Rightarrow> bool" where
  "straightTo cs h \<longleftrightarrow>
     (6 \<le> h \<and> h \<le> 14 \<and> rankSet cs = {h - 4, h - 3, h - 2, h - 1, h}) \<or>
     (h = 5 \<and> rankSet cs = {14, 2, 3, 4, 5})"

definition ofMultiplicity :: "Card list \<Rightarrow> nat \<Rightarrow> nat list" where
  "ofMultiplicity cs k = filter (\<lambda>r. rankCount cs r = k) ranksDown"

definition groupedRanks :: "Card list \<Rightarrow> nat list" where
  "groupedRanks cs =
     ofMultiplicity cs 4 @ ofMultiplicity cs 3 @ ofMultiplicity cs 2 @ ofMultiplicity cs 1"

definition groupCategory :: "Card list \<Rightarrow> HandCategory" where
  "groupCategory cs =
     (if ofMultiplicity cs 4 \<noteq> [] then four_of_a_kind
      else if ofMultiplicity cs 3 \<noteq> [] \<and> ofMultiplicity cs 2 \<noteq> [] then full_house
      else if sameSuit cs then flush
      else if ofMultiplicity cs 3 \<noteq> [] then three_of_a_kind
      else if length (ofMultiplicity cs 2) = 2 then two_pair
      else if length (ofMultiplicity cs 2) = 1 then one_pair
      else high_card)"

definition padTo5 :: "nat list \<Rightarrow> nat list" where
  "padTo5 xs = xs @ replicate (5 - length xs) 0"

definition pokerValue :: "Card list \<Rightarrow> HandValue \<Rightarrow> bool" where
  "pokerValue cs v \<longleftrightarrow>
     (if \<exists>h. straightTo cs h
      then v = HandValue (if sameSuit cs then straight_flush else straight)
                 (padTo5 [THE h. straightTo cs h])
      else v = HandValue (groupCategory cs) (padTo5 (groupedRanks cs)))"

section \<open>Counting\<close>

lemma countCards_markSeen:
  "length seen = 52 \<Longrightarrow> length counts = 15 \<Longrightarrow> length sc = 4 \<Longrightarrow>
   countCards (seen, counts, sc) cs =
     bind_result (markSeen seen cs) (\<lambda>seen'.
       Inr (seen', map (\<lambda>r. counts ! r + rankCount cs r) [0..<15],
            map (\<lambda>s. sc ! s + suitCount cs s) [0..<4]))"
proof (induction cs arbitrary: seen counts sc)
  case Nil
  have "map (\<lambda>r. counts ! r) [0..<15] = counts" "map (\<lambda>s. sc ! s) [0..<4] = sc"
    using Nil.prems map_nth [of counts] map_nth [of sc] by simp_all
  then show ?case by (simp add: rankCount_def suitCount_def del: upt_Suc)
next
  case (Cons c cs)
  let ?r = "rankValue (rank c)" and ?s = "suitValue (suit c)"
  have r: "?r < 15" and s: "?s < 4"
    using rankValue_bounds [of "rank c"] suitValue_le [of "suit c"] by auto
  have req: "map (\<lambda>r. counts[?r := Suc (counts ! ?r)] ! r + rankCount cs r) [0..<15]
      = map (\<lambda>r. counts ! r + rankCount (c # cs) r) [0..<15]"
    using Cons.prems r by (intro map_cong) (auto simp: nth_list_update rankCount_def simp del: upt_Suc)
  have seq: "map (\<lambda>s. sc[?s := Suc (sc ! ?s)] ! s + suitCount cs s) [0..<4]
      = map (\<lambda>s. sc ! s + suitCount (c # cs) s) [0..<4]"
    using Cons.prems s by (intro map_cong) (auto simp: nth_list_update suitCount_def simp del: upt_Suc)
  have "countCards (seen[cardIndex c := True], counts[?r := Suc (counts ! ?r)],
        sc[?s := Suc (sc ! ?s)]) cs =
      bind_result (markSeen (seen[cardIndex c := True]) cs) (\<lambda>seen'.
       Inr (seen', map (\<lambda>r. counts ! r + rankCount (c # cs) r) [0..<15],
            map (\<lambda>s. sc ! s + suitCount (c # cs) s) [0..<4]))"
    unfolding req [symmetric] seq [symmetric] using Cons.prems by (intro Cons.IH) simp_all
  then show ?case by (simp add: Let_def del: upt_Suc)
qed

definition rankCounts :: "Card list \<Rightarrow> nat list" where
  "rankCounts cs = map (rankCount cs) [0..<15]"

definition suitCounts :: "Card list \<Rightarrow> nat list" where
  "suitCounts cs = map (suitCount cs) [0..<4]"

lemma countCards_start:
  "countCards (noneSeen, replicate 15 0, replicate 4 0) cs =
     bind_result (markSeen noneSeen cs) (\<lambda>seen'. Inr (seen', rankCounts cs, suitCounts cs))"
proof -
  have "map (\<lambda>r. replicate 15 0 ! r + rankCount cs r) [0..<15] = rankCounts cs"
    "map (\<lambda>s. replicate 4 0 ! s + suitCount cs s) [0..<4] = suitCounts cs"
    unfolding rankCounts_def suitCounts_def by (intro map_cong; simp)+
  then show ?thesis by (simp add: countCards_markSeen del: upt_Suc replicate.simps)
qed

lemma set_ranksDown: "set ranksDown = {2..14}"
proof -
  have "set ranksDown = {2..<15}" unfolding ranksDown_def set_rev set_upt by (rule refl)
  also have "{2..<15} = {2..14 :: nat}"
    by (rule set_eqI) (simp only: atLeastLessThan_iff atLeastAtMost_iff, arith)
  finally show ?thesis .
qed

lemma rankCounts_nth [simp]: "r \<in> set ranksDown \<Longrightarrow> rankCounts cs ! r = rankCount cs r"
  by (auto simp: rankCounts_def set_ranksDown simp del: upt_Suc)

lemma rankCount_sum: "sum_list (map (rankCount cs) ranksDown) = length cs"
proof (induction cs)
  case Nil
  then show ?case by (simp add: rankCount_def ranksDown_def)
next
  case (Cons c cs)
  let ?r = "rankValue (rank c)"
  have r: "?r \<in> set ranksDown" using rankValue_bounds [of "rank c"] by (simp add: set_ranksDown)
  have d: "distinct ranksDown" by (simp add: ranksDown_def)
  have "sum_list (map (\<lambda>r. if r = ?r then 1 else 0 :: nat) ranksDown) = 1"
    using r d by (simp add: sum_list_distinct_conv_sum_set)
  moreover have "rankCount (c # cs) r = rankCount cs r + (if r = ?r then 1 else 0)" for r
    by (simp add: rankCount_def)
  ultimately show ?case using Cons by (simp add: sum_list_addf)
qed

lemma rankCount_pos_iff: "rankCount cs r > 0 \<longleftrightarrow> r \<in> rankSet cs"
  by (auto simp: rankCount_def rankSet_def count_list_0_iff neq0_conv [symmetric])

section \<open>Multiplicities of five cards\<close>

lemma sum_list_multiplicity:
  fixes f :: "'a \<Rightarrow> nat"
  assumes "\<forall>x \<in> set xs. f x \<le> 4"
  shows "sum_list (map f xs) = 4 * length (filter (\<lambda>x. f x = 4) xs) + 3 * length (filter (\<lambda>x. f x = 3) xs)
    + 2 * length (filter (\<lambda>x. f x = 2) xs) + length (filter (\<lambda>x. f x = 1) xs)"
  using assms
proof (induction xs)
  case (Cons x xs)
  then have "f x = 0 \<or> f x = 1 \<or> f x = 2 \<or> f x = 3 \<or> f x = 4" by auto
  with Cons show ?case by auto
qed simp

text \<open>Four suits: distinct cards hold a rank at most four times.\<close>

lemma rankCount_le_4: "distinct cs \<Longrightarrow> rankCount cs r \<le> 4"
proof -
  assume d: "distinct cs"
  let ?xs = "filter (\<lambda>c. rankValue (rank c) = r) cs"
  have "inj_on suit (set ?xs)" by (auto intro!: inj_onI Card.equality)
  moreover have "suit ` set ?xs \<subseteq> {clubs, diamonds, hearts, spades}"
    using Suit.exhaust by blast
  ultimately have "card (set ?xs) \<le> card {clubs, diamonds, hearts, spades}"
    by (metis card_image card_mono finite.emptyI finite.insertI)
  then have "length ?xs \<le> 4" using d by (simp add: distinct_card [symmetric])
  moreover have "rankCount cs r = length ?xs"
    by (simp add: rankCount_def count_list_eq_length_filter filter_map comp_def eq_commute)
  ultimately show ?thesis by simp
qed

lemma five_as_groups:
  fixes a b c d :: nat
  assumes "4 * a + 3 * b + 2 * c + d = 5"
  shows "a = 1 \<and> b = 0 \<and> c = 0 \<and> d = 1 \<or> a = 0 \<and> b = 1 \<and> c = 1 \<and> d = 0
    \<or> a = 0 \<and> b = 1 \<and> c = 0 \<and> d = 2 \<or> a = 0 \<and> b = 0 \<and> c = 2 \<and> d = 1
    \<or> a = 0 \<and> b = 0 \<and> c = 1 \<and> d = 3 \<or> a = 0 \<and> b = 0 \<and> c = 0 \<and> d = 5"
proof -
  have "a = 0 \<or> a = 1" "b = 0 \<or> b = 1" "c = 0 \<or> c = 1 \<or> c = 2" using assms by linarith+
  then show ?thesis using assms by (elim disjE) simp_all
qed

lemma multiplicity_cases:
  assumes "distinct cs" and "length cs = 5"
  defines "n \<equiv> \<lambda>k. length (ofMultiplicity cs k)"
  shows "n 4 = 1 \<and> n 3 = 0 \<and> n 2 = 0 \<and> n 1 = 1 \<or> n 4 = 0 \<and> n 3 = 1 \<and> n 2 = 1 \<and> n 1 = 0
    \<or> n 4 = 0 \<and> n 3 = 1 \<and> n 2 = 0 \<and> n 1 = 2 \<or> n 4 = 0 \<and> n 3 = 0 \<and> n 2 = 2 \<and> n 1 = 1
    \<or> n 4 = 0 \<and> n 3 = 0 \<and> n 2 = 1 \<and> n 1 = 3 \<or> n 4 = 0 \<and> n 3 = 0 \<and> n 2 = 0 \<and> n 1 = 5"
proof -
  have "4 * n 4 + 3 * n 3 + 2 * n 2 + n 1 = 5"
    using sum_list_multiplicity [of ranksDown "rankCount cs"] rankCount_sum [of cs] assms(1,2)
    by (simp add: n_def ofMultiplicity_def rankCount_le_4)
  then show ?thesis by (rule five_as_groups)
qed

section \<open>The scans\<close>

lemma groupScan_result:
  assumes "\<forall>r \<in> set rs. rankCounts cs ! r = rankCount cs r"
  shows "groupScan (rankCounts cs) (q, t, ps) rs =
    (last (q # filter (\<lambda>r. rankCount cs r = 4) rs), last (t # filter (\<lambda>r. rankCount cs r = 3) rs),
     ps @ take (2 - length ps) (filter (\<lambda>r. rankCount cs r = 2) rs))"
  using assms
proof (induction rs arbitrary: q t ps)
  case (Cons r rs)
  then show ?case by (cases "length ps < 2") (auto simp: Let_def Suc_diff_Suc take_Cons')
qed simp

lemma kickers_result:
  "kickers (rankCounts cs) n =
     take n (ofMultiplicity cs 1) @ replicate (n - length (ofMultiplicity cs 1)) 0"
proof -
  have "filter (\<lambda>r. rankCounts cs ! r = 1) ranksDown = ofMultiplicity cs 1"
    unfolding ofMultiplicity_def by (intro filter_cong) auto
  then show ?thesis by (simp add: kickers_def Let_def min_def)
qed

lemma descendingRanks_single:
  assumes "\<forall>r \<in> set rs. rankCount cs r \<le> 1" and "set rs \<subseteq> set ranksDown"
  shows "concat (map (\<lambda>r. replicate (rankCounts cs ! r) r) rs) = filter (\<lambda>r. rankCount cs r = 1) rs"
  using assms
proof (induction rs)
  case (Cons r rs)
  then have "rankCount cs r = 0 \<or> rankCount cs r = 1" by auto
  with Cons show ?case by auto
qed simp

lemma list_ex_suitCounts:
  assumes "length cs = 5"
  shows "list_ex (\<lambda>c. c = 5) (suitCounts cs) \<longleftrightarrow> sameSuit cs"
proof -
  have full: "suitCount cs s = 5 \<longleftrightarrow> (\<forall>c \<in> set cs. suitValue (suit c) = s)" for s
  proof -
    let ?xs = "map (\<lambda>c. suitValue (suit c)) cs"
    have "suitCount cs s = 5 \<longleftrightarrow> length (filter (\<lambda>x. s = x) ?xs) = length ?xs"
      unfolding suitCount_def count_list_eq_length_filter using assms by simp
    also have "\<dots> \<longleftrightarrow> (\<forall>x \<in> set ?xs. s = x)" by (rule length_filter_eq_iff)
    finally show ?thesis by auto
  qed
  have "list_ex (\<lambda>c. c = 5) (suitCounts cs) \<longleftrightarrow> (\<exists>s < 4. suitCount cs s = 5)"
    unfolding suitCounts_def list_ex_iff set_map set_upt by (simp only: bex_simps Bex_def atLeastLessThan_iff) auto
  also have "\<dots> \<longleftrightarrow> sameSuit cs"
  proof
    assume "\<exists>s < 4. suitCount cs s = 5"
    then obtain s where "\<forall>c \<in> set cs. suitValue (suit c) = s" using full by blast
    then show "sameSuit cs"
      unfolding sameSuit_def using castSuit_suitValue by (intro exI [of _ "castSuit s"]) metis
  next
    assume "sameSuit cs"
    then obtain s where "\<forall>c \<in> set cs. suitValue (suit c) = suitValue s" by (auto simp: sameSuit_def)
    then show "\<exists>s < 4. suitCount cs s = 5"
      using full suitValue_le [of s] by (intro exI [of _ "suitValue s"]) auto
  qed
  finally show ?thesis .
qed

section \<open>Straights\<close>

lemma straightScan_spec:
  assumes "k < 5" and "\<forall>r. m < r \<and> r \<le> m + k \<longrightarrow> counts ! r > 0" and "1 \<le> m"
  shows "(\<forall>h. straightScan counts k (rev [2..<Suc m]) = Some h \<longrightarrow>
            6 \<le> h \<and> h \<le> m + k \<and> (\<forall>r \<in> {h - 4..h}. counts ! r > 0)) \<and>
         (straightScan counts k (rev [2..<Suc m]) = None \<longrightarrow>
            (\<forall>h. 6 \<le> h \<and> h \<le> m + k \<longrightarrow> (\<exists>r \<in> {h - 4..h}. counts ! r = 0)))"
  using assms(3,1,2)
proof (induction m arbitrary: k rule: nat_induct_at_least)
  case base
  then show ?case by simp
next
  case (Suc m)
  have eq: "rev [2..<Suc (Suc m)] = Suc m # rev [2..<Suc m]" using Suc.hyps by simp
  show ?case
  proof (cases "counts ! Suc m > 0")
    case True
    show ?thesis
    proof (cases "k + 1 = 5")
      case True': True
      have "counts ! r > 0" if "r \<in> {Suc m..Suc m + 4}" for r
        using that True True' Suc.prems(2) by (cases "r = Suc m") auto
      then show ?thesis using True True' Suc.hyps unfolding eq by simp
    next
      case False
      have "\<forall>r. m < r \<and> r \<le> m + (k + 1) \<longrightarrow> counts ! r > 0"
      proof (intro allI impI)
        fix r assume "m < r \<and> r \<le> m + (k + 1)"
        then have "r = Suc m \<or> Suc m < r \<and> r \<le> Suc m + k" by auto
        then show "counts ! r > 0" using True Suc.prems(2) by auto
      qed
      moreover have "k + 1 < 5" using False Suc.prems(1) by simp
      moreover have step: "straightScan counts k (rev [2..<Suc (Suc m)]) =
          straightScan counts (k + 1) (rev [2..<Suc m])"
        unfolding eq using True False by simp
      moreover have mk: "m + (k + 1) = Suc m + k" by simp
      ultimately show ?thesis using Suc.IH [of "k + 1"] unfolding step mk by blast
    qed
  next
    case False
    have pre: "\<forall>r. m < r \<and> r \<le> m + 0 \<longrightarrow> counts ! r > 0" by simp
    have five: "(0::nat) < 5" by simp
    note both = Suc.IH [OF five pre, unfolded add_0_right]
    note IH = both [THEN conjunct1] both [THEN conjunct2]
    have gap: "\<exists>r \<in> {h - 4..h}. counts ! r = 0" if "6 \<le> h" "h \<le> Suc m + k" "\<not> h \<le> m" for h
      using that False Suc.prems(1) by (intro bexI [of _ "Suc m"]) auto
    have step: "straightScan counts k (rev [2..<Suc (Suc m)]) = straightScan counts 0 (rev [2..<Suc m])"
      unfolding eq using False by simp
    show ?thesis unfolding step
    proof (intro conjI allI impI)
      fix h assume "straightScan counts 0 (rev [2..<Suc m]) = Some h"
      with IH(1) have "6 \<le> h \<and> h \<le> m \<and> (\<forall>r \<in> {h - 4..h}. counts ! r > 0)" by blast
      then show "6 \<le> h" "h \<le> Suc m + k" "\<forall>r \<in> {h - 4..h}. counts ! r > 0" by auto
    next
      fix h assume "straightScan counts 0 (rev [2..<Suc m]) = None" and "6 \<le> h \<and> h \<le> Suc m + k"
      then show "\<exists>r \<in> {h - 4..h}. counts ! r = 0" using IH(2) gap by (cases "h \<le> m") blast+
    qed
  qed
qed

lemma ranksDown_upt: "ranksDown = rev [2..<Suc 14]"
  by (simp only: ranksDown_def) simp

lemma straightScan_zero:
  "(\<forall>h. straightScan counts 0 ranksDown = Some h \<longrightarrow>
      6 \<le> h \<and> h \<le> 14 \<and> (\<forall>r \<in> {h - 4..h}. counts ! r > 0)) \<and>
   (straightScan counts 0 ranksDown = None \<longrightarrow>
      (\<forall>h. 6 \<le> h \<and> h \<le> 14 \<longrightarrow> (\<exists>r \<in> {h - 4..h}. counts ! r = 0)))"
proof -
  have pre: "(0::nat) < 5" "\<forall>r. 14 < r \<and> r \<le> 14 + 0 \<longrightarrow> counts ! r > 0" "(1::nat) \<le> 14" by auto
  show ?thesis using straightScan_spec [OF pre] unfolding ranksDown_upt by (simp only: add_0_right)
qed

lemma rankSet_card: "length cs = 5 \<Longrightarrow> finite (rankSet cs) \<and> card (rankSet cs) \<le> 5"
  unfolding rankSet_def by (metis card_image_le card_length finite_imageI finite_set le_trans)

lemma rankSet_range: "r \<in> rankSet cs \<Longrightarrow> 2 \<le> r \<and> r \<le> 14"
  using rankValue_bounds by (auto simp: rankSet_def)

lemma rankCounts_pos: "r < 15 \<Longrightarrow> rankCounts cs ! r > 0 \<longleftrightarrow> r \<in> rankSet cs"
  by (simp add: rankCounts_def rankCount_pos_iff del: upt_Suc)

lemma run_is_set: "6 \<le> h \<Longrightarrow> {h - 4..h} = {h - 4, h - 3, h - 2, h - 1, h :: nat}"
  by auto

lemma straightScan_Some:
  assumes "straightScan (rankCounts cs) 0 ranksDown = Some h"
  shows "6 \<le> h \<and> h \<le> 14 \<and> {h - 4..h} \<subseteq> rankSet cs"
proof -
  have "6 \<le> h \<and> h \<le> 14 \<and> (\<forall>r \<in> {h - 4..h}. rankCounts cs ! r > 0)"
    using straightScan_zero [of "rankCounts cs"] assms by blast
  then show ?thesis using rankCounts_pos [of _ cs] by auto
qed

lemma straightScan_None:
  assumes "straightScan (rankCounts cs) 0 ranksDown = None" and "6 \<le> h" "h \<le> 14"
  shows "\<not> {h - 4..h} \<subseteq> rankSet cs"
proof -
  have "\<exists>r \<in> {h - 4..h}. rankCounts cs ! r = 0"
  proof -
    have "\<forall>h. 6 \<le> h \<and> h \<le> 14 \<longrightarrow> (\<exists>r \<in> {h - 4..h}. rankCounts cs ! r = 0)"
      using straightScan_zero [of "rankCounts cs"] assms(1) by blast
    then show ?thesis using assms(2,3) by simp
  qed
  then obtain r where "r \<in> {h - 4..h}" "\<not> rankCounts cs ! r > 0" by auto
  then have "r \<notin> rankSet cs" using rankCounts_pos [of r cs] assms(3) by auto
  with \<open>r \<in> {h - 4..h}\<close> show ?thesis by blast
qed

lemma straightTo_straightHigh:
  assumes "straightTo cs h"
  shows "straightHigh (rankCounts cs) = h"
proof (cases "straightScan (rankCounts cs) 0 ranksDown")
  case None
  then have "\<not> (6 \<le> h \<and> h \<le> 14 \<and> rankSet cs = {h - 4, h - 3, h - 2, h - 1, h})"
    using straightScan_None [OF None] run_is_set by (metis order_refl)
  with assms have "h = 5" "rankSet cs = {14, 2, 3, 4, 5}" by (auto simp: straightTo_def)
  then show ?thesis using None by (simp add: straightHigh_def rankCounts_pos)
next
  case (Some h')
  from straightScan_Some [OF Some] have h': "6 \<le> h'" "h' \<le> 14" "{h' - 4..h'} \<subseteq> rankSet cs" by auto
  then have in_set: "h' \<in> rankSet cs" "h' - 1 \<in> rankSet cs" "h' - 4 \<in> rankSet cs" by auto
  have "h' = h"
    using assms unfolding straightTo_def
  proof
    assume "6 \<le> h \<and> h \<le> 14 \<and> rankSet cs = {h - 4, h - 3, h - 2, h - 1, h}"
    then have "rankSet cs = {h - 4..h}" "6 \<le> h" by (auto simp: run_is_set)
    then show ?thesis using in_set h'(1) by auto
  next
    assume "h = 5 \<and> rankSet cs = {14, 2, 3, 4, 5}"
    then show ?thesis using in_set h'(1,2) by auto
  qed
  with Some show ?thesis by (simp add: straightHigh_def)
qed

lemma straightHigh_straightTo:
  assumes "length cs = 5" and "straightHigh (rankCounts cs) \<noteq> 0"
  shows "straightTo cs (straightHigh (rankCounts cs))"
proof (cases "straightScan (rankCounts cs) 0 ranksDown")
  case None
  with assms(2) have "{14, 2, 3, 4, 5} \<subseteq> rankSet cs" and h: "straightHigh (rankCounts cs) = 5"
    by (auto simp: straightHigh_def rankCounts_pos split: if_splits)
  moreover have "card {14, 2, 3, 4, 5 :: nat} = 5" by simp
  ultimately have "rankSet cs = {14, 2, 3, 4, 5}"
    using rankSet_card [OF assms(1)] by (metis card_seteq)
  with h show ?thesis by (simp add: straightTo_def)
next
  case (Some h)
  from straightScan_Some [OF Some] have h: "6 \<le> h" "h \<le> 14" "{h - 4..h} \<subseteq> rankSet cs" by auto
  have "card {h - 4..h} = 5" using h(1) by simp
  then have "rankSet cs = {h - 4..h}" using rankSet_card [OF assms(1)] h(3) by (metis card_seteq)
  then show ?thesis using Some h run_is_set by (simp add: straightHigh_def straightTo_def)
qed

text \<open>Five ranks in a row leave no pair.\<close>

lemma straightTo_multiplicity:
  assumes "distinct cs" and "length cs = 5" and "straightTo cs h"
  shows "ofMultiplicity cs 4 = [] \<and> ofMultiplicity cs 3 = [] \<and> ofMultiplicity cs 2 = []"
proof -
  have "card (rankSet cs) = 5" if "6 \<le> h" "rankSet cs = {h - 4, h - 3, h - 2, h - 1, h}"
    unfolding that(2) run_is_set [OF that(1), symmetric] using that(1) by simp
  then have card5: "card (rankSet cs) = 5"
    using assms(3) by (auto simp: straightTo_def)
  have "set (ofMultiplicity cs 4 @ ofMultiplicity cs 3 @ ofMultiplicity cs 2 @ ofMultiplicity cs 1)
      = rankSet cs"
  proof -
    have "r \<in> rankSet cs \<longleftrightarrow> r \<in> set ranksDown \<and> rankCount cs r \<in> {4, 3, 2, 1}" for r
      using rankCount_le_4 [OF assms(1), of r] rankCount_pos_iff [of cs r] rankSet_range [of r cs]
      by (auto simp: set_ranksDown)
    then show ?thesis by (auto simp: ofMultiplicity_def)
  qed
  then have "5 \<le> length (ofMultiplicity cs 4 @ ofMultiplicity cs 3 @ ofMultiplicity cs 2 @ ofMultiplicity cs 1)"
    using card5 card_length by metis
  then show ?thesis using multiplicity_cases [OF assms(1,2)] by auto
qed

text \<open>Five distinct cards of one suit have five different ranks.\<close>

lemma flush_no_pairs:
  assumes "distinct cs" and "length cs = 5" and "sameSuit cs"
  shows "ofMultiplicity cs 4 = [] \<and> ofMultiplicity cs 3 = [] \<and> ofMultiplicity cs 2 = []"
proof -
  have "inj_on (\<lambda>c. rankValue (rank c)) (set cs)"
    using assms(3) by (auto simp: sameSuit_def intro!: inj_onI Card.equality)
  then have "distinct (map (\<lambda>c. rankValue (rank c)) cs)" using assms(1) by (simp add: distinct_map)
  then have "rankCount cs r \<le> 1" for r
    by (simp add: rankCount_def distinct_count_atmost_1 count_mset flip: count_mset)
  then have "rankCount cs r \<noteq> 4" "rankCount cs r \<noteq> 3" "rankCount cs r \<noteq> 2" for r
    by (metis One_nat_def Suc_le_mono numeral_2_eq_2 numeral_3_eq_3 not_less_eq_eq le0 numeral_le_one_iff semiring_norm(69,70))+
  then show ?thesis by (simp add: ofMultiplicity_def)
qed

section \<open>evaluateFive implements the rules\<close>

definition classify :: "Card list \<Rightarrow> HandValue" where
  "classify cs =
     (let counts = rankCounts cs; is_flush = sameSuit cs; high = straightHigh counts;
          q = last (0 # ofMultiplicity cs 4); t = last (0 # ofMultiplicity cs 3);
          pairs = take 2 (ofMultiplicity cs 2)
      in if is_flush \<and> high \<noteq> 0 then HandValue straight_flush [high, 0, 0, 0, 0]
         else if q \<noteq> 0 then HandValue four_of_a_kind ([q] @ kickers counts 1 @ [0, 0, 0])
         else if t \<noteq> 0 \<and> length pairs > 0 then HandValue full_house [t, pairs ! 0, 0, 0, 0]
         else if is_flush then HandValue flush (descendingRanks counts)
         else if high \<noteq> 0 then HandValue straight [high, 0, 0, 0, 0]
         else if t \<noteq> 0 then HandValue three_of_a_kind ([t] @ kickers counts 2 @ [0, 0])
         else if length pairs \<ge> 2 then HandValue two_pair ([pairs ! 0, pairs ! 1] @ kickers counts 1 @ [0, 0])
         else if length pairs = 1 then HandValue one_pair ([pairs ! 0] @ kickers counts 3 @ [0])
         else HandValue high_card (descendingRanks counts))"

lemma evaluateFive_classify:
  assumes "length cs = 5"
  shows "evaluateFive cs = bind_result (markSeen noneSeen cs) (\<lambda>_. Inr (classify cs))"
proof -
  have groups: "groupScan (rankCounts cs) (0, 0, []) ranksDown =
      (last (0 # ofMultiplicity cs 4), last (0 # ofMultiplicity cs 3), take 2 (ofMultiplicity cs 2))"
    using groupScan_result [of ranksDown cs 0 0 "[]"] by (simp add: ofMultiplicity_def)
  show ?thesis
    unfolding evaluateFive_def countCards_start classify_def Let_def
    by (cases "markSeen noneSeen cs") (simp_all add: groups list_ex_suitCounts [OF assms])
qed

lemma evaluateFive_ok: "length cs = 5 \<Longrightarrow> distinct cs \<Longrightarrow> evaluateFive cs = Inr (classify cs)"
  using markSeen_noneSeen [of cs] by (auto simp: evaluateFive_classify)

lemma evaluateFive_dup: "length cs = 5 \<Longrightarrow> \<not> distinct cs \<Longrightarrow> evaluateFive cs = Inl invalid_argument"
  by (simp add: evaluateFive_classify markSeen_error)

lemma ofMultiplicity_pos: "r \<in> set (ofMultiplicity cs k) \<Longrightarrow> r \<noteq> 0"
  by (auto simp: ofMultiplicity_def set_ranksDown)

lemma descendingRanks_high:
  assumes "ofMultiplicity cs 4 = []" "ofMultiplicity cs 3 = []" "ofMultiplicity cs 2 = []" "distinct cs"
  shows "descendingRanks (rankCounts cs) = ofMultiplicity cs 1"
proof -
  have "rankCount cs r \<le> 1" if "r \<in> set ranksDown" for r
  proof -
    have "rankCount cs r \<noteq> 4" "rankCount cs r \<noteq> 3" "rankCount cs r \<noteq> 2"
      using that assms(1-3) by (auto simp: ofMultiplicity_def filter_empty_conv)
    then show ?thesis using rankCount_le_4 [OF assms(4), of r] by linarith
  qed
  then show ?thesis
    using descendingRanks_single [of ranksDown cs] by (simp add: descendingRanks_def ofMultiplicity_def)
qed

lemma length_1_conv: "length xs = 1 \<longleftrightarrow> (\<exists>a. xs = [a])"
  by (cases xs) auto

lemma length_2_conv: "length xs = 2 \<longleftrightarrow> (\<exists>a b. xs = [a, b])"
  by (cases xs; cases "tl xs") auto

lemma length_3_conv: "length xs = 3 \<longleftrightarrow> (\<exists>a b c. xs = [a, b, c])"
  by (auto simp: numeral_eq_Suc length_Suc_conv)

lemma replicate_numerals: "replicate 2 x = [x, x]" "replicate 3 x = [x, x, x]"
  by (simp_all add: numeral_eq_Suc)

lemma classify_group:
  assumes "distinct cs" and "length cs = 5" and "straightHigh (rankCounts cs) = 0"
  shows "classify cs = HandValue (groupCategory cs) (padTo5 (groupedRanks cs))"
proof -
  note defs = classify_def Let_def groupCategory_def padTo5_def groupedRanks_def kickers_result assms(3) replicate_numerals
  note pos = ofMultiplicity_pos [of _ cs]
  note convs = length_1_conv length_2_conv length_3_conv
  consider
      "length (ofMultiplicity cs 4) = 1" "ofMultiplicity cs 3 = []" "ofMultiplicity cs 2 = []"
        "length (ofMultiplicity cs 1) = 1"
    | "ofMultiplicity cs 4 = []" "length (ofMultiplicity cs 3) = 1" "length (ofMultiplicity cs 2) = 1"
        "ofMultiplicity cs 1 = []"
    | "ofMultiplicity cs 4 = []" "length (ofMultiplicity cs 3) = 1" "ofMultiplicity cs 2 = []"
        "length (ofMultiplicity cs 1) = 2"
    | "ofMultiplicity cs 4 = []" "ofMultiplicity cs 3 = []" "length (ofMultiplicity cs 2) = 2"
        "length (ofMultiplicity cs 1) = 1"
    | "ofMultiplicity cs 4 = []" "ofMultiplicity cs 3 = []" "length (ofMultiplicity cs 2) = 1"
        "length (ofMultiplicity cs 1) = 3"
    | "ofMultiplicity cs 4 = []" "ofMultiplicity cs 3 = []" "ofMultiplicity cs 2 = []"
        "length (ofMultiplicity cs 1) = 5"
    using multiplicity_cases [OF assms(1,2)] by auto
  then show ?thesis
  proof cases
    case 1
    then obtain a b where "ofMultiplicity cs 4 = [a]" "ofMultiplicity cs 1 = [b]" unfolding convs by blast
    then show ?thesis using 1 pos [of a 4] by (simp add: defs)
  next
    case 2
    then obtain a b where "ofMultiplicity cs 3 = [a]" "ofMultiplicity cs 2 = [b]" unfolding convs by blast
    then show ?thesis using 2 pos [of a 3] by (simp add: defs)
  next
    case 3
    then obtain a b c where "ofMultiplicity cs 3 = [a]" "ofMultiplicity cs 1 = [b, c]" unfolding convs by blast
    moreover have "\<not> sameSuit cs" using 3 flush_no_pairs [OF assms(1,2)] by auto
    ultimately show ?thesis using 3 pos [of a 3] by (simp add: defs)
  next
    case 4
    then obtain a b c where "ofMultiplicity cs 2 = [a, b]" "ofMultiplicity cs 1 = [c]" unfolding convs by blast
    moreover have "\<not> sameSuit cs" using 4 flush_no_pairs [OF assms(1,2)] by auto
    ultimately show ?thesis using 4 by (simp add: defs)
  next
    case 5
    then obtain a b c d where "ofMultiplicity cs 2 = [a]" "ofMultiplicity cs 1 = [b, c, d]"
      unfolding convs by blast
    moreover have "\<not> sameSuit cs" using 5 flush_no_pairs [OF assms(1,2)] by auto
    ultimately show ?thesis using 5 by (simp add: defs)
  next
    case 6
    then show ?thesis using descendingRanks_high [OF 6(1-3) assms(1)] by (simp add: defs)
  qed
qed

lemma straightTo_unique: "straightTo cs h \<Longrightarrow> (THE x. straightTo cs x) = h"
  using straightTo_straightHigh by (metis the_equality)

lemma classify_straight:
  assumes "distinct cs" and "length cs = 5" and "straightTo cs h"
  shows "classify cs = HandValue (if sameSuit cs then straight_flush else straight) [h, 0, 0, 0, 0]"
proof -
  have "h \<noteq> 0" using assms(3) by (auto simp: straightTo_def)
  then show ?thesis
    using straightTo_multiplicity [OF assms] straightTo_straightHigh [OF assms(3)]
    by (simp add: classify_def Let_def)
qed

lemma pokerValue_classify:
  assumes "distinct cs" and "length cs = 5"
  shows "pokerValue cs v \<longleftrightarrow> v = classify cs"
proof (cases "\<exists>h. straightTo cs h")
  case True
  then obtain h where "straightTo cs h" by blast
  then show ?thesis
    using True classify_straight [OF assms] straightTo_unique [of cs h]
    by (auto simp: pokerValue_def padTo5_def numeral_eq_Suc)
next
  case False
  then have "straightHigh (rankCounts cs) = 0" using straightHigh_straightTo [OF assms(2)] by blast
  with False show ?thesis using classify_group [OF assms] by (simp add: pokerValue_def)
qed

section \<open>The order of the cards does not matter\<close>

lemma classify_perm:
  assumes "mset cs = mset ds"
  shows "classify cs = classify ds"
proof -
  have "rankCount cs = rankCount ds"
    using assms by (auto simp: rankCount_def fun_eq_iff simp flip: count_mset)
  moreover have "sameSuit cs = sameSuit ds"
    using mset_eq_setD [OF assms] by (simp add: sameSuit_def)
  ultimately show ?thesis
    by (simp add: classify_def ofMultiplicity_def rankCounts_def del: upt_Suc)
qed

lemma same_cards:
  assumes "set cs = set ds" "distinct cs" "distinct ds"
  shows "classify cs = classify ds"
  using assms by (intro classify_perm) (simp add: set_eq_iff_mset_eq_distinct)

section \<open>The best five of up to seven\<close>

lemma set_fiveIndices:
  "set (fiveIndices n) = {[a, b, c, d, e] | a b c d e. a < b \<and> b < c \<and> c < d \<and> d < e \<and> e < n}"
proof (intro equalityI subsetI)
  fix x assume "x \<in> set (fiveIndices n)"
  then show "x \<in> {[a, b, c, d, e] | a b c d e. a < b \<and> b < c \<and> c < d \<and> d < e \<and> e < n}"
    by (auto simp: fiveIndices_def)
next
  fix x assume "x \<in> {[a, b, c, d, e] | a b c d e. a < b \<and> b < c \<and> c < d \<and> d < e \<and> e < n}"
  then obtain a b c d e where x: "x = [a, b, c, d, e]" "a < b" "b < c" "c < d" "d < e" "e < n" by blast
  then have "a \<in> {0..<n - 4}" "b \<in> {Suc a..<n - 3}" "c \<in> {Suc b..<n - 2}" "d \<in> {Suc c..<n - 1}"
    "e \<in> {Suc d..<n}" by auto
  then show "x \<in> set (fiveIndices n)"
    unfolding fiveIndices_def x(1) set_concat set_map set_upt image_image
    by (intro UN_I) (assumption | rule image_eqI [OF refl])+
qed

lemma sorted_five_index:
  assumes "sorted_wrt (<) ix" "length ix = 5" "\<forall>i \<in> set ix. i < n"
  shows "ix \<in> set (fiveIndices n)"
proof -
  from assms(2) obtain a b c d e where ix: "ix = [a, b, c, d, e]"
    by (auto simp: numeral_eq_Suc length_Suc_conv)
  then show ?thesis using assms(1,3) by (auto simp: set_fiveIndices)
qed

lemma fiveIndices_hand:
  assumes "ix \<in> set (fiveIndices (length cards))" and "distinct cards"
  shows "distinct (map (nth cards) ix) \<and> set (map (nth cards) ix) \<subseteq> set cards \<and>
         length (map (nth cards) ix) = 5"
proof -
  from assms(1) obtain a b c d e where ix: "ix = [a, b, c, d, e]"
    and lt: "a < b" "b < c" "c < d" "d < e" "e < length cards"
    by (auto simp: set_fiveIndices)
  then show ?thesis using assms(2) by (auto simp: nth_eq_iff_index_eq)
qed

lemma hand_fiveIndices:
  assumes "distinct h" "set h \<subseteq> set cards" "length h = 5" "distinct cards"
  shows "\<exists>ix \<in> set (fiveIndices (length cards)). set (map (nth cards) ix) = set h"
proof -
  define ix where "ix = filter (\<lambda>i. cards ! i \<in> set h) [0..<length cards]"
  have set_ix: "set (map (nth cards) ix) = set h"
    using assms(2) by (force simp: ix_def in_set_conv_nth)
  have "distinct (map (nth cards) ix)"
    using assms(4) by (auto simp: ix_def distinct_map inj_on_def nth_eq_iff_index_eq)
  then have "length (map (nth cards) ix) = length h"
    using set_ix assms(1) by (metis distinct_card)
  then have "length ix = 5" using assms(3) by simp
  moreover have "sorted_wrt (<) ix" unfolding ix_def by (intro sorted_wrt_filter sorted_wrt_upt)
  moreover have "\<forall>i \<in> set ix. i < length cards" by (auto simp: ix_def)
  ultimately show ?thesis using set_ix sorted_five_index by blast
qed

text \<open>The running maximum of the loop.\<close>

lemma bestOf_max:
  assumes "distinct cards" and "set ixs \<subseteq> set (fiveIndices (length cards))"
  shows "\<exists>r. bestOf cards best ixs = Inr r \<and>
     (r = None \<longleftrightarrow> best = None \<and> ixs = []) \<and>
     (\<forall>v. r = Some v \<longrightarrow>
        (best = Some v \<or> (\<exists>ix \<in> set ixs. classify (map (nth cards) ix) = v)) \<and>
        (\<forall>b. best = Some b \<longrightarrow> b \<le> v) \<and> (\<forall>ix \<in> set ixs. classify (map (nth cards) ix) \<le> v))"
  using assms(2)
proof (induction ixs arbitrary: best)
  case Nil
  then show ?case by simp
next
  case (Cons ix ixs)
  define w where "w = classify (map (nth cards) ix)"
  have ev: "evaluateFive (map (nth cards) ix) = Inr w"
    using fiveIndices_hand [of ix cards] Cons.prems assms(1) by (simp add: w_def evaluateFive_ok)
  define best' where "best' = (case best of None \<Rightarrow> w | Some b \<Rightarrow> if b < w then w else b)"
  have step: "bestOf cards best (ix # ixs) = bestOf cards (Some best') ixs"
    by (cases best) (simp_all add: ev best'_def)
  have best': "w \<le> best'" "\<forall>b. best = Some b \<longrightarrow> b \<le> best'" "best' = w \<or> best = Some best'"
    by (auto simp: best'_def split: option.splits)
  from Cons.IH [of "Some best'"] Cons.prems obtain r where
    r: "bestOf cards (Some best') ixs = Inr r" "r \<noteq> None"
    "\<forall>v. r = Some v \<longrightarrow> (best' = v \<or> (\<exists>ix \<in> set ixs. classify (map (nth cards) ix) = v)) \<and>
       best' \<le> v \<and> (\<forall>ix \<in> set ixs. classify (map (nth cards) ix) \<le> v)"
    by auto
  show ?case unfolding step
    using r best' by (auto simp flip: w_def)
qed

lemma evaluateBest_max:
  assumes "distinct cards" "5 \<le> length cards" "length cards \<le> 7"
  shows "\<exists>v. evaluateBest cards = Inr v \<and>
     (\<exists>h. distinct h \<and> set h \<subseteq> set cards \<and> length h = 5 \<and> classify h = v) \<and>
     (\<forall>h. distinct h \<and> set h \<subseteq> set cards \<and> length h = 5 \<longrightarrow> classify h \<le> v)"
proof -
  let ?ixs = "fiveIndices (length cards)"
  obtain seen where seen: "markSeen noneSeen cards = Inr seen"
    using markSeen_noneSeen [of cards] assms(1) by blast
  have "sorted_wrt (<) [0, 1, 2, 3, 4 :: nat]" by simp
  then have "[0, 1, 2, 3, 4] \<in> set ?ixs" using assms(2) by (intro sorted_five_index) auto
  then have "?ixs \<noteq> []" by auto
  with bestOf_max [OF assms(1) subset_refl, of None] obtain v where
    v: "bestOf cards None ?ixs = Inr (Some v)" "\<exists>ix \<in> set ?ixs. classify (map (nth cards) ix) = v"
      "\<forall>ix \<in> set ?ixs. classify (map (nth cards) ix) \<le> v"
    by (metis not_Some_eq option.distinct(1))
  have "classify h \<le> v" if h: "distinct h" "set h \<subseteq> set cards" "length h = 5" for h
  proof -
    obtain ix where ix: "ix \<in> set ?ixs" "set (map (nth cards) ix) = set h"
      using hand_fiveIndices [OF h assms(1)] by blast
    then have "classify (map (nth cards) ix) = classify h"
      using fiveIndices_hand [OF ix(1) assms(1)] h(1) by (intro same_cards) auto
    with v(3) ix(1) show ?thesis by metis
  qed
  moreover have "\<exists>h. distinct h \<and> set h \<subseteq> set cards \<and> length h = 5 \<and> classify h = v"
    using v(2) fiveIndices_hand [OF _ assms(1)] by blast
  moreover have "evaluateBest cards = Inr v" using assms seen v(1) by (simp add: evaluateBest_def)
  ultimately show ?thesis by blast
qed

lemma evaluateBest_returns:
  "distinct cards \<Longrightarrow> 5 \<le> length cards \<Longrightarrow> length cards \<le> 7 \<Longrightarrow> \<exists>v. evaluateBest cards = Inr v"
  using evaluateBest_max by blast

section \<open>Properties\<close>

text \<open>C3. \<open>evaluateFive\<close> gives five distinct cards exactly the value the rules of poker give them.\<close>

theorem evaluateFive_correct:
  "distinct cs \<Longrightarrow> length cs = 5 \<Longrightarrow> \<exists>v. evaluateFive cs = Inr v \<and> pokerValue cs v"
  using evaluateFive_ok pokerValue_classify by blast

theorem evaluateFive_correct_witness:
  "\<exists>v. evaluateFive (take 5 orderedDeck) = Inr v \<and> pokerValue (take 5 orderedDeck) v"
  by (rule evaluateFive_correct) simp_all

text \<open>C19. \<open>evaluateBest\<close> on five to seven distinct cards returns the greatest value that
  \<open>evaluateFive\<close> gives to five cards among them, in whatever order they are taken.\<close>

theorem evaluateBest_correct:
  assumes "distinct cards" "5 \<le> length cards" "length cards \<le> 7"
  shows "\<exists>v. evaluateBest cards = Inr v \<and>
     (\<exists>h. distinct h \<and> set h \<subseteq> set cards \<and> length h = 5 \<and> evaluateFive h = Inr v) \<and>
     (\<forall>h. distinct h \<and> set h \<subseteq> set cards \<and> length h = 5 \<longrightarrow> (\<exists>w \<le> v. evaluateFive h = Inr w))"
  using evaluateBest_max [OF assms] evaluateFive_ok by metis

theorem evaluateBest_correct_witness:
  "\<exists>v. evaluateBest (take 7 orderedDeck) = Inr v \<and>
     (\<exists>h. distinct h \<and> set h \<subseteq> set (take 7 orderedDeck) \<and> length h = 5 \<and> evaluateFive h = Inr v) \<and>
     (\<forall>h. distinct h \<and> set h \<subseteq> set (take 7 orderedDeck) \<and> length h = 5 \<longrightarrow>
        (\<exists>w \<le> v. evaluateFive h = Inr w))"
  by (rule evaluateBest_correct) simp_all

text \<open>\<open>evaluateBest\<close> throws \<open>std::invalid_argument\<close> exactly when it is not given five to seven
  cards or one of them is repeated.\<close>

theorem evaluateBest_rejects:
  "evaluateBest cards = Inl invalid_argument \<longleftrightarrow>
     \<not> (5 \<le> length cards \<and> length cards \<le> 7 \<and> distinct cards)"
proof (cases "distinct cards \<and> 5 \<le> length cards \<and> length cards \<le> 7")
  case True
  then show ?thesis using evaluateBest_returns [of cards] by auto
next
  case False
  then show ?thesis by (auto simp: evaluateBest_def markSeen_error)
qed

end
