(* ===== verification/Decks.thy ===== *)
theory Decks
  imports Cards
begin

unbundle bit_operations_syntax

text \<open>
  Model of \<open>src/include/poker/domain/deck.hpp\<close> and \<open>src/src/poker/domain/deck.cpp\<close>: the two random
  sources, the Fisher-Yates shuffle, the checked deck constructor and dealing.

  A source is a function that takes its own state and the exclusive bound; \<open>None\<close> is a call that
  never returns (the rejection loop of \<open>SystemRandomSource\<close>), \<open>Some (Inl e)\<close> a call that throws.
  The operating system's \<open>std::random_device\<close> is not part of the program: it is the parameter
  \<open>device\<close> of \<open>systemUniform\<close>. The interface every client of \<open>RandomSource\<close> relies on is the
  locale \<open>random_source\<close>, with its extension \<open>returning_source\<close> for sources that always return.
\<close>

section \<open>Random sources\<close>

definition acceptanceLimit :: "u64 \<Rightarrow> u64" where
  "acceptanceLimit bound = (let maximum = (- 1 :: u64) in maximum - maximum mod bound)"

definition drawValue :: "('d \<Rightarrow> u32 \<times> 'd) \<Rightarrow> 'd \<Rightarrow> u64 \<times> 'd" where
  "drawValue device d =
     (let (high, d1) = device d; (low, d2) = device d1
      in (push_bit 32 (ucast high) XOR ucast low, d2))"

partial_function (option) rejectionLoop ::
  "('d \<Rightarrow> u32 \<times> 'd) \<Rightarrow> u64 \<Rightarrow> 'd \<Rightarrow> (u64 \<times> 'd) option" where
  "rejectionLoop device limit d =
     (let (v, d') = drawValue device d
      in if v \<ge> limit then rejectionLoop device limit d' else Some (v, d'))"

definition systemUniform ::
  "('d \<Rightarrow> u32 \<times> 'd) \<Rightarrow> 'd \<Rightarrow> u64 \<Rightarrow> (u64 \<times> 'd) result option" where
  "systemUniform device d bound =
     (if bound = 0 then Some (Inl invalid_argument)
      else map_option (\<lambda>(v, d'). Inr (v mod bound, d'))
             (rejectionLoop device (acceptanceLimit bound) d))"

definition deterministicInit :: "u64 \<Rightarrow> u64" where
  "deterministicInit seed = (if seed = 0 then 0x9e3779b97f4a7c15 else seed)"

definition xorshift :: "u64 \<Rightarrow> u64" where
  "xorshift state =
     (let s1 = state XOR drop_bit 12 state;
          s2 = s1 XOR push_bit 25 s1
      in s2 XOR drop_bit 27 s2)"

definition deterministicUniform :: "u64 \<Rightarrow> u64 \<Rightarrow> (u64 \<times> u64) result option" where
  "deterministicUniform state bound =
     Some (if bound = 0 then Inl invalid_argument
           else let state' = xorshift state
                in Inr ((state' * 2685821657736338717) mod bound, state'))"

section \<open>The deck\<close>

record Deck =
  deck_cards :: "Card list"
  deck_next :: nat

definition swap :: "nat \<Rightarrow> nat \<Rightarrow> 'a list \<Rightarrow> 'a list" where
  "swap i j xs = xs[i := xs ! j, j := xs ! i]"

text \<open>The loop \<open>for (index = n; index > 1; --index)\<close> of \<open>Deck(RandomSource&)\<close>.\<close>

fun shuffleFrom :: "('r \<Rightarrow> u64 \<Rightarrow> (u64 \<times> 'r) result option) \<Rightarrow> 'r \<Rightarrow> nat \<Rightarrow> Card list
    \<Rightarrow> (Card list \<times> 'r) result option" where
  "shuffleFrom uniform r 0 cards = Some (Inr (cards, r))"
| "shuffleFrom uniform r (Suc k) cards =
     (if k = 0 then Some (Inr (cards, r))
      else case uniform r (of_nat (Suc k)) of
             None \<Rightarrow> None
           | Some (Inl e) \<Rightarrow> Some (Inl e)
           | Some (Inr (chosen, r')) \<Rightarrow>
               (if unat chosen < length cards
                then shuffleFrom uniform r' k (swap k (unat chosen) cards)
                else Some (Inl undefined_behaviour)))"

definition shuffledDeck :: "('r \<Rightarrow> u64 \<Rightarrow> (u64 \<times> 'r) result option) \<Rightarrow> 'r
    \<Rightarrow> (Deck \<times> 'r) result option" where
  "shuffledDeck uniform r =
     map_option (map_sum id (\<lambda>(cards, r'). (\<lparr>deck_cards = cards, deck_next = 0\<rparr>, r')))
       (shuffleFrom uniform r (length orderedDeck) orderedDeck)"

definition deckOf :: "Card list \<Rightarrow> Deck result" where
  "deckOf cards =
     (if length cards \<noteq> 52 then Inl invalid_argument
      else bind_result (markSeen noneSeen cards)
             (\<lambda>_. Inr \<lparr>deck_cards = cards, deck_next = 0\<rparr>))"

definition draw :: "Deck \<Rightarrow> (Card \<times> Deck) result" where
  "draw d =
     (if deck_next d \<ge> length (deck_cards d) then Inl out_of_range
      else Inr (deck_cards d ! deck_next d, d\<lparr>deck_next := deck_next d + 1\<rparr>))"

definition burn :: "Deck \<Rightarrow> Deck result" where
  "burn d = bind_result (draw d) (\<lambda>(c, d'). Inr d')"

definition remaining :: "Deck \<Rightarrow> nat" where
  "remaining d = length (deck_cards d) - deck_next d"

section \<open>The contract of a random source\<close>

locale random_source =
  fixes uniform :: "'r \<Rightarrow> u64 \<Rightarrow> (u64 \<times> 'r) result option"
  assumes uniform_below:
    "0 < bound \<Longrightarrow> uniform r bound = Some x \<Longrightarrow> \<exists>v r'. x = Inr (v, r') \<and> v < bound"
begin

lemma shuffleFrom_perm:
  assumes "shuffleFrom uniform r n cards = Some x" and "n \<le> length cards" and "n < 2 ^ 64"
  shows "\<exists>cards' r'. x = Inr (cards', r') \<and> mset cards' = mset cards"
  using assms
proof (induction n arbitrary: r cards)
  case 0
  then show ?case by auto
next
  case (Suc k)
  show ?case
  proof (cases "k = 0")
    case True
    with Suc.prems show ?thesis by auto
  next
    case False
    have pos: "(0::u64) < of_nat (Suc k)"
      using Suc.prems(3) by (simp add: word_less_nat_alt unat_of_nat_u64 del: of_nat_Suc)
    from False Suc.prems(1) obtain y where y: "uniform r (of_nat (Suc k)) = Some y"
      by (auto split: option.splits)
    with uniform_below [OF pos] obtain v r' where v: "y = Inr (v, r')" "v < of_nat (Suc k)"
      by blast
    have "unat v < Suc k"
      using v(2) Suc.prems(3) by (simp add: word_less_nat_alt unat_of_nat_u64 del: of_nat_Suc)
    then have lt: "unat v < length cards" using Suc.prems(2) by simp
    have perm: "mset (swap k (unat v) cards) = mset cards"
      using lt Suc.prems(2) by (simp add: swap_def mset_swap)
    have "shuffleFrom uniform r' k (swap k (unat v) cards) = Some x"
      using Suc.prems(1) False y v(1) lt by simp
    then show ?thesis
      using Suc.IH [of r' "swap k (unat v) cards"] Suc.prems(2,3) perm by (simp add: swap_def)
  qed
qed

lemma shuffledDeck_perm:
  assumes "shuffledDeck uniform r = Some x"
  shows "\<exists>d r'. x = Inr (d, r') \<and> mset (deck_cards d) = mset orderedDeck \<and> deck_next d = 0"
proof -
  obtain y where y: "shuffleFrom uniform r (length orderedDeck) orderedDeck = Some y"
    and x: "x = map_sum id (\<lambda>(cards, r'). (\<lparr>deck_cards = cards, deck_next = 0\<rparr>, r')) y"
    using assms by (auto simp: shuffledDeck_def)
  from shuffleFrom_perm [OF y] obtain cards' r'
    where "y = Inr (cards', r')" "mset cards' = mset orderedDeck" by auto
  with x show ?thesis by auto
qed

end

locale returning_source = random_source uniform
  for uniform :: "'r \<Rightarrow> u64 \<Rightarrow> (u64 \<times> 'r) result option" +
  fixes invar :: "'r \<Rightarrow> bool"
  assumes uniform_returns: "invar r \<Longrightarrow> 0 < bound \<Longrightarrow> \<exists>v r'. uniform r bound = Some (Inr (v, r')) \<and> invar r'"
begin

lemma shuffleFrom_returns:
  "invar r \<Longrightarrow> n \<le> length cards \<Longrightarrow> n < 2 ^ 64 \<Longrightarrow>
   \<exists>cards' r'. shuffleFrom uniform r n cards = Some (Inr (cards', r')) \<and> invar r'"
proof (induction n arbitrary: r cards)
  case 0
  then show ?case by auto
next
  case (Suc k)
  have pos: "(0::u64) < of_nat (Suc k)"
    using Suc.prems(3) by (simp add: word_less_nat_alt unat_of_nat_u64 del: of_nat_Suc)
  from uniform_returns [OF Suc.prems(1) pos] obtain v r'
    where v: "uniform r (of_nat (Suc k)) = Some (Inr (v, r'))" "invar r'" by blast
  with uniform_below [OF pos v(1)] have "v < of_nat (Suc k)" by auto
  then have "unat v < length cards"
    using Suc.prems(2,3) by (simp add: word_less_nat_alt unat_of_nat_u64 del: of_nat_Suc)
  then show ?case
    using Suc.IH [of r' "swap k (unat v) cards"] Suc.prems v by (auto simp: swap_def)
qed

lemma shuffledDeck_returns:
  assumes "invar r"
  shows "\<exists>d r'. shuffledDeck uniform r = Some (Inr (d, r')) \<and> mset (deck_cards d) = mset orderedDeck
    \<and> deck_next d = 0 \<and> invar r'"
proof -
  obtain cards' r' where "shuffleFrom uniform r (length orderedDeck) orderedDeck = Some (Inr (cards', r'))"
    and "invar r'"
    using shuffleFrom_returns [OF assms, of "length orderedDeck" orderedDeck] by auto
  then have *: "shuffledDeck uniform r = Some (Inr (\<lparr>deck_cards = cards', deck_next = 0\<rparr>, r'))"
    by (simp add: shuffledDeck_def)
  with shuffledDeck_perm [OF *] show ?thesis using \<open>invar r'\<close> by auto
qed

end

section \<open>The program's sources meet the contract\<close>

lemma rejectionLoop_below:
  assumes "rejectionLoop device limit d = Some (v, d')"
  shows "v < limit"
proof -
  have "fst x < limit" if "rejectionLoop device limit d = Some x" for x
  proof (rule rejectionLoop.raw_induct [where P = "\<lambda>device limit d x. fst x < limit", OF _ that])
    fix loop device limit d x
    assume IH: "\<And>device limit d x. loop device limit d = Some x \<Longrightarrow> fst x < (limit :: u64)"
      and eq: "(let (v, d') = drawValue device d in if limit \<le> v then loop device limit d' else Some (v, d'))
          = Some x"
    obtain v d' where dv: "drawValue device d = (v, d')" by (cases "drawValue device d")
    show "fst x < limit"
    proof (cases "limit \<le> v")
      case True
      then show ?thesis using eq dv IH [of device limit d' x] by simp
    next
      case False
      then have "x = (v, d')" using eq dv by simp
      then show ?thesis using False by (simp add: not_le)
    qed
  qed
  then show ?thesis using assms by fastforce
qed

interpretation system: random_source "systemUniform device" for device
proof
  fix bound r x
  assume "0 < bound" and "systemUniform device r bound = Some x"
  then show "\<exists>v r'. x = Inr (v, r') \<and> v < bound"
    by (auto simp: systemUniform_def word_gt_0 split: if_splits intro: u64_mod_less)
qed

interpretation deterministic: returning_source deterministicUniform "\<lambda>_. True"
proof
  fix bound r x
  assume "0 < bound" and "deterministicUniform r bound = Some x"
  then show "\<exists>v r'. x = Inr (v, r') \<and> v < bound"
    by (auto simp: deterministicUniform_def Let_def word_gt_0 split: if_splits intro: u64_mod_less)
next
  fix r bound :: u64
  assume "0 < bound"
  then show "\<exists>v r'. deterministicUniform r bound = Some (Inr (v, r')) \<and> True"
    by (auto simp: deterministicUniform_def Let_def word_gt_0)
qed

section \<open>Rejection sampling\<close>

text \<open>The device state after \<open>n\<close> rejected attempts.\<close>

primrec deviceAfter :: "('d \<Rightarrow> u32 \<times> 'd) \<Rightarrow> nat \<Rightarrow> 'd \<Rightarrow> 'd" where
  "deviceAfter device 0 d = d"
| "deviceAfter device (Suc n) d = deviceAfter device n (snd (drawValue device d))"

lemma rejectionLoop_returns:
  "fst (drawValue device (deviceAfter device n d)) < limit \<Longrightarrow> \<exists>x. rejectionLoop device limit d = Some x"
proof (induction n arbitrary: d)
  case 0
  then show ?case
    by (subst rejectionLoop.simps) (simp add: case_prod_unfold not_le [symmetric])
next
  case (Suc n)
  then show ?case
    by (subst rejectionLoop.simps) (simp add: case_prod_unfold Let_def)
qed

lemma acceptanceLimit_nat:
  assumes "0 < bound"
  shows "unat (acceptanceLimit bound) = unat (- 1 :: u64) div unat bound * unat bound"
proof -
  have "(- 1 :: u64) mod bound \<le> - 1" by simp
  then have "unat (acceptanceLimit bound) = unat (- 1 :: u64) - unat ((- 1 :: u64) mod bound)"
    unfolding acceptanceLimit_def Let_def by (rule unat_sub)
  also have "\<dots> = unat (- 1 :: u64) - unat (- 1 :: u64) mod unat bound"
    by (simp only: unat_mod)
  finally show ?thesis by (simp only: minus_mod_eq_div_mult)
qed

lemma acceptanceLimit_pos:
  assumes "0 < bound"
  shows "0 < acceptanceLimit bound"
proof -
  have "unat bound \<le> unat (- 1 :: u64)" by (simp add: word_le_nat_alt [symmetric])
  moreover have "0 < unat bound" using assms by (simp add: word_less_nat_alt)
  ultimately have "0 < unat (- 1 :: u64) div unat bound" by (simp only: div_greater_zero_iff)
  then have "0 < unat (- 1 :: u64) div unat bound * unat bound"
    using \<open>0 < unat bound\<close> by (simp only: mult_pos_pos)
  then have "0 < unat (acceptanceLimit bound)" by (simp only: acceptanceLimit_nat [OF assms])
  then show ?thesis by (simp only: unat_gt_0 word_gt_0)
qed

lemma residues_of_multiple:
  fixes q b v :: nat
  assumes "v < b"
  shows "card {x. x < q * b \<and> x mod b = v} = q"
proof -
  have "{x. x < q * b \<and> x mod b = v} = (\<lambda>k. k * b + v) ` {..<q}"
  proof (intro equalityI subsetI)
    fix x assume "x \<in> {x. x < q * b \<and> x mod b = v}"
    then have "x = x div b * b + v" "x div b < q"
      by (auto simp: less_mult_imp_div_less)
    then show "x \<in> (\<lambda>k. k * b + v) ` {..<q}" by blast
  next
    fix x assume "x \<in> (\<lambda>k. k * b + v) ` {..<q}"
    then obtain k where "k < q" "x = k * b + v" by auto
    moreover have "Suc k * b \<le> q * b" using \<open>k < q\<close> by (intro mult_le_mono1) simp
    ultimately show "x \<in> {x. x < q * b \<and> x mod b = v}" using assms by auto
  qed
  moreover have "inj_on (\<lambda>k. k * b + v) {..<q}" using assms by (auto intro: inj_onI)
  ultimately show ?thesis by (simp add: card_image)
qed

lemma card_words:
  "card {x :: u64. P (unat x)} = card {n. n < 2 ^ 64 \<and> P n}"
proof (rule bij_betw_same_card [of unat], rule bij_betw_byWitness [where f' = of_nat])
  show "unat ` {x :: u64. P (unat x)} \<subseteq> {n. n < 2 ^ 64 \<and> P n}"
    using unat_u64_less by auto
qed (auto simp: unat_of_nat_u64)

section \<open>Every order of the deck comes from exactly one sequence of choices\<close>

fun scripted :: "u64 list \<Rightarrow> u64 \<Rightarrow> (u64 \<times> u64 list) result option" where
  "scripted [] bound = None"
| "scripted (c # cs) bound = Some (Inr (c, cs))"

lemma swap_length [simp]: "length (swap i j xs) = length xs"
  by (simp add: swap_def)

lemma swap_mset: "i < length xs \<Longrightarrow> j < length xs \<Longrightarrow> mset (swap i j xs) = mset xs"
  by (simp add: swap_def mset_swap)

lemma swap_beyond: "i < k \<Longrightarrow> j < k \<Longrightarrow> swap i j xs ! k = xs ! k"
  by (simp add: swap_def)

lemma swap_at: "i < length xs \<Longrightarrow> j \<le> i \<Longrightarrow> swap i j xs ! i = xs ! j"
  by (cases "i = j") (simp_all add: swap_def)

text \<open>The choices a script may make: the one for position \<open>k\<close> is at most \<open>k\<close>.\<close>

fun legalScript :: "nat \<Rightarrow> u64 list \<Rightarrow> bool" where
  "legalScript 0 cs \<longleftrightarrow> cs = []"
| "legalScript (Suc k) cs \<longleftrightarrow>
     (if k = 0 then cs = []
      else case cs of [] \<Rightarrow> False | c # rest \<Rightarrow> unat c \<le> k \<and> legalScript k rest)"

lemma shuffleFrom_beyond:
  "legalScript n cs \<Longrightarrow> n \<le> length cards \<Longrightarrow> n \<le> j \<Longrightarrow> j < length cards \<Longrightarrow>
   shuffleFrom scripted cs n cards = Some (Inr (target, rest)) \<Longrightarrow> target ! j = cards ! j"
proof (induction n arbitrary: cs cards)
  case 0
  then show ?case by simp
next
  case (Suc k)
  show ?case
  proof (cases "k = 0")
    case True
    with Suc.prems show ?thesis by simp
  next
    case False
    with Suc.prems(1) obtain c rest' where cs: "cs = c # rest'" "unat c \<le> k" "legalScript k rest'"
      by (auto split: list.splits)
    then have "target ! j = swap k (unat c) cards ! j"
      using Suc.prems False by (intro Suc.IH [OF cs(3)]) auto
    then show ?thesis using Suc.prems(3) cs(2) by (simp add: swap_beyond)
  qed
qed

lemma script_exists_unique:
  assumes "distinct cards" "mset target = mset cards" "n \<le> length cards" "n < 2 ^ 64"
    and "\<forall>j. n \<le> j \<and> j < length cards \<longrightarrow> target ! j = cards ! j"
  shows "\<exists>!cs. legalScript n cs \<and> shuffleFrom scripted cs n cards = Some (Inr (target, []))"
  using assms
proof (induction n arbitrary: cards)
  case 0
  then have "target = cards" by (metis mset_eq_length nth_equalityI zero_le)
  then show ?case by auto
next
  case (Suc k)
  have len: "length target = length cards" using Suc.prems(2) by (rule mset_eq_length)
  have dist: "distinct target" using Suc.prems(1,2) by (metis mset_eq_imp_distinct_iff)
  have k: "k < length cards" using Suc.prems(3) by simp
  obtain i where i: "i < length cards" "cards ! i = target ! k"
    using k len Suc.prems(2) by (metis in_set_conv_nth mset_eq_setD)
  have ik: "i \<le> k"
  proof (rule ccontr)
    assume "\<not> i \<le> k"
    then have "target ! i = target ! k" using Suc.prems(5) i by simp
    then show False using dist len i(1) k \<open>\<not> i \<le> k\<close> by (simp add: nth_eq_iff_index_eq)
  qed
  show ?case
  proof (cases "k = 0")
    case True
    then have "target = cards"
      using Suc.prems(5) i ik len by (intro nth_equalityI) (metis Suc_leI gr0I le_zero_eq)+
    then show ?thesis using True by auto
  next
    case False
    let ?w = "of_nat i :: u64"
    have w: "unat ?w = i" using ik Suc.prems(4) by (intro unat_of_nat_u64) simp
    let ?next = "swap k i cards"
    have "\<forall>j. k \<le> j \<and> j < length ?next \<longrightarrow> target ! j = ?next ! j"
    proof (intro allI impI)
      fix j assume j: "k \<le> j \<and> j < length ?next"
      then show "target ! j = ?next ! j"
        using k ik i Suc.prems(5) by (cases "j = k") (simp_all add: swap_at swap_beyond)
    qed
    moreover have next_mset: "mset ?next = mset cards" using k i(1) by (rule swap_mset)
    moreover have "distinct ?next" using mset_eq_imp_distinct_iff [OF next_mset] Suc.prems(1) by simp
    ultimately have "\<exists>!cs. legalScript k cs \<and> shuffleFrom scripted cs k ?next = Some (Inr (target, []))"
      using Suc.prems(2-4) by (intro Suc.IH) simp_all
    then obtain cs where cs: "legalScript k cs" "shuffleFrom scripted cs k ?next = Some (Inr (target, []))"
      and uniq: "\<And>ds. legalScript k ds \<Longrightarrow> shuffleFrom scripted ds k ?next = Some (Inr (target, [])) \<Longrightarrow> ds = cs"
      by blast
    show ?thesis
    proof (rule ex1I [of _ "?w # cs"])
      show "legalScript (Suc k) (?w # cs) \<and>
          shuffleFrom scripted (?w # cs) (Suc k) cards = Some (Inr (target, []))"
        using cs w ik i(1) False by simp
    next
      fix ds assume ds: "legalScript (Suc k) ds \<and>
          shuffleFrom scripted ds (Suc k) cards = Some (Inr (target, []))"
      with False obtain c rest where c: "ds = c # rest" "unat c \<le> k" "legalScript k rest"
        by (auto split: list.splits)
      with ds False k have sh: "shuffleFrom scripted rest k (swap k (unat c) cards) = Some (Inr (target, []))"
        by simp
      then have "target ! k = swap k (unat c) cards ! k"
        using c(3) k by (intro shuffleFrom_beyond) auto
      then have "cards ! unat c = cards ! i" using k c(2) i(2) by (simp add: swap_at)
      then have "unat c = i" using Suc.prems(1) c(2) k i(1) by (simp add: nth_eq_iff_index_eq)
      moreover then have "c = ?w" by auto
      ultimately show "ds = ?w # cs" using uniq [OF c(3)] sh c(1) by simp
    qed
  qed
qed

section \<open>Properties\<close>

text \<open>Whatever \<open>std::random_device\<close> returns, a deck shuffled with \<open>SystemRandomSource\<close> holds the 52
  cards, each once, with none of them dealt; and the shuffle does end when the device cannot keep
  producing rejected values for ever.\<close>

theorem shuffledDeck_system:
  assumes "\<forall>d limit. 0 < limit \<longrightarrow> (\<exists>n. fst (drawValue device (deviceAfter device n d)) < limit)"
  shows "\<exists>deck d'. shuffledDeck (systemUniform device) d = Some (Inr (deck, d')) \<and>
     mset (deck_cards deck) = mset orderedDeck \<and> deck_next deck = 0"
proof -
  have "returning_source (systemUniform device) (\<lambda>_. True)"
  proof (intro returning_source.intro returning_source_axioms.intro)
    fix r bound assume pos: "0 < (bound :: u64)"
    obtain x where x: "rejectionLoop device (acceptanceLimit bound) r = Some x"
      using rejectionLoop_returns assms acceptanceLimit_pos [OF pos] by metis
    show "\<exists>v r'. systemUniform device r bound = Some (Inr (v, r')) \<and> True"
      using pos x by (cases x) (simp add: systemUniform_def word_gt_0)
  qed (rule system.random_source_axioms)
  from returning_source.shuffledDeck_returns [OF this, of d] show ?thesis by auto
qed

theorem shuffledDeck_system_witness:
  "\<exists>deck d'. shuffledDeck (systemUniform (\<lambda>_. (0, ()))) () = Some (Inr (deck, d')) \<and>
     mset (deck_cards deck) = mset orderedDeck \<and> deck_next deck = 0"
  by (rule shuffledDeck_system) (simp add: drawValue_def)

text \<open>\<open>DeterministicRandomSource\<close> always returns, so the shuffle ends with the 52 cards.\<close>

theorem shuffledDeck_deterministic:
  "\<exists>deck s. shuffledDeck deterministicUniform (deterministicInit seed) = Some (Inr (deck, s)) \<and>
     mset (deck_cards deck) = mset orderedDeck \<and> deck_next deck = 0"
  using deterministic.shuffledDeck_returns [of "deterministicInit seed"] by auto

text \<open>The rejection loop of \<open>SystemRandomSource::uniform\<close> accepts each residue equally often: of
  the raw 64-bit values below the limit, as many give one result as any other.\<close>

theorem systemUniform_unbiased:
  assumes "v < bound" and "w < bound"
  shows "card {x. x < acceptanceLimit bound \<and> x mod bound = v}
       = card {x. x < acceptanceLimit bound \<and> x mod bound = w}"
proof -
  have "card {x. x < acceptanceLimit bound \<and> x mod bound = u} = unat (- 1 :: u64) div unat bound"
    if "u < bound" for u
  proof -
    let ?b = "unat bound" and ?q = "unat (- 1 :: u64) div unat bound"
    have pos: "0 < bound" using that by (metis word_gt_0 word_not_simps(1))
    have "{x. x < acceptanceLimit bound \<and> x mod bound = u}
        = {x :: u64. unat x < ?q * ?b \<and> unat x mod ?b = unat u}"
      by (simp add: word_less_nat_alt acceptanceLimit_nat [OF pos] word_unat_eq_iff unat_mod)
    then have cards: "card {x. x < acceptanceLimit bound \<and> x mod bound = u}
        = card {n. n < 2 ^ 64 \<and> n < ?q * ?b \<and> n mod ?b = unat u}"
      by (simp only: card_words [of "\<lambda>n. n < ?q * ?b \<and> n mod ?b = unat u"])
    have lt: "?q * ?b < 2 ^ 64"
      using unat_u64_less [of "- 1"] by (rule le_less_trans [OF div_times_less_eq_dividend])
    have "{n. n < 2 ^ 64 \<and> n < ?q * ?b \<and> n mod ?b = unat u} = {n. n < ?q * ?b \<and> n mod ?b = unat u}"
      by (rule Collect_cong) (metis less_trans lt)
    moreover have "unat u < ?b" using that by (simp only: word_less_nat_alt)
    ultimately show ?thesis using cards by (simp only: residues_of_multiple)
  qed
  then show ?thesis using assms by simp
qed

theorem systemUniform_unbiased_witness:
  "card {x. x < acceptanceLimit 52 \<and> x mod 52 = 0} = card {x. x < acceptanceLimit 52 \<and> x mod 52 = 51}"
  by (rule systemUniform_unbiased) simp_all

text \<open>The shuffle is a bijection between the 52! sequences of legal choices and the orders of the
  deck: every order is produced by exactly one sequence of choices.\<close>

theorem shuffle_bijective:
  assumes "mset target = mset orderedDeck"
  shows "\<exists>!cs. legalScript 52 cs \<and>
     shuffledDeck scripted cs = Some (Inr (\<lparr>deck_cards = target, deck_next = 0\<rparr>, []))"
proof -
  have "shuffledDeck scripted cs = Some (Inr (\<lparr>deck_cards = target, deck_next = 0\<rparr>, []))
      \<longleftrightarrow> shuffleFrom scripted cs 52 orderedDeck = Some (Inr (target, []))" for cs
    unfolding shuffledDeck_def length_orderedDeck
    by (cases "shuffleFrom scripted cs 52 orderedDeck"; cases "the (shuffleFrom scripted cs 52 orderedDeck)")
       auto
  then show ?thesis
    using script_exists_unique [OF distinct_orderedDeck assms, of 52] by fastforce
qed

theorem shuffle_bijective_witness:
  "\<exists>!cs. legalScript 52 cs \<and>
     shuffledDeck scripted cs = Some (Inr (\<lparr>deck_cards = rev orderedDeck, deck_next = 0\<rparr>, []))"
  by (rule shuffle_bijective) simp

end
