(* ===== verification/Table_Model.thy ===== *)
theory Table_Model
  imports Hand_Evaluator Decks
begin

text \<open>
  Model of \<open>src/include/poker/domain/table.hpp\<close> and \<open>src/src/poker/domain/table.cpp\<close>: the state of
  one cash table and every operation of the class \<open>Table\<close>. The class is the record \<open>Table\<close> (its
  fields without the trailing underscore), a member function is a function from the table to the
  new table paired with what the code returns. \<open>Chips\<close> (\<open>int64_t\<close>) is \<open>int\<close>;
  \<open>Table_Correct\<close> shows that every amount a hand computes lies between 0 and the chips at the
  table, so the arithmetic of the code does not leave the type. Player ids, hand numbers and
  sequence numbers are 64-bit words and wrap; seat numbers are \<open>nat\<close>.

  A function that can throw (a \<open>Deck\<close> runs out, \<open>evaluateBest\<close> sees a duplicate card, an impossible
  street) or that reads an empty optional returns \<open>result\<close>; \<open>Inl\<close> stands for the exception that
  leaves the call.
\<close>

section \<open>Types\<close>

type_synonym PlayerId = u64
type_synonym Chips = int

datatype Street = street_waiting | preflop | flop | turn | river | showdown | settled

datatype PlayerStatus = status_waiting | active | folded | status_all_in | disconnected

datatype ActionType = fold_action | check | call | bet | raise | all_in_action

datatype TableError =
    ok
  | invalid_configuration
  | seat_out_of_range
  | seat_occupied
  | player_already_seated
  | player_not_found
  | invalid_buy_in
  | hand_in_progress
  | not_enough_players
  | player_not_ready
  | not_players_turn
  | player_cannot_act
  | action_not_allowed
  | invalid_amount
  | minimum_raise_not_met
  | service_unavailable

record TableConfig =
  min_players :: nat
  max_players :: nat
  small_blind :: Chips
  big_blind :: Chips
  min_buy_in :: Chips
  max_buy_in :: Chips

record PlayerView =
  view_id :: PlayerId
  view_seat :: nat
  view_stack :: Chips
  view_street_commitment :: Chips
  view_hand_commitment :: Chips
  view_status :: PlayerStatus
  view_ready :: bool
  view_connected :: bool
  view_hole_cards :: "Card list"

record TableSnapshot =
  snap_street :: Street
  snap_hand_id :: u64
  snap_server_sequence :: u64
  snap_dealer :: "PlayerId option"
  snap_acting_player :: "PlayerId option"
  snap_current_bet :: Chips
  snap_minimum_raise :: Chips
  snap_pot :: Chips
  snap_board :: "Card list"
  snap_players :: "PlayerView list"

record ActionCommand =
  player_id :: PlayerId
  action_type :: ActionType
  amount :: Chips

record PotAward =
  pot_size :: Chips
  winners :: "PlayerId list"
  equal_share :: Chips
  odd_chips :: Chips

record ActionResult =
  res_error :: TableError
  res_message :: string
  res_server_sequence :: u64
  res_awards :: "PotAward list"
  res_action_street :: Street

record Player =
  pid :: PlayerId
  seat :: nat
  stack :: Chips
  street_commitment :: Chips
  hand_commitment :: Chips
  status :: PlayerStatus
  ready :: bool
  connected :: bool
  hole :: "Card list"
  has_hole :: bool

record Table =
  config :: TableConfig
  seats :: "Player option list"
  street :: Street
  dealer_seat :: "nat option"
  acting_seat :: "nat option"
  current_bet :: Chips
  minimum_raise :: Chips
  pending_action :: "PlayerId set"
  raise_allowed :: "PlayerId set"
  board :: "Card list"
  deck :: "Deck option"
  hand_id :: u64
  server_sequence :: u64
  last_awards :: "PotAward list"

text \<open>\<open>TableConfig config = {}\<close> and \<open>std::array<Card, 2> hole{}\<close>.\<close>

definition defaultConfig :: TableConfig where
  "defaultConfig = \<lparr>min_players = 2, max_players = 6, small_blind = 50, big_blind = 100,
     min_buy_in = 2000, max_buy_in = 20000\<rparr>"

definition defaultCard :: Card where
  "defaultCard = \<lparr>rank = two, suit = clubs\<rparr>"

section \<open>Queries\<close>

abbreviation players :: "Table \<Rightarrow> Player list" where
  "players t \<equiv> occupants (seats t)"

fun streetIndex :: "Street \<Rightarrow> nat" where
  "streetIndex street_waiting = 0"
| "streetIndex preflop = 1"
| "streetIndex flop = 2"
| "streetIndex turn = 3"
| "streetIndex river = 4"
| "streetIndex showdown = 5"
| "streetIndex settled = 6"

definition handIsRunning :: "Street \<Rightarrow> bool" where
  "handIsRunning s \<longleftrightarrow> streetIndex s \<ge> streetIndex preflop \<and> streetIndex s \<le> streetIndex showdown"

definition newTable :: "TableConfig \<Rightarrow> Table" where
  "newTable cfg = \<lparr>config = cfg, seats = replicate (max_players cfg) None, street = street_waiting,
     dealer_seat = None, acting_seat = None, current_bet = 0, minimum_raise = big_blind cfg,
     pending_action = {}, raise_allowed = {}, board = [], deck = None, hand_id = 0,
     server_sequence = 0, last_awards = []\<rparr>"

definition validateConfig :: "TableConfig \<Rightarrow> TableError" where
  "validateConfig cfg =
     (if min_players cfg < 2 \<or> max_players cfg < min_players cfg \<or> max_players cfg > 6
         \<or> small_blind cfg \<le> 0 \<or> big_blind cfg < small_blind cfg * 2 \<or> min_buy_in cfg \<le> 0
         \<or> max_buy_in cfg < min_buy_in cfg
      then invalid_configuration else ok)"

definition seatHolds :: "PlayerId \<Rightarrow> Player option \<Rightarrow> bool" where
  "seatHolds i s = (case s of None \<Rightarrow> False | Some p \<Rightarrow> pid p = i)"

definition findPlayer :: "Table \<Rightarrow> PlayerId \<Rightarrow> Player option" where
  "findPlayer t i = (case List.find (seatHolds i) (seats t) of None \<Rightarrow> None | Some s \<Rightarrow> s)"

definition seatOf :: "Table \<Rightarrow> PlayerId \<Rightarrow> nat option" where
  "seatOf t i = first_index (seatHolds i) (seats t)"

text \<open>A write through the pointer that \<open>findPlayer\<close> returns.\<close>

definition updatePlayer :: "PlayerId \<Rightarrow> (Player \<Rightarrow> Player) \<Rightarrow> Table \<Rightarrow> Table" where
  "updatePlayer i f t =
     (case seatOf t i of
        None \<Rightarrow> t
      | Some s \<Rightarrow> t\<lparr>seats := (seats t)[s := map_option f (seats t ! s)]\<rparr>)"

text \<open>A write to every occupied seat.\<close>

definition mapPlayers :: "(Player \<Rightarrow> Player) \<Rightarrow> Table \<Rightarrow> Table" where
  "mapPlayers f t = t\<lparr>seats := map (map_option f) (seats t)\<rparr>"

definition canAct :: "Player \<Rightarrow> bool" where
  "canAct p \<longleftrightarrow> status p = active \<and> stack p > 0"

definition isContender :: "Player \<Rightarrow> bool" where
  "isContender p \<longleftrightarrow> status p = active \<or> status p = status_all_in \<or> status p = disconnected"

definition contenders :: "Table \<Rightarrow> nat" where
  "contenders t = length (filter isContender (players t))"

definition actionable :: "Table \<Rightarrow> nat" where
  "actionable t = length (filter canAct (players t))"

definition potSize :: "Table \<Rightarrow> Chips" where
  "potSize t = sum_list (map hand_commitment (players t))"

definition totalChips :: "Table \<Rightarrow> Chips" where
  "totalChips t =
     sum_list (map (\<lambda>p. stack p + (if street t \<noteq> settled then hand_commitment p else 0)) (players t))"

definition participatingSeats :: "Table \<Rightarrow> nat list" where
  "participatingSeats t =
     filter (\<lambda>i. case seats t ! i of None \<Rightarrow> False | Some p \<Rightarrow> status p = active)
       [0..<length (seats t)]"

definition nextParticipatingSeat :: "Table \<Rightarrow> nat \<Rightarrow> nat option" where
  "nextParticipatingSeat t from =
     next_seat (\<lambda>i. case seats t ! i of
                      None \<Rightarrow> False
                    | Some p \<Rightarrow> status p = active \<or> status p = status_all_in \<or> status p = folded)
       (length (seats t)) from"

definition nextCanActSeat :: "Table \<Rightarrow> nat \<Rightarrow> nat option" where
  "nextCanActSeat t from =
     next_seat (\<lambda>i. case seats t ! i of
                      None \<Rightarrow> False
                    | Some p \<Rightarrow> canAct p \<and> pid p \<in> pending_action t)
       (length (seats t)) from"

definition firstPostflopActor :: "Table \<Rightarrow> nat option" where
  "firstPostflopActor t =
     (case dealer_seat t of None \<Rightarrow> None | Some d \<Rightarrow> nextCanActSeat t d)"

section \<open>Seating\<close>

definition bumpSequence :: "Table \<Rightarrow> Table" where
  "bumpSequence t = t\<lparr>server_sequence := server_sequence t + 1\<rparr>"

definition newPlayer :: "PlayerId \<Rightarrow> nat \<Rightarrow> Chips \<Rightarrow> Player" where
  "newPlayer i s buy_in = \<lparr>pid = i, seat = s, stack = buy_in, street_commitment = 0,
     hand_commitment = 0, status = status_waiting, ready = False, connected = True,
     hole = [defaultCard, defaultCard], has_hole = False\<rparr>"

definition seatPlayer :: "PlayerId \<Rightarrow> nat \<Rightarrow> Chips \<Rightarrow> Table \<Rightarrow> TableError \<times> Table" where
  "seatPlayer i s buy_in t =
     (if validateConfig (config t) \<noteq> ok then (invalid_configuration, t)
      else if handIsRunning (street t) then (hand_in_progress, t)
      else if s \<ge> length (seats t) then (seat_out_of_range, t)
      else if findPlayer t i \<noteq> None then (player_already_seated, t)
      else if seats t ! s \<noteq> None then (seat_occupied, t)
      else if buy_in < min_buy_in (config t) \<or> buy_in > max_buy_in (config t) then (invalid_buy_in, t)
      else (ok, bumpSequence (t\<lparr>seats := (seats t)[s := Some (newPlayer i s buy_in)]\<rparr>)))"

definition removePlayer :: "PlayerId \<Rightarrow> Table \<Rightarrow> TableError \<times> Table" where
  "removePlayer i t =
     (case seatOf t i of
        None \<Rightarrow> (player_not_found, t)
      | Some s \<Rightarrow>
          (if handIsRunning (street t) \<and>
              (case seats t ! s of None \<Rightarrow> False | Some p \<Rightarrow> status p \<noteq> status_waiting)
           then (hand_in_progress, t)
           else (ok, bumpSequence
             (t\<lparr>seats := (seats t)[s := None],
                dealer_seat := (if dealer_seat t = Some s then None else dealer_seat t)\<rparr>))))"

definition setReady :: "PlayerId \<Rightarrow> bool \<Rightarrow> Table \<Rightarrow> TableError \<times> Table" where
  "setReady i value t =
     (if handIsRunning (street t) then (hand_in_progress, t)
      else case findPlayer t i of
             None \<Rightarrow> (player_not_found, t)
           | Some p \<Rightarrow>
               (if value \<and> stack p \<le> 0 then (invalid_buy_in, t)
                else (ok, bumpSequence (updatePlayer i (\<lambda>p. p\<lparr>ready := value\<rparr>) t))))"

definition setConnected :: "PlayerId \<Rightarrow> bool \<Rightarrow> Table \<Rightarrow> TableError \<times> Table" where
  "setConnected i value t =
     (case findPlayer t i of
        None \<Rightarrow> (player_not_found, t)
      | Some _ \<Rightarrow> (ok, bumpSequence (updatePlayer i (\<lambda>p. p\<lparr>connected := value\<rparr>) t)))"

section \<open>Dealing and blinds\<close>

text \<open>\<open>deck_->draw()\<close> and \<open>deck_->burn()\<close>.\<close>

definition drawCard :: "Table \<Rightarrow> (Card \<times> Table) result" where
  "drawCard t =
     (case deck t of
        None \<Rightarrow> Inl undefined_behaviour
      | Some d \<Rightarrow> bind_result (draw d) (\<lambda>(c, d'). Inr (c, t\<lparr>deck := Some d'\<rparr>)))"

definition burnCard :: "Table \<Rightarrow> Table result" where
  "burnCard t = bind_result (drawCard t) (\<lambda>(c, t'). Inr t')"

text \<open>One step of the dealing loop: the player at \<open>*seat\<close> takes a card for the given round. The
  \<open>fun\<close> is the inner \<open>for\<close> loop, run twice by \<open>dealHoleCards\<close>.\<close>

fun dealRound :: "nat \<Rightarrow> nat \<Rightarrow> nat option \<times> Table \<Rightarrow> (nat option \<times> Table) result" where
  "dealRound rnd 0 st = Inr st"
| "dealRound rnd (Suc k) (None, t) = Inl undefined_behaviour"
| "dealRound rnd (Suc k) (Some s, t) =
     (case seats t ! s of
        None \<Rightarrow> Inl undefined_behaviour
      | Some p \<Rightarrow>
          bind_result (drawCard t) (\<lambda>(c, t').
            let t'' = t'\<lparr>seats := (seats t')[s := Some (p\<lparr>hole := (hole p)[rnd := c], has_hole := True\<rparr>)]\<rparr>
            in dealRound rnd k (nextParticipatingSeat t'' s, t'')))"

definition dealHoleCards :: "nat list \<Rightarrow> Table \<Rightarrow> Table result" where
  "dealHoleCards ss t =
     (case dealer_seat t of
        None \<Rightarrow> Inl logic_error
      | Some d \<Rightarrow>
          bind_result (dealRound 0 (length ss) (nextParticipatingSeat t d, t))
            (\<lambda>st. bind_result (dealRound 1 (length ss) st) (\<lambda>(s, t'). Inr t')))"

definition postBlind :: "Chips \<Rightarrow> Player \<Rightarrow> Player" where
  "postBlind blind p =
     (let payment = min blind (stack p);
          p' = p\<lparr>stack := stack p - payment,
                 street_commitment := street_commitment p + payment,
                 hand_commitment := hand_commitment p + payment\<rparr>
      in if stack p' = 0 then p'\<lparr>status := status_all_in\<rparr> else p')"

definition setInitialActor :: "nat \<Rightarrow> nat \<Rightarrow> Table \<Rightarrow> Table" where
  "setInitialActor big_blind_seat participant_count t =
     (case dealer_seat t of
        Some d \<Rightarrow>
          (if participant_count = 2 then
             (if (case seats t ! d of None \<Rightarrow> False | Some p \<Rightarrow> canAct p \<and> pid p \<in> pending_action t)
              then t\<lparr>acting_seat := Some d\<rparr>
              else t\<lparr>acting_seat := nextCanActSeat t d\<rparr>)
           else t\<lparr>acting_seat := nextCanActSeat t big_blind_seat\<rparr>)
      | None \<Rightarrow> t\<lparr>acting_seat := nextCanActSeat t big_blind_seat\<rparr>)"

section \<open>Betting rounds\<close>

definition removeFromActionSets :: "PlayerId \<Rightarrow> Table \<Rightarrow> Table" where
  "removeFromActionSets i t =
     t\<lparr>pending_action := pending_action t - {i}, raise_allowed := raise_allowed t - {i}\<rparr>"

definition othersWhoCanAct :: "PlayerId \<Rightarrow> Table \<Rightarrow> Player list" where
  "othersWhoCanAct i t = filter (\<lambda>p. \<not> (pid p = i \<or> \<not> canAct p)) (players t)"

definition resetAfterFullRaise :: "PlayerId \<Rightarrow> Table \<Rightarrow> Table" where
  "resetAfterFullRaise raiser t =
     t\<lparr>pending_action := set (map pid (othersWhoCanAct raiser t)),
       raise_allowed := set (map pid (othersWhoCanAct raiser t))\<rparr>"

definition addUnderCalledPlayers :: "PlayerId \<Rightarrow> Table \<Rightarrow> Table" where
  "addUnderCalledPlayers actor t =
     t\<lparr>pending_action := pending_action t \<union>
         set (map pid (filter (\<lambda>p. street_commitment p < current_bet t) (othersWhoCanAct actor t)))\<rparr>"

definition bettingRoundComplete :: "Table \<Rightarrow> bool" where
  "bettingRoundComplete t \<longleftrightarrow>
     contenders t \<le> 1 \<or>
     list_all (\<lambda>p. canAct p \<longrightarrow>
       \<not> (pid p \<in> pending_action t \<or> street_commitment p \<noteq> current_bet t)) (players t)"

definition selectNextActor :: "nat \<Rightarrow> Table \<Rightarrow> Table" where
  "selectNextActor previous_seat t = t\<lparr>acting_seat := nextCanActSeat t previous_seat\<rparr>"

definition revealOne :: "Table \<Rightarrow> Table result" where
  "revealOne t =
     bind_result (burnCard t) (\<lambda>t1.
     bind_result (drawCard t1) (\<lambda>(c, t2). Inr (t2\<lparr>board := board t2 @ [c]\<rparr>)))"

definition revealFlop :: "Table \<Rightarrow> Table result" where
  "revealFlop t =
     bind_result (burnCard t) (\<lambda>t1.
     bind_result (drawCard t1) (\<lambda>(a, t2).
     bind_result (drawCard (t2\<lparr>board := board t2 @ [a]\<rparr>)) (\<lambda>(b, t3).
     bind_result (drawCard (t3\<lparr>board := board t3 @ [b]\<rparr>)) (\<lambda>(c, t4).
     Inr (t4\<lparr>board := board t4 @ [c]\<rparr>)))))"

definition openStreet :: "Table \<Rightarrow> Table" where
  "openStreet t =
     t\<lparr>pending_action := pending_action t \<union> set (map pid (filter canAct (players t))),
       raise_allowed := raise_allowed t \<union> set (map pid (filter canAct (players t)))\<rparr>"

definition advanceStreet :: "Table \<Rightarrow> Table result" where
  "advanceStreet t =
     (let t1 = (mapPlayers (\<lambda>p. p\<lparr>street_commitment := 0\<rparr>) t)
                 \<lparr>current_bet := 0, minimum_raise := big_blind (config t),
                  pending_action := {}, raise_allowed := {}\<rparr>
      in bind_result
           (case street t of
              preflop \<Rightarrow> revealFlop (t1\<lparr>street := flop\<rparr>)
            | flop \<Rightarrow> revealOne (t1\<lparr>street := turn\<rparr>)
            | turn \<Rightarrow> revealOne (t1\<lparr>street := river\<rparr>)
            | _ \<Rightarrow> Inl logic_error)
           (\<lambda>t2. Inr (openStreet t2)))"

section \<open>Settlement\<close>

definition markSettled :: "Table \<Rightarrow> Table" where
  "markSettled t =
     bumpSequence ((mapPlayers (\<lambda>p. p\<lparr>ready := False\<rparr>) t)
       \<lparr>street := settled, acting_seat := None, pending_action := {}, raise_allowed := {},
        current_bet := 0\<rparr>)"

definition settleFoldWin :: "Table \<Rightarrow> Table result" where
  "settleFoldWin t =
     (case filter isContender (players t) of
        [] \<Rightarrow> Inl logic_error
      | winner # _ \<Rightarrow>
          (let pot = potSize t in
           Inr (markSettled
             ((updatePlayer (pid winner) (\<lambda>p. p\<lparr>stack := stack p + pot\<rparr>) t)
                \<lparr>last_awards := [\<lparr>pot_size = pot, winners = [pid winner], equal_share = pot,
                                 odd_chips = 0\<rparr>]\<rparr>))))"

definition clockwiseDistance :: "Table \<Rightarrow> PlayerId \<Rightarrow> nat" where
  "clockwiseDistance t i =
     (let n = length (seats t);
          origin = (case dealer_seat t of None \<Rightarrow> 0 | Some d \<Rightarrow> d);
          s = (case seatOf t i of None \<Rightarrow> 0 | Some s \<Rightarrow> s);
          distance = (s + n - origin) mod n
      in if distance = 0 then n else distance)"

text \<open>\<open>seatOf(lhs).value()\<close> throws for an id with no seat; the sort is by distinct keys, so the
  order \<open>std::sort\<close> gives to equal keys does not matter.\<close>

definition orderedClockwise :: "Table \<Rightarrow> PlayerId list \<Rightarrow> PlayerId list result" where
  "orderedClockwise t ids =
     (if list_ex (\<lambda>i. seatOf t i = None) ids \<and> length ids > 1 then Inl bad_optional_access
      else Inr (sort_key (clockwiseDistance t) ids))"

text \<open>The loop over \<open>eligible\<close> that keeps the best value and its winners.\<close>

fun bestHands :: "Card list \<Rightarrow> (HandValue \<times> PlayerId list) option \<Rightarrow> Player list
    \<Rightarrow> (HandValue \<times> PlayerId list) option result" where
  "bestHands brd best [] = Inr best"
| "bestHands brd best (p # ps) =
     bind_result (evaluateBest (brd @ [hole p ! 0, hole p ! 1]))
       (\<lambda>v. bestHands brd
          (case best of
             None \<Rightarrow> Some (v, [pid p])
           | Some (b, ws) \<Rightarrow>
               (if b < v then Some (v, [pid p])
                else if v = b then Some (b, ws @ [pid p])
                else Some (b, ws))) ps)"

text \<open>Winner number \<open>index\<close> receives \<open>share\<close> and one odd chip if \<open>index < odd\<close>.\<close>

fun payWinners :: "Chips \<Rightarrow> Chips \<Rightarrow> nat \<Rightarrow> PlayerId list \<Rightarrow> Table \<Rightarrow> Table" where
  "payWinners share oddc index [] t = t"
| "payWinners share oddc index (w # ws) t =
     payWinners share oddc (Suc index) ws
       (updatePlayer w
          (\<lambda>p. p\<lparr>stack := stack p + (share + (if int index < oddc then 1 else 0))\<rparr>) t)"

definition levelsOf :: "Table \<Rightarrow> Chips list" where
  "levelsOf t = remdups_adj (sort (filter (\<lambda>c. c > 0) (map hand_commitment (players t))))"

definition isEligible :: "Player \<Rightarrow> bool" where
  "isEligible p \<longleftrightarrow> status p \<noteq> folded \<and> status p \<noteq> status_waiting"

definition contributorsAt :: "Chips \<Rightarrow> Table \<Rightarrow> Player list" where
  "contributorsAt level t = filter (\<lambda>p. \<not> hand_commitment p < level) (players t)"

definition eligibleAt :: "Chips \<Rightarrow> Table \<Rightarrow> Player list" where
  "eligibleAt level t = filter isEligible (contributorsAt level t)"

text \<open>The body of the loop over \<open>levels\<close>.\<close>

definition awardLevel :: "Chips \<Rightarrow> Chips \<Rightarrow> Table \<Rightarrow> (PotAward list \<times> Table) result" where
  "awardLevel previous level t =
     (let pot = (level - previous) * int (length (contributorsAt level t));
          eligible = eligibleAt level t
      in if pot \<le> 0 \<or> eligible = [] then Inr ([], t)
         else bind_result (bestHands (board t) None eligible) (\<lambda>best.
           case best of
             None \<Rightarrow> Inl undefined_behaviour
           | Some (v, ws0) \<Rightarrow>
               bind_result (orderedClockwise t ws0) (\<lambda>ws.
                 let share = pot div int (length ws);
                     oddc = pot mod int (length ws)
                 in Inr ([\<lparr>pot_size = pot, winners = ws, equal_share = share, odd_chips = oddc\<rparr>],
                         payWinners share oddc 0 ws t))))"

fun awardLevels :: "Chips \<Rightarrow> Chips list \<Rightarrow> Table \<Rightarrow> (PotAward list \<times> Table) result" where
  "awardLevels previous [] t = Inr ([], t)"
| "awardLevels previous (level # levels) t =
     bind_result (awardLevel previous level t) (\<lambda>(award, t1).
     bind_result (awardLevels level levels t1) (\<lambda>(awards, t2). Inr (award @ awards, t2)))"

definition buildAndAwardPots :: "Table \<Rightarrow> (PotAward list \<times> Table) result" where
  "buildAndAwardPots t = awardLevels 0 (levelsOf t) t"

text \<open>\<open>while (board_.size() < 5)\<close>: each pass that returns adds at least one card.\<close>

lemma drawCard_board: "drawCard t = Inr (c, t') \<Longrightarrow> board t' = board t"
  by (auto simp: drawCard_def draw_def result_simps split: option.splits if_splits prod.splits)

lemma burnCard_board: "burnCard t = Inr t' \<Longrightarrow> board t' = board t"
  by (auto simp: burnCard_def result_simps split: prod.splits dest: drawCard_board)

lemma revealOne_length: "revealOne t = Inr t' \<Longrightarrow> length (board t') = length (board t) + 1"
  by (auto simp: revealOne_def result_simps split: prod.splits dest!: drawCard_board burnCard_board)

lemma revealFlop_length: "revealFlop t = Inr t' \<Longrightarrow> length (board t') = length (board t) + 3"
  by (auto simp: revealFlop_def result_simps split: prod.splits dest!: drawCard_board burnCard_board)

function completeBoard :: "Table \<Rightarrow> Table result" where
  "completeBoard t =
     (if length (board t) < 5
      then bind_result (if board t = [] then revealFlop t else revealOne t) completeBoard
      else Inr t)"
  by pat_completeness auto
termination
  by (relation "measure (\<lambda>t. 5 - length (board t))")
    (auto split: if_splits dest: revealOne_length revealFlop_length)

declare completeBoard.simps [simp del]

definition settleShowdown :: "Table \<Rightarrow> Table result" where
  "settleShowdown t =
     bind_result (completeBoard (t\<lparr>street := showdown\<rparr>)) (\<lambda>t1.
     bind_result (buildAndAwardPots t1) (\<lambda>(awards, t2).
     Inr (markSettled (t2\<lparr>last_awards := awards\<rparr>))))"

section \<open>The street loop\<close>

lemma drawCard_street: "drawCard t = Inr (c, t') \<Longrightarrow> street t' = street t"
  by (auto simp: drawCard_def draw_def result_simps split: option.splits if_splits prod.splits)

lemma burnCard_street: "burnCard t = Inr t' \<Longrightarrow> street t' = street t"
  by (auto simp: burnCard_def result_simps split: prod.splits dest: drawCard_street)

lemma advanceStreet_street:
  "advanceStreet t = Inr t' \<Longrightarrow>
   (street t = preflop \<and> street t' = flop) \<or> (street t = flop \<and> street t' = turn)
   \<or> (street t = turn \<and> street t' = river)"
  by (auto simp: advanceStreet_def revealOne_def revealFlop_def openStreet_def mapPlayers_def
      result_simps Let_def split: Street.splits prod.splits
      dest!: drawCard_street burnCard_street)

text \<open>\<open>while (true)\<close> of \<open>advanceUntilActionOrSettlement\<close>; a pass that continues has moved the street
  forward, and the river settles.\<close>

function advanceUntilActionOrSettlement :: "Table \<Rightarrow> Table result" where
  "advanceUntilActionOrSettlement t =
     (if contenders t \<le> 1 then settleFoldWin t
      else if \<not> bettingRoundComplete t then
        Inr (if acting_seat t = None
             then t\<lparr>acting_seat :=
                      (if street t = preflop \<and> dealer_seat t \<noteq> None
                       then nextCanActSeat t (the (dealer_seat t))
                       else firstPostflopActor t)\<rparr>
             else t)
      else if street t = river then settleShowdown t
      else bind_result (advanceStreet t) (\<lambda>t1.
        if actionable t1 \<le> 1
        then advanceUntilActionOrSettlement (t1\<lparr>pending_action := {}, acting_seat := None\<rparr>)
        else Inr (t1\<lparr>acting_seat := firstPostflopActor t1\<rparr>)))"
  by pat_completeness auto
termination
  by (relation "measure (\<lambda>t. 4 - streetIndex (street t))") (auto dest: advanceStreet_street)

declare advanceUntilActionOrSettlement.simps [simp del]

section \<open>Starting and aborting a hand\<close>

definition resetForHand :: "Player \<Rightarrow> Player" where
  "resetForHand p = p\<lparr>street_commitment := 0, hand_commitment := 0, has_hole := False,
     status := (if ready p \<and> stack p > 0 then active else status_waiting)\<rparr>"

text \<open>The part of \<open>startHand\<close> up to the choice of the dealer, the choice, and the blinds.\<close>

definition beginHand :: "Deck \<Rightarrow> Table \<Rightarrow> Table" where
  "beginHand d t = (mapPlayers resetForHand t)\<lparr>deck := Some d, board := [], last_awards := [],
     current_bet := 0, minimum_raise := big_blind (config t), pending_action := {},
     raise_allowed := {}, acting_seat := None, street := preflop, hand_id := hand_id t + 1,
     server_sequence := server_sequence t + 1\<rparr>"

definition chooseDealer :: "nat list \<Rightarrow> Table \<Rightarrow> Table" where
  "chooseDealer participants t =
     (case dealer_seat t of
        None \<Rightarrow> t\<lparr>dealer_seat := Some (hd participants)\<rparr>
      | Some d \<Rightarrow>
          t\<lparr>dealer_seat := Some (case nextParticipatingSeat t d of
                                   None \<Rightarrow> hd participants
                                 | Some n \<Rightarrow> n)\<rparr>)"

definition postBlindAt :: "nat \<Rightarrow> Chips \<Rightarrow> Table \<Rightarrow> Table result" where
  "postBlindAt s blind t =
     (case seats t ! s of
        None \<Rightarrow> Inl undefined_behaviour
      | Some p \<Rightarrow> Inr (t\<lparr>seats := (seats t)[s := Some (postBlind blind p)]\<rparr>))"

definition commitmentAt :: "Table \<Rightarrow> nat \<Rightarrow> Chips" where
  "commitmentAt t s = (case seats t ! s of None \<Rightarrow> 0 | Some p \<Rightarrow> street_commitment p)"

definition postBlinds :: "nat list \<Rightarrow> nat \<Rightarrow> Table \<Rightarrow> (nat \<times> Table) result" where
  "postBlinds participants d t =
     (case (if length participants > 2 then nextParticipatingSeat t d else Some d) of
        None \<Rightarrow> Inl undefined_behaviour
      | Some small_blind_seat \<Rightarrow>
          (case nextParticipatingSeat t small_blind_seat of
             None \<Rightarrow> Inl undefined_behaviour
           | Some big_blind_seat \<Rightarrow>
               bind_result (postBlindAt small_blind_seat (small_blind (config t)) t) (\<lambda>t1.
               bind_result (postBlindAt big_blind_seat (big_blind (config t)) t1) (\<lambda>t2.
               Inr (big_blind_seat,
                    t2\<lparr>current_bet := max (commitmentAt t2 small_blind_seat)
                                          (commitmentAt t2 big_blind_seat)\<rparr>)))))"

definition openBetting :: "nat list \<Rightarrow> Table \<Rightarrow> Table" where
  "openBetting participants t =
     (let ids = set (map pid (filter canAct (occupants (map (nth (seats t)) participants))))
      in t\<lparr>pending_action := pending_action t \<union> ids, raise_allowed := raise_allowed t \<union> ids\<rparr>)"

definition startHand :: "Deck \<Rightarrow> Table \<Rightarrow> (TableError \<times> Table) result" where
  "startHand d t =
     (if validateConfig (config t) \<noteq> ok then Inr (invalid_configuration, t)
      else if handIsRunning (street t) then Inr (hand_in_progress, t)
      else if length (filter (\<lambda>p. ready p \<and> stack p > 0) (players t)) < min_players (config t)
      then Inr (not_enough_players, t)
      else
        (let t1 = beginHand d t;
             participants = participatingSeats t1
         in if length participants < min_players (config t)
            then Inr (not_enough_players, t1\<lparr>street := street_waiting\<rparr>)
            else
              (let t2 = chooseDealer participants t1 in
               bind_result (dealHoleCards participants t2) (\<lambda>t3.
               bind_result (postBlinds participants (the (dealer_seat t3)) t3) (\<lambda>(big_blind_seat, t4).
               let t5 = setInitialActor big_blind_seat (length participants) (openBetting participants t4)
               in if actionable t5 \<le> 1
                  then bind_result
                         (advanceUntilActionOrSettlement (t5\<lparr>pending_action := {}, acting_seat := None\<rparr>))
                         (\<lambda>t6. Inr (ok, t6))
                  else Inr (ok, t5))))))"

text \<open>\<open>startHand(RandomSource&)\<close> and \<open>startHandWithDeck\<close>.\<close>

definition startHandRandom :: "('r \<Rightarrow> u64 \<Rightarrow> (u64 \<times> 'r) result option) \<Rightarrow> 'r \<Rightarrow> Table
    \<Rightarrow> ((TableError \<times> Table) \<times> 'r) result option" where
  "startHandRandom uniform r t =
     map_option (\<lambda>x. bind_result x (\<lambda>(d, r'). bind_result (startHand d t) (\<lambda>y. Inr (y, r'))))
       (shuffledDeck uniform r)"

definition startHandWithDeck :: "Card list \<Rightarrow> Table \<Rightarrow> (TableError \<times> Table) result" where
  "startHandWithDeck cards t =
     (case bind_result (deckOf cards) (\<lambda>d. startHand d t) of
        Inl invalid_argument \<Rightarrow> Inr (invalid_configuration, t)
      | r \<Rightarrow> r)"

fun unpayWinners :: "PotAward \<Rightarrow> nat \<Rightarrow> PlayerId list \<Rightarrow> Table \<Rightarrow> Table" where
  "unpayWinners award index [] t = t"
| "unpayWinners award index (w # ws) t =
     unpayWinners award (Suc index) ws
       (updatePlayer w
          (\<lambda>p. p\<lparr>stack := stack p - (equal_share award + (if int index < odd_chips award then 1 else 0))\<rparr>) t)"

definition refundPlayer :: "Player \<Rightarrow> Player" where
  "refundPlayer p = p\<lparr>stack := stack p + hand_commitment p, street_commitment := 0,
     hand_commitment := 0, status := status_waiting, ready := False, has_hole := False\<rparr>"

definition abortHand :: "Table \<Rightarrow> TableError \<times> Table" where
  "abortHand t =
     (if street t = street_waiting then (action_not_allowed, t)
      else
        (let t1 = (if street t = settled
                   then foldl (\<lambda>u award. unpayWinners award 0 (winners award) u) t (last_awards t)
                   else t)
         in (ok, bumpSequence ((mapPlayers refundPlayer t1)
               \<lparr>street := street_waiting, acting_seat := None, current_bet := 0,
                minimum_raise := big_blind (config t), pending_action := {}, raise_allowed := {},
                board := [], deck := None, last_awards := []\<rparr>))))"

section \<open>Acting\<close>

definition failResult :: "TableError \<Rightarrow> string \<Rightarrow> Table \<Rightarrow> ActionResult" where
  "failResult e msg t = \<lparr>res_error = e, res_message = msg, res_server_sequence = server_sequence t,
     res_awards = [], res_action_street = street_waiting\<rparr>"

text \<open>The lambda \<open>payTo\<close>.\<close>

definition payTo :: "Chips \<Rightarrow> Player \<Rightarrow> Player" where
  "payTo target p =
     (let payment = target - street_commitment p;
          p' = p\<lparr>stack := stack p - payment,
                 street_commitment := street_commitment p + payment,
                 hand_commitment := hand_commitment p + payment\<rparr>
      in if stack p' = 0 then p'\<lparr>status := status_all_in\<rparr> else p')"

definition setSeat :: "nat \<Rightarrow> Player \<Rightarrow> Table \<Rightarrow> Table" where
  "setSeat s p t = t\<lparr>seats := (seats t)[s := Some p]\<rparr>"

text \<open>What bet, raise and all-in do once their checks have passed: \<open>full\<close> tells a full raise from
  a short all-in.\<close>

definition raiseTo :: "nat \<Rightarrow> Player \<Rightarrow> Chips \<Rightarrow> Chips \<Rightarrow> bool \<Rightarrow> Table \<Rightarrow> Table" where
  "raiseTo s p target raise_size full t =
     (let t1 = (setSeat s (payTo target p) t)\<lparr>current_bet := target\<rparr>
      in if full then resetAfterFullRaise (pid p) (t1\<lparr>minimum_raise := raise_size\<rparr>)
         else removeFromActionSets (pid p) (addUnderCalledPlayers (pid p) t1))"

text \<open>The \<open>switch\<close> of \<open>act\<close>: the error and message of a rejected command, or the table after it.\<close>

fun applyAction :: "nat \<Rightarrow> Player \<Rightarrow> ActionType \<Rightarrow> Chips \<Rightarrow> Table \<Rightarrow> (TableError \<times> string) + Table" where
  "applyAction s p fold_action amt t =
     Inr (removeFromActionSets (pid p) (setSeat s (p\<lparr>status := folded\<rparr>) t))"
| "applyAction s p check amt t =
     (if street_commitment p \<noteq> current_bet t
      then Inl (action_not_allowed, ''check is only legal when no chips are owed'')
      else Inr (removeFromActionSets (pid p) t))"
| "applyAction s p call amt t =
     (if street_commitment p \<ge> current_bet t
      then Inl (action_not_allowed, ''there is no bet to call'')
      else Inr (removeFromActionSets (pid p)
             (setSeat s (payTo (min (current_bet t) (street_commitment p + stack p)) p) t)))"
| "applyAction s p bet amt t =
     (let available = street_commitment p + stack p in
      if current_bet t \<noteq> 0
      then Inl (action_not_allowed, ''an existing bet must be raised, not bet again'')
      else if amt \<le> street_commitment p \<or> amt > available
      then Inl (invalid_amount, ''bet target is outside the player's available stack'')
      else if amt < minimum_raise t \<and> amt \<noteq> available
      then Inl (minimum_raise_not_met, ''bet is below the table minimum'')
      else Inr (raiseTo s p amt amt (amt \<ge> minimum_raise t) t))"
| "applyAction s p raise amt t =
     (let available = street_commitment p + stack p; raise_size = amt - current_bet t in
      if current_bet t = 0
      then Inl (action_not_allowed, ''raise requires an existing bet'')
      else if pid p \<notin> raise_allowed t
      then Inl (action_not_allowed, ''a short all-in did not reopen raising'')
      else if amt \<le> current_bet t \<or> amt > available
      then Inl (invalid_amount, ''raise target must exceed the current bet and fit the stack'')
      else if raise_size < minimum_raise t \<and> amt \<noteq> available
      then Inl (minimum_raise_not_met, ''raise increment is below the minimum raise'')
      else Inr (raiseTo s p amt raise_size (raise_size \<ge> minimum_raise t) t))"
| "applyAction s p all_in_action amt t =
     (let target = street_commitment p + stack p; raise_size = target - current_bet t in
      if stack p \<le> 0
      then Inl (player_cannot_act, ''the player has no chips left'')
      else if target \<le> current_bet t
      then Inr (removeFromActionSets (pid p) (setSeat s (payTo target p) t))
      else if pid p \<notin> raise_allowed t
      then Inl (action_not_allowed, ''raising was not reopened for this player'')
      else Inr (raiseTo s p target raise_size (raise_size \<ge> minimum_raise t) t))"

definition afterAction :: "nat \<Rightarrow> Table \<Rightarrow> Table result" where
  "afterAction previous_seat t =
     (if contenders t \<le> 1 then settleFoldWin t
      else if bettingRoundComplete t
      then advanceUntilActionOrSettlement (t\<lparr>acting_seat := None\<rparr>)
      else Inr (selectNextActor previous_seat t))"

definition act :: "ActionCommand \<Rightarrow> Table \<Rightarrow> (ActionResult \<times> Table) result" where
  "act cmd t =
     (if \<not> handIsRunning (street t) \<or> street t = showdown
      then Inr (failResult action_not_allowed ''no betting round is active'' t, t)
      else case acting_seat t of
        None \<Rightarrow> Inr (failResult not_players_turn ''the command was not sent by the acting player'' t, t)
      | Some s \<Rightarrow>
          (case seats t ! s of
             None \<Rightarrow> Inr (failResult not_players_turn ''the command was not sent by the acting player'' t, t)
           | Some p \<Rightarrow>
               (if pid p \<noteq> player_id cmd
                then Inr (failResult not_players_turn ''the command was not sent by the acting player'' t, t)
                else if \<not> canAct p \<or> pid p \<notin> pending_action t
                then Inr (failResult player_cannot_act ''the player cannot act in this betting round'' t, t)
                else case applyAction s p (action_type cmd) (amount cmd) t of
                       Inl (e, msg) \<Rightarrow> Inr (failResult e msg t, t)
                     | Inr t1 \<Rightarrow>
                         bind_result (afterAction (seat p) (bumpSequence t1)) (\<lambda>t2.
                           Inr (\<lparr>res_error = ok, res_message = [],
                                 res_server_sequence = server_sequence t2,
                                 res_awards = (if street t2 = settled then last_awards t2 else []),
                                 res_action_street = street t\<rparr>, t2)))))"

section \<open>Snapshots\<close>

definition viewOf :: "PlayerId option \<Rightarrow> Street \<Rightarrow> Player \<Rightarrow> PlayerView" where
  "viewOf viewer st p =
     (let own_cards = (viewer = Some (pid p));
          showdown_cards = (st = settled \<and> status p \<noteq> folded \<and> status p \<noteq> status_waiting)
      in \<lparr>view_id = pid p, view_seat = seat p, view_stack = stack p,
          view_street_commitment = street_commitment p, view_hand_commitment = hand_commitment p,
          view_status = status p, view_ready = ready p, view_connected = connected p,
          view_hole_cards = (if has_hole p \<and> (own_cards \<or> showdown_cards) then hole p else [])\<rparr>)"

definition idAt :: "Table \<Rightarrow> nat option \<Rightarrow> PlayerId option" where
  "idAt t s = (case s of
                 None \<Rightarrow> None
               | Some i \<Rightarrow> if i < length (seats t) then map_option pid (seats t ! i) else None)"

definition snapshot :: "PlayerId option \<Rightarrow> Table \<Rightarrow> TableSnapshot" where
  "snapshot viewer t = \<lparr>snap_street = street t, snap_hand_id = hand_id t,
     snap_server_sequence = server_sequence t, snap_dealer = idAt t (dealer_seat t),
     snap_acting_player = idAt t (acting_seat t), snap_current_bet = current_bet t,
     snap_minimum_raise = minimum_raise t,
     snap_pot = (if street t = settled then 0 else potSize t), snap_board = board t,
     snap_players = map (viewOf viewer (street t)) (players t)\<rparr>"

definition auditSnapshot :: "Table \<Rightarrow> TableSnapshot" where
  "auditSnapshot t =
     (let result = snapshot None t in
      result\<lparr>snap_players :=
        map (\<lambda>v. case findPlayer t (view_id v) of
                   None \<Rightarrow> v
                 | Some p \<Rightarrow> if has_hole p then v\<lparr>view_hole_cards := hole p\<rparr> else v)
          (snap_players result)\<rparr>)"

fun tableErrorToString :: "TableError \<Rightarrow> string" where
  "tableErrorToString ok = ''ok''"
| "tableErrorToString invalid_configuration = ''invalid configuration''"
| "tableErrorToString seat_out_of_range = ''seat out of range''"
| "tableErrorToString seat_occupied = ''seat occupied''"
| "tableErrorToString player_already_seated = ''player already seated''"
| "tableErrorToString player_not_found = ''player not found''"
| "tableErrorToString invalid_buy_in = ''invalid buy-in''"
| "tableErrorToString hand_in_progress = ''hand in progress''"
| "tableErrorToString not_enough_players = ''not enough players''"
| "tableErrorToString player_not_ready = ''player not ready''"
| "tableErrorToString not_players_turn = ''not player's turn''"
| "tableErrorToString player_cannot_act = ''player cannot act''"
| "tableErrorToString action_not_allowed = ''action not allowed''"
| "tableErrorToString invalid_amount = ''invalid amount''"
| "tableErrorToString minimum_raise_not_met = ''minimum raise not met''"
| "tableErrorToString service_unavailable = ''service unavailable''"

end
