(* ===== verification/Table_Frame.thy ===== *)
theory Table_Frame
  imports Table_Model
begin

text \<open>
  How the operations of the table touch the seats. \<open>sits t i p\<close> says that player \<open>p\<close> occupies seat
  \<open>i\<close>; every update of the model is described by what it does to \<open>sits\<close>, to counts and to sums over
  the players. \<open>seats_ok\<close> is the well-formedness of the seating, which every operation keeps.
\<close>

section \<open>Occupied seats\<close>

definition sits :: "Table \<Rightarrow> nat \<Rightarrow> Player \<Rightarrow> bool" where
  "sits t i p \<longleftrightarrow> i < length (seats t) \<and> seats t ! i = Some p"

lemma in_players: "p \<in> set (players t) \<longleftrightarrow> (\<exists>i. sits t i p)"
  unfolding sits_def by (metis nth_in_occupants occupants_nth)

lemma sits_fun: "sits t i p \<Longrightarrow> sits t i q \<Longrightarrow> p = q"
  by (simp add: sits_def)

lemma sits_less: "sits t i p \<Longrightarrow> i < length (seats t)"
  by (simp add: sits_def)

lemma sits_cong: "seats t' = seats t \<Longrightarrow> sits t' = sits t"
  by (simp add: sits_def fun_eq_iff)

lemma sits_record [simp]:
  "sits (t\<lparr>street := a\<rparr>) = sits t" "sits (t\<lparr>dealer_seat := b\<rparr>) = sits t"
  "sits (t\<lparr>acting_seat := b\<rparr>) = sits t" "sits (t\<lparr>current_bet := c\<rparr>) = sits t"
  "sits (t\<lparr>minimum_raise := c\<rparr>) = sits t" "sits (t\<lparr>pending_action := d\<rparr>) = sits t"
  "sits (t\<lparr>raise_allowed := d\<rparr>) = sits t" "sits (t\<lparr>board := e\<rparr>) = sits t"
  "sits (t\<lparr>deck := f\<rparr>) = sits t" "sits (t\<lparr>hand_id := g\<rparr>) = sits t"
  "sits (t\<lparr>server_sequence := g\<rparr>) = sits t" "sits (t\<lparr>last_awards := h\<rparr>) = sits t"
  by (simp_all add: sits_def fun_eq_iff)

lemma sits_setSeat [simp]:
  "s < length (seats t) \<Longrightarrow> sits (setSeat s q t) i p \<longleftrightarrow> (if i = s then p = q else sits t i p)"
  by (auto simp: sits_def setSeat_def nth_list_update)

lemma sits_mapPlayers [simp]: "sits (mapPlayers f t) i p \<longleftrightarrow> (\<exists>q. sits t i q \<and> p = f q)"
  by (auto simp: sits_def mapPlayers_def)

lemma sits_bumpSequence [simp]: "sits (bumpSequence t) = sits t"
  by (simp add: bumpSequence_def)

lemma sits_vacate:
  "s < length (seats t) \<Longrightarrow> sits (t\<lparr>seats := (seats t)[s := None]\<rparr>) i p \<longleftrightarrow> i \<noteq> s \<and> sits t i p"
  by (auto simp: sits_def nth_list_update)

lemma players_mapPlayers [simp]: "players (mapPlayers f t) = map f (players t)"
  by (simp add: mapPlayers_def occupants_map)

lemma length_seats_setSeat [simp]: "length (seats (setSeat s q t)) = length (seats t)"
  by (simp add: setSeat_def)

lemma length_seats_mapPlayers [simp]: "length (seats (mapPlayers f t)) = length (seats t)"
  by (simp add: mapPlayers_def)

text \<open>Sums and counts over the players when one of them changes.\<close>

lemma sum_setSeat:
  fixes f :: "Player \<Rightarrow> int"
  assumes "sits t s p"
  shows "sum_list (map f (players (setSeat s q t))) = sum_list (map f (players t)) - f p + f q"
  using assms sum_occupants_update [of s "seats t" p f q] by (simp add: sits_def setSeat_def)

lemma count_occupants:
  "int (length (filter P xs)) = sum_list (map (\<lambda>p. if P p then 1 else 0) xs)"
  by (induction xs) auto

lemma count_setSeat:
  assumes "sits t s p"
  shows "int (length (filter P (players (setSeat s q t)))) =
    int (length (filter P (players t))) - (if P p then 1 else 0) + (if P q then 1 else 0)"
  unfolding count_occupants by (rule sum_setSeat [OF assms])

lemma count_map_same:
  "(\<And>p. p \<in> set xs \<Longrightarrow> P (f p) = P p) \<Longrightarrow> length (filter P (map f xs)) = length (filter P xs)"
  by (induction xs) auto

section \<open>Well-formed seating\<close>

definition player_ok :: "Player \<Rightarrow> bool" where
  "player_ok p \<longleftrightarrow> 0 \<le> stack p \<and> 0 \<le> street_commitment p \<and> street_commitment p \<le> hand_commitment p
     \<and> length (hole p) = 2 \<and> status p \<noteq> disconnected"

definition unique_ids :: "Table \<Rightarrow> bool" where
  "unique_ids t \<longleftrightarrow> (\<forall>i j p q. sits t i p \<and> sits t j q \<and> pid p = pid q \<longrightarrow> i = j)"

definition seats_ok :: "Table \<Rightarrow> bool" where
  "seats_ok t \<longleftrightarrow> validateConfig (config t) = ok \<and> length (seats t) = max_players (config t) \<and>
     unique_ids t \<and> (\<forall>i p. sits t i p \<longrightarrow> seat p = i \<and> player_ok p) \<and>
     (\<forall>d. dealer_seat t = Some d \<longrightarrow> d < length (seats t))"

lemma seats_okD:
  assumes "seats_ok t"
  shows "2 \<le> length (seats t)" "length (seats t) \<le> 6" "0 < small_blind (config t)"
    "2 * small_blind (config t) \<le> big_blind (config t)"
    "2 \<le> min_players (config t)" "min_players (config t) \<le> length (seats t)"
  using assms by (auto simp: seats_ok_def validateConfig_def split: if_splits)

lemma seats_ok_player: "seats_ok t \<Longrightarrow> sits t i p \<Longrightarrow> player_ok p"
  by (simp add: seats_ok_def)

lemma seats_ok_seat: "seats_ok t \<Longrightarrow> sits t i p \<Longrightarrow> seat p = i"
  by (simp add: seats_ok_def)

lemma seats_ok_unique: "seats_ok t \<Longrightarrow> sits t i p \<Longrightarrow> sits t j q \<Longrightarrow> pid p = pid q \<Longrightarrow> i = j \<and> p = q"
  unfolding seats_ok_def unique_ids_def using sits_fun by blast

lemma distinct_ids:
  assumes "\<forall>i j p q. i < length xs \<and> xs ! i = Some p \<and> j < length xs \<and> xs ! j = Some q \<and> pid p = pid q \<longrightarrow> i = j"
  shows "distinct (map pid (occupants xs))"
  using assms
proof (induction xs rule: occupants.induct)
  case 1
  then show ?case by simp
next
  case (2 xs)
  have "distinct (map pid (occupants xs))"
    by (rule "2.IH") (use "2.prems" in \<open>metis Suc_less_eq length_Cons nth_Cons_Suc old.nat.inject\<close>)
  then show ?case by simp
next
  case (3 x xs)
  have "distinct (map pid (occupants xs))"
    by (rule "3.IH") (use "3.prems" in \<open>metis Suc_less_eq length_Cons nth_Cons_Suc old.nat.inject\<close>)
  moreover have "pid x \<notin> set (map pid (occupants xs))"
  proof
    assume "pid x \<in> set (map pid (occupants xs))"
    then obtain y where "y \<in> set (occupants xs)" "pid x = pid y" by auto
    moreover obtain j where "j < length xs" "xs ! j = Some y"
      using occupants_nth [OF \<open>y \<in> set (occupants xs)\<close>] by blast
    ultimately show False using "3.prems" [rule_format, of 0 x "Suc j" y] by simp
  qed
  ultimately show ?case by simp
qed

lemma seats_ok_distinct: "seats_ok t \<Longrightarrow> distinct (map pid (players t))"
  by (rule distinct_ids) (auto simp: seats_ok_def unique_ids_def sits_def)

lemma seats_ok_record [simp]:
  "seats_ok (t\<lparr>street := a\<rparr>) = seats_ok t" "seats_ok (t\<lparr>acting_seat := b\<rparr>) = seats_ok t"
  "seats_ok (t\<lparr>current_bet := c\<rparr>) = seats_ok t" "seats_ok (t\<lparr>minimum_raise := c\<rparr>) = seats_ok t"
  "seats_ok (t\<lparr>pending_action := d\<rparr>) = seats_ok t" "seats_ok (t\<lparr>raise_allowed := d\<rparr>) = seats_ok t"
  "seats_ok (t\<lparr>board := e\<rparr>) = seats_ok t" "seats_ok (t\<lparr>deck := f\<rparr>) = seats_ok t"
  "seats_ok (t\<lparr>hand_id := g\<rparr>) = seats_ok t" "seats_ok (t\<lparr>server_sequence := g\<rparr>) = seats_ok t"
  "seats_ok (t\<lparr>last_awards := h\<rparr>) = seats_ok t"
  by (simp_all add: seats_ok_def unique_ids_def)

lemma seats_ok_cong:
  "seats t' = seats t \<Longrightarrow> config t' = config t \<Longrightarrow> dealer_seat t' = dealer_seat t \<Longrightarrow> seats_ok t' = seats_ok t"
  using sits_cong [of t' t] by (simp add: seats_ok_def unique_ids_def)

lemma seats_ok_bumpSequence [simp]: "seats_ok (bumpSequence t) = seats_ok t"
  by (simp add: bumpSequence_def)

lemma seats_ok_dealer:
  "seats_ok t \<Longrightarrow> d < length (seats t) \<Longrightarrow> seats_ok (t\<lparr>dealer_seat := Some d\<rparr>)"
  by (simp add: seats_ok_def unique_ids_def)

lemma setSeat_simps [simp]:
  "config (setSeat s q t) = config t" "dealer_seat (setSeat s q t) = dealer_seat t"
  "street (setSeat s q t) = street t" "acting_seat (setSeat s q t) = acting_seat t"
  "current_bet (setSeat s q t) = current_bet t" "minimum_raise (setSeat s q t) = minimum_raise t"
  "pending_action (setSeat s q t) = pending_action t" "raise_allowed (setSeat s q t) = raise_allowed t"
  "board (setSeat s q t) = board t" "deck (setSeat s q t) = deck t"
  "last_awards (setSeat s q t) = last_awards t" "server_sequence (setSeat s q t) = server_sequence t"
  "hand_id (setSeat s q t) = hand_id t"
  by (simp_all add: setSeat_def)

lemma mapPlayers_simps [simp]:
  "config (mapPlayers f t) = config t" "dealer_seat (mapPlayers f t) = dealer_seat t"
  "street (mapPlayers f t) = street t" "acting_seat (mapPlayers f t) = acting_seat t"
  "current_bet (mapPlayers f t) = current_bet t" "minimum_raise (mapPlayers f t) = minimum_raise t"
  "pending_action (mapPlayers f t) = pending_action t" "raise_allowed (mapPlayers f t) = raise_allowed t"
  "board (mapPlayers f t) = board t" "deck (mapPlayers f t) = deck t"
  "last_awards (mapPlayers f t) = last_awards t" "server_sequence (mapPlayers f t) = server_sequence t"
  "hand_id (mapPlayers f t) = hand_id t"
  by (simp_all add: mapPlayers_def)

lemma bumpSequence_simps [simp]:
  "config (bumpSequence t) = config t" "dealer_seat (bumpSequence t) = dealer_seat t"
  "street (bumpSequence t) = street t" "acting_seat (bumpSequence t) = acting_seat t"
  "current_bet (bumpSequence t) = current_bet t" "minimum_raise (bumpSequence t) = minimum_raise t"
  "pending_action (bumpSequence t) = pending_action t" "raise_allowed (bumpSequence t) = raise_allowed t"
  "board (bumpSequence t) = board t" "deck (bumpSequence t) = deck t"
  "last_awards (bumpSequence t) = last_awards t" "seats (bumpSequence t) = seats t"
  "hand_id (bumpSequence t) = hand_id t"
  by (simp_all add: bumpSequence_def)

lemma seats_ok_setSeat:
  assumes "seats_ok t" "sits t s p" "pid q = pid p" "seat q = seat p" "player_ok q"
  shows "seats_ok (setSeat s q t)"
proof -
  have len: "s < length (seats t)" using assms(2) by (rule sits_less)
  have "unique_ids (setSeat s q t)"
    unfolding unique_ids_def sits_setSeat [OF len] using seats_ok_unique [OF assms(1)] assms(2,3)
    by metis
  then show ?thesis using assms len by (auto simp: seats_ok_def split: if_splits)
qed

lemma seats_ok_mapPlayers:
  assumes "seats_ok t" "\<And>i p. sits t i p \<Longrightarrow> pid (f p) = pid p \<and> seat (f p) = seat p \<and> player_ok (f p)"
  shows "seats_ok (mapPlayers f t)"
proof -
  have "unique_ids (mapPlayers f t)"
    using assms by (auto simp: unique_ids_def seats_ok_def) metis
  then show ?thesis using assms by (auto simp: seats_ok_def)
qed

section \<open>Finding a player\<close>

lemma seatOf_sits:
  assumes "seats_ok t" "sits t i p"
  shows "seatOf t (pid p) = Some i"
  unfolding seatOf_def
proof (rule first_index_unique)
  show "i < length (seats t)" "seatHolds (pid p) (seats t ! i)"
    using assms(2) by (auto simp: sits_def seatHolds_def)
  fix j assume "j < length (seats t)" "seatHolds (pid p) (seats t ! j)"
  then obtain q where "sits t j q" "pid q = pid p"
    by (auto simp: sits_def seatHolds_def split: option.splits)
  then show "j = i" using seats_ok_unique [OF assms(1) _ assms(2)] by blast
qed

lemma seatOf_SomeD:
  "seatOf t x = Some i \<Longrightarrow> \<exists>p. sits t i p \<and> pid p = x"
  by (auto simp: seatOf_def sits_def seatHolds_def dest!: first_index_SomeD split: option.splits)

lemma seatOf_NoneD: "seatOf t x = None \<Longrightarrow> sits t i p \<Longrightarrow> pid p \<noteq> x"
  by (auto simp: seatOf_def sits_def seatHolds_def first_index_None_iff dest!: nth_mem split: option.splits)

lemma findPlayer_seatOf:
  "findPlayer t x = (case seatOf t x of None \<Rightarrow> None | Some i \<Rightarrow> seats t ! i)"
proof -
  have "List.find P xs = map_option (nth xs) (first_index P xs)" for P and xs :: "'z list"
    by (induction xs) (auto simp: option.map_comp comp_def)
  from this [of "seatHolds x" "seats t"] show ?thesis
    by (cases "first_index (seatHolds x) (seats t)") (simp_all add: findPlayer_def seatOf_def)
qed

lemma findPlayer_SomeD: "findPlayer t x = Some p \<Longrightarrow> \<exists>i. seatOf t x = Some i \<and> sits t i p \<and> pid p = x"
  using seatOf_SomeD by (fastforce simp: findPlayer_seatOf sits_def split: option.splits)

lemma findPlayer_NoneD:
  assumes "findPlayer t x = None" "sits t i p"
  shows "pid p \<noteq> x"
proof (cases "seatOf t x")
  case None
  then show ?thesis using assms(2) by (rule seatOf_NoneD)
next
  case (Some j)
  then show ?thesis using seatOf_SomeD [OF Some] assms(1) by (auto simp: findPlayer_seatOf sits_def)
qed

lemma findPlayer_sits: "seats_ok t \<Longrightarrow> sits t i p \<Longrightarrow> findPlayer t (pid p) = Some p"
  using seatOf_sits by (simp add: findPlayer_seatOf sits_def)

lemma updatePlayer_sits:
  assumes "seats_ok t" "sits t i p"
  shows "updatePlayer (pid p) f t = setSeat i (f p) t"
  using seatOf_sits [OF assms] assms(2) by (simp add: updatePlayer_def setSeat_def sits_def)

lemma updatePlayer_absent:
  "(\<And>i p. sits t i p \<Longrightarrow> pid p \<noteq> x) \<Longrightarrow> updatePlayer x f t = t"
  using seatOf_SomeD [of t x] by (fastforce simp: updatePlayer_def split: option.splits)

end
