(* ===== verification/Table_Betting.thy ===== *)
theory Table_Betting
  imports Table_Frame
begin

text \<open>
  The invariant of a running hand and its preservation by the \<open>switch\<close> of \<open>Table::act\<close>.

  \<^item> \<open>bettor_ok\<close>: stack, status and commitment of one player agree with the current bet.
  \<^item> \<open>pending_ok\<close>: only players who can act are waited for.
  \<^item> \<open>called_ok\<close>: a player who can act and is not waited for has matched the current bet.
  \<^item> \<open>bet_held\<close>: the current bet is some player's commitment on the street.
  \<^item> \<open>cards_ok\<close>: the deck is a permutation of the 52 cards and no card has been dealt twice.
  \<^item> \<open>betting_ok\<close>: all of these except \<open>called_ok\<close>, in a street from preflop to river.
  \<^item> \<open>actor_ready\<close>: the acting seat holds a player who can act and is waited for.
\<close>

section \<open>The invariant\<close>

definition bettor_ok :: "Table \<Rightarrow> Player \<Rightarrow> bool" where
  "bettor_ok t p \<longleftrightarrow>
     (status p = active \<longrightarrow> 0 < stack p) \<and> (status p = status_all_in \<longrightarrow> stack p = 0) \<and>
     (status p = status_waiting \<longrightarrow> hand_commitment p = 0) \<and> (status p \<noteq> status_waiting \<longrightarrow> has_hole p) \<and>
     street_commitment p \<le> current_bet t"

definition pending_ok :: "Table \<Rightarrow> bool" where
  "pending_ok t \<longleftrightarrow> (\<forall>x \<in> pending_action t. \<exists>i p. sits t i p \<and> canAct p \<and> pid p = x)"

definition called_ok :: "Table \<Rightarrow> bool" where
  "called_ok t \<longleftrightarrow>
     (\<forall>i p. sits t i p \<and> canAct p \<and> pid p \<notin> pending_action t \<longrightarrow> street_commitment p = current_bet t)"

definition bet_held :: "Table \<Rightarrow> bool" where
  "bet_held t \<longleftrightarrow> current_bet t = 0 \<or> (\<exists>i p. sits t i p \<and> street_commitment p = current_bet t)"

definition dealer_ok :: "Table \<Rightarrow> bool" where
  "dealer_ok t \<longleftrightarrow> (\<exists>d p. dealer_seat t = Some d \<and> sits t d p \<and> status p \<noteq> status_waiting)"

fun boardSize :: "Street \<Rightarrow> nat" where
  "boardSize flop = 3"
| "boardSize turn = 4"
| "boardSize river = 5"
| "boardSize _ = 0"

fun dealtBound :: "Street \<Rightarrow> nat" where
  "dealtBound preflop = 12"
| "dealtBound flop = 16"
| "dealtBound turn = 18"
| "dealtBound river = 20"
| "dealtBound _ = 0"

definition fullDeck :: "Deck \<Rightarrow> bool" where
  "fullDeck d \<longleftrightarrow> mset (deck_cards d) = mset orderedDeck"

definition dealtCards :: "Deck \<Rightarrow> Card set" where
  "dealtCards d = set (take (deck_next d) (deck_cards d))"

definition holes_ok :: "Table \<Rightarrow> Card set \<Rightarrow> bool" where
  "holes_ok t dealt \<longleftrightarrow>
     (\<forall>i p. sits t i p \<and> has_hole p \<longrightarrow>
        distinct (hole p) \<and> set (hole p) \<subseteq> dealt \<and> set (hole p) \<inter> set (board t) = {}) \<and>
     (\<forall>i j p q. sits t i p \<and> sits t j q \<and> has_hole p \<and> has_hole q \<and> i \<noteq> j \<longrightarrow> set (hole p) \<inter> set (hole q) = {})"

definition board_ok :: "Table \<Rightarrow> Card set \<Rightarrow> bool" where
  "board_ok t dealt \<longleftrightarrow> distinct (board t) \<and> set (board t) \<subseteq> dealt"

definition cards_ok :: "Table \<Rightarrow> bool" where
  "cards_ok t \<longleftrightarrow>
     (\<exists>d. deck t = Some d \<and> fullDeck d \<and> deck_next d \<le> dealtBound (street t) \<and>
        length (board t) = boardSize (street t) \<and> board_ok t (dealtCards d) \<and> holes_ok t (dealtCards d))"

definition betStreet :: "Street \<Rightarrow> bool" where
  "betStreet s \<longleftrightarrow> s \<in> {preflop, flop, turn, river}"

definition betting_ok :: "Table \<Rightarrow> bool" where
  "betting_ok t \<longleftrightarrow> seats_ok t \<and> betStreet (street t) \<and> 0 \<le> current_bet t \<and> 0 < minimum_raise t \<and>
     (\<forall>i p. sits t i p \<longrightarrow> bettor_ok t p) \<and> pending_ok t \<and> dealer_ok t \<and> cards_ok t \<and> bet_held t"

definition actor_ready :: "Table \<Rightarrow> bool" where
  "actor_ready t \<longleftrightarrow>
     (\<exists>s p. acting_seat t = Some s \<and> sits t s p \<and> canAct p \<and> pid p \<in> pending_action t)"

lemma betting_okD:
  assumes "betting_ok t"
  shows "seats_ok t" "betStreet (street t)" "0 \<le> current_bet t" "0 < minimum_raise t"
    "sits t i p \<Longrightarrow> bettor_ok t p" "pending_ok t" "dealer_ok t" "cards_ok t" "bet_held t"
  using assms by (auto simp: betting_ok_def)

section \<open>The next actor\<close>

lemma nextCanActSeat_SomeD:
  "nextCanActSeat t from = Some s \<Longrightarrow> \<exists>p. sits t s p \<and> canAct p \<and> pid p \<in> pending_action t"
  by (auto simp: nextCanActSeat_def sits_def dest!: next_seat_SomeD split: option.splits)

lemma nextCanActSeat_ex:
  "sits t i p \<Longrightarrow> canAct p \<Longrightarrow> pid p \<in> pending_action t \<Longrightarrow> \<exists>s. nextCanActSeat t from = Some s"
  unfolding nextCanActSeat_def by (rule next_seat_ex) (auto simp: sits_def)

lemma nextCanActSeat_ready:
  assumes "sits t i p" "canAct p" "pid p \<in> pending_action t"
  shows "actor_ready (t\<lparr>acting_seat := nextCanActSeat t from\<rparr>)"
  using nextCanActSeat_ex [OF assms, of "from"] by (auto simp: actor_ready_def dest: nextCanActSeat_SomeD)

lemma nextCanActSeat_record [simp]:
  "nextCanActSeat (t\<lparr>acting_seat := x\<rparr>) = nextCanActSeat t"
  "nextCanActSeat (bumpSequence t) = nextCanActSeat t"
  by (simp_all add: nextCanActSeat_def fun_eq_iff cong: option.case_cong)

text \<open>An open round with everyone else called waits for somebody who can act.\<close>

lemma incomplete_pending:
  assumes "\<not> bettingRoundComplete t" "called_ok t"
  shows "\<exists>i p. sits t i p \<and> canAct p \<and> pid p \<in> pending_action t"
  using assms unfolding bettingRoundComplete_def list_all_iff in_players called_ok_def Ball_def by blast

lemma called_ok_sets:
  "called_ok t \<Longrightarrow> pending_action t = {} \<Longrightarrow> bettingRoundComplete t"
  by (auto simp: bettingRoundComplete_def list_all_iff in_players called_ok_def)

section \<open>One player's move\<close>

definition acted :: "Table \<Rightarrow> nat \<Rightarrow> Player \<Rightarrow> Player \<Rightarrow> Table \<Rightarrow> bool" where
  "acted t s p p' t1 \<longleftrightarrow> sits t s p \<and> seats t1 = (seats t)[s := Some p'] \<and>
     config t1 = config t \<and> street t1 = street t \<and> dealer_seat t1 = dealer_seat t \<and>
     board t1 = board t \<and> deck t1 = deck t \<and> last_awards t1 = last_awards t \<and>
     pid p' = pid p \<and> seat p' = seat p \<and> hole p' = hole p \<and> has_hole p' = has_hole p \<and>
     stack p' + hand_commitment p' = stack p + hand_commitment p \<and>
     status p \<noteq> status_waiting \<and> status p' \<noteq> status_waiting \<and> player_ok p'"

lemma acted_sits:
  assumes "acted t s p p' t1"
  shows "sits t1 i q \<longleftrightarrow> (if i = s then q = p' else sits t i q)"
  using assms by (auto simp: acted_def sits_def nth_list_update)

lemma acted_seats_ok:
  assumes "acted t s p p' t1" "seats_ok t"
  shows "seats_ok t1"
proof -
  have "seats_ok (setSeat s p' t)" using assms by (intro seats_ok_setSeat [of t s p]) (auto simp: acted_def)
  moreover have "seats_ok t1 = seats_ok (setSeat s p' t)"
    using assms(1) by (intro seats_ok_cong) (simp_all add: acted_def setSeat_def)
  ultimately show ?thesis by simp
qed

lemma acted_dealer_ok:
  assumes "acted t s p p' t1" "dealer_ok t"
  shows "dealer_ok t1"
proof -
  obtain d q where d: "dealer_seat t = Some d" "sits t d q" "status q \<noteq> status_waiting"
    using assms(2) by (auto simp: dealer_ok_def)
  moreover have "sits t1 d (if d = s then p' else q)" "status p' \<noteq> status_waiting" "dealer_seat t1 = Some d"
    using d assms(1) acted_sits [OF assms(1)] by (auto simp: acted_def)
  ultimately show ?thesis unfolding dealer_ok_def by metis
qed

lemma acted_cards_ok:
  assumes "acted t s p p' t1" "cards_ok t"
  shows "cards_ok t1"
proof -
  have brd: "board t1 = board t" using assms(1) by (simp add: acted_def)
  have core: "\<exists>q'. sits t i q' \<and> hole q' = hole q \<and> has_hole q' = has_hole q" if "sits t1 i q" for i q
    using that assms(1) acted_sits [OF assms(1)] by (auto simp: acted_def split: if_splits)
  have "holes_ok t1 dealt" if "holes_ok t dealt" for dealt
    unfolding holes_ok_def brd
  proof (intro conjI allI impI; elim conjE)
    fix i q assume "sits t1 i q" "has_hole q"
    then obtain q' where "sits t i q'" "hole q' = hole q" "has_hole q'" using core by metis
    then show "distinct (hole q)" "set (hole q) \<subseteq> dealt" "set (hole q) \<inter> set (board t) = {}"
      using that unfolding holes_ok_def by metis+
  next
    fix i j q r assume *: "sits t1 i q" "sits t1 j r" "has_hole q" "has_hole r" "i \<noteq> j"
    obtain q' where q': "sits t i q'" "hole q' = hole q" "has_hole q'" using core * by metis
    obtain r' where r': "sits t j r'" "hole r' = hole r" "has_hole r'" using core * by metis
    show "set (hole q) \<inter> set (hole r) = {}"
      using that q' r' \<open>i \<noteq> j\<close> unfolding holes_ok_def by metis
  qed
  then show ?thesis using assms by (auto simp: acted_def cards_ok_def board_ok_def)
qed

lemma acted_pids:
  assumes "acted t s p p' t1" "sits t i q" "seats_ok t"
  shows "pid q = pid p \<longleftrightarrow> i = s"
  using assms seats_ok_unique [OF assms(3,2), of s p] by (auto simp: acted_def dest: sits_fun)

section \<open>Paying\<close>

lemma payTo_result:
  assumes "player_ok p" "canAct p" "street_commitment p \<le> target" "target \<le> street_commitment p + stack p"
  shows "player_ok (payTo target p)" "street_commitment (payTo target p) = target"
    "stack (payTo target p) + hand_commitment (payTo target p) = stack p + hand_commitment p"
    "stack (payTo target p) = street_commitment p + stack p - target"
    "hand_commitment (payTo target p) = hand_commitment p + (target - street_commitment p)"
    "status (payTo target p) = (if street_commitment p + stack p = target then status_all_in else active)"
    "pid (payTo target p) = pid p" "seat (payTo target p) = seat p"
    "hole (payTo target p) = hole p" "has_hole (payTo target p) = has_hole p"
  using assms by (auto simp: payTo_def player_ok_def canAct_def Let_def)

lemma acted_payTo:
  assumes "seats_ok t" "sits t s p" "canAct p" "street_commitment p \<le> target"
    "target \<le> street_commitment p + stack p"
  shows "acted t s p (payTo target p) (setSeat s (payTo target p) t)"
proof -
  note pay = payTo_result [OF seats_ok_player [OF assms(1,2)] assms(3-5)]
  have "status p = active" using assms(3) by (simp add: canAct_def)
  then show ?thesis using assms(2) pay unfolding acted_def by (simp add: setSeat_def)
qed

lemma acted_record [simp]:
  "acted t s p p' (t1\<lparr>current_bet := a\<rparr>) = acted t s p p' t1"
  "acted t s p p' (t1\<lparr>minimum_raise := a\<rparr>) = acted t s p p' t1"
  "acted t s p p' (t1\<lparr>pending_action := b\<rparr>) = acted t s p p' t1"
  "acted t s p p' (t1\<lparr>raise_allowed := b\<rparr>) = acted t s p p' t1"
  "acted t s p p' (t1\<lparr>acting_seat := c\<rparr>) = acted t s p p' t1"
  "acted t s p p' (t1\<lparr>server_sequence := e\<rparr>) = acted t s p p' t1"
  by (simp_all add: acted_def)

text \<open>What remains to check for a move: the players' bets, the sets of waited-for players.\<close>

lemma acted_betting_ok:
  assumes "acted t s p p' t1" "betting_ok t" "current_bet t \<le> current_bet t1" "0 < minimum_raise t1"
    "bettor_ok t1 p'" "pending_ok t1"
    "street_commitment p' = current_bet t1 \<or>
       current_bet t1 = current_bet t \<and> street_commitment p \<le> street_commitment p'"
  shows "betting_ok t1"
proof -
  have held: "bet_held t1"
    using assms(7)
  proof
    assume "street_commitment p' = current_bet t1"
    then show ?thesis using acted_sits [OF assms(1), of s p'] by (auto simp: bet_held_def)
  next
    assume same: "current_bet t1 = current_bet t \<and> street_commitment p \<le> street_commitment p'"
    have "current_bet t = 0 \<or> (\<exists>i q. sits t i q \<and> street_commitment q = current_bet t)"
      using betting_okD(9) [OF assms(2)] by (simp add: bet_held_def)
    then show ?thesis
    proof (elim disjE exE conjE)
      fix i q assume q: "sits t i q" "street_commitment q = current_bet t"
      show ?thesis
      proof (cases "i = s")
        case True
        then have "q = p" using q(1) assms(1) sits_fun by (auto simp: acted_def)
        then have "street_commitment p' = current_bet t1" using same q(2) assms(5) by (simp add: bettor_ok_def)
        then show ?thesis using acted_sits [OF assms(1), of s p'] by (auto simp: bet_held_def)
      next
        case False
        then show ?thesis using acted_sits [OF assms(1), of i q] q same by (auto simp: bet_held_def)
      qed
    qed (use same in \<open>simp add: bet_held_def\<close>)
  qed
  have "bettor_ok t1 q" if "sits t1 i q" for i q
  proof (cases "i = s")
    case True
    then show ?thesis using that acted_sits [OF assms(1)] assms(5) by simp
  next
    case False
    then have "sits t i q" using that acted_sits [OF assms(1)] by simp
    then have "bettor_ok t q" using assms(2) by (simp add: betting_ok_def)
    then show ?thesis using assms(3) by (auto simp: bettor_ok_def)
  qed
  then show ?thesis
    using assms(1-4,6) acted_seats_ok [OF assms(1)] acted_dealer_ok [OF assms(1)] acted_cards_ok [OF assms(1)] held
    by (auto simp: betting_ok_def acted_def)
qed

section \<open>The switch of act\<close>

text \<open>A move either costs chips or takes the player out of the set of waited-for players.\<close>

definition moved :: "Table \<Rightarrow> nat \<Rightarrow> Player \<Rightarrow> Player \<Rightarrow> Table \<Rightarrow> bool" where
  "moved t s p p' t1 \<longleftrightarrow> acted t s p p' t1 \<and> betting_ok t1 \<and> called_ok t1 \<and>
     (stack p' < stack p \<or> stack p' = stack p \<and> pending_action t1 = pending_action t - {pid p})"

text \<open>A player leaves the set of waited-for players without changing the bet.\<close>

lemma moved_without_raise:
  assumes "betting_ok t" "called_ok t" "acted t s p p' t1" "current_bet t1 = current_bet t"
    "minimum_raise t1 = minimum_raise t" "pending_action t1 = pending_action t - {pid p}"
    "bettor_ok t p'" "canAct p' \<Longrightarrow> street_commitment p' = current_bet t"
    "street_commitment p \<le> street_commitment p'" "stack p' \<le> stack p"
  shows "moved t s p p' t1"
proof -
  note okt = betting_okD(1) [OF assms(1)]
  note sits1 = acted_sits [OF assms(3)]
  note ids = acted_pids [OF assms(3) _ okt]
  have "pending_ok t1"
    using betting_okD(6) [OF assms(1)] ids unfolding pending_ok_def assms(6)
    by (metis DiffD1 DiffD2 singletonI sits1)
  moreover have "called_ok t1"
    using assms(2,4,6,8) ids by (auto simp: called_ok_def sits1)
  moreover have "bettor_ok t1 p'" using assms(4,7) by (simp add: bettor_ok_def)
  moreover have "current_bet t \<le> current_bet t1" "0 < minimum_raise t1"
    using assms(4,5) betting_okD(4) [OF assms(1)] by simp_all
  ultimately have "betting_ok t1" using acted_betting_ok [OF assms(3,1)] assms(4,9) by blast
  then show ?thesis using assms(3,6,10) \<open>called_ok t1\<close> by (simp add: moved_def order_le_less)
qed

text \<open>A raise: everybody else who can act is waited for again, whether the raise is full or short.\<close>

lemma moved_raise:
  assumes "betting_ok t" "acted t s p p' t1" "current_bet t < current_bet t1" "0 < minimum_raise t1"
    "\<And>i q. sits t i q \<Longrightarrow> i \<noteq> s \<Longrightarrow> canAct q \<Longrightarrow> pid q \<in> pending_action t1"
    "\<And>x. x \<in> pending_action t1 \<Longrightarrow> \<exists>i q. sits t i q \<and> i \<noteq> s \<and> canAct q \<and> pid q = x"
    "bettor_ok t1 p'" "street_commitment p' = current_bet t1" "stack p' < stack p"
  shows "moved t s p p' t1"
proof -
  note sits1 = acted_sits [OF assms(2)]
  have "pending_ok t1" unfolding pending_ok_def using assms(6) sits1 by metis
  moreover have "called_ok t1" using assms(5,8) by (auto simp: called_ok_def sits1 split: if_splits)
  ultimately show ?thesis
    using acted_betting_ok [OF assms(2,1)] assms(2,3,4,7-9) by (simp add: moved_def)
qed

lemma in_othersWhoCanAct:
  "q \<in> set (othersWhoCanAct x t) \<longleftrightarrow> (\<exists>i. sits t i q) \<and> pid q \<noteq> x \<and> canAct q"
  by (auto simp: othersWhoCanAct_def in_players)

lemma raiseTo_moved:
  assumes "betting_ok t" "sits t s p" "canAct p" "pid p \<in> pending_action t"
    "current_bet t < target" "target \<le> street_commitment p + stack p"
    "full \<Longrightarrow> 0 < raise_size"
  shows "moved t s p (payTo target p) (raiseTo s p target raise_size full t)"
proof -
  note okt = betting_okD(1) [OF assms(1)]
  note okp = seats_ok_player [OF okt assms(2)]
  have bp: "bettor_ok t p" by (rule betting_okD(5) [OF assms(1,2)])
  then have le: "street_commitment p \<le> target" using assms(5) by (simp add: bettor_ok_def)
  note pay = payTo_result [OF okp assms(3) le assms(6)]
  let ?t0 = "setSeat s (payTo target p) t"
  have act0: "acted t s p (payTo target p) ?t0" by (rule acted_payTo [OF okt assms(2,3) le assms(6)])
  note sits0 = acted_sits [OF act0] and ids = acted_pids [OF act0 _ okt]
  let ?t1 = "raiseTo s p target raise_size full t"
  have act1: "acted t s p (payTo target p) ?t1"
    using act0 by (simp add: raiseTo_def Let_def resetAfterFullRaise_def removeFromActionSets_def
        addUnderCalledPlayers_def)
  have cb: "current_bet ?t1 = target"
    by (simp add: raiseTo_def Let_def resetAfterFullRaise_def removeFromActionSets_def
        addUnderCalledPlayers_def)
  have mr: "0 < minimum_raise ?t1"
    using betting_okD(4) [OF assms(1)] assms(7)
    by (simp add: raiseTo_def Let_def resetAfterFullRaise_def removeFromActionSets_def
        addUnderCalledPlayers_def)
  let ?others = "{q. \<exists>i. sits t i q \<and> i \<noteq> s \<and> canAct q}"
  have others: "set (othersWhoCanAct (pid p) t') = ?others" if "sits t' = sits ?t0" for t'
    unfolding set_eq_iff in_othersWhoCanAct that using ids pay(7) sits0 by auto
  have under: "street_commitment q < target" if "sits t i q" for i q
    using betting_okD(5) [OF assms(1) that] assms(5) by (simp add: bettor_ok_def)
  have pend_others: "pending_action t - {pid p} \<subseteq> pid ` ?others"
    using betting_okD(6) [OF assms(1)] ids assms(2) unfolding pending_ok_def
    by (smt (verit, best) DiffD1 DiffD2 imageI mem_Collect_eq singletonI subsetI)
  have pend: "pending_action ?t1 = pid ` ?others"
  proof (cases full)
    case True
    then show ?thesis by (simp add: raiseTo_def Let_def resetAfterFullRaise_def others)
  next
    case False
    then have "pending_action ?t1 =
        (pending_action t \<union> pid ` {q \<in> ?others. street_commitment q < target}) - {pid p}"
      by (simp add: raiseTo_def Let_def removeFromActionSets_def addUnderCalledPlayers_def others)
    also have "\<dots> = pid ` ?others"
      using pend_others under ids by fastforce
    finally show ?thesis .
  qed
  show ?thesis
  proof (rule moved_raise [OF assms(1) act1])
    show "current_bet t < current_bet ?t1" using cb assms(5) by simp
    show "0 < minimum_raise ?t1" by (rule mr)
    show "bettor_ok ?t1 (payTo target p)"
      using bp pay cb assms(3,6) by (auto simp: bettor_ok_def canAct_def)
    show "street_commitment (payTo target p) = current_bet ?t1" using pay(2) cb by simp
    show "stack (payTo target p) < stack p" using pay(4) assms(5) bp by (simp add: bettor_ok_def)
  qed (auto simp: pend)
qed

lemma call_moved:
  assumes "betting_ok t" "called_ok t" "sits t s p" "canAct p" "pid p \<in> pending_action t"
    "street_commitment p \<le> target" "target \<le> street_commitment p + stack p" "target \<le> current_bet t"
    "target = current_bet t \<or> target = street_commitment p + stack p"
  shows "moved t s p (payTo target p) (removeFromActionSets (pid p) (setSeat s (payTo target p) t))"
proof -
  note okt = betting_okD(1) [OF assms(1)]
  note pay = payTo_result [OF seats_ok_player [OF okt assms(3)] assms(4,6,7)]
  note act0 = acted_payTo [OF okt assms(3,4,6,7)]
  show ?thesis
  proof (rule moved_without_raise [OF assms(1,2)])
    show "acted t s p (payTo target p) (removeFromActionSets (pid p) (setSeat s (payTo target p) t))"
      using act0 by (simp add: removeFromActionSets_def)
    show "bettor_ok t (payTo target p)"
      using pay assms betting_okD(5) [OF assms(1,3)] by (auto simp: bettor_ok_def canAct_def)
    show "street_commitment (payTo target p) = current_bet t" if "canAct (payTo target p)"
      using that pay assms(9) by (auto simp: canAct_def)
    show "street_commitment p \<le> street_commitment (payTo target p)" "stack (payTo target p) \<le> stack p"
      using pay assms(6) by simp_all
  qed (simp_all add: removeFromActionSets_def)
qed

lemma stay_acted:
  "seats_ok t \<Longrightarrow> sits t s p \<Longrightarrow> status p \<noteq> status_waiting \<Longrightarrow> acted t s p p t"
  using seats_ok_player [of t s p] list_update_id [of "seats t" s] by (simp add: acted_def sits_def)

lemma applyAction_moved:
  assumes "betting_ok t" "called_ok t" "sits t s p" "canAct p" "pid p \<in> pending_action t"
    "applyAction s p a amt t = Inr t1"
  shows "\<exists>p'. moved t s p p' t1"
proof -
  note okt = betting_okD(1) [OF assms(1)] and bp = betting_okD(5) [OF assms(1,3)]
  note mr = betting_okD(4) [OF assms(1)]
  have le: "street_commitment p \<le> current_bet t" using bp by (simp add: bettor_ok_def)
  have pos: "0 < stack p" "status p = active" using assms(4) by (auto simp: canAct_def)
  show ?thesis
  proof (cases a)
    case fold_action
    have pok: "player_ok (p\<lparr>status := folded\<rparr>)"
      using seats_ok_player [OF okt assms(3)] by (simp add: player_ok_def)
    have "moved t s p (p\<lparr>status := folded\<rparr>) t1"
    proof (rule moved_without_raise [OF assms(1,2)])
      show "acted t s p (p\<lparr>status := folded\<rparr>) t1"
        using assms(3,6) fold_action pos pok
        by (auto simp: acted_def removeFromActionSets_def setSeat_def)
      show "bettor_ok t (p\<lparr>status := folded\<rparr>)"
        using bp pos by (auto simp: bettor_ok_def)
      show "street_commitment (p\<lparr>status := folded\<rparr>) = current_bet t" if "canAct (p\<lparr>status := folded\<rparr>)"
        using that by (simp add: canAct_def)
    qed (use assms(6) fold_action in \<open>auto simp: removeFromActionSets_def\<close>)
    then show ?thesis by blast
  next
    case check
    have "moved t s p p t1"
    proof (rule moved_without_raise [OF assms(1,2)])
      show "acted t s p p t1"
        using stay_acted [OF okt assms(3)] assms(6) check pos
        by (auto simp: removeFromActionSets_def split: if_splits)
    qed (use assms(6) check bp in \<open>auto simp: removeFromActionSets_def split: if_splits\<close>)
    then show ?thesis by blast
  next
    case call
    let ?target = "min (current_bet t) (street_commitment p + stack p)"
    have "moved t s p (payTo ?target p) (removeFromActionSets (pid p) (setSeat s (payTo ?target p) t))"
      using le pos by (intro call_moved [OF assms(1-5)]) auto
    then show ?thesis using assms(6) call by (auto split: if_splits)
  next
    case bet
    have "moved t s p (payTo amt p) (raiseTo s p amt amt (amt \<ge> minimum_raise t) t)"
      if "current_bet t = 0" "\<not> amt \<le> street_commitment p" "amt \<le> street_commitment p + stack p"
      using that le mr seats_ok_player [OF okt assms(3)]
      by (intro raiseTo_moved [OF assms(1,3-5)]) (auto simp: player_ok_def)
    then show ?thesis using assms(6) bet by (auto simp: Let_def split: if_splits)
  next
    case raise
    have "moved t s p (payTo amt p)
        (raiseTo s p amt (amt - current_bet t) (amt - current_bet t \<ge> minimum_raise t) t)"
      if "\<not> amt \<le> current_bet t" "amt \<le> street_commitment p + stack p"
      using that mr by (intro raiseTo_moved [OF assms(1,3-5)]) auto
    then show ?thesis using assms(6) raise by (auto simp: Let_def split: if_splits)
  next
    case all_in_action
    let ?target = "street_commitment p + stack p"
    have "moved t s p (payTo ?target p) t1"
    proof (cases "?target \<le> current_bet t")
      case True
      then have "t1 = removeFromActionSets (pid p) (setSeat s (payTo ?target p) t)"
        using assms(6) all_in_action pos by (simp add: Let_def)
      then show ?thesis using True pos by (simp only:) (intro call_moved [OF assms(1-5)], auto)
    next
      case False
      then have "t1 = raiseTo s p ?target (?target - current_bet t) (?target - current_bet t \<ge> minimum_raise t) t"
        using assms(6) all_in_action pos by (auto simp: Let_def split: if_splits)
      then show ?thesis using False mr by (simp only:) (intro raiseTo_moved [OF assms(1,3-5)], auto)
    qed
    then show ?thesis by blast
  qed
qed

end
