(* ===== verification/Table_Settlement.thy ===== *)
theory Table_Settlement
  imports Table_Betting Hand_Ranking
begin

text \<open>
  The end of a hand: what \<open>settleFoldWin\<close>, \<open>buildAndAwardPots\<close>, \<open>payWinners\<close> and \<open>abortHand\<close> do to the
  stacks. Every payment is \<open>mapPlayers (credit gain)\<close> for a function \<open>gain\<close> from player ids to chips;
  \<open>levelAward\<close> is the award of one commitment level as a function of the table before any payment, and
  \<open>awardLevels\<close> is shown to be that function applied to each level. The pots add up to the commitments
  capped at the highest commitment of a player who is still in the hand: what a folded player put in
  above that (\<open>overCommitted\<close>) is in no pot.
\<close>

section \<open>Crediting stacks\<close>

definition credit :: "(PlayerId \<Rightarrow> Chips) \<Rightarrow> Player \<Rightarrow> Player" where
  "credit gain p = p\<lparr>stack := stack p + gain (pid p)\<rparr>"

lemma credit_simps [simp]:
  "pid (credit g p) = pid p" "seat (credit g p) = seat p" "stack (credit g p) = stack p + g (pid p)"
  "street_commitment (credit g p) = street_commitment p" "hand_commitment (credit g p) = hand_commitment p"
  "status (credit g p) = status p" "ready (credit g p) = ready p" "connected (credit g p) = connected p"
  "hole (credit g p) = hole p" "has_hole (credit g p) = has_hole p"
  by (simp_all add: credit_def)

lemma mapPlayers_fuse: "mapPlayers f (mapPlayers g t) = mapPlayers (\<lambda>p. f (g p)) t"
  by (simp add: mapPlayers_def comp_def option.map_comp)

lemma credit_credit: "credit g (credit h p) = credit (\<lambda>x. h x + g x) p"
  by (simp add: credit_def)

lemma mapPlayers_credit_credit:
  "mapPlayers (credit g) (mapPlayers (credit h) t) = mapPlayers (credit (\<lambda>x. h x + g x)) t"
  by (simp add: mapPlayers_fuse credit_credit)

lemma mapPlayers_credit_zero: "mapPlayers (credit (\<lambda>x. 0)) t = t"
proof -
  have none: "credit (\<lambda>x. 0) = (\<lambda>p. p)" by (simp add: credit_def fun_eq_iff)
  have "map (map_option (\<lambda>p. p)) xs = xs" for xs :: "Player option list"
    by (rule map_idI) (rule option.map_ident)
  then show ?thesis unfolding mapPlayers_def none by simp
qed

lemma unique_ids_credit [simp]: "unique_ids (mapPlayers (credit g) t) = unique_ids t"
proof -
  have "(\<exists>q. sits t i q \<and> p = credit g q) \<longleftrightarrow> sits t i (credit (\<lambda>x. - g x) p)" for i p
    by (auto simp: credit_def)
  then show ?thesis unfolding unique_ids_def sits_mapPlayers by (metis credit_simps(1))
qed

lemma seatHolds_credit [simp]: "seatHolds x (map_option (credit g) s) = seatHolds x s"
  by (cases s) (simp_all add: seatHolds_def)

lemma first_index_map: "first_index P (map f xs) = first_index (\<lambda>x. P (f x)) xs"
  by (induction xs) auto

lemma seatOf_credit [simp]: "seatOf (mapPlayers (credit g) t) x = seatOf t x"
  by (simp add: seatOf_def mapPlayers_def first_index_map)

lemma updatePlayer_credit:
  assumes "unique_ids t"
  shows "updatePlayer w (\<lambda>p. p\<lparr>stack := stack p + c\<rparr>) t = mapPlayers (credit (\<lambda>x. if x = w then c else 0)) t"
proof (cases "seatOf t w")
  case None
  have "map_option (credit (\<lambda>x. if x = w then c else 0)) s = s" if s: "s \<in> set (seats t)" for s
  proof (cases s)
    case (Some p)
    then obtain i where "sits t i p" using s by (auto simp: sits_def in_set_conv_nth)
    then show ?thesis using seatOf_NoneD [OF None] Some by (simp add: credit_def)
  qed simp
  then have "map (map_option (credit (\<lambda>x. if x = w then c else 0))) (seats t) = seats t"
    by (rule map_idI)
  then show ?thesis using None by (simp add: updatePlayer_def mapPlayers_def)
next
  case (Some i)
  then obtain p where p: "sits t i p" "pid p = w" using seatOf_SomeD by blast
  have "(seats t)[i := map_option (\<lambda>p. p\<lparr>stack := stack p + c\<rparr>) (seats t ! i)]
      = map (map_option (credit (\<lambda>x. if x = w then c else 0))) (seats t)"
  proof (rule nth_equalityI)
    fix j assume "j < length ((seats t)[i := map_option (\<lambda>p. p\<lparr>stack := stack p + c\<rparr>) (seats t ! i)])"
    then have j: "j < length (seats t)" by simp
    show "(seats t)[i := map_option (\<lambda>p. p\<lparr>stack := stack p + c\<rparr>) (seats t ! i)] ! j
        = map (map_option (credit (\<lambda>x. if x = w then c else 0))) (seats t) ! j"
    proof (cases "seats t ! j")
      case None
      then show ?thesis using j p by (auto simp: nth_list_update sits_def)
    next
      case (Some q)
      then have "sits t j q" using j by (simp add: sits_def)
      then have iff: "pid q = w \<longleftrightarrow> j = i" using assms p unfolding unique_ids_def by (metis sits_fun)
      show ?thesis
      proof (cases "j = i")
        case True
        then show ?thesis using j Some iff by (simp add: credit_def)
      next
        case False
        then show ?thesis using j Some iff by (simp add: credit_def)
      qed
    qed
  qed simp
  then show ?thesis using Some by (simp add: updatePlayer_def mapPlayers_def)
qed

text \<open>What the winners of one pot receive: winner number \<open>k\<close> an odd chip if \<open>k < oddc\<close>.\<close>

fun payout :: "Chips \<Rightarrow> Chips \<Rightarrow> nat \<Rightarrow> PlayerId list \<Rightarrow> PlayerId \<Rightarrow> Chips" where
  "payout share oddc k [] x = 0"
| "payout share oddc k (w # ws) x =
     (if x = w then share + (if int k < oddc then 1 else 0) else 0) + payout share oddc (Suc k) ws x"

lemma payWinners_credit:
  "unique_ids t \<Longrightarrow> payWinners share oddc k ws t = mapPlayers (credit (payout share oddc k ws)) t"
proof (induction ws arbitrary: k t)
  case Nil
  then show ?case by (simp add: mapPlayers_credit_zero)
next
  case (Cons w ws)
  then show ?case
    by (simp add: updatePlayer_credit mapPlayers_credit_credit)
qed

definition awardPayout :: "PotAward \<Rightarrow> PlayerId \<Rightarrow> Chips" where
  "awardPayout a x = payout (equal_share a) (odd_chips a) 0 (winners a) x"

definition awardsPayout :: "PotAward list \<Rightarrow> PlayerId \<Rightarrow> Chips" where
  "awardsPayout as x = sum_list (map (\<lambda>a. awardPayout a x) as)"

lemma unpayWinners_credit:
  "unique_ids t \<Longrightarrow>
   unpayWinners a k ws t = mapPlayers (credit (\<lambda>x. - payout (equal_share a) (odd_chips a) k ws x)) t"
proof (induction ws arbitrary: k t)
  case Nil
  then show ?case by (simp add: mapPlayers_credit_zero)
next
  case (Cons w ws)
  have minus: "(\<lambda>p :: Player. p\<lparr>stack := stack p - c\<rparr>) = (\<lambda>p. p\<lparr>stack := stack p + (- c)\<rparr>)" for c
    by simp
  let ?c = "equal_share a + (if int k < odd_chips a then 1 else 0)"
  have "unpayWinners a k (w # ws) t = unpayWinners a (Suc k) ws (mapPlayers (credit (\<lambda>x. if x = w then - ?c else 0)) t)"
    unfolding unpayWinners.simps minus using Cons.prems by (simp only: updatePlayer_credit)
  also have "\<dots> = mapPlayers (credit (\<lambda>x. (if x = w then - ?c else 0)
      + - payout (equal_share a) (odd_chips a) (Suc k) ws x)) t"
    using Cons by (simp only: unique_ids_credit mapPlayers_credit_credit)
  also have "(\<lambda>x. (if x = w then - ?c else 0) + - payout (equal_share a) (odd_chips a) (Suc k) ws x)
      = (\<lambda>x. - payout (equal_share a) (odd_chips a) k (w # ws) x)"
    by auto
  finally show ?case .
qed

lemma unpay_all:
  "unique_ids t \<Longrightarrow> foldl (\<lambda>u award. unpayWinners award 0 (winners award) u) t as =
     mapPlayers (credit (\<lambda>x. - awardsPayout as x)) t"
proof (induction as arbitrary: t)
  case Nil
  then show ?case by (simp add: awardsPayout_def mapPlayers_credit_zero)
next
  case (Cons a as)
  then show ?case
    by (simp add: unpayWinners_credit mapPlayers_credit_credit awardsPayout_def awardPayout_def)
qed

text \<open>The chips a payment adds to the table.\<close>

lemma sum_one_player:
  assumes "distinct (map pid ps)" "w \<in> pid ` set ps"
  shows "sum_list (map (\<lambda>p. if pid p = w then c else 0) ps) = (c :: int)"
  using assms
proof (induction ps)
  case (Cons p ps)
  show ?case
  proof (cases "pid p = w")
    case True
    then have "\<forall>q \<in> set ps. pid q \<noteq> w" using Cons.prems by (simp add: image_iff) metis
    then have "sum_list (map (\<lambda>p. if pid p = w then c else 0) ps) = sum_list (map (\<lambda>p. 0) ps)"
      by (intro arg_cong [where f = sum_list] map_cong) auto
    then show ?thesis using True by simp
  next
    case False
    then show ?thesis using Cons by auto
  qed
qed simp

lemma sum_payout:
  assumes "distinct (map pid ps)" "set ws \<subseteq> pid ` set ps"
  shows "sum_list (map (\<lambda>p. payout share oddc k ws (pid p)) ps) =
    share * int (length ws) + int (card {i. k \<le> i \<and> i < k + length ws \<and> int i < oddc})"
  using assms(2)
proof (induction ws arbitrary: k)
  case Nil
  then show ?case by simp
next
  case (Cons w ws)
  have split: "{i. k \<le> i \<and> i < k + length (w # ws) \<and> int i < oddc} =
      (if int k < oddc then {k} else {}) \<union> {i. Suc k \<le> i \<and> i < Suc k + length ws \<and> int i < oddc}"
    by (auto simp: le_eq_less_or_eq)
  have "card {i. k \<le> i \<and> i < k + length (w # ws) \<and> int i < oddc} =
      (if int k < oddc then 1 else 0) + card {i. Suc k \<le> i \<and> i < Suc k + length ws \<and> int i < oddc}"
    unfolding split by (subst card_Un_disjoint) auto
  moreover have "sum_list (map (\<lambda>p. payout share oddc k (w # ws) (pid p)) ps) =
      sum_list (map (\<lambda>p. if pid p = w then share + (if int k < oddc then 1 else 0) else 0) ps)
      + sum_list (map (\<lambda>p. payout share oddc (Suc k) ws (pid p)) ps)"
    by (simp add: sum_list_addf)
  ultimately show ?case
    using Cons sum_one_player [OF assms(1), of w "share + (if int k < oddc then 1 else 0)"]
    by (simp add: algebra_simps)
qed

definition award_ok :: "Player list \<Rightarrow> PotAward \<Rightarrow> bool" where
  "award_ok ps a \<longleftrightarrow> 0 \<le> pot_size a \<and> winners a \<noteq> [] \<and> distinct (winners a) \<and> set (winners a) \<subseteq> pid ` set ps \<and>
     equal_share a = pot_size a div int (length (winners a)) \<and>
     odd_chips a = pot_size a mod int (length (winners a))"

lemma sum_awardPayout:
  assumes "distinct (map pid ps)" "award_ok ps a"
  shows "sum_list (map (\<lambda>p. awardPayout a (pid p)) ps) = pot_size a"
proof -
  let ?n = "length (winners a)"
  have n: "0 < int ?n" using assms(2) by (simp add: award_ok_def)
  have odd: "odd_chips a = pot_size a mod int ?n" "0 \<le> odd_chips a" "odd_chips a < int ?n"
    using assms(2) n by (auto simp: award_ok_def)
  then have "{i. 0 \<le> i \<and> i < 0 + ?n \<and> int i < odd_chips a} = {..<nat (odd_chips a)}" by auto
  then have "sum_list (map (\<lambda>p. awardPayout a (pid p)) ps) = equal_share a * int ?n + odd_chips a"
    using sum_payout [OF assms(1), of "winners a"] assms(2) odd by (simp add: awardPayout_def award_ok_def)
  also have "\<dots> = pot_size a"
    using assms(2) by (simp add: award_ok_def)
  finally show ?thesis .
qed

lemma payout_nonneg: "0 \<le> share \<Longrightarrow> 0 \<le> payout share oddc k ws x"
  by (induction ws arbitrary: k) auto

lemma awardPayout_nonneg: "award_ok ps a \<Longrightarrow> 0 \<le> awardPayout a x"
  by (simp add: awardPayout_def award_ok_def payout_nonneg pos_imp_zdiv_nonneg_iff)

lemma sum_awardsPayout:
  assumes "distinct (map pid ps)" "\<forall>a \<in> set as. award_ok ps a"
  shows "sum_list (map (\<lambda>p. awardsPayout as (pid p)) ps) = sum_list (map pot_size as)"
  using assms(2)
proof (induction as)
  case Nil
  then show ?case by (simp add: awardsPayout_def)
next
  case (Cons a as)
  then show ?case using sum_awardPayout [OF assms(1), of a] by (simp add: awardsPayout_def sum_list_addf)
qed

lemma awardsPayout_nonneg: "\<forall>a \<in> set as. award_ok ps a \<Longrightarrow> 0 \<le> awardsPayout as x"
  by (induction as) (auto simp: awardsPayout_def intro: add_nonneg_nonneg awardPayout_nonneg)

section \<open>Commitment levels\<close>

fun levelSum :: "Chips \<Rightarrow> Chips list \<Rightarrow> Chips \<Rightarrow> Chips list \<Rightarrow> Chips" where
  "levelSum m cs previous [] = 0"
| "levelSum m cs previous (l # ls) =
     (if l \<le> m then (l - previous) * int (length (filter (\<lambda>c. \<not> c < l) cs)) else 0) + levelSum m cs l ls"

lemma levelSum_above: "\<forall>l \<in> set ls. m < l \<Longrightarrow> levelSum m cs previous ls = 0"
  by (induction ls arbitrary: previous) auto

lemma sum_level:
  fixes l previous :: int
  assumes "previous < l" "\<forall>c \<in> set cs. c \<le> previous \<or> l \<le> c"
  shows "(l - previous) * int (length (filter (\<lambda>c. \<not> c < l) cs)) =
    sum_list (map (\<lambda>c. min c l - min c previous) cs)"
  using assms(2) assms(1) by (induction cs) (auto simp: algebra_simps)

lemma levelSum_min:
  assumes "sorted_wrt (<) (previous # ls)" "\<forall>c \<in> set cs. c \<le> previous \<or> c \<in> set ls"
    "previous \<le> m" "m = previous \<or> m \<in> set ls"
  shows "levelSum m cs previous ls = sum_list (map (\<lambda>c. min c m - min c previous) cs)"
  using assms
proof (induction ls arbitrary: previous)
  case Nil
  then show ?case by simp
next
  case (Cons l ls)
  show ?case
  proof (cases "l \<le> m")
    case True
    have step: "(l - previous) * int (length (filter (\<lambda>c. \<not> c < l) cs)) =
        sum_list (map (\<lambda>c. min c l - min c previous) cs)"
      using Cons.prems(1,2) by (intro sum_level) force+
    have "levelSum m cs l ls = sum_list (map (\<lambda>c. min c m - min c l) cs)"
      using Cons.prems True by (intro Cons.IH) auto
    then show ?thesis using step True by (simp flip: sum_list_addf)
  next
    case False
    then have "m = previous" using Cons.prems(1,4) by force
    moreover have "\<forall>k \<in> set (l # ls). m < k" using False Cons.prems(1) by auto
    ultimately show ?thesis using levelSum_above [of "l # ls" m cs previous] by simp
  qed
qed

lemma levelsOf_spec:
  assumes "\<forall>i p. sits t i p \<longrightarrow> 0 \<le> hand_commitment p"
  shows "sorted_wrt (<) (0 # levelsOf t)"
    "set (levelsOf t) = {c. c > 0 \<and> c \<in> set (map hand_commitment (players t))}"
proof -
  let ?xs = "sort (filter (\<lambda>c. c > 0) (map hand_commitment (players t)))"
  have "sorted_wrt (<) (remdups_adj xs)" if "sorted xs" for xs :: "int list"
    using that by (induction xs rule: remdups_adj.induct) (auto simp: less_le)
  from this [of ?xs] have "sorted_wrt (<) (levelsOf t)" by (simp add: levelsOf_def)
  moreover show set: "set (levelsOf t) = {c. c > 0 \<and> c \<in> set (map hand_commitment (players t))}"
    by (auto simp: levelsOf_def)
  ultimately show "sorted_wrt (<) (0 # levelsOf t)" by simp
qed

definition maxLive :: "Table \<Rightarrow> Chips" where
  "maxLive t = foldr max (map hand_commitment (filter isEligible (players t))) 0"

definition overCommitted :: "Table \<Rightarrow> Chips" where
  "overCommitted t = sum_list (map (\<lambda>p. max 0 (hand_commitment p - maxLive t)) (players t))"

lemma foldr_max_upper: "x \<in> set xs \<Longrightarrow> x \<le> foldr max xs (a :: int)"
  by (induction xs) auto

lemma foldr_max_in: "foldr max xs (a :: int) \<in> insert a (set xs)"
  by (induction xs) (auto simp: max_def)

lemma foldr_max_base: "a \<le> foldr max xs (a :: int)"
  by (induction xs) (auto simp: max_def)

lemma eligibleAt_nonempty:
  assumes "0 < level"
  shows "eligibleAt level t \<noteq> [] \<longleftrightarrow> level \<le> maxLive t"
proof
  assume "eligibleAt level t \<noteq> []"
  then obtain p where "p \<in> set (eligibleAt level t)" by (metis ex_in_conv set_empty)
  then have "level \<le> hand_commitment p" "p \<in> set (filter isEligible (players t))"
    by (auto simp: eligibleAt_def contributorsAt_def)
  moreover have "hand_commitment p \<le> maxLive t"
    unfolding maxLive_def using calculation(2) by (intro foldr_max_upper) simp
  ultimately show "level \<le> maxLive t" by simp
next
  assume le: "level \<le> maxLive t"
  have "maxLive t \<in> insert 0 (hand_commitment ` set (filter isEligible (players t)))"
    unfolding maxLive_def using foldr_max_in [of "map hand_commitment (filter isEligible (players t))" 0]
    by (simp only: set_map)
  then obtain p where "p \<in> set (players t)" "isEligible p" "hand_commitment p = maxLive t"
    using le assms by auto
  then have "p \<in> set (eligibleAt level t)" using le by (simp add: eligibleAt_def contributorsAt_def)
  then show "eligibleAt level t \<noteq> []" by auto
qed

lemma levelSum_levelsOf:
  assumes "\<forall>i p. sits t i p \<longrightarrow> 0 \<le> hand_commitment p"
  shows "levelSum (maxLive t) (map hand_commitment (players t)) 0 (levelsOf t) = potSize t - overCommitted t"
proof -
  let ?cs = "map hand_commitment (players t)"
  note spec = levelsOf_spec [OF assms]
  have nonneg: "0 \<le> c" if "c \<in> set ?cs" for c using that assms by (auto simp: in_players)
  have "maxLive t = 0 \<or> maxLive t \<in> set (levelsOf t)"
  proof -
    have "maxLive t = 0 \<or> maxLive t \<in> set ?cs"
      using foldr_max_in [of "map hand_commitment (filter isEligible (players t))" 0]
      unfolding maxLive_def [symmetric] by auto
    then show ?thesis using nonneg unfolding spec(2) by force
  qed
  moreover have "0 \<le> maxLive t" unfolding maxLive_def by (rule foldr_max_base)
  moreover have "\<forall>c \<in> set ?cs. c \<le> 0 \<or> c \<in> set (levelsOf t)" by (auto simp: spec(2))
  ultimately have "levelSum (maxLive t) ?cs 0 (levelsOf t) = sum_list (map (\<lambda>c. min c (maxLive t) - min c 0) ?cs)"
    using levelSum_min [OF spec(1)] by blast
  also have "\<dots> = sum_list (map (\<lambda>p. hand_commitment p - max 0 (hand_commitment p - maxLive t)) (players t))"
  proof -
    have "min (hand_commitment p) m - min (hand_commitment p) 0 = hand_commitment p - max 0 (hand_commitment p - m)"
      if "p \<in> set (players t)" for p m
      using nonneg [of "hand_commitment p"] that by (simp add: min_def max_def)
    then show ?thesis unfolding map_map comp_def by (metis (no_types, lifting) map_cong)
  qed
  also have "\<dots> = potSize t - overCommitted t"
    by (simp add: potSize_def overCommitted_def sum_list_subtractf)
  finally show ?thesis .
qed

section \<open>The award of one level\<close>

text \<open>\<open>awardLevel\<close> without the payments.\<close>

definition levelAward :: "Table \<Rightarrow> Chips \<Rightarrow> Chips \<Rightarrow> PotAward list result" where
  "levelAward t previous level =
     (let pot = (level - previous) * int (length (contributorsAt level t))
      in if pot \<le> 0 \<or> eligibleAt level t = [] then Inr []
         else bind_result (bestHands (board t) None (eligibleAt level t)) (\<lambda>best.
           case best of
             None \<Rightarrow> Inl undefined_behaviour
           | Some (v, ws0) \<Rightarrow>
               bind_result (orderedClockwise t ws0) (\<lambda>ws.
                 Inr [\<lparr>pot_size = pot, winners = ws, equal_share = pot div int (length ws),
                       odd_chips = pot mod int (length ws)\<rparr>])))"

fun levelAwards :: "Table \<Rightarrow> Chips \<Rightarrow> Chips list \<Rightarrow> PotAward list result" where
  "levelAwards t previous [] = Inr []"
| "levelAwards t previous (level # levels) =
     bind_result (levelAward t previous level) (\<lambda>award.
     bind_result (levelAwards t level levels) (\<lambda>awards. Inr (award @ awards)))"

lemma contributorsAt_credit: "contributorsAt level (mapPlayers (credit g) t) = map (credit g) (contributorsAt level t)"
  by (simp add: contributorsAt_def filter_map comp_def)

lemma isEligible_credit [simp]: "isEligible (credit g p) = isEligible p"
  by (simp add: isEligible_def)

lemma eligibleAt_credit: "eligibleAt level (mapPlayers (credit g) t) = map (credit g) (eligibleAt level t)"
  by (simp add: eligibleAt_def contributorsAt_credit filter_map comp_def)

lemma bestHands_credit: "bestHands brd best (map (credit g) ps) = bestHands brd best ps"
proof (induction ps arbitrary: best)
  case (Cons p ps)
  then show ?case unfolding list.map bestHands.simps credit_simps by (simp only:)
qed simp

lemma clockwiseDistance_credit [simp]: "clockwiseDistance (mapPlayers (credit g) t) = clockwiseDistance t"
  by (simp add: clockwiseDistance_def fun_eq_iff)

lemma orderedClockwise_credit [simp]: "orderedClockwise (mapPlayers (credit g) t) = orderedClockwise t"
  by (simp add: orderedClockwise_def fun_eq_iff)

lemma levelAward_credit: "levelAward (mapPlayers (credit g) t) = levelAward t"
  unfolding fun_eq_iff levelAward_def contributorsAt_credit eligibleAt_credit bestHands_credit
    orderedClockwise_credit length_map map_is_Nil_conv mapPlayers_simps
  by simp

lemma levelAwards_credit: "levelAwards (mapPlayers (credit g) t) previous levels = levelAwards t previous levels"
  by (induction levels arbitrary: previous) (simp_all add: levelAward_credit)

lemma awardsPayout_Nil [simp]: "awardsPayout [] = (\<lambda>x. 0)"
  by (simp add: awardsPayout_def fun_eq_iff)

lemma awardsPayout_append: "awardsPayout (as @ bs) = (\<lambda>x. awardsPayout as x + awardsPayout bs x)"
  by (simp add: awardsPayout_def fun_eq_iff)

lemma awardLevel_split:
  assumes "unique_ids t"
  shows "awardLevel previous level t =
    bind_result (levelAward t previous level) (\<lambda>as. Inr (as, mapPlayers (credit (awardsPayout as)) t))"
proof -
  let ?pot = "(level - previous) * int (length (contributorsAt level t))"
  show ?thesis
  proof (cases "?pot \<le> 0 \<or> eligibleAt level t = []")
    case True
    then show ?thesis by (auto simp: awardLevel_def levelAward_def Let_def mapPlayers_credit_zero)
  next
    case False
    have single: "awardsPayout [a] = payout (equal_share a) (odd_chips a) 0 (winners a)" for a
      by (simp add: awardsPayout_def awardPayout_def fun_eq_iff)
    show ?thesis
    proof (cases "bestHands (board t) None (eligibleAt level t)")
      case (Inr best)
      show ?thesis
      proof (cases best)
        case (Some vw)
        then show ?thesis
          using False Inr assms by (cases vw; cases "orderedClockwise t (snd vw)")
            (simp_all add: awardLevel_def levelAward_def Let_def payWinners_credit single)
      qed (use False Inr in \<open>simp add: awardLevel_def levelAward_def Let_def\<close>)
    qed (use False in \<open>simp add: awardLevel_def levelAward_def Let_def\<close>)
  qed
qed

lemma awardLevels_split:
  "unique_ids t \<Longrightarrow> awardLevels previous levels t =
    bind_result (levelAwards t previous levels) (\<lambda>as. Inr (as, mapPlayers (credit (awardsPayout as)) t))"
proof (induction levels arbitrary: previous t)
  case Nil
  then show ?case by (simp add: mapPlayers_credit_zero)
next
  case (Cons level levels)
  show ?case
  proof (cases "levelAward t previous level")
    case (Inl e)
    then show ?thesis using Cons.prems by (simp add: awardLevel_split)
  next
    case (Inr as)
    then show ?thesis
      using Cons
      by (cases "levelAwards t level levels")
        (simp_all add: awardLevel_split levelAwards_credit mapPlayers_credit_credit
          awardsPayout_append)
  qed
qed

section \<open>Who wins a pot\<close>

definition handValue :: "Card list \<Rightarrow> Player \<Rightarrow> HandValue" where
  "handValue brd p =
     (case evaluateBest (brd @ [hole p ! 0, hole p ! 1]) of Inl e \<Rightarrow> HandValue high_card [] | Inr v \<Rightarrow> v)"

definition has_value :: "Card list \<Rightarrow> Player \<Rightarrow> bool" where
  "has_value brd p \<longleftrightarrow> evaluateBest (brd @ [hole p ! 0, hole p ! 1]) = Inr (handValue brd p)"

definition bestOfPlayers :: "Card list \<Rightarrow> Player list \<Rightarrow> Player list" where
  "bestOfPlayers brd ps = filter (\<lambda>p. \<forall>q \<in> set ps. handValue brd q \<le> handValue brd p) ps"

lemma bestHands_acc:
  assumes "\<forall>p \<in> set ps. has_value brd p"
  shows "bestHands brd (Some (b, ws)) ps =
    (let m = foldl max b (map (handValue brd) ps)
     in Inr (Some (m, (if b = m then ws else []) @ map pid (filter (\<lambda>p. handValue brd p = m) ps))))"
  using assms
proof (induction ps arbitrary: b ws)
  case Nil
  then show ?case by simp
next
  case (Cons p ps)
  let ?v = "handValue brd p"
  have ev: "evaluateBest (brd @ [hole p ! 0, hole p ! 1]) = Inr ?v" using Cons.prems by (simp add: has_value_def)
  have mono: "x \<le> foldl max x vs" for x :: HandValue and vs
    by (induction vs arbitrary: x) (auto, metis max.bounded_iff)
  consider "b < ?v" | "?v = b" | "?v < b" by fastforce
  then show ?case
  proof cases
    case 1
    have "bestHands brd (Some (b, ws)) (p # ps) = bestHands brd (Some (?v, [pid p])) ps"
      using ev 1 by simp
    moreover have "max b ?v = ?v" using 1 by (intro max.absorb2 less_imp_le)
    moreover have "b \<noteq> foldl max ?v (map (handValue brd) ps)" using mono [of ?v] 1 by (metis leD)
    ultimately show ?thesis using Cons.IH [of ?v "[pid p]"] Cons.prems by (auto simp: Let_def)
  next
    case 2
    have "bestHands brd (Some (b, ws)) (p # ps) = bestHands brd (Some (b, ws @ [pid p])) ps"
      using ev 2 by simp
    then show ?thesis using Cons.IH [of b "ws @ [pid p]"] Cons.prems 2 by (auto simp: Let_def)
  next
    case 3
    have "bestHands brd (Some (b, ws)) (p # ps) = bestHands brd (Some (b, ws)) ps"
      using ev 3 less_not_sym [OF 3] less_imp_neq [OF 3] by simp
    moreover have "max b ?v = b" using 3 by (intro max.absorb1 less_imp_le)
    moreover have "?v \<noteq> foldl max b (map (handValue brd) ps)" using mono [of b] 3 by (metis leD)
    ultimately show ?thesis using Cons.IH [of b ws] Cons.prems by (auto simp: Let_def)
  qed
qed

lemma foldl_max_spec:
  "(\<forall>v \<in> insert b (set vs). v \<le> foldl max b vs) \<and> foldl max b vs \<in> insert b (set vs)" for b :: HandValue
proof (induction vs arbitrary: b)
  case (Cons v vs)
  from Cons [of "max b v"] show ?case by (auto simp: max_def split: if_splits)
qed simp

lemma bestHands_best:
  assumes "\<forall>p \<in> set ps. has_value brd p" "ps \<noteq> []"
  shows "\<exists>v. bestHands brd None ps = Inr (Some (v, map pid (bestOfPlayers brd ps)))"
proof -
  obtain p qs where ps: "ps = p # qs" using assms(2) by (cases ps) auto
  let ?m = "foldl max (handValue brd p) (map (handValue brd) qs)"
  have "bestHands brd None ps = bestHands brd (Some (handValue brd p, [pid p])) qs"
    using assms(1) ps by (simp add: has_value_def)
  also have "\<dots> = Inr (Some (?m, map pid (filter (\<lambda>q. handValue brd q = ?m) ps)))"
    using bestHands_acc [of qs brd] assms(1) ps by (auto simp: Let_def)
  also have "filter (\<lambda>q. handValue brd q = ?m) ps = bestOfPlayers brd ps"
    unfolding bestOfPlayers_def
  proof (rule filter_cong [OF refl])
    fix q assume q: "q \<in> set ps"
    have "\<forall>q \<in> set ps. handValue brd q \<le> ?m" "\<exists>q \<in> set ps. handValue brd q = ?m"
      using foldl_max_spec [of "handValue brd p" "map (handValue brd) qs"] ps by auto
    then show "handValue brd q = ?m \<longleftrightarrow> (\<forall>r \<in> set ps. handValue brd r \<le> handValue brd q)"
      using q by (metis order_antisym)
  qed
  finally show ?thesis by blast
qed

lemma bestOfPlayers_nonempty: "\<forall>p \<in> set ps. has_value brd p \<Longrightarrow> ps \<noteq> [] \<Longrightarrow> bestOfPlayers brd ps \<noteq> []"
proof -
  assume "ps \<noteq> []"
  then have fin: "finite (handValue brd ` set ps)" "handValue brd ` set ps \<noteq> {}" by auto
  obtain p where "p \<in> set ps" "handValue brd p = Max (handValue brd ` set ps)"
    using Max_in [OF fin] by auto
  then have "p \<in> set (bestOfPlayers brd ps)" using Max_ge [OF fin(1)] by (auto simp: bestOfPlayers_def)
  then show ?thesis by auto
qed

definition potAward :: "Table \<Rightarrow> Chips \<Rightarrow> Chips \<Rightarrow> PotAward" where
  "potAward t previous level =
     (let pot = (level - previous) * int (length (contributorsAt level t));
          ws = sort_key (clockwiseDistance t) (map pid (bestOfPlayers (board t) (eligibleAt level t)))
      in \<lparr>pot_size = pot, winners = ws, equal_share = pot div int (length ws), odd_chips = pot mod int (length ws)\<rparr>)"

lemma eligibleAt_subset: "set (eligibleAt level t) \<subseteq> set (players t)"
  by (auto simp: eligibleAt_def contributorsAt_def)

lemma distinct_winners:
  assumes "distinct (map pid (players t))"
  shows "distinct (map pid (bestOfPlayers brd (eligibleAt level t)))"
  using assms unfolding bestOfPlayers_def eligibleAt_def contributorsAt_def
  by (simp add: distinct_map_filter)

lemma levelAward_potAward:
  assumes "seats_ok t" "\<forall>p \<in> set (eligibleAt level t). has_value (board t) p" "previous < level"
    "eligibleAt level t \<noteq> []"
  shows "levelAward t previous level = Inr [potAward t previous level]"
    and "award_ok (players t) (potAward t previous level)"
proof -
  let ?pot = "(level - previous) * int (length (contributorsAt level t))"
  let ?best = "map pid (bestOfPlayers (board t) (eligibleAt level t))"
  have "contributorsAt level t \<noteq> []" using assms(4) by (auto simp: eligibleAt_def)
  then have pos: "0 < ?pot" using assms(3) by simp
  obtain v where v: "bestHands (board t) None (eligibleAt level t) = Inr (Some (v, ?best))"
    using bestHands_best [OF assms(2,4)] by blast
  have best_in: "set ?best \<subseteq> pid ` set (players t)"
    using eligibleAt_subset [of level t] by (auto simp: bestOfPlayers_def)
  then have seated: "seatOf t x \<noteq> None" if "x \<in> set ?best" for x
    using that seatOf_sits [OF assms(1)] by (force simp: in_players)
  have "orderedClockwise t ?best = Inr (sort_key (clockwiseDistance t) ?best)"
    using seated by (auto simp: orderedClockwise_def list_ex_iff)
  then show "levelAward t previous level = Inr [potAward t previous level]"
    using pos assms(4) v by (simp add: levelAward_def potAward_def Let_def)
  have "?best \<noteq> []" using bestOfPlayers_nonempty [OF assms(2,4)] by simp
  then have "sort_key (clockwiseDistance t) ?best \<noteq> []" by (metis length_0_conv length_sort)
  moreover have "distinct (sort_key (clockwiseDistance t) ?best)"
    using distinct_winners [OF seats_ok_distinct [OF assms(1)]] by (simp only: distinct_sort)
  ultimately show "award_ok (players t) (potAward t previous level)"
    using pos best_in by (simp add: award_ok_def potAward_def Let_def)
qed

fun potAwards :: "Table \<Rightarrow> Chips \<Rightarrow> Chips list \<Rightarrow> PotAward list" where
  "potAwards t previous [] = []"
| "potAwards t previous (level # levels) =
     (if eligibleAt level t = [] then [] else [potAward t previous level]) @ potAwards t level levels"

lemma levelAwards_potAwards:
  assumes "seats_ok t" "\<forall>p \<in> set (players t). isEligible p \<longrightarrow> has_value (board t) p"
    "sorted_wrt (<) (previous # levels)"
  shows "levelAwards t previous levels = Inr (potAwards t previous levels)"
    and "\<forall>a \<in> set (potAwards t previous levels). award_ok (players t) a"
    and "0 \<le> previous \<Longrightarrow> sum_list (map pot_size (potAwards t previous levels)) =
      levelSum (maxLive t) (map hand_commitment (players t)) previous levels"
  using assms(3)
proof (induction levels arbitrary: previous)
  case Nil
  { case 1 then show ?case by simp next case 2 then show ?case by simp next case 3 then show ?case by simp }
next
  case (Cons level levels)
  have vals: "\<forall>p \<in> set (eligibleAt level t). has_value (board t) p"
    using assms(2) by (auto simp: eligibleAt_def contributorsAt_def)
  {
    case 1
    then show ?case
      using Cons.IH(1) [of level] levelAward_potAward [OF assms(1) vals, of previous]
      by (cases "eligibleAt level t = []") (auto simp: levelAward_def Let_def)
  next
    case 2
    then show ?case
      using Cons.IH(2) [of level] levelAward_potAward [OF assms(1) vals, of previous] by auto
  next
    case 3
    have "length (filter (\<lambda>c. \<not> c < level) (map hand_commitment (players t))) = length (contributorsAt level t)"
      by (simp add: contributorsAt_def filter_map comp_def)
    then show ?case
      using 3 Cons.IH(3) [of level] eligibleAt_nonempty [of level t]
      by (auto simp: potAward_def Let_def)
  }
qed

section \<open>Settled tables\<close>

lemma markSettled_sits [simp]:
  "sits (markSettled t) i p \<longleftrightarrow> (\<exists>q. sits t i q \<and> p = q\<lparr>ready := False\<rparr>)"
  by (simp add: markSettled_def)

lemma markSettled_simps [simp]:
  "street (markSettled t) = settled" "config (markSettled t) = config t"
  "dealer_seat (markSettled t) = dealer_seat t" "board (markSettled t) = board t"
  "last_awards (markSettled t) = last_awards t" "deck (markSettled t) = deck t"
  "acting_seat (markSettled t) = None" "pending_action (markSettled t) = {}"
  "length (seats (markSettled t)) = length (seats t)"
  by (simp_all add: markSettled_def)

lemma players_markSettled: "players (markSettled t) = map (\<lambda>p. p\<lparr>ready := False\<rparr>) (players t)"
  by (simp add: markSettled_def)

lemma seats_ok_markSettled: "seats_ok t \<Longrightarrow> seats_ok (markSettled t)"
proof -
  assume "seats_ok t"
  then have "seats_ok (mapPlayers (\<lambda>p. p\<lparr>ready := False\<rparr>) t)"
    by (rule seats_ok_mapPlayers) (use \<open>seats_ok t\<close> seats_ok_player in \<open>fastforce simp: player_ok_def\<close>)
  then show ?thesis by (simp add: markSettled_def)
qed

lemma seats_ok_credit:
  "seats_ok t \<Longrightarrow> (\<And>x. 0 \<le> g x) \<Longrightarrow> seats_ok (mapPlayers (credit g) t)"
  by (rule seats_ok_mapPlayers) (auto simp: player_ok_def dest: seats_ok_player)

text \<open>The table at the end of a hand: \<open>as\<close> are the awards, paid on top of the stacks of \<open>t\<close>.\<close>

definition settledTable :: "Table \<Rightarrow> PotAward list \<Rightarrow> Table" where
  "settledTable t as = markSettled ((mapPlayers (credit (awardsPayout as)) t)\<lparr>last_awards := as\<rparr>)"

lemma total_settledTable:
  assumes "seats_ok t" "\<forall>a \<in> set as. award_ok (players t) a"
  shows "totalChips (settledTable t as) = sum_list (map stack (players t)) + sum_list (map pot_size as)"
proof -
  have "totalChips (settledTable t as) = sum_list (map (\<lambda>p. stack p + awardsPayout as (pid p)) (players t))"
    by (simp add: totalChips_def settledTable_def players_markSettled comp_def)
  also have "\<dots> = sum_list (map stack (players t)) + sum_list (map (\<lambda>p. awardsPayout as (pid p)) (players t))"
    by (simp add: sum_list_addf)
  finally show ?thesis using sum_awardsPayout [OF seats_ok_distinct [OF assms(1)] assms(2)] by simp
qed

lemma totalChips_running:
  "street t \<noteq> settled \<Longrightarrow> totalChips t = sum_list (map stack (players t)) + potSize t"
  by (simp add: totalChips_def potSize_def sum_list_addf)

lemma seats_ok_settledTable:
  assumes "seats_ok t" "\<forall>a \<in> set as. award_ok (players t) a"
  shows "seats_ok (settledTable t as)"
  unfolding settledTable_def
  by (rule seats_ok_markSettled) (simp add: seats_ok_credit assms awardsPayout_nonneg [OF assms(2)])

end
