(* ===== verification/Table_Hand.thy ===== *)
theory Table_Hand
  imports Table_Settlement
begin

text \<open>
  A running hand moves on: dealing the board, \<open>advanceStreet\<close>, the loop
  \<open>advanceUntilActionOrSettlement\<close> and \<open>act\<close>. The results say how every call ends: no exception, and
  either a table that waits for a player who can act (\<open>hand_open\<close>) or a settled table whose stacks are
  those before the settlement plus the awards (\<open>settledTable\<close>).
\<close>

section \<open>Dealing to the board\<close>

definition dealing_ok :: "Table \<Rightarrow> nat \<Rightarrow> bool" where
  "dealing_ok t n \<longleftrightarrow>
     (\<exists>d. deck t = Some d \<and> fullDeck d \<and> deck_next d \<le> n \<and> board_ok t (dealtCards d) \<and> holes_ok t (dealtCards d))"

lemma cards_ok_dealing:
  "cards_ok t \<longleftrightarrow> dealing_ok t (dealtBound (street t)) \<and> length (board t) = boardSize (street t)"
  by (auto simp: cards_ok_def dealing_ok_def)

lemma fullDeckD: "fullDeck d \<Longrightarrow> distinct (deck_cards d) \<and> length (deck_cards d) = 52"
  unfolding fullDeck_def by (metis distinct_orderedDeck length_orderedDeck mset_eq_imp_distinct_iff mset_eq_length)

lemma holes_ok_mono: "holes_ok t D \<Longrightarrow> D \<subseteq> D' \<Longrightarrow> holes_ok t D'"
  unfolding holes_ok_def by blast

lemma board_ok_mono: "board_ok t D \<Longrightarrow> D \<subseteq> D' \<Longrightarrow> board_ok t D'"
  unfolding board_ok_def by blast

lemma draw_step:
  assumes "fullDeck d" "deck_next d < 52"
  shows "draw d = Inr (deck_cards d ! deck_next d, d\<lparr>deck_next := Suc (deck_next d)\<rparr>)"
    "dealtCards (d\<lparr>deck_next := Suc (deck_next d)\<rparr>) = insert (deck_cards d ! deck_next d) (dealtCards d)"
    "deck_cards d ! deck_next d \<notin> dealtCards d"
proof -
  note d = fullDeckD [OF assms(1)]
  show "draw d = Inr (deck_cards d ! deck_next d, d\<lparr>deck_next := Suc (deck_next d)\<rparr>)"
    using assms(2) d by (simp add: draw_def)
  show "dealtCards (d\<lparr>deck_next := Suc (deck_next d)\<rparr>) = insert (deck_cards d ! deck_next d) (dealtCards d)"
    using assms(2) d by (simp add: dealtCards_def take_Suc_conv_app_nth)
  show "deck_cards d ! deck_next d \<notin> dealtCards d"
    using assms(2) d by (auto simp: dealtCards_def in_set_conv_nth nth_eq_iff_index_eq)
qed

lemma fullDeck_next [simp]: "fullDeck (d\<lparr>deck_next := n\<rparr>) = fullDeck d"
  by (simp add: fullDeck_def)

lemma board_ok_deck [simp]: "board_ok (t\<lparr>deck := x\<rparr>) = board_ok t"
  by (simp add: board_ok_def fun_eq_iff)

lemma holes_ok_deck [simp]: "holes_ok (t\<lparr>deck := x\<rparr>) = holes_ok t"
  by (simp add: holes_ok_def fun_eq_iff)

lemma burnCard_ok:
  assumes "dealing_ok t n" "n < 52"
  shows "\<exists>d. burnCard t = Inr (t\<lparr>deck := Some d\<rparr>) \<and> dealing_ok (t\<lparr>deck := Some d\<rparr>) (Suc n)"
proof -
  obtain d where d: "deck t = Some d" "fullDeck d" "deck_next d \<le> n" "board_ok t (dealtCards d)"
    "holes_ok t (dealtCards d)" using assms(1) by (auto simp: dealing_ok_def)
  have lt: "deck_next d < 52" using d(3) assms(2) by simp
  let ?d = "d\<lparr>deck_next := Suc (deck_next d)\<rparr>"
  have "burnCard t = Inr (t\<lparr>deck := Some ?d\<rparr>)"
    using d(1) draw_step(1) [OF d(2) lt] by (simp add: burnCard_def drawCard_def)
  moreover have "dealing_ok (t\<lparr>deck := Some ?d\<rparr>) (Suc n)"
    using d draw_step(2) [OF d(2) lt] board_ok_mono holes_ok_mono
    by (auto simp: dealing_ok_def) blast+
  ultimately show ?thesis by blast
qed

lemma drawBoard_ok:
  assumes "dealing_ok t n" "n < 52"
  shows "\<exists>c d. drawCard t = Inr (c, t\<lparr>deck := Some d\<rparr>) \<and>
    dealing_ok (t\<lparr>deck := Some d, board := board t @ [c]\<rparr>) (Suc n)"
proof -
  obtain d where d: "deck t = Some d" "fullDeck d" "deck_next d \<le> n" "board_ok t (dealtCards d)"
    "holes_ok t (dealtCards d)" using assms(1) by (auto simp: dealing_ok_def)
  have lt: "deck_next d < 52" using d(3) assms(2) by simp
  let ?d = "d\<lparr>deck_next := Suc (deck_next d)\<rparr>" and ?c = "deck_cards d ! deck_next d"
  note step = draw_step [OF d(2) lt]
  let ?t = "t\<lparr>deck := Some ?d, board := board t @ [?c]\<rparr>"
  have "board_ok ?t (dealtCards ?d)" using d(4) step(2,3) by (auto simp: board_ok_def)
  moreover have "holes_ok ?t (dealtCards ?d)"
    using d(5) step(2,3) unfolding holes_ok_def by (auto 0 4)
  ultimately have "dealing_ok ?t (Suc n)" using d(2,3) by (simp add: dealing_ok_def)
  moreover have "drawCard t = Inr (?c, t\<lparr>deck := Some ?d\<rparr>)"
    using d(1) step(1) by (simp add: drawCard_def)
  ultimately show ?thesis by blast
qed

lemma revealOne_ok:
  assumes "dealing_ok t n" "n + 2 \<le> 52"
  shows "\<exists>c d. revealOne t = Inr (t\<lparr>deck := Some d, board := board t @ [c]\<rparr>) \<and>
    dealing_ok (t\<lparr>deck := Some d, board := board t @ [c]\<rparr>) (n + 2)"
proof -
  obtain d1 where 1: "burnCard t = Inr (t\<lparr>deck := Some d1\<rparr>)" "dealing_ok (t\<lparr>deck := Some d1\<rparr>) (Suc n)"
    using burnCard_ok [OF assms(1)] assms(2) by auto
  obtain c d2 where 2: "drawCard (t\<lparr>deck := Some d1\<rparr>) = Inr (c, t\<lparr>deck := Some d2\<rparr>)"
    "dealing_ok (t\<lparr>deck := Some d2, board := board t @ [c]\<rparr>) (Suc (Suc n))"
    using drawBoard_ok [OF 1(2)] assms(2) by auto
  then show ?thesis using 1(1) by (auto simp: revealOne_def)
qed

lemma deck_board: "t\<lparr>board := b, deck := d\<rparr> = t\<lparr>deck := d, board := b\<rparr>"
  by simp

lemma revealFlop_ok:
  assumes "dealing_ok t n" "n + 4 \<le> 52"
  shows "\<exists>cs d. revealFlop t = Inr (t\<lparr>deck := Some d, board := board t @ cs\<rparr>) \<and> length cs = 3 \<and>
    dealing_ok (t\<lparr>deck := Some d, board := board t @ cs\<rparr>) (n + 4)"
proof -
  obtain d1 where 1: "burnCard t = Inr (t\<lparr>deck := Some d1\<rparr>)" "dealing_ok (t\<lparr>deck := Some d1\<rparr>) (Suc n)"
    using burnCard_ok [OF assms(1)] assms(2) by auto
  obtain a d2 where 2: "drawCard (t\<lparr>deck := Some d1\<rparr>) = Inr (a, t\<lparr>deck := Some d2\<rparr>)"
    "dealing_ok (t\<lparr>deck := Some d2, board := board t @ [a]\<rparr>) (Suc (Suc n))"
    using drawBoard_ok [OF 1(2)] assms(2) by auto
  obtain b d3 where 3: "drawCard (t\<lparr>deck := Some d2, board := board t @ [a]\<rparr>) =
      Inr (b, t\<lparr>deck := Some d3, board := board t @ [a]\<rparr>)"
    "dealing_ok (t\<lparr>deck := Some d3, board := board t @ [a, b]\<rparr>) (Suc (Suc (Suc n)))"
    using drawBoard_ok [OF 2(2)] assms(2) by (auto simp: deck_board)
  obtain c d4 where 4: "drawCard (t\<lparr>deck := Some d3, board := board t @ [a, b]\<rparr>) =
      Inr (c, t\<lparr>deck := Some d4, board := board t @ [a, b]\<rparr>)"
    "dealing_ok (t\<lparr>deck := Some d4, board := board t @ [a, b, c]\<rparr>) (Suc (Suc (Suc (Suc n))))"
    using drawBoard_ok [OF 3(2)] assms(2) by (auto simp: deck_board)
  have "revealFlop t = Inr (t\<lparr>deck := Some d4, board := board t @ [a, b, c]\<rparr>)"
    using 1(1) 2(1) 3(1) 4(1) by (simp add: revealFlop_def)
  then show ?thesis using 4(2) by (intro exI [of _ "[a, b, c]"] exI [of _ d4]) (simp add: eval_nat_numeral)
qed

section \<open>What a street leaves unchanged\<close>

text \<open>The players up to their commitment on the street.\<close>

definition core :: "Player \<Rightarrow> Player" where
  "core p = p\<lparr>street_commitment := 0\<rparr>"

definition same_core :: "Table \<Rightarrow> Table \<Rightarrow> bool" where
  "same_core t u \<longleftrightarrow> map (map_option core) (seats u) = map (map_option core) (seats t) \<and>
     config u = config t \<and> dealer_seat u = dealer_seat t"

lemma same_core_refl: "same_core t t"
  by (simp add: same_core_def)

lemma same_core_trans: "same_core t u \<Longrightarrow> same_core u v \<Longrightarrow> same_core t v"
  by (simp add: same_core_def)

lemma same_core_cong:
  "seats u = seats t \<Longrightarrow> config u = config t \<Longrightarrow> dealer_seat u = dealer_seat t \<Longrightarrow> same_core t u"
  by (simp add: same_core_def)

lemma same_core_players: "same_core t u \<Longrightarrow> map core (players u) = map core (players t)"
  unfolding same_core_def by (metis occupants_map)

lemma same_core_map:
  assumes "same_core t u" "\<And>p. f (core p) = f p"
  shows "map f (players u) = map f (players t)"
proof -
  have "map f (map core (players u)) = map f (map core (players t))"
    using same_core_players [OF assms(1)] by simp
  then show ?thesis by (simp add: comp_def assms(2))
qed

lemma same_core_filter_map:
  assumes "same_core t u" "\<And>p. f (core p) = f p" "\<And>p. P (core p) = P p"
  shows "map f (filter P (players u)) = map f (filter P (players t))"
proof -
  have "map f (filter P (map core (players u))) = map f (filter P (map core (players t)))"
    using same_core_players [OF assms(1)] by simp
  then show ?thesis by (simp add: filter_map comp_def assms(2,3))
qed

lemma core_simps [simp]:
  "pid (core p) = pid p" "seat (core p) = seat p" "stack (core p) = stack p"
  "hand_commitment (core p) = hand_commitment p" "status (core p) = status p"
  "hole (core p) = hole p" "has_hole (core p) = has_hole p" "isContender (core p) = isContender p"
  "isEligible (core p) = isEligible p" "canAct (core p) = canAct p"
  by (simp_all add: core_def isContender_def isEligible_def canAct_def)

lemma same_core_sums:
  assumes "same_core t u"
  shows "potSize u = potSize t" "contenders u = contenders t" "maxLive u = maxLive t"
    "overCommitted u = overCommitted t" "sum_list (map stack (players u)) = sum_list (map stack (players t))"
proof -
  show pot: "potSize u = potSize t" unfolding potSize_def using same_core_map [OF assms] by (metis core_simps(4))
  have "length (map pid (filter isContender (players u))) = length (map pid (filter isContender (players t)))"
    using same_core_filter_map [OF assms, of pid isContender] by (simp del: length_map)
  then show "contenders u = contenders t" by (simp add: contenders_def)
  show live: "maxLive u = maxLive t"
    unfolding maxLive_def using same_core_filter_map [OF assms, of hand_commitment isEligible] by simp
  show "overCommitted u = overCommitted t"
    unfolding overCommitted_def live
    using same_core_map [OF assms, of "\<lambda>p. max 0 (hand_commitment p - maxLive t)"] by simp
  show "sum_list (map stack (players u)) = sum_list (map stack (players t))"
    using same_core_map [OF assms, of stack] by simp
qed

section \<open>Advancing one street\<close>

lemma bettor_ok_reset:
  "bettor_ok t p \<Longrightarrow> current_bet u = 0 \<Longrightarrow> bettor_ok u (p\<lparr>street_commitment := 0\<rparr>)"
  by (simp add: bettor_ok_def)

lemma holes_ok_map:
  assumes "holes_ok t D" "\<And>p. hole (f p) = hole p" "\<And>p. has_hole (f p) = has_hole p"
  shows "holes_ok (mapPlayers f t) D"
  using assms unfolding holes_ok_def sits_mapPlayers mapPlayers_simps by (smt (verit))

lemma dealing_ok_map:
  "dealing_ok t n \<Longrightarrow> (\<And>p. hole (f p) = hole p) \<Longrightarrow> (\<And>p. has_hole (f p) = has_hole p) \<Longrightarrow>
   dealing_ok (mapPlayers f t) n"
  using holes_ok_map by (fastforce simp: dealing_ok_def board_ok_def)

lemma dealing_ok_cong:
  "seats u = seats t \<Longrightarrow> deck u = deck t \<Longrightarrow> board u = board t \<Longrightarrow> dealing_ok u n = dealing_ok t n"
  using sits_cong [of u t] by (simp add: dealing_ok_def board_ok_def holes_ok_def)

definition freshStreet :: "Table \<Rightarrow> Table" where
  "freshStreet t = (mapPlayers (\<lambda>p. p\<lparr>street_commitment := 0\<rparr>) t)
     \<lparr>current_bet := 0, minimum_raise := big_blind (config t), pending_action := {}, raise_allowed := {}\<rparr>"

fun nextStreet :: "Street \<Rightarrow> Street" where
  "nextStreet preflop = flop"
| "nextStreet flop = turn"
| "nextStreet turn = river"
| "nextStreet s = s"

lemma advanceStreet_shape:
  assumes "cards_ok t" "betStreet (street t)" "street t \<noteq> river"
  shows "\<exists>cs d. advanceStreet t = Inr (openStreet ((freshStreet t)
      \<lparr>street := nextStreet (street t), deck := Some d, board := board t @ cs\<rparr>)) \<and>
    dealing_ok ((freshStreet t)\<lparr>deck := Some d, board := board t @ cs\<rparr>) (dealtBound (nextStreet (street t))) \<and>
    length (board t @ cs) = boardSize (nextStreet (street t))"
proof -
  have *: "dealing_ok (freshStreet t) (dealtBound (street t))" "length (board t) = boardSize (street t)"
    using assms(1) dealing_ok_map [of t _ "\<lambda>p. p\<lparr>street_commitment := 0\<rparr>"]
      dealing_ok_cong [of "freshStreet t" "mapPlayers (\<lambda>p. p\<lparr>street_commitment := 0\<rparr>) t"]
    by (simp_all add: cards_ok_dealing freshStreet_def)
  have deal: "dealing_ok ((freshStreet t)\<lparr>street := s\<rparr>) n = dealing_ok (freshStreet t) n" for s n
    by (rule dealing_ok_cong) simp_all
  have deal2: "dealing_ok ((freshStreet t)\<lparr>street := s, deck := x, board := y\<rparr>) n =
      dealing_ok ((freshStreet t)\<lparr>deck := x, board := y\<rparr>) n" for s x y n
    by (rule dealing_ok_cong) simp_all
  have brd: "board (freshStreet t) = board t" by (simp add: freshStreet_def)
  have adv: "advanceStreet t = bind_result
      (case street t of
         preflop \<Rightarrow> revealFlop ((freshStreet t)\<lparr>street := flop\<rparr>)
       | flop \<Rightarrow> revealOne ((freshStreet t)\<lparr>street := turn\<rparr>)
       | turn \<Rightarrow> revealOne ((freshStreet t)\<lparr>street := river\<rparr>)
       | _ \<Rightarrow> Inl logic_error) (\<lambda>t2. Inr (openStreet t2))"
    unfolding advanceStreet_def freshStreet_def Let_def by (rule refl)
  consider "street t = preflop" | "street t = flop" | "street t = turn"
    using assms(2,3) by (auto simp: betStreet_def)
  then show ?thesis
  proof cases
    case 1
    then obtain cs d where "revealFlop ((freshStreet t)\<lparr>street := flop\<rparr>) =
        Inr ((freshStreet t)\<lparr>street := flop, deck := Some d, board := board t @ cs\<rparr>)" "length cs = 3"
        "dealing_ok ((freshStreet t)\<lparr>street := flop, deck := Some d, board := board t @ cs\<rparr>) 16"
      using revealFlop_ok [of "(freshStreet t)\<lparr>street := flop\<rparr>" 12] * by (auto simp: deal brd)
    then show ?thesis using 1 * adv by (auto simp: deal2)
  next
    case 2
    then obtain c d where "revealOne ((freshStreet t)\<lparr>street := turn\<rparr>) =
        Inr ((freshStreet t)\<lparr>street := turn, deck := Some d, board := board t @ [c]\<rparr>)"
        "dealing_ok ((freshStreet t)\<lparr>street := turn, deck := Some d, board := board t @ [c]\<rparr>) 18"
      using revealOne_ok [of "(freshStreet t)\<lparr>street := turn\<rparr>" 16] * by (auto simp: deal brd)
    then show ?thesis using 2 * adv by (intro exI [of _ "[c]"] exI [of _ d]) (auto simp: deal2)
  next
    case 3
    then obtain c d where "revealOne ((freshStreet t)\<lparr>street := river\<rparr>) =
        Inr ((freshStreet t)\<lparr>street := river, deck := Some d, board := board t @ [c]\<rparr>)"
        "dealing_ok ((freshStreet t)\<lparr>street := river, deck := Some d, board := board t @ [c]\<rparr>) 20"
      using revealOne_ok [of "(freshStreet t)\<lparr>street := river\<rparr>" 18] * by (auto simp: deal brd)
    then show ?thesis using 3 * adv by (intro exI [of _ "[c]"] exI [of _ d]) (auto simp: deal2)
  qed
qed

lemma same_core_fresh: "same_core t (freshStreet t)"
proof -
  have "map_option core (map_option (\<lambda>p. p\<lparr>street_commitment := 0\<rparr>) x) = map_option core x" for x
    by (cases x) (simp_all add: core_def)
  then show ?thesis by (simp add: same_core_def freshStreet_def mapPlayers_def)
qed

lemma advanceStreet_ok:
  assumes "betting_ok t" "street t \<noteq> river"
  shows "\<exists>u. advanceStreet t = Inr u \<and> betting_ok u \<and> called_ok u \<and> same_core t u \<and>
    street u = nextStreet (street t) \<and>
    (\<forall>i p. sits u i p \<and> canAct p \<longrightarrow> pid p \<in> pending_action u) \<and>
    (\<forall>i p. sits u i p \<longrightarrow> street_commitment p = 0) \<and> current_bet u = 0"
proof -
  note ok = betting_okD [OF assms(1)]
  obtain cs d where adv: "advanceStreet t = Inr (openStreet ((freshStreet t)
      \<lparr>street := nextStreet (street t), deck := Some d, board := board t @ cs\<rparr>))"
    and deal: "dealing_ok ((freshStreet t)\<lparr>deck := Some d, board := board t @ cs\<rparr>) (dealtBound (nextStreet (street t)))"
    and len: "length (board t @ cs) = boardSize (nextStreet (street t))"
    using advanceStreet_shape [OF ok(8,2) assms(2)] by blast
  let ?u = "openStreet ((freshStreet t)\<lparr>street := nextStreet (street t), deck := Some d, board := board t @ cs\<rparr>)"
  have seats: "seats ?u = seats (mapPlayers (\<lambda>p. p\<lparr>street_commitment := 0\<rparr>) t)"
    by (simp add: openStreet_def freshStreet_def)
  have sits: "sits ?u i q \<longleftrightarrow> (\<exists>p. sits t i p \<and> q = p\<lparr>street_commitment := 0\<rparr>)" for i q
    using sits_cong [OF seats] by simp
  have fields: "config ?u = config t" "dealer_seat ?u = dealer_seat t" "current_bet ?u = 0"
    "minimum_raise ?u = big_blind (config t)" "street ?u = nextStreet (street t)"
    by (simp_all add: openStreet_def freshStreet_def)
  have pend: "pending_action ?u = {pid p | i p. sits ?u i p \<and> canAct p}"
  proof -
    have "pending_action ?u = set (map pid (filter canAct (players ?u)))"
      by (simp add: openStreet_def freshStreet_def)
    then show ?thesis by (auto simp: in_players)
  qed
  have "seats_ok (mapPlayers (\<lambda>p. p\<lparr>street_commitment := 0\<rparr>) t)"
    using ok(1) by (rule seats_ok_mapPlayers) (use seats_ok_player [OF ok(1)] in \<open>fastforce simp: player_ok_def\<close>)
  then have "seats_ok ?u" using seats_ok_cong [OF seats] fields by simp
  moreover have "bettor_ok ?u p" if "sits ?u i p" for i p
    using that ok(5) bettor_ok_reset [OF _ fields(3)] unfolding sits by blast
  moreover have "pending_ok ?u" unfolding pending_ok_def pend by blast
  moreover have "dealer_ok ?u" using ok(7) unfolding dealer_ok_def sits fields by fastforce
  moreover have "cards_ok ?u"
    using deal len dealing_ok_cong [of ?u "(freshStreet t)\<lparr>deck := Some d, board := board t @ cs\<rparr>"]
    by (simp add: cards_ok_dealing openStreet_def)
  moreover have "betStreet (street ?u)" using ok(2) assms(2) fields(5) by (auto simp: betStreet_def)
  moreover have "0 < minimum_raise ?u" using seats_okD(3,4) [OF ok(1)] fields(4) by simp
  ultimately have "betting_ok ?u" using fields(3) by (simp add: betting_ok_def bet_held_def)
  moreover have "called_ok ?u" unfolding called_ok_def pend by blast
  moreover have "same_core t ?u"
    by (rule same_core_trans [OF same_core_fresh same_core_cong]) (simp_all add: openStreet_def)
  ultimately show ?thesis using adv fields pend sits by auto
qed

section \<open>Settling\<close>

definition foldAward :: "Table \<Rightarrow> PotAward" where
  "foldAward t = \<lparr>pot_size = potSize t, winners = [pid (hd (filter isContender (players t)))],
     equal_share = potSize t, odd_chips = 0\<rparr>"

definition showdownAwards :: "Table \<Rightarrow> PotAward list" where
  "showdownAwards t = potAwards t 0 (levelsOf t)"

lemma potSize_nonneg: "seats_ok t \<Longrightarrow> 0 \<le> potSize t"
  unfolding potSize_def using seats_ok_player
  by (intro sum_list_nonneg) (fastforce simp: in_players player_ok_def)

lemma foldAward_ok:
  assumes "seats_ok t" "1 \<le> contenders t"
  shows "award_ok (players t) (foldAward t)"
proof -
  obtain w ws where f: "filter isContender (players t) = w # ws"
    using assms(2) by (cases "filter isContender (players t)") (auto simp: contenders_def)
  then have "w \<in> set (players t)" by (metis filter_eq_ConsD in_set_conv_decomp)
  then show ?thesis using f potSize_nonneg [OF assms(1)] by (simp add: award_ok_def foldAward_def)
qed

lemma settleFoldWin_ok:
  assumes "seats_ok t" "1 \<le> contenders t"
  shows "settleFoldWin t = Inr (settledTable t [foldAward t])"
proof -
  obtain w ws where f: "filter isContender (players t) = w # ws"
    using assms(2) by (cases "filter isContender (players t)") (auto simp: contenders_def)
  have "awardsPayout [foldAward t] = (\<lambda>x. if x = pid w then potSize t else 0)"
    using f by (auto simp: awardsPayout_def awardPayout_def foldAward_def fun_eq_iff)
  moreover have "unique_ids t" using assms(1) by (simp add: seats_ok_def)
  ultimately show ?thesis
    using f by (simp add: settleFoldWin_def settledTable_def foldAward_def updatePlayer_credit Let_def)
qed

lemma eligible_has_value:
  assumes "cards_ok t" "street t = river" "sits t i p" "has_hole p" "length (hole p) = 2"
  shows "has_value (board t) p"
proof -
  obtain d where d: "board_ok t (dealtCards d)" "holes_ok t (dealtCards d)" "length (board t) = 5"
    using assms(1,2) by (auto simp: cards_ok_def)
  obtain a b where ab: "hole p = [a, b]"
    using assms(5) by (auto simp: numeral_2_eq_2 length_Suc_conv)
  have "distinct (hole p)" "set (hole p) \<inter> set (board t) = {}"
    using d(2) assms(3,4) unfolding holes_ok_def by blast+
  then have "distinct (board t @ [hole p ! 0, hole p ! 1])"
    using d(1) ab by (auto simp: board_ok_def)
  moreover have "length (board t @ [hole p ! 0, hole p ! 1]) = 7" using d(3) by simp
  ultimately obtain v where "evaluateBest (board t @ [hole p ! 0, hole p ! 1]) = Inr v"
    using evaluateBest_returns [of "board t @ [hole p ! 0, hole p ! 1]"] by auto
  then show ?thesis by (simp add: has_value_def handValue_def)
qed

lemma settleShowdown_ok:
  assumes "betting_ok t" "street t = river"
  shows "settleShowdown t = Inr (settledTable t (showdownAwards t))"
    "\<forall>a \<in> set (showdownAwards t). award_ok (players t) a"
    "sum_list (map pot_size (showdownAwards t)) = potSize t - overCommitted t"
proof -
  note ok = betting_okD [OF assms(1)]
  have nonneg: "\<forall>i p. sits t i p \<longrightarrow> 0 \<le> hand_commitment p"
    using seats_ok_player [OF ok(1)] by (fastforce simp: player_ok_def)
  have vals: "\<forall>p \<in> set (players t). isEligible p \<longrightarrow> has_value (board t) p"
  proof (intro ballI impI)
    fix p assume "p \<in> set (players t)" "isEligible p"
    then obtain i where "sits t i p" by (auto simp: in_players)
    moreover have "has_hole p" "length (hole p) = 2"
      using ok(5) [OF \<open>sits t i p\<close>] seats_ok_player [OF ok(1) \<open>sits t i p\<close>] \<open>isEligible p\<close>
      by (auto simp: bettor_ok_def isEligible_def player_ok_def)
    ultimately show "has_value (board t) p" using eligible_has_value [OF ok(8) assms(2)] by blast
  qed
  note awards = levelAwards_potAwards [OF ok(1) vals levelsOf_spec(1) [OF nonneg]]
  let ?s = "t\<lparr>street := showdown\<rparr>"
  have "length (board t) = 5" using ok(8) assms(2) by (auto simp: cards_ok_def)
  then have complete: "completeBoard ?s = Inr ?s" by (simp add: completeBoard.simps)
  have parts: "contributorsAt l ?s = contributorsAt l t" "eligibleAt l ?s = eligibleAt l t"
    "seatOf ?s = seatOf t" "clockwiseDistance ?s = clockwiseDistance t" for l
    by (simp_all add: contributorsAt_def eligibleAt_def seatOf_def clockwiseDistance_def fun_eq_iff)
  have ordered: "orderedClockwise ?s ids = orderedClockwise t ids" for ids
    unfolding orderedClockwise_def parts by (rule refl)
  have brd: "board ?s = board t" by simp
  have same: "levelAward ?s = levelAward t" unfolding levelAward_def parts ordered brd by (rule refl)
  have levels: "levelAwards ?s previous ls = levelAwards t previous ls" for previous ls
    by (induction ls arbitrary: previous) (simp_all add: same)
  have uniq: "unique_ids ?s" using ok(1) by (simp add: seats_ok_def unique_ids_def)
  have "buildAndAwardPots ?s = Inr (showdownAwards t, mapPlayers (credit (awardsPayout (showdownAwards t))) ?s)"
    using awards(1) by (simp add: buildAndAwardPots_def awardLevels_split [OF uniq] levels showdownAwards_def
        levelsOf_def)
  then show "settleShowdown t = Inr (settledTable t (showdownAwards t))"
    using complete by (simp add: settleShowdown_def settledTable_def markSettled_def mapPlayers_def bumpSequence_def)
  show "\<forall>a \<in> set (showdownAwards t). award_ok (players t) a"
    using awards(2) by (simp add: showdownAwards_def)
  show "sum_list (map pot_size (showdownAwards t)) = potSize t - overCommitted t"
    using awards(3) levelSum_levelsOf [OF nonneg] by (simp add: showdownAwards_def)
qed

section \<open>The street loop\<close>

definition hand_open :: "Table \<Rightarrow> bool" where
  "hand_open t \<longleftrightarrow> betting_ok t \<and> called_ok t \<and> 2 \<le> contenders t \<and> actor_ready t"

text \<open>How a call that moves the hand on may end, seen from the table \<open>t\<close> it starts from.\<close>

definition fold_end :: "Table \<Rightarrow> Table \<Rightarrow> bool" where
  "fold_end t t' \<longleftrightarrow> contenders t = 1 \<and> t' = settledTable t [foldAward t]"

definition showdown_end :: "Table \<Rightarrow> Table \<Rightarrow> bool" where
  "showdown_end t t' \<longleftrightarrow>
     (\<exists>u. same_core t u \<and> betting_ok u \<and> street u = river \<and> 2 \<le> contenders u \<and>
        t' = settledTable u (showdownAwards u))"

text \<open>The hand stays on its street with the same players to wait for, or a later street has begun.\<close>

definition onwards :: "Table \<Rightarrow> Table \<Rightarrow> bool" where
  "onwards t t' \<longleftrightarrow> street t' = street t \<and> pending_action t' = pending_action t \<or>
     streetIndex (street t) < streetIndex (street t')"

definition round_end :: "Table \<Rightarrow> Table \<Rightarrow> bool" where
  "round_end t t' \<longleftrightarrow> hand_open t' \<and> same_core t t' \<and> onwards t t'"

definition hand_step :: "Table \<Rightarrow> Table \<Rightarrow> bool" where
  "hand_step t t' \<longleftrightarrow> fold_end t t' \<or> showdown_end t t' \<or> round_end t t'"

lemma called_ok_record [simp]:
  "called_ok (t\<lparr>acting_seat := x\<rparr>) = called_ok t" "called_ok (t\<lparr>server_sequence := y\<rparr>) = called_ok t"
  "called_ok (bumpSequence t) = called_ok t"
  by (simp_all add: called_ok_def bumpSequence_def)

lemma bettor_ok_record [simp]:
  "bettor_ok (t\<lparr>acting_seat := x\<rparr>) = bettor_ok t" "bettor_ok (bumpSequence t) = bettor_ok t"
  "bettor_ok (t\<lparr>pending_action := y\<rparr>) = bettor_ok t"
  by (simp_all add: bettor_ok_def fun_eq_iff bumpSequence_def)

lemma cards_ok_record [simp]:
  "cards_ok (t\<lparr>acting_seat := x\<rparr>) = cards_ok t" "cards_ok (bumpSequence t) = cards_ok t"
  "cards_ok (t\<lparr>pending_action := y\<rparr>) = cards_ok t"
  by (simp_all add: cards_ok_def board_ok_def holes_ok_def)

lemma bet_held_record [simp]:
  "bet_held (t\<lparr>acting_seat := x\<rparr>) = bet_held t" "bet_held (bumpSequence t) = bet_held t"
  "bet_held (t\<lparr>pending_action := y\<rparr>) = bet_held t"
  by (simp_all add: bet_held_def)

lemma betting_ok_record [simp]:
  "betting_ok (t\<lparr>acting_seat := x\<rparr>) = betting_ok t" "betting_ok (bumpSequence t) = betting_ok t"
  by (simp_all add: betting_ok_def pending_ok_def dealer_ok_def)

lemma contenders_record [simp]:
  "contenders (t\<lparr>acting_seat := x\<rparr>) = contenders t" "contenders (bumpSequence t) = contenders t"
  "contenders (t\<lparr>pending_action := y\<rparr>) = contenders t"
  by (simp_all add: contenders_def)

lemma betting_ok_clear: "betting_ok t \<Longrightarrow> betting_ok (t\<lparr>pending_action := {}\<rparr>)"
  by (simp add: betting_ok_def pending_ok_def dealer_ok_def)

lemma onwards_trans: "onwards t u \<Longrightarrow> onwards u v \<Longrightarrow> onwards t v"
  unfolding onwards_def by (metis less_trans)

lemma nextStreet_later: "betStreet s \<Longrightarrow> s \<noteq> river \<Longrightarrow> streetIndex s < streetIndex (nextStreet s)"
  by (cases s) (simp_all add: betStreet_def)

lemma hand_step_core:
  assumes "same_core t u" "hand_step u t'" "2 \<le> contenders t" "onwards t u"
  shows "hand_step t t'"
proof -
  have "\<not> fold_end u t'" using same_core_sums(2) [OF assms(1)] assms(3) by (simp add: fold_end_def)
  then show ?thesis
    using assms(1,2) same_core_trans onwards_trans [OF assms(4)]
    unfolding hand_step_def showdown_end_def round_end_def by blast
qed

lemma actionable_ex: "2 \<le> actionable t \<Longrightarrow> \<exists>i p. sits t i p \<and> canAct p"
proof -
  assume "2 \<le> actionable t"
  then have "filter canAct (players t) \<noteq> []" by (auto simp: actionable_def)
  then obtain p where "p \<in> set (players t)" "canAct p" by (auto simp: filter_empty_conv)
  then show ?thesis unfolding in_players by blast
qed

theorem advance_ok:
  assumes "betting_ok t" "called_ok t" "1 \<le> contenders t" "acting_seat t = None"
  shows "\<exists>t'. advanceUntilActionOrSettlement t = Inr t' \<and> hand_step t t'"
  using assms
proof (induction t rule: advanceUntilActionOrSettlement.induct)
  case (1 t)
  note ok = betting_okD [OF "1.prems"(1)]
  note unfold = advanceUntilActionOrSettlement.simps [of t]
  consider (fold_win) "contenders t \<le> 1" | (waits) "2 \<le> contenders t" "\<not> bettingRoundComplete t"
    | (showing) "2 \<le> contenders t" "bettingRoundComplete t" "street t = river"
    | (next_street) "2 \<le> contenders t" "bettingRoundComplete t" "street t \<noteq> river"
    by linarith
  then show ?case
  proof cases
    case fold_win
    then show ?thesis
      using unfold settleFoldWin_ok [OF ok(1) "1.prems"(3)] "1.prems"(3)
      by (auto simp: hand_step_def fold_end_def)
  next
    case waits
    obtain i p where p: "sits t i p" "canAct p" "pid p \<in> pending_action t"
      using incomplete_pending [OF waits(2) "1.prems"(2)] by blast
    obtain d where d: "dealer_seat t = Some d" using ok(7) by (auto simp: dealer_ok_def)
    let ?t' = "t\<lparr>acting_seat := nextCanActSeat t d\<rparr>"
    have "advanceUntilActionOrSettlement t = Inr ?t'"
      using unfold waits d "1.prems"(4) by (simp add: firstPostflopActor_def)
    moreover have "hand_open ?t'"
      using "1.prems" waits(1) nextCanActSeat_ready [OF p] by (simp add: hand_open_def)
    moreover have "same_core t ?t'" by (rule same_core_cong) simp_all
    ultimately show ?thesis by (auto simp: hand_step_def round_end_def onwards_def)
  next
    case showing
    have "showdown_end t (settledTable t (showdownAwards t))"
      unfolding showdown_end_def using showing "1.prems"(1) same_core_refl by blast
    then show ?thesis
      using unfold showing settleShowdown_ok(1) [OF "1.prems"(1) showing(3)] by (auto simp: hand_step_def)
  next
    case next_street
    obtain u where street: "street u = nextStreet (street t)" and
      u: "advanceStreet t = Inr u" "betting_ok u" "called_ok u" "same_core t u"
      "\<forall>i p. sits u i p \<and> canAct p \<longrightarrow> pid p \<in> pending_action u"
      "\<forall>i p. sits u i p \<longrightarrow> street_commitment p = 0" "current_bet u = 0"
      using advanceStreet_ok [OF "1.prems"(1) next_street(3)] by blast
    have later: "streetIndex (street t) < streetIndex (street u)"
      unfolding street by (rule nextStreet_later [OF ok(2) next_street(3)])
    have two: "2 \<le> contenders u" using same_core_sums(2) [OF u(4)] next_street(1) by simp
    show ?thesis
    proof (cases "actionable u \<le> 1")
      case True
      let ?v = "u\<lparr>pending_action := {}, acting_seat := None\<rparr>"
      have "betting_ok ?v" using betting_ok_clear [OF u(2)] by simp
      moreover have "called_ok ?v" using u(6,7) by (auto simp: called_ok_def)
      moreover have core: "same_core t ?v"
        by (rule same_core_trans [OF u(4) same_core_cong]) simp_all
      ultimately obtain t' where "advanceUntilActionOrSettlement ?v = Inr t'" "hand_step ?v t'"
        using "1.IH" [OF _ _ _ u(1)] True next_street two by auto
      moreover have "onwards t ?v" using later by (simp add: onwards_def)
      ultimately show ?thesis
        using unfold next_street u(1) True hand_step_core [OF core] by auto
    next
      case False
      then obtain i p where p: "sits u i p" "canAct p" using actionable_ex [of u] by auto
      obtain d where d: "dealer_seat u = Some d" using betting_okD(7) [OF u(2)] by (auto simp: dealer_ok_def)
      let ?t' = "u\<lparr>acting_seat := nextCanActSeat u d\<rparr>"
      have "advanceUntilActionOrSettlement t = Inr ?t'"
        using unfold next_street u(1) False d by (simp add: firstPostflopActor_def)
      moreover have "hand_open ?t'"
        using u(2,3) two nextCanActSeat_ready [OF p] u(5) p by (simp add: hand_open_def)
      moreover have "same_core t ?t'" by (rule same_core_trans [OF u(4) same_core_cong]) simp_all
      ultimately show ?thesis using later by (auto simp: hand_step_def round_end_def onwards_def)
    qed
  qed
qed

end
