(* ===== verification/Table_Start.thy ===== *)
theory Table_Start
  imports Table_Hand
begin

text \<open>
  \<open>Table::startHand\<close>: the reset, the dealer, the two dealing rounds, the blinds and the first actor.
  The clockwise walk \<open>nextParticipatingSeat\<close> visits every participant once per round
  (\<open>next_in_cycle\<close>), so each of them receives two cards of the deck that nobody else receives, and
  the hand starts open, settled or, when the only player who can still act faces an uncovered blind,
  stuck (\<open>stuck\<close>).
\<close>

section \<open>Walking round the table\<close>

definition cycle :: "nat \<Rightarrow> nat \<Rightarrow> nat list" where
  "cycle n d = map (\<lambda>offset. (d + offset) mod n) [1..<Suc n]"

lemma next_seat_cycle: "next_seat P n d = List.find P (cycle n d)"
  by (simp add: next_seat_def cycle_def)

lemma find_filter: "List.find P xs = (case filter P xs of [] \<Rightarrow> None | x # _ \<Rightarrow> Some x)"
  by (induction xs) auto

lemma length_cycle [simp]: "length (cycle n d) = n"
  by (simp add: cycle_def del: upt_Suc)

lemma nth_cycle: "j < n \<Longrightarrow> cycle n d ! j = (d + Suc j) mod n"
  by (simp add: cycle_def del: upt_Suc)

lemma cycle_rotate:
  assumes "cycle n d = ys @ a # zs"
  shows "cycle n a = zs @ ys @ [a]"
proof (rule nth_equalityI)
  have n: "n = length ys + Suc (length zs)" using assms length_cycle [of n d] by simp
  show "length (cycle n a) = length (zs @ ys @ [a])" using n by simp
  have a: "a = (d + Suc (length ys)) mod n"
  proof -
    have "cycle n d ! length ys = a" unfolding assms by simp
    then show ?thesis using nth_cycle [of "length ys" n d] n by simp
  qed
  fix j assume "j < length (cycle n a)"
  then have j: "j < n" by simp
  have "cycle n a ! j = (d + Suc (length ys) + Suc j) mod n"
    unfolding nth_cycle [OF j] by (subst a) (simp only: mod_add_left_eq)
  also have "\<dots> = (zs @ ys @ [a]) ! j"
  proof (cases "j < length zs")
    case True
    have "(ys @ a # zs) ! (length ys + Suc j) = (d + Suc (length ys + Suc j)) mod n"
      unfolding assms [symmetric] using True n by (intro nth_cycle) simp
    then show ?thesis using True by (simp add: nth_append add.assoc)
  next
    case False
    define k where "k = j - length zs"
    have jk: "j = length zs + k" "k \<le> length ys" using False j n by (auto simp: k_def)
    have "(ys @ [a]) ! k = (ys @ a # zs) ! k" using jk(2) by (simp add: nth_append)
    also have "\<dots> = (d + Suc k) mod n"
      unfolding assms [symmetric] using jk n by (intro nth_cycle) simp
    also have "\<dots> = (d + Suc (length ys) + Suc j) mod n"
    proof -
      have "d + Suc (length ys) + Suc j = (d + Suc k) + n" using jk n by simp
      then show ?thesis by (simp only: mod_add_self2)
    qed
    finally show ?thesis using jk by (simp add: nth_append)
  qed
  finally show "cycle n a ! j = (zs @ ys @ [a]) ! j" .
qed

lemma filter_split:
  "filter P xs = us @ a # vs \<Longrightarrow> \<exists>ys zs. xs = ys @ a # zs \<and> filter P ys = us \<and> filter P zs = vs \<and> P a"
proof (induction xs arbitrary: us)
  case (Cons x xs)
  show ?case
  proof (cases "P x")
    case True
    show ?thesis
    proof (cases us)
      case Nil
      then show ?thesis using Cons.prems True by (intro exI [of _ "[]"] exI [of _ xs]) auto
    next
      case (Cons u us')
      then have "x = u" "filter P xs = us' @ a # vs" using Cons.prems True by auto
      then obtain ys zs where "xs = ys @ a # zs" "filter P ys = us'" "filter P zs = vs" "P a"
        using Cons.IH by blast
      then show ?thesis using \<open>x = u\<close> Cons True by (intro exI [of _ "x # ys"] exI [of _ zs]) auto
    qed
  next
    case False
    then obtain ys zs where "xs = ys @ a # zs" "filter P ys = us" "filter P zs = vs" "P a"
      using Cons by auto
    then show ?thesis using False by (intro exI [of _ "x # ys"] exI [of _ zs]) auto
  qed
qed simp

lemma next_in_cycle:
  assumes "filter P (cycle n d) = us @ a # vs"
  shows "next_seat P n a = Some (hd (vs @ us @ [a]))"
proof -
  obtain ys zs where split: "cycle n d = ys @ a # zs" "filter P ys = us" "filter P zs = vs" "P a"
    using filter_split [OF assms] by blast
  have "cycle n a = zs @ ys @ [a]" by (rule cycle_rotate [OF split(1)])
  moreover have "filter P (zs @ ys @ [a]) = vs @ us @ [a]" using split(2-4) by simp
  ultimately have "next_seat P n a = (case vs @ us @ [a] of [] \<Rightarrow> None | x # _ \<Rightarrow> Some x)"
    by (simp only: next_seat_cycle find_filter)
  then show ?thesis by (cases "vs @ us @ [a]") auto
qed

lemma cycle_perm: "0 < n \<Longrightarrow> mset (cycle n d) = mset [0..<n]"
proof -
  assume n: "0 < n"
  have "set (cycle n d) = {0..<n}"
  proof (intro equalityI subsetI)
    fix x assume "x \<in> set (cycle n d)"
    then show "x \<in> {0..<n}" using n by (auto simp: cycle_def)
  next
    fix x assume "x \<in> {0..<n}"
    then have "x < n" by simp
    then obtain k where "k \<in> {1..n}" "(d + k) mod n = x" using circular_cover [of x n d] by blast
    then show "x \<in> set (cycle n d)" by (auto simp: cycle_def less_Suc_eq_le simp del: upt_Suc)
  qed
  moreover from this have "distinct (cycle n d)" by (intro card_distinct) simp
  ultimately show ?thesis
    by (intro set_eq_iff_mset_eq_distinct [THEN iffD1]) (simp_all only: distinct_upt set_upt)
qed

section \<open>The reset\<close>

definition inHand :: "Player \<Rightarrow> bool" where
  "inHand p \<longleftrightarrow> ready p \<and> 0 < stack p"

lemma resetForHand_simps [simp]:
  "pid (resetForHand p) = pid p" "seat (resetForHand p) = seat p" "stack (resetForHand p) = stack p"
  "street_commitment (resetForHand p) = 0" "hand_commitment (resetForHand p) = 0"
  "hole (resetForHand p) = hole p" "has_hole (resetForHand p) = False"
  "status (resetForHand p) = (if inHand p then active else status_waiting)"
  by (simp_all add: resetForHand_def inHand_def)

lemma beginHand_simps [simp]:
  "config (beginHand d t) = config t" "dealer_seat (beginHand d t) = dealer_seat t"
  "street (beginHand d t) = preflop" "board (beginHand d t) = []" "deck (beginHand d t) = Some d"
  "current_bet (beginHand d t) = 0" "minimum_raise (beginHand d t) = big_blind (config t)"
  "pending_action (beginHand d t) = {}" "raise_allowed (beginHand d t) = {}"
  "acting_seat (beginHand d t) = None" "last_awards (beginHand d t) = []"
  "length (seats (beginHand d t)) = length (seats t)"
  by (simp_all add: beginHand_def)

lemma sits_beginHand: "sits (beginHand d t) i p \<longleftrightarrow> (\<exists>q. sits t i q \<and> p = resetForHand q)"
  by (simp add: beginHand_def)

lemma seats_ok_beginHand: "seats_ok t \<Longrightarrow> seats_ok (beginHand d t)"
proof -
  assume ok: "seats_ok t"
  then have "seats_ok (mapPlayers resetForHand t)"
    by (rule seats_ok_mapPlayers) (use seats_ok_player [OF ok] in \<open>auto simp: player_ok_def\<close>)
  then show ?thesis by (simp add: beginHand_def)
qed

lemma participatingSeats_set:
  "i \<in> set (participatingSeats t) \<longleftrightarrow> (\<exists>p. sits t i p \<and> status p = active)"
  by (auto simp: participatingSeats_def sits_def split: option.splits)

lemma participatingSeats_length:
  "length (participatingSeats t) = length (filter (\<lambda>p. status p = active) (players t))"
proof -
  have "length (filter (\<lambda>i. case xs ! i of None \<Rightarrow> False | Some p \<Rightarrow> Q p) [0..<length xs])
      = length (filter Q (occupants xs))" for xs :: "Player option list" and Q
  proof (induction xs rule: rev_induct)
    case (snoc x xs)
    have "filter (\<lambda>i. case (xs @ [x]) ! i of None \<Rightarrow> False | Some p \<Rightarrow> Q p) [0..<length xs]
        = filter (\<lambda>i. case xs ! i of None \<Rightarrow> False | Some p \<Rightarrow> Q p) [0..<length xs]"
      by (rule filter_cong) (auto simp: nth_append)
    then show ?case using snoc by (cases x) (simp_all add: occupants_append)
  qed simp
  then show ?thesis unfolding participatingSeats_def .
qed

lemma participants_count:
  "length (participatingSeats (beginHand d t)) = length (filter (\<lambda>p. ready p \<and> 0 < stack p) (players t))"
proof -
  have "length (filter (\<lambda>p. status p = active) (map resetForHand ps)) = length (filter (\<lambda>p. ready p \<and> 0 < stack p) ps)" for ps
    by (induction ps) (auto simp: inHand_def)
  then show ?thesis by (simp add: participatingSeats_length beginHand_def)
qed

section \<open>Dealing the hole cards\<close>

text \<open>Tables in which every seated player is in the hand (active) or sits out (waiting).\<close>

definition fresh_statuses :: "Table \<Rightarrow> bool" where
  "fresh_statuses t \<longleftrightarrow> (\<forall>i p. sits t i p \<longrightarrow> status p = active \<or> status p = status_waiting)"

definition takesPart :: "Table \<Rightarrow> nat \<Rightarrow> bool" where
  "takesPart t i \<longleftrightarrow> (\<exists>p. i < length (seats t) \<and> seats t ! i = Some p \<and> status p \<noteq> status_waiting)"

definition seatOrder :: "Table \<Rightarrow> nat \<Rightarrow> nat list" where
  "seatOrder t d = filter (takesPart t) (cycle (length (seats t)) d)"

lemma nextParticipatingSeat_takesPart:
  assumes "seats_ok t"
  shows "nextParticipatingSeat t d = next_seat (takesPart t) (length (seats t)) d"
  unfolding nextParticipatingSeat_def
proof (rule next_seat_cong)
  fix i assume i: "i < length (seats t)"
  show "(case seats t ! i of None \<Rightarrow> False
      | Some p \<Rightarrow> status p = active \<or> status p = status_all_in \<or> status p = folded) = takesPart t i"
  proof (cases "seats t ! i")
    case None
    then show ?thesis by (simp add: takesPart_def)
  next
    case (Some p)
    then have "status p \<noteq> disconnected" using assms i seats_ok_player [of t i p] by (simp add: sits_def player_ok_def)
    then show ?thesis using Some i by (cases "status p") (auto simp: takesPart_def)
  qed
qed

lemma seatOrder_next:
  "seats_ok t \<Longrightarrow> seatOrder t d = us @ a # vs \<Longrightarrow> nextParticipatingSeat t a = Some (hd (vs @ us @ [a]))"
  unfolding seatOrder_def nextParticipatingSeat_takesPart by (rule next_in_cycle)

lemma seatOrder_first:
  "seats_ok t \<Longrightarrow> seatOrder t d \<noteq> [] \<Longrightarrow> nextParticipatingSeat t d = Some (hd (seatOrder t d))"
  by (cases "seatOrder t d")
    (simp_all add: nextParticipatingSeat_takesPart next_seat_cycle find_filter seatOrder_def)

lemma seatOrder_props:
  assumes "seats_ok t"
  shows "distinct (seatOrder t d)" "set (seatOrder t d) = {i. takesPart t i}"
proof -
  have pos: "0 < length (seats t)" using seats_okD(1) [OF assms] by linarith
  then have perm: "mset (cycle (length (seats t)) d) = mset [0..<length (seats t)]" by (rule cycle_perm)
  then have "distinct (cycle (length (seats t)) d)" by (metis distinct_upt mset_eq_imp_distinct_iff)
  then show "distinct (seatOrder t d)" by (simp add: seatOrder_def)
  show "set (seatOrder t d) = {i. takesPart t i}"
    using mset_eq_setD [OF perm] by (auto simp: seatOrder_def takesPart_def)
qed

lemma seatOrder_length:
  assumes "seats_ok t" "fresh_statuses t"
  shows "length (seatOrder t d) = length (participatingSeats t)"
proof -
  have "{i. takesPart t i} = set (participatingSeats t)"
  proof (intro set_eqI)
    fix i
    show "i \<in> {i. takesPart t i} \<longleftrightarrow> i \<in> set (participatingSeats t)"
      using assms(2) unfolding participatingSeats_set fresh_statuses_def
      by (cases "\<exists>p. sits t i p") (auto simp: takesPart_def sits_def)
  qed
  moreover have "distinct (participatingSeats t)" by (simp add: participatingSeats_def)
  ultimately show ?thesis using seatOrder_props [OF assms(1), of d] by (metis distinct_card)
qed

definition giveCard :: "nat \<Rightarrow> Card \<Rightarrow> Player \<Rightarrow> Player" where
  "giveCard rnd c p = p\<lparr>hole := (hole p)[rnd := c], has_hole := True\<rparr>"

fun deal :: "nat \<Rightarrow> nat list \<Rightarrow> Card list \<Rightarrow> Player option list \<Rightarrow> Player option list" where
  "deal rnd (i # is) (c # cs) ss = deal rnd is cs (ss[i := map_option (giveCard rnd c) (ss ! i)])"
| "deal rnd _ _ ss = ss"

lemma deal_length [simp]: "length (deal rnd is cs ss) = length ss"
  by (induction rnd "is" cs ss rule: deal.induct) auto

lemma deal_other: "i \<notin> set is \<Longrightarrow> deal rnd is cs ss ! i = ss ! i"
  by (induction rnd "is" cs ss rule: deal.induct) auto

lemma deal_nth:
  "distinct is \<Longrightarrow> j < length is \<Longrightarrow> j < length cs \<Longrightarrow> is ! j < length ss \<Longrightarrow>
   deal rnd is cs ss ! (is ! j) = map_option (giveCard rnd (cs ! j)) (ss ! (is ! j))"
proof (induction rnd "is" cs ss arbitrary: j rule: deal.induct)
  case (1 rnd i "is" c cs ss)
  show ?case
  proof (cases j)
    case 0
    then show ?thesis using 1 deal_other [of i "is"] by auto
  next
    case (Suc k)
    then have "is ! k \<noteq> i" using "1.prems" by (metis Suc_less_eq distinct.simps(2) length_Cons nth_Cons_Suc nth_mem)
    then show ?thesis using Suc 1 by auto
  qed
qed auto

text \<open>Handing out cards changes neither who takes part nor the order of the seats.\<close>

definition dealt :: "nat \<Rightarrow> nat list \<Rightarrow> Deck \<Rightarrow> Table \<Rightarrow> Table" where
  "dealt rnd is d t = t\<lparr>seats := deal rnd is (drop (deck_next d) (deck_cards d)) (seats t),
     deck := Some (d\<lparr>deck_next := deck_next d + length is\<rparr>)\<rparr>"

lemma giveCard_simps [simp]:
  "pid (giveCard rnd c p) = pid p" "seat (giveCard rnd c p) = seat p" "stack (giveCard rnd c p) = stack p"
  "street_commitment (giveCard rnd c p) = street_commitment p"
  "hand_commitment (giveCard rnd c p) = hand_commitment p" "status (giveCard rnd c p) = status p"
  "hole (giveCard rnd c p) = (hole p)[rnd := c]" "has_hole (giveCard rnd c p)"
  "player_ok (giveCard rnd c p) = player_ok p"
  by (simp_all add: giveCard_def player_ok_def)

lemma seats_ok_giveCard:
  assumes "seats_ok t" "sits t i p"
  shows "seats_ok (t\<lparr>seats := (seats t)[i := Some (giveCard rnd c p)]\<rparr>)"
  using seats_ok_setSeat [OF assms, of "giveCard rnd c p"] seats_ok_player [OF assms] by (simp add: setSeat_def)

lemma seatOrder_giveCard:
  assumes "sits t i p"
  shows "seatOrder (t\<lparr>seats := (seats t)[i := Some (giveCard rnd c p)], deck := x\<rparr>) d = seatOrder t d"
proof -
  have "takesPart (t\<lparr>seats := (seats t)[i := Some (giveCard rnd c p)], deck := x\<rparr>) = takesPart t"
    using assms by (auto simp: takesPart_def fun_eq_iff nth_list_update sits_def)
  then show ?thesis by (simp add: seatOrder_def)
qed

lemma deck_seats: "t\<lparr>deck := x, seats := y\<rparr> = t\<lparr>seats := y, deck := x\<rparr>"
  by simp

lemma dealRound_ok:
  assumes "seats_ok t" "seatOrder t o1 = us @ vs" "us @ vs \<noteq> []" "deck t = Some d"
    "deck_next d + length vs \<le> length (deck_cards d)"
  shows "dealRound rnd (length vs) (Some (hd (vs @ us)), t) = Inr (Some (hd (us @ vs)), dealt rnd vs d t)
    \<and> seats_ok (dealt rnd vs d t) \<and> seatOrder (dealt rnd vs d t) o1 = us @ vs"
  using assms
proof (induction vs arbitrary: us t d)
  case Nil
  have "dealt rnd [] d t = t" using Nil.prems(4) by (simp add: dealt_def)
  then show ?case using Nil by simp
next
  case (Cons a vs)
  have "takesPart t a" using seatOrder_props(2) [OF Cons.prems(1), of o1] Cons.prems(2) by auto
  then obtain p where p: "sits t a p" by (auto simp: takesPart_def sits_def)
  let ?c = "deck_cards d ! deck_next d" and ?d = "d\<lparr>deck_next := Suc (deck_next d)\<rparr>"
  let ?t = "t\<lparr>seats := (seats t)[a := Some (giveCard rnd ?c p)], deck := Some ?d\<rparr>"
  have ok: "seats_ok ?t" using seats_ok_giveCard [OF Cons.prems(1) p] by simp
  have order: "seatOrder ?t o1 = us @ a # vs" using seatOrder_giveCard [OF p] Cons.prems(2) by simp
  have "drawCard t = Inr (?c, t\<lparr>deck := Some ?d\<rparr>)"
    using Cons.prems(4,5) by (simp add: drawCard_def draw_def)
  then have "dealRound rnd (length (a # vs)) (Some (hd ((a # vs) @ us)), t) =
      dealRound rnd (length vs) (nextParticipatingSeat ?t a, ?t)"
    using p by (simp add: sits_def giveCard_def Let_def deck_seats)
  also have "nextParticipatingSeat ?t a = Some (hd (vs @ (us @ [a])))"
    using seatOrder_next [OF ok order] by simp
  finally have step: "dealRound rnd (length (a # vs)) (Some (hd ((a # vs) @ us)), t) =
      dealRound rnd (length vs) (Some (hd (vs @ (us @ [a]))), ?t)" .
  have cards: "drop (deck_next d) (deck_cards d) = ?c # drop (Suc (deck_next d)) (deck_cards d)"
    using Cons.prems(5) by (intro Cons_nth_drop_Suc [symmetric]) simp
  have "dealt rnd vs ?d ?t = dealt rnd (a # vs) d t"
    using p by (simp add: dealt_def cards sits_def)
  then show ?case
    using Cons.IH [of ?t "us @ [a]" ?d] ok order Cons.prems(5) step by simp
qed

text \<open>After both rounds, seat number \<open>j\<close> in the order holds cards \<open>j\<close> and \<open>m + j\<close> of the deck.\<close>

definition dealtTwo :: "nat list \<Rightarrow> Deck \<Rightarrow> Table \<Rightarrow> Table" where
  "dealtTwo is d t = dealt 1 is (d\<lparr>deck_next := deck_next d + length is\<rparr>) (dealt 0 is d t)"

lemma dealHoleCards_ok:
  assumes "seats_ok t" "fresh_statuses t" "dealer_seat t = Some o1" "deck t = Some d" "fullDeck d"
    "deck_next d = 0" "participatingSeats t \<noteq> []"
  shows "dealHoleCards (participatingSeats t) t = Inr (dealtTwo (seatOrder t o1) d t)"
    "seats_ok (dealtTwo (seatOrder t o1) d t)"
proof -
  let ?is = "seatOrder t o1" and ?d = "d\<lparr>deck_next := deck_next d + length (seatOrder t o1)\<rparr>"
  have len: "length ?is = length (participatingSeats t)" by (rule seatOrder_length [OF assms(1,2)])
  then have ne: "?is \<noteq> []" using assms(7) by auto
  have "distinct ?is" "set ?is \<subseteq> {..<length (seats t)}"
    using seatOrder_props [OF assms(1), of o1] by (auto simp: takesPart_def)
  then have "length ?is \<le> 6"
    using seats_okD(2) [OF assms(1)] card_mono [of "{..<length (seats t)}" "set ?is"] distinct_card [of ?is] by simp
  then have small: "2 * length ?is \<le> length (deck_cards d)" using fullDeckD [OF assms(5)] by simp
  have 1: "dealRound 0 (length ?is) (Some (hd ?is), t) = Inr (Some (hd ?is), dealt 0 ?is d t)"
    "seats_ok (dealt 0 ?is d t)" "seatOrder (dealt 0 ?is d t) o1 = ?is"
    using dealRound_ok [OF assms(1), of o1 "[]" ?is d 0] ne assms(4,6) small by auto
  have 2: "dealRound 1 (length ?is) (Some (hd ?is), dealt 0 ?is d t) = Inr (Some (hd ?is), dealtTwo ?is d t)"
    "seats_ok (dealtTwo ?is d t)"
    using dealRound_ok [OF 1(2), of o1 "[]" ?is ?d 1] ne 1(3) assms(6) small
    by (auto simp: dealtTwo_def dealt_def)
  show "dealHoleCards (participatingSeats t) t = Inr (dealtTwo ?is d t)"
    using assms(3) seatOrder_first [OF assms(1) ne] 1(1) 2(1)
    by (simp add: dealHoleCards_def len)
  show "seats_ok (dealtTwo ?is d t)" by (rule 2(2))
qed

lemma dealtTwo_sits:
  assumes "distinct is" "\<forall>i \<in> set is. i < length (seats t)" "2 * length is \<le> length (deck_cards d)" "deck_next d = 0"
  shows "\<And>j p. j < length is \<Longrightarrow> sits (dealtTwo is d t) (is ! j) p \<longleftrightarrow>
      (\<exists>q. sits t (is ! j) q \<and> p = giveCard 1 (deck_cards d ! (length is + j)) (giveCard 0 (deck_cards d ! j) q))"
    "\<And>i p. i \<notin> set is \<Longrightarrow> sits (dealtTwo is d t) i p \<longleftrightarrow> sits t i p"
proof -
  let ?s1 = "deal 0 is (deck_cards d) (seats t)"
  have seats: "seats (dealtTwo is d t) = deal 1 is (drop (length is) (deck_cards d)) ?s1"
    using assms(4) by (simp add: dealtTwo_def dealt_def)
  show "sits (dealtTwo is d t) (is ! j) p \<longleftrightarrow>
      (\<exists>q. sits t (is ! j) q \<and> p = giveCard 1 (deck_cards d ! (length is + j)) (giveCard 0 (deck_cards d ! j) q))"
    if j: "j < length is" for j p
  proof -
    have lt: "is ! j < length (seats t)" using j assms(2) by simp
    have "seats (dealtTwo is d t) ! (is ! j) = map_option (giveCard 1 (deck_cards d ! (length is + j)))
        (map_option (giveCard 0 (deck_cards d ! j)) (seats t ! (is ! j)))"
      unfolding seats using deal_nth [OF assms(1) j, of "drop (length is) (deck_cards d)" ?s1 1]
        deal_nth [OF assms(1) j, of "deck_cards d" "seats t" 0] lt assms(3) j by simp
    then show ?thesis using lt by (auto simp: sits_def seats option.map_comp comp_def)
  qed
  show "sits (dealtTwo is d t) i p \<longleftrightarrow> sits t i p" if "i \<notin> set is" for i p
    using that by (simp add: sits_def seats deal_other)
qed

lemma deal_map:
  assumes "\<And>r c p. f (giveCard r c p) = f p"
  shows "map (map_option f) (deal rnd is cs ss) = map (map_option f) ss"
proof (induction rnd "is" cs ss rule: deal.induct)
  case (1 rnd i "is" c cs ss)
  have same: "map_option f (map_option (giveCard rnd c) x) = map_option f x" for x
    by (cases x) (simp_all add: assms)
  have "map (map_option f) (ss[i := map_option (giveCard rnd c) (ss ! i)]) = map (map_option f) ss"
  proof (rule nth_equalityI)
    fix j assume "j < length (map (map_option f) (ss[i := map_option (giveCard rnd c) (ss ! i)]))"
    then show "map (map_option f) (ss[i := map_option (giveCard rnd c) (ss ! i)]) ! j = map (map_option f) ss ! j"
      using same [of "ss ! i"] by (cases "i = j") (simp_all del: option.map_comp)
  qed simp
  then show ?case using 1 by simp
qed auto

lemma dealtTwo_map:
  "(\<And>r c p. f (giveCard r c p) = f p) \<Longrightarrow>
   map (map_option f) (seats (dealtTwo is d t)) = map (map_option f) (seats t)"
  by (simp add: dealtTwo_def dealt_def deal_map)

lemma dealtTwo_simps [simp]:
  "config (dealtTwo is d t) = config t" "dealer_seat (dealtTwo is d t) = dealer_seat t"
  "street (dealtTwo is d t) = street t" "board (dealtTwo is d t) = board t"
  "current_bet (dealtTwo is d t) = current_bet t" "minimum_raise (dealtTwo is d t) = minimum_raise t"
  "pending_action (dealtTwo is d t) = pending_action t" "acting_seat (dealtTwo is d t) = acting_seat t"
  "raise_allowed (dealtTwo is d t) = raise_allowed t" "last_awards (dealtTwo is d t) = last_awards t"
  "deck (dealtTwo is d t) = Some (d\<lparr>deck_next := deck_next d + length is + length is\<rparr>)"
  by (simp_all add: dealtTwo_def dealt_def)

section \<open>The table before and after the deal\<close>

definition fresh_hand :: "Deck \<Rightarrow> Table \<Rightarrow> bool" where
  "fresh_hand d t \<longleftrightarrow> seats_ok t \<and> street t = preflop \<and> board t = [] \<and> deck t = Some d \<and> fullDeck d \<and>
     deck_next d = 0 \<and> current_bet t = 0 \<and> minimum_raise t = big_blind (config t) \<and> pending_action t = {} \<and>
     acting_seat t = None \<and>
     (\<forall>i p. sits t i p \<longrightarrow> street_commitment p = 0 \<and> hand_commitment p = 0 \<and> \<not> has_hole p \<and>
        (status p = active \<and> 0 < stack p \<or> status p = status_waiting))"

lemma fresh_hand_statuses: "fresh_hand d t \<Longrightarrow> fresh_statuses t"
  by (auto simp: fresh_hand_def fresh_statuses_def)

lemma fresh_begin:
  assumes "seats_ok t" "fullDeck d" "deck_next d = 0"
  shows "fresh_hand d (beginHand d t)"
  using assms seats_ok_beginHand [OF assms(1), of d]
  by (auto simp: fresh_hand_def sits_beginHand inHand_def split: if_splits)

lemma takesPart_seatOrder:
  "seats_ok t \<Longrightarrow> i \<in> set (seatOrder t d) \<longleftrightarrow> (\<exists>p. sits t i p \<and> status p \<noteq> status_waiting)"
  using seatOrder_props(2) [of t d] by (auto simp: takesPart_def sits_def)

lemma dealt_holes_ok:
  assumes "fresh_hand d t"
  shows "holes_ok (dealtTwo (seatOrder t o1) d t) (set (take (2 * length (seatOrder t o1)) (deck_cards d)))"
    and "2 * length (seatOrder t o1) \<le> 12"
proof -
  let ?is = "seatOrder t o1" and ?t = "dealtTwo (seatOrder t o1) d t"
  have ok: "seats_ok t" and deck: "fullDeck d" "deck_next d = 0" and brd: "board t = []"
    and no_hole: "\<And>i p. sits t i p \<Longrightarrow> \<not> has_hole p" using assms by (auto simp: fresh_hand_def)
  note order = seatOrder_props [OF ok, of o1]
  have range: "\<forall>i \<in> set ?is. i < length (seats t)" using order(2) by (auto simp: takesPart_def)
  then have "card (set ?is) \<le> length (seats t)" using card_mono [of "{..<length (seats t)}" "set ?is"] by auto
  then show small: "2 * length ?is \<le> 12" using seats_okD(2) [OF ok] distinct_card [OF order(1)] by simp
  have big: "2 * length ?is \<le> length (deck_cards d)" using small fullDeckD [OF deck(1)] by simp
  note sits' = dealtTwo_sits [OF order(1) range big deck(2)]
  let ?n = "length ?is"
  have held: "\<exists>j < ?n. ?is ! j = i \<and> hole p = [deck_cards d ! j, deck_cards d ! (?n + j)]"
    if sp: "sits ?t i p" "has_hole p" for i p
  proof -
    have "i \<in> set ?is" using sp sits'(2) no_hole by blast
    then obtain j where j: "j < ?n" "?is ! j = i" by (auto simp: in_set_conv_nth)
    then obtain q where q: "sits t i q"
      "p = giveCard 1 (deck_cards d ! (?n + j)) (giveCard 0 (deck_cards d ! j) q)"
      using sp(1) sits'(1) [OF j(1), of p] j(2) by blast
    then obtain a b where "hole q = [a, b]"
      using seats_ok_player [OF ok q(1)] by (auto simp: player_ok_def numeral_2_eq_2 length_Suc_conv)
    then show ?thesis using j q(2) by auto
  qed
  have dist: "distinct (deck_cards d)" using fullDeckD [OF deck(1)] by simp
  have in_take: "deck_cards d ! k \<in> set (take (2 * ?n) (deck_cards d))" if "k < 2 * ?n" for k
    using that big by (auto simp: in_set_conv_nth)
  have eq: "deck_cards d ! k = deck_cards d ! l \<longleftrightarrow> k = l" if "k < 2 * ?n" "l < 2 * ?n" for k l
    using that big dist by (simp add: nth_eq_iff_index_eq)
  show "holes_ok ?t (set (take (2 * ?n) (deck_cards d)))"
    unfolding holes_ok_def dealtTwo_simps brd
  proof (intro conjI allI impI; elim conjE)
    fix i p assume "sits ?t i p" "has_hole p"
    then obtain j where j: "j < ?n" "hole p = [deck_cards d ! j, deck_cards d ! (?n + j)]" using held by blast
    then have lt: "j < 2 * ?n" "?n + j < 2 * ?n" by simp_all
    have "deck_cards d ! j \<noteq> deck_cards d ! (?n + j)" using eq [OF lt] j(1) by auto
    then show "distinct (hole p)" unfolding j(2) by simp
    show "set (hole p) \<subseteq> set (take (2 * ?n) (deck_cards d))"
      unfolding j(2) using in_take [OF lt(1)] in_take [OF lt(2)] by simp
    show "set (hole p) \<inter> set [] = {}" by simp
  next
    fix i k p q assume sq: "sits ?t i p" "sits ?t k q" "has_hole p" "has_hole q" "i \<noteq> k"
    obtain j where j: "j < ?n" "?is ! j = i" "hole p = [deck_cards d ! j, deck_cards d ! (?n + j)]"
      using held [OF sq(1,3)] by blast
    obtain l where l: "l < ?n" "?is ! l = k" "hole q = [deck_cards d ! l, deck_cards d ! (?n + l)]"
      using held [OF sq(2,4)] by blast
    have "j \<noteq> l" using j(2) l(2) sq(5) by auto
    moreover have lt: "j < 2 * ?n" "?n + j < 2 * ?n" "l < 2 * ?n" "?n + l < 2 * ?n" using j(1) l(1) by simp_all
    ultimately have "deck_cards d ! j \<noteq> deck_cards d ! l" "deck_cards d ! j \<noteq> deck_cards d ! (?n + l)"
      "deck_cards d ! (?n + j) \<noteq> deck_cards d ! l" "deck_cards d ! (?n + j) \<noteq> deck_cards d ! (?n + l)"
      using eq [OF lt(1,3)] eq [OF lt(1,4)] eq [OF lt(2,3)] eq [OF lt(2,4)] j(1) l(1) by simp_all
    then show "set (hole p) \<inter> set (hole q) = {}" unfolding j(3) l(3) by simp
  qed
qed

lemma dealt_betting_ok:
  assumes "fresh_hand d t" "dealer_seat t = Some o1" "sits t o1 p1" "status p1 \<noteq> status_waiting"
  shows "betting_ok (dealtTwo (seatOrder t o1) d t)"
proof -
  let ?is = "seatOrder t o1" and ?t = "dealtTwo (seatOrder t o1) d t"
  have ok: "seats_ok t" and deck: "deck t = Some d" "fullDeck d" "deck_next d = 0"
    using assms(1) by (auto simp: fresh_hand_def)
  note order = seatOrder_props [OF ok, of o1]
  have range: "\<forall>i \<in> set ?is. i < length (seats t)" using order(2) by (auto simp: takesPart_def)
  have big: "2 * length ?is \<le> length (deck_cards d)"
    using dealt_holes_ok(2) [OF assms(1), of o1] fullDeckD [OF deck(2)] by simp
  note sits' = dealtTwo_sits [OF order(1) range big deck(3)]
  have ne: "participatingSeats t \<noteq> []"
    using assms(1,3,4) participatingSeats_set [of o1 t] by (fastforce simp: fresh_hand_def)
  have seats': "seats_ok ?t"
    by (rule dealHoleCards_ok(2) [OF ok fresh_hand_statuses [OF assms(1)] assms(2) deck ne])
  have core: "\<exists>q. sits t i q \<and> status p = status q \<and> stack p = stack q \<and> hand_commitment p = hand_commitment q
      \<and> street_commitment p = street_commitment q \<and> (status p \<noteq> status_waiting \<longrightarrow> has_hole p)"
    if "sits ?t i p" for i p
  proof (cases "i \<in> set ?is")
    case True
    then obtain j where "j < length ?is" "?is ! j = i" by (auto simp: in_set_conv_nth)
    then show ?thesis using that sits'(1) [of j p] by auto
  next
    case False
    then show ?thesis using that sits'(2) [OF False] takesPart_seatOrder [OF ok, of i o1] by blast
  qed
  have "bettor_ok ?t p" if sp: "sits ?t i p" for i p
  proof -
    obtain q where q: "sits t i q" "status p = status q" "stack p = stack q" "hand_commitment p = hand_commitment q"
      "street_commitment p = street_commitment q" "status p \<noteq> status_waiting \<longrightarrow> has_hole p"
      using core [OF sp] by blast
    have "street_commitment q = 0" "hand_commitment q = 0"
      "status q = active \<and> 0 < stack q \<or> status q = status_waiting" "current_bet t = 0"
      using assms(1) q(1) by (auto simp: fresh_hand_def)
    then show ?thesis using q(2-6) by (auto simp: bettor_ok_def)
  qed
  moreover have "dealer_ok ?t"
  proof -
    have "o1 \<in> set ?is" using takesPart_seatOrder [OF ok] assms(3,4) by blast
    then obtain j where "j < length ?is" "?is ! j = o1" by (auto simp: in_set_conv_nth)
    then show ?thesis using assms(2-4) sits'(1) [of j] by (fastforce simp: dealer_ok_def)
  qed
  moreover have "cards_ok ?t"
    using dealt_holes_ok [OF assms(1), of o1] deck assms(1)
    by (simp add: cards_ok_def fresh_hand_def board_ok_def dealtCards_def mult_2)
  ultimately show ?thesis
    using seats' assms(1) seats_okD(3,4) [OF ok]
    by (auto simp: betting_ok_def fresh_hand_def pending_ok_def betStreet_def bet_held_def)
qed

section \<open>The blinds\<close>

lemma postBlind_result:
  assumes "player_ok p" "0 \<le> b"
  shows "player_ok (postBlind b p)" "pid (postBlind b p) = pid p" "seat (postBlind b p) = seat p"
    "hole (postBlind b p) = hole p" "has_hole (postBlind b p) = has_hole p"
    "stack (postBlind b p) + hand_commitment (postBlind b p) = stack p + hand_commitment p"
    "street_commitment p \<le> street_commitment (postBlind b p)"
    "street_commitment (postBlind b p) = street_commitment p + min b (stack p)"
    "stack (postBlind b p) = stack p - min b (stack p)"
    "status (postBlind b p) = (if stack (postBlind b p) = 0 then status_all_in else status p)"
  using assms by (auto simp: postBlind_def player_ok_def Let_def min_def)

lemma acted_postBlind:
  assumes "seats_ok t" "sits t s p" "status p \<noteq> status_waiting" "0 \<le> b"
  shows "acted t s p (postBlind b p) (setSeat s (postBlind b p) t)"
proof -
  note blind = postBlind_result [OF seats_ok_player [OF assms(1,2)] assms(4)]
  then show ?thesis using assms(2,3) unfolding acted_def by (auto simp: setSeat_def)
qed

lemma blind_betting_ok:
  assumes "betting_ok t" "sits t s p" "status p \<noteq> status_waiting" "0 \<le> b" "pending_action t = {}"
  shows "betting_ok ((setSeat s (postBlind b p) t)\<lparr>current_bet := max (current_bet t) (street_commitment (postBlind b p))\<rparr>)"
    (is "betting_ok ?u")
proof -
  note ok = betting_okD [OF assms(1)]
  note blind = postBlind_result [OF seats_ok_player [OF ok(1) assms(2)] assms(4)]
  have "acted t s p (postBlind b p) ?u" using acted_postBlind [OF ok(1) assms(2,3,4)] by simp
  moreover have "bettor_ok ?u (postBlind b p)"
  proof -
    have "0 \<le> stack (postBlind b p)" using blind(1) by (simp add: player_ok_def)
    then show ?thesis
      using ok(5) [OF assms(2)] blind assms(3) by (auto simp: bettor_ok_def split: if_splits)
  qed
  moreover have "street_commitment (postBlind b p) = current_bet ?u \<or>
      current_bet ?u = current_bet t \<and> street_commitment p \<le> street_commitment (postBlind b p)"
    using blind(7) by (simp add: max_def)
  moreover have "pending_ok ?u" using assms(5) by (simp add: pending_ok_def)
  ultimately show ?thesis using acted_betting_ok [OF _ assms(1)] ok(4) by simp
qed

lemma nextParticipatingSeat_sits:
  assumes "seats_ok t" "sits t i p" "status p \<noteq> status_waiting"
  shows "\<exists>s q. nextParticipatingSeat t from = Some s \<and> sits t s q \<and> status q \<noteq> status_waiting"
proof -
  have "takesPart t i" using assms(2,3) by (auto simp: takesPart_def sits_def)
  then obtain s where s: "nextParticipatingSeat t from = Some s"
    using next_seat_ex [of i "length (seats t)" "takesPart t"] assms(2)
    by (auto simp: nextParticipatingSeat_takesPart [OF assms(1)] sits_def)
  then have "takesPart t s"
    unfolding nextParticipatingSeat_takesPart [OF assms(1)] by (auto dest: next_seat_SomeD)
  then show ?thesis using s by (auto simp: takesPart_def sits_def)
qed

definition blindsPosted :: "Table \<Rightarrow> Table \<Rightarrow> bool" where
  "blindsPosted t u \<longleftrightarrow>
     (\<exists>s1 s2 p q v. acted t s1 p (postBlind (small_blind (config t)) p) v \<and>
        acted v s2 q (postBlind (big_blind (config t)) q) u)"

lemma postBlinds_ok:
  assumes "betting_ok t" "dealer_seat t = Some o1" "pending_action t = {}" "acting_seat t = None" "current_bet t = 0"
  shows "\<exists>s u. postBlinds participants o1 t = Inr (s, u) \<and> betting_ok u \<and> blindsPosted t u \<and>
    dealer_seat u = Some o1 \<and> pending_action u = {} \<and> acting_seat u = None \<and> street u = street t"
proof -
  note ok = betting_okD [OF assms(1)]
  let ?b1 = "small_blind (config t)" and ?b2 = "big_blind (config t)"
  have pos: "0 \<le> ?b1" "0 \<le> ?b2" using seats_okD(3,4) [OF ok(1)] by auto
  obtain p0 where p0: "sits t o1 p0" "status p0 \<noteq> status_waiting"
    using ok(7) assms(2) by (auto simp: dealer_ok_def)
  obtain s1 p where s1: "(if length participants > 2 then nextParticipatingSeat t o1 else Some o1) = Some s1"
    "sits t s1 p" "status p \<noteq> status_waiting"
    using nextParticipatingSeat_sits [OF ok(1) p0, of o1] p0 by (cases "length participants > 2") auto
  obtain s2 q0 where s2: "nextParticipatingSeat t s1 = Some s2" "sits t s2 q0" "status q0 \<noteq> status_waiting"
    using nextParticipatingSeat_sits [OF ok(1) p0, of s1] by blast
  let ?p = "postBlind ?b1 p"
  let ?v = "(setSeat s1 ?p t)\<lparr>current_bet := max (current_bet t) (street_commitment ?p)\<rparr>"
  have v: "betting_ok ?v" by (rule blind_betting_ok [OF assms(1) s1(2,3) pos(1) assms(3)])
  have act1: "acted t s1 p ?p ?v" using acted_postBlind [OF ok(1) s1(2,3) pos(1)] by simp
  define q where "q = (if s2 = s1 then ?p else q0)"
  have q: "sits ?v s2 q" "status q \<noteq> status_waiting"
    using acted_sits [OF act1, of s2 q] s2(2,3) act1 by (auto simp: q_def acted_def)
  let ?q = "postBlind ?b2 q"
  let ?u = "(setSeat s2 ?q ?v)\<lparr>current_bet := max (current_bet ?v) (street_commitment ?q)\<rparr>"
  have u: "betting_ok ?u"
    by (rule blind_betting_ok [OF v q]) (use pos assms(3) in simp_all)
  have act2: "acted ?v s2 q ?q ?u"
    using acted_postBlind [OF betting_okD(1) [OF v] q] pos(2) by simp
  have len: "s1 < length (seats t)" "s2 < length (seats t)" using s1(2) s2(2) by (auto dest: sits_less)
  have mono: "street_commitment q \<le> street_commitment ?q"
    by (rule postBlind_result(7) [OF seats_ok_player [OF betting_okD(1) [OF v] q(1)] pos(2)])
  have nonneg: "0 \<le> street_commitment ?p"
    using postBlind_result(1) [OF seats_ok_player [OF ok(1) s1(2)] pos(1)] by (simp add: player_ok_def)
  have t1: "postBlindAt s1 ?b1 t = Inr (setSeat s1 ?p t)"
    using s1(2) by (simp add: postBlindAt_def setSeat_def sits_def)
  have seat_q: "seats (setSeat s1 ?p t) ! s2 = Some q" using q(1) by (simp add: sits_def)
  then have t2: "postBlindAt s2 ?b2 (setSeat s1 ?p t) = Inr (setSeat s2 ?q (setSeat s1 ?p t))"
    by (simp add: postBlindAt_def setSeat_def)
  have bet: "max (commitmentAt (setSeat s2 ?q (setSeat s1 ?p t)) s1) (commitmentAt (setSeat s2 ?q (setSeat s1 ?p t)) s2)
      = max (current_bet ?v) (street_commitment ?q)"
    using len mono nonneg assms(5)
    by (cases "s1 = s2") (auto simp: commitmentAt_def setSeat_def q_def)
  have "postBlinds participants o1 t = Inr (s2, ?u)"
    unfolding postBlinds_def s1(1)
    using s2(1) t1 t2 bet by (simp add: setSeat_def)
  moreover have "blindsPosted t ?u" unfolding blindsPosted_def using act1 act2 by blast
  ultimately show ?thesis using u assms by auto
qed

section \<open>What each player owns\<close>

text \<open>A player's id and the chips in front of him and in the pot.\<close>

definition worth :: "Player \<Rightarrow> PlayerId \<times> Chips" where
  "worth p = (pid p, stack p + hand_commitment p)"

definition worths :: "Table \<Rightarrow> (PlayerId \<times> Chips) option list" where
  "worths t = map (map_option worth) (seats t)"

lemma acted_seats: "acted t s p p' u \<Longrightarrow> seats u = seats (setSeat s p' t)"
  by (simp add: acted_def setSeat_def)

lemma acted_worths: "acted t s p p' u \<Longrightarrow> worths u = worths t"
proof -
  assume acted: "acted t s p p' u"
  then have "worth p' = worth p" "s < length (seats t)" "seats t ! s = Some p"
    by (auto simp: acted_def worth_def sits_def)
  then have "(map (map_option worth) (seats t))[s := Some (worth p')] = map (map_option worth) (seats t)"
    by (simp add: list_update_same_conv)
  then show ?thesis using acted by (simp add: acted_def worths_def map_update)
qed

lemma same_core_worths: "same_core t u \<Longrightarrow> worths u = worths t"
proof -
  assume "same_core t u"
  then have "map (map_option worth) (map (map_option core) (seats u)) = map (map_option worth) (map (map_option core) (seats t))"
    by (simp add: same_core_def)
  moreover have "map_option worth (map_option core x) = map_option worth x" for x
    by (cases x) (simp_all add: worth_def)
  ultimately show ?thesis by (simp add: worths_def comp_def)
qed

lemma worths_cong: "seats u = seats t \<Longrightarrow> worths u = worths t"
  by (simp add: worths_def)

lemma worths_dealtTwo: "worths (dealtTwo is d t) = worths t"
  unfolding worths_def by (rule dealtTwo_map) (simp add: worth_def)

lemma worths_begin: "worths (beginHand d t) = map (map_option (\<lambda>p. (pid p, stack p))) (seats t)"
proof -
  have "map_option worth (map_option resetForHand x) = map_option (\<lambda>p. (pid p, stack p)) x" for x
    by (cases x) (simp_all add: worth_def)
  then show ?thesis by (simp add: worths_def beginHand_def mapPlayers_def)
qed

lemma blindsPosted_worths: "blindsPosted t u \<Longrightarrow> worths u = worths t"
  unfolding blindsPosted_def using acted_worths by metis

section \<open>Counting the players in the hand\<close>

definition no_folds :: "Table \<Rightarrow> bool" where
  "no_folds t \<longleftrightarrow> (\<forall>i p. sits t i p \<longrightarrow> status p \<noteq> folded)"

lemma no_folds_contender:
  "seats_ok t \<Longrightarrow> no_folds t \<Longrightarrow> sits t i p \<Longrightarrow> status p \<noteq> status_waiting \<Longrightarrow> isContender p"
  using seats_ok_player [of t i p] by (cases "status p") (auto simp: no_folds_def isContender_def player_ok_def)

lemma acted_contenders:
  assumes "acted t s p p' u" "isContender p' = isContender p"
  shows "contenders u = contenders t"
proof -
  have "sits t s p" using assms(1) by (simp add: acted_def)
  from count_setSeat [OF this, of isContender p'] assms(2)
  show ?thesis unfolding contenders_def acted_seats [OF assms(1)] by simp
qed

lemma blind_contenders:
  assumes "acted t s p (postBlind b p) u" "seats_ok t" "no_folds t" "0 \<le> b"
  shows "contenders u = contenders t \<and> no_folds u"
proof -
  have p: "sits t s p" "status p \<noteq> status_waiting" using assms(1) by (auto simp: acted_def)
  have cont: "isContender p" by (rule no_folds_contender [OF assms(2,3) p])
  note status = postBlind_result(10) [OF seats_ok_player [OF assms(2) p(1)] assms(4)]
  have "isContender (postBlind b p)" using cont status by (auto simp: isContender_def)
  then have "contenders u = contenders t" using acted_contenders [OF assms(1)] cont by simp
  moreover have "status (postBlind b p) \<noteq> folded" using status assms(3) p(1) by (auto simp: no_folds_def)
  ultimately show ?thesis using assms(3) acted_sits [OF assms(1)] by (auto simp: no_folds_def split: if_splits)
qed

lemma blindsPosted_contenders:
  assumes "blindsPosted t u" "seats_ok t" "no_folds t"
  shows "contenders u = contenders t \<and> no_folds u"
proof -
  obtain s1 s2 p q v where v: "acted t s1 p (postBlind (small_blind (config t)) p) v"
    and u: "acted v s2 q (postBlind (big_blind (config t)) q) u"
    using assms(1) by (auto simp: blindsPosted_def)
  have pos: "0 \<le> small_blind (config t)" "0 \<le> big_blind (config t)" using seats_okD(3,4) [OF assms(2)] by auto
  have "contenders v = contenders t \<and> no_folds v" by (rule blind_contenders [OF v assms(2,3) pos(1)])
  moreover have "seats_ok v" by (rule acted_seats_ok [OF v assms(2)])
  ultimately show ?thesis using blind_contenders [OF u _ _ pos(2)] by simp
qed

lemma dealtTwo_statuses: "map status (players (dealtTwo is d t)) = map status (players t)"
proof -
  have "occupants (map (map_option status) (seats (dealtTwo is d t))) = occupants (map (map_option status) (seats t))"
    by (subst dealtTwo_map) simp_all
  then show ?thesis by (simp only: occupants_map)
qed

lemma dealtTwo_contenders:
  assumes "fresh_hand d0 t"
  shows "contenders (dealtTwo is d t) = length (participatingSeats t)" "no_folds (dealtTwo is d t)"
proof -
  let ?Q = "\<lambda>s. s = active \<or> s = status_all_in \<or> s = disconnected"
  have count: "length (filter (\<lambda>p. P (status p)) ps) = length (filter P (map status ps))" for P ps
    by (simp add: filter_map comp_def)
  have st: "\<forall>s \<in> set (map status (players t)). s = active \<or> s = status_waiting"
  proof
    fix s assume "s \<in> set (map status (players t))"
    then obtain i p where "sits t i p" "s = status p" by (auto simp: in_players)
    then show "s = active \<or> s = status_waiting" using assms unfolding fresh_hand_def by blast
  qed
  have "contenders (dealtTwo is d t) = length (filter ?Q (map status (players t)))"
    unfolding contenders_def isContender_def
    using count [of ?Q "players (dealtTwo is d t)"] by (simp only: dealtTwo_statuses)
  also have "filter ?Q (map status (players t)) = filter (\<lambda>s. s = active) (map status (players t))"
    using st by (intro filter_cong) auto
  finally show "contenders (dealtTwo is d t) = length (participatingSeats t)"
    unfolding participatingSeats_length count [of "\<lambda>s. s = active"] .
  show "no_folds (dealtTwo is d t)"
    unfolding no_folds_def
  proof (intro allI impI)
    fix i p assume "sits (dealtTwo is d t) i p"
    then have "p \<in> set (players (dealtTwo is d t))" unfolding in_players by blast
    then have "status p \<in> set (map status (players (dealtTwo is d t)))" by simp
    then show "status p \<noteq> folded" using st unfolding dealtTwo_statuses by auto
  qed
qed

section \<open>Starting a hand\<close>

text \<open>The state in which nobody can act although the betting round is not complete.\<close>

definition stuck :: "Table \<Rightarrow> bool" where
  "stuck t \<longleftrightarrow> betting_ok t \<and> street t = preflop \<and> 2 \<le> contenders t \<and> actionable t = 1 \<and>
     acting_seat t = None \<and> pending_action t = {} \<and>
     (\<exists>i p. sits t i p \<and> canAct p \<and> street_commitment p < current_bet t)"

lemma openBetting_simps [simp]:
  "seats (openBetting ps t) = seats t" "config (openBetting ps t) = config t"
  "street (openBetting ps t) = street t" "dealer_seat (openBetting ps t) = dealer_seat t"
  "acting_seat (openBetting ps t) = acting_seat t" "current_bet (openBetting ps t) = current_bet t"
  "minimum_raise (openBetting ps t) = minimum_raise t" "board (openBetting ps t) = board t"
  "deck (openBetting ps t) = deck t"
  by (simp_all add: openBetting_def Let_def)

lemma betting_ok_pending:
  assumes "betting_ok t" "pending_ok (t\<lparr>pending_action := a, raise_allowed := b\<rparr>)"
  shows "betting_ok (t\<lparr>pending_action := a, raise_allowed := b\<rparr>)"
  using assms by (simp add: betting_ok_def dealer_ok_def bettor_ok_def cards_ok_def board_ok_def holes_ok_def bet_held_def)

lemma openBetting_ok:
  assumes "betting_ok t" "pending_action t = {}" "\<forall>i p. sits t i p \<and> canAct p \<longrightarrow> i \<in> set participants"
    "\<forall>i \<in> set participants. i < length (seats t)"
  shows "betting_ok (openBetting participants t)"
    "\<And>i p. sits t i p \<Longrightarrow> canAct p \<Longrightarrow> pid p \<in> pending_action (openBetting participants t)"
proof -
  let ?ids = "set (map pid (filter canAct (occupants (map (nth (seats t)) participants))))"
  have ids: "x \<in> ?ids \<longleftrightarrow> (\<exists>i p. sits t i p \<and> canAct p \<and> pid p = x)" for x
    using assms(3,4) by (force simp: set_occupants sits_def)
  have pend: "pending_action (openBetting participants t) = ?ids"
    using assms(2) by (simp add: openBetting_def Let_def)
  have "pending_ok (t\<lparr>pending_action := ?ids, raise_allowed := b\<rparr>)" for b
    unfolding pending_ok_def using ids by simp
  from betting_ok_pending [OF assms(1) this]
  show "betting_ok (openBetting participants t)" using assms(2) by (simp add: openBetting_def Let_def)
  show "pid p \<in> pending_action (openBetting participants t)" if "sits t i p" "canAct p" for i p
    unfolding pend using ids that by blast
qed

lemma setInitialActor_shape:
  "\<exists>x. setInitialActor s n t = t\<lparr>acting_seat := x\<rparr> \<and>
     ((\<exists>i p. sits t i p \<and> canAct p \<and> pid p \<in> pending_action t) \<and> seats_ok t \<longrightarrow> actor_ready (t\<lparr>acting_seat := x\<rparr>))"
proof (cases "dealer_seat t")
  case None
  then show ?thesis using nextCanActSeat_ready by (fastforce simp: setInitialActor_def)
next
  case (Some d)
  show ?thesis
  proof (cases "n = 2 \<and> (case seats t ! d of None \<Rightarrow> False | Some p \<Rightarrow> canAct p \<and> pid p \<in> pending_action t)")
    case True
    have "actor_ready (t\<lparr>acting_seat := Some d\<rparr>)" if "seats_ok t"
      using True Some that by (auto simp: actor_ready_def sits_def seats_ok_def split: option.splits)
    then show ?thesis using True Some by (auto simp: setInitialActor_def intro!: exI [of _ "Some d"])
  next
    case False
    then have "\<exists>from. setInitialActor s n t = t\<lparr>acting_seat := nextCanActSeat t from\<rparr>"
      using Some by (auto simp: setInitialActor_def)
    then show ?thesis using nextCanActSeat_ready by blast
  qed
qed

lemma chooseDealer_ok:
  assumes "fresh_hand d t" "participants = participatingSeats t" "participants \<noteq> []"
  shows "\<exists>o1 p. chooseDealer participants t = t\<lparr>dealer_seat := Some o1\<rparr> \<and> sits t o1 p \<and> status p \<noteq> status_waiting"
proof -
  have first: "\<exists>p. sits t (hd participants) p \<and> status p \<noteq> status_waiting"
    using assms(2,3) participatingSeats_set [of "hd participants" t] by auto
  then obtain p where p: "sits t (hd participants) p" "status p \<noteq> status_waiting" by blast
  have ok: "seats_ok t" using assms(1) by (simp add: fresh_hand_def)
  show ?thesis
  proof (cases "dealer_seat t")
    case None
    then show ?thesis using first by (auto simp: chooseDealer_def)
  next
    case (Some o0)
    obtain s q where "nextParticipatingSeat t o0 = Some s" "sits t s q" "status q \<noteq> status_waiting"
      using nextParticipatingSeat_sits [OF ok p] by blast
    then show ?thesis using Some by (auto simp: chooseDealer_def)
  qed
qed

lemma fresh_hand_dealer:
  "fresh_hand d t \<Longrightarrow> sits t o1 p \<Longrightarrow> fresh_hand d (t\<lparr>dealer_seat := Some o1\<rparr>)"
  using seats_ok_dealer [of t o1] by (auto simp: fresh_hand_def dest: sits_less)

lemma participatingSeats_dealer [simp]: "participatingSeats (t\<lparr>dealer_seat := x\<rparr>) = participatingSeats t"
  by (simp add: participatingSeats_def cong: option.case_cong)

lemma acted_status_active:
  assumes "acted t s p (postBlind b p) u" "sits u i q" "status q = active" "seats_ok t" "0 \<le> b"
  shows "\<exists>r. sits t i r \<and> status r = active"
proof (cases "i = s")
  case True
  have p: "sits t s p" using assms(1) by (simp add: acted_def)
  then have "status p = active"
    using assms True acted_sits [OF assms(1)] postBlind_result(10) [OF seats_ok_player [OF assms(4) p] assms(5)]
    by (auto split: if_splits)
  then show ?thesis using p True by blast
next
  case False
  then show ?thesis using assms acted_sits [OF assms(1)] by auto
qed

lemma blindsPosted_active:
  assumes "blindsPosted t u" "sits u i q" "status q = active" "seats_ok t"
  shows "\<exists>r. sits t i r \<and> status r = active"
proof -
  obtain s1 s2 p r v where v: "acted t s1 p (postBlind (small_blind (config t)) p) v"
    and u: "acted v s2 r (postBlind (big_blind (config t)) r) u"
    using assms(1) by (auto simp: blindsPosted_def)
  have pos: "0 \<le> small_blind (config t)" "0 \<le> big_blind (config t)" using seats_okD(3,4) [OF assms(4)] by auto
  obtain r' where "sits v i r'" "status r' = active"
    using acted_status_active [OF u assms(2,3) acted_seats_ok [OF v assms(4)] pos(2)] by blast
  then show ?thesis using acted_status_active [OF v _ _ assms(4) pos(1)] by blast
qed

lemma blindsPosted_frame:
  "blindsPosted t u \<Longrightarrow> length (seats u) = length (seats t) \<and> config u = config t"
  by (auto simp: blindsPosted_def acted_def)

lemma dealtTwo_active:
  assumes "sits (dealtTwo is d t) i p"
  shows "\<exists>q. sits t i q \<and> status q = status p"
proof -
  have "map (map_option status) (seats (dealtTwo is d t)) ! i = map (map_option status) (seats t) ! i"
    by (subst dealtTwo_map) simp_all
  moreover have "length (seats (dealtTwo is d t)) = length (seats t)" by (simp add: dealtTwo_def dealt_def)
  ultimately show ?thesis using assms by (cases "seats t ! i") (auto simp: sits_def)
qed

text \<open>From the reset table to the table that waits for its first actor.\<close>

lemma openHand_ok:
  assumes "fresh_hand d t1" "participants = participatingSeats t1" "participants \<noteq> []"
  shows "\<exists>o1 t3 s t4 t5. dealHoleCards participants (chooseDealer participants t1) = Inr t3 \<and>
    dealer_seat t3 = Some o1 \<and> postBlinds participants o1 t3 = Inr (s, t4) \<and>
    setInitialActor s (length participants) (openBetting participants t4) = t5 \<and>
    betting_ok t5 \<and> called_ok t5 \<and> contenders t5 = length participants \<and> worths t5 = worths t1 \<and>
    street t5 = preflop \<and> config t5 = config t1 \<and> no_folds t5 \<and>
    (\<forall>i p. sits t5 i p \<and> canAct p \<longrightarrow> actor_ready t5)"
proof -
  obtain o1 p1 where o1: "chooseDealer participants t1 = t1\<lparr>dealer_seat := Some o1\<rparr>" "sits t1 o1 p1"
    "status p1 \<noteq> status_waiting" using chooseDealer_ok [OF assms] by blast
  let ?t2 = "t1\<lparr>dealer_seat := Some o1\<rparr>"
  have fresh: "fresh_hand d ?t2" by (rule fresh_hand_dealer [OF assms(1) o1(2)])
  then have t2: "seats_ok ?t2" "deck ?t2 = Some d" "fullDeck d" "deck_next d = 0" "pending_action ?t2 = {}"
    "acting_seat ?t2 = None" "current_bet ?t2 = 0" "street ?t2 = preflop" by (auto simp: fresh_hand_def)
  let ?t3 = "dealtTwo (seatOrder ?t2 o1) d ?t2"
  have parts: "participatingSeats ?t2 = participants" using assms(2) by simp
  have deal: "dealHoleCards participants ?t2 = Inr ?t3" "seats_ok ?t3"
    using dealHoleCards_ok [OF t2(1) fresh_hand_statuses [OF fresh] _ t2(2-4)] assms(3) parts by auto
  have t3: "betting_ok ?t3" using dealt_betting_ok [OF fresh, of o1 p1] o1(2,3) by simp
  obtain s t4 where t4: "postBlinds participants o1 ?t3 = Inr (s, t4)" "betting_ok t4" "blindsPosted ?t3 t4"
    "pending_action t4 = {}" "acting_seat t4 = None" "street t4 = preflop"
    using postBlinds_ok [OF t3, of o1 participants] t2(5-8) by auto
  have active: "i \<in> set participants" if sp: "sits t4 i p" "canAct p" for i p
  proof -
    have "status p = active" using sp(2) by (simp add: canAct_def)
    then obtain q where "sits ?t3 i q" "status q = active"
      using blindsPosted_active [OF t4(3) sp(1) _ deal(2)] by blast
    then obtain r where "sits ?t2 i r" "status r = active" using dealtTwo_active by metis
    then show ?thesis using participatingSeats_set [of i ?t2] parts by auto
  qed
  have len: "length (seats t4) = length (seats t1)" "config t4 = config t1"
    using blindsPosted_frame [OF t4(3)] by (simp_all add: dealtTwo_def dealt_def)
  then have range: "\<forall>i \<in> set participants. i < length (seats t4)"
    unfolding assms(2) by (simp add: participatingSeats_def)
  have "\<forall>i p. sits t4 i p \<and> canAct p \<longrightarrow> i \<in> set participants" using active by blast
  note open' = openBetting_ok [OF t4(2,4) this range]
  let ?o = "openBetting participants t4"
  have sits_o: "sits ?o = sits t4" by (rule sits_cong) simp
  obtain x where x: "setInitialActor s (length participants) ?o = ?o\<lparr>acting_seat := x\<rparr>"
    "(\<exists>i p. sits ?o i p \<and> canAct p \<and> pid p \<in> pending_action ?o) \<and> seats_ok ?o \<longrightarrow> actor_ready (?o\<lparr>acting_seat := x\<rparr>)"
    using setInitialActor_shape by blast
  let ?t5 = "?o\<lparr>acting_seat := x\<rparr>"
  have "betting_ok ?t5" using open'(1) by simp
  moreover have "called_ok ?t5" using open'(2) by (auto simp: called_ok_def sits_o)
  moreover have "contenders ?t5 = length participants"
    using blindsPosted_contenders [OF t4(3) deal(2) dealtTwo_contenders(2) [OF fresh]]
      dealtTwo_contenders(1) [OF fresh] parts by (simp add: contenders_def)
  moreover have "no_folds ?t5"
    using blindsPosted_contenders [OF t4(3) deal(2) dealtTwo_contenders(2) [OF fresh]]
    by (simp add: no_folds_def sits_o)
  moreover have "worths ?t5 = worths t1"
  proof -
    have "worths ?t5 = worths t4" by (rule worths_cong) simp
    also have "\<dots> = worths ?t2" using blindsPosted_worths [OF t4(3)] worths_dealtTwo by simp
    also have "\<dots> = worths t1" by (rule worths_cong) simp
    finally show ?thesis .
  qed
  moreover have "actor_ready ?t5" if "sits ?t5 i p" "canAct p" for i p
    using x(2) open' that betting_okD(1) [OF open'(1)] unfolding sits_record sits_o by blast
  ultimately show ?thesis using o1(1) deal(1) t4(1,6) x(1) len(2) by auto
qed

lemma incompleteI:
  assumes "sits t i p" "canAct p" "street_commitment p \<noteq> current_bet t" "2 \<le> contenders t"
  shows "\<not> bettingRoundComplete t"
proof -
  have "p \<in> set (players t)" using assms(1) unfolding in_players by blast
  then show ?thesis using assms(2-4) unfolding bettingRoundComplete_def list_all_iff by auto
qed

lemma actionable_pos: "sits t i p \<Longrightarrow> canAct p \<Longrightarrow> 0 < actionable t"
proof -
  assume "sits t i p" "canAct p"
  then have "p \<in> set (filter canAct (players t))" using in_players [of p t] by auto
  then show ?thesis unfolding actionable_def by (rule length_pos_if_in_set)
qed

text \<open>Every way \<open>startHand\<close> can return: the table as it was with an error, or a hand under way.\<close>

theorem startHand_ok:
  assumes "seats_ok t" "fullDeck d" "deck_next d = 0"
  shows "\<exists>e t'. startHand d t = Inr (e, t') \<and>
    (e \<noteq> ok \<and> t' = t \<or>
     e = ok \<and> \<not> handIsRunning (street t) \<and>
     (\<exists>u. worths u = map (map_option (\<lambda>p. (pid p, stack p))) (seats t) \<and> config u = config t \<and>
        2 \<le> contenders u \<and> betting_ok u \<and> no_folds u \<and> (hand_step u t' \<or> stuck t' \<and> same_core u t')))"
proof (cases "handIsRunning (street t) \<or>
    length (filter (\<lambda>p. ready p \<and> stack p > 0) (players t)) < min_players (config t)")
  case True
  then show ?thesis using assms(1) by (auto simp: startHand_def seats_ok_def)
next
  case False
  let ?t1 = "beginHand d t" and ?ps = "participatingSeats (beginHand d t)"
  have many: "min_players (config t) \<le> length ?ps" using False participants_count [of d t] by simp
  then have two: "2 \<le> length ?ps" using seats_okD(5) [OF assms(1)] by linarith
  then have ne: "?ps \<noteq> []" by auto
  obtain o1 t3 s t4 t5 where
    deal: "dealHoleCards ?ps (chooseDealer ?ps ?t1) = Inr t3" "dealer_seat t3 = Some o1"
      "postBlinds ?ps o1 t3 = Inr (s, t4)" "setInitialActor s (length ?ps) (openBetting ?ps t4) = t5"
    and t5: "betting_ok t5" "called_ok t5" "contenders t5 = length ?ps" "worths t5 = worths ?t1"
      "street t5 = preflop" "config t5 = config ?t1" "no_folds t5"
      "\<forall>i p. sits t5 i p \<and> canAct p \<longrightarrow> actor_ready t5"
    using openHand_ok [OF fresh_begin [OF assms] refl ne] by blast
  have run: "startHand d t =
      (if actionable t5 \<le> 1
       then bind_result (advanceUntilActionOrSettlement (t5\<lparr>pending_action := {}, acting_seat := None\<rparr>)) (\<lambda>t6. Inr (ok, t6))
       else Inr (ok, t5))"
    using False many deal assms(1) by (simp add: startHand_def Let_def seats_ok_def)
  have worths5: "worths t5 = map (map_option (\<lambda>p. (pid p, stack p))) (seats t)"
    using t5(4) worths_begin by simp
  have "\<exists>u t'. startHand d t = Inr (ok, t') \<and> worths u = worths t5 \<and> config u = config t \<and> 2 \<le> contenders u \<and>
      betting_ok u \<and> no_folds u \<and> (hand_step u t' \<or> stuck t' \<and> same_core u t')"
  proof (cases "actionable t5 \<le> 1")
    case False
    then obtain i p where "sits t5 i p" "canAct p" using actionable_ex [of t5] by auto
    then have "hand_open t5" using t5 two by (auto simp: hand_open_def)
    then have "hand_step t5 t5" using same_core_refl by (auto simp: hand_step_def round_end_def onwards_def)
    moreover have "config t5 = config t" "2 \<le> contenders t5" using t5(3,6) two by simp_all
    ultimately show ?thesis using run False t5(1,7) by auto
  next
    case True
    let ?v = "t5\<lparr>pending_action := {}, acting_seat := None\<rparr>"
    have v: "betting_ok ?v" "2 \<le> contenders ?v" "same_core t5 ?v"
      using betting_ok_clear [OF t5(1)] t5(3) two by (auto intro: same_core_cong)
    have v': "worths ?v = worths t5" "config ?v = config t" "no_folds ?v"
      using t5(6,7) worths_cong [of ?v t5] by (simp_all add: no_folds_def)
    have "\<exists>t'. advanceUntilActionOrSettlement ?v = Inr t' \<and> (hand_step ?v t' \<or> stuck t' \<and> same_core ?v t')"
    proof (cases "called_ok ?v")
      case called: True
      have "1 \<le> contenders ?v" "acting_seat ?v = None" using v(2) by simp_all
      then show ?thesis using advance_ok [OF v(1) called] by blast
    next
      case False
      then obtain i p where p: "sits ?v i p" "canAct p" "street_commitment p \<noteq> current_bet ?v"
        by (auto simp: called_ok_def)
      then have lt: "street_commitment p < current_bet ?v"
        using betting_okD(5) [OF v(1) p(1)] by (simp add: bettor_ok_def)
      have "\<not> bettingRoundComplete ?v" by (rule incompleteI [OF p v(2)])
      moreover have "nextCanActSeat ?v x = None" for x
        by (cases "nextCanActSeat ?v x") (auto dest: nextCanActSeat_SomeD)
      moreover have "dealer_seat ?v \<noteq> None" using betting_okD(7) [OF v(1)] by (auto simp: dealer_ok_def)
      ultimately have "advanceUntilActionOrSettlement ?v = Inr ?v"
        using v(2) t5(5) by (simp add: advanceUntilActionOrSettlement.simps [of ?v])
      moreover have "stuck ?v"
      proof -
        have "actionable ?v = actionable t5" by (simp add: actionable_def)
        moreover have "0 < actionable ?v" by (rule actionable_pos [OF p(1,2)])
        ultimately have "actionable ?v = 1" using True by linarith
        moreover have "street ?v = preflop" "acting_seat ?v = None" "pending_action ?v = {}" using t5(5) by simp_all
        ultimately show ?thesis unfolding stuck_def using v(1,2) p(1,2) lt by blast
      qed
      ultimately show ?thesis using same_core_refl by blast
    qed
    then obtain t' where "advanceUntilActionOrSettlement ?v = Inr t'" "hand_step ?v t' \<or> stuck t' \<and> same_core ?v t'"
      by blast
    moreover have "startHand d t = Inr (ok, t')" using run True calculation(1) by simp
    ultimately show ?thesis using v(1,2) v' by blast
  qed
  moreover have "\<not> handIsRunning (street t)" using False by simp
  ultimately show ?thesis using worths5 by metis
qed

end
