(* ===== verification/Table_Act.thy ===== *)
theory Table_Act
  imports Table_Start
begin

text \<open>
  \<open>Table::act\<close> as a whole, the operations on seats, \<open>abortHand\<close>, and the invariant \<open>table_inv\<close> of every
  table that the public operations can produce. \<open>table_step\<close> is one successful call of a public
  operation, \<open>reachable\<close> its closure from a new table.
\<close>

section \<open>Acting\<close>

lemma applyAction_error: "applyAction s p a amt t = Inl (e, msg) \<Longrightarrow> e \<noteq> ok"
  by (cases a) (auto simp: Let_def split: if_splits)

text \<open>The effect of an accepted command: the acting player changes from \<open>p\<close> to \<open>p'\<close>, which gives the
  table \<open>u\<close>, and the hand moves on from there.\<close>

definition action_step :: "ActionCommand \<Rightarrow> Table \<Rightarrow> nat \<Rightarrow> Player \<Rightarrow> Player \<Rightarrow> Table \<Rightarrow> Table \<Rightarrow> bool" where
  "action_step cmd t s p p' u t' \<longleftrightarrow> acting_seat t = Some s \<and> pid p = player_id cmd \<and> canAct p \<and>
     pid p \<in> pending_action t \<and> moved t s p p' u \<and> 1 \<le> contenders u \<and> hand_step u t'"

lemma acted_contenders_ge:
  assumes "acted t s p p' u" "2 \<le> contenders t"
  shows "1 \<le> contenders u"
proof -
  have "sits t s p" using assms(1) by (simp add: acted_def)
  from count_setSeat [OF this, of isContender p']
  have "int (contenders t) - 1 \<le> int (contenders u)"
    unfolding contenders_def acted_seats [OF assms(1)] by simp
  then show ?thesis using assms(2) by linarith
qed

lemma afterAction_ok:
  assumes "betting_ok u" "called_ok u" "1 \<le> contenders u"
  shows "\<exists>t'. afterAction s u = Inr t' \<and> hand_step u t'"
proof -
  note ok = betting_okD [OF assms(1)]
  consider "contenders u \<le> 1" | "2 \<le> contenders u" "bettingRoundComplete u"
    | "2 \<le> contenders u" "\<not> bettingRoundComplete u" by linarith
  then show ?thesis
  proof cases
    case 1
    then show ?thesis
      using settleFoldWin_ok [OF ok(1) assms(3)] assms(3)
      by (auto simp: afterAction_def hand_step_def fold_end_def)
  next
    case 2
    let ?v = "u\<lparr>acting_seat := None\<rparr>"
    have "betting_ok ?v" "called_ok ?v" "1 \<le> contenders ?v" "acting_seat ?v = None"
      using assms by simp_all
    then obtain t' where t': "advanceUntilActionOrSettlement ?v = Inr t'" "hand_step ?v t'"
      using advance_ok by blast
    have "hand_step u t'" by (rule hand_step_core [OF _ t'(2) 2(1)]) (simp_all add: same_core_cong onwards_def)
    then show ?thesis using 2 t'(1) by (auto simp: afterAction_def)
  next
    case 3
    obtain i p where p: "sits u i p" "canAct p" "pid p \<in> pending_action u"
      using incomplete_pending [OF 3(2) assms(2)] by blast
    have "hand_open (selectNextActor s u)"
      using assms(1,2) 3(1) nextCanActSeat_ready [OF p] by (simp add: hand_open_def selectNextActor_def)
    moreover have "same_core u (selectNextActor s u)"
      by (rule same_core_cong) (simp_all add: selectNextActor_def)
    moreover have "onwards u (selectNextActor s u)" by (simp add: onwards_def selectNextActor_def)
    ultimately show ?thesis using 3 by (auto simp: afterAction_def hand_step_def round_end_def)
  qed
qed

theorem act_ok:
  assumes "hand_open t"
  shows "\<exists>r t'. act cmd t = Inr (r, t') \<and>
    (res_error r \<noteq> ok \<and> t' = t \<or>
     res_error r = ok \<and> (\<exists>s p p' u. action_step cmd t s p p' u t') \<and>
       res_awards r = (if street t' = settled then last_awards t' else []) \<and> res_action_street r = street t)"
proof -
  have inv: "betting_ok t" "called_ok t" "2 \<le> contenders t" using assms by (auto simp: hand_open_def)
  obtain s p where p: "acting_seat t = Some s" "sits t s p" "canAct p" "pid p \<in> pending_action t"
    using assms by (auto simp: hand_open_def actor_ready_def)
  have run: "handIsRunning (street t)" "street t \<noteq> showdown"
    using betting_okD(2) [OF inv(1)] by (auto simp: betStreet_def handIsRunning_def)
  have seat: "seats t ! s = Some p" using p(2) by (simp add: sits_def)
  show ?thesis
  proof (cases "pid p = player_id cmd")
    case False
    then show ?thesis using run p(1) seat by (simp add: act_def failResult_def)
  next
    case True
    show ?thesis
    proof (cases "applyAction s p (action_type cmd) (amount cmd) t")
      case (Inl em)
      obtain e msg where em: "em = (e, msg)" by (cases em)
      have "e \<noteq> ok" using applyAction_error Inl em by blast
      then show ?thesis using run p seat True Inl em by (simp add: act_def failResult_def)
    next
      case (Inr t1)
      obtain p' where moved: "moved t s p p' t1" using applyAction_moved [OF inv(1,2) p(2-4) Inr] by blast
      let ?u = "bumpSequence t1"
      have u: "acted t s p p' ?u" "betting_ok ?u" "called_ok ?u" "moved t s p p' ?u"
        using moved by (simp_all add: moved_def) (simp_all add: bumpSequence_def)
      have one: "1 \<le> contenders ?u" by (rule acted_contenders_ge [OF u(1) inv(3)])
      obtain t' where t': "afterAction (seat p) ?u = Inr t'" "hand_step ?u t'"
        using afterAction_ok [OF u(2,3) one] by blast
      have "action_step cmd t s p p' ?u t'"
        unfolding action_step_def using p u one t'(2) True by simp
      then show ?thesis using run p seat True Inr t'(1) by (auto simp: act_def)
    qed
  qed
qed

text \<open>In a stuck hand every command is refused.\<close>

lemma act_stuck: "stuck t \<Longrightarrow> \<exists>r. act cmd t = Inr (r, t) \<and> res_error r = not_players_turn"
  by (simp add: stuck_def act_def handIsRunning_def failResult_def)

section \<open>Money\<close>

lemma players_settledTable:
  "players (settledTable u as) = map (\<lambda>p. (credit (awardsPayout as) p)\<lparr>ready := False\<rparr>) (players u)"
  by (simp add: settledTable_def players_markSettled)

lemma settledTable_same:
  "contenders (settledTable u as) = contenders u" "overCommitted (settledTable u as) = overCommitted u"
  "maxLive (settledTable u as) = maxLive u" "potSize (settledTable u as) = potSize u"
proof -
  let ?f = "\<lambda>p. (credit (awardsPayout as) p)\<lparr>ready := False\<rparr>"
  have elig: "isEligible (?f p) = isEligible p" "isContender (?f p) = isContender p" for p
    by (simp_all add: isEligible_def isContender_def)
  show "contenders (settledTable u as) = contenders u"
    by (simp add: contenders_def players_settledTable filter_map comp_def elig)
  show live: "maxLive (settledTable u as) = maxLive u"
    by (simp add: maxLive_def players_settledTable filter_map comp_def elig)
  show "overCommitted (settledTable u as) = overCommitted u"
    by (simp add: overCommitted_def live players_settledTable comp_def)
  show "potSize (settledTable u as) = potSize u"
    by (simp add: potSize_def players_settledTable comp_def)
qed

lemma settledTable_street [simp]: "street (settledTable u as) = settled"
  by (simp add: settledTable_def)

lemma settledTable_awards [simp]: "last_awards (settledTable u as) = as"
  by (simp add: settledTable_def)

definition unclaimed :: "Table \<Rightarrow> Chips" where
  "unclaimed t = (if street t = settled \<and> 2 \<le> contenders t then overCommitted t else 0)"

lemma hand_open_street: "hand_open t \<Longrightarrow> betStreet (street t)"
  by (simp add: hand_open_def betting_ok_def)

lemma betStreet_running: "betStreet s \<Longrightarrow> s \<noteq> settled \<and> s \<noteq> street_waiting \<and> s \<noteq> showdown \<and> handIsRunning s"
  by (auto simp: betStreet_def handIsRunning_def)

lemma total_same_core:
  assumes "same_core t u"
  shows "sum_list (map stack (players u)) + potSize u = sum_list (map stack (players t)) + potSize t"
  using same_core_sums [OF assms] by simp

lemma hand_step_total:
  assumes "hand_step u t'" "seats_ok u" "1 \<le> contenders u"
  shows "totalChips t' = sum_list (map stack (players u)) + potSize u - unclaimed t'"
proof -
  from assms(1) consider (fold_win) "fold_end u t'" | (showing) "showdown_end u t'" | (goes_on) "round_end u t'"
    by (auto simp: hand_step_def)
  then show ?thesis
  proof cases
    case fold_win
    then have "t' = settledTable u [foldAward u]" "contenders u = 1" by (auto simp: fold_end_def)
    then show ?thesis
      using total_settledTable [OF assms(2), of "[foldAward u]"] foldAward_ok [OF assms(2,3)]
      by (simp add: unclaimed_def settledTable_same foldAward_def)
  next
    case showing
    then obtain v where v: "same_core u v" "betting_ok v" "street v = river" "2 \<le> contenders v"
      "t' = settledTable v (showdownAwards v)" by (auto simp: showdown_end_def)
    have "totalChips t' = sum_list (map stack (players v)) + potSize v - overCommitted v"
      using total_settledTable [OF betting_okD(1) [OF v(2)]] settleShowdown_ok(2,3) [OF v(2,3)] v(5) by simp
    then show ?thesis
      using total_same_core [OF v(1)] v(4,5) by (simp add: unclaimed_def settledTable_same)
  next
    case goes_on
    then have "same_core u t'" "street t' \<noteq> settled"
      by (auto simp: round_end_def dest!: hand_open_street betStreet_running)
    then show ?thesis
      using total_same_core [of u t'] by (simp add: totalChips_running unclaimed_def)
  qed
qed

lemma worths_total:
  assumes "worths u = worths t"
  shows "sum_list (map stack (players u)) + potSize u = sum_list (map stack (players t)) + potSize t"
proof -
  have total: "sum_list (map stack (players t)) + potSize t = sum_list (map snd (occupants (worths t)))" for t
    by (simp add: worths_def occupants_map comp_def worth_def potSize_def sum_list_addf)
  show ?thesis unfolding total assms ..
qed

section \<open>Counting by seats\<close>

lemma count_seats: "length (filter Q (players t)) = card {i. \<exists>p. sits t i p \<and> Q p}"
proof -
  have "length (filter Q (occupants xs)) = card {i. i < length xs \<and> (\<exists>p. xs ! i = Some p \<and> Q p)}" for xs :: "Player option list"
  proof (induction xs rule: rev_induct)
    case (snoc x xs)
    have "{i. i < length (xs @ [x]) \<and> (\<exists>p. (xs @ [x]) ! i = Some p \<and> Q p)} =
        {i. i < length xs \<and> (\<exists>p. xs ! i = Some p \<and> Q p)} \<union> (if \<exists>p. x = Some p \<and> Q p then {length xs} else {})"
      by (auto simp: nth_append less_Suc_eq split: if_splits)
    then show ?case using snoc by (cases x) (auto simp: occupants_append)
  qed simp
  then show ?thesis by (simp add: sits_def conj_assoc)
qed

section \<open>Changes that do not concern the hand\<close>

text \<open>Equal up to the flags \<open>ready\<close> and \<open>connected\<close>.\<close>

definition like :: "Player \<Rightarrow> Player \<Rightarrow> bool" where
  "like p q \<longleftrightarrow> pid p = pid q \<and> seat p = seat q \<and> stack p = stack q \<and> street_commitment p = street_commitment q \<and>
     hand_commitment p = hand_commitment q \<and> status p = status q \<and> hole p = hole q \<and> has_hole p = has_hole q"

lemma likeD:
  assumes "like p q"
  shows "pid p = pid q" "stack p = stack q" "street_commitment p = street_commitment q" "status p = status q"
    "hole p = hole q" "has_hole p = has_hole q" "canAct p = canAct q" "isContender p = isContender q"
    "bettor_ok t p = bettor_ok t q" "player_ok p = player_ok q"
  using assms by (simp_all add: like_def canAct_def isContender_def bettor_ok_def player_ok_def)

definition similar :: "Table \<Rightarrow> Table \<Rightarrow> bool" where
  "similar t u \<longleftrightarrow>
     (\<forall>i q. sits u i q \<longrightarrow> (\<exists>p. sits t i p \<and> like p q)) \<and>
     (\<forall>i p. sits t i p \<and> status p \<noteq> status_waiting \<longrightarrow> (\<exists>q. sits u i q \<and> like p q)) \<and>
     config u = config t \<and> street u = street t \<and> dealer_seat u = dealer_seat t \<and> acting_seat u = acting_seat t \<and>
     current_bet u = current_bet t \<and> minimum_raise u = minimum_raise t \<and> pending_action u = pending_action t \<and>
     board u = board t \<and> deck u = deck t"

lemma similar_back: "similar t u \<Longrightarrow> sits u i q \<Longrightarrow> \<exists>p. sits t i p \<and> like p q"
  by (auto simp: similar_def)

lemma similar_forth:
  "similar t u \<Longrightarrow> sits t i p \<Longrightarrow> status p \<noteq> status_waiting \<Longrightarrow> \<exists>q. sits u i q \<and> like p q"
  by (auto simp: similar_def)

lemma similar_count:
  assumes "similar t u" "\<And>p q. like p q \<Longrightarrow> Q p = Q q" "\<And>p. Q p \<Longrightarrow> status p \<noteq> status_waiting"
  shows "length (filter Q (players u)) = length (filter Q (players t))"
proof -
  have "{i. \<exists>p. sits u i p \<and> Q p} = {i. \<exists>p. sits t i p \<and> Q p}"
    using similar_back [OF assms(1)] similar_forth [OF assms(1)] assms(2,3) by (intro set_eqI) blast
  then show ?thesis by (simp add: count_seats)
qed

lemma canAct_not_waiting: "canAct p \<Longrightarrow> status p \<noteq> status_waiting"
  by (simp add: canAct_def)

lemma isContender_not_waiting: "isContender p \<Longrightarrow> status p \<noteq> status_waiting"
  by (auto simp: isContender_def)

lemma similar_contenders: "similar t u \<Longrightarrow> contenders u = contenders t"
  unfolding contenders_def using similar_count [of t u isContender] likeD(8) isContender_not_waiting by blast

lemma similar_actionable: "similar t u \<Longrightarrow> actionable u = actionable t"
  unfolding actionable_def using similar_count [of t u canAct] likeD(7) canAct_not_waiting by blast

lemma similar_holes:
  assumes "similar t u" "holes_ok t D"
  shows "holes_ok u D"
  unfolding holes_ok_def
proof (intro conjI allI impI; (elim conjE)?)
  have brd: "board u = board t" using assms(1) by (simp add: similar_def)
  fix i p assume "sits u i p" "has_hole p"
  then obtain q where "sits t i q" "has_hole q" "hole q = hole p"
    using similar_back [OF assms(1)] likeD(5,6) by metis
  then show "distinct (hole p)" "set (hole p) \<subseteq> D" "set (hole p) \<inter> set (board u) = {}"
    using assms(2) unfolding brd holes_ok_def by metis+
next
  fix i j p q assume *: "sits u i p" "sits u j q" "has_hole p" "has_hole q" "i \<noteq> j"
  obtain p' where "sits t i p'" "has_hole p'" "hole p' = hole p"
    using similar_back [OF assms(1) *(1)] likeD(5,6) *(3) by metis
  moreover obtain q' where "sits t j q'" "has_hole q'" "hole q' = hole q"
    using similar_back [OF assms(1) *(2)] likeD(5,6) *(4) by metis
  ultimately show "set (hole p) \<inter> set (hole q) = {}" using assms(2) *(5) unfolding holes_ok_def by metis
qed

lemma similar_betting_ok:
  assumes "similar t u" "betting_ok t" "seats_ok u"
  shows "betting_ok u"
proof -
  note ok = betting_okD [OF assms(2)]
  have bettors: "bettor_ok u q" if sq: "sits u i q" for i q
  proof -
    obtain p where "sits t i p" "like p q" using similar_back [OF assms(1) sq] by blast
    then have "bettor_ok t q" using ok(5) likeD(9) by blast
    then show ?thesis using assms(1) by (simp add: bettor_ok_def similar_def)
  qed
  moreover have "pending_ok u"
    unfolding pending_ok_def
  proof
    fix x assume "x \<in> pending_action u"
    then have "x \<in> pending_action t" using assms(1) by (simp add: similar_def)
    then obtain i p where "sits t i p" "canAct p" "pid p = x" using ok(6) by (auto simp: pending_ok_def)
    then show "\<exists>i p. sits u i p \<and> canAct p \<and> pid p = x"
      using similar_forth [OF assms(1)] canAct_not_waiting likeD(1,7) by metis
  qed
  moreover have "dealer_ok u"
    using ok(7) similar_forth [OF assms(1)] likeD(4) assms(1) unfolding dealer_ok_def similar_def by metis
  moreover have "bet_held u"
    unfolding bet_held_def
  proof (cases "current_bet u = 0")
    case False
    then obtain i p where p: "sits t i p" "street_commitment p = current_bet u"
      using ok(9) assms(1) by (auto simp: bet_held_def similar_def)
    have "status p \<noteq> status_waiting"
    proof
      assume "status p = status_waiting"
      then have "hand_commitment p = 0" using ok(5) [OF p(1)] by (simp add: bettor_ok_def)
      then show False using seats_ok_player [OF ok(1) p(1)] p(2) False by (simp add: player_ok_def)
    qed
    then obtain q where "sits u i q" "like p q" using similar_forth [OF assms(1) p(1)] by blast
    then show "current_bet u = 0 \<or> (\<exists>i p. sits u i p \<and> street_commitment p = current_bet u)"
      using p(2) likeD(3) by metis
  qed simp
  moreover have "cards_ok u"
  proof -
    have "board u = board t" "deck u = deck t" "street u = street t" using assms(1) by (auto simp: similar_def)
    then show ?thesis using ok(8) similar_holes [OF assms(1)] by (auto simp: cards_ok_def board_ok_def)
  qed
  ultimately show ?thesis using assms ok(2-4) by (auto simp: betting_ok_def similar_def)
qed

lemma similar_actor:
  assumes "similar t u" "actor_ready t"
  shows "actor_ready u"
proof -
  obtain s p where p: "acting_seat t = Some s" "sits t s p" "canAct p" "pid p \<in> pending_action t"
    using assms(2) by (auto simp: actor_ready_def)
  then obtain q where "sits u s q" "like p q"
    using similar_forth [OF assms(1)] canAct_not_waiting by blast
  then show ?thesis using p likeD(1,7) assms(1) unfolding actor_ready_def similar_def by metis
qed

lemma similar_called:
  assumes "similar t u" "called_ok t"
  shows "called_ok u"
  unfolding called_ok_def
proof (intro allI impI)
  fix i q assume *: "sits u i q \<and> canAct q \<and> pid q \<notin> pending_action u"
  then obtain p where "sits t i p" "like p q" using similar_back [OF assms(1)] by blast
  then show "street_commitment q = current_bet u"
    using * assms likeD(1,3,7) [of p q] by (auto simp: called_ok_def similar_def)
qed

lemma similar_hand_open: "similar t u \<Longrightarrow> seats_ok u \<Longrightarrow> hand_open t \<Longrightarrow> hand_open u"
  using similar_betting_ok similar_called similar_actor similar_contenders by (auto simp: hand_open_def)

lemma similar_stuck:
  assumes "similar t u" "seats_ok u" "stuck t"
  shows "stuck u"
proof -
  obtain i p where p: "sits t i p" "canAct p" "street_commitment p < current_bet t"
    using assms(3) by (auto simp: stuck_def)
  then obtain q where "sits u i q" "like p q" using similar_forth [OF assms(1)] canAct_not_waiting by blast
  then have "\<exists>i q. sits u i q \<and> canAct q \<and> street_commitment q < current_bet u"
    using p likeD(3,7) assms(1) unfolding similar_def by metis
  moreover have "street u = street t" "acting_seat u = acting_seat t" "pending_action u = pending_action t"
    using assms(1) by (simp_all add: similar_def)
  ultimately show ?thesis
    using assms(3) similar_betting_ok [OF assms(1) _ assms(2)] similar_contenders [OF assms(1)]
      similar_actionable [OF assms(1)] by (simp add: stuck_def)
qed

section \<open>The invariant of the table\<close>

definition table_inv :: "Table \<Rightarrow> bool" where
  "table_inv t \<longleftrightarrow> seats_ok t \<and>
     (street t = street_waiting \<and> (\<forall>i p. sits t i p \<longrightarrow> hand_commitment p = 0) \<or>
      street t = settled \<or> hand_open t \<or> stuck t)"

lemma similar_inv: "similar t u \<Longrightarrow> seats_ok u \<Longrightarrow> table_inv t \<Longrightarrow> table_inv u"
proof -
  assume sim: "similar t u" and ok: "seats_ok u" and inv: "table_inv t"
  have "hand_commitment q = 0" if "sits u i q" "\<forall>i p. sits t i p \<longrightarrow> hand_commitment p = 0" for i q
    using similar_back [OF sim that(1)] that(2) by (auto simp: like_def)
  then show ?thesis
    using inv ok similar_hand_open [OF sim ok] similar_stuck [OF sim ok] sim
    unfolding table_inv_def by (auto simp: similar_def [of t u])
qed

lemma table_inv_new: "validateConfig cfg = ok \<Longrightarrow> table_inv (newTable cfg)"
proof -
  assume "validateConfig cfg = ok"
  moreover have "\<not> sits (newTable cfg) i p" for i p by (auto simp: sits_def newTable_def)
  ultimately show ?thesis by (simp add: table_inv_def seats_ok_def unique_ids_def) (simp add: newTable_def)
qed

lemma not_running_inv:
  "table_inv t \<Longrightarrow> \<not> handIsRunning (street t) \<Longrightarrow>
   street t = street_waiting \<and> (\<forall>i p. sits t i p \<longrightarrow> hand_commitment p = 0) \<or> street t = settled"
  using betStreet_running by (auto simp: table_inv_def hand_open_def stuck_def betting_ok_def)

text \<open>Taking and leaving a seat.\<close>

lemma seatPlayer_inv:
  assumes "table_inv t" "seatPlayer x s b t = (ok, t')"
  shows "table_inv t'"
proof -
  let ?p = "newPlayer x s b"
  have guards: "\<not> handIsRunning (street t)" "s < length (seats t)" "findPlayer t x = None" "seats t ! s = None"
    "min_buy_in (config t) \<le> b" and t': "t' = bumpSequence (setSeat s ?p t)"
    using assms(2) by (auto simp: seatPlayer_def setSeat_def split: if_splits)
  have ok: "seats_ok t" using assms(1) by (simp add: table_inv_def)
  then have "0 < min_buy_in (config t)" by (auto simp: seats_ok_def validateConfig_def split: if_splits)
  then have pok: "player_ok ?p" using guards(5) by (simp add: player_ok_def newPlayer_def)
  have "unique_ids (setSeat s ?p t)"
    using findPlayer_NoneD [OF guards(3)] seats_ok_unique [OF ok] guards(2)
    unfolding unique_ids_def sits_setSeat [OF guards(2)] by (metis (no_types, lifting) Player.select_convs(1) newPlayer_def)
  then have "seats_ok (setSeat s ?p t)"
    using ok pok guards(2) unfolding seats_ok_def sits_setSeat [OF guards(2)] by (auto simp: newPlayer_def)
  moreover have "street t = street_waiting \<and> (\<forall>i p. sits t i p \<longrightarrow> hand_commitment p = 0) \<or> street t = settled"
    by (rule not_running_inv [OF assms(1) guards(1)])
  ultimately show ?thesis
    using guards(2) t' by (auto simp: table_inv_def newPlayer_def split: if_splits)
qed

lemma removePlayer_shape:
  assumes "removePlayer x t = (ok, t')"
  shows "\<exists>s p. sits t s p \<and> pid p = x \<and> (handIsRunning (street t) \<longrightarrow> status p = status_waiting) \<and>
    t' = bumpSequence (t\<lparr>seats := (seats t)[s := None],
           dealer_seat := (if dealer_seat t = Some s then None else dealer_seat t)\<rparr>)"
proof -
  obtain s where s: "seatOf t x = Some s" using assms by (auto simp: removePlayer_def split: option.splits)
  then obtain p where "sits t s p" "pid p = x" using seatOf_SomeD by blast
  then show ?thesis
    using assms s by (intro exI [of _ s] exI [of _ p]) (auto simp: removePlayer_def sits_def split: if_splits)
qed

lemma removePlayer_inv:
  assumes "table_inv t" "removePlayer x t = (ok, t')"
  shows "table_inv t'"
proof -
  obtain s p where p: "sits t s p" "pid p = x" "handIsRunning (street t) \<longrightarrow> status p = status_waiting"
    and t': "t' = bumpSequence (t\<lparr>seats := (seats t)[s := None],
           dealer_seat := (if dealer_seat t = Some s then None else dealer_seat t)\<rparr>)"
    using removePlayer_shape [OF assms(2)] by blast
  have ok: "seats_ok t" using assms(1) by (simp add: table_inv_def)
  have sits': "sits t' i q \<longleftrightarrow> i \<noteq> s \<and> sits t i q" for i q
    using p(1) t' by (auto simp: sits_def nth_list_update)
  have ok': "seats_ok t'"
    using ok unfolding seats_ok_def unique_ids_def sits' by (auto simp: t' split: if_splits)
  show ?thesis
  proof (cases "handIsRunning (street t)")
    case False
    then show ?thesis
      using not_running_inv [OF assms(1)] ok' by (auto simp: table_inv_def sits') (simp_all add: t')
  next
    case True
    then have waits: "status p = status_waiting" using p(3) by blast
    have "betting_ok t"
      using assms(1) True by (auto simp: table_inv_def hand_open_def stuck_def handIsRunning_def)
    then have "dealer_seat t \<noteq> Some s"
      using p(1) waits sits_fun by (fastforce simp: betting_ok_def dealer_ok_def)
    moreover have "\<exists>q. sits t' i q \<and> like r q" if "sits t i r" "status r \<noteq> status_waiting" for i r
      using that waits sits_fun [OF p(1)] unfolding sits' like_def by metis
    ultimately have "similar t t'"
      unfolding similar_def sits' by (auto simp: t' like_def)
    then show ?thesis by (rule similar_inv [OF _ ok' assms(1)])
  qed
qed

text \<open>The flags.\<close>

lemma flag_inv:
  assumes "table_inv t" "sits t s p" "like p q"
  shows "table_inv (bumpSequence (setSeat s q t))"
proof -
  have len: "s < length (seats t)" using assms(2) by (rule sits_less)
  have "seats_ok t" using assms(1) by (simp add: table_inv_def)
  then have "seats_ok (setSeat s q t)"
    using assms(3) likeD(10) [OF assms(3)] seats_ok_player [OF _ assms(2)]
    by (intro seats_ok_setSeat [OF _ assms(2)]) (auto simp: like_def)
  moreover have "similar t (bumpSequence (setSeat s q t))"
  proof -
    have refl: "like r r" for r by (simp add: like_def)
    have "\<exists>p. sits t i p \<and> like p r" if "if i = s then r = q else sits t i r" for i r
      using that assms(2,3) refl by (auto split: if_splits)
    moreover have "\<exists>r'. (if i = s then r' = q else sits t i r') \<and> like r r'" if "sits t i r" for i r
      using that assms(3) refl sits_fun [OF assms(2), of r] by (cases "i = s") auto
    ultimately show ?thesis unfolding similar_def by (simp add: len)
  qed
  ultimately show ?thesis using similar_inv [OF _ _ assms(1)] by simp
qed

lemma setReady_inv:
  assumes "table_inv t" "setReady x v t = (ok, t')"
  shows "table_inv t'"
proof -
  have ok: "seats_ok t" using assms(1) by (simp add: table_inv_def)
  obtain p where p: "findPlayer t x = Some p" "t' = bumpSequence (updatePlayer x (\<lambda>p. p\<lparr>ready := v\<rparr>) t)"
    using assms(2) by (auto simp: setReady_def split: if_splits option.splits)
  obtain i where i: "sits t i p" "pid p = x" using findPlayer_SomeD [OF p(1)] by blast
  have "like p (p\<lparr>ready := v\<rparr>)" by (simp add: like_def)
  then show ?thesis using flag_inv [OF assms(1) i(1)] p(2) updatePlayer_sits [OF ok i(1)] i(2) by metis
qed

lemma setConnected_inv:
  assumes "table_inv t" "setConnected x v t = (ok, t')"
  shows "table_inv t'"
proof -
  have ok: "seats_ok t" using assms(1) by (simp add: table_inv_def)
  obtain p where p: "findPlayer t x = Some p" "t' = bumpSequence (updatePlayer x (\<lambda>p. p\<lparr>connected := v\<rparr>) t)"
    using assms(2) by (auto simp: setConnected_def split: option.splits)
  obtain i where i: "sits t i p" "pid p = x" using findPlayer_SomeD [OF p(1)] by blast
  have "like p (p\<lparr>connected := v\<rparr>)" by (simp add: like_def)
  then show ?thesis using flag_inv [OF assms(1) i(1)] p(2) updatePlayer_sits [OF ok i(1)] i(2) by metis
qed

section \<open>Ending and aborting a hand\<close>

lemma hand_step_inv:
  assumes "hand_step u t'" "seats_ok u" "1 \<le> contenders u"
  shows "table_inv t'"
proof -
  have settles: "table_inv (settledTable v as)" if "seats_ok v" "\<forall>a \<in> set as. award_ok (players v) a" for v as
    using seats_ok_settledTable [OF that] by (simp add: table_inv_def)
  show ?thesis
    using assms(1) unfolding hand_step_def
  proof (elim disjE)
    assume "fold_end u t'"
    then show ?thesis using settles [OF assms(2), of "[foldAward u]"] foldAward_ok [OF assms(2,3)]
      by (auto simp: fold_end_def)
  next
    assume "showdown_end u t'"
    then show ?thesis using settles settleShowdown_ok(2) betting_okD(1) by (auto simp: showdown_end_def)
  next
    assume "round_end u t'"
    then show ?thesis by (simp add: round_end_def table_inv_def hand_open_def betting_ok_def)
  qed
qed

text \<open>The stacks after \<open>abortHand\<close>: what each player owns, less what a settlement had paid out.\<close>

definition paidOut :: "Table \<Rightarrow> PlayerId \<Rightarrow> Chips" where
  "paidOut t x = (if street t = settled then awardsPayout (last_awards t) x else 0)"

definition undoable :: "Table \<Rightarrow> bool" where
  "undoable t \<longleftrightarrow> (\<forall>i p. sits t i p \<longrightarrow> paidOut t (pid p) \<le> stack p + hand_commitment p)"

lemma abortHand_shape:
  assumes "abortHand t = (ok, t')" "seats_ok t"
  shows "street t \<noteq> street_waiting \<and>
    seats t' = seats (mapPlayers (\<lambda>p. refundPlayer (credit (\<lambda>x. - paidOut t x) p)) t) \<and>
    street t' = street_waiting \<and> config t' = config t \<and> dealer_seat t' = dealer_seat t"
proof -
  have uniq: "unique_ids t" using assms(2) by (simp add: seats_ok_def)
  have "street t \<noteq> street_waiting" using assms(1) by (auto simp: abortHand_def split: if_splits)
  moreover have "(if street t = settled then foldl (\<lambda>u award. unpayWinners award 0 (winners award) u) t (last_awards t) else t)
      = mapPlayers (credit (\<lambda>x. - paidOut t x)) t"
    using unpay_all [OF uniq] by (simp add: paidOut_def mapPlayers_credit_zero)
  ultimately show ?thesis
    using assms(1) by (auto simp: abortHand_def Let_def mapPlayers_fuse)
qed

lemma refund_simps [simp]:
  "pid (refundPlayer p) = pid p" "seat (refundPlayer p) = seat p" "stack (refundPlayer p) = stack p + hand_commitment p"
  "hand_commitment (refundPlayer p) = 0" "street_commitment (refundPlayer p) = 0"
  "status (refundPlayer p) = status_waiting" "hole (refundPlayer p) = hole p"
  by (simp_all add: refundPlayer_def)

lemma abortHand_inv:
  assumes "table_inv t" "abortHand t = (ok, t')" "undoable t"
  shows "table_inv t'"
proof -
  let ?f = "\<lambda>p. refundPlayer (credit (\<lambda>x. - paidOut t x) p)"
  have ok: "seats_ok t" using assms(1) by (simp add: table_inv_def)
  note shape = abortHand_shape [OF assms(2) ok]
  have "seats_ok (mapPlayers ?f t)"
    by (rule seats_ok_mapPlayers [OF ok])
      (use assms(3) seats_ok_player [OF ok] in \<open>fastforce simp: undoable_def player_ok_def\<close>)
  then have "seats_ok t'" using shape seats_ok_cong [of t' "mapPlayers ?f t"] by simp
  moreover have "hand_commitment p = 0" if "sits t' i p" for i p
    using that shape sits_cong [of t' "mapPlayers ?f t"] by auto
  ultimately show ?thesis using shape by (auto simp: table_inv_def)
qed

lemma running_undoable: "table_inv t \<Longrightarrow> street t \<noteq> settled \<Longrightarrow> undoable t"
  using seats_ok_player by (fastforce simp: undoable_def paidOut_def table_inv_def player_ok_def)

text \<open>Right after a settlement the hand can be undone, and gives everybody back what he owned.\<close>

lemma settledTable_undo:
  assumes "seats_ok u"
  shows "undoable (settledTable u as)"
    "abortHand (settledTable u as) = (ok, t') \<Longrightarrow> seats_ok (settledTable u as) \<Longrightarrow>
     map (map_option (\<lambda>p. (pid p, stack p))) (seats t') = worths u"
proof -
  show "undoable (settledTable u as)"
    using seats_ok_player [OF assms]
    by (fastforce simp: undoable_def paidOut_def settledTable_def player_ok_def)
  assume abort: "abortHand (settledTable u as) = (ok, t')" and ok: "seats_ok (settledTable u as)"
  have "map_option (\<lambda>p. (pid p, stack p)) (map_option (\<lambda>p. refundPlayer (credit (\<lambda>x. - paidOut (settledTable u as) x)
      ((credit (awardsPayout as) p)\<lparr>ready := False\<rparr>))) x) = map_option worth x" for x
    by (cases x) (simp_all add: paidOut_def worth_def)
  then show "map (map_option (\<lambda>p. (pid p, stack p))) (seats t') = worths u"
    using abortHand_shape [OF abort ok]
    by (simp add: worths_def settledTable_def markSettled_def mapPlayers_def option.map_comp comp_def)
qed

lemma abort_running:
  assumes "abortHand t = (ok, t')" "seats_ok t" "street t \<noteq> settled"
  shows "map (map_option (\<lambda>p. (pid p, stack p))) (seats t') = worths t"
proof -
  have "map_option (\<lambda>p. (pid p, stack p)) (map_option (\<lambda>p. refundPlayer (credit (\<lambda>x. - paidOut t x) p)) x)
      = map_option worth x" for x
    using assms(3) by (cases x) (simp_all add: paidOut_def worth_def)
  then show ?thesis
    using abortHand_shape [OF assms(1,2)] by (simp add: worths_def mapPlayers_def option.map_comp comp_def)
qed

section \<open>Reachable tables\<close>

lemma startHand_inv:
  assumes "table_inv t" "fullDeck d" "deck_next d = 0" "startHand d t = Inr (ok, t')"
  shows "table_inv t'"
proof -
  have ok: "seats_ok t" using assms(1) by (simp add: table_inv_def)
  obtain u where u: "betting_ok u" "2 \<le> contenders u" "hand_step u t' \<or> stuck t'"
    using startHand_ok [OF ok assms(2,3)] assms(4) by auto
  from u(3) show ?thesis
  proof
    assume "hand_step u t'"
    then show ?thesis using hand_step_inv betting_okD(1) [OF u(1)] u(2) by simp
  next
    assume "stuck t'"
    then show ?thesis by (auto simp: table_inv_def) (simp add: stuck_def betting_ok_def)
  qed
qed

lemma act_cases:
  assumes "table_inv t" "act cmd t = Inr (r, t')"
  shows "res_error r \<noteq> ok \<and> t' = t \<or>
    res_error r = ok \<and> hand_open t \<and> (\<exists>s p p' u. action_step cmd t s p p' u t')"
proof (cases "hand_open t")
  case True
  then show ?thesis using act_ok [OF True, of cmd] assms(2) by auto
next
  case False
  then have "\<not> handIsRunning (street t) \<or> stuck t"
    using assms(1) by (auto simp: table_inv_def handIsRunning_def)
  then show ?thesis
    using assms(2) act_stuck [of t cmd] by (auto simp: act_def failResult_def)
qed

lemma act_returns: "table_inv t \<Longrightarrow> \<exists>r t'. act cmd t = Inr (r, t')"
proof -
  assume inv: "table_inv t"
  show ?thesis
  proof (cases "hand_open t")
    case True
    then show ?thesis using act_ok by blast
  next
    case False
    then have "\<not> handIsRunning (street t) \<or> stuck t" using inv by (auto simp: table_inv_def handIsRunning_def)
    then show ?thesis using act_stuck [of t cmd] by (auto simp: act_def)
  qed
qed

lemma act_inv:
  assumes "table_inv t" "act cmd t = Inr (r, t')"
  shows "table_inv t'"
  using act_cases [OF assms] assms(1)
proof (elim disjE conjE exE)
  fix s p p' u assume "action_step cmd t s p p' u t'"
  then show ?thesis using hand_step_inv betting_okD(1) by (auto simp: action_step_def moved_def)
qed simp

inductive table_step :: "Table \<Rightarrow> Table \<Rightarrow> bool" where
  seats_player: "seatPlayer x s b t = (ok, t') \<Longrightarrow> table_step t t'"
| removes_player: "removePlayer x t = (ok, t') \<Longrightarrow> table_step t t'"
| sets_ready: "setReady x v t = (ok, t') \<Longrightarrow> table_step t t'"
| sets_connected: "setConnected x v t = (ok, t') \<Longrightarrow> table_step t t'"
| starts: "fullDeck d \<Longrightarrow> deck_next d = 0 \<Longrightarrow> startHand d t = Inr (ok, t') \<Longrightarrow> table_step t t'"
| acts: "act cmd t = Inr (r, t') \<Longrightarrow> res_error r = ok \<Longrightarrow> table_step t t'"
| aborts: "abortHand t = (ok, t') \<Longrightarrow> undoable t \<Longrightarrow> table_step t t'"

inductive reachable :: "TableConfig \<Rightarrow> Table \<Rightarrow> bool" for cfg where
  new_table: "validateConfig cfg = ok \<Longrightarrow> reachable cfg (newTable cfg)"
| step: "reachable cfg t \<Longrightarrow> table_step t t' \<Longrightarrow> reachable cfg t'"

inductive_cases table_stepE: "table_step t t'"

lemma table_step_inv: "table_step t t' \<Longrightarrow> table_inv t \<Longrightarrow> table_inv t'"
  by (induction rule: table_step.induct)
    (blast intro: seatPlayer_inv removePlayer_inv setReady_inv setConnected_inv startHand_inv act_inv abortHand_inv)+

lemma reachable_table_inv: "reachable cfg t \<Longrightarrow> table_inv t"
  by (induction rule: reachable.induct) (auto intro: table_inv_new table_step_inv)

text \<open>The decks the two public entry points of \<open>startHand\<close> build.\<close>

lemma deckOf_full: "deckOf cards = Inr d \<Longrightarrow> fullDeck d \<and> deck_next d = 0"
proof -
  assume d: "deckOf cards = Inr d"
  then have len: "length cards = 52" and dist: "distinct cards" and "d = \<lparr>deck_cards = cards, deck_next = 0\<rparr>"
    using markSeen_noneSeen [of cards] by (auto simp: deckOf_def result_simps split: if_splits)
  moreover have "set cards = set orderedDeck"
  proof -
    have "card (set cards) = card (set orderedDeck)"
      using len distinct_card [OF dist] distinct_card [OF distinct_orderedDeck] by simp
    moreover have "set cards \<subseteq> set orderedDeck" by simp
    ultimately show ?thesis by (intro card_subset_eq) (simp_all only: finite_set)
  qed
  ultimately show ?thesis
    by (simp add: fullDeck_def set_eq_iff_mset_eq_distinct del: set_orderedDeck)
qed

end
