(* ===== verification/Table_Correct.thy ===== *)
theory Table_Correct
  imports Table_Act
begin

text \<open>
  What the class \<open>Table\<close> guarantees, stated for every reachable table: the invariant, totality of
  the public operations, the account of the chips, progress and termination of a hand, the refund
  of an aborted hand, the awards at showdown and the secrecy of hole cards. Two theorems show where
  the code falls short of \<open>src/docs/state-machine.md\<close>: chips that nobody may win at showdown, and a
  hand in which nobody can act.
\<close>

section \<open>Example hands\<close>

text \<open>Players take a seat and report ready; commands are played in sequence, all of them accepted.\<close>

fun sitDown :: "(PlayerId \<times> nat \<times> Chips) list \<Rightarrow> Table \<Rightarrow> Table option" where
  "sitDown [] t = Some t"
| "sitDown ((i, s, b) # rest) t =
     (case seatPlayer i s b t of (e1, t1) \<Rightarrow>
      case setReady i True t1 of (e2, t2) \<Rightarrow>
        if e1 = ok \<and> e2 = ok then sitDown rest t2 else None)"

fun play :: "ActionCommand list \<Rightarrow> Table \<Rightarrow> Table option" where
  "play [] t = Some t"
| "play (c # cs) t =
     (case act c t of
        Inl e \<Rightarrow> None
      | Inr (r, t') \<Rightarrow> if res_error r = ok then play cs t' else None)"

definition demoDeck :: Deck where
  "demoDeck = \<lparr>deck_cards = orderedDeck, deck_next = 0\<rparr>"

definition demoHand :: "TableConfig \<Rightarrow> (PlayerId \<times> nat \<times> Chips) list \<Rightarrow> ActionCommand list \<Rightarrow> Table option" where
  "demoHand cfg ps cmds =
     (case sitDown ps (newTable cfg) of
        None \<Rightarrow> None
      | Some t \<Rightarrow> (case startHand demoDeck t of
                   Inr (ok, t') \<Rightarrow> play cmds t'
                 | _ \<Rightarrow> None))"

definition command :: "PlayerId \<Rightarrow> ActionType \<Rightarrow> Chips \<Rightarrow> ActionCommand" where
  "command i a n = \<lparr>player_id = i, action_type = a, amount = n\<rparr>"

lemma sitDown_reachable: "reachable cfg t \<Longrightarrow> sitDown ps t = Some t' \<Longrightarrow> reachable cfg t'"
proof (induction ps arbitrary: t)
  case (Cons x ps)
  obtain i s b where x: "x = (i, s, b)" by (cases x)
  obtain t1 t2 where "seatPlayer i s b t = (ok, t1)" "setReady i True t1 = (ok, t2)" "sitDown ps t2 = Some t'"
    using Cons.prems(2) unfolding x by (auto split: prod.splits if_splits)
  then show ?case using Cons.IH Cons.prems(1) by (meson reachable.step seats_player sets_ready)
qed simp

lemma play_reachable: "reachable cfg t \<Longrightarrow> play cs t = Some t' \<Longrightarrow> reachable cfg t'"
proof (induction cs arbitrary: t)
  case (Cons c cs)
  obtain r u where "act c t = Inr (r, u)" "res_error r = ok" "play cs u = Some t'"
    using Cons.prems(2) by (auto split: sum.splits if_splits)
  then show ?case using Cons.IH Cons.prems(1) by (meson reachable.step acts)
qed simp

lemma demoDeck_full: "fullDeck demoDeck \<and> deck_next demoDeck = 0"
  by (simp add: fullDeck_def demoDeck_def)

lemma demoHand_reachable:
  assumes "demoHand cfg ps cmds = Some t" "validateConfig cfg = ok"
  shows "reachable cfg t"
proof -
  obtain u v where u: "sitDown ps (newTable cfg) = Some u" "startHand demoDeck u = Inr (ok, v)" "play cmds v = Some t"
    using assms(1) unfolding demoHand_def by (auto split: option.splits sum.splits prod.splits TableError.splits)
  then have "reachable cfg u" using sitDown_reachable new_table assms(2) by blast
  then have "reachable cfg v" using u(2) demoDeck_full by (meson reachable.step starts)
  then show ?thesis using u(3) play_reachable by blast
qed

text \<open>Two players, right after the deal, and the same players after the small blind called.\<close>

definition headsUp :: "ActionCommand list \<Rightarrow> Table" where
  "headsUp cmds = the (demoHand defaultConfig [(1, 0, 5000), (2, 1, 6000)] cmds)"

lemma headsUp_reachable:
  "demoHand defaultConfig [(1, 0, 5000), (2, 1, 6000)] cmds \<noteq> None \<Longrightarrow> reachable defaultConfig (headsUp cmds)"
  using demoHand_reachable [of defaultConfig "[(1, 0, 5000), (2, 1, 6000)]" cmds]
  by (auto simp: headsUp_def validateConfig_def defaultConfig_def)

lemma play_snoc: "play (cs @ [c]) t = (case play cs t of None \<Rightarrow> None | Some u \<Rightarrow> play [c] u)"
  by (induction cs arbitrary: t) (simp_all split: sum.splits)

lemma headsUp_snoc:
  assumes "demoHand defaultConfig [(1, 0, 5000), (2, 1, 6000)] (cs @ [c]) \<noteq> None"
  shows "\<exists>r. act c (headsUp cs) = Inr (r, headsUp (cs @ [c])) \<and> res_error r = ok"
proof -
  let ?ps = "[(1, 0, 5000), (2, 1, 6000)] :: (PlayerId \<times> nat \<times> Chips) list"
  have "demoHand defaultConfig ?ps (cs @ [c]) =
      (case demoHand defaultConfig ?ps cs of None \<Rightarrow> None | Some u \<Rightarrow> play [c] u)"
    unfolding demoHand_def play_snoc by (simp split: option.splits sum.splits prod.splits TableError.splits)
  then show ?thesis
    using assms unfolding headsUp_def by (auto split: option.splits sum.splits prod.splits if_splits)
qed

lemma headsUp_start: "reachable defaultConfig (headsUp [])"
  by (rule headsUp_reachable) code_simp

section \<open>The invariant\<close>



section \<open>Totality\<close>

text \<open>C28. \<open>act\<close> returns on every reachable table, whatever the command: none of the exceptions and
  empty optionals of the code is hit. A rejected command leaves the table as it was and reports its
  sequence number; an accepted one reports the awards exactly when the hand has been settled.\<close>
theorem act_total:
  assumes "reachable cfg t"
  shows "\<exists>r t'. act cmd t = Inr (r, t') \<and>
    (if res_error r = ok
     then res_awards r = (if street t' = settled then last_awards t' else []) \<and> res_action_street r = street t
     else t' = t \<and> res_awards r = [] \<and> res_server_sequence r = server_sequence t)"
proof -
  obtain r t' where a: "act cmd t = Inr (r, t')" using act_returns reachable_table_inv [OF assms] by blast
  then show ?thesis
    by (auto simp: act_def failResult_def result_simps split: if_splits option.splits sum.splits dest: applyAction_error)
qed

theorem act_total_witness:
  "\<exists>r t'. act (command 1 call 0) (headsUp []) = Inr (r, t') \<and>
    (if res_error r = ok
     then res_awards r = (if street t' = settled then last_awards t' else []) \<and> res_action_street r = street (headsUp [])
     else t' = headsUp [] \<and> res_awards r = [] \<and> res_server_sequence r = server_sequence (headsUp []))"
  by (rule act_total [OF headsUp_start])


text \<open>\<open>startHandWithDeck\<close> returns on every reachable table and for every list of cards: no
  exception leaves it. A list that is not a permutation of the 52 cards is refused, and an error leaves
  the table as it was.\<close>
theorem startHandWithDeck_total:
  assumes "reachable cfg t"
  shows "\<exists>e t'. startHandWithDeck cards t = Inr (e, t') \<and> (e = ok \<or> t' = t) \<and>
    (e = ok \<longrightarrow> mset cards = mset orderedDeck \<and> (street t' = settled \<or> handIsRunning (street t')))"
proof (cases "deckOf cards")
  case (Inl e)
  then have "e = invalid_argument"
    using markSeen_error [of cards] markSeen_noneSeen [of cards]
    by (cases "distinct cards") (auto simp: deckOf_def result_simps split: if_splits)
  then show ?thesis using Inl by (simp add: startHandWithDeck_def)
next
  case (Inr d)
  have d: "fullDeck d" "deck_next d = 0" using deckOf_full [OF Inr] by auto
  have inv: "seats_ok t" using reachable_table_inv [OF assms] by (simp add: table_inv_def)
  obtain e t' where s: "startHand d t = Inr (e, t')" "e \<noteq> ok \<and> t' = t \<or> e = ok"
    using startHand_ok [OF inv d] by blast
  have "mset cards = mset orderedDeck"
    using d(1) Inr by (auto simp: deckOf_def fullDeck_def result_simps split: if_splits)
  moreover have "street t' = settled \<or> handIsRunning (street t')" if e: "e = ok"
  proof -
    have "street t' \<noteq> street_waiting"
      using startHand_ok [OF inv d] s(1) e
      by (auto simp: hand_step_def fold_end_def showdown_end_def round_end_def stuck_def
          dest!: hand_open_street betStreet_running)
    then show ?thesis
      by (cases "street t'") (simp_all add: handIsRunning_def)
  qed
  ultimately show ?thesis using Inr s by (auto simp: startHandWithDeck_def)
qed

theorem startHandWithDeck_total_witness:
  "\<exists>e t'. startHandWithDeck orderedDeck (headsUp []) = Inr (e, t') \<and> (e = ok \<or> t' = headsUp []) \<and>
    (e = ok \<longrightarrow> mset orderedDeck = mset orderedDeck \<and> (street t' = settled \<or> handIsRunning (street t')))"
  by (rule startHandWithDeck_total [OF headsUp_start])

section \<open>Chips\<close>

lemma action_step_total:
  assumes "action_step cmd t s p p' u t'" "hand_open t"
  shows "totalChips t' = totalChips t - unclaimed t'"
proof -
  have u: "seats_ok u" "1 \<le> contenders u" "hand_step u t'" "worths u = worths t"
    using assms(1) acted_worths by (auto simp: action_step_def moved_def dest: betting_okD(1))
  show ?thesis
    using hand_step_total [OF u(3,1,2)] worths_total [OF u(4)] betStreet_running [OF hand_open_street [OF assms(2)]]
    by (simp add: totalChips_running)
qed

text \<open>C14. The account of \<open>act\<close>: a command changes the chips at the table (\<open>totalChips\<close>: the stacks, and
  the pot while the hand is running) only when it settles the hand at a showdown, and then exactly by what
  folded players had committed beyond the highest commitment of a player still in the hand
  (\<open>overCommitted\<close>). Every other command keeps the sum.\<close>
theorem act_chips:
  assumes "reachable cfg t" "act cmd t = Inr (r, t')"
  shows "totalChips t' = totalChips t -
    (if res_error r = ok \<and> street t' = settled \<and> 2 \<le> contenders t' then overCommitted t' else 0)"
  using act_cases [OF reachable_table_inv [OF assms(1)] assms(2)] action_step_total
  by (fastforce simp: unclaimed_def)

theorem act_chips_witness:
  "\<exists>r t'. act (command 1 call 0) (headsUp []) = Inr (r, t') \<and> totalChips t' = totalChips (headsUp []) -
    (if res_error r = ok \<and> street t' = settled \<and> 2 \<le> contenders t' then overCommitted t' else 0)"
  using act_returns [OF reachable_table_inv [OF headsUp_start], of "command 1 call 0"]
    act_chips [OF headsUp_start, of "command 1 call 0"] by blast

lemma sum_list_zero: "\<forall>x \<in> set xs. x = 0 \<Longrightarrow> sum_list xs = (0 :: int)"
  by (induction xs) auto

lemma no_folds_overCommitted:
  assumes "betting_ok t" "no_folds t"
  shows "overCommitted t = 0"
proof -
  have "hand_commitment p \<le> maxLive t" if pt: "p \<in> set (players t)" for p
  proof (cases "status p = status_waiting")
    case True
    obtain i where "sits t i p" using pt by (auto simp: in_players)
    then have "hand_commitment p = 0" using betting_okD(5) [OF assms(1)] True by (auto simp: bettor_ok_def)
    then show ?thesis by (simp add: maxLive_def foldr_max_base)
  next
    case False
    then have "isEligible p" using assms(2) pt by (auto simp: isEligible_def no_folds_def in_players)
    then show ?thesis using pt by (simp add: maxLive_def foldr_max_upper)
  qed
  then have "\<forall>x \<in> set (map (\<lambda>p. max 0 (hand_commitment p - maxLive t)) (players t)). x = 0" by auto
  then show ?thesis unfolding overCommitted_def by (rule sum_list_zero)
qed

text \<open>Starting a hand keeps the chips at the table, also when the blinds put everybody all-in and the
  hand is played out and settled at once.\<close>
theorem startHand_chips:
  assumes "reachable cfg t" "fullDeck d" "deck_next d = 0" "startHand d t = Inr (ok, t')"
  shows "totalChips t' = sum_list (map stack (players t))"
proof -
  have ok: "seats_ok t" using reachable_table_inv [OF assms(1)] by (simp add: table_inv_def)
  obtain u where u: "worths u = map (map_option (\<lambda>p. (pid p, stack p))) (seats t)" "2 \<le> contenders u"
    "betting_ok u" "no_folds u" "hand_step u t' \<or> stuck t' \<and> same_core u t'"
    using startHand_ok [OF ok assms(2,3)] assms(4) by auto
  have total: "sum_list (map stack (players u)) + potSize u = sum_list (map stack (players t))"
  proof -
    have "sum_list (map stack (players u)) + potSize u = sum_list (map snd (occupants (worths u)))"
      by (simp add: worths_def occupants_map comp_def worth_def potSize_def sum_list_addf)
    also have "\<dots> = sum_list (map stack (players t))"
      by (simp add: u(1) occupants_map comp_def)
    finally show ?thesis .
  qed
  have "unclaimed t' = 0" if step: "hand_step u t'"
    using step unfolding hand_step_def
  proof (elim disjE)
    assume "showdown_end u t'"
    then obtain v where "same_core u v" "t' = settledTable v (showdownAwards v)" by (auto simp: showdown_end_def)
    then show ?thesis
      using no_folds_overCommitted [OF u(3,4)] same_core_sums(4) by (simp add: unclaimed_def settledTable_same)
  qed (use u(2) in \<open>auto simp: fold_end_def round_end_def unclaimed_def dest!: hand_open_street betStreet_running\<close>)
  then have "totalChips t' = sum_list (map stack (players u)) + potSize u" if step: "hand_step u t'"
    using hand_step_total [OF step betting_okD(1) [OF u(3)]] u(2) step by simp
  moreover have "totalChips t' = sum_list (map stack (players u)) + potSize u" if st: "stuck t'" "same_core u t'"
  proof -
    have "street t' = preflop" using st(1) by (simp add: stuck_def)
    then show ?thesis using total_same_core [OF st(2)] by (simp add: totalChips_running)
  qed
  ultimately show ?thesis using u(5) total by auto
qed

definition twoReady :: Table where
  "twoReady = the (sitDown [(1, 0, 5000), (2, 1, 6000)] (newTable defaultConfig))"

lemma twoReady_reachable: "reachable defaultConfig twoReady"
proof -
  have "sitDown [(1, 0, 5000), (2, 1, 6000)] (newTable defaultConfig) \<noteq> None" by code_simp
  moreover have "reachable defaultConfig (newTable defaultConfig)"
    by (rule new_table) (simp add: validateConfig_def defaultConfig_def)
  ultimately show ?thesis using sitDown_reachable unfolding twoReady_def by fastforce
qed

lemma twoReady_start: "startHand demoDeck twoReady = Inr (ok, headsUp [])"
proof -
  have "case startHand demoDeck twoReady of Inr (ok, t) \<Rightarrow> True | _ \<Rightarrow> False" by code_simp
  moreover have "sitDown [(1, 0, 5000), (2, 1, 6000)] (newTable defaultConfig) = Some twoReady"
    unfolding twoReady_def by (rule option.collapse [symmetric]) code_simp
  ultimately show ?thesis
    by (auto simp: headsUp_def demoHand_def split: sum.splits prod.splits TableError.splits)
qed

theorem startHand_chips_witness: "totalChips (headsUp []) = sum_list (map stack (players twoReady))"
  by (rule startHand_chips [OF twoReady_reachable _ _ twoReady_start]) (simp_all add: demoDeck_full)


section \<open>Progress\<close>

definition accepts :: "Table \<Rightarrow> ActionCommand \<Rightarrow> bool" where
  "accepts t cmd = (case act cmd t of Inl e \<Rightarrow> False | Inr (r, t') \<Rightarrow> res_error r = ok)"

lemma hand_open_accepts:
  assumes "hand_open t"
  shows "\<exists>x. idAt t (acting_seat t) = Some x \<and> accepts t (command x fold_action 0)"
proof -
  obtain s p where p: "acting_seat t = Some s" "sits t s p" "canAct p" "pid p \<in> pending_action t"
    using assms by (auto simp: hand_open_def actor_ready_def)
  have id: "idAt t (acting_seat t) = Some (pid p)" using p(1,2) by (simp add: idAt_def sits_def)
  obtain r t' where a: "act (command (pid p) fold_action 0) t = Inr (r, t')"
    using act_ok [OF assms] by blast
  have run: "handIsRunning (street t)" "street t \<noteq> showdown"
    using betStreet_running [OF hand_open_street [OF assms]] by auto
  have "res_error r = ok"
    using a p run by (auto simp: act_def command_def sits_def result_simps split: if_splits)
  then show ?thesis using id a by (auto simp: accepts_def)
qed

text \<open>C30. A hand never stalls in the course of play: after every accepted command the hand is either
  settled, or the table names a player to act and accepts a command (a fold, at least) from him.\<close>
theorem act_progress:
  assumes "reachable cfg t" "act cmd t = Inr (r, t')" "res_error r = ok"
  shows "street t' = settled \<or> (\<exists>x. idAt t' (acting_seat t') = Some x \<and> accepts t' (command x fold_action 0))"
proof -
  obtain u where "hand_step u t'"
    using act_cases [OF reachable_table_inv [OF assms(1)] assms(2)] assms(3) by (auto simp: action_step_def)
  then have "street t' = settled \<or> hand_open t'"
    by (auto simp: hand_step_def fold_end_def showdown_end_def round_end_def)
  then show ?thesis using hand_open_accepts by blast
qed

lemma headsUp_call:
  "\<exists>r. act (command 1 call 0) (headsUp []) = Inr (r, headsUp [command 1 call 0]) \<and> res_error r = ok"
proof -
  have "demoHand defaultConfig [(1, 0, 5000), (2, 1, 6000)] ([] @ [command 1 call 0]) \<noteq> None" by code_simp
  then show ?thesis using headsUp_snoc by fastforce
qed

theorem act_progress_witness:
  "street (headsUp [command 1 call 0]) = settled \<or>
    (\<exists>x. idAt (headsUp [command 1 call 0]) (acting_seat (headsUp [command 1 call 0])) = Some x \<and>
       accepts (headsUp [command 1 call 0]) (command x fold_action 0))"
  using headsUp_call act_progress [OF headsUp_start] by blast

lemma action_step_smaller:
  assumes "action_step cmd t s p p' u t'" "hand_open t"
  shows "(t', t) \<in> measures [\<lambda>t. 6 - streetIndex (street t), \<lambda>t. nat (sum_list (map stack (players t))),
    \<lambda>t. card (pending_action t)]"
proof -
  have u: "acted t s p p' u" "pid p \<in> pending_action t" "hand_step u t'" "betting_ok u"
    "stack p' < stack p \<or> stack p' = stack p \<and> pending_action u = pending_action t - {pid p}"
    using assms(1) unfolding action_step_def moved_def by blast+
  have st: "street u = street t" "betStreet (street t)"
    using u(1) hand_open_street [OF assms(2)] by (auto simp: acted_def)
  have early: "streetIndex (street t) < 6" using st(2) by (auto simp: betStreet_def)
  have sum: "sum_list (map stack (players u)) = sum_list (map stack (players t)) - stack p + stack p'"
    using sum_setSeat [of t s p stack p'] u(1) acted_seats [OF u(1)] by (simp add: acted_def)
  have nonneg: "0 \<le> sum_list (map stack (players u))"
    using seats_ok_player [OF betting_okD(1) [OF u(4)]]
    by (intro sum_list_nonneg) (auto simp: in_players player_ok_def)
  have fin: "finite (pending_action t)"
  proof (rule finite_subset)
    show "pending_action t \<subseteq> pid ` set (players t)"
      using assms(2) by (fastforce simp: hand_open_def betting_ok_def pending_ok_def in_players)
  qed simp
  from u(3) consider "street t' = settled" | "same_core u t'" "onwards u t'"
    by (auto simp: hand_step_def fold_end_def showdown_end_def round_end_def)
  then show ?thesis
  proof cases
    case 1
    then show ?thesis using early by simp
  next
    case 2
    have sum': "sum_list (map stack (players t')) = sum_list (map stack (players u))"
      using same_core_sums(5) [OF 2(1)] .
    show ?thesis
    proof (cases "streetIndex (street t) < streetIndex (street t')")
      case True
      then have "6 - streetIndex (street t') < 6 - streetIndex (street t)" using early by (rule diff_less_mono2)
      then show ?thesis by simp
    next
      case False
      then have same: "street t' = street t" "pending_action t' = pending_action u" using 2(2) st(1) by (auto simp: onwards_def)
      have fewer: "card (pending_action t - {pid p}) < card (pending_action t)"
        using u(2) fin by (rule card_Diff1_less [rotated])
      from u(5) show ?thesis
      proof
        assume "stack p' < stack p"
        then have "nat (sum_list (map stack (players t'))) < nat (sum_list (map stack (players t)))"
          using sum sum' nonneg by linarith
        then show ?thesis by (simp only: measures_less measures_lesseq same(1) simp_thms order_refl)
      next
        assume "stack p' = stack p \<and> pending_action u = pending_action t - {pid p}"
        then show ?thesis using sum sum' fewer by (simp only: measures_less measures_lesseq same simp_thms order_refl)
      qed
    qed
  qed
qed

text \<open>C31. Every hand ends: there is no infinite sequence of accepted commands. With each of them the
  hand moves to a later street, or stays in its street and the stacks shrink, or the stacks stay and one
  player fewer is waited for.\<close>
theorem hand_terminates:
  "wf {(t', t). reachable cfg t \<and> (\<exists>cmd r. act cmd t = Inr (r, t') \<and> res_error r = ok)}"
proof (rule wf_subset)
  let ?m = "[\<lambda>t. 6 - streetIndex (street t), \<lambda>t. nat (sum_list (map stack (players t))), \<lambda>t. card (pending_action t)]"
  show "wf (measures ?m)" by simp
  show "{(t', t). reachable cfg t \<and> (\<exists>cmd r. act cmd t = Inr (r, t') \<and> res_error r = ok)} \<subseteq> measures ?m"
  proof (clarify)
    fix t' t cmd r assume *: "reachable cfg t" "act cmd t = Inr (r, t')" "res_error r = ok"
    obtain s p p' u where step: "action_step cmd t s p p' u t'" "hand_open t"
      using act_cases [OF reachable_table_inv [OF *(1)] *(2)] *(3) by auto
    show "(t', t) \<in> measures ?m" by (rule action_step_smaller [OF step])
  qed
qed


section \<open>Aborting a hand\<close>

text \<open>What each player owned when the hand began is what he owns now, the awards of a settlement apart.\<close>

definition owns :: "(PlayerId \<times> Chips) option list \<Rightarrow> Table \<Rightarrow> bool" where
  "owns w t \<longleftrightarrow> seats_ok t \<and> (street t \<noteq> settled \<and> worths t = w \<or>
     (\<exists>u as. seats_ok u \<and> worths u = w \<and> t = settledTable u as))"

lemma hand_step_owns:
  assumes "hand_step u t'" "seats_ok u" "1 \<le> contenders u" "worths u = w"
  shows "owns w t'"
proof -
  have "seats_ok t'" using hand_step_inv [OF assms(1-3)] by (simp add: table_inv_def)
  then show ?thesis
    using assms(1) unfolding hand_step_def
  proof (elim disjE)
    assume "fold_end u t'"
    then show ?thesis using assms(2,4) \<open>seats_ok t'\<close> by (auto simp: fold_end_def owns_def)
  next
    assume "showdown_end u t'"
    then show ?thesis
      using same_core_worths assms(4) \<open>seats_ok t'\<close>
      by (fastforce simp: showdown_end_def owns_def dest: betting_okD(1))
  next
    assume "round_end u t'"
    then show ?thesis
      using same_core_worths assms(4) \<open>seats_ok t'\<close>
      by (auto simp: round_end_def owns_def dest!: hand_open_street betStreet_running)
  qed
qed

lemma startHand_owns:
  assumes "seats_ok t" "fullDeck d" "deck_next d = 0" "startHand d t = Inr (ok, t')"
  shows "owns (map (map_option (\<lambda>p. (pid p, stack p))) (seats t)) t'"
proof -
  obtain u where u: "worths u = map (map_option (\<lambda>p. (pid p, stack p))) (seats t)" "2 \<le> contenders u"
    "betting_ok u" "hand_step u t' \<or> stuck t' \<and> same_core u t'"
    using startHand_ok [OF assms(1-3)] assms(4) by auto
  from u(4) show ?thesis
  proof
    assume "hand_step u t'"
    then show ?thesis using hand_step_owns betting_okD(1) [OF u(3)] u(1,2) by simp
  next
    assume "stuck t' \<and> same_core u t'"
    then show ?thesis
      using same_core_worths u(1) by (auto simp: owns_def stuck_def dest: betting_okD(1))
  qed
qed

lemma act_owns:
  assumes "table_inv t" "owns w t" "act cmd t = Inr (r, t')"
  shows "owns w t'"
  using act_cases [OF assms(1,3)]
proof (elim disjE conjE exE)
  fix s p p' u assume open_hand: "hand_open t" and step: "action_step cmd t s p p' u t'"
  have u: "hand_step u t'" "1 \<le> contenders u" "acted t s p p' u" "betting_ok u"
    using step unfolding action_step_def moved_def by blast+
  have "street t \<noteq> settled" using betStreet_running [OF hand_open_street [OF open_hand]] by simp
  then have "worths t = w" using assms(2) by (auto simp: owns_def)
  then show ?thesis using hand_step_owns [OF u(1) betting_okD(1) [OF u(4)] u(2)] acted_worths [OF u(3)] by simp
qed (use assms(2) in simp)

lemma play_owns:
  "table_inv t \<Longrightarrow> owns w t \<Longrightarrow> play cs t = Some t' \<Longrightarrow> table_inv t' \<and> owns w t'"
proof (induction cs arbitrary: t)
  case (Cons c cs)
  obtain r u where u: "act c t = Inr (r, u)" "play cs u = Some t'"
    using Cons.prems(3) by (auto split: sum.splits if_splits)
  then show ?case using Cons.IH act_inv [OF Cons.prems(1)] act_owns [OF Cons.prems(1,2)] by blast
qed simp

text \<open>C32. Aborting a hand undoes it: after \<open>startHand\<close>, any sequence of accepted commands (also one that
  settled the hand, by folds or at a showdown) and \<open>abortHand\<close>, every seat holds the same player with
  the same stack as before the hand, and nothing is left committed.\<close>
theorem abortHand_refunds:
  assumes "reachable cfg t0" "fullDeck d" "deck_next d = 0" "startHand d t0 = Inr (ok, t1)"
    "play cs t1 = Some t" "abortHand t = (ok, t')"
  shows "map (map_option (\<lambda>p. (pid p, stack p))) (seats t') = map (map_option (\<lambda>p. (pid p, stack p))) (seats t0) \<and>
    potSize t' = 0" (is "_ = ?w \<and> _")
proof
  have inv0: "table_inv t0" using reachable_table_inv [OF assms(1)] .
  then have ok0: "seats_ok t0" by (simp add: table_inv_def)
  have t: "table_inv t" "owns ?w t"
    using play_owns [OF startHand_inv [OF inv0 assms(2-4)] startHand_owns [OF ok0 assms(2-4)] assms(5)] by auto
  then have ok: "seats_ok t" by (simp add: table_inv_def)
  from t(2) consider "street t \<noteq> settled" "worths t = ?w"
    | u as where "seats_ok u" "worths u = ?w" "t = settledTable u as" unfolding owns_def by blast
  then show "map (map_option (\<lambda>p. (pid p, stack p))) (seats t') = ?w"
  proof cases
    case 1
    then show ?thesis using abort_running [OF assms(6) ok] by simp
  next
    case 2
    then show ?thesis using settledTable_undo(2) [OF 2(1)] assms(6) ok by simp
  qed
  have "undoable t"
    using t settledTable_undo(1) running_undoable unfolding owns_def by blast
  then have "table_inv t'" by (rule abortHand_inv [OF t(1) assms(6)])
  moreover have "street t' = street_waiting" using abortHand_shape [OF assms(6) ok] by simp
  ultimately have "\<forall>p \<in> set (players t'). hand_commitment p = 0"
    using betStreet_running by (auto simp: table_inv_def in_players stuck_def dest!: hand_open_street)
  then show "potSize t' = 0" unfolding potSize_def by (intro sum_list_zero) auto
qed

theorem abortHand_refunds_witness:
  "\<exists>t'. abortHand (headsUp [command 1 call 0]) = (ok, t') \<and> potSize t' = 0 \<and>
     map (map_option (\<lambda>p. (pid p, stack p))) (seats t') = [Some (1, 5000), Some (2, 6000), None, None, None, None]"
proof -
  have abort: "abortHand (headsUp [command 1 call 0]) = (ok, snd (abortHand (headsUp [command 1 call 0])))"
  proof -
    have "fst (abortHand (headsUp [command 1 call 0])) = ok" by code_simp
    then show ?thesis by (metis prod.collapse)
  qed
  have seated: "map (map_option (\<lambda>p. (pid p, stack p))) (seats twoReady)
      = [Some (1, 5000), Some (2, 6000), None, None, None, None]" by code_simp
  have played: "play [command 1 call 0] (headsUp []) = Some (headsUp [command 1 call 0])" using headsUp_call by auto
  show ?thesis
    using abortHand_refunds [OF twoReady_reachable _ _ twoReady_start played abort] demoDeck_full seated abort
    by (metis (no_types, lifting))
qed


section \<open>Cards\<close>

lemma running_betting_ok: "table_inv t \<Longrightarrow> handIsRunning (street t) \<Longrightarrow> betting_ok t"
  by (auto simp: table_inv_def hand_open_def stuck_def handIsRunning_def)

lemma betting_cards_distinct:
  assumes ok: "betting_ok t"
  shows "distinct (board t @ concat (map hole (filter has_hole (players t)))) \<and>
    set (board t @ concat (map hole (filter has_hole (players t))))
      \<subseteq> set (take (deck_next (the (deck t))) (deck_cards (the (deck t))))"
proof -
  note seats = betting_okD(1) [OF ok]
  obtain d where d: "deck t = Some d" "board_ok t (dealtCards d)" "holes_ok t (dealtCards d)"
    using betting_okD(8) [OF ok] by (auto simp: cards_ok_def)
  let ?ps = "filter has_hole (players t)"
  have seated: "\<exists>i. sits t i p \<and> has_hole p" if "p \<in> set ?ps" for p using that by (auto simp: in_players)
  have apart: "set (hole p) \<inter> set (hole q) = {}" if pq: "p \<in> set ?ps" "q \<in> set ?ps" "p \<noteq> q" for p q
  proof -
    obtain i j where ij: "sits t i p" "has_hole p" "sits t j q" "has_hole q" using seated pq(1,2) by blast
    then have "i \<noteq> j" using pq(3) sits_fun by blast
    then show ?thesis using d(3) ij unfolding holes_ok_def by blast
  qed
  have two: "length (hole p) = 2" if "p \<in> set ?ps" for p
    using seated [OF that] seats_ok_player [OF seats] by (auto simp: player_ok_def)
  have "distinct (concat (map hole ?ps))"
  proof (rule distinct_concat)
    have "inj_on hole (set ?ps)"
    proof (rule inj_onI, rule ccontr)
      fix p q assume pq: "p \<in> set ?ps" "q \<in> set ?ps" "hole p = hole q" "p \<noteq> q"
      then have "set (hole p) = {}" using apart [OF pq(1,2,4)] by simp
      then show False using two [OF pq(1)] by simp
    qed
    moreover have "distinct ?ps" using seats_ok_distinct [OF seats] by (simp add: distinct_map)
    ultimately show "distinct (map hole ?ps)" by (simp add: distinct_map)
  next
    show "distinct ys" if "ys \<in> set (map hole ?ps)" for ys
      using that seated d(3) unfolding holes_ok_def by auto
    show "set ys \<inter> set zs = {}" if "ys \<in> set (map hole ?ps)" "zs \<in> set (map hole ?ps)" "ys \<noteq> zs" for ys zs
      using that apart by auto
  qed
  moreover have "set (hole p) \<inter> set (board t) = {} \<and> set (hole p) \<subseteq> dealtCards d" if "p \<in> set ?ps" for p
    using seated [OF that] d(3) unfolding holes_ok_def by blast
  ultimately show ?thesis using d(1,2) by (fastforce simp: board_ok_def dealtCards_def)
qed

text \<open>While a hand is running, no card lies twice on the table: the cards of the board and the hole
  cards of all players are different, and each of them is among the cards drawn from the deck.\<close>
theorem cards_unique:
  assumes "reachable cfg t" "handIsRunning (street t)"
  shows "distinct (board t @ concat (map hole (filter has_hole (players t)))) \<and>
    set (board t @ concat (map hole (filter has_hole (players t))))
      \<subseteq> set (take (deck_next (the (deck t))) (deck_cards (the (deck t))))"
  by (rule betting_cards_distinct [OF running_betting_ok [OF reachable_table_inv [OF assms(1)] assms(2)]])

lemma headsUp_running: "handIsRunning (street (headsUp []))"
  by code_simp

theorem cards_unique_witness:
  "distinct (board (headsUp []) @ concat (map hole (filter has_hole (players (headsUp []))))) \<and>
    set (board (headsUp []) @ concat (map hole (filter has_hole (players (headsUp [])))))
      \<subseteq> set (take (deck_next (the (deck (headsUp [])))) (deck_cards (the (deck (headsUp [])))))"
  by (rule cards_unique [OF headsUp_start headsUp_running])

section \<open>Bounds\<close>

lemma member_le_sum:
  fixes f :: "'a \<Rightarrow> int"
  assumes "x \<in> set xs" "\<forall>y \<in> set xs. 0 \<le> f y"
  shows "f x \<le> sum_list (map f xs)"
  using assms by (intro member_le_sum_list) auto

text \<open>While a hand is running, every amount of the table lies between 0 and the chips at the table:
  the stacks, the commitments of the street and of the hand, and the current bet. The arithmetic of the code
  therefore stays within \<open>int64_t\<close> whenever the sum of the chips does.\<close>
theorem amounts_bounded:
  assumes "reachable cfg t" "handIsRunning (street t)" "p \<in> set (players t)"
  shows "0 \<le> stack p \<and> 0 \<le> street_commitment p \<and> street_commitment p \<le> hand_commitment p \<and>
    stack p + hand_commitment p \<le> totalChips t \<and> street_commitment p \<le> current_bet t \<and>
    current_bet t \<le> totalChips t"
proof -
  have ok: "betting_ok t" by (rule running_betting_ok [OF reachable_table_inv [OF assms(1)] assms(2)])
  have pok: "player_ok q" "bettor_ok t q" if "q \<in> set (players t)" for q
    using that seats_ok_player [OF betting_okD(1) [OF ok]] betting_okD(5) [OF ok] by (auto simp: in_players)
  have total: "totalChips t = sum_list (map (\<lambda>p. stack p + hand_commitment p) (players t))"
  proof -
    have "street t \<noteq> settled" using assms(2) by (auto simp: handIsRunning_def)
    then show ?thesis by (simp add: totalChips_def)
  qed
  have own: "stack q + hand_commitment q \<le> totalChips t" if "q \<in> set (players t)" for q
    unfolding total by (rule member_le_sum [OF that]) (use pok in \<open>force simp: player_ok_def\<close>)
  have "current_bet t \<le> totalChips t"
  proof (cases "current_bet t = 0")
    case True
    then show ?thesis using own [OF assms(3)] pok [OF assms(3)] by (simp add: player_ok_def)
  next
    case False
    then obtain q where "q \<in> set (players t)" "street_commitment q = current_bet t"
      using betting_okD(9) [OF ok] by (auto simp: bet_held_def in_players)
    then show ?thesis using own [of q] pok [of q] by (simp add: player_ok_def)
  qed
  then show ?thesis using own [OF assms(3)] pok [OF assms(3)] by (simp add: player_ok_def bettor_ok_def)
qed

theorem amounts_bounded_witness:
  "let t = headsUp []; p = hd (players t) in
    0 \<le> stack p \<and> 0 \<le> street_commitment p \<and> street_commitment p \<le> hand_commitment p \<and>
    stack p + hand_commitment p \<le> totalChips t \<and> street_commitment p \<le> current_bet t \<and>
    current_bet t \<le> totalChips t"
proof -
  have "players (headsUp []) \<noteq> []" by code_simp
  then show ?thesis using amounts_bounded [OF headsUp_start headsUp_running, of "hd (players (headsUp []))"] by simp
qed

section \<open>Snapshots\<close>

definition mayView :: "PlayerId option \<Rightarrow> Table \<Rightarrow> Player \<Rightarrow> bool" where
  "mayView viewer t p \<longleftrightarrow> viewer = Some (pid p) \<or> street t = settled \<and> isEligible p"



section \<open>Showdown\<close>

lemma eligible_settledTable:
  "contributorsAt level (settledTable u as) = map (\<lambda>p. (credit (awardsPayout as) p)\<lparr>ready := False\<rparr>) (contributorsAt level u)"
  "eligibleAt level (settledTable u as) = map (\<lambda>p. (credit (awardsPayout as) p)\<lparr>ready := False\<rparr>) (eligibleAt level u)"
  by (simp_all add: contributorsAt_def eligibleAt_def players_settledTable filter_map comp_def isEligible_def)

lemma clockwise_settledTable: "clockwiseDistance (settledTable u as) = clockwiseDistance u"
proof -
  have "seatHolds x (map_option (\<lambda>p. (credit (awardsPayout as) p)\<lparr>ready := False\<rparr>) y) = seatHolds x y" for x y
    by (cases y) (simp_all add: seatHolds_def)
  then show ?thesis
    by (simp add: clockwiseDistance_def seatOf_def settledTable_def markSettled_def mapPlayers_def
        first_index_map option.map_comp comp_def fun_eq_iff bumpSequence_def)
qed

lemma potAwards_settledTable: "potAwards (settledTable u as) previous levels = potAwards u previous levels"
proof -
  let ?f = "\<lambda>p. (credit (awardsPayout as) p)\<lparr>ready := False\<rparr>"
  have "handValue brd (?f p) = handValue brd p" for brd p by (simp add: handValue_def)
  then have "map pid (bestOfPlayers brd (map ?f ps)) = map pid (bestOfPlayers brd ps)" for brd ps
    by (simp add: bestOfPlayers_def filter_map comp_def)
  moreover have "board (settledTable u as) = board u" by (simp add: settledTable_def)
  ultimately have "potAward (settledTable u as) p l = potAward u p l" for p l
    by (simp add: potAward_def eligible_settledTable clockwise_settledTable)
  then show ?thesis by (induction levels arbitrary: previous) (simp_all add: eligible_settledTable)
qed

lemma levelsOf_settledTable: "levelsOf (settledTable u as) = levelsOf u"
  by (simp add: levelsOf_def players_settledTable comp_def)

lemma worth_players: "map worth (players t) = occupants (worths t)"
  by (simp add: worths_def occupants_map)

text \<open>A showdown without anybody left to act ends the hand at once.\<close>

lemma all_in_showdown:
  assumes "hand_step u t'" "2 \<le> contenders u" "actionable u = 0"
  shows "street t' = settled \<and> contenders t' = contenders u \<and> overCommitted t' = overCommitted u"
proof -
  have "\<not> round_end u t'"
  proof
    assume round: "round_end u t'"
    then obtain i p where p: "sits t' i p" "canAct p" by (auto simp: round_end_def hand_open_def actor_ready_def)
    have "map pid (filter canAct (players t')) = map pid (filter canAct (players u))"
      using round by (intro same_core_filter_map) (auto simp: round_end_def canAct_def)
    then have "actionable t' = actionable u" unfolding actionable_def by (metis length_map)
    then show False using actionable_pos [OF p] assms(3) by simp
  qed
  moreover have "\<not> fold_end u t'" using assms(2) by (simp add: fold_end_def)
  ultimately obtain v where "same_core u v" "t' = settledTable v (showdownAwards v)"
    using assms(1) by (auto simp: hand_step_def showdown_end_def)
  then show ?thesis using same_core_sums(2,4) [of u v] by (simp add: settledTable_same)
qed


text \<open>The example: both players with chips left fold on the flop against two players who are all-in
  for less.\<close>

definition deadTable :: Table where
  "deadTable = the (demoHand defaultConfig [(1, 0, 20000), (2, 1, 2000), (3, 2, 2000), (4, 3, 20000)]
     [command 4 raise 3000, command 1 call 0, command 2 all_in_action 0, command 3 all_in_action 0,
      command 4 fold_action 0])"

lemma deadTable_reachable: "reachable defaultConfig deadTable"
proof -
  have "demoHand defaultConfig [(1, 0, 20000), (2, 1, 2000), (3, 2, 2000), (4, 3, 20000)]
     [command 4 raise 3000, command 1 call 0, command 2 all_in_action 0, command 3 all_in_action 0,
      command 4 fold_action 0] \<noteq> None" by code_simp
  moreover have "validateConfig defaultConfig = ok" by code_simp
  ultimately show ?thesis unfolding deadTable_def using demoHand_reachable by fastforce
qed

lemma running_hand_open: "table_inv t \<Longrightarrow> acting_seat t = Some s \<Longrightarrow> handIsRunning (street t) \<Longrightarrow> hand_open t"
  by (auto simp: table_inv_def stuck_def handIsRunning_def)

lemma act_fold:
  assumes "table_inv t" "acting_seat t = Some s" "seats t ! s = Some p" "handIsRunning (street t)"
  shows "\<exists>r t'. act (command (pid p) fold_action 0) t = Inr (r, t') \<and> res_error r = ok \<and>
    hand_step (bumpSequence (removeFromActionSets (pid p) (setSeat s (p\<lparr>status := folded\<rparr>) t))) t'"
proof -
  have open_hand: "hand_open t" by (rule running_hand_open [OF assms(1,2,4)])
  then have inv: "betting_ok t" "called_ok t" "2 \<le> contenders t" by (auto simp: hand_open_def)
  have p: "sits t s p" "canAct p" "pid p \<in> pending_action t"
    using open_hand assms(2,3) by (auto simp: hand_open_def actor_ready_def sits_def)
  let ?t1 = "removeFromActionSets (pid p) (setSeat s (p\<lparr>status := folded\<rparr>) t)"
  let ?u = "bumpSequence ?t1"
  have "applyAction s p fold_action 0 t = Inr ?t1" by simp
  then obtain p' where "moved t s p p' ?t1" using applyAction_moved [OF inv(1,2) p] by blast
  then have u: "acted t s p p' ?u" "betting_ok ?u" "called_ok ?u"
    by (simp_all add: moved_def) (simp_all add: bumpSequence_def)
  obtain t' where "afterAction (seat p) ?u = Inr t'" "hand_step ?u t'"
    using afterAction_ok [OF u(2,3) acted_contenders_ge [OF u(1) inv(3)]] by blast
  moreover have "street t \<noteq> showdown" using betStreet_running [OF hand_open_street [OF open_hand]] by simp
  ultimately show ?thesis using assms(2-4) p by (simp add: act_def command_def)
qed

lemma deadTable_showdown:
  "\<exists>r t'. act (command 1 fold_action 0) deadTable = Inr (r, t') \<and> res_error r = ok \<and>
    street t' = settled \<and> contenders t' = 2 \<and> overCommitted t' = 2000"
proof -
  let ?p = "the (seats deadTable ! 0)"
  let ?u = "bumpSequence (removeFromActionSets (pid ?p) (setSeat 0 (?p\<lparr>status := folded\<rparr>) deadTable))"
  have facts: "acting_seat deadTable = Some 0" "handIsRunning (street deadTable)" "pid ?p = 1"
    "contenders ?u = 2" "actionable ?u = 0" "overCommitted ?u = 2000" by code_simp+
  have "seats deadTable ! 0 \<noteq> None" by code_simp
  then have p: "seats deadTable ! 0 = Some ?p" by auto
  obtain r t' where "act (command (pid ?p) fold_action 0) deadTable = Inr (r, t')" "res_error r = ok" "hand_step ?u t'"
    using act_fold [OF reachable_table_inv [OF deadTable_reachable] facts(1) p facts(2)] by blast
  then show ?thesis using all_in_showdown [of ?u t'] facts(3-6) by auto
qed

text \<open>C20. The awards at a showdown are those of the rules. For each level of commitment in ascending
  order, the pot of that level (what every player at the level put in above the level before) goes to the
  players with the best hand among those at the level who have not folded: all of them, in clockwise order
  from the dealer, with equal shares, the indivisible rest one chip each to the first of them
  (\<open>potAwards\<close>). The stacks afterwards are what was left of them plus exactly these payments.\<close>
theorem showdown_awards:
  assumes "reachable cfg t" "act cmd t = Inr (r, t')" "res_error r = ok" "street t' = settled" "2 \<le> contenders t'"
  shows "res_awards r = potAwards t' 0 (levelsOf t') \<and>
    map (\<lambda>p. (pid p, stack p + hand_commitment p - awardsPayout (res_awards r) (pid p))) (players t') =
    map (\<lambda>p. (pid p, stack p + hand_commitment p)) (players t)"
proof -
  have open_hand: "hand_open t"
    using act_cases [OF reachable_table_inv [OF assms(1)] assms(2)] assms(3) by auto
  obtain s p p' u where step: "action_step cmd t s p p' u t'" and awards: "res_awards r = last_awards t'"
    using act_ok [OF open_hand, of cmd] assms(2-4) by auto
  have u: "hand_step u t'" "acted t s p p' u" using step unfolding action_step_def moved_def by blast+
  have "\<not> fold_end u t'" using assms(5) by (auto simp: fold_end_def settledTable_same)
  moreover have "\<not> round_end u t'"
    using assms(4) by (auto simp: round_end_def dest!: hand_open_street betStreet_running)
  ultimately obtain v where v: "same_core u v" "t' = settledTable v (showdownAwards v)"
    using u(1) by (auto simp: hand_step_def showdown_end_def)
  let ?as = "showdownAwards v"
  have "res_awards r = ?as" using awards v(2) by simp
  moreover have "?as = potAwards t' 0 (levelsOf t')"
    unfolding v(2) potAwards_settledTable levelsOf_settledTable by (simp add: showdownAwards_def)
  moreover have "map (\<lambda>p. (pid p, stack p + hand_commitment p - awardsPayout ?as (pid p))) (players t')
      = map worth (players v)"
    by (simp add: v(2) players_settledTable worth_def comp_def)
  moreover have "worths v = worths t" using same_core_worths [OF v(1)] acted_worths [OF u(2)] by simp
  moreover have "worth = (\<lambda>p. (pid p, stack p + hand_commitment p))" by (simp add: worth_def fun_eq_iff)
  ultimately show ?thesis using worth_players [of v] worth_players [of t] by simp
qed


theorem showdown_awards_witness:
  "\<exists>r t'. act (command 1 fold_action 0) deadTable = Inr (r, t') \<and> res_awards r = potAwards t' 0 (levelsOf t') \<and>
    map (\<lambda>p. (pid p, stack p + hand_commitment p - awardsPayout (res_awards r) (pid p))) (players t') =
    map (\<lambda>p. (pid p, stack p + hand_commitment p)) (players deadTable)"
proof -
  obtain r t' where *: "act (command 1 fold_action 0) deadTable = Inr (r, t')" "res_error r = ok"
    "street t' = settled" "contenders t' = 2" using deadTable_showdown by blast
  then show ?thesis using showdown_awards [OF deadTable_reachable *(1-3)] by auto
qed

section \<open>Where the code falls short\<close>

text \<open>The chips at the table are not conserved in every hand: a level of commitment that only folded
  players reached is skipped by \<open>buildAndAwardPots\<close>, and its chips are paid to nobody. Here two players
  raise to 3000, fold on the flop against two players who are all-in for 2000, and 2000 of the 44000 chips
  at the table vanish.\<close>
theorem dead_money:
  "\<exists>t r t'. reachable defaultConfig t \<and> act (command 1 fold_action 0) t = Inr (r, t') \<and> res_error r = ok \<and>
    totalChips t = 44000 \<and> totalChips t' = 42000"
proof -
  obtain r t' where *: "act (command 1 fold_action 0) deadTable = Inr (r, t')" "res_error r = ok"
    "street t' = settled" "contenders t' = 2" "overCommitted t' = 2000" using deadTable_showdown by blast
  obtain s p p' u where "action_step (command 1 fold_action 0) deadTable s p p' u t'" "hand_open deadTable"
    using act_cases [OF reachable_table_inv [OF deadTable_reachable] *(1)] *(2) by auto
  then have "totalChips t' = totalChips deadTable - unclaimed t'" by (rule action_step_total)
  moreover have "totalChips deadTable = 44000" by code_simp
  ultimately show ?thesis using deadTable_reachable * by (auto simp: unclaimed_def)
qed

definition shortBlinds :: TableConfig where
  "shortBlinds = defaultConfig\<lparr>min_buy_in := 80\<rparr>"

definition stuckTable :: Table where
  "stuckTable = the (demoHand shortBlinds [(1, 0, 5000), (2, 1, 80)] [])"

text \<open>C40. A hand can start in which nobody is able to act: heads-up, when the big blind is all-in for more
  than the small blind but less than the big blind, \<open>startHand\<close> clears the waited-for players although the
  small blind still owes chips. The betting round then counts as incomplete, no seat is to act, and every
  command of every player is rejected.\<close>
theorem stuck_hand:
  "\<exists>t. reachable shortBlinds t \<and> handIsRunning (street t) \<and> acting_seat t = None \<and>
    (\<forall>cmd. \<exists>r. act cmd t = Inr (r, t) \<and> res_error r = not_players_turn)"
proof -
  have "demoHand shortBlinds [(1, 0, 5000), (2, 1, 80)] [] \<noteq> None" by code_simp
  moreover have "validateConfig shortBlinds = ok" by code_simp
  ultimately have "reachable shortBlinds stuckTable"
    unfolding stuckTable_def using demoHand_reachable by fastforce
  moreover have "street stuckTable = preflop" "acting_seat stuckTable = None" by code_simp+
  ultimately show ?thesis by (intro exI [of _ stuckTable]) (simp add: act_def handIsRunning_def failResult_def)
qed

end
