(* ===== verification/Assoc_Maps.thy ===== *)
theory Assoc_Maps
  imports Prelude "HOL-Library.AList"
begin

text \<open>
  The hash maps of the program. An \<open>std::unordered_map\<close> or \<open>std::map\<close> is an association list with
  distinct keys (\<open>assoc\<close>), so that its \<open>size()\<close> is the length and its contents can be evaluated:
  \<open>find\<close> is \<open>map_of\<close>, writing through an iterator or \<open>operator[]\<close> is \<open>put\<close>, \<open>emplace\<close> is
  \<open>put\<close> at an absent key, \<open>erase\<close> is \<open>erase\<close>. Nothing in the program depends on the order of
  iteration over a hash map. The lemmas move lookups, sizes and sums of values through these operations;
  \<open>map_simps\<close> collects the equations.
\<close>

type_synonym ('k, 'v) assoc_map = "('k \<times> 'v) list"

named_theorems map_simps "lookups after an update of an association map"

definition assoc :: "('k, 'v) assoc_map \<Rightarrow> bool" where
  "assoc m \<longleftrightarrow> distinct (map fst m)"

definition put :: "'k \<Rightarrow> 'v \<Rightarrow> ('k, 'v) assoc_map \<Rightarrow> ('k, 'v) assoc_map" where
  "put k v m = AList.update k v m"

definition erase :: "'k \<Rightarrow> ('k, 'v) assoc_map \<Rightarrow> ('k, 'v) assoc_map" where
  "erase k m = AList.delete k m"

text \<open>The sum of a value over the entries.\<close>

definition sumOver :: "('v \<Rightarrow> int) \<Rightarrow> ('k, 'v) assoc_map \<Rightarrow> int" where
  "sumOver f m = sum_list (map (\<lambda>(k, v). f v) m)"

lemma assoc_Nil [simp]: "assoc []"
  by (simp add: assoc_def)

lemma map_of_put [map_simps]: "map_of (put k v m) = (map_of m)(k \<mapsto> v)"
  by (simp add: put_def update_conv')

lemma map_of_erase [map_simps]: "map_of (erase k m) = (map_of m)(k := None)"
  by (simp add: erase_def delete_conv')

lemma assoc_put [simp, intro]: "assoc m \<Longrightarrow> assoc (put k v m)"
  by (simp add: assoc_def put_def distinct_update)

lemma assoc_erase [simp, intro]: "assoc m \<Longrightarrow> assoc (erase k m)"
  by (simp add: assoc_def erase_def distinct_delete)

lemma put_absent: "map_of m k = None \<Longrightarrow> put k v m = m @ [(k, v)]"
  by (induction m) (auto simp: put_def split: if_splits)

lemma erase_absent: "map_of m k = None \<Longrightarrow> erase k m = m"
  by (induction m) (auto simp: erase_def AList.delete_eq split: if_splits)

lemma put_same: "map_of m k = Some v \<Longrightarrow> put k v m = m"
  by (induction m) (auto simp: put_def split: if_splits)

lemma sumOver_Nil [simp]: "sumOver f [] = 0"
  by (simp add: sumOver_def)

lemma sumOver_Cons [simp]: "sumOver f ((k, v) # m) = f v + sumOver f m"
  by (simp add: sumOver_def)

lemma sumOver_append [simp]: "sumOver f (m @ m') = sumOver f m + sumOver f m'"
  by (simp add: sumOver_def)

lemma length_put:
  "assoc m \<Longrightarrow> length (put k v m) = (if map_of m k = None then Suc (length m) else length m)"
  by (induction m) (auto simp: put_def assoc_def)

lemma map_of_absent: "assoc ((k, v) # m) \<Longrightarrow> map_of m k = None"
  by (simp add: assoc_def map_of_eq_None_iff)

lemma length_erase:
  "assoc m \<Longrightarrow> length (erase k m) = (if map_of m k = None then length m else length m - 1)"
proof (induction m)
  case (Cons x m)
  obtain k' v where x: "x = (k', v)" by (cases x)
  show ?case
  proof (cases "k' = k")
    case True
    then have "map_of m k = None" using Cons.prems x map_of_absent by metis
    then show ?thesis using erase_absent [of m k] True x by (simp add: erase_def)
  next
    case False
    have "length m - 1 = length m - Suc 0 \<and> (map_of m k \<noteq> None \<longrightarrow> 0 < length m)" by (cases m) auto
    then show ?thesis
      using Cons False x by (auto simp: erase_def assoc_def split: if_splits)
  qed
qed (simp add: erase_def)

lemma sumOver_put:
  "assoc m \<Longrightarrow> sumOver f (put k v m) = sumOver f m + f v - (case map_of m k of None \<Rightarrow> 0 | Some w \<Rightarrow> f w)"
proof (induction m)
  case (Cons x m)
  then show ?case by (cases x) (auto simp: put_def assoc_def split: option.splits)
qed (simp add: put_def)

lemma sumOver_erase:
  "assoc m \<Longrightarrow> sumOver f (erase k m) = sumOver f m - (case map_of m k of None \<Rightarrow> 0 | Some w \<Rightarrow> f w)"
proof (induction m)
  case (Cons x m)
  obtain k' v where x: "x = (k', v)" by (cases x)
  show ?case
  proof (cases "k' = k")
    case True
    then have "map_of m k = None" using Cons.prems x map_of_absent by metis
    then show ?thesis using erase_absent [of m k] True x by (simp add: erase_def)
  next
    case False
    then show ?thesis using Cons x by (auto simp: erase_def assoc_def split: option.splits)
  qed
qed (simp add: erase_def)

lemma in_assoc: "assoc m \<Longrightarrow> (k, v) \<in> set m \<longleftrightarrow> map_of m k = Some v"
  by (auto simp: assoc_def map_of_eq_Some_iff)

lemma sumOver_cong: "(\<And>k v. (k, v) \<in> set m \<Longrightarrow> f v = g v) \<Longrightarrow> sumOver f m = sumOver g m"
  unfolding sumOver_def by (intro arg_cong [of _ _ sum_list] map_cong) auto

lemma sumOver_nonneg: "(\<And>k v. (k, v) \<in> set m \<Longrightarrow> 0 \<le> f v) \<Longrightarrow> 0 \<le> sumOver f m"
  unfolding sumOver_def by (intro sum_list_nonneg) auto

end
