(* ===== verification/Account_Store.thy ===== *)
theory Account_Store
  imports Assoc_Maps
begin

text \<open>
  The interface of \<open>src/include/poker/storage/account_store.hpp\<close> and its implementation
  \<open>src/include/poker/storage/in_memory_account_store.hpp\<close>,
  \<open>src/src/poker/storage/in_memory_account_store.cpp\<close>. The abstract class is the record \<open>AccountStore\<close> of
  its virtual functions over a state \<open>'s\<close>; \<open>memoryAccounts\<close> is the record of the functions of the
  implementation. Each member function holds the mutex from its first access on, so it is one step.
  \<open>std::int64_t\<close> amounts and times are \<open>int\<close>.

  The locale \<open>session_store\<close> states what a client may rely on: an abstract map of sessions and one of users,
  and how each operation reads or changes them. \<open>memory_sessions\<close> is its interpretation.
\<close>

section \<open>Results of storage operations\<close>

type_synonym UserId = u64

datatype StorageError =
    storage_ok
  | storage_duplicate
  | not_found
  | insufficient_funds
  | conflict
  | unavailable
  | invalid_data

record 'a StorageResult =
  storage_error :: StorageError
  storage_value :: "'a option"
  storage_message :: string

text \<open>The conversion to \<open>bool\<close>.\<close>

definition succeeded :: "'a StorageResult \<Rightarrow> bool" where
  "succeeded r \<longleftrightarrow> storage_error r = storage_ok \<and> storage_value r \<noteq> None"

definition storageFail :: "StorageError \<Rightarrow> string \<Rightarrow> 'a StorageResult" where
  "storageFail e msg = \<lparr>storage_error = e, storage_value = None, storage_message = msg\<rparr>"

definition storageOk :: "'a \<Rightarrow> 'a StorageResult" where
  "storageOk x = \<lparr>storage_error = storage_ok, storage_value = Some x, storage_message = []\<rparr>"

lemma storage_result_simps [simp]:
  "succeeded (storageOk x)" "\<not> succeeded (storageFail e msg)" "storage_value (storageOk x) = Some x"
  "storage_error (storageOk x) = storage_ok" "storage_error (storageFail e msg) = e"
  "storage_message (storageFail e msg) = msg" "storage_value (storageFail e msg) = None"
  by (simp_all add: succeeded_def storageOk_def storageFail_def)

section \<open>Records and interface\<close>

record UserRecord =
  user_key :: UserId
  user_name :: string
  password_hash :: string
  wallet_balance :: int
  disabled :: bool

record SessionRecord =
  session_user :: UserId
  token_hash :: string
  expires_at_unix_ms :: int
  last_client_sequence :: u64
  revoked :: bool

record 's AccountStore =
  create_user :: "string \<Rightarrow> string \<Rightarrow> int \<Rightarrow> 's \<Rightarrow> UserRecord StorageResult \<times> 's"
  find_user_by_name :: "string \<Rightarrow> 's \<Rightarrow> UserRecord StorageResult result"
  find_user_by_id :: "UserId \<Rightarrow> 's \<Rightarrow> UserRecord StorageResult"
  store_session :: "SessionRecord \<Rightarrow> 's \<Rightarrow> StorageError \<times> 's"
  find_session :: "string \<Rightarrow> int \<Rightarrow> 's \<Rightarrow> SessionRecord StorageResult"
  rotate_session :: "string \<Rightarrow> SessionRecord \<Rightarrow> int \<Rightarrow> 's \<Rightarrow> StorageError \<times> 's"
  revoke_session :: "string \<Rightarrow> 's \<Rightarrow> StorageError \<times> 's"
  update_session_sequence :: "string \<Rightarrow> u64 \<Rightarrow> u64 \<Rightarrow> 's \<Rightarrow> StorageError \<times> 's"

section \<open>The implementation in memory\<close>

record InMemoryAccountStore =
  next_user_id :: UserId
  account_users :: "(UserId, UserRecord) assoc_map"
  usernames :: "(string, UserId) assoc_map"
  sessions :: "(string, SessionRecord) assoc_map"

definition newAccountStore :: InMemoryAccountStore where
  "newAccountStore = \<lparr>next_user_id = 1, account_users = [], usernames = [], sessions = []\<rparr>"

text \<open>\<open>emplace\<close>: keeps an entry that exists.\<close>

definition emplace :: "'k \<Rightarrow> 'v \<Rightarrow> ('k, 'v) assoc_map \<Rightarrow> ('k, 'v) assoc_map" where
  "emplace k v m = (if map_of m k = None then put k v m else m)"

definition createUser :: "string \<Rightarrow> string \<Rightarrow> int \<Rightarrow> InMemoryAccountStore \<Rightarrow> UserRecord StorageResult \<times> InMemoryAccountStore" where
  "createUser username hash initial_chips s =
     (if username = [] \<or> hash = [] \<or> initial_chips < 0 then (storageFail invalid_data ''invalid account data'', s)
      else if map_of (usernames s) username \<noteq> None then (storageFail storage_duplicate ''username already exists'', s)
      else
        (let record = \<lparr>user_key = next_user_id s, user_name = username, password_hash = hash,
                       wallet_balance = initial_chips, disabled = False\<rparr>
         in (storageOk record,
             s\<lparr>next_user_id := next_user_id s + 1,
               usernames := emplace username (user_key record) (usernames s),
               account_users := emplace (user_key record) record (account_users s)\<rparr>)))"

definition findUserByName :: "string \<Rightarrow> InMemoryAccountStore \<Rightarrow> UserRecord StorageResult result" where
  "findUserByName username s =
     (case map_of (usernames s) username of
        None \<Rightarrow> Inr (storageFail not_found ''user not found'')
      | Some i \<Rightarrow> (case map_of (account_users s) i of
                     None \<Rightarrow> Inl out_of_range
                   | Some u \<Rightarrow> Inr (storageOk u)))"

definition findUserById :: "UserId \<Rightarrow> InMemoryAccountStore \<Rightarrow> UserRecord StorageResult" where
  "findUserById i s =
     (case map_of (account_users s) i of
        None \<Rightarrow> storageFail not_found ''user not found''
      | Some u \<Rightarrow> storageOk u)"

definition storeSession :: "SessionRecord \<Rightarrow> InMemoryAccountStore \<Rightarrow> StorageError \<times> InMemoryAccountStore" where
  "storeSession x s =
     (if session_user x = 0 \<or> token_hash x = [] \<or> expires_at_unix_ms x \<le> 0 then (invalid_data, s)
      else if map_of (account_users s) (session_user x) = None then (not_found, s)
      else if map_of (sessions s) (token_hash x) \<noteq> None then (conflict, s)
      else (storage_ok, s\<lparr>sessions := put (token_hash x) x (sessions s)\<rparr>))"

definition findSession :: "string \<Rightarrow> int \<Rightarrow> InMemoryAccountStore \<Rightarrow> SessionRecord StorageResult" where
  "findSession h now s =
     (case map_of (sessions s) h of
        None \<Rightarrow> storageFail not_found ''session not found or expired''
      | Some x \<Rightarrow> (if revoked x \<or> expires_at_unix_ms x \<le> now
                   then storageFail not_found ''session not found or expired'' else storageOk x))"

definition rotateSession :: "string \<Rightarrow> SessionRecord \<Rightarrow> int \<Rightarrow> InMemoryAccountStore \<Rightarrow> StorageError \<times> InMemoryAccountStore" where
  "rotateSession current_key x now s =
     (if session_user x = 0 \<or> token_hash x = [] \<or> expires_at_unix_ms x \<le> now then (invalid_data, s)
      else case map_of (sessions s) current_key of
        None \<Rightarrow> (not_found, s)
      | Some current \<Rightarrow>
          (if revoked current \<or> expires_at_unix_ms current \<le> now \<or> session_user current \<noteq> session_user x
           then (not_found, s)
           else if token_hash x \<noteq> current_key \<and> map_of (sessions s) (token_hash x) \<noteq> None then (conflict, s)
           else
             (let ss = put (token_hash x) x (sessions s)
              in (storage_ok, s\<lparr>sessions := (if token_hash x \<noteq> current_key then erase current_key ss else ss)\<rparr>))))"

definition revokeSession :: "string \<Rightarrow> InMemoryAccountStore \<Rightarrow> StorageError \<times> InMemoryAccountStore" where
  "revokeSession h s =
     (case map_of (sessions s) h of
        None \<Rightarrow> (not_found, s)
      | Some x \<Rightarrow> (storage_ok, s\<lparr>sessions := put h (x\<lparr>revoked := True\<rparr>) (sessions s)\<rparr>))"

definition updateSessionSequence :: "string \<Rightarrow> u64 \<Rightarrow> u64 \<Rightarrow> InMemoryAccountStore \<Rightarrow> StorageError \<times> InMemoryAccountStore" where
  "updateSessionSequence h expected replacement s =
     (case map_of (sessions s) h of
        None \<Rightarrow> (not_found, s)
      | Some x \<Rightarrow>
          (if revoked x then (not_found, s)
           else if last_client_sequence x \<noteq> expected \<or> replacement \<noteq> expected + 1 then (conflict, s)
           else (storage_ok, s\<lparr>sessions := put h (x\<lparr>last_client_sequence := replacement\<rparr>) (sessions s)\<rparr>)))"

definition memoryAccounts :: "InMemoryAccountStore AccountStore" where
  "memoryAccounts = \<lparr>create_user = createUser, find_user_by_name = findUserByName, find_user_by_id = findUserById,
     store_session = storeSession, find_session = findSession, rotate_session = rotateSession,
     revoke_session = revokeSession, update_session_sequence = updateSessionSequence\<rparr>"

section \<open>The contract\<close>

text \<open>A session that can be used at a time.\<close>

definition live :: "int \<Rightarrow> SessionRecord \<Rightarrow> bool" where
  "live now x \<longleftrightarrow> \<not> revoked x \<and> now < expires_at_unix_ms x"

locale session_store =
  fixes ops :: "'s AccountStore"
    and valid :: "'s \<Rightarrow> bool"
    and sessionAt :: "'s \<Rightarrow> string \<Rightarrow> SessionRecord option"
    and userAt :: "'s \<Rightarrow> UserId \<Rightarrow> UserRecord option"
  assumes user_by_id: "valid s \<Longrightarrow>
      (case userAt s i of None \<Rightarrow> \<not> succeeded (find_user_by_id ops i s) | Some u \<Rightarrow> find_user_by_id ops i s = storageOk u)"
    and user_by_name: "valid s \<Longrightarrow> \<exists>r. find_user_by_name ops n s = Inr r \<and>
      (succeeded r \<longrightarrow> (\<exists>u. r = storageOk u \<and> user_name u = n \<and> userAt s (user_key u) = Some u \<and> user_key u \<noteq> 0))"
    and user_key: "valid s \<Longrightarrow> userAt s i = Some u \<Longrightarrow> user_key u = i \<and> i \<noteq> 0"
    and store: "valid s \<Longrightarrow> store_session ops x s = (e, s') \<Longrightarrow>
      valid s' \<and> userAt s' = userAt s \<and>
      (if e = storage_ok then sessionAt s (token_hash x) = None \<and> sessionAt s' = (sessionAt s)(token_hash x \<mapsto> x) else s' = s)"
    and found: "valid s \<Longrightarrow>
      (case sessionAt s h of
         None \<Rightarrow> \<not> succeeded (find_session ops h now s)
       | Some x \<Rightarrow> if live now x then find_session ops h now s = storageOk x else \<not> succeeded (find_session ops h now s))"
    and rotate: "valid s \<Longrightarrow> rotate_session ops h x now s = (e, s') \<Longrightarrow>
      valid s' \<and> userAt s' = userAt s \<and>
      (if e = storage_ok
       then (\<exists>y. sessionAt s h = Some y \<and> live now y \<and> session_user y = session_user x) \<and> now < expires_at_unix_ms x \<and>
         (token_hash x = h \<or> sessionAt s (token_hash x) = None) \<and>
         sessionAt s' = ((sessionAt s)(h := None))(token_hash x \<mapsto> x)
       else s' = s)"
    and revoke: "valid s \<Longrightarrow> revoke_session ops h s = (e, s') \<Longrightarrow>
      valid s' \<and> userAt s' = userAt s \<and>
      (if e = storage_ok then \<exists>x. sessionAt s h = Some x \<and> sessionAt s' = (sessionAt s)(h \<mapsto> x\<lparr>revoked := True\<rparr>) else s' = s)"

section \<open>The implementation keeps the contract\<close>

text \<open>The invariant: names and ids correspond, and ids are handed out in order from 1. It holds as long as
  fewer than \<open>2 ^ 64 - 1\<close> accounts exist.\<close>

definition accounts_ok :: "InMemoryAccountStore \<Rightarrow> bool" where
  "accounts_ok s \<longleftrightarrow>
     (\<forall>i u. map_of (account_users s) i = Some u \<longrightarrow> user_key u = i \<and> i \<noteq> 0 \<and> i < next_user_id s) \<and>
     (\<forall>n i. map_of (usernames s) n = Some i \<longrightarrow> (\<exists>u. map_of (account_users s) i = Some u \<and> user_name u = n)) \<and>
     0 < next_user_id s"

lemma newAccountStore_ok: "accounts_ok newAccountStore"
  by (simp add: accounts_ok_def newAccountStore_def)

lemma accounts_ok_sessions [simp]: "accounts_ok (s\<lparr>sessions := x\<rparr>) = accounts_ok s"
  by (simp add: accounts_ok_def)

lemma memoryAccounts_simps [simp]:
  "create_user memoryAccounts = createUser" "find_user_by_name memoryAccounts = findUserByName"
  "find_user_by_id memoryAccounts = findUserById" "store_session memoryAccounts = storeSession"
  "find_session memoryAccounts = findSession" "rotate_session memoryAccounts = rotateSession"
  "revoke_session memoryAccounts = revokeSession" "update_session_sequence memoryAccounts = updateSessionSequence"
  by (simp_all add: memoryAccounts_def)

abbreviation memorySession :: "InMemoryAccountStore \<Rightarrow> string \<Rightarrow> SessionRecord option" where
  "memorySession s \<equiv> map_of (sessions s)"

abbreviation memoryUser :: "InMemoryAccountStore \<Rightarrow> UserId \<Rightarrow> UserRecord option" where
  "memoryUser s \<equiv> map_of (account_users s)"

interpretation memory_sessions: session_store memoryAccounts accounts_ok memorySession memoryUser
proof unfold_locales
  fix s i n h x e s' now u
  assume ok: "accounts_ok s"
  show "case memoryUser s i of None \<Rightarrow> \<not> succeeded (find_user_by_id memoryAccounts i s)
      | Some u \<Rightarrow> find_user_by_id memoryAccounts i s = storageOk u"
    by (simp add: findUserById_def split: option.splits)
  show "\<exists>r. find_user_by_name memoryAccounts n s = Inr r \<and>
      (succeeded r \<longrightarrow> (\<exists>u. r = storageOk u \<and> user_name u = n \<and> memoryUser s (user_key u) = Some u \<and> user_key u \<noteq> 0))"
  proof (cases "map_of (usernames s) n")
    case (Some j)
    then obtain v where "memoryUser s j = Some v" "user_name v = n" "user_key v = j" "j \<noteq> 0"
      using ok by (fastforce simp: accounts_ok_def)
    then show ?thesis using Some by (auto simp: findUserByName_def)
  qed (simp add: findUserByName_def)
  show "memoryUser s i = Some u \<Longrightarrow> user_key u = i \<and> i \<noteq> 0" using ok by (simp add: accounts_ok_def)
  show "store_session memoryAccounts x s = (e, s') \<Longrightarrow> accounts_ok s' \<and> memoryUser s' = memoryUser s \<and>
      (if e = storage_ok then memorySession s (token_hash x) = None \<and> memorySession s' = (memorySession s)(token_hash x \<mapsto> x)
       else s' = s)"
    using ok by (auto simp: storeSession_def map_simps split: if_splits)
  show "case memorySession s h of None \<Rightarrow> \<not> succeeded (find_session memoryAccounts h now s)
      | Some x \<Rightarrow> if live now x then find_session memoryAccounts h now s = storageOk x
                  else \<not> succeeded (find_session memoryAccounts h now s)"
    by (auto simp: findSession_def live_def split: option.splits)
  show "rotate_session memoryAccounts h x now s = (e, s') \<Longrightarrow> accounts_ok s' \<and> memoryUser s' = memoryUser s \<and>
      (if e = storage_ok
       then (\<exists>y. memorySession s h = Some y \<and> live now y \<and> session_user y = session_user x) \<and> now < expires_at_unix_ms x \<and>
         (token_hash x = h \<or> memorySession s (token_hash x) = None) \<and>
         memorySession s' = ((memorySession s)(h := None))(token_hash x \<mapsto> x)
       else s' = s)"
    using ok by (auto simp: rotateSession_def live_def map_simps Let_def fun_eq_iff split: if_splits option.splits)
  show "revoke_session memoryAccounts h s = (e, s') \<Longrightarrow> accounts_ok s' \<and> memoryUser s' = memoryUser s \<and>
      (if e = storage_ok then \<exists>x. memorySession s h = Some x \<and> memorySession s' = (memorySession s)(h \<mapsto> x\<lparr>revoked := True\<rparr>)
       else s' = s)"
    using ok by (auto simp: revokeSession_def map_simps split: if_splits option.splits)
qed


text \<open>A created account can be found by its name and its id; the other accounts stay.\<close>

lemma createUser_ok:
  assumes "accounts_ok s" "createUser n hash chips s = (r, s')" "succeeded r" "next_user_id s + 1 \<noteq> 0"
  shows "\<exists>u. r = storageOk u \<and> u = \<lparr>user_key = next_user_id s, user_name = n, password_hash = hash,
      wallet_balance = chips, disabled = False\<rparr> \<and> accounts_ok s' \<and> map_of (usernames s) n = None \<and>
    map_of (usernames s') = (map_of (usernames s))(n \<mapsto> user_key u) \<and>
    memoryUser s' = (memoryUser s)(user_key u \<mapsto> u) \<and> memorySession s' = memorySession s"
proof -
  let ?u = "\<lparr>user_key = next_user_id s, user_name = n, password_hash = hash, wallet_balance = chips, disabled = False\<rparr>"
  have new: "memoryUser s (next_user_id s) = None"
    using assms(1) unfolding accounts_ok_def by (metis less_irrefl option.exhaust)
  have r: "r = storageOk ?u" "map_of (usernames s) n = None" and
    s': "s' = s\<lparr>next_user_id := next_user_id s + 1, usernames := put n (next_user_id s) (usernames s),
           account_users := put (next_user_id s) ?u (account_users s)\<rparr>"
    using assms(2,3) new by (auto simp: createUser_def Let_def emplace_def split: if_splits)
  have up: "next_user_id s < next_user_id s + 1" using assms(4) by (simp add: word_less_nat_alt unatSuc add.commute)
  have "accounts_ok s'"
    unfolding accounts_ok_def
  proof (intro conjI allI impI)
    fix i u assume "memoryUser s' i = Some u"
    then show "user_key u = i" "i \<noteq> 0" "i < next_user_id s'"
      using assms(1) up s' by (auto simp: accounts_ok_def map_simps split: if_splits intro: less_trans)
  next
    fix m i assume "map_of (usernames s') m = Some i"
    then show "\<exists>u. memoryUser s' i = Some u \<and> user_name u = m"
      using assms(1) new s' r(2) by (fastforce simp: accounts_ok_def map_simps split: if_splits)
  next
    show "0 < next_user_id s'" using s' assms(4) by (simp add: word_neq_0_conv)
  qed
  then show ?thesis using r s' by (simp add: map_simps)
qed

end
