(* ===== verification/Strings.thy ===== *)
theory Strings
  imports Prelude
begin

text \<open>
  The conversions between numbers and strings of the C++ library that the program uses: \<open>std::to_string\<close> of
  an unsigned number, \<open>std::stoll\<close> in base ten with the number of characters it consumed, and the character
  classes of the C locale. \<open>stoll_to_string\<close> is their round trip.
\<close>

definition isdigit :: "char \<Rightarrow> bool" where
  "isdigit ch = (let n = (of_char ch :: nat) in 48 \<le> n \<and> n \<le> 57)"

definition isspace :: "char \<Rightarrow> bool" where
  "isspace ch = (let n = (of_char ch :: nat) in n = 32 \<or> 9 \<le> n \<and> n \<le> 13)"

fun to_string :: "nat \<Rightarrow> string" where
  "to_string n = (if n < 10 then [char_of (48 + n)] else to_string (n div 10) @ [char_of (48 + n mod 10)])"

declare to_string.simps [simp del]

text \<open>The value of a sequence of digits.\<close>

definition decimal :: "string \<Rightarrow> nat" where
  "decimal ds = foldl (\<lambda>n ch. 10 * n + (of_char ch - 48)) 0 ds"

text \<open>\<open>std::stoll(value, &consumed, 10)\<close>: leading white space, an optional sign, at least one digit.\<close>

definition stoll :: "string \<Rightarrow> (int \<times> nat) result" where
  "stoll s =
     (let blanks = takeWhile isspace s;
          rest = dropWhile isspace s;
          sign = takeWhile (\<lambda>ch. ch = CHR ''-'' \<or> ch = CHR ''+'') (take 1 rest);
          ds = takeWhile isdigit (drop (length sign) rest);
          v = (if sign = ''-'' then - int (decimal ds) else int (decimal ds))
      in if ds = [] then Inl invalid_argument
         else if v < - (2 ^ 63) \<or> v \<ge> 2 ^ 63 then Inl out_of_range
         else Inr (v, length blanks + length sign + length ds))"

lemma to_string_digits: "ch \<in> set (to_string n) \<Longrightarrow> 48 \<le> (of_char ch :: nat) \<and> (of_char ch :: nat) \<le> 57"
proof (induction n rule: to_string.induct)
  case (1 n)
  show ?case
  proof (cases "n < 10")
    case True
    then show ?thesis using "1.prems" by (simp add: to_string.simps [of n])
  next
    case False
    then have "ch \<in> set (to_string (n div 10)) \<or> ch = char_of (48 + n mod 10)"
      using "1.prems" by (auto simp: to_string.simps [of n])
    moreover have "n mod 10 < 10" by simp
    then have "48 + n mod 10 \<le> 57" by linarith
    ultimately show ?thesis using "1.IH" [OF False] by auto
  qed
qed

lemma to_string_ne [simp]: "to_string n \<noteq> []"
  by (simp add: to_string.simps [of n])

lemma decimal_snoc: "decimal (ds @ [ch]) = 10 * decimal ds + (of_char ch - 48)"
  by (simp add: decimal_def)

lemma decimal_to_string [simp]: "decimal (to_string n) = n"
proof (induction n rule: to_string.induct)
  case (1 n)
  have digit: "(of_char (char_of (48 + k) :: char) :: nat) - 48 = k" if "k < 10" for k using that by (simp only: of_char_of) simp
  show ?case
  proof (cases "n < 10")
    case True
    then show ?thesis using digit [of n] by (simp add: to_string.simps [of n] decimal_def)
  next
    case False
    then have "decimal (to_string n) = 10 * (n div 10) + n mod 10"
      using "1.IH" digit [of "n mod 10"] by (simp add: to_string.simps [of n] decimal_snoc)
    then show ?thesis by simp
  qed
qed

lemma to_string_inject: "to_string m = to_string n \<Longrightarrow> m = n"
  by (metis decimal_to_string)

lemma stoll_to_string:
  assumes "n < 2 ^ 63"
  shows "stoll (to_string n) = Inr (int n, length (to_string n))"
proof -
  obtain ch ds where s: "to_string n = ch # ds" by (cases "to_string n") auto
  have d: "isdigit c" if "c \<in> set (to_string n)" for c using to_string_digits [OF that] by (simp add: isdigit_def)
  have "\<not> isspace ch" "ch \<noteq> CHR ''-''" "ch \<noteq> CHR ''+''"
    using to_string_digits [of ch n] s by (auto simp: isspace_def)
  moreover have "takeWhile isdigit (to_string n) = to_string n" using d by (simp add: takeWhile_eq_all_conv)
  moreover have "int n < 2 ^ 63" using assms by simp
  ultimately show ?thesis using decimal_to_string [of n] s by (simp add: stoll_def Let_def)
qed

end
