(* ===== verification/Game_Store.thy ===== *)
theory Game_Store
  imports Table_Model Account_Store Strings
begin

text \<open>
  Model of \<open>src/include/poker/storage/game_store.hpp\<close>, \<open>src/include/poker/storage/game_store_validation.hpp\<close>
  and of the transactional store \<open>src/include/poker/storage/in_memory_game_store.hpp\<close>,
  \<open>src/src/poker/storage/in_memory_game_store.cpp\<close>: wallets, tables with their seats, the ledger of buy-ins
  and cash-outs, and the history of hands. Every member function runs under the mutex and is one step on the
  record \<open>InMemoryGameStore\<close>. \<open>std::int64_t\<close> amounts are \<open>int\<close>; the sums of \<open>validHandSettlement\<close>
  are guarded against overflow by the code, and the guards are kept.
\<close>

section \<open>Records\<close>

record TableRecord =
  table_key :: u64
  table_name :: string
  node_id :: string
  table_config :: TableConfig
  created_by :: UserId

record BuyInReceipt =
  buy_in_wallet :: int
  table_stack :: int

record CashOutReceipt =
  cash_out_wallet :: int
  returned_stack :: int

record HandActionRecord =
  action_hand_id :: u64
  action_sequence :: u64
  action_request_id :: u64
  action_user_id :: UserId
  action_street :: Street
  action_kind :: ActionType
  target_amount :: int

record HandStartPlayer =
  start_user_id :: UserId
  start_seat :: u32
  start_stack :: int
  start_hole_cards :: "Card list"

record HandStartRecord =
  start_hand_id :: u64
  start_table_id :: u64
  start_hand_number :: u64
  start_dealer_seat :: u32
  start_players :: "HandStartPlayer list"

record HandPlayerSettlement =
  settled_user_id :: UserId
  settled_seat :: u32
  settled_start_stack :: int
  committed :: int
  winnings :: int
  end_stack :: int
  settled_hole_cards :: "Card list"
  settled_folded :: bool

record HandSettlementRecord =
  settled_hand_id :: u64
  settled_table_id :: u64
  settled_hand_number :: u64
  settled_dealer_seat :: u32
  settled_board :: "Card list"
  total_pot :: int
  settled_players :: "HandPlayerSettlement list"

record SeatRecord =
  seat_user :: UserId
  seat_number :: u32
  seat_stack :: int

record StoredTable =
  table_record :: TableRecord
  aborted :: bool
  hand_in_progress_flag :: bool
  table_seats :: "(UserId, SeatRecord) assoc_map"
  occupied_seats :: "(u32, UserId) assoc_map"

datatype LedgerKind = ledger_buy_in | ledger_cash_out

record LedgerResult =
  ledger_kind :: LedgerKind
  ledger_table :: u64
  ledger_wallet :: int
  ledger_chips :: int
  ledger_seat :: u32

record InMemoryGameStore =
  wallets :: "(UserId, int) assoc_map"
  tables :: "(u64, StoredTable) assoc_map"
  ledger :: "(string, LedgerResult) assoc_map"
  actions :: "(u64 \<times> u64, HandActionRecord) assoc_map"
  hand_starts :: "(u64, HandStartRecord) assoc_map"
  settlements :: "(u64, HandSettlementRecord) assoc_map"

definition newGameStore :: InMemoryGameStore where
  "newGameStore = \<lparr>wallets = [], tables = [], ledger = [], actions = [], hand_starts = [], settlements = []\<rparr>"

section \<open>Validation of settlements\<close>

definition int64_max :: int where
  "int64_max = 2 ^ 63 - 1"

definition validStoredCard :: "Card \<Rightarrow> bool" where
  "validStoredCard c \<longleftrightarrow> rankValue (rank c) \<ge> 2 \<and> rankValue (rank c) \<le> 14 \<and> suitValue (suit c) \<le> 3"

text \<open>The lambda \<open>add_card\<close> on the array \<open>cards\<close>; \<open>None\<close> is the answer \<open>false\<close>.\<close>

definition addCard :: "Card \<Rightarrow> bool list \<Rightarrow> bool list option" where
  "addCard c cards =
     (if \<not> validStoredCard c then None
      else let index = cardIndex c in if cards ! index then None else Some (cards[index := True]))"

fun addBoard :: "Card list \<Rightarrow> bool list \<Rightarrow> bool list option" where
  "addBoard [] cards = Some cards"
| "addBoard (c # cs) cards = (case addCard c cards of None \<Rightarrow> None | Some cards' \<Rightarrow> addBoard cs cards')"

text \<open>The loop over the players: \<open>users\<close>, \<open>total_committed\<close> and \<open>total_winnings\<close> so far.\<close>

fun checkPlayers :: "HandPlayerSettlement list \<Rightarrow> bool list \<Rightarrow> UserId list \<Rightarrow> int \<Rightarrow> int \<Rightarrow> (int \<times> int) option" where
  "checkPlayers [] cards users tc tw = Some (tc, tw)"
| "checkPlayers (p # ps) cards users tc tw =
     (if settled_user_id p = 0 \<or> settled_seat p \<ge> 6 \<or> settled_start_stack p < 0 \<or> committed p < 0
         \<or> committed p > settled_start_stack p \<or> winnings p < 0 \<or> end_stack p < 0
         \<or> length (settled_hole_cards p) \<noteq> 2 \<or> settled_user_id p \<in> set users
      then None
      else case addBoard [settled_hole_cards p ! 0, settled_hole_cards p ! 1] cards of
        None \<Rightarrow> None
      | Some cards' \<Rightarrow>
          (let after_commitment = settled_start_stack p - committed p in
           if winnings p > int64_max - after_commitment \<or> end_stack p \<noteq> after_commitment + winnings p
              \<or> committed p > int64_max - tc \<or> winnings p > int64_max - tw
           then None
           else checkPlayers ps cards' (settled_user_id p # users) (tc + committed p) (tw + winnings p)))"

definition validHandSettlement :: "HandSettlementRecord \<Rightarrow> bool" where
  "validHandSettlement x =
     (if settled_hand_id x = 0 \<or> settled_table_id x = 0 \<or> settled_hand_number x = 0
         \<or> length (settled_players x) < 2 \<or> length (settled_players x) > 6 \<or> length (settled_board x) > 5
         \<or> total_pot x < 0
      then False
      else case addBoard (settled_board x) (replicate 52 False) of
        None \<Rightarrow> False
      | Some cards \<Rightarrow>
          (case checkPlayers (settled_players x) cards [] 0 0 of
             None \<Rightarrow> False
           | Some (tc, tw) \<Rightarrow> tc = total_pot x \<and> tw = total_pot x))"

definition equivalentPlayer :: "HandPlayerSettlement \<Rightarrow> HandPlayerSettlement \<Rightarrow> bool" where
  "equivalentPlayer l r \<longleftrightarrow> settled_user_id l = settled_user_id r \<and> settled_seat l = settled_seat r \<and>
     settled_start_stack l = settled_start_stack r \<and> committed l = committed r \<and> winnings l = winnings r \<and>
     end_stack l = end_stack r \<and> settled_hole_cards l = settled_hole_cards r \<and> settled_folded l = settled_folded r"

definition equivalentHandSettlement :: "HandSettlementRecord \<Rightarrow> HandSettlementRecord \<Rightarrow> bool" where
  "equivalentHandSettlement l r \<longleftrightarrow>
     settled_hand_id l = settled_hand_id r \<and> settled_table_id l = settled_table_id r \<and>
     settled_hand_number l = settled_hand_number r \<and> settled_dealer_seat l = settled_dealer_seat r \<and>
     settled_board l = settled_board r \<and> total_pot l = total_pot r \<and>
     length (settled_players l) = length (settled_players r) \<and>
     list_all2 equivalentPlayer (settled_players l) (settled_players r)"

section \<open>Queries\<close>

definition seedWallet :: "UserId \<Rightarrow> int \<Rightarrow> InMemoryGameStore \<Rightarrow> StorageError \<times> InMemoryGameStore" where
  "seedWallet user_id balance s =
     (if user_id = 0 \<or> balance < 0 then (invalid_data, s)
      else if map_of (wallets s) user_id \<noteq> None then (storage_duplicate, s)
      else (storage_ok, s\<lparr>wallets := put user_id balance (wallets s)\<rparr>))"

definition walletBalance :: "UserId \<Rightarrow> InMemoryGameStore \<Rightarrow> int option" where
  "walletBalance user_id s = map_of (wallets s) user_id"

definition seatStack :: "u64 \<Rightarrow> UserId \<Rightarrow> InMemoryGameStore \<Rightarrow> int option" where
  "seatStack table_id user_id s =
     (case map_of (tables s) table_id of
        None \<Rightarrow> None
      | Some t \<Rightarrow> map_option seat_stack (map_of (table_seats t) user_id))"

definition settlement :: "u64 \<Rightarrow> InMemoryGameStore \<Rightarrow> HandSettlementRecord option" where
  "settlement i s = map_of (settlements s) i"

definition findTable :: "u64 \<Rightarrow> InMemoryGameStore \<Rightarrow> TableRecord StorageResult" where
  "findTable table_id s =
     (case map_of (tables s) table_id of
        None \<Rightarrow> storageFail not_found ''table not found''
      | Some t \<Rightarrow> if aborted t then storageFail not_found ''table not found'' else storageOk (table_record t))"

definition openRecords :: "InMemoryGameStore \<Rightarrow> TableRecord list" where
  "openRecords s = map table_record (filter (\<lambda>t. \<not> aborted t) (map snd (tables s)))"

definition listOpenTables :: "nat \<Rightarrow> InMemoryGameStore \<Rightarrow> TableRecord list StorageResult" where
  "listOpenTables limit s =
     (if limit = 0 then storageFail invalid_data ''limit must be positive''
      else storageOk (take limit (sort_key table_key (openRecords s))))"

definition countOpenTables :: "string \<Rightarrow> InMemoryGameStore \<Rightarrow> nat StorageResult" where
  "countOpenTables node s =
     (if node = [] then storageFail invalid_data ''node id is required''
      else storageOk (length (filter (\<lambda>(k, t). \<not> aborted t \<and> node_id (table_record t) = node) (tables s))))"

section \<open>Transactions\<close>

definition createTable :: "TableRecord \<Rightarrow> InMemoryGameStore \<Rightarrow> StorageError \<times> InMemoryGameStore" where
  "createTable x s =
     (let cfg = table_config x in
      if table_key x = 0 \<or> created_by x = 0 \<or> table_name x = [] \<or> node_id x = [] \<or> min_players cfg < 2
         \<or> max_players cfg < min_players cfg \<or> max_players cfg > 6 \<or> small_blind cfg \<le> 0
         \<or> big_blind cfg < small_blind cfg * 2 \<or> min_buy_in cfg \<le> 0 \<or> max_buy_in cfg < min_buy_in cfg
      then (invalid_data, s)
      else if map_of (tables s) (table_key x) \<noteq> None then (storage_duplicate, s)
      else (storage_ok, s\<lparr>tables := put (table_key x)
              \<lparr>table_record = x, aborted = False, hand_in_progress_flag = False, table_seats = [], occupied_seats = []\<rparr>
              (tables s)\<rparr>))"

definition ledgerKey :: "UserId \<Rightarrow> string \<Rightarrow> string" where
  "ledgerKey user_id key = to_string (unat user_id) @ '':'' @ key"

definition reserveBuyIn :: "u64 \<Rightarrow> UserId \<Rightarrow> u32 \<Rightarrow> int \<Rightarrow> string \<Rightarrow> InMemoryGameStore
    \<Rightarrow> BuyInReceipt StorageResult \<times> InMemoryGameStore" where
  "reserveBuyIn table_id user_id seat_no amt idempotency_key s =
     (if table_id = 0 \<or> user_id = 0 \<or> amt \<le> 0 \<or> idempotency_key = [] \<or> length idempotency_key > 96
      then (storageFail invalid_data ''invalid buy-in'', s)
      else
        (let key = ledgerKey user_id idempotency_key in
         case map_of (ledger s) key of
           Some replay \<Rightarrow>
             (if ledger_kind replay \<noteq> ledger_buy_in \<or> ledger_table replay \<noteq> table_id \<or> ledger_chips replay \<noteq> amt
                 \<or> ledger_seat replay \<noteq> seat_no
              then (storageFail conflict ''idempotency key was reused'', s)
              else case map_of (tables s) table_id of
                None \<Rightarrow> (storageFail conflict ''idempotent buy-in does not match an active table'', s)
              | Some t \<Rightarrow>
                  (case map_of (table_seats t) user_id of
                     None \<Rightarrow> (storageFail conflict ''idempotent buy-in does not match the active seat'', s)
                   | Some r \<Rightarrow>
                       (if seat_number r \<noteq> seat_no \<or> seat_stack r \<noteq> amt
                        then (storageFail conflict ''idempotent buy-in does not match the active seat'', s)
                        else (storageOk \<lparr>buy_in_wallet = ledger_wallet replay, table_stack = ledger_chips replay\<rparr>, s))))
         | None \<Rightarrow>
             (case (map_of (tables s) table_id, map_of (wallets s) user_id) of
                (Some t, Some w) \<Rightarrow>
                  (let cfg = table_config (table_record t) in
                   if aborted t then (storageFail not_found ''table or wallet not found'', s)
                   else if hand_in_progress_flag t then (storageFail conflict ''buy-in is not allowed during a hand'', s)
                   else if unat seat_no \<ge> max_players cfg \<or> amt < min_buy_in cfg \<or> amt > max_buy_in cfg
                   then (storageFail invalid_data ''invalid seat or buy-in amount'', s)
                   else if map_of (table_seats t) user_id \<noteq> None \<or> map_of (occupied_seats t) seat_no \<noteq> None
                   then (storageFail conflict ''player or seat is already reserved'', s)
                   else if w < amt then (storageFail insufficient_funds ''insufficient wallet balance'', s)
                   else
                     (storageOk \<lparr>buy_in_wallet = w - amt, table_stack = amt\<rparr>,
                      s\<lparr>wallets := put user_id (w - amt) (wallets s),
                        tables := put table_id
                          (t\<lparr>table_seats := put user_id \<lparr>seat_user = user_id, seat_number = seat_no, seat_stack = amt\<rparr> (table_seats t),
                             occupied_seats := put seat_no user_id (occupied_seats t)\<rparr>) (tables s),
                        ledger := put key \<lparr>ledger_kind = ledger_buy_in, ledger_table = table_id,
                           ledger_wallet = w - amt, ledger_chips = amt, ledger_seat = seat_no\<rparr> (ledger s)\<rparr>))
              | _ \<Rightarrow> (storageFail not_found ''table or wallet not found'', s))))"

definition cashOut :: "u64 \<Rightarrow> UserId \<Rightarrow> string \<Rightarrow> InMemoryGameStore \<Rightarrow> CashOutReceipt StorageResult \<times> InMemoryGameStore" where
  "cashOut table_id user_id idempotency_key s =
     (if table_id = 0 \<or> user_id = 0 \<or> idempotency_key = [] \<or> length idempotency_key > 96
      then (storageFail invalid_data ''invalid cash-out'', s)
      else
        (let key = ledgerKey user_id idempotency_key in
         case map_of (ledger s) key of
           Some replay \<Rightarrow>
             (if ledger_kind replay \<noteq> ledger_cash_out \<or> ledger_table replay \<noteq> table_id
              then (storageFail conflict ''idempotency key was reused'', s)
              else (storageOk \<lparr>cash_out_wallet = ledger_wallet replay, returned_stack = ledger_chips replay\<rparr>, s))
         | None \<Rightarrow>
             (case (map_of (tables s) table_id, map_of (wallets s) user_id) of
                (Some t, Some w) \<Rightarrow>
                  (if hand_in_progress_flag t then (storageFail conflict ''cash-out is not allowed during a hand'', s)
                   else case map_of (table_seats t) user_id of
                     None \<Rightarrow> (storageFail not_found ''seat not found'', s)
                   | Some r \<Rightarrow>
                       (let chips = seat_stack r in
                        (storageOk \<lparr>cash_out_wallet = w + chips, returned_stack = chips\<rparr>,
                         s\<lparr>wallets := put user_id (w + chips) (wallets s),
                           tables := put table_id
                             (t\<lparr>occupied_seats := erase (seat_number r) (occupied_seats t),
                                table_seats := erase user_id (table_seats t)\<rparr>) (tables s),
                           ledger := put key \<lparr>ledger_kind = ledger_cash_out, ledger_table = table_id,
                              ledger_wallet = w + chips, ledger_chips = chips, ledger_seat = seat_number r\<rparr> (ledger s)\<rparr>)))
              | _ \<Rightarrow> (storageFail not_found ''table or wallet not found'', s))))"

definition startMatches :: "StoredTable \<Rightarrow> HandStartPlayer \<Rightarrow> bool" where
  "startMatches t p =
     (case map_of (table_seats t) (start_user_id p) of
        None \<Rightarrow> False
      | Some r \<Rightarrow> \<not> (seat_number r \<noteq> start_seat p \<or> seat_stack r \<noteq> start_stack p \<or> length (start_hole_cards p) \<noteq> 2))"

definition storeBeginHand :: "HandStartRecord \<Rightarrow> InMemoryGameStore \<Rightarrow> StorageError \<times> InMemoryGameStore" where
  "storeBeginHand hand s =
     (if start_hand_id hand = 0 \<or> start_table_id hand = 0 \<or> start_hand_number hand = 0 \<or> length (start_players hand) < 2
      then (invalid_data, s)
      else if map_of (hand_starts s) (start_hand_id hand) \<noteq> None \<or> map_of (settlements s) (start_hand_id hand) \<noteq> None
      then (storage_duplicate, s)
      else case map_of (tables s) (start_table_id hand) of
        None \<Rightarrow> (not_found, s)
      | Some t \<Rightarrow>
          (if aborted t then (not_found, s)
           else if hand_in_progress_flag t then (conflict, s)
           else if \<not> list_all (startMatches t) (start_players hand) then (conflict, s)
           else (storage_ok,
             s\<lparr>hand_starts := put (start_hand_id hand) hand (hand_starts s),
               tables := put (start_table_id hand) (t\<lparr>hand_in_progress_flag := True\<rparr>) (tables s)\<rparr>)))"

text \<open>The lambda \<open>same_action\<close> compares every field.\<close>

definition sameAction :: "HandActionRecord \<Rightarrow> HandActionRecord \<Rightarrow> bool" where
  "sameAction a b \<longleftrightarrow> action_hand_id b = action_hand_id a \<and> action_sequence b = action_sequence a \<and>
     action_request_id b = action_request_id a \<and> action_user_id b = action_user_id a \<and>
     action_street b = action_street a \<and> action_kind b = action_kind a \<and> target_amount b = target_amount a"

definition sameRequest :: "HandActionRecord \<Rightarrow> HandActionRecord \<Rightarrow> bool" where
  "sameRequest a b \<longleftrightarrow> action_hand_id b = action_hand_id a \<and> action_user_id b = action_user_id a \<and>
     action_request_id b = action_request_id a"

definition appendAction :: "HandActionRecord \<Rightarrow> InMemoryGameStore \<Rightarrow> StorageError \<times> InMemoryGameStore" where
  "appendAction a s =
     (if action_hand_id a = 0 \<or> action_sequence a = 0 \<or> action_request_id a = 0 \<or> action_user_id a = 0
      then (invalid_data, s)
      else if map_of (hand_starts s) (action_hand_id a) = None then (not_found, s)
      else if map_of (settlements s) (action_hand_id a) \<noteq> None then (conflict, s)
      else case map_of (actions s) (action_hand_id a, action_sequence a) of
        Some b \<Rightarrow> (if sameAction a b then storage_duplicate else conflict, s)
      | None \<Rightarrow>
          (case List.find (sameRequest a) (map snd (actions s)) of
             Some b \<Rightarrow> (if sameAction a b then storage_duplicate else conflict, s)
           | None \<Rightarrow> (storage_ok, s\<lparr>actions := put (action_hand_id a, action_sequence a) a (actions s)\<rparr>)))"

definition settlementMatches :: "StoredTable \<Rightarrow> HandPlayerSettlement \<Rightarrow> bool" where
  "settlementMatches t p =
     (case map_of (table_seats t) (settled_user_id p) of
        None \<Rightarrow> False
      | Some r \<Rightarrow>
          \<not> (seat_number r \<noteq> settled_seat p \<or> seat_stack r \<noteq> settled_start_stack p \<or> committed p < 0 \<or> winnings p < 0
             \<or> end_stack p < 0 \<or> end_stack p \<noteq> settled_start_stack p - committed p + winnings p))"

text \<open>\<open>seats.at(user_id).stack = end_stack\<close> for each player.\<close>

fun payPlayers :: "HandPlayerSettlement list \<Rightarrow> (UserId, SeatRecord) assoc_map \<Rightarrow> (UserId, SeatRecord) assoc_map" where
  "payPlayers [] ss = ss"
| "payPlayers (p # ps) ss =
     payPlayers ps
       (case map_of ss (settled_user_id p) of
          None \<Rightarrow> ss
        | Some r \<Rightarrow> put (settled_user_id p) (r\<lparr>seat_stack := end_stack p\<rparr>) ss)"

definition settleHand :: "HandSettlementRecord \<Rightarrow> InMemoryGameStore \<Rightarrow> StorageError \<times> InMemoryGameStore" where
  "settleHand x s =
     (if \<not> validHandSettlement x then (invalid_data, s)
      else case map_of (settlements s) (settled_hand_id x) of
        Some y \<Rightarrow> (if equivalentHandSettlement y x then storage_duplicate else conflict, s)
      | None \<Rightarrow>
          (if map_of (hand_starts s) (settled_hand_id x) = None then (not_found, s)
           else case map_of (tables s) (settled_table_id x) of
             None \<Rightarrow> (not_found, s)
           | Some t \<Rightarrow>
               (if aborted t then (not_found, s)
                else if \<not> hand_in_progress_flag t then (storage_duplicate, s)
                else if \<not> list_all (settlementMatches t) (settled_players x) then (conflict, s)
                else (storage_ok,
                  s\<lparr>tables := put (settled_table_id x)
                      (t\<lparr>table_seats := payPlayers (settled_players x) (table_seats t), hand_in_progress_flag := False\<rparr>) (tables s),
                    settlements := put (settled_hand_id x) x (settlements s)\<rparr>))))"

text \<open>The loop over the seats: it stops with a conflict at a seat whose user has no wallet, after the wallets
  before it have been credited.\<close>

fun refundSeats :: "(UserId, SeatRecord) assoc_map \<Rightarrow> (UserId, int) assoc_map \<Rightarrow> bool \<times> (UserId, int) assoc_map" where
  "refundSeats [] ws = (True, ws)"
| "refundSeats ((u, r) # rest) ws =
     (case map_of ws u of
        None \<Rightarrow> (False, ws)
      | Some w \<Rightarrow> refundSeats rest (put u (w + seat_stack r) ws))"

definition abortTableAndRefund :: "u64 \<Rightarrow> InMemoryGameStore \<Rightarrow> StorageError \<times> InMemoryGameStore" where
  "abortTableAndRefund table_id s =
     (case map_of (tables s) table_id of
        None \<Rightarrow> (not_found, s)
      | Some t \<Rightarrow>
          (if aborted t then (storage_ok, s)
           else case refundSeats (table_seats t) (wallets s) of
             (False, ws) \<Rightarrow> (conflict, s\<lparr>wallets := ws\<rparr>)
           | (True, ws) \<Rightarrow>
               (storage_ok, s\<lparr>wallets := ws,
                  tables := put table_id
                    (t\<lparr>table_seats := [], occupied_seats := [], aborted := True, hand_in_progress_flag := False\<rparr>) (tables s)\<rparr>)))"

end
