(* ===== verification/Hand_Records.thy ===== *)
theory Hand_Records
  imports Table_Correct Game_Store
begin

text \<open>
  The helper functions of \<open>src/apps/server/protocol_service.cpp\<close> that turn the snapshot of a table into the
  records of the game store: \<open>persistentHandId\<close>, \<open>dealerSeat\<close>, \<open>handStart\<close> and \<open>handSettlement\<close>. The main
  theorem joins the two sides: the record of a hand that the table has settled passes the validation of the store
  exactly when no chips were left unclaimed.
\<close>

definition persistentHandId :: "u64 \<Rightarrow> u64 \<Rightarrow> u64" where
  "persistentHandId table_id hand_number =
     (let maximum = 0xffffffff
      in if table_id = 0 \<or> table_id > maximum \<or> hand_number = 0 \<or> hand_number > maximum then 0
         else push_bit 32 table_id OR hand_number)"

definition dealerSeat :: "TableSnapshot \<Rightarrow> u32" where
  "dealerSeat snap =
     (case snap_dealer snap of
        None \<Rightarrow> 0
      | Some d \<Rightarrow> (case List.find (\<lambda>v. view_id v = d) (snap_players snap) of
                   None \<Rightarrow> 0
                 | Some v \<Rightarrow> of_nat (view_seat v)))"

definition handStart :: "u64 \<Rightarrow> TableSnapshot \<Rightarrow> HandStartRecord" where
  "handStart table_id snap =
     \<lparr>start_hand_id = persistentHandId table_id (snap_hand_id snap), start_table_id = table_id,
      start_hand_number = snap_hand_id snap, start_dealer_seat = dealerSeat snap,
      start_players = map (\<lambda>v. \<lparr>start_user_id = view_id v, start_seat = of_nat (view_seat v),
          start_stack = view_stack v + view_hand_commitment v, start_hole_cards = view_hole_cards v\<rparr>)
        (filter (\<lambda>v. length (view_hole_cards v) = 2) (snap_players snap))\<rparr>"

text \<open>The map \<open>winnings\<close>: \<open>operator[]\<close> gives 0 for a new key.\<close>

definition wonBy :: "(PlayerId, Chips) assoc_map \<Rightarrow> PlayerId \<Rightarrow> Chips" where
  "wonBy m x = (case map_of m x of None \<Rightarrow> 0 | Some c \<Rightarrow> c)"

fun addWinners :: "PotAward \<Rightarrow> nat \<Rightarrow> PlayerId list \<Rightarrow> (PlayerId, Chips) assoc_map \<Rightarrow> (PlayerId, Chips) assoc_map" where
  "addWinners a index [] m = m"
| "addWinners a index (w # ws) m =
     addWinners a (Suc index) ws
       (put w (wonBy m w + equal_share a + (if int index < odd_chips a then 1 else 0)) m)"

fun addAwards :: "PotAward list \<Rightarrow> (PlayerId, Chips) assoc_map \<Rightarrow> (PlayerId, Chips) assoc_map" where
  "addAwards [] m = m"
| "addAwards (a # as) m = addAwards as (addWinners a 0 (winners a) m)"

definition settledPlayer :: "(PlayerId, Chips) assoc_map \<Rightarrow> PlayerView \<Rightarrow> HandPlayerSettlement" where
  "settledPlayer m v =
     (let won = wonBy m (view_id v)
      in \<lparr>settled_user_id = view_id v, settled_seat = of_nat (view_seat v),
          settled_start_stack = view_stack v + view_hand_commitment v - won,
          committed = view_hand_commitment v, winnings = won, end_stack = view_stack v,
          settled_hole_cards = view_hole_cards v, settled_folded = (view_status v = folded)\<rparr>)"

definition handSettlement :: "u64 \<Rightarrow> TableSnapshot \<Rightarrow> PotAward list \<Rightarrow> HandSettlementRecord" where
  "handSettlement table_id snap awards =
     (let m = addAwards awards []
      in \<lparr>settled_hand_id = persistentHandId table_id (snap_hand_id snap), settled_table_id = table_id,
          settled_hand_number = snap_hand_id snap, settled_dealer_seat = dealerSeat snap,
          settled_board = snap_board snap, total_pot = sum_list (map pot_size awards),
          settled_players = map (settledPlayer m) (filter (\<lambda>v. length (view_hole_cards v) = 2) (snap_players snap))\<rparr>)"

section \<open>Hand numbers\<close>

lemma persistentHandId_parts:
  assumes "table_id \<noteq> 0" "table_id \<le> 0xffffffff" "hand_number \<noteq> 0" "hand_number \<le> 0xffffffff"
  shows "unat (persistentHandId table_id hand_number) = unat table_id * 2 ^ 32 + unat hand_number"
proof -
  have small: "unat table_id < 2 ^ 32" "unat hand_number < 2 ^ 32"
    using assms(2,4) by (simp_all add: word_le_nat_alt)
  have "unat (push_bit 32 table_id) = unat table_id * 2 ^ 32"
    using small(1) unat_mult_lem [of table_id "2 ^ 32"] by (simp add: push_bit_eq_mult)
  moreover have "push_bit 32 table_id AND hand_number = 0"
  proof (rule bit_word_eqI)
    fix n assume "n < LENGTH(64)"
    have "\<not> bit hand_number n" if "32 \<le> n"
    proof -
      have "unat hand_number < 2 ^ n" using small(2) power_increasing [OF that, of "2 :: nat"] by linarith
      then have "\<not> bit (unat hand_number) n" by (metis bit_take_bit_iff less_irrefl take_bit_nat_eq_self)
      then show ?thesis by (simp add: bit_unsigned_iff)
    qed
    then show "bit (push_bit 32 table_id AND hand_number) n \<longleftrightarrow> bit (0 :: u64) n"
      by (auto simp: bit_and_iff bit_push_bit_iff)
  qed
  then have "push_bit 32 table_id OR hand_number = push_bit 32 table_id + hand_number" by (simp add: disjunctive_add_eq_or)
  moreover have "\<not> 0xffffffff < table_id" "\<not> 0xffffffff < hand_number" using assms(2,4) by (simp_all only: not_less)
  ultimately show ?thesis
    using assms(1,3) small unat_add_lem [of "push_bit 32 table_id" hand_number]
    by (simp add: persistentHandId_def)
qed

section \<open>What the settlement of a table contains\<close>

lemma wonBy_put [simp]: "wonBy (put w c m) x = (if x = w then c else wonBy m x)"
  by (simp add: wonBy_def map_simps)

lemma wonBy_addWinners: "wonBy (addWinners a k ws m) x = wonBy m x + payout (equal_share a) (odd_chips a) k ws x"
  by (induction ws arbitrary: k m) auto

lemma wonBy_addAwards: "wonBy (addAwards as m) x = wonBy m x + awardsPayout as x"
  by (induction as arbitrary: m) (auto simp: wonBy_addWinners awardsPayout_def awardPayout_def)

lemma wonBy_awards [simp]: "wonBy (addAwards as []) x = awardsPayout as x"
  using wonBy_addAwards [of as "[]" x] by (simp add: wonBy_def)

definition auditView :: "Street \<Rightarrow> Player \<Rightarrow> PlayerView" where
  "auditView st p = (viewOf None st p)\<lparr>view_hole_cards := if has_hole p then hole p else []\<rparr>"

lemma audit_players:
  assumes "seats_ok t"
  shows "snap_players (auditSnapshot t) = map (auditView (street t)) (players t)"
proof -
  have "findPlayer t (pid p) = Some p" if "p \<in> set (players t)" for p
    using that findPlayer_sits [OF assms] by (auto simp: in_players)
  then show ?thesis
    by (auto simp: auditSnapshot_def snapshot_def auditView_def viewOf_def Let_def intro!: map_cong)
qed

text \<open>What is stored of a player of the table \<open>u\<close> from which a hand was settled with the awards \<open>as\<close>.\<close>

definition settlementOf :: "PotAward list \<Rightarrow> Player \<Rightarrow> HandPlayerSettlement" where
  "settlementOf as p =
     \<lparr>settled_user_id = pid p, settled_seat = of_nat (seat p), settled_start_stack = stack p + hand_commitment p,
      committed = hand_commitment p, winnings = awardsPayout as (pid p),
      end_stack = stack p + awardsPayout as (pid p), settled_hole_cards = hole p, settled_folded = (status p = folded)\<rparr>"

lemma handSettlement_settled:
  assumes "seats_ok u" "\<forall>a \<in> set as. award_ok (players u) a"
  shows "settled_players (handSettlement k (auditSnapshot (settledTable u as)) as) =
      map (settlementOf as) (filter has_hole (players u))"
    and "settled_board (handSettlement k (auditSnapshot (settledTable u as)) as) = board u"
    and "total_pot (handSettlement k (auditSnapshot (settledTable u as)) as) = sum_list (map pot_size as)"
proof -
  note views = audit_players [OF seats_ok_settledTable [OF assms]]
  have two: "length (hole p) = 2" if "p \<in> set (players u)" for p
    using that seats_ok_player [OF assms(1)] by (auto simp: in_players player_ok_def)
  let ?f = "\<lambda>p. (credit (awardsPayout as) p)\<lparr>ready := False\<rparr>"
  have "filter (\<lambda>v. length (view_hole_cards v) = 2) (map (auditView settled) (map ?f ps)) =
      map (\<lambda>p. auditView settled (?f p)) (filter has_hole ps)" if "set ps \<subseteq> set (players u)" for ps
    using that two by (induction ps) (auto simp: auditView_def)
  then have "filter (\<lambda>v. length (view_hole_cards v) = 2) (snap_players (auditSnapshot (settledTable u as))) =
      map (\<lambda>p. auditView settled (?f p)) (filter has_hole (players u))"
    unfolding views players_settledTable by simp
  moreover have "settledPlayer (addAwards as []) (auditView settled (?f p)) = settlementOf as p" if "has_hole p" for p
    using that by (simp add: settledPlayer_def auditView_def viewOf_def settlementOf_def Let_def)
  ultimately show "settled_players (handSettlement k (auditSnapshot (settledTable u as)) as) =
      map (settlementOf as) (filter has_hole (players u))"
    by (simp add: handSettlement_def Let_def)
  show "settled_board (handSettlement k (auditSnapshot (settledTable u as)) as) = board u"
    by (simp add: handSettlement_def Let_def auditSnapshot_def snapshot_def settledTable_def)
  show "total_pot (handSettlement k (auditSnapshot (settledTable u as)) as) = sum_list (map pot_size as)"
    by (simp add: handSettlement_def Let_def)
qed

section \<open>Passing the validation\<close>

definition seenArray :: "Card set \<Rightarrow> bool list" where
  "seenArray S = map (\<lambda>i. \<exists>c \<in> S. cardIndex c = i) [0..<52]"

lemma seenArray_empty: "seenArray {} = replicate 52 False"
  by (simp add: seenArray_def map_replicate_const)

lemma validStoredCard_all: "validStoredCard c"
  using rankValue_bounds [of "rank c"] suitValue_le [of "suit c"] by (simp add: validStoredCard_def)

lemma addCard_seen: "c \<notin> S \<Longrightarrow> addCard c (seenArray S) = Some (seenArray (insert c S))"
proof -
  assume new: "c \<notin> S"
  have nth: "seenArray X ! i = (\<exists>c \<in> X. cardIndex c = i)" if "i < 52" for X i using that by (simp add: seenArray_def)
  have "(seenArray S)[cardIndex c := True] = seenArray (insert c S)"
  proof (rule nth_equalityI)
    fix i assume "i < length ((seenArray S)[cardIndex c := True])"
    then have i: "i < 52" by (simp add: seenArray_def)
    have "length (seenArray S) = 52" by (simp add: seenArray_def)
    then show "(seenArray S)[cardIndex c := True] ! i = seenArray (insert c S) ! i"
      using i cardIndex_less [of c] by (auto simp: nth_list_update nth)
  qed (simp add: seenArray_def)
  moreover have "\<not> seenArray S ! cardIndex c" using new nth [OF cardIndex_less [of c], of S] by auto
  ultimately show ?thesis by (simp add: addCard_def validStoredCard_all)
qed

lemma addBoard_seen:
  "distinct cs \<Longrightarrow> set cs \<inter> S = {} \<Longrightarrow> addBoard cs (seenArray S) = Some (seenArray (S \<union> set cs))"
  by (induction cs arbitrary: S) (auto simp: addCard_seen)

text \<open>One player's entry, apart from the cards and the running sums.\<close>

definition entry_ok :: "HandPlayerSettlement \<Rightarrow> bool" where
  "entry_ok p \<longleftrightarrow> settled_user_id p \<noteq> 0 \<and> settled_seat p < 6 \<and> 0 \<le> committed p \<and> committed p \<le> settled_start_stack p \<and>
     0 \<le> winnings p \<and> end_stack p = settled_start_stack p - committed p + winnings p \<and> end_stack p \<le> int64_max \<and>
     length (settled_hole_cards p) = 2"

lemma checkPlayers_ok:
  "list_all entry_ok ps \<Longrightarrow> distinct (map settled_user_id ps) \<Longrightarrow> settled_user_id ` set ps \<inter> set users = {} \<Longrightarrow>
   distinct (concat (map settled_hole_cards ps)) \<Longrightarrow> set (concat (map settled_hole_cards ps)) \<inter> S = {} \<Longrightarrow>
   tc + sum_list (map committed ps) \<le> int64_max \<Longrightarrow> tw + sum_list (map winnings ps) \<le> int64_max \<Longrightarrow>
   checkPlayers ps (seenArray S) users tc tw = Some (tc + sum_list (map committed ps), tw + sum_list (map winnings ps))"
proof (induction ps arbitrary: S users tc tw)
  case (Cons p ps)
  have p: "entry_ok p" and ps: "list_all entry_ok ps" using Cons.prems(1) by simp_all
  obtain a b where ab: "settled_hole_cards p = [a, b]"
    using p by (auto simp: entry_ok_def numeral_2_eq_2 length_Suc_conv)
  have sums: "0 \<le> sum_list (map committed ps)" "0 \<le> sum_list (map winnings ps)"
    using ps by (auto simp: list_all_iff entry_ok_def intro!: sum_list_nonneg)
  have cards: "addBoard [settled_hole_cards p ! 0, settled_hole_cards p ! 1] (seenArray S) = Some (seenArray (S \<union> {a, b}))"
    using addBoard_seen [of "[a, b]" S] Cons.prems(4,5) ab by auto
  have "checkPlayers ps (seenArray (S \<union> {a, b})) (settled_user_id p # users) (tc + committed p) (tw + winnings p) =
      Some (tc + committed p + sum_list (map committed ps), tw + winnings p + sum_list (map winnings ps))"
    by (rule Cons.IH) (use ps Cons.prems ab in \<open>auto simp: image_iff\<close>)
  moreover have "settled_user_id p \<notin> set users" using Cons.prems(3) by auto
  ultimately show ?case
    using p cards Cons.prems(6,7) sums by (auto simp: entry_ok_def Let_def add.assoc simp del: addBoard.simps)
qed simp

text \<open>The players with cards are those in the hand; everybody else committed nothing and won nothing.\<close>

definition onlyDealt :: "Table \<Rightarrow> PotAward list \<Rightarrow> bool" where
  "onlyDealt u as \<longleftrightarrow> (\<forall>p \<in> set (players u). \<not> has_hole p \<longrightarrow> hand_commitment p = 0 \<and> awardsPayout as (pid p) = 0)"

lemma sum_dealt:
  fixes f :: "Player \<Rightarrow> int"
  shows "\<forall>p \<in> set ps. \<not> has_hole p \<longrightarrow> f p = 0 \<Longrightarrow> sum_list (map f (filter has_hole ps)) = sum_list (map f ps)"
  by (induction ps) auto

lemma settlement_balanced:
  assumes "betting_ok u" "\<forall>a \<in> set as. award_ok (players u) a" "onlyDealt u as"
    and "2 \<le> length (filter has_hole (players u))" "\<forall>p \<in> set (players u). pid p \<noteq> 0"
    and "sum_list (map stack (players u)) + potSize u \<le> int64_max" "sum_list (map pot_size as) \<le> potSize u"
    and "k \<noteq> 0" "k \<le> 0xffffffff" "hand_id u \<noteq> 0" "hand_id u \<le> 0xffffffff"
  shows "validHandSettlement (handSettlement k (auditSnapshot (settledTable u as)) as) \<longleftrightarrow> sum_list (map pot_size as) = potSize u"
proof -
  let ?x = "handSettlement k (auditSnapshot (settledTable u as)) as"
  let ?ps = "filter has_hole (players u)"
  note seats = betting_okD(1) [OF assms(1)]
  note x = handSettlement_settled [OF seats assms(2), of k]
  have ids: "settled_hand_id ?x = persistentHandId k (hand_id u)" "settled_table_id ?x = k" "settled_hand_number ?x = hand_id u"
    by (simp_all add: handSettlement_def Let_def auditSnapshot_def snapshot_def settledTable_def markSettled_def
        bumpSequence_def mapPlayers_def)
  have "0 < unat (hand_id u)" using assms(10) by (simp add: unat_gt_0)
  then have "persistentHandId k (hand_id u) \<noteq> 0" using persistentHandId_parts [OF assms(8-11)] by (auto simp: unat_eq_0)
  moreover have "length ?ps \<le> 6"
    using length_filter_le [of has_hole "players u"] length_occupants [of "seats u"] seats_okD(2) [OF seats] by linarith
  moreover obtain d where d: "length (board u) = boardSize (street u)" using betting_okD(8) [OF assms(1)] by (auto simp: cards_ok_def)
  have "length (board u) \<le> 5" using d by (cases "street u") auto
  moreover have pots: "0 \<le> sum_list (map pot_size as)" using assms(2) by (auto simp: award_ok_def intro!: sum_list_nonneg)
  ultimately have head: "\<not> (settled_hand_id ?x = 0 \<or> settled_table_id ?x = 0 \<or> settled_hand_number ?x = 0
      \<or> length (settled_players ?x) < 2 \<or> length (settled_players ?x) > 6 \<or> length (settled_board ?x) > 5 \<or> total_pot ?x < 0)"
    using assms(4,8,10) ids x by auto
  have cards: "distinct (board u @ concat (map hole ?ps))" using betting_cards_distinct [OF assms(1)] by blast
  then have brd: "addBoard (settled_board ?x) (replicate 52 False) = Some (seenArray (set (board u)))"
    using addBoard_seen [of "board u" "{}"] by (simp add: x(2) seenArray_empty)
  have won: "sum_list (map (\<lambda>p. awardsPayout as (pid p)) ?ps) = sum_list (map pot_size as)"
    using sum_dealt [of "players u" "\<lambda>p. awardsPayout as (pid p)"] assms(3)
      sum_awardsPayout [OF seats_ok_distinct [OF seats] assms(2)] by (simp add: onlyDealt_def)
  have paid: "sum_list (map hand_commitment ?ps) = potSize u"
    using sum_dealt [of "players u" hand_commitment] assms(3) by (simp add: onlyDealt_def potSize_def)
  have nonneg: "0 \<le> stack p" "0 \<le> hand_commitment p" "seat p < 6" "length (hole p) = 2" if "p \<in> set (players u)" for p
    using that seats_ok_player [OF seats] seats_ok_seat [OF seats] sits_less [of u] seats_okD(2) [OF seats]
    by (fastforce simp: in_players player_ok_def)+
  have gain: "0 \<le> awardsPayout as x" for x by (rule awardsPayout_nonneg [OF assms(2)])
  have "stack p + awardsPayout as (pid p) \<le> int64_max" if p: "p \<in> set (players u)" for p
  proof -
    have "stack p \<le> sum_list (map stack (players u))" by (rule member_le_sum [OF p]) (use nonneg in blast)
    moreover have "awardsPayout as (pid p) \<le> sum_list (map (\<lambda>p. awardsPayout as (pid p)) (players u))"
      by (rule member_le_sum [OF p]) (use gain in blast)
    ultimately show ?thesis using sum_awardsPayout [OF seats_ok_distinct [OF seats] assms(2)] assms(6,7) by linarith
  qed
  moreover have "(of_nat (seat p) :: u32) < 6" if "p \<in> set (players u)" for p
    using le_less_trans [OF mod_less_eq_dividend nonneg(3) [OF that], of "2 ^ 32"] by (simp add: word_less_nat_alt unat_of_nat)
  ultimately have entries: "list_all entry_ok (settled_players ?x)"
    using nonneg gain assms(5) unfolding x(1) by (auto simp: list_all_iff entry_ok_def settlementOf_def)
  have stacks: "0 \<le> sum_list (map stack (players u))" by (rule sum_list_nonneg) (use nonneg in auto)
  have "checkPlayers (settled_players ?x) (seenArray (set (board u))) [] 0 0 = Some (potSize u, sum_list (map pot_size as))"
  proof -
    have sums: "sum_list (map committed (settled_players ?x)) = potSize u"
      "sum_list (map winnings (settled_players ?x)) = sum_list (map pot_size as)"
      using paid won by (simp_all add: x(1) comp_def settlementOf_def)
    have "distinct (map settled_user_id (settled_players ?x))"
      using seats_ok_distinct [OF seats] by (simp add: x(1) comp_def settlementOf_def distinct_map_filter)
    moreover have "map settled_hole_cards (settled_players ?x) = map hole ?ps" by (simp add: x(1) comp_def settlementOf_def)
    ultimately show ?thesis
      using checkPlayers_ok [OF entries, of "[]" "set (board u)" 0 0] cards sums stacks assms(6,7) by auto
  qed
  then show ?thesis using head brd x(3) by (auto simp: validHandSettlement_def)
qed

text \<open>Only players with cards win anything.\<close>

lemma payout_absent: "x \<notin> set ws \<Longrightarrow> payout share oddc k ws x = 0"
  by (induction ws arbitrary: k) auto

lemma onlyDealtI:
  assumes "betting_ok u" "\<forall>a \<in> set as. set (winners a) \<subseteq> pid ` {p \<in> set (players u). status p \<noteq> status_waiting}"
  shows "onlyDealt u as"
  unfolding onlyDealt_def
proof (intro ballI impI)
  fix p assume p: "p \<in> set (players u)" "\<not> has_hole p"
  then obtain i where "sits u i p" by (auto simp: in_players)
  then have st: "status p = status_waiting" "hand_commitment p = 0"
    using betting_okD(5) [OF assms(1)] p(2) by (auto simp: bettor_ok_def)
  have "pid p \<notin> set (winners a)" if a: "a \<in> set as" for a
  proof
    assume "pid p \<in> set (winners a)"
    then obtain q where q: "q \<in> set (players u)" "status q \<noteq> status_waiting" "pid p = pid q" using assms(2) a by fastforce
    then have "p = q" using seats_ok_distinct [OF betting_okD(1) [OF assms(1)]] p(1) by (metis distinct_map inj_onD)
    then show False using q(2) st(1) by simp
  qed
  then have "awardPayout a (pid p) = 0" if "a \<in> set as" for a
    using that by (simp add: awardPayout_def payout_absent)
  then show "hand_commitment p = 0 \<and> awardsPayout as (pid p) = 0"
    using st(2) by (auto simp: awardsPayout_def intro!: sum_list_zero)
qed

lemma potAwards_winners:
  "a \<in> set (potAwards t previous levels) \<Longrightarrow> set (winners a) \<subseteq> pid ` {p \<in> set (players t). isEligible p}"
proof (induction levels arbitrary: previous)
  case (Cons level levels)
  have "set (winners (potAward t previous level)) \<subseteq> pid ` {p \<in> set (players t). isEligible p}"
    by (auto simp: potAward_def Let_def bestOfPlayers_def eligibleAt_def contributorsAt_def)
  moreover have "a = potAward t previous level \<or> a \<in> set (potAwards t level levels)"
    using Cons.prems by (simp split: if_splits)
  ultimately show ?case using Cons.IH by blast
qed simp

lemma count_by_map: "length (filter P xs) = length (filter (\<lambda>b. b) (map P xs))"
  by (induction xs) auto

lemma count_mono: "\<forall>x \<in> set xs. P x \<longrightarrow> Q x \<Longrightarrow> length (filter P xs) \<le> length (filter Q xs)"
  by (induction xs) auto

lemma dealt_count: "betting_ok u \<Longrightarrow> contenders u \<le> length (filter has_hole (players u))"
proof -
  assume ok: "betting_ok u"
  have "has_hole p" if "p \<in> set (players u)" "isContender p" for p
    using that betting_okD(5) [OF ok] by (fastforce simp: in_players bettor_ok_def isContender_def)
  then show ?thesis unfolding contenders_def by (intro count_mono) blast
qed

text \<open>The table from which a command settled the hand.\<close>

lemma settled_from:
  assumes "table_inv t" "act cmd t = Inr (r, t')" "res_error r = ok" "street t' = settled"
  shows "\<exists>u as. betting_ok u \<and> t' = settledTable u as \<and> res_awards r = as \<and> worths u = worths t \<and>
    (\<forall>a \<in> set as. award_ok (players u) a) \<and> onlyDealt u as \<and> 2 \<le> length (filter has_hole (players u)) \<and>
    sum_list (map pot_size as) = potSize u - unclaimed t' \<and> 0 \<le> unclaimed t'"
proof -
  have open_hand: "hand_open t" using act_cases [OF assms(1,2)] assms(3) by auto
  then have two: "betting_ok t" "2 \<le> contenders t" by (simp_all add: hand_open_def)
  obtain s p p' u where step: "action_step cmd t s p p' u t'" and awards: "res_awards r = last_awards t'"
    using act_ok [OF open_hand, of cmd] assms(2-4) by auto
  then have u: "hand_step u t'" "acted t s p p' u" "betting_ok u" "1 \<le> contenders u"
    unfolding action_step_def moved_def by blast+
  have "\<not> round_end u t'" using assms(4) by (auto simp: round_end_def dest!: hand_open_street betStreet_running)
  then consider (folding) "fold_end u t'" | (showing) "showdown_end u t'" using u(1) by (auto simp: hand_step_def)
  then show ?thesis
  proof cases
    case folding
    then have t': "contenders u = 1" "t' = settledTable u [foldAward u]" by (auto simp: fold_end_def)
    have "length (filter has_hole (players u)) = length (filter has_hole (players t))"
      using u(2) map_occupants_update_same [of s "seats t" p has_hole p'] count_by_map [of has_hole]
      unfolding acted_def sits_def by metis
    then have "2 \<le> length (filter has_hole (players u))" using dealt_count [OF two(1)] two(2) by linarith
    moreover have "set (winners (foldAward u)) \<subseteq> pid ` {p \<in> set (players u). status p \<noteq> status_waiting}"
    proof -
      obtain w ws where f: "filter isContender (players u) = w # ws"
        using u(4) by (cases "filter isContender (players u)") (auto simp: contenders_def)
      then have "w \<in> set (players u) \<and> isContender w" using filter_eq_ConsD [OF f] by auto
      then show ?thesis using f by (auto simp: foldAward_def isContender_def)
    qed
    then have "onlyDealt u [foldAward u]" using onlyDealtI [OF u(3)] by simp
    moreover have "award_ok (players u) (foldAward u)" by (rule foldAward_ok [OF betting_okD(1) [OF u(3)] u(4)])
    moreover have "unclaimed t' = 0" using t' by (simp add: unclaimed_def settledTable_same)
    ultimately show ?thesis
      using u(3) t'(2) awards acted_worths [OF u(2)] by (intro exI [of _ u] exI [of _ "[foldAward u]"]) (simp add: foldAward_def)
  next
    case showing
    then obtain v where v: "same_core u v" "betting_ok v" "street v = river" "2 \<le> contenders v"
      "t' = settledTable v (showdownAwards v)" by (auto simp: showdown_end_def)
    have "onlyDealt v (showdownAwards v)"
      by (rule onlyDealtI [OF v(2)]) (use potAwards_winners in \<open>fastforce simp: showdownAwards_def isEligible_def\<close>)
    moreover have "2 \<le> length (filter has_hole (players v))" using dealt_count [OF v(2)] v(4) by linarith
    moreover have "0 \<le> overCommitted v" unfolding overCommitted_def by (rule sum_list_nonneg) auto
    moreover have "worths v = worths t" using same_core_worths [OF v(1)] acted_worths [OF u(2)] by simp
    ultimately show ?thesis
      using v awards settleShowdown_ok(2,3) [OF v(2,3)]
      by (intro exI [of _ v] exI [of _ "showdownAwards v"]) (simp add: unclaimed_def settledTable_same)
  qed
qed

text \<open>C18. The table and the store agree on the outcome of a hand exactly when no chips were left unclaimed. When a
  command settles a hand, the record that the server builds from the audit snapshot and the awards passes every check of
  \<open>validHandSettlement\<close> (the cards are different, the amounts of each player add up, the sums do not overflow,
  commitments and winnings both equal the pot) if and only if nobody had committed chips beyond every live player.
  Otherwise the store refuses the settlement and the server cancels the whole table.\<close>
theorem settlement_accepted_iff:
  assumes "reachable cfg t" "act cmd t = Inr (r, t')" "res_error r = ok" "street t' = settled"
    and "\<forall>p \<in> set (players t). pid p \<noteq> 0" "totalChips t \<le> int64_max"
    and "k \<noteq> 0" "k \<le> 0xffffffff" "hand_id t' \<noteq> 0" "hand_id t' \<le> 0xffffffff"
  shows "validHandSettlement (handSettlement k (auditSnapshot t') (res_awards r)) \<longleftrightarrow> unclaimed t' = 0"
proof -
  have inv: "table_inv t" by (rule reachable_table_inv [OF assms(1)])
  obtain u as where u: "betting_ok u" "t' = settledTable u as" "res_awards r = as" "worths u = worths t"
    "\<forall>a \<in> set as. award_ok (players u) a" "onlyDealt u as" "2 \<le> length (filter has_hole (players u))"
    "sum_list (map pot_size as) = potSize u - unclaimed t'" "0 \<le> unclaimed t'"
    using settled_from [OF inv assms(2-4)] by blast
  have id: "hand_id t' = hand_id u" by (simp add: u(2) settledTable_def markSettled_def bumpSequence_def mapPlayers_def)
  have "map worth (players u) = map worth (players t)" using worth_players [of u] worth_players [of t] u(4) by simp
  then have "map fst (map worth (players u)) = map fst (map worth (players t))" by (simp only:)
  then have "map pid (players u) = map pid (players t)" by (simp add: comp_def worth_def)
  then have "pid ` set (players u) = pid ` set (players t)" using list.set_map [of pid] by metis
  moreover have "0 \<notin> pid ` set (players t)" using assms(5) by force
  ultimately have "\<forall>p \<in> set (players u). pid p \<noteq> 0" by (metis imageI)
  moreover have "street t \<noteq> settled"
    using act_cases [OF inv assms(2)] assms(3) by (auto dest!: hand_open_street betStreet_running)
  then have "sum_list (map stack (players u)) + potSize u \<le> int64_max"
    using worths_total [OF u(4)] assms(6) by (simp add: totalChips_running)
  ultimately show ?thesis
    using settlement_balanced [OF u(1,5-7)] u(2,3,8,9) assms(7-10) id by simp
qed

text \<open>A heads-up hand in which the first player folds.\<close>

definition foldedHand :: "ActionResult \<times> Table" where
  "foldedHand = (case act (command 1 fold_action 0) (headsUp []) of Inr x \<Rightarrow> x)"

theorem settlement_accepted_iff_witness:
  "validHandSettlement (handSettlement 1000 (auditSnapshot (snd foldedHand)) (res_awards (fst foldedHand)))"
proof -
  have "\<exists>x. act (command 1 fold_action 0) (headsUp []) = Inr x"
    using act_returns [OF reachable_table_inv [OF headsUp_start], of "command 1 fold_action 0"] by auto
  then have act: "act (command 1 fold_action 0) (headsUp []) = Inr (fst foldedHand, snd foldedHand)"
    by (auto simp: foldedHand_def)
  have facts: "res_error (fst foldedHand) = ok" "street (snd foldedHand) = settled" "hand_id (snd foldedHand) = 1"
    "contenders (snd foldedHand) = 1" "list_all (\<lambda>p. pid p \<noteq> 0) (players (headsUp []))" by code_simp+
  have "totalChips (headsUp []) = 11000" by code_simp
  then have total: "totalChips (headsUp []) \<le> int64_max" by (simp add: int64_max_def)
  have "\<forall>p \<in> set (players (headsUp [])). pid p \<noteq> 0" using facts(5) by (simp add: list_all_iff)
  from settlement_accepted_iff [OF headsUp_start act facts(1,2) this total, of 1000] facts(3,4)
  show ?thesis by (simp add: unclaimed_def)
qed

end
