(* ===== verification/Codec.thy ===== *)
theory Codec
  imports Prelude
begin

unbundle bit_operations_syntax

text \<open>
  Model of \<open>src/include/poker/net/length_field_codec.hpp\<close> and \<open>src/src/poker/net/length_field_codec.cpp\<close>:
  frames with a four-byte big-endian length, decoded from a byte stream that arrives in arbitrary pieces.
  Bytes are 8-bit words, the length field is a 32-bit word, sizes (\<open>std::size_t\<close>) are natural numbers; the
  constructor bounds them by \<open>2 ^ 32\<close>, so no sum of the code wraps.

  The reference for the decoder is \<open>parse\<close>, a function on the bytes not yet consumed. \<open>feed\<close> refines it,
  whatever the buffer and its read offset look like, and \<open>parse\<close> does not depend on how the stream is cut.
\<close>

section \<open>The codec\<close>

datatype CodecError = codec_none | empty_frame | frame_too_large | decoder_failed

record DecodeResult =
  codec_error :: CodecError
  frames :: "u8 list list"

record LengthFieldCodec =
  max_frame_size :: nat
  buffer :: "u8 list"
  read_offset :: nat
  failed :: bool

definition header_size :: nat where
  "header_size = 4"

definition default_max_frame_size :: nat where
  "default_max_frame_size = 1024 * 1024"

definition uint32_max :: nat where
  "uint32_max = 2 ^ 32 - 1"

definition newCodec :: "nat \<Rightarrow> LengthFieldCodec result" where
  "newCodec n =
     (if n = 0 \<or> n > uint32_max then Inl invalid_argument
      else Inr \<lparr>max_frame_size = n, buffer = [], read_offset = 0, failed = False\<rparr>)"

text \<open>The four \<open>push_back\<close>s of \<open>encode\<close>.\<close>

definition lengthHeader :: "u32 \<Rightarrow> u8 list" where
  "lengthHeader n =
     [ucast (drop_bit 24 n AND 0xff), ucast (drop_bit 16 n AND 0xff),
      ucast (drop_bit 8 n AND 0xff), ucast (n AND 0xff)]"

definition encode :: "u8 list \<Rightarrow> nat \<Rightarrow> u8 list result" where
  "encode payload n =
     (if payload = [] then Inl invalid_argument
      else if length payload > n \<or> length payload > uint32_max then Inl length_error
      else Inr (lengthHeader (of_nat (length payload)) @ payload))"

text \<open>\<open>peekLength\<close> on the unread bytes.\<close>

definition headerLength :: "u8 list \<Rightarrow> u32" where
  "headerLength header =
     (push_bit 24 (ucast (header ! 0)) OR push_bit 16 (ucast (header ! 1))
      OR push_bit 8 (ucast (header ! 2)) OR ucast (header ! 3))"

definition peekLength :: "LengthFieldCodec \<Rightarrow> u32" where
  "peekLength c = headerLength (drop (read_offset c) (buffer c))"

definition compact :: "LengthFieldCodec \<Rightarrow> LengthFieldCodec" where
  "compact c =
     (if read_offset c = 0 then c
      else if read_offset c = length (buffer c) then c\<lparr>buffer := [], read_offset := 0\<rparr>
      else if read_offset c \<ge> 4096 \<or> read_offset c * 2 \<ge> length (buffer c)
      then c\<lparr>buffer := drop (read_offset c) (buffer c), read_offset := 0\<rparr>
      else c)"

definition fail :: "CodecError \<Rightarrow> LengthFieldCodec \<Rightarrow> DecodeResult \<times> LengthFieldCodec" where
  "fail e c =
     (\<lparr>codec_error = e, frames = []\<rparr>, if e \<noteq> decoder_failed then c\<lparr>failed := True\<rparr> else c)"

definition bufferedBytes :: "LengthFieldCodec \<Rightarrow> nat" where
  "bufferedBytes c = length (buffer c) - read_offset c"

text \<open>The \<open>while\<close> loop of \<open>feed\<close> and what follows it; \<open>fs\<close> are the frames of \<open>result\<close>.\<close>

function decodeLoop :: "u8 list list \<Rightarrow> LengthFieldCodec \<Rightarrow> DecodeResult \<times> LengthFieldCodec" where
  "decodeLoop fs c =
     (if bufferedBytes c \<ge> header_size then
        (let len = peekLength c in
         if len = 0 then fail empty_frame c
         else if unat len > max_frame_size c then fail frame_too_large c
         else
           (let complete_size = header_size + unat len in
            if bufferedBytes c < complete_size then (\<lparr>codec_error = codec_none, frames = fs\<rparr>, compact c)
            else
              (let start = read_offset c + header_size;
                   frame = take (unat len) (drop start (buffer c))
               in decodeLoop (fs @ [frame]) (c\<lparr>read_offset := read_offset c + complete_size\<rparr>))))
      else (\<lparr>codec_error = codec_none, frames = fs\<rparr>, compact c))"
  by pat_completeness auto
termination
  by (relation "measure (\<lambda>(fs, c). bufferedBytes c)") (auto simp: bufferedBytes_def header_size_def)

declare decodeLoop.simps [simp del]

text \<open>\<open>feed(data, size)\<close>: \<open>None\<close> is the null pointer.\<close>

definition feedRaw :: "u8 list option \<Rightarrow> nat \<Rightarrow> LengthFieldCodec \<Rightarrow> (DecodeResult \<times> LengthFieldCodec) result" where
  "feedRaw data sz c =
     (if failed c then Inr (fail decoder_failed c)
      else if sz > 0 \<and> data = None then Inl invalid_argument
      else if sz = 0 then Inr (\<lparr>codec_error = codec_none, frames = []\<rparr>, c)
      else
        (let buffered = bufferedBytes c; maximum_buffer = max_frame_size c + header_size in
         if sz > maximum_buffer \<or> buffered > maximum_buffer - sz then Inr (fail frame_too_large c)
         else Inr (decodeLoop [] (c\<lparr>buffer := buffer c @ take sz (the data)\<rparr>))))"

definition feed :: "u8 list \<Rightarrow> LengthFieldCodec \<Rightarrow> (DecodeResult \<times> LengthFieldCodec) result" where
  "feed data c = feedRaw (Some data) (length data) c"

definition reset :: "LengthFieldCodec \<Rightarrow> LengthFieldCodec" where
  "reset c = c\<lparr>buffer := [], read_offset := 0, failed := False\<rparr>"

fun codecErrorToString :: "CodecError \<Rightarrow> string" where
  "codecErrorToString codec_none = ''none''"
| "codecErrorToString empty_frame = ''empty frame''"
| "codecErrorToString frame_too_large = ''frame too large''"
| "codecErrorToString decoder_failed = ''decoder failed''"

section \<open>The length field\<close>

lemma byte_mask: "(0xff :: u32) = mask 8"
  by (simp add: mask_eq_exp_minus_1)

lemma byte_of_word: "ucast (ucast (x AND 0xff) :: u8) = take_bit 8 (x :: u32)"
  unfolding byte_mask by (rule bit_word_eqI) (auto simp: bit_simps)

lemma bytes_of_word:
  "push_bit 24 (take_bit 8 (drop_bit 24 x)) OR push_bit 16 (take_bit 8 (drop_bit 16 x))
   OR push_bit 8 (take_bit 8 (drop_bit 8 x)) OR take_bit 8 x = (x :: u32)" (is "?w = x")
proof (rule bit_word_eqI)
  fix n assume "n < LENGTH(32)"
  then show "bit ?w n = bit x n"
    by (cases "n < 8"; cases "n < 16"; cases "n < 24") (auto simp: bit_simps)
qed

lemma headerLength_lengthHeader: "headerLength (lengthHeader len @ rest) = len"
  by (simp add: headerLength_def lengthHeader_def byte_of_word bytes_of_word)


section \<open>The reference parser\<close>

text \<open>The frames at the start of a byte sequence, and the bytes after them; an error if a length is
  illegal.\<close>

function parse :: "nat \<Rightarrow> u8 list \<Rightarrow> CodecError \<times> u8 list list \<times> u8 list" where
  "parse m bs =
     (if length bs < 4 then (codec_none, [], bs)
      else
        (let n = unat (headerLength bs) in
         if n = 0 then (empty_frame, [], bs)
         else if n > m then (frame_too_large, [], bs)
         else if length bs < 4 + n then (codec_none, [], bs)
         else (case parse m (drop (4 + n) bs) of
                 (e, fs, rest) \<Rightarrow> (e, take n (drop 4 bs) # fs, rest))))"
  by pat_completeness auto
termination
  by (relation "measure (\<lambda>(m, bs). length bs)") auto

declare parse.simps [simp del]

lemma headerLength_append: "4 \<le> length bs \<Longrightarrow> headerLength (bs @ cs) = headerLength bs"
  by (cases bs) (auto simp: headerLength_def nth_append)

text \<open>The parser does not depend on how the bytes are cut.\<close>

lemma parse_append:
  assumes "parse m bs = (codec_none, fs, rest)"
  shows "parse m (bs @ cs) = (case parse m (rest @ cs) of (e, gs, r) \<Rightarrow> (e, fs @ gs, r))"
  using assms
proof (induction m bs arbitrary: fs rest rule: parse.induct)
  case (1 m bs)
  let ?n = "unat (headerLength bs)"
  consider "length bs < 4 \<or> length bs < 4 + ?n" | "4 + ?n \<le> length bs" by linarith
  then show ?case
  proof cases
    case 1
    then have "fs = []" "rest = bs"
      using "1.prems" by (auto simp: parse.simps [of m bs] Let_def split: if_splits)
    then show ?thesis by (simp split: prod.splits)
  next
    case 2
    then have long: "\<not> length bs < 4" "\<not> length bs < 4 + ?n" by auto
    have legal: "?n \<noteq> 0" "\<not> ?n > m"
      using "1.prems" long by (auto simp: parse.simps [of m bs] Let_def split: if_splits)
    obtain gs where gs: "parse m (drop (4 + ?n) bs) = (codec_none, gs, rest)" "fs = take ?n (drop 4 bs) # gs"
      using "1.prems" long legal by (auto simp: parse.simps [of m bs] Let_def split: prod.splits)
    have "parse m (drop (4 + ?n) bs @ cs) = (case parse m (rest @ cs) of (e, hs, r) \<Rightarrow> (e, gs @ hs, r))"
      by (rule "1.IH" [OF long(1) refl legal long(2) gs(1)])
    then show ?thesis
      using long legal gs(2) headerLength_append [of bs cs]
      by (simp add: parse.simps [of m "bs @ cs"] Let_def split: prod.splits)
  qed
qed

lemma parse_nil [simp]: "parse m [] = (codec_none, [], [])"
  by (simp add: parse.simps)

lemma parse_rest:
  "parse m bs = (codec_none, fs, rest) \<Longrightarrow> length rest < m + 4 \<and> parse m rest = (codec_none, [], rest)"
proof (induction m bs arbitrary: fs rest rule: parse.induct)
  case (1 m bs)
  let ?n = "unat (headerLength bs)"
  consider "length bs < 4" | "4 \<le> length bs" "length bs < 4 + ?n" | "4 \<le> length bs" "4 + ?n \<le> length bs" by linarith
  then show ?case
  proof cases
    case 1
    then have "rest = bs" "fs = []" using "1.prems" by (simp_all add: parse.simps [of m bs])
    then show ?thesis using "1.prems" 1 by simp
  next
    case 2
    then have "rest = bs" "fs = []" "?n \<le> m"
      using "1.prems" by (simp_all add: parse.simps [of m bs] Let_def split: if_splits)
    then show ?thesis using "1.prems" 2 by simp
  next
    case 3
    then have long: "\<not> length bs < 4" "\<not> length bs < 4 + ?n" by auto
    have legal: "?n \<noteq> 0" "\<not> ?n > m"
      using "1.prems" long by (auto simp: parse.simps [of m bs] Let_def split: if_splits)
    obtain gs where gs: "parse m (drop (4 + ?n) bs) = (codec_none, gs, rest)"
      using "1.prems" long legal by (auto simp: parse.simps [of m bs] Let_def split: prod.splits)
    show ?thesis by (rule "1.IH" [OF long(1) refl legal long(2) gs])
  qed
qed

section \<open>The decoder refines the parser\<close>

definition unread :: "LengthFieldCodec \<Rightarrow> u8 list" where
  "unread c = drop (read_offset c) (buffer c)"

text \<open>The invariant: the read offset lies in the buffer and the buffer has a bounded size; unless the decoder
  has failed, the unread bytes hold no complete frame, and the consumed part of the buffer is shorter than
  the rest.\<close>

definition codec_ok :: "LengthFieldCodec \<Rightarrow> bool" where
  "codec_ok c \<longleftrightarrow> 0 < max_frame_size c \<and> max_frame_size c \<le> uint32_max \<and> read_offset c \<le> length (buffer c) \<and>
     length (buffer c) \<le> 2 * (max_frame_size c + header_size) \<and>
     (\<not> failed c \<longrightarrow> parse (max_frame_size c) (unread c) = (codec_none, [], unread c) \<and>
        (read_offset c = 0 \<or> read_offset c < length (unread c)))"

lemma length_unread: "length (unread c) = bufferedBytes c"
  by (simp add: unread_def bufferedBytes_def)

lemma unread_failed [simp]: "unread (c\<lparr>failed := b\<rparr>) = unread c"
  by (simp add: unread_def)

lemma compact_simps [simp]:
  "max_frame_size (compact c) = max_frame_size c" "failed (compact c) = failed c" "unread (compact c) = unread c"
  by (simp_all add: compact_def unread_def)

lemma compact_ok:
  "read_offset c \<le> length (buffer c) \<Longrightarrow>
   (read_offset (compact c) = 0 \<or> read_offset (compact c) < length (unread c)) \<and>
   length (buffer (compact c)) \<le> length (buffer c) \<and> read_offset (compact c) \<le> length (buffer (compact c))"
  by (auto simp: compact_def unread_def)

lemma decodeLoop_parse:
  assumes "read_offset c \<le> length (buffer c)" "\<not> failed c"
  shows "case parse (max_frame_size c) (unread c) of (e, gs, rest) \<Rightarrow>
    fst (decodeLoop fs c) = \<lparr>codec_error = e, frames = (if e = codec_none then fs @ gs else [])\<rparr> \<and>
    failed (snd (decodeLoop fs c)) = (e \<noteq> codec_none) \<and>
    unread (snd (decodeLoop fs c)) = rest \<and>
    max_frame_size (snd (decodeLoop fs c)) = max_frame_size c \<and>
    read_offset (snd (decodeLoop fs c)) \<le> length (buffer (snd (decodeLoop fs c))) \<and>
    length (buffer (snd (decodeLoop fs c))) \<le> length (buffer c) \<and>
    (e = codec_none \<longrightarrow> read_offset (snd (decodeLoop fs c)) = 0 \<or> read_offset (snd (decodeLoop fs c)) < length rest)"
  using assms
proof (induction fs c rule: decodeLoop.induct)
  case (1 fs c)
  let ?n = "unat (peekLength c)"
  have peek: "headerLength (unread c) = peekLength c" by (simp add: peekLength_def unread_def)
  have len: "length (unread c) = bufferedBytes c" by (rule length_unread)
  have zero: "peekLength c = 0 \<longleftrightarrow> ?n = 0" by (simp add: unat_eq_0)
  note step = decodeLoop.simps [of fs c] parse.simps [of "max_frame_size c" "unread c"]
  consider (short) "bufferedBytes c < 4" | (empty) "4 \<le> bufferedBytes c" "?n = 0"
    | (large) "4 \<le> bufferedBytes c" "?n \<noteq> 0" "?n > max_frame_size c"
    | (partial) "4 \<le> bufferedBytes c" "?n \<noteq> 0" "?n \<le> max_frame_size c" "bufferedBytes c < 4 + ?n"
    | (frame) "?n \<noteq> 0" "?n \<le> max_frame_size c" "4 + ?n \<le> bufferedBytes c" by linarith
  then show ?case
  proof cases
    case frame
    let ?c = "c\<lparr>read_offset := read_offset c + (4 + ?n)\<rparr>"
    have off: "read_offset ?c \<le> length (buffer ?c)" using frame(3) by (simp add: bufferedBytes_def)
    have un: "unread ?c = drop (4 + ?n) (unread c)" by (simp add: unread_def add.commute add.left_commute)
    have fr: "take ?n (drop (read_offset c + 4) (buffer c)) = take ?n (drop 4 (unread c))"
      by (simp add: unread_def add.commute)
    have loop: "decodeLoop fs c = decodeLoop (fs @ [take ?n (drop 4 (unread c))]) ?c"
      using frame zero by (simp add: step(1) header_size_def Let_def fr)
    have par: "parse (max_frame_size c) (unread c) =
        (case parse (max_frame_size c) (unread ?c) of (e, gs, rest) \<Rightarrow> (e, take ?n (drop 4 (unread c)) # gs, rest))"
      using frame by (simp add: step(2) peek len Let_def un)
    show ?thesis
      using "1.IH" [OF _ refl _ _ refl _ refl refl] frame zero off "1.prems"
      unfolding loop par by (simp add: header_size_def fr split: prod.splits)
  qed (use "1.prems" zero compact_ok [of c] in
      \<open>auto simp: step header_size_def Let_def peek len fail_def\<close>)
qed


lemma codec_ok_buffered: "codec_ok c \<Longrightarrow> \<not> failed c \<Longrightarrow> bufferedBytes c < max_frame_size c + 4"
  using parse_rest [of "max_frame_size c" "unread c" "[]" "unread c"]
  by (simp add: codec_ok_def length_unread)

definition overflows :: "u8 list \<Rightarrow> LengthFieldCodec \<Rightarrow> bool" where
  "overflows data c \<longleftrightarrow> length (unread c) + length data > max_frame_size c + 4"

text \<open>What \<open>feed\<close> returns and leaves behind, in terms of the parser.\<close>

lemma feed_parse:
  assumes "codec_ok c" "\<not> failed c"
  shows "\<exists>r c'. feed data c = Inr (r, c') \<and> codec_ok c' \<and> max_frame_size c' = max_frame_size c \<and>
    (if overflows data c
     then r = \<lparr>codec_error = frame_too_large, frames = []\<rparr> \<and> failed c' \<and> unread c' = unread c
     else case parse (max_frame_size c) (unread c @ data) of (e, fs, rest) \<Rightarrow>
       r = \<lparr>codec_error = e, frames = (if e = codec_none then fs else [])\<rparr> \<and>
       failed c' = (e \<noteq> codec_none) \<and> unread c' = rest)"
proof -
  let ?m = "max_frame_size c"
  have small: "bufferedBytes c < ?m + 4" by (rule codec_ok_buffered [OF assms])
  have len: "length (unread c) = bufferedBytes c" by (rule length_unread)
  consider "data = []" | "data \<noteq> []" "overflows data c" | "data \<noteq> []" "\<not> overflows data c" by blast
  then show ?thesis
  proof cases
    case 1
    then show ?thesis
      using assms small len by (simp add: feed_def feedRaw_def overflows_def codec_ok_def)
  next
    case 2
    then have "feed data c = Inr (fail frame_too_large c)"
      using assms(2) small len by (auto simp: feed_def feedRaw_def header_size_def overflows_def Let_def)
    then show ?thesis using assms 2 by (simp add: fail_def codec_ok_def)
  next
    case 3
    let ?c = "c\<lparr>buffer := buffer c @ data\<rparr>"
    have fits: "bufferedBytes c + length data \<le> ?m + 4" using 3(2) len by (simp add: overflows_def)
    then have run: "feed data c = Inr (decodeLoop [] ?c)"
      using assms(2) 3(1) by (auto simp: feed_def feedRaw_def header_size_def Let_def)
    have off: "read_offset c \<le> length (buffer c)" using assms(1) by (simp add: codec_ok_def)
    then have un: "unread ?c = unread c @ data" by (simp add: unread_def)
    have size: "length (buffer ?c) \<le> 2 * (?m + 4)"
    proof -
      have "read_offset c < ?m + 4" using assms small by (auto simp: codec_ok_def length_unread)
      moreover have "length (buffer ?c) = read_offset c + (bufferedBytes c + length data)"
        using off by (simp add: bufferedBytes_def)
      ultimately show ?thesis using fits by simp
    qed
    obtain e fs rest where par: "parse ?m (unread c @ data) = (e, fs, rest)" by (metis surj_pair)
    obtain r c' where rc: "decodeLoop [] ?c = (r, c')" by (metis surj_pair)
    have out: "r = \<lparr>codec_error = e, frames = (if e = codec_none then fs else [])\<rparr>" "failed c' = (e \<noteq> codec_none)"
      "unread c' = rest" "max_frame_size c' = ?m" "read_offset c' \<le> length (buffer c')"
      "length (buffer c') \<le> length (buffer ?c)"
      "e = codec_none \<longrightarrow> read_offset c' = 0 \<or> read_offset c' < length rest"
      using decodeLoop_parse [of ?c "[]"] off assms(2) unfolding un rc by (simp_all add: par)
    have "codec_ok c'"
      using assms(1) out size parse_rest [of ?m "unread c @ data" fs rest] par
      by (auto simp: codec_ok_def header_size_def)
    then show ?thesis using run rc out 3(2) par by simp
  qed
qed

lemma newCodec_ok: "newCodec m = Inr c \<Longrightarrow> codec_ok c \<and> \<not> failed c \<and> unread c = [] \<and> max_frame_size c = m"
  by (auto simp: newCodec_def codec_ok_def unread_def split: if_splits)

section \<open>Streams\<close>

text \<open>Feeding a sequence of chunks until the first error.\<close>

fun feedChunks :: "u8 list list \<Rightarrow> LengthFieldCodec \<Rightarrow> (u8 list list \<times> LengthFieldCodec) option" where
  "feedChunks [] c = Some ([], c)"
| "feedChunks (ch # chs) c =
     (case feed ch c of
        Inl e \<Rightarrow> None
      | Inr (r, c') \<Rightarrow>
          (if codec_error r \<noteq> codec_none then None
           else map_option (\<lambda>(fs, c''). (frames r @ fs, c'')) (feedChunks chs c')))"

lemma feedChunks_parse:
  assumes "codec_ok c" "\<not> failed c" "feedChunks chs c = Some (fs, c')"
  shows "codec_ok c' \<and> \<not> failed c' \<and> parse (max_frame_size c) (unread c @ concat chs) = (codec_none, fs, unread c')"
  using assms
proof (induction chs arbitrary: c fs)
  case Nil
  then show ?case by (auto simp: codec_ok_def)
next
  case (Cons ch chs)
  obtain r c1 where f: "feed ch c = Inr (r, c1)" "codec_ok c1" "max_frame_size c1 = max_frame_size c"
    and out: "if overflows ch c
       then r = \<lparr>codec_error = frame_too_large, frames = []\<rparr> \<and> failed c1 \<and> unread c1 = unread c
       else case parse (max_frame_size c) (unread c @ ch) of (e, fs, rest) \<Rightarrow>
         r = \<lparr>codec_error = e, frames = (if e = codec_none then fs else [])\<rparr> \<and>
         failed c1 = (e \<noteq> codec_none) \<and> unread c1 = rest"
    using feed_parse [OF Cons.prems(1,2), of ch] by blast
  obtain gs where gs: "codec_error r = codec_none" "feedChunks chs c1 = Some (gs, c')" "fs = frames r @ gs"
    using Cons.prems(3) f(1) by (auto split: if_splits)
  then have first: "parse (max_frame_size c) (unread c @ ch) = (codec_none, frames r, unread c1)" "\<not> failed c1"
    using out by (auto split: if_splits prod.splits)
  then show ?case
    using Cons.IH [OF f(2) first(2) gs(2)] parse_append [OF first(1), of "concat chs"] f(3) gs(3) by simp
qed


lemma some_pair: "x \<noteq> None \<Longrightarrow> \<exists>a b. x = Some (a, b)"
  by auto



section \<open>Round trip\<close>

lemma lengthHeader_length [simp]: "length (lengthHeader n) = 4"
  by (simp add: lengthHeader_def)

lemma encode_shape:
  assumes "encode p m = Inr f"
  shows "p \<noteq> []" "length p \<le> m" "f = lengthHeader (of_nat (length p)) @ p" "unat (headerLength (f @ rest)) = length p"
proof -
  show f: "p \<noteq> []" "length p \<le> m" "f = lengthHeader (of_nat (length p)) @ p"
    using assms by (auto simp: encode_def split: if_splits)
  have "length p < 2 ^ 32" using assms by (auto simp: encode_def uint32_max_def split: if_splits)
  then show "unat (headerLength (f @ rest)) = length p"
    by (simp add: f(3) headerLength_lengthHeader unat_of_nat)
qed

lemma parse_encoded:
  assumes "encode p m = Inr f"
  shows "parse m (f @ rest) = (case parse m rest of (e, fs, r) \<Rightarrow> (e, p # fs, r))"
proof -
  note f = encode_shape(1-3) [OF assms] encode_shape(4) [OF assms, of rest]
  have "length f = 4 + length p" "drop 4 f = p" using f(3) by simp_all
  then show ?thesis using f(1,2,4) by (simp add: parse.simps [of m "f @ rest"])
qed

lemma parse_encoded_part:
  assumes "encode p m = Inr f" "f = ys @ zs" "zs \<noteq> []"
  shows "parse m ys = (codec_none, [], ys) \<and> length ys < 4 + length p"
proof -
  note f = encode_shape(1-3) [OF assms(1)] encode_shape(4) [OF assms(1), of "[]"]
  have "length ys + length zs = 4 + length p" using f(3) assms(2) by (metis length_append lengthHeader_length)
  then have len: "length ys < 4 + length p" using assms(3) by (cases zs) auto
  have "headerLength ys = headerLength f" if "4 \<le> length ys" using headerLength_append [OF that] assms(2) by simp
  then show ?thesis using f len by (auto simp: parse.simps [of m ys] Let_def)
qed

text \<open>The decoder after any part of an encoded stream: some of the payloads are out, and the rest of the
  stream is ahead.\<close>

lemma parse_stream:
  assumes "list_all2 (\<lambda>p f. encode p m = Inr f) ps fs" "ys @ zs = concat fs" "\<forall>p \<in> set ps. length p \<le> L"
  shows "\<exists>k rest. parse m ys = (codec_none, take k ps, rest) \<and> rest @ zs = concat (drop k fs) \<and> length rest \<le> L + 3"
  using assms
proof (induction ps arbitrary: fs ys)
  case Nil
  then have "ys = []" "zs = []" by auto
  then show ?case using Nil by (intro exI [of _ 0] exI [of _ "[]"]) simp
next
  case (Cons p ps)
  obtain f fs' where fs: "fs = f # fs'" "encode p m = Inr f" "list_all2 (\<lambda>p f. encode p m = Inr f) ps fs'"
    using Cons.prems(1) by (auto simp: list_all2_Cons1)
  from Cons.prems(2) have "ys @ zs = f @ concat fs'" using fs(1) by simp
  then obtain us where "ys = f @ us \<and> us @ zs = concat fs' \<or> ys @ us = f \<and> zs = us @ concat fs'"
    by (auto simp: append_eq_append_conv2)
  then consider "ys = f @ us" "us @ zs = concat fs'" | "f = ys @ us" "zs = us @ concat fs'" "us \<noteq> []"
    by (cases "us = []") auto
  then show ?case
  proof cases
    case 1
    obtain k rest where "parse m us = (codec_none, take k ps, rest)" "rest @ zs = concat (drop k fs')" "length rest \<le> L + 3"
      using Cons.IH [OF fs(3) 1(2)] Cons.prems(3) by auto
    then show ?thesis
      using parse_encoded [OF fs(2), of us] 1(1) fs(1) by (intro exI [of _ "Suc k"] exI [of _ rest]) simp
  next
    case 2
    then show ?thesis
      using parse_encoded_part [OF fs(2) 2(1,3)] Cons.prems(3) fs(1) by (intro exI [of _ 0] exI [of _ ys]) auto
  qed
qed

lemma feedChunks_stream:
  assumes "codec_ok c" "\<not> failed c" "list_all2 (\<lambda>p f. encode p (max_frame_size c) = Inr f) ps fs"
    "unread c @ concat chs = concat fs" "length (unread c) \<le> L + 3" "\<forall>p \<in> set ps. length p \<le> L"
    "\<forall>ch \<in> set chs. length ch \<le> K" "L + K \<le> max_frame_size c + 1"
  shows "\<exists>c'. feedChunks chs c = Some (ps, c') \<and> bufferedBytes c' = 0"
  using assms
proof (induction chs arbitrary: c ps fs)
  case Nil
  then obtain k rest where *: "parse (max_frame_size c) (unread c) = (codec_none, take k ps, rest)"
      "rest = concat (drop k fs)" using parse_stream [OF Nil.prems(3) _ Nil.prems(6), of "unread c" "[]"] by auto
  then have un: "take k ps = []" "rest = unread c" using Nil.prems(1,2) by (auto simp: codec_ok_def)
  have same: "concat (drop k fs) = concat fs" using *(2) un(2) Nil.prems(4) by simp
  have "ps = []"
  proof (cases "k = 0 \<or> ps = []")
    case True
    then show ?thesis
      using parse_encoded Nil.prems un(2) * by (cases ps; cases fs) (auto simp: list_all2_Cons1 codec_ok_def split: prod.splits)
  qed (use un(1) in auto)
  then show ?case using Nil.prems by (simp add: length_unread [symmetric])
next
  case (Cons ch chs)
  have "ch \<in> set (ch # chs)" by simp
  then have fits: "\<not> overflows ch c" using Cons.prems(5,7,8) by (fastforce simp: overflows_def)
  obtain k rest where *: "parse (max_frame_size c) (unread c @ ch) = (codec_none, take k ps, rest)"
      "rest @ concat chs = concat (drop k fs)" "length rest \<le> L + 3"
    using parse_stream [OF Cons.prems(3) _ Cons.prems(6), of "unread c @ ch" "concat chs"] Cons.prems(4) by auto
  obtain r c1 where f: "feed ch c = Inr (r, c1)" "codec_ok c1" "max_frame_size c1 = max_frame_size c"
      "r = \<lparr>codec_error = codec_none, frames = take k ps\<rparr>" "\<not> failed c1" "unread c1 = rest"
    using feed_parse [OF Cons.prems(1,2), of ch] fits *(1) by auto
  have "\<forall>p \<in> set (drop k ps). length p \<le> L" using Cons.prems(6) by (auto dest: in_set_dropD)
  moreover have "list_all2 (\<lambda>p f. encode p (max_frame_size c1) = Inr f) (drop k ps) (drop k fs)"
    using Cons.prems(3) f(3) by (simp add: list_all2_dropI)
  ultimately obtain c' where "feedChunks chs c1 = Some (drop k ps, c')" "bufferedBytes c' = 0"
    using Cons.IH [OF f(2,5), of "drop k ps" "drop k fs"] *(2,3) f(3,6) Cons.prems(7,8) by auto
  then show ?case using f(1,4) by simp
qed




section \<open>Arbitrary input\<close>

text \<open>Feeding on after errors.\<close>

fun feedAll :: "u8 list list \<Rightarrow> LengthFieldCodec \<Rightarrow> (DecodeResult list \<times> LengthFieldCodec) result" where
  "feedAll [] c = Inr ([], c)"
| "feedAll (ch # chs) c =
     bind_result (feed ch c) (\<lambda>(r, c'). bind_result (feedAll chs c') (\<lambda>(rs, c''). Inr (r # rs, c'')))"

lemma feed_failed: "failed c \<Longrightarrow> feed data c = Inr (\<lparr>codec_error = decoder_failed, frames = []\<rparr>, c)"
  by (simp add: feed_def feedRaw_def fail_def)

lemma feedAll_failed:
  "failed c \<Longrightarrow> feedAll chs c = Inr (replicate (length chs) \<lparr>codec_error = decoder_failed, frames = []\<rparr>, c)"
  by (induction chs) (simp_all add: feed_failed)

lemma feedAll_ok:
  assumes "codec_ok c"
  shows "\<exists>rs c'. feedAll chs c = Inr (rs, c') \<and> codec_ok c' \<and> max_frame_size c' = max_frame_size c \<and>
    (\<exists>good bad. rs = good @ bad \<and> (\<forall>r \<in> set good. codec_error r = codec_none) \<and>
       (\<forall>r \<in> set (tl bad). r = \<lparr>codec_error = decoder_failed, frames = []\<rparr>))"
  using assms
proof (induction chs arbitrary: c)
  case Nil
  then show ?case by auto
next
  case (Cons ch chs)
  obtain r c1 where f: "feed ch c = Inr (r, c1)" "codec_ok c1" "max_frame_size c1 = max_frame_size c"
    "codec_error r \<noteq> codec_none \<longrightarrow> failed c1"
  proof (cases "failed c")
    case True
    then show thesis using that feed_failed Cons.prems by auto
  next
    case False
    show thesis using feed_parse [OF Cons.prems False, of ch] that by (auto split: if_splits prod.splits)
  qed
  show ?case
  proof (cases "codec_error r = codec_none")
    case True
    obtain rs c2 good bad where *: "feedAll chs c1 = Inr (rs, c2)" "codec_ok c2" "max_frame_size c2 = max_frame_size c"
      "rs = good @ bad" "\<forall>r \<in> set good. codec_error r = codec_none"
      "\<forall>r \<in> set (tl bad). r = \<lparr>codec_error = decoder_failed, frames = []\<rparr>"
      using Cons.IH [OF f(2)] f(3) by auto
    have "\<exists>good' bad'. r # rs = good' @ bad' \<and> (\<forall>r \<in> set good'. codec_error r = codec_none) \<and>
       (\<forall>r \<in> set (tl bad'). r = \<lparr>codec_error = decoder_failed, frames = []\<rparr>)"
      using * True by (intro exI [of _ "r # good"] exI [of _ bad]) simp
    then show ?thesis using f(1) *(1-3) by simp
  next
    case False
    have "\<exists>good bad. r # replicate (length chs) \<lparr>codec_error = decoder_failed, frames = []\<rparr> = good @ bad \<and>
       (\<forall>r \<in> set good. codec_error r = codec_none) \<and>
       (\<forall>r \<in> set (tl bad). r = \<lparr>codec_error = decoder_failed, frames = []\<rparr>)"
      by (intro exI [of _ "[]"] exI [of _ "r # replicate (length chs) \<lparr>codec_error = decoder_failed, frames = []\<rparr>"]) simp
    then show ?thesis using f feedAll_failed [of c1 chs] False by simp
  qed
qed

text \<open>Whatever bytes arrive, \<open>feed\<close> never throws, the buffer never holds more than twice the largest
  frame with its header, and the answers are a run of successes, then at most one report of the error, then
  \<open>decoder_failed\<close> without frames for every further chunk.\<close>
theorem feed_any_input:
  assumes "newCodec m = Inr c"
  shows "\<exists>rs c'. feedAll chs c = Inr (rs, c') \<and> length (buffer c') \<le> 2 * (m + 4) \<and>
    (\<exists>good bad. rs = good @ bad \<and> (\<forall>r \<in> set good. codec_error r = codec_none) \<and>
       (\<forall>r \<in> set (tl bad). r = \<lparr>codec_error = decoder_failed, frames = []\<rparr>))"
proof -
  have c: "codec_ok c" "max_frame_size c = m" using newCodec_ok [OF assms] by auto
  have bound: "length (buffer c') \<le> 2 * (m + 4)" if "codec_ok c'" "max_frame_size c' = m" for c'
    using that by (simp add: codec_ok_def header_size_def)
  show ?thesis using feedAll_ok [OF c(1), of chs] bound unfolding c(2) by blast
qed

theorem feed_any_input_witness:
  "\<exists>rs c'. feedAll [[0, 0], [0, 9], [1]] \<lparr>max_frame_size = 4, buffer = [], read_offset = 0, failed = False\<rparr> = Inr (rs, c') \<and>
    length (buffer c') \<le> 2 * (4 + 4) \<and>
    (\<exists>good bad. rs = good @ bad \<and> (\<forall>r \<in> set good. codec_error r = codec_none) \<and>
       (\<forall>r \<in> set (tl bad). r = \<lparr>codec_error = decoder_failed, frames = []\<rparr>))"
  by (rule feed_any_input) (simp add: newCodec_def uint32_max_def)

text \<open>The limit on a chunk is a limit on the sum of the frames in it: two legal frames that arrive
  together are refused where each of them alone is accepted.\<close>

theorem feed_rejects_coalesced:
  "feedChunks [[0, 0, 0, 1, 7], [0, 0, 0, 1, 8]] \<lparr>max_frame_size = 4, buffer = [], read_offset = 0, failed = False\<rparr>
     = Some ([[7], [8]], \<lparr>max_frame_size = 4, buffer = [], read_offset = 0, failed = False\<rparr>)"
  "feedChunks [[0, 0, 0, 1, 7, 0, 0, 0, 1, 8]] \<lparr>max_frame_size = 4, buffer = [], read_offset = 0, failed = False\<rparr> = None"
  by code_simp+

end
