(* ===== verification/Idempotency.thy ===== *)
theory Idempotency
  imports Assoc_Maps
begin

text \<open>
  Model of \<open>src/include/poker/application/idempotency_cache.hpp\<close> and
  \<open>src/src/poker/application/idempotency_cache.cpp\<close>: per user, the last accepted client sequence number
  and the requests accepted recently with their responses. Each member function runs under one mutex, so it
  is one step on the state; ids and sequence numbers are 64-bit words and wrap.
\<close>

section \<open>The cache\<close>

type_synonym UserId = u64
type_synonym RequestId = u64
type_synonym ClientSequence = u64
type_synonym ResponseBytes = "u8 list"

datatype RequestStatus =
    accepted
  | duplicate
  | in_flight
  | stale_sequence
  | sequence_gap
  | capacity_exceeded
  | invalid_request

record RequestDecision =
  decision :: RequestStatus
  cached_response :: "ResponseBytes option"

record Entry =
  entry_sequence :: ClientSequence
  response :: "ResponseBytes option"

record UserState =
  last_sequence :: ClientSequence
  entries :: "(RequestId, Entry) assoc_map"
  insertion_order :: "RequestId list"

record IdempotencyCache =
  max_requests_per_user :: nat
  users :: "(UserId, UserState) assoc_map"

definition newCache :: "nat \<Rightarrow> IdempotencyCache result" where
  "newCache n = (if n = 0 then Inl invalid_argument else Inr \<lparr>max_requests_per_user = n, users = []\<rparr>)"

text \<open>\<open>users_[user_id]\<close>, which creates an empty state for a new user.\<close>

definition emptyState :: UserState where
  "emptyState = \<lparr>last_sequence = 0, entries = [], insertion_order = []\<rparr>"

definition stateOf :: "IdempotencyCache \<Rightarrow> UserId \<Rightarrow> UserState" where
  "stateOf c u = (case map_of (users c) u of None \<Rightarrow> emptyState | Some st \<Rightarrow> st)"

text \<open>The loop of \<open>evictOldest\<close> over the positions of \<open>insertion_order\<close>.\<close>

fun evictLoop :: "nat \<Rightarrow> (RequestId, Entry) assoc_map \<Rightarrow> RequestId list \<Rightarrow> (RequestId, Entry) assoc_map \<times> RequestId list" where
  "evictLoop n es [] = (es, [])"
| "evictLoop n es (r # rs) =
     (if length es \<ge> n then
        (case map_of es r of
           None \<Rightarrow> evictLoop n es rs
         | Some e \<Rightarrow>
             (if response e \<noteq> None then evictLoop n (erase r es) rs
              else (case evictLoop n es rs of (es', rs') \<Rightarrow> (es', r # rs'))))
      else (es, r # rs))"

definition evictOldest :: "nat \<Rightarrow> UserState \<Rightarrow> UserState" where
  "evictOldest n st =
     (case evictLoop n (entries st) (insertion_order st) of
        (es, rs) \<Rightarrow> st\<lparr>entries := es, insertion_order := rs\<rparr>)"

definition decide :: "RequestStatus \<Rightarrow> RequestDecision" where
  "decide s = \<lparr>decision = s, cached_response = None\<rparr>"

definition beginRequest :: "UserId \<Rightarrow> RequestId \<Rightarrow> ClientSequence \<Rightarrow> IdempotencyCache \<Rightarrow> RequestDecision \<times> IdempotencyCache" where
  "beginRequest user_id request_id sequence c =
     (if user_id = 0 \<or> request_id = 0 \<or> sequence = 0 then (decide invalid_request, c)
      else
        (let st = stateOf c user_id;
             touch = (\<lambda>st. c\<lparr>users := put user_id st (users c)\<rparr>)
         in case map_of (entries st) request_id of
              Some e \<Rightarrow>
                ((case response e of
                    Some bytes \<Rightarrow> \<lparr>decision = duplicate, cached_response = Some bytes\<rparr>
                  | None \<Rightarrow> decide in_flight), touch st)
            | None \<Rightarrow>
                (if sequence \<le> last_sequence st then (decide stale_sequence, touch st)
                 else if sequence \<noteq> last_sequence st + 1 then (decide sequence_gap, touch st)
                 else
                   (let st1 = evictOldest (max_requests_per_user c) st in
                    if length (entries st1) \<ge> max_requests_per_user c then (decide capacity_exceeded, touch st1)
                    else (decide accepted,
                          touch (st1\<lparr>last_sequence := sequence,
                                     entries := put request_id \<lparr>entry_sequence = sequence, response = None\<rparr> (entries st1),
                                     insertion_order := insertion_order st1 @ [request_id]\<rparr>))))))"

definition complete :: "UserId \<Rightarrow> RequestId \<Rightarrow> ResponseBytes \<Rightarrow> IdempotencyCache \<Rightarrow> bool \<times> IdempotencyCache" where
  "complete user_id request_id bytes c =
     (case map_of (users c) user_id of
        None \<Rightarrow> (False, c)
      | Some st \<Rightarrow>
          (case map_of (entries st) request_id of
             None \<Rightarrow> (False, c)
           | Some e \<Rightarrow>
               (True, c\<lparr>users := put user_id
                  (st\<lparr>entries := put request_id (e\<lparr>response := Some bytes\<rparr>) (entries st)\<rparr>) (users c)\<rparr>)))"

definition resetUser :: "UserId \<Rightarrow> IdempotencyCache \<Rightarrow> IdempotencyCache" where
  "resetUser user_id c = c\<lparr>users := erase user_id (users c)\<rparr>"

definition userCount :: "IdempotencyCache \<Rightarrow> nat" where
  "userCount c = length (users c)"

section \<open>The invariant\<close>

text \<open>The deque lists exactly the cached requests, each once, and there are at most as many as the limit.\<close>

definition state_ok :: "nat \<Rightarrow> UserState \<Rightarrow> bool" where
  "state_ok n st \<longleftrightarrow> assoc (entries st) \<and> distinct (insertion_order st) \<and>
     set (insertion_order st) = dom (map_of (entries st)) \<and> length (entries st) \<le> n"

definition cache_ok :: "IdempotencyCache \<Rightarrow> bool" where
  "cache_ok c \<longleftrightarrow> assoc (users c) \<and> (\<forall>u st. map_of (users c) u = Some st \<longrightarrow> state_ok (max_requests_per_user c) st)"

text \<open>What an eviction drops: only requests that have a response.\<close>

definition evicts :: "RequestId set \<Rightarrow> (RequestId, Entry) assoc_map \<Rightarrow> (RequestId, Entry) assoc_map \<Rightarrow> bool" where
  "evicts gone es es' \<longleftrightarrow> assoc es' \<and> length es' \<le> length es \<and>
     (\<forall>q. map_of es' q = (if q \<in> gone then None else map_of es q)) \<and>
     (\<forall>q \<in> gone. \<exists>e. map_of es q = Some e \<and> response e \<noteq> None)"

lemma evicts_erase:
  assumes "evicts gone (erase r es) es'" "assoc es" "map_of es r = Some e" "response e \<noteq> None"
  shows "evicts (insert r gone) es es'"
proof -
  have "length es' \<le> length es" using assms(1) length_erase [OF assms(2), of r] by (simp add: evicts_def split: if_splits)
  moreover have "map_of es' q = (if q \<in> insert r gone then None else map_of es q)" for q
    using assms(1) by (simp add: evicts_def map_simps)
  moreover have "\<exists>e. map_of es q = Some e \<and> response e \<noteq> None" if "q \<in> insert r gone" for q
  proof (cases "q = r")
    case False
    then have "\<exists>e. map_of (erase r es) q = Some e \<and> response e \<noteq> None" using that assms(1) by (simp add: evicts_def)
    then show ?thesis using False by (simp add: map_simps)
  qed (use assms(3,4) in simp)
  ultimately show ?thesis using assms(1) by (simp add: evicts_def)
qed

lemma evictLoop_ok:
  assumes "evictLoop n es rs = (es', rs')" "assoc es" "distinct rs" "set rs \<subseteq> dom (map_of es)"
  shows "\<exists>gone. evicts gone es es' \<and> gone \<subseteq> set rs \<and> distinct rs' \<and> set rs' = set rs - gone"
  using assms
proof (induction n es rs arbitrary: es' rs' rule: evictLoop.induct)
  case (1 n es)
  then show ?case by (intro exI [of _ "{}"]) (simp add: evicts_def)
next
  case (2 n es r rs)
  show ?case
  proof (cases "length es \<ge> n")
    case False
    then show ?thesis using "2.prems" by (intro exI [of _ "{}"]) (simp add: evicts_def)
  next
    case True
    obtain e where e: "map_of es r = Some e" using "2.prems"(4) by auto
    have rs: "distinct rs" "r \<notin> set rs" using "2.prems"(3) by auto
    show ?thesis
    proof (cases "response e = None")
      case None: True
      obtain rs1 where rs1: "evictLoop n es rs = (es', rs1)" "rs' = r # rs1"
        using "2.prems"(1) True e None by (auto split: prod.splits)
      have sub: "set rs \<subseteq> dom (map_of es)" using "2.prems"(4) by simp
      have "\<not> response e \<noteq> None" using None by simp
      from "2.IH"(3) [OF True e this rs1(1) "2.prems"(2) rs(1) sub]
      obtain gone where gone: "evicts gone es es'" "gone \<subseteq> set rs" "distinct rs1" "set rs1 = set rs - gone" by blast
      then have "gone \<subseteq> set (r # rs)" "distinct rs'" "set rs' = set (r # rs) - gone" using rs(2) rs1(2) by auto
      then show ?thesis using gone(1) by blast
    next
      case finished: False
      have run: "evictLoop n (erase r es) rs = (es', rs')" using "2.prems"(1) True e finished by simp
      have sub: "set rs \<subseteq> dom (map_of (erase r es))" using rs(2) "2.prems"(4) by (auto simp: map_simps)
      from "2.IH"(2) [OF True e finished run assoc_erase [OF "2.prems"(2)] rs(1) sub]
      obtain gone where gone: "evicts gone (erase r es) es'" "gone \<subseteq> set rs" "distinct rs'" "set rs' = set rs - gone"
        by blast
      have "evicts (insert r gone) es es'" by (rule evicts_erase [OF gone(1) "2.prems"(2) e finished])
      moreover have "insert r gone \<subseteq> set (r # rs)" "set rs' = set (r # rs) - insert r gone" using gone rs(2) by auto
      ultimately show ?thesis using gone(3) by blast
    qed
  qed
qed

lemma evictOldest_ok:
  assumes "state_ok n st"
  shows "state_ok n (evictOldest n st) \<and> last_sequence (evictOldest n st) = last_sequence st \<and>
    (\<exists>gone. evicts gone (entries st) (entries (evictOldest n st)))"
proof -
  obtain es rs where run: "evictLoop n (entries st) (insertion_order st) = (es, rs)" by (metis surj_pair)
  have eq: "evictOldest n st = st\<lparr>entries := es, insertion_order := rs\<rparr>" by (simp add: evictOldest_def run)
  have st: "assoc (entries st)" "distinct (insertion_order st)" "set (insertion_order st) \<subseteq> dom (map_of (entries st))"
    using assms by (auto simp: state_ok_def)
  obtain gone where gone: "evicts gone (entries st) es" "distinct rs" "set rs = set (insertion_order st) - gone"
    using evictLoop_ok [OF run st] by blast
  have "dom (map_of es) = dom (map_of (entries st)) - gone" using gone(1) by (auto simp: evicts_def dom_def)
  then show ?thesis using assms gone unfolding eq state_ok_def by (auto simp: evicts_def)
qed


section \<open>Histories of calls\<close>

datatype CacheCall =
    Begin UserId RequestId ClientSequence
  | Complete UserId RequestId ResponseBytes
  | Reset UserId

text \<open>The accepted requests of a sequence of calls, in order, and the cache after them.\<close>

fun runCall :: "CacheCall \<Rightarrow> IdempotencyCache \<Rightarrow> (UserId \<times> RequestId \<times> ClientSequence) list \<times> IdempotencyCache" where
  "runCall (Begin u r s) c =
     (case beginRequest u r s c of (d, c') \<Rightarrow> (if decision d = accepted then [(u, r, s)] else [], c'))"
| "runCall (Complete u r bytes) c = ([], snd (complete u r bytes c))"
| "runCall (Reset u) c = ([], resetUser u c)"

fun runCalls :: "CacheCall list \<Rightarrow> IdempotencyCache \<Rightarrow> (UserId \<times> RequestId \<times> ClientSequence) list \<times> IdempotencyCache" where
  "runCalls [] c = ([], c)"
| "runCalls (x # xs) c =
     (case runCall x c of (a, c1) \<Rightarrow> case runCalls xs c1 of (as, c2) \<Rightarrow> (a @ as, c2))"

lemma stateOf_put [simp]:
  "stateOf (c\<lparr>users := put u st (users c)\<rparr>) v = (if v = u then st else stateOf c v)"
  by (simp add: stateOf_def map_simps)

lemma emptyState_ok: "state_ok n emptyState"
  by (simp add: state_ok_def emptyState_def)

lemma cache_ok_state: "cache_ok c \<Longrightarrow> state_ok (max_requests_per_user c) (stateOf c u)"
  by (auto simp: cache_ok_def stateOf_def emptyState_ok split: option.splits)

lemma cache_ok_put:
  "cache_ok c \<Longrightarrow> state_ok (max_requests_per_user c) st \<Longrightarrow> cache_ok (c\<lparr>users := put u st (users c)\<rparr>)"
  by (auto simp: cache_ok_def map_simps)

text \<open>The outcome of \<open>begin\<close>, by its decision.\<close>

lemma beginRequest_cases:
  assumes "cache_ok c" "beginRequest u r s c = (d, c')"
  shows "cache_ok c' \<and> max_requests_per_user c' = max_requests_per_user c \<and> (\<forall>v. v \<noteq> u \<longrightarrow> stateOf c' v = stateOf c v) \<and>
    (\<exists>gone. evicts gone (entries (stateOf c u)) (entries (stateOf c' u)) \<and> decision d \<noteq> accepted \<and>
        last_sequence (stateOf c' u) = last_sequence (stateOf c u) \<or>
      (\<exists>es. evicts gone (entries (stateOf c u)) es \<and> decision d = accepted \<and> map_of (entries (stateOf c u)) r = None \<and>
        entries (stateOf c' u) = put r \<lparr>entry_sequence = s, response = None\<rparr> es \<and>
        s = last_sequence (stateOf c u) + 1 \<and> last_sequence (stateOf c u) < s \<and> last_sequence (stateOf c' u) = s))"
proof -
  let ?n = "max_requests_per_user c"
  let ?st = "stateOf c u"
  let ?st1 = "evictOldest ?n ?st"
  have ok: "state_ok ?n ?st" by (rule cache_ok_state [OF assms(1)])
  obtain gone where st1: "state_ok ?n ?st1" "last_sequence ?st1 = last_sequence ?st" "evicts gone (entries ?st) (entries ?st1)"
    using evictOldest_ok [OF ok] by blast
  have stay: "evicts {} (entries ?st) (entries ?st)" using ok by (simp add: evicts_def state_ok_def)
  consider (invalid) "u = 0 \<or> r = 0 \<or> s = 0" "c' = c" "decision d \<noteq> accepted"
    | (kept) "c' = c\<lparr>users := put u ?st (users c)\<rparr>" "decision d \<noteq> accepted"
    | (full) "c' = c\<lparr>users := put u ?st1 (users c)\<rparr>" "decision d \<noteq> accepted"
    | (ok) "map_of (entries ?st) r = None" "last_sequence ?st < s" "s = last_sequence ?st + 1"
        "length (entries ?st1) < ?n" "decision d = accepted"
        "c' = c\<lparr>users := put u (?st1\<lparr>last_sequence := s,
           entries := put r \<lparr>entry_sequence = s, response = None\<rparr> (entries ?st1),
           insertion_order := insertion_order ?st1 @ [r]\<rparr>) (users c)\<rparr>"
  proof (cases "u = 0 \<or> r = 0 \<or> s = 0 \<or> map_of (entries ?st) r \<noteq> None \<or> s \<le> last_sequence ?st \<or> s \<noteq> last_sequence ?st + 1")
    case True
    then show thesis
      using invalid kept assms(2) by (auto simp: beginRequest_def decide_def Let_def split: if_splits option.splits)
  next
    case False
    then have f: "(u = 0 \<or> r = 0 \<or> s = 0) = False" "map_of (entries ?st) r = None" "(s \<le> last_sequence ?st) = False"
      "(s \<noteq> last_sequence ?st + 1) = False" by blast+
    have "beginRequest u r s c = (if length (entries ?st1) \<ge> ?n then (decide capacity_exceeded, c\<lparr>users := put u ?st1 (users c)\<rparr>)
       else (decide accepted, c\<lparr>users := put u (?st1\<lparr>last_sequence := s,
           entries := put r \<lparr>entry_sequence = s, response = None\<rparr> (entries ?st1),
           insertion_order := insertion_order ?st1 @ [r]\<rparr>) (users c)\<rparr>))"
      by (simp only: beginRequest_def Let_def f if_False option.case)
    moreover have "last_sequence ?st < s" "s = last_sequence ?st + 1" using f(3,4) by (simp_all add: not_le)
    ultimately show thesis
      using full ok [OF f(2)] assms(2) by (cases "length (entries ?st1) \<ge> ?n") (auto simp: decide_def not_le)
  qed
  then show ?thesis
  proof cases
    case invalid
    then show ?thesis using assms(1) stay by auto
  next
    case kept
    then show ?thesis using cache_ok_put [OF assms(1) ok] stay by auto
  next
    case full
    then show ?thesis using cache_ok_put [OF assms(1) st1(1)] st1(2,3) by auto
  next
    case ok
    have absent: "map_of (entries ?st1) r = None" using st1(3) ok(1) by (simp add: evicts_def)
    have "state_ok ?n (?st1\<lparr>last_sequence := s, entries := put r \<lparr>entry_sequence = s, response = None\<rparr> (entries ?st1),
           insertion_order := insertion_order ?st1 @ [r]\<rparr>)"
      using st1(1) absent ok(4) length_put [of "entries ?st1" r "\<lparr>entry_sequence = s, response = None\<rparr>"]
      by (auto simp: state_ok_def map_simps)
    then show ?thesis using cache_ok_put [OF assms(1)] ok st1(3) by auto
  qed
qed

lemma complete_cases:
  assumes "cache_ok c" "complete u r bytes c = (b, c')"
  shows "cache_ok c' \<and> max_requests_per_user c' = max_requests_per_user c \<and>
    (\<forall>v. last_sequence (stateOf c' v) = last_sequence (stateOf c v)) \<and>
    (\<forall>v q. (v, q) \<noteq> (u, r) \<longrightarrow> map_of (entries (stateOf c' v)) q = map_of (entries (stateOf c v)) q)"
proof (cases b)
  case False
  then have "c' = c" using assms(2) by (auto simp: complete_def split: option.splits)
  then show ?thesis using assms(1) by simp
next
  case True
  then obtain st e where st: "map_of (users c) u = Some st" "map_of (entries st) r = Some e"
    "c' = c\<lparr>users := put u (st\<lparr>entries := put r (e\<lparr>response := Some bytes\<rparr>) (entries st)\<rparr>) (users c)\<rparr>"
    using assms(2) by (auto simp: complete_def split: option.splits)
  have ok: "state_ok (max_requests_per_user c) st" using assms(1) st(1) by (simp add: cache_ok_def)
  then have "state_ok (max_requests_per_user c) (st\<lparr>entries := put r (e\<lparr>response := Some bytes\<rparr>) (entries st)\<rparr>)"
    using st(2) length_put [of "entries st" r] by (auto simp: state_ok_def map_simps)
  moreover have "stateOf c u = st" using st(1) by (simp add: stateOf_def)
  ultimately show ?thesis using cache_ok_put [OF assms(1)] st(3) by (auto simp: map_simps)
qed

lemma resetUser_cases:
  assumes "cache_ok c"
  shows "cache_ok (resetUser u c) \<and> max_requests_per_user (resetUser u c) = max_requests_per_user c \<and>
    (\<forall>v. v \<noteq> u \<longrightarrow> stateOf (resetUser u c) v = stateOf c v)"
  using assms by (auto simp: resetUser_def cache_ok_def stateOf_def map_simps)

lemma runCall_ok: "cache_ok c \<Longrightarrow> cache_ok (snd (runCall x c)) \<and> max_requests_per_user (snd (runCall x c)) = max_requests_per_user c"
proof (cases x)
  case (Begin u r s)
  assume "cache_ok c"
  then show ?thesis using beginRequest_cases [of c u r s] Begin by (cases "beginRequest u r s c") simp
next
  case (Complete u r bytes)
  assume "cache_ok c"
  then show ?thesis using complete_cases [of c u r bytes] Complete by (cases "complete u r bytes c") simp
next
  case (Reset u)
  assume "cache_ok c"
  then show ?thesis using resetUser_cases [of c u] Reset by simp
qed

lemma runCalls_ok: "cache_ok c \<Longrightarrow> cache_ok (snd (runCalls xs c)) \<and> max_requests_per_user (snd (runCalls xs c)) = max_requests_per_user c"
proof (induction xs arbitrary: c)
  case (Cons x xs)
  obtain a c1 where x: "runCall x c = (a, c1)" by (metis surj_pair)
  show ?case using Cons.IH [of c1] runCall_ok [OF Cons.prems, of x] x by (auto split: prod.splits)
qed simp

lemma newCache_ok: "newCache n = Inr c \<Longrightarrow> cache_ok c \<and> max_requests_per_user c = n \<and> stateOf c u = emptyState"
  by (auto simp: newCache_def cache_ok_def stateOf_def split: if_splits)


section \<open>Exactly once\<close>

definition sequencesOf :: "UserId \<Rightarrow> (UserId \<times> RequestId \<times> ClientSequence) list \<Rightarrow> ClientSequence list" where
  "sequencesOf u as = map (\<lambda>(v, r, s). s) (filter (\<lambda>(v, r, s). v = u) as)"

lemma sequencesOf_append [simp]: "sequencesOf u (as @ bs) = sequencesOf u as @ sequencesOf u bs"
  by (simp add: sequencesOf_def)

lemma next_sequence:
  assumes "k < 2 ^ 64" "of_nat k < (of_nat k + 1 :: u64)"
  shows "Suc k < 2 ^ 64"
proof (rule ccontr)
  assume "\<not> Suc k < 2 ^ 64"
  then have "Suc k = 2 ^ 64" using assms(1) by linarith
  then have "(of_nat (Suc k) :: u64) = 0" by (simp add: word_of_nat_eq_0_iff del: of_nat_Suc)
  then show False using assms(2) by (simp add: add.commute)
qed

lemma runCall_sequence:
  assumes "cache_ok c" "x \<noteq> Reset u" "last_sequence (stateOf c u) = of_nat k" "k < 2 ^ 64" "runCall x c = (a, c')"
  shows "\<exists>k'. k \<le> k' \<and> k' < 2 ^ 64 \<and> sequencesOf u a = map of_nat [Suc k..<Suc k'] \<and>
    last_sequence (stateOf c' u) = of_nat k'"
proof (cases x)
  case (Begin v r s)
  obtain d where d: "beginRequest v r s c = (d, c')" "a = (if decision d = accepted then [(v, r, s)] else [])"
    using assms(5) Begin by (auto split: prod.splits)
  note cases = beginRequest_cases [OF assms(1) d(1)]
  show ?thesis
  proof (cases "decision d = accepted \<and> v = u")
    case True
    then have s: "s = of_nat k + 1" "of_nat k < s" "last_sequence (stateOf c' u) = s"
      using cases assms(3) by auto
    have "Suc k < 2 ^ 64" using next_sequence [OF assms(4)] s(1,2) by simp
    moreover have "s = of_nat (Suc k)" using s(1) by (simp add: add.commute)
    ultimately show ?thesis using True d(2) s(3) by (intro exI [of _ "Suc k"]) (simp add: sequencesOf_def)
  next
    case False
    then have "last_sequence (stateOf c' u) = last_sequence (stateOf c u)" using cases by (cases "v = u") auto
    then show ?thesis using False d(2) assms(3,4) by (intro exI [of _ k]) (auto simp: sequencesOf_def)
  qed
next
  case (Complete v r bytes)
  obtain b c'' where b: "complete v r bytes c = (b, c'')" by (metis surj_pair)
  then show ?thesis
    using complete_cases [OF assms(1) b] assms(3-5) Complete
    by (intro exI [of _ k]) (auto simp: sequencesOf_def)
next
  case (Reset v)
  then show ?thesis
    using resetUser_cases [OF assms(1), of v] assms(2-5) by (intro exI [of _ k]) (auto simp: sequencesOf_def)
qed

lemma runCalls_sequence:
  assumes "cache_ok c" "Reset u \<notin> set xs" "last_sequence (stateOf c u) = of_nat k" "k < 2 ^ 64"
  shows "\<exists>k'. k \<le> k' \<and> k' < 2 ^ 64 \<and> sequencesOf u (fst (runCalls xs c)) = map of_nat [Suc k..<Suc k']"
  using assms
proof (induction xs arbitrary: c k)
  case Nil
  then show ?case by (intro exI [of _ k]) (simp add: sequencesOf_def)
next
  case (Cons x xs)
  obtain a c1 where x: "runCall x c = (a, c1)" by (metis surj_pair)
  obtain as c2 where xs: "runCalls xs c1 = (as, c2)" by (metis surj_pair)
  obtain k1 where k1: "k \<le> k1" "k1 < 2 ^ 64" "sequencesOf u a = map of_nat [Suc k..<Suc k1]"
    "last_sequence (stateOf c1 u) = of_nat k1"
    using runCall_sequence [OF Cons.prems(1) _ Cons.prems(3,4) x] Cons.prems(2) by auto
  have "cache_ok c1" using runCall_ok [OF Cons.prems(1), of x] x by simp
  then obtain k2 where k2: "k1 \<le> k2" "k2 < 2 ^ 64" "sequencesOf u as = map of_nat [Suc k1..<Suc k2]"
    using Cons.IH [OF _ _ k1(4,2)] Cons.prems(2) xs by auto
  have "[Suc k..<Suc k1] @ [Suc k1..<Suc k2] = [Suc k..<Suc k2]"
    using upt_add_eq_append [of "Suc k" "Suc k1" "k2 - k1"] k1(1) k2(1) by simp
  then show ?case using x xs k1 k2 by (intro exI [of _ k2]) (simp flip: map_append)
qed

text \<open>C22. Commands are executed at most once and in order: in any history of calls in which user \<open>u\<close> is not
  reset, the client sequence numbers accepted for \<open>u\<close> are 1, 2, 3, and so on without gap or repetition,
  also after entries have been evicted; the numbers never wrap.\<close>
theorem cache_exactly_once:
  assumes "newCache n = Inr c" "Reset u \<notin> set xs"
  shows "\<exists>k. k < 2 ^ 64 \<and> sequencesOf u (fst (runCalls xs c)) = map of_nat [1..<Suc k]"
proof -
  have "last_sequence (stateOf c u) = of_nat 0" using newCache_ok [OF assms(1), of u] by (simp add: emptyState_def)
  then show ?thesis
    using runCalls_sequence [OF _ assms(2), of c 0] newCache_ok [OF assms(1)] by auto
qed

definition demoCalls :: "CacheCall list" where
  "demoCalls = [Begin 5 100 1, Begin 5 101 3, Complete 5 100 [42], Begin 5 100 1, Begin 5 102 2, Begin 6 7 1]"

theorem cache_exactly_once_witness:
  "\<exists>k. k < 2 ^ 64 \<and> sequencesOf 5 (fst (runCalls demoCalls \<lparr>max_requests_per_user = 1, users = []\<rparr>)) = map of_nat [1..<Suc k]"
proof (rule cache_exactly_once)
  show "newCache 1 = Inr \<lparr>max_requests_per_user = 1, users = []\<rparr>" by (simp add: newCache_def)
qed (simp add: demoCalls_def)

section \<open>Replays\<close>

text \<open>A completed request is answered from the cache: whatever sequence number a repeated \<open>begin\<close> carries,
  it returns the stored response and leaves the cache as it is.\<close>
theorem complete_then_begin:
  assumes "complete u r bytes c = (True, c')" "u \<noteq> 0" "r \<noteq> 0" "s \<noteq> 0"
  shows "beginRequest u r s c' = (\<lparr>decision = duplicate, cached_response = Some bytes\<rparr>, c')"
proof -
  obtain st e where st: "map_of (users c) u = Some st" "map_of (entries st) r = Some e"
    "c' = c\<lparr>users := put u (st\<lparr>entries := put r (e\<lparr>response := Some bytes\<rparr>) (entries st)\<rparr>) (users c)\<rparr>"
    using assms(1) by (auto simp: complete_def split: option.splits)
  let ?st = "st\<lparr>entries := put r (e\<lparr>response := Some bytes\<rparr>) (entries st)\<rparr>"
  have u: "map_of (users c') u = Some ?st" "stateOf c' u = ?st" by (simp_all add: st(3) map_simps stateOf_def)
  have r: "map_of (entries ?st) r = Some (e\<lparr>response := Some bytes\<rparr>)" by (simp add: map_simps)
  have same: "c'\<lparr>users := put u ?st (users c')\<rparr> = c'" using put_same [OF u(1)] by simp
  show ?thesis
    unfolding beginRequest_def u(2) Let_def r same using assms(2-4) by simp
qed

theorem complete_then_begin_witness:
  "beginRequest 5 100 9 (snd (complete 5 100 [42] (snd (beginRequest 5 100 1 \<lparr>max_requests_per_user = 1, users = []\<rparr>)))) =
     (\<lparr>decision = duplicate, cached_response = Some [42]\<rparr>,
      snd (complete 5 100 [42] (snd (beginRequest 5 100 1 \<lparr>max_requests_per_user = 1, users = []\<rparr>))))"
proof (rule complete_then_begin)
  let ?c = "snd (beginRequest 5 100 1 \<lparr>max_requests_per_user = 1, users = []\<rparr>)"
  have "fst (complete 5 100 [42] ?c)" by code_simp
  then show "complete 5 100 [42] ?c = (True, snd (complete 5 100 [42] ?c))" by (metis (full_types) prod.collapse)
qed simp_all

text \<open>The calls that end the flight of a request.\<close>

definition endsFlight :: "UserId \<Rightarrow> RequestId \<Rightarrow> CacheCall \<Rightarrow> bool" where
  "endsFlight u r x = (case x of Begin _ _ _ \<Rightarrow> False | Complete v q _ \<Rightarrow> v = u \<and> q = r | Reset v \<Rightarrow> v = u)"

definition inFlight :: "IdempotencyCache \<Rightarrow> UserId \<Rightarrow> RequestId \<Rightarrow> bool" where
  "inFlight c u r = (case map_of (entries (stateOf c u)) r of None \<Rightarrow> False | Some e \<Rightarrow> response e = None)"

lemma inFlight_evicts:
  "inFlight c u r \<Longrightarrow> evicts gone (entries (stateOf c u)) es \<Longrightarrow>
   \<exists>e. map_of es r = Some e \<and> response e = None"
  by (auto simp: inFlight_def evicts_def split: option.splits)

lemma runCall_inFlight:
  assumes "cache_ok c" "inFlight c u r" "\<not> endsFlight u r x"
  shows "inFlight (snd (runCall x c)) u r"
proof (cases x)
  case (Begin v q s)
  obtain d c' where d: "beginRequest v q s c = (d, c')" by (metis surj_pair)
  have "inFlight c' u r"
  proof (cases "v = u")
    case False
    then have "stateOf c' u = stateOf c u" using beginRequest_cases [OF assms(1) d] by auto
    then show ?thesis using assms(2) by (simp add: inFlight_def)
  next
    case True
    obtain gone es where es: "evicts gone (entries (stateOf c u)) es"
      "entries (stateOf c' u) = es \<or> map_of (entries (stateOf c u)) q = None \<and>
         entries (stateOf c' u) = put q \<lparr>entry_sequence = s, response = None\<rparr> es"
      using beginRequest_cases [OF assms(1) d] True by auto
    show ?thesis
      using es(2) inFlight_evicts [OF assms(2) es(1)] by (auto simp: inFlight_def map_simps)
  qed
  then show ?thesis using Begin d by simp
next
  case (Complete v q bytes)
  obtain b c' where b: "complete v q bytes c = (b, c')" by (metis surj_pair)
  have "(u, r) \<noteq> (v, q)" using assms(3) Complete by (auto simp: endsFlight_def)
  then have "map_of (entries (stateOf c' u)) r = map_of (entries (stateOf c u)) r"
    using complete_cases [OF assms(1) b] by metis
  then show ?thesis using assms(2) Complete b by (simp add: inFlight_def)
next
  case (Reset v)
  then show ?thesis using resetUser_cases [OF assms(1), of v] assms(2,3) by (simp add: inFlight_def endsFlight_def)
qed

text \<open>A request under way is never forgotten: however many other requests arrive, and whatever is
  evicted to make room, it stays in flight until it is completed or its user is reset, so a repetition of it
  is answered \<open>in_flight\<close> and never executed a second time. The number of cached requests of a user stays
  within the limit.\<close>
theorem cache_keeps_in_flight:
  assumes "newCache n = Inr c0" "c = snd (runCalls ys c0)" "inFlight c u r" "\<forall>x \<in> set xs. \<not> endsFlight u r x"
    "u \<noteq> 0" "r \<noteq> 0" "s \<noteq> 0"
  shows "fst (beginRequest u r s (snd (runCalls xs c))) = decide in_flight \<and>
    length (entries (stateOf (snd (runCalls xs c)) v)) \<le> n"
proof -
  have ok: "cache_ok c" "max_requests_per_user c = n"
    using runCalls_ok [of c0 ys] newCache_ok [OF assms(1)] assms(2) by auto
  have "inFlight (snd (runCalls xs c)) u r"
    using ok(1) assms(3,4)
  proof (induction xs arbitrary: c)
    case (Cons x xs)
    obtain a c1 where x: "runCall x c = (a, c1)" by (metis surj_pair)
    have "cache_ok c1" "inFlight c1 u r"
      using runCall_ok [OF Cons.prems(1), of x] runCall_inFlight [OF Cons.prems(1,2), of x] Cons.prems(3) x by auto
    then show ?case using Cons.IH [of c1] Cons.prems(3) x by (auto split: prod.splits)
  qed simp
  then have "fst (beginRequest u r s (snd (runCalls xs c))) = decide in_flight"
    using assms(5-7) by (auto simp: beginRequest_def inFlight_def Let_def split: option.splits)
  moreover have "length (entries (stateOf (snd (runCalls xs c)) v)) \<le> n"
    using runCalls_ok [OF ok(1), of xs] cache_ok_state [of "snd (runCalls xs c)" v] ok(2) by (simp add: state_ok_def)
  ultimately show ?thesis by blast
qed

theorem cache_keeps_in_flight_witness:
  "let c = snd (runCalls [Begin 5 100 1] \<lparr>max_requests_per_user = 1, users = []\<rparr>);
       c' = snd (runCalls [Begin 5 101 2, Complete 5 101 [], Begin 6 7 1] c)
   in fst (beginRequest 5 100 1 c') = decide in_flight \<and> length (entries (stateOf c' 5)) \<le> 1"
  unfolding Let_def
proof (rule cache_keeps_in_flight [OF _ refl])
  show "newCache 1 = Inr \<lparr>max_requests_per_user = 1, users = []\<rparr>" by (simp add: newCache_def)
  show "inFlight (snd (runCalls [Begin 5 100 1] \<lparr>max_requests_per_user = 1, users = []\<rparr>)) 5 100" by code_simp
qed (simp_all add: endsFlight_def)

end
