(* ===== verification/Auth_Service.thy ===== *)
theory Auth_Service
  imports Account_Store
begin

text \<open>
  Model of \<open>src/include/poker/security/auth_service.hpp\<close> and \<open>src/src/poker/security/auth_service.cpp\<close>:
  accounts, logins and sessions on top of an \<open>AccountStore\<close> and a \<open>CryptoProvider\<close>. The crypto provider
  (\<open>src/include/poker/security/crypto_provider.hpp\<close>) is implemented by libsodium and therefore a
  parameter, the record \<open>CryptoProvider\<close> over a state \<open>'c\<close> for its random generator. The service holds
  no state of its own besides its configuration.

  The lemmas of the locale \<open>session_store\<close> hold for every account store that keeps its contract; the
  properties state them for the store in memory.
\<close>

section \<open>The service\<close>

record 'c CryptoProvider =
  hash_password :: "string \<Rightarrow> 'c \<Rightarrow> string \<times> 'c"
  verify_password :: "string \<Rightarrow> string \<Rightarrow> bool"
  generate_session_token :: "'c \<Rightarrow> string \<times> 'c"
  hash_session_token :: "string \<Rightarrow> string"

datatype AuthError =
    auth_ok
  | invalid_username
  | weak_password
  | username_taken
  | invalid_credentials
  | account_disabled
  | invalid_session
  | storage_unavailable

record AuthenticatedSession =
  auth_user_id :: UserId
  auth_username :: string
  raw_token :: string
  auth_wallet_balance :: int
  auth_expires_at :: int
  auth_last_sequence :: u64

record 'a AuthResult =
  auth_error :: AuthError
  auth_value :: "'a option"
  auth_message :: string

record AuthService =
  session_ttl_seconds :: u32
  initial_chips :: int
  dummy_password_hash :: string

definition authFail :: "AuthError \<Rightarrow> string \<Rightarrow> 'a AuthResult" where
  "authFail e msg = \<lparr>auth_error = e, auth_value = None, auth_message = msg\<rparr>"

definition authOk :: "'a \<Rightarrow> 'a AuthResult" where
  "authOk x = \<lparr>auth_error = auth_ok, auth_value = Some x, auth_message = []\<rparr>"

definition newAuthService :: "'c CryptoProvider \<Rightarrow> u32 \<Rightarrow> int \<Rightarrow> 'c \<Rightarrow> AuthService \<times> 'c" where
  "newAuthService crypto ttl chips c =
     (case hash_password crypto ''not-a-real-user-password'' c of
        (h, c') \<Rightarrow> (\<lparr>session_ttl_seconds = ttl, initial_chips = chips, dummy_password_hash = h\<rparr>, c'))"

text \<open>\<open>std::isalnum\<close> in the C locale.\<close>

definition isalnum :: "char \<Rightarrow> bool" where
  "isalnum ch = (let n = (of_char ch :: nat) in 48 \<le> n \<and> n \<le> 57 \<or> 65 \<le> n \<and> n \<le> 90 \<or> 97 \<le> n \<and> n \<le> 122)"

definition validUsername :: "string \<Rightarrow> bool" where
  "validUsername username =
     (if length username < 3 \<or> length username > 32 then False
      else list_all (\<lambda>ch. isalnum ch \<or> ch = CHR ''_'') username)"

definition validPassword :: "string \<Rightarrow> bool" where
  "validPassword password \<longleftrightarrow> length password \<ge> 10 \<and> length password \<le> 128"

definition registerUser :: "'s AccountStore \<Rightarrow> 'c CryptoProvider \<Rightarrow> AuthService \<Rightarrow> string \<Rightarrow> string \<Rightarrow> 's \<times> 'c
    \<Rightarrow> UserRecord AuthResult \<times> 's \<times> 'c" where
  "registerUser store crypto svc username password sc =
     (case sc of (s, c) \<Rightarrow>
      if \<not> validUsername username
      then (authFail invalid_username ''username must be 3-32 ASCII letters, digits, or underscores'', s, c)
      else if \<not> validPassword password
      then (authFail weak_password ''password must contain 10-128 characters'', s, c)
      else (case hash_password crypto password c of (h, c') \<Rightarrow>
            case create_user store username h (initial_chips svc) s of (created, s') \<Rightarrow>
              ((if \<not> succeeded created
                then (if storage_error created = storage_duplicate
                      then authFail username_taken ''username already exists''
                      else authFail storage_unavailable (storage_message created))
                else authOk (the (storage_value created))), s', c')))"

definition expiry :: "AuthService \<Rightarrow> int \<Rightarrow> int" where
  "expiry svc now = now + uint (session_ttl_seconds svc) * 1000"

definition login :: "'s AccountStore \<Rightarrow> 'c CryptoProvider \<Rightarrow> AuthService \<Rightarrow> string \<Rightarrow> string \<Rightarrow> int \<Rightarrow> 's \<times> 'c
    \<Rightarrow> (AuthenticatedSession AuthResult \<times> 's \<times> 'c) result" where
  "login store crypto svc username password now sc =
     (case sc of (s, c) \<Rightarrow>
      bind_result (find_user_by_name store username s) (\<lambda>user.
        let encoded_hash = (if succeeded user then password_hash (the (storage_value user)) else dummy_password_hash svc);
            password_matches = verify_password crypto password encoded_hash
        in if \<not> succeeded user \<or> \<not> password_matches
           then Inr (authFail (if storage_error user = unavailable then storage_unavailable else invalid_credentials)
                       ''invalid username or password'', s, c)
           else
             (let u = the (storage_value user) in
              if disabled u then Inr (authFail account_disabled ''account is disabled'', s, c)
              else (case generate_session_token crypto c of (raw, c') \<Rightarrow>
                    case store_session store
                           \<lparr>session_user = user_key u, token_hash = hash_session_token crypto raw,
                            expires_at_unix_ms = expiry svc now, last_client_sequence = 0, revoked = False\<rparr> s of
                      (stored, s') \<Rightarrow>
                        (if stored \<noteq> storage_ok
                         then Inr (authFail storage_unavailable ''could not create session'', s', c')
                         else Inr (authOk \<lparr>auth_user_id = user_key u, auth_username = user_name u, raw_token = raw,
                                     auth_wallet_balance = wallet_balance u, auth_expires_at = expiry svc now,
                                     auth_last_sequence = 0\<rparr>, s', c'))))))"

definition authenticate :: "'s AccountStore \<Rightarrow> 'c CryptoProvider \<Rightarrow> string \<Rightarrow> int \<Rightarrow> 's \<Rightarrow> AuthenticatedSession AuthResult" where
  "authenticate store crypto raw now s =
     (if raw = [] then authFail invalid_session ''session token is required''
      else
        (let session = find_session store (hash_session_token crypto raw) now s in
         if \<not> succeeded session
         then authFail (if storage_error session = unavailable then storage_unavailable else invalid_session)
                (storage_message session)
         else
           (let x = the (storage_value session); user = find_user_by_id store (session_user x) s in
            if \<not> succeeded user \<or> disabled (the (storage_value user))
            then authFail invalid_session ''session user is unavailable''
            else (let u = the (storage_value user)
                  in authOk \<lparr>auth_user_id = user_key u, auth_username = user_name u, raw_token = [],
                       auth_wallet_balance = wallet_balance u, auth_expires_at = expires_at_unix_ms x,
                       auth_last_sequence = last_client_sequence x\<rparr>))))"

definition refresh :: "'s AccountStore \<Rightarrow> 'c CryptoProvider \<Rightarrow> AuthService \<Rightarrow> string \<Rightarrow> int \<Rightarrow> 's \<times> 'c
    \<Rightarrow> AuthenticatedSession AuthResult \<times> 's \<times> 'c" where
  "refresh store crypto svc raw now sc =
     (case sc of (s, c) \<Rightarrow>
      let authenticated = authenticate store crypto raw now s in
      case auth_value authenticated of
        None \<Rightarrow> (authenticated, s, c)
      | Some a \<Rightarrow>
          (if auth_error authenticated \<noteq> auth_ok then (authenticated, s, c)
           else (case generate_session_token crypto c of (new_raw, c') \<Rightarrow>
                 case rotate_session store (hash_session_token crypto raw)
                        \<lparr>session_user = auth_user_id a, token_hash = hash_session_token crypto new_raw,
                         expires_at_unix_ms = expiry svc now, last_client_sequence = auth_last_sequence a,
                         revoked = False\<rparr> now s of
                   (rotated, s') \<Rightarrow>
                     (if rotated \<noteq> storage_ok
                      then (authFail (if rotated = unavailable then storage_unavailable else invalid_session)
                              ''session could not be refreshed'', s', c')
                      else (authOk (a\<lparr>raw_token := new_raw, auth_expires_at := expiry svc now\<rparr>), s', c')))))"

definition logout :: "'s AccountStore \<Rightarrow> 'c CryptoProvider \<Rightarrow> string \<Rightarrow> 's \<Rightarrow> AuthError \<times> 's" where
  "logout store crypto raw s =
     (if raw = [] then (invalid_session, s)
      else (case revoke_session store (hash_session_token crypto raw) s of (e, s') \<Rightarrow>
              ((if e = storage_ok then auth_ok
                else if e = unavailable then storage_unavailable else invalid_session), s')))"

fun authErrorToString :: "AuthError \<Rightarrow> string" where
  "authErrorToString auth_ok = ''ok''"
| "authErrorToString invalid_username = ''invalid username''"
| "authErrorToString weak_password = ''weak password''"
| "authErrorToString username_taken = ''username taken''"
| "authErrorToString invalid_credentials = ''invalid credentials''"
| "authErrorToString account_disabled = ''account disabled''"
| "authErrorToString invalid_session = ''invalid session''"
| "authErrorToString storage_unavailable = ''storage unavailable''"

lemma auth_result_simps [simp]:
  "auth_value (authOk x) = Some x" "auth_error (authOk x) = auth_ok" "auth_value (authFail e msg) = None"
  "auth_error (authFail e msg) = e"
  by (simp_all add: authOk_def authFail_def)

lemma authenticate_form:
  "(\<exists>b. authenticate store crypto raw now s = authOk b) \<or> auth_value (authenticate store crypto raw now s) = None"
  by (auto simp: authenticate_def Let_def)

lemma authenticate_None:
  "(\<And>b. authenticate store crypto raw now s \<noteq> authOk b) \<Longrightarrow> auth_value (authenticate store crypto raw now s) = None"
  using authenticate_form [of store crypto raw now s] by auto

section \<open>Sessions over any store that keeps its contract\<close>

text \<open>What the bearer of a token is told.\<close>

definition sessionView :: "UserRecord \<Rightarrow> SessionRecord \<Rightarrow> AuthenticatedSession" where
  "sessionView u x = \<lparr>auth_user_id = user_key u, auth_username = user_name u, raw_token = [],
     auth_wallet_balance = wallet_balance u, auth_expires_at = expires_at_unix_ms x,
     auth_last_sequence = last_client_sequence x\<rparr>"

context session_store
begin

lemma authenticate_iff:
  assumes "valid s"
  shows "authenticate ops crypto raw now s = authOk a \<longleftrightarrow>
    raw \<noteq> [] \<and> (\<exists>x u. sessionAt s (hash_session_token crypto raw) = Some x \<and> live now x \<and>
       userAt s (session_user x) = Some u \<and> \<not> disabled u \<and> a = sessionView u x)"
proof (cases "raw = []")
  case True
  then show ?thesis by (simp add: authenticate_def authFail_def authOk_def)
next
  case False
  let ?h = "hash_session_token crypto raw"
  show ?thesis
  proof (cases "\<exists>x. sessionAt s ?h = Some x \<and> live now x")
    case live: True
    then obtain x where x: "sessionAt s ?h = Some x" "live now x" by blast
    then have "find_session ops ?h now s = storageOk x" using found [OF assms, of ?h now] by simp
    moreover have "case userAt s (session_user x) of None \<Rightarrow> \<not> succeeded (find_user_by_id ops (session_user x) s)
        | Some u \<Rightarrow> find_user_by_id ops (session_user x) s = storageOk u" by (rule user_by_id [OF assms])
    ultimately show ?thesis
      using x False by (auto simp: authenticate_def Let_def authFail_def authOk_def sessionView_def split: option.splits)
  next
    case dead: False
    then have "\<not> succeeded (find_session ops ?h now s)"
      using found [OF assms, of ?h now] by (auto split: option.splits if_splits)
    then show ?thesis using dead False by (auto simp: authenticate_def Let_def authFail_def authOk_def)
  qed
qed

text \<open>The token of a login is accepted until it expires.\<close>

lemma login_then_authenticate:
  assumes "valid s" "login ops crypto svc n p now (s, c) = Inr (authOk a, s', c')" "raw_token a \<noteq> []"
  shows "valid s' \<and> (\<exists>u. user_name u = n \<and> userAt s (user_key u) = Some u \<and> verify_password crypto p (password_hash u) \<and>
      \<not> disabled u \<and> auth_user_id a = user_key u) \<and>
    (\<forall>t. (t < auth_expires_at a \<longrightarrow> authenticate ops crypto (raw_token a) t s' = authOk (a\<lparr>raw_token := []\<rparr>)) \<and>
         (auth_expires_at a \<le> t \<longrightarrow> auth_value (authenticate ops crypto (raw_token a) t s') = None))"
proof -
  obtain r where r: "find_user_by_name ops n s = Inr r" using user_by_name [OF assms(1)] by blast
  then have ok: "succeeded r"
    using assms(2) by (auto simp: login_def Let_def authFail_def authOk_def split: if_splits)
  then obtain u where u: "r = storageOk u" "user_name u = n" "userAt s (user_key u) = Some u" "user_key u \<noteq> 0"
    using user_by_name [OF assms(1), of n] r by auto
  obtain raw where raw: "generate_session_token crypto c = (raw, c')"
    and st: "store_session ops \<lparr>session_user = user_key u, token_hash = hash_session_token crypto raw,
       expires_at_unix_ms = expiry svc now, last_client_sequence = 0, revoked = False\<rparr> s = (storage_ok, s')"
    and pw: "verify_password crypto p (password_hash u)" "\<not> disabled u"
    and a: "a = \<lparr>auth_user_id = user_key u, auth_username = user_name u, raw_token = raw,
       auth_wallet_balance = wallet_balance u, auth_expires_at = expiry svc now, auth_last_sequence = 0\<rparr>"
    using assms(2) r u(1) by (auto simp: login_def Let_def authFail_def authOk_def split: if_splits prod.splits)
  let ?x = "\<lparr>session_user = user_key u, token_hash = hash_session_token crypto raw,
       expires_at_unix_ms = expiry svc now, last_client_sequence = 0, revoked = False\<rparr>"
  have s': "valid s'" "userAt s' = userAt s" "sessionAt s' (hash_session_token crypto raw) = Some ?x"
    using store [OF assms(1) st] by simp_all
  have "(t < auth_expires_at a \<longrightarrow> authenticate ops crypto (raw_token a) t s' = authOk (a\<lparr>raw_token := []\<rparr>)) \<and>
       (auth_expires_at a \<le> t \<longrightarrow> auth_value (authenticate ops crypto (raw_token a) t s') = None)" for t
  proof (cases "t < auth_expires_at a")
    case True
    then show ?thesis
      using s' u pw(2) assms(3) a by (simp add: authenticate_iff live_def sessionView_def)
  next
    case False
    then have "authenticate ops crypto raw t s' \<noteq> authOk b" for b
      using s' a by (simp add: authenticate_iff live_def)
    then show ?thesis using False a authenticate_None [of ops crypto raw t s'] by simp
  qed
  then show ?thesis using s'(1) u pw a by auto
qed

text \<open>A refresh moves the session to the new token.\<close>

lemma refresh_then_authenticate:
  assumes "valid s" "refresh ops crypto svc raw now (s, c) = (authOk a, s', c')" "raw_token a \<noteq> []"
    "hash_session_token crypto (raw_token a) \<noteq> hash_session_token crypto raw"
  shows "valid s' \<and> authenticate ops crypto raw now s = authOk (a\<lparr>raw_token := [],
      auth_expires_at := auth_expires_at (the (auth_value (authenticate ops crypto raw now s)))\<rparr>) \<and>
    auth_value (authenticate ops crypto raw t s') = None \<and>
    (t < auth_expires_at a \<longrightarrow> authenticate ops crypto (raw_token a) t s' = authOk (a\<lparr>raw_token := []\<rparr>))"
proof -
  obtain b where b: "authenticate ops crypto raw now s = authOk b"
  proof (cases "auth_value (authenticate ops crypto raw now s)")
    case None
    then have "authOk a = authenticate ops crypto raw now s" using assms(2) by (auto simp: refresh_def)
    then show thesis using that by metis
  next
    case (Some b)
    then show thesis using authenticate_form [of ops crypto raw now s] that by auto
  qed
  then obtain x u where x: "raw \<noteq> []" "sessionAt s (hash_session_token crypto raw) = Some x" "live now x"
    "userAt s (session_user x) = Some u" "\<not> disabled u" "b = sessionView u x"
    using authenticate_iff [OF assms(1)] by blast
  have key: "user_key u = session_user x" using user_key [OF assms(1) x(4)] by simp
  let ?y = "\<lambda>raw'. \<lparr>session_user = auth_user_id b, token_hash = hash_session_token crypto raw',
      expires_at_unix_ms = expiry svc now, last_client_sequence = auth_last_sequence b, revoked = False\<rparr>"
  obtain raw' where rot: "rotate_session ops (hash_session_token crypto raw) (?y raw') now s = (storage_ok, s')"
    and a: "a = b\<lparr>raw_token := raw', auth_expires_at := expiry svc now\<rparr>"
    using assms(2) b by (auto simp: refresh_def Let_def authOk_def authFail_def split: if_splits prod.splits)
  have s': "valid s'" "userAt s' = userAt s"
    "sessionAt s' = ((sessionAt s)(hash_session_token crypto raw := None))(hash_session_token crypto raw' \<mapsto> ?y raw')"
    using rotate [OF assms(1) rot] by simp_all
  have neq: "hash_session_token crypto raw' \<noteq> hash_session_token crypto raw" using assms(4) a by simp
  have "authenticate ops crypto raw t s' \<noteq> authOk z" for z
    using s' neq by (simp add: authenticate_iff)
  then have "auth_value (authenticate ops crypto raw t s') = None" by (rule authenticate_None)
  moreover have "authenticate ops crypto raw' t s' = authOk (a\<lparr>raw_token := []\<rparr>)" if "t < auth_expires_at a"
    using that s' x key a assms(3) by (simp add: authenticate_iff live_def sessionView_def)
  ultimately show ?thesis using s'(1) b a x(6) by (simp add: sessionView_def)
qed

end


section \<open>Sessions in memory\<close>

text \<open>A successful login proves a password and yields a session: the account of that name is not disabled
  and its stored hash accepts the password; the returned token authenticates as the same user, with the same
  data, at every time before the expiry and is refused from then on.\<close>
theorem login_session:
  assumes "accounts_ok s" "login memoryAccounts crypto svc n p now (s, c) = Inr (authOk a, s', c')" "raw_token a \<noteq> []"
  shows "(\<exists>u. user_name u = n \<and> map_of (account_users s) (user_key u) = Some u \<and>
      verify_password crypto p (password_hash u) \<and> \<not> disabled u \<and> auth_user_id a = user_key u) \<and>
    (\<forall>t. (t < auth_expires_at a \<longrightarrow>
           authenticate memoryAccounts crypto (raw_token a) t s' = authOk (a\<lparr>raw_token := []\<rparr>)) \<and>
         (auth_expires_at a \<le> t \<longrightarrow> auth_value (authenticate memoryAccounts crypto (raw_token a) t s') = None))"
  using memory_sessions.login_then_authenticate [OF assms] by blast

text \<open>A refresh replaces the token: the old one is refused at every time, the new one authenticates the
  same user with the client sequence number reached so far until the new expiry.\<close>
theorem refresh_session:
  assumes "accounts_ok s" "refresh memoryAccounts crypto svc raw now (s, c) = (authOk a, s', c')" "raw_token a \<noteq> []"
    "hash_session_token crypto (raw_token a) \<noteq> hash_session_token crypto raw"
  shows "authenticate memoryAccounts crypto raw now s = authOk (a\<lparr>raw_token := [],
      auth_expires_at := auth_expires_at (the (auth_value (authenticate memoryAccounts crypto raw now s)))\<rparr>) \<and>
    auth_value (authenticate memoryAccounts crypto raw t s') = None \<and>
    (t < auth_expires_at a \<longrightarrow> authenticate memoryAccounts crypto (raw_token a) t s' = authOk (a\<lparr>raw_token := []\<rparr>))"
  using memory_sessions.refresh_then_authenticate [OF assms] by blast

section \<open>Revocation is final\<close>

text \<open>Any call that the server makes on the store.\<close>

inductive account_step :: "InMemoryAccountStore \<Rightarrow> InMemoryAccountStore \<Rightarrow> bool" where
  creates: "createUser n h chips s = (r, s') \<Longrightarrow> account_step s s'"
| stores: "storeSession x s = (e, s') \<Longrightarrow> account_step s s'"
| rotates: "rotateSession h x now s = (e, s') \<Longrightarrow> account_step s s'"
| revokes: "revokeSession h s = (e, s') \<Longrightarrow> account_step s s'"
| updates: "updateSessionSequence h expected replacement s = (e, s') \<Longrightarrow> account_step s s'"

inductive_cases account_stepE: "account_step s s'"

lemma account_step_revoked:
  assumes "account_step s s'" "map_of (sessions s) h = Some x" "revoked x"
  shows "\<exists>y. map_of (sessions s') h = Some y \<and> revoked y"
  using assms(1)
proof cases
  case (creates n h chips r)
  then show ?thesis using assms(2,3) by (auto simp: createUser_def Let_def split: if_splits)
next
  case (stores y e)
  then show ?thesis using assms(2,3) by (auto simp: storeSession_def map_simps split: if_splits)
next
  case (rotates k y now e)
  then show ?thesis
    using assms(2,3) by (auto simp: rotateSession_def map_simps Let_def split: if_splits option.splits)
next
  case (revokes k e)
  then show ?thesis using assms(2,3) by (auto simp: revokeSession_def map_simps split: if_splits option.splits)
next
  case (updates k expected replacement e)
  then show ?thesis
    using assms(2,3) by (auto simp: updateSessionSequence_def map_simps split: if_splits option.splits)
qed

text \<open>Logging out is final: after a successful \<open>logout\<close> no sequence of further calls on the store, not even
  another login that draws the same token, makes the token valid again.\<close>
theorem logout_final:
  assumes "logout memoryAccounts crypto raw s = (auth_ok, s')" "account_step\<^sup>*\<^sup>* s' s''"
  shows "authenticate memoryAccounts crypto raw t s'' = authFail invalid_session ''session not found or expired''"
proof -
  let ?h = "hash_session_token crypto raw"
  have raw: "raw \<noteq> []" and rev: "revokeSession ?h s = (storage_ok, s')"
    using assms(1) by (auto simp: logout_def split: if_splits prod.splits)
  then have "\<exists>x. map_of (sessions s') ?h = Some x \<and> revoked x"
    by (auto simp: revokeSession_def map_simps split: option.splits)
  with assms(2) have "\<exists>x. map_of (sessions s'') ?h = Some x \<and> revoked x"
    by (induction rule: rtranclp_induct) (auto dest: account_step_revoked)
  then have "findSession ?h t s'' = storageFail not_found ''session not found or expired''"
    by (auto simp: findSession_def)
  then show ?thesis using raw by (simp add: authenticate_def Let_def)
qed

section \<open>An example\<close>

text \<open>A crypto provider that stands in for libsodium: hashes prefix their argument, tokens are counted.\<close>

definition demoCrypto :: "nat CryptoProvider" where
  "demoCrypto = \<lparr>hash_password = (\<lambda>p c. (''#'' @ p, c)), verify_password = (\<lambda>p h. h = ''#'' @ p),
     generate_session_token = (\<lambda>c. (replicate (Suc c) (CHR ''t''), Suc c)), hash_session_token = (\<lambda>t. ''h'' @ t)\<rparr>"

definition demoService :: AuthService where
  "demoService = \<lparr>session_ttl_seconds = 60, initial_chips = 1000, dummy_password_hash = ''#x''\<rparr>"

definition demoAccounts :: InMemoryAccountStore where
  "demoAccounts = fst (snd (registerUser memoryAccounts demoCrypto demoService ''alice'' ''correct horse'' (newAccountStore, 0)))"

definition demoLogin :: "AuthenticatedSession AuthResult \<times> InMemoryAccountStore \<times> nat" where
  "demoLogin = projr (login memoryAccounts demoCrypto demoService ''alice'' ''correct horse'' 5000 (demoAccounts, 0))"

definition demoSession :: AuthenticatedSession where
  "demoSession = \<lparr>auth_user_id = 1, auth_username = ''alice'', raw_token = ''t'', auth_wallet_balance = 1000,
     auth_expires_at = 65000, auth_last_sequence = 0\<rparr>"

lemma demoAccounts_ok: "accounts_ok demoAccounts"
proof -
  have "demoAccounts = snd (createUser ''alice'' ''#correct horse'' 1000 newAccountStore)" by code_simp
  moreover have "succeeded (fst (createUser ''alice'' ''#correct horse'' 1000 newAccountStore))" by code_simp
  moreover have "next_user_id newAccountStore + 1 \<noteq> 0" by code_simp
  ultimately show ?thesis
    using createUser_ok [OF newAccountStore_ok, of "''alice''" "''#correct horse''" 1000] by (metis prod.collapse)
qed

lemma demoLogin_ok:
  "login memoryAccounts demoCrypto demoService ''alice'' ''correct horse'' 5000 (demoAccounts, 0) =
   Inr (authOk demoSession, fst (snd demoLogin), 1)"
  by code_simp

theorem login_session_witness:
  "\<forall>t. (t < 65000 \<longrightarrow> authenticate memoryAccounts demoCrypto ''t'' t (fst (snd demoLogin)) = authOk (demoSession\<lparr>raw_token := []\<rparr>)) \<and>
       (65000 \<le> t \<longrightarrow> auth_value (authenticate memoryAccounts demoCrypto ''t'' t (fst (snd demoLogin))) = None)"
proof -
  have "raw_token demoSession = ''t''" "auth_expires_at demoSession = 65000" by (simp_all add: demoSession_def)
  then show ?thesis using login_session [OF demoAccounts_ok demoLogin_ok] by simp
qed

lemma demoLogin_accounts: "accounts_ok (fst (snd demoLogin))"
  using memory_sessions.login_then_authenticate [OF demoAccounts_ok demoLogin_ok] by (simp add: demoSession_def)

theorem refresh_session_witness:
  "\<exists>a s'. refresh memoryAccounts demoCrypto demoService ''t'' 9000 (fst (snd demoLogin), 1) = (authOk a, s', 2) \<and>
    auth_value (authenticate memoryAccounts demoCrypto ''t'' 9000 s') = None \<and>
    authenticate memoryAccounts demoCrypto ''tt'' 9000 s' = authOk (a\<lparr>raw_token := []\<rparr>)"
proof -
  let ?r = "refresh memoryAccounts demoCrypto demoService ''t'' 9000 (fst (snd demoLogin), 1)"
  let ?a = "demoSession\<lparr>raw_token := ''tt'', auth_expires_at := 69000\<rparr>"
  have r: "?r = (authOk ?a, fst (snd ?r), 2)" by code_simp
  have "raw_token ?a \<noteq> []" "hash_session_token demoCrypto (raw_token ?a) \<noteq> hash_session_token demoCrypto ''t''"
    by (simp_all add: demoCrypto_def)
  from refresh_session [OF demoLogin_accounts r this, of 9000] show ?thesis
    by (intro exI [of _ ?a] exI [of _ "fst (snd ?r)"] conjI r) simp_all
qed

theorem logout_final_witness:
  "authenticate memoryAccounts demoCrypto ''t'' 9000 (snd (storeSession
     \<lparr>session_user = 1, token_hash = ''ht'', expires_at_unix_ms = 70000, last_client_sequence = 0, revoked = False\<rparr>
     (snd (logout memoryAccounts demoCrypto ''t'' (fst (snd demoLogin)))))) =
   authFail invalid_session ''session not found or expired''"
proof (rule logout_final)
  let ?l = "logout memoryAccounts demoCrypto ''t'' (fst (snd demoLogin))"
  have "fst ?l = auth_ok" by code_simp
  then show "?l = (auth_ok, snd ?l)" by (metis prod.collapse)
  show "account_step\<^sup>*\<^sup>* (snd ?l) (snd (storeSession
     \<lparr>session_user = 1, token_hash = ''ht'', expires_at_unix_ms = 70000, last_client_sequence = 0, revoked = False\<rparr> (snd ?l)))"
    by (rule r_into_rtranclp, rule account_step.stores, rule prod.collapse [symmetric])
qed

end
