(* ===== verification/Game_Store_Correct.thy ===== *)
theory Game_Store_Correct
  imports Game_Store
begin

text \<open>
  The game store keeps the money: its invariant \<open>store_ok\<close>, and that no transaction changes the sum of all
  wallets and all stacks (\<open>bank\<close>). \<open>game_step\<close> is any call of a member function that writes, \<open>game_run d s\<close>
  a store that such calls produce after deposits (\<open>seedWallet\<close>) of \<open>d\<close> chips in all. Replays of buy-ins and
  cash-outs are answered from the ledger, at any later time and without moving money.
\<close>

section \<open>The invariant\<close>

definition stored_ok :: "UserId set \<Rightarrow> StoredTable \<Rightarrow> bool" where
  "stored_ok W t \<longleftrightarrow> assoc (table_seats t) \<and> assoc (occupied_seats t) \<and>
     (\<forall>u r. map_of (table_seats t) u = Some r \<longrightarrow>
        seat_user r = u \<and> 0 \<le> seat_stack r \<and> u \<in> W \<and> map_of (occupied_seats t) (seat_number r) = Some u) \<and>
     (\<forall>n u. map_of (occupied_seats t) n = Some u \<longrightarrow> (\<exists>r. map_of (table_seats t) u = Some r \<and> seat_number r = n)) \<and>
     (aborted t \<longrightarrow> table_seats t = [] \<and> \<not> hand_in_progress_flag t)"

definition store_ok :: "InMemoryGameStore \<Rightarrow> bool" where
  "store_ok s \<longleftrightarrow> assoc (wallets s) \<and> assoc (tables s) \<and> assoc (ledger s) \<and>
     (\<forall>u w. map_of (wallets s) u = Some w \<longrightarrow> 0 \<le> w) \<and>
     (\<forall>k t. map_of (tables s) k = Some t \<longrightarrow> stored_ok (dom (map_of (wallets s))) t)"

definition tableMoney :: "StoredTable \<Rightarrow> int" where
  "tableMoney t = sumOver seat_stack (table_seats t)"

definition bank :: "InMemoryGameStore \<Rightarrow> int" where
  "bank s = sumOver (\<lambda>w. w) (wallets s) + sumOver tableMoney (tables s)"

lemma store_okD:
  assumes "store_ok s"
  shows "assoc (wallets s)" "assoc (tables s)" "assoc (ledger s)" "map_of (wallets s) u = Some w \<Longrightarrow> 0 \<le> w"
    "map_of (tables s) k = Some t \<Longrightarrow> stored_ok (dom (map_of (wallets s))) t"
  using assms by (auto simp: store_ok_def)

lemma stored_okD:
  assumes "stored_ok W t"
  shows "assoc (table_seats t)" "assoc (occupied_seats t)"
    "map_of (table_seats t) u = Some r \<Longrightarrow> seat_user r = u \<and> 0 \<le> seat_stack r \<and> u \<in> W \<and> map_of (occupied_seats t) (seat_number r) = Some u"
    "map_of (occupied_seats t) n = Some u \<Longrightarrow> \<exists>r. map_of (table_seats t) u = Some r \<and> seat_number r = n"
    "aborted t \<Longrightarrow> table_seats t = [] \<and> \<not> hand_in_progress_flag t"
  using assms unfolding stored_ok_def by blast+

text \<open>One wallet and one table change.\<close>

lemma store_ok_write:
  assumes "store_ok s" "map_of (tables s) k = Some t" "map_of (wallets s) u = Some w0" "0 \<le> w"
    "stored_ok (dom (map_of (wallets s))) t'"
  shows "store_ok (s\<lparr>wallets := put u w (wallets s), tables := put k t' (tables s), ledger := put q l (ledger s)\<rparr>)"
    "bank (s\<lparr>wallets := put u w (wallets s), tables := put k t' (tables s), ledger := put q l (ledger s)\<rparr>)
       = bank s + (w - w0) + (tableMoney t' - tableMoney t)"
proof -
  have "insert u (dom (map_of (wallets s))) = dom (map_of (wallets s))" using assms(3) by auto
  then show "store_ok (s\<lparr>wallets := put u w (wallets s), tables := put k t' (tables s), ledger := put q l (ledger s)\<rparr>)"
    using assms by (auto simp: store_ok_def map_simps)
  show "bank (s\<lparr>wallets := put u w (wallets s), tables := put k t' (tables s), ledger := put q l (ledger s)\<rparr>)
       = bank s + (w - w0) + (tableMoney t' - tableMoney t)"
    using sumOver_put [OF store_okD(1) [OF assms(1)], of "\<lambda>w. w" u w] assms(2,3)
      sumOver_put [OF store_okD(2) [OF assms(1)], of tableMoney k t'] by (simp add: bank_def)
qed

lemma store_ok_table:
  assumes "store_ok s" "stored_ok (dom (map_of (wallets s))) t'"
  shows "store_ok (s\<lparr>tables := put k t' (tables s)\<rparr>)"
    "bank (s\<lparr>tables := put k t' (tables s)\<rparr>) = bank s + tableMoney t' -
       (case map_of (tables s) k of None \<Rightarrow> 0 | Some t \<Rightarrow> tableMoney t)"
  using assms sumOver_put [OF store_okD(2) [OF assms(1)], of tableMoney k t']
  by (auto simp: store_ok_def bank_def map_simps)

section \<open>Buy-in and cash-out\<close>

lemma seatStored_ok:
  assumes "stored_ok W t" "map_of (table_seats t) u = None" "map_of (occupied_seats t) n = None" "0 \<le> a" "u \<in> W" "\<not> aborted t"
  shows "stored_ok W (t\<lparr>table_seats := put u \<lparr>seat_user = u, seat_number = n, seat_stack = a\<rparr> (table_seats t),
      occupied_seats := put n u (occupied_seats t)\<rparr>)"
proof -
  note ok = stored_okD [OF assms(1)]
  have "seat_number r \<noteq> n" if "map_of (table_seats t) v = Some r" for v r
    using ok(3) [OF that] assms(3) by auto
  moreover have "v \<noteq> u" if "map_of (occupied_seats t) m = Some v" for m v
    using ok(4) [OF that] assms(2) by auto
  ultimately show ?thesis
    using assms ok(3,4) unfolding stored_ok_def by (simp add: map_simps)
qed

lemma unseatStored_ok:
  assumes "stored_ok W t" "map_of (table_seats t) u = Some r"
  shows "stored_ok W (t\<lparr>occupied_seats := erase (seat_number r) (occupied_seats t), table_seats := erase u (table_seats t)\<rparr>)"
proof -
  note ok = stored_okD [OF assms(1)]
  have "seat_number q \<noteq> seat_number r" if "map_of (table_seats t) v = Some q" "v \<noteq> u" for v q
    using ok(3) [OF that(1)] ok(3) [OF assms(2)] that(2) by auto
  moreover have "m = seat_number r" if "map_of (occupied_seats t) m = Some u" for m
    using ok(4) [OF that] assms(2) by auto
  moreover have "map_of (table_seats t) v = Some q \<Longrightarrow> v = u" if "map_of (occupied_seats t) (seat_number r) = Some v" for v q
    using that ok(3) [OF assms(2)] by simp
  ultimately show ?thesis
    using ok unfolding stored_ok_def by (auto simp: map_simps split: if_splits) (auto simp: erase_def)
qed

lemma reserveBuyIn_ok:
  assumes "store_ok s" "reserveBuyIn k u n a q s = (r, s')"
  shows "s' = s \<or> (store_ok s' \<and> bank s' = bank s \<and> map_of (ledger s) (ledgerKey u q) = None \<and>
    (\<exists>l. map_of (ledger s') = (map_of (ledger s))(ledgerKey u q \<mapsto> l) \<and> ledger_kind l = ledger_buy_in \<and>
       ledger_table l = k \<and> ledger_chips l = a \<and> ledger_seat l = n \<and>
       r = storageOk \<lparr>buy_in_wallet = ledger_wallet l, table_stack = a\<rparr>))"
proof (cases "s' = s")
  case False
  obtain t w where tw: "map_of (tables s) k = Some t" "map_of (wallets s) u = Some w" "map_of (ledger s) (ledgerKey u q) = None"
    and g: "0 < a" "\<not> aborted t" "map_of (table_seats t) u = None" "map_of (occupied_seats t) n = None" "a \<le> w"
    and s': "s' = s\<lparr>wallets := put u (w - a) (wallets s),
        tables := put k (t\<lparr>table_seats := put u \<lparr>seat_user = u, seat_number = n, seat_stack = a\<rparr> (table_seats t),
             occupied_seats := put n u (occupied_seats t)\<rparr>) (tables s),
        ledger := put (ledgerKey u q) \<lparr>ledger_kind = ledger_buy_in, ledger_table = k,
             ledger_wallet = w - a, ledger_chips = a, ledger_seat = n\<rparr> (ledger s)\<rparr>"
    and r: "r = storageOk \<lparr>buy_in_wallet = w - a, table_stack = a\<rparr>"
    using assms(2) False unfolding reserveBuyIn_def Let_def by (auto split: if_splits option.splits)
  have t: "stored_ok (dom (map_of (wallets s))) t" by (rule store_okD(5) [OF assms(1) tw(1)])
  let ?t = "t\<lparr>table_seats := put u \<lparr>seat_user = u, seat_number = n, seat_stack = a\<rparr> (table_seats t),
      occupied_seats := put n u (occupied_seats t)\<rparr>"
  have t': "stored_ok (dom (map_of (wallets s))) ?t"
    using g(1) tw(2) by (intro seatStored_ok [OF t g(3,4) _ _ g(2)]) auto
  have "tableMoney ?t = tableMoney t + a"
    using sumOver_put [OF stored_okD(1) [OF t], of seat_stack u] g(3) by (simp add: tableMoney_def)
  then have "store_ok s' \<and> bank s' = bank s"
    using store_ok_write [OF assms(1) tw(1,2) _ t', of "w - a"] g(5) unfolding s' by simp
  moreover define l where "l = \<lparr>ledger_kind = ledger_buy_in, ledger_table = k,
      ledger_wallet = w - a, ledger_chips = a, ledger_seat = n\<rparr>"
  moreover have "map_of (ledger s') = (map_of (ledger s))(ledgerKey u q \<mapsto> l)" by (simp add: s' map_simps l_def)
  ultimately show ?thesis using r tw(3) by auto
qed simp

lemma cashOut_ok:
  assumes "store_ok s" "cashOut k u q s = (r, s')"
  shows "s' = s \<or> (store_ok s' \<and> bank s' = bank s \<and> map_of (ledger s) (ledgerKey u q) = None \<and>
    (\<exists>l. map_of (ledger s') = (map_of (ledger s))(ledgerKey u q \<mapsto> l) \<and> ledger_kind l = ledger_cash_out \<and>
       ledger_table l = k \<and> r = storageOk \<lparr>cash_out_wallet = ledger_wallet l, returned_stack = ledger_chips l\<rparr>))"
proof (cases "s' = s")
  case False
  obtain t w x where tw: "map_of (tables s) k = Some t" "map_of (wallets s) u = Some w" "map_of (ledger s) (ledgerKey u q) = None"
    and x: "map_of (table_seats t) u = Some x"
    and s': "s' = s\<lparr>wallets := put u (w + seat_stack x) (wallets s),
        tables := put k (t\<lparr>occupied_seats := erase (seat_number x) (occupied_seats t),
             table_seats := erase u (table_seats t)\<rparr>) (tables s),
        ledger := put (ledgerKey u q) \<lparr>ledger_kind = ledger_cash_out, ledger_table = k,
             ledger_wallet = w + seat_stack x, ledger_chips = seat_stack x, ledger_seat = seat_number x\<rparr> (ledger s)\<rparr>"
    and r: "r = storageOk \<lparr>cash_out_wallet = w + seat_stack x, returned_stack = seat_stack x\<rparr>"
    using assms(2) False unfolding cashOut_def Let_def by (auto split: if_splits option.splits)
  have t: "stored_ok (dom (map_of (wallets s))) t" by (rule store_okD(5) [OF assms(1) tw(1)])
  let ?t = "t\<lparr>occupied_seats := erase (seat_number x) (occupied_seats t), table_seats := erase u (table_seats t)\<rparr>"
  have t': "stored_ok (dom (map_of (wallets s))) ?t" by (rule unseatStored_ok [OF t x])
  have "tableMoney ?t = tableMoney t - seat_stack x"
    using sumOver_erase [OF stored_okD(1) [OF t], of seat_stack u] x by (simp add: tableMoney_def)
  moreover have "0 \<le> w + seat_stack x"
    using store_okD(4) [OF assms(1) tw(2)] stored_okD(3) [OF t x] by simp
  ultimately have "store_ok s' \<and> bank s' = bank s"
    using store_ok_write [OF assms(1) tw(1,2) _ t', of "w + seat_stack x"] unfolding s' by simp
  moreover define l where "l = \<lparr>ledger_kind = ledger_cash_out, ledger_table = k,
      ledger_wallet = w + seat_stack x, ledger_chips = seat_stack x, ledger_seat = seat_number x\<rparr>"
  moreover have "map_of (ledger s') = (map_of (ledger s))(ledgerKey u q \<mapsto> l)" by (simp add: s' map_simps l_def)
  ultimately show ?thesis using r tw(3) by auto
qed simp

section \<open>Settlement\<close>

lemma checkPlayers_sums:
  assumes "checkPlayers ps cards us tc tw = Some (tc', tw')"
  shows "tc' = tc + sum_list (map committed ps) \<and> tw' = tw + sum_list (map winnings ps) \<and>
    distinct (map settled_user_id ps) \<and> set (map settled_user_id ps) \<inter> set us = {} \<and>
    (\<forall>p \<in> set ps. 0 \<le> end_stack p \<and> end_stack p = settled_start_stack p - committed p + winnings p)"
  using assms
proof (induction ps arbitrary: cards us tc tw)
  case (Cons p ps)
  obtain cards' where
    next_players: "checkPlayers ps cards' (settled_user_id p # us) (tc + committed p) (tw + winnings p) = Some (tc', tw')"
    and g: "settled_user_id p \<notin> set us" "0 \<le> end_stack p" "end_stack p = settled_start_stack p - committed p + winnings p"
    using Cons.prems by (auto simp: Let_def split: if_splits option.splits)
  show ?case using Cons.IH [OF next_players] g by auto
qed simp

lemma settlement_sums:
  assumes "validHandSettlement x"
  shows "total_pot x = sum_list (map committed (settled_players x))" "total_pot x = sum_list (map winnings (settled_players x))"
    "distinct (map settled_user_id (settled_players x))"
    "\<forall>p \<in> set (settled_players x). 0 \<le> end_stack p \<and> end_stack p = settled_start_stack p - committed p + winnings p"
    "sum_list (map end_stack (settled_players x)) = sum_list (map settled_start_stack (settled_players x))"
proof -
  obtain cards where "checkPlayers (settled_players x) cards [] 0 0 = Some (total_pot x, total_pot x)"
    using assms by (auto simp: validHandSettlement_def split: if_splits option.splits)
  from checkPlayers_sums [OF this]
  show *: "total_pot x = sum_list (map committed (settled_players x))" "total_pot x = sum_list (map winnings (settled_players x))"
    "distinct (map settled_user_id (settled_players x))"
    "\<forall>p \<in> set (settled_players x). 0 \<le> end_stack p \<and> end_stack p = settled_start_stack p - committed p + winnings p"
    by auto
  have "sum_list (map end_stack (settled_players x)) =
      sum_list (map (\<lambda>p. settled_start_stack p - committed p + winnings p) (settled_players x))"
    using *(4) by (intro arg_cong [of _ _ sum_list] map_cong) auto
  also have "\<dots> = sum_list (map settled_start_stack (settled_players x))"
    using *(1,2) by (simp add: sum_list_addf sum_list_subtractf)
  finally show "sum_list (map end_stack (settled_players x)) = sum_list (map settled_start_stack (settled_players x))" .
qed

text \<open>A settlement that passes \<open>validHandSettlement\<close> is balanced: what the players committed and what
  they won are both the pot, each player occurs once, and the stacks after the hand sum up to the stacks before
  it and are not negative.\<close>
theorem valid_settlement_balanced:
  assumes "validHandSettlement x"
  shows "sum_list (map committed (settled_players x)) = total_pot x \<and> sum_list (map winnings (settled_players x)) = total_pot x \<and>
    distinct (map settled_user_id (settled_players x)) \<and>
    sum_list (map end_stack (settled_players x)) = sum_list (map settled_start_stack (settled_players x)) \<and>
    (\<forall>p \<in> set (settled_players x). 0 \<le> end_stack p)"
  using settlement_sums [OF assms] by auto

text \<open>The stacks after \<open>payPlayers\<close>.\<close>

lemma payPlayers_ok:
  assumes "assoc ss" "distinct (map settled_user_id ps)"
    "\<forall>p \<in> set ps. \<exists>r. map_of ss (settled_user_id p) = Some r \<and> seat_stack r = settled_start_stack p"
  shows "assoc (payPlayers ps ss) \<and>
    sumOver seat_stack (payPlayers ps ss) = sumOver seat_stack ss + sum_list (map end_stack ps) - sum_list (map settled_start_stack ps) \<and>
    (\<forall>u. case map_of ss u of
       None \<Rightarrow> map_of (payPlayers ps ss) u = None
     | Some r \<Rightarrow> \<exists>a. map_of (payPlayers ps ss) u = Some (r\<lparr>seat_stack := a\<rparr>) \<and> (a = seat_stack r \<or> a \<in> end_stack ` set ps))"
  using assms
proof (induction ps arbitrary: ss)
  case Nil
  then show ?case by (auto split: option.splits)
next
  case (Cons p ps)
  obtain r where r: "map_of ss (settled_user_id p) = Some r" "seat_stack r = settled_start_stack p"
    using Cons.prems(3) by auto
  let ?ss = "put (settled_user_id p) (r\<lparr>seat_stack := end_stack p\<rparr>) ss"
  have other: "map_of ?ss u = map_of ss u" if "u \<noteq> settled_user_id p" for u using that by (simp add: map_simps)
  have rest: "\<forall>q \<in> set ps. \<exists>r. map_of ?ss (settled_user_id q) = Some r \<and> seat_stack r = settled_start_stack q"
  proof
    fix q assume q: "q \<in> set ps"
    have "settled_user_id p \<notin> settled_user_id ` set ps" using Cons.prems(2) by simp
    then have "settled_user_id q \<noteq> settled_user_id p" using q by (metis imageI)
    then show "\<exists>r. map_of ?ss (settled_user_id q) = Some r \<and> seat_stack r = settled_start_stack q"
      using Cons.prems(3) q other by simp
  qed
  note IH = Cons.IH [OF assoc_put [OF Cons.prems(1)] _ rest]
  have dist: "distinct (map settled_user_id ps)" using Cons.prems(2) by simp
  have each: "case map_of ss u of None \<Rightarrow> map_of (payPlayers ps ?ss) u = None
      | Some x \<Rightarrow> \<exists>a. map_of (payPlayers ps ?ss) u = Some (x\<lparr>seat_stack := a\<rparr>) \<and> (a = seat_stack x \<or> a \<in> end_stack ` set (p # ps))" for u
  proof (cases "u = settled_user_id p")
    case True
    have "map_of ?ss u = Some (r\<lparr>seat_stack := end_stack p\<rparr>)" using True by (simp add: map_simps)
    then obtain a where "map_of (payPlayers ps ?ss) u = Some (r\<lparr>seat_stack := a\<rparr>)" "a = end_stack p \<or> a \<in> end_stack ` set ps"
      using IH [OF dist, THEN conjunct2, THEN conjunct2, rule_format, of u] by auto
    then show ?thesis using r(1) True by auto
  next
    case False
    note at_u = IH [OF dist, THEN conjunct2, THEN conjunct2, rule_format, of u, unfolded other [OF False]]
    show ?thesis
    proof (cases "map_of ss u")
      case None
      then show ?thesis using at_u by simp
    next
      case (Some x)
      then obtain a where "map_of (payPlayers ps ?ss) u = Some (x\<lparr>seat_stack := a\<rparr>)" "a = seat_stack x \<or> a \<in> end_stack ` set ps"
        using at_u by auto
      then have "\<exists>a. map_of (payPlayers ps ?ss) u = Some (x\<lparr>seat_stack := a\<rparr>) \<and> (a = seat_stack x \<or> a \<in> end_stack ` set (p # ps))"
        by (intro exI [of _ a]) auto
      then show ?thesis unfolding Some by simp
    qed
  qed
  have run: "payPlayers (p # ps) ss = payPlayers ps ?ss" by (simp add: r(1))
  have "sumOver seat_stack (payPlayers ps ?ss) =
      sumOver seat_stack ss + sum_list (map end_stack (p # ps)) - sum_list (map settled_start_stack (p # ps))"
    using IH [OF dist] r sumOver_put [OF Cons.prems(1), of seat_stack "settled_user_id p"] by simp
  then show ?case unfolding run using IH [OF dist] each by blast
qed

lemma payPlayers_stored_ok:
  assumes "stored_ok W t" "\<not> aborted t" "assoc ss" "\<forall>a \<in> A. 0 \<le> a"
    "\<forall>u. case map_of (table_seats t) u of
       None \<Rightarrow> map_of ss u = None
     | Some r \<Rightarrow> \<exists>a. map_of ss u = Some (r\<lparr>seat_stack := a\<rparr>) \<and> (a = seat_stack r \<or> a \<in> A)"
  shows "stored_ok W (t\<lparr>table_seats := ss, hand_in_progress_flag := False\<rparr>)"
proof -
  note ok = stored_okD [OF assms(1)]
  have prior: "\<exists>x a. map_of (table_seats t) u = Some x \<and> r = x\<lparr>seat_stack := a\<rparr> \<and> (a = seat_stack x \<or> a \<in> A)"
    if "map_of ss u = Some r" for u r
    using assms(5) [rule_format, of u] that by (auto split: option.splits)
  have "seat_user r = u \<and> 0 \<le> seat_stack r \<and> u \<in> W \<and> map_of (occupied_seats t) (seat_number r) = Some u"
    if "map_of ss u = Some r" for u r
    using prior [OF that] ok(3) assms(4) by fastforce
  moreover have "\<exists>r. map_of ss u = Some r \<and> seat_number r = n" if "map_of (occupied_seats t) n = Some u" for n u
    using ok(4) [OF that] assms(5) [rule_format, of u] by (auto split: option.splits)
  ultimately show ?thesis using ok(2) assms(2,3) by (simp add: stored_ok_def)
qed

lemma settleHand_ok:
  assumes "store_ok s" "settleHand x s = (e, s')"
  shows "store_ok s' \<and> bank s' = bank s \<and> ledger s' = ledger s"
proof (cases "s' = s")
  case False
  obtain t where t: "map_of (tables s) (settled_table_id x) = Some t" "\<not> aborted t" "validHandSettlement x"
    "list_all (settlementMatches t) (settled_players x)"
    and s': "s' = s\<lparr>tables := put (settled_table_id x)
        (t\<lparr>table_seats := payPlayers (settled_players x) (table_seats t), hand_in_progress_flag := False\<rparr>) (tables s),
        settlements := put (settled_hand_id x) x (settlements s)\<rparr>"
    using assms(2) False by (auto simp: settleHand_def split: if_splits option.splits)
  have ok: "stored_ok (dom (map_of (wallets s))) t" by (rule store_okD(5) [OF assms(1) t(1)])
  have seats: "\<forall>p \<in> set (settled_players x). \<exists>r. map_of (table_seats t) (settled_user_id p) = Some r \<and> seat_stack r = settled_start_stack p"
    using t(4) by (auto simp: list_all_iff settlementMatches_def split: option.splits dest!: bspec)
  note paid = payPlayers_ok [OF stored_okD(1) [OF ok] settlement_sums(3) [OF t(3)] seats]
  let ?t = "t\<lparr>table_seats := payPlayers (settled_players x) (table_seats t), hand_in_progress_flag := False\<rparr>"
  have "stored_ok (dom (map_of (wallets s))) ?t"
    using paid settlement_sums(4) [OF t(3)] by (intro payPlayers_stored_ok [OF ok t(2), of _ "end_stack ` set (settled_players x)"]) auto
  moreover have "tableMoney ?t = tableMoney t"
    using paid settlement_sums(5) [OF t(3)] by (simp add: tableMoney_def)
  moreover have "store_ok (u\<lparr>settlements := y\<rparr>) = store_ok u" "bank (u\<lparr>settlements := y\<rparr>) = bank u" for u y
    by (simp_all add: store_ok_def bank_def)
  ultimately show ?thesis
    using store_ok_table [OF assms(1), of ?t "settled_table_id x"] t(1) by (simp add: s')
qed (use assms(1) in simp)

section \<open>Aborting a table\<close>

lemma refundSeats_ok:
  assumes "assoc ws" "\<forall>(u, r) \<in> set ss. u \<in> dom (map_of ws) \<and> 0 \<le> seat_stack r" "\<forall>u w. map_of ws u = Some w \<longrightarrow> 0 \<le> w"
  shows "\<exists>ws'. refundSeats ss ws = (True, ws') \<and> assoc ws' \<and> dom (map_of ws') = dom (map_of ws) \<and>
    sumOver (\<lambda>w. w) ws' = sumOver (\<lambda>w. w) ws + sumOver seat_stack ss \<and> (\<forall>u w. map_of ws' u = Some w \<longrightarrow> 0 \<le> w)"
  using assms
proof (induction ss ws rule: refundSeats.induct)
  case (2 u r rest ws)
  obtain w where w: "map_of ws u = Some w" using "2.prems"(2) by auto
  let ?ws = "put u (w + seat_stack r) ws"
  have dom: "dom (map_of ?ws) = dom (map_of ws)" using w by (auto simp: map_simps)
  have pos: "\<forall>v z. map_of ?ws v = Some z \<longrightarrow> 0 \<le> z" using "2.prems"(2,3) w by (auto simp: map_simps)
  have rest: "\<forall>(v, q) \<in> set rest. v \<in> dom (map_of ?ws) \<and> 0 \<le> seat_stack q" unfolding dom using "2.prems"(2) by simp
  have sum: "sumOver (\<lambda>w. w) ?ws = sumOver (\<lambda>w. w) ws + seat_stack r"
    using sumOver_put [OF "2.prems"(1), of "\<lambda>w. w" u] w by simp
  have run: "refundSeats ((u, r) # rest) ws = refundSeats rest ?ws" by (simp add: w)
  show ?case
    using "2.IH" [OF w assoc_put [OF "2.prems"(1)] rest pos] unfolding run dom sum by (simp add: add.assoc)
qed simp

lemma abortTable_ok:
  assumes "store_ok s" "abortTableAndRefund k s = (e, s')"
  shows "store_ok s' \<and> bank s' = bank s \<and> ledger s' = ledger s \<and> e \<noteq> conflict"
proof (cases "map_of (tables s) k")
  case None
  then show ?thesis using assms by (simp add: abortTableAndRefund_def)
next
  case (Some t)
  show ?thesis
  proof (cases "aborted t")
    case True
    then show ?thesis using assms Some by (simp add: abortTableAndRefund_def)
  next
    case False
    have ok: "stored_ok (dom (map_of (wallets s))) t" by (rule store_okD(5) [OF assms(1) Some])
    have seats: "\<forall>(u, r) \<in> set (table_seats t). u \<in> dom (map_of (wallets s)) \<and> 0 \<le> seat_stack r"
      using stored_okD(3) [OF ok] in_assoc [OF stored_okD(1) [OF ok]] by fast
    have "\<forall>u w. map_of (wallets s) u = Some w \<longrightarrow> 0 \<le> w" using store_okD(4) [OF assms(1)] by blast
    from refundSeats_ok [OF store_okD(1) [OF assms(1)] seats this]
    obtain ws where ws: "refundSeats (table_seats t) (wallets s) = (True, ws)" "assoc ws"
      "dom (map_of ws) = dom (map_of (wallets s))" "sumOver (\<lambda>w. w) ws = sumOver (\<lambda>w. w) (wallets s) + tableMoney t"
      "\<forall>u w. map_of ws u = Some w \<longrightarrow> 0 \<le> w" unfolding tableMoney_def by blast
    let ?t = "t\<lparr>table_seats := [], occupied_seats := [], aborted := True, hand_in_progress_flag := False\<rparr>"
    have s': "e = storage_ok" "s' = s\<lparr>wallets := ws, tables := put k ?t (tables s)\<rparr>"
      using assms(2) Some False ws(1) by (simp_all add: abortTableAndRefund_def)
    have "store_ok s'"
      using assms(1) ws by (auto simp: s' store_ok_def map_simps stored_ok_def)
    moreover have "bank s' = bank s"
      using sumOver_put [OF store_okD(2) [OF assms(1)], of tableMoney k ?t] Some ws(4)
      by (simp add: s' bank_def tableMoney_def)
    ultimately show ?thesis using s' by simp
  qed
qed


section \<open>Every history of transactions\<close>

inductive game_step :: "InMemoryGameStore \<Rightarrow> InMemoryGameStore \<Rightarrow> bool" where
  creates: "createTable x s = (e, s') \<Longrightarrow> game_step s s'"
| buys_in: "reserveBuyIn k u n a q s = (r, s') \<Longrightarrow> game_step s s'"
| cashes_out: "cashOut k u q s = (r, s') \<Longrightarrow> game_step s s'"
| begins: "storeBeginHand hand s = (e, s') \<Longrightarrow> game_step s s'"
| appends: "appendAction a s = (e, s') \<Longrightarrow> game_step s s'"
| settles: "settleHand x s = (e, s') \<Longrightarrow> game_step s s'"
| aborts_table: "abortTableAndRefund k s = (e, s') \<Longrightarrow> game_step s s'"

inductive game_run :: "int \<Rightarrow> InMemoryGameStore \<Rightarrow> bool" where
  opened: "game_run 0 newGameStore"
| deposit: "game_run d s \<Longrightarrow> seedWallet u b s = (storage_ok, s') \<Longrightarrow> game_run (d + b) s'"
| transact: "game_run d s \<Longrightarrow> game_step s s' \<Longrightarrow> game_run d s'"

lemma createTable_ok:
  assumes "store_ok s" "createTable x s = (e, s')"
  shows "store_ok s' \<and> bank s' = bank s \<and> ledger s' = ledger s"
proof (cases "s' = s")
  case False
  let ?t = "\<lparr>table_record = x, aborted = False, hand_in_progress_flag = False, table_seats = [], occupied_seats = []\<rparr>"
  have s': "map_of (tables s) (table_key x) = None" "s' = s\<lparr>tables := put (table_key x) ?t (tables s)\<rparr>"
    using assms(2) False by (auto simp: createTable_def Let_def split: if_splits)
  have "stored_ok (dom (map_of (wallets s))) ?t" by (simp add: stored_ok_def)
  then show ?thesis using store_ok_table [OF assms(1), of ?t "table_key x"] s' by (simp add: tableMoney_def)
qed (use assms(1) in simp)

lemma storeBeginHand_ok:
  assumes "store_ok s" "storeBeginHand hand s = (e, s')"
  shows "store_ok s' \<and> bank s' = bank s \<and> ledger s' = ledger s"
proof (cases "s' = s")
  case False
  obtain t where t: "map_of (tables s) (start_table_id hand) = Some t" "\<not> aborted t"
    and s': "s' = s\<lparr>hand_starts := put (start_hand_id hand) hand (hand_starts s),
        tables := put (start_table_id hand) (t\<lparr>hand_in_progress_flag := True\<rparr>) (tables s)\<rparr>"
    using assms(2) False by (auto simp: storeBeginHand_def split: if_splits option.splits)
  have "stored_ok (dom (map_of (wallets s))) (t\<lparr>hand_in_progress_flag := True\<rparr>)"
    using store_okD(5) [OF assms(1) t(1)] t(2) by (simp add: stored_ok_def)
  moreover have "tableMoney (t\<lparr>hand_in_progress_flag := True\<rparr>) = tableMoney t" by (simp add: tableMoney_def)
  moreover have "store_ok (u\<lparr>hand_starts := y\<rparr>) = store_ok u" "bank (u\<lparr>hand_starts := y\<rparr>) = bank u" for u y
    by (simp_all add: store_ok_def bank_def)
  moreover have "s' = (s\<lparr>tables := put (start_table_id hand) (t\<lparr>hand_in_progress_flag := True\<rparr>) (tables s)\<rparr>)
      \<lparr>hand_starts := put (start_hand_id hand) hand (hand_starts s)\<rparr>" using s' by simp
  ultimately show ?thesis
    using store_ok_table [OF assms(1), of "t\<lparr>hand_in_progress_flag := True\<rparr>" "start_table_id hand"] t(1) by simp
qed (use assms(1) in simp)

lemma appendAction_ok:
  "store_ok s \<Longrightarrow> appendAction a s = (e, s') \<Longrightarrow> store_ok s' \<and> bank s' = bank s \<and> ledger s' = ledger s"
  by (auto simp: appendAction_def store_ok_def bank_def split: if_splits option.splits)

lemma game_step_ok:
  assumes "game_step s s'" "store_ok s"
  shows "store_ok s' \<and> bank s' = bank s \<and> (\<forall>q l. map_of (ledger s) q = Some l \<longrightarrow> map_of (ledger s') q = Some l)"
  using assms
proof (induction rule: game_step.induct)
  case (buys_in k u n a q s r s')
  then show ?case using reserveBuyIn_ok [OF buys_in(2,1)] by auto
next
  case (cashes_out k u q s r s')
  then show ?case using cashOut_ok [OF cashes_out(2,1)] by auto
next
  case (creates x s e s')
  then show ?case using createTable_ok by metis
next
  case (begins hand s e s')
  then show ?case using storeBeginHand_ok by metis
next
  case (appends a s e s')
  then show ?case using appendAction_ok by metis
next
  case (settles x s e s')
  then show ?case using settleHand_ok by metis
next
  case (aborts_table k s e s')
  then show ?case using abortTable_ok by metis
qed

lemma seedWallet_ok:
  assumes "store_ok s" "seedWallet u b s = (storage_ok, s')"
  shows "store_ok s' \<and> bank s' = bank s + b"
proof -
  have g: "0 \<le> b" "map_of (wallets s) u = None" "s' = s\<lparr>wallets := put u b (wallets s)\<rparr>"
    using assms(2) by (auto simp: seedWallet_def split: if_splits)
  have "stored_ok (dom (map_of (wallets s'))) t" if "map_of (tables s) k = Some t" for k t
    using store_okD(5) [OF assms(1) that] g(3) unfolding stored_ok_def by (simp add: map_simps)
  then show ?thesis
    using assms(1) g sumOver_put [OF store_okD(1) [OF assms(1)], of "\<lambda>w. w" u b]
    by (auto simp: store_ok_def bank_def map_simps)
qed

lemma game_run_ok: "game_run d s \<Longrightarrow> store_ok s \<and> bank s = d"
proof (induction rule: game_run.induct)
  case opened
  then show ?case by (simp add: store_ok_def bank_def newGameStore_def)
next
  case (deposit d s u b s')
  then show ?case using seedWallet_ok by auto
next
  case (transact d s s')
  then show ?case using game_step_ok by auto
qed

text \<open>No transaction creates or destroys chips: after any history of calls the wallets and the stacks at all
  tables together hold exactly what was deposited, and no wallet and no stack is negative.\<close>
theorem game_money_conserved:
  assumes "game_run d s"
  shows "sumOver (\<lambda>w. w) (wallets s) + sumOver (\<lambda>t. sumOver seat_stack (table_seats t)) (tables s) = d \<and>
    (\<forall>u w. walletBalance u s = Some w \<longrightarrow> 0 \<le> w) \<and> (\<forall>k u a. seatStack k u s = Some a \<longrightarrow> 0 \<le> a)"
proof -
  have ok: "store_ok s" "bank s = d" using game_run_ok [OF assms] by auto
  have "sumOver (\<lambda>t. sumOver seat_stack (table_seats t)) (tables s) = sumOver tableMoney (tables s)"
    by (rule sumOver_cong) (simp add: tableMoney_def)
  moreover have "0 \<le> a" if "seatStack k u s = Some a" for k u a
    using that stored_okD(3) [OF store_okD(5) [OF ok(1)]] by (fastforce simp: seatStack_def split: option.splits)
  ultimately show ?thesis using ok store_okD(4) [OF ok(1)] by (simp add: bank_def walletBalance_def)
qed


section \<open>Idempotence\<close>

text \<open>The keys of the ledger keep users apart: different users or different idempotency keys give different
  ledger keys, whatever characters the client's key contains.\<close>
theorem ledgerKey_inject: "ledgerKey u q = ledgerKey v q' \<longleftrightarrow> u = v \<and> q = q'"
proof
  assume eq: "ledgerKey u q = ledgerKey v q'"
  have colon: "CHR '':'' \<notin> set (to_string n)" for n
  proof
    assume "CHR '':'' \<in> set (to_string n)"
    from to_string_digits [OF this] show False by simp
  qed
  have before: "takeWhile (\<lambda>ch. ch \<noteq> CHR '':'') (to_string n @ '':'' @ r) = to_string n" for n r
    using colon [of n] by (subst takeWhile_append2) auto
  have "to_string (unat u) = to_string (unat v)"
    using eq before [of "unat u" q] before [of "unat v" q'] by (simp add: ledgerKey_def)
  then have "unat u = unat v" by (rule to_string_inject)
  then show "u = v \<and> q = q'" using eq by (simp add: ledgerKey_def word_unat_eq_iff)
qed simp

lemma ledger_persists:
  assumes "game_step\<^sup>*\<^sup>* s s'" "store_ok s" "map_of (ledger s) q = Some l"
  shows "store_ok s' \<and> map_of (ledger s') q = Some l"
  using assms by (induction rule: rtranclp_induct) (auto dest: game_step_ok)

text \<open>A cash-out happens once: when it has succeeded, the same call at any later time, after whatever other
  transactions, returns the same receipt and changes nothing.\<close>
theorem cashOut_idempotent:
  assumes "game_run d s" "cashOut k u q s = (r, s1)" "succeeded r" "game_step\<^sup>*\<^sup>* s1 s2"
  shows "cashOut k u q s2 = (r, s2)"
proof -
  have ok: "store_ok s" using game_run_ok [OF assms(1)] by simp
  have valid: "\<not> (k = 0 \<or> u = 0 \<or> q = [] \<or> length q > 96)" using assms(2,3) by (auto simp: cashOut_def)
  have "\<exists>l. store_ok s1 \<and> map_of (ledger s1) (ledgerKey u q) = Some l \<and> ledger_kind l = ledger_cash_out \<and> ledger_table l = k \<and>
      r = storageOk \<lparr>cash_out_wallet = ledger_wallet l, returned_stack = ledger_chips l\<rparr>"
  proof (cases "s1 = s")
    case False
    then show ?thesis using cashOut_ok [OF ok assms(2)] by auto
  next
    case same: True
    obtain l where l: "map_of (ledger s) (ledgerKey u q) = Some l"
    proof (cases "map_of (ledger s) (ledgerKey u q)")
      case None
      obtain t w x where "map_of (tables s) k = Some t" "map_of (table_seats t) u = Some x"
        "ledger s1 = put (ledgerKey u q) \<lparr>ledger_kind = ledger_cash_out, ledger_table = k,
             ledger_wallet = w + seat_stack x, ledger_chips = seat_stack x, ledger_seat = seat_number x\<rparr> (ledger s)"
        using assms(2,3) None valid by (auto simp: cashOut_def Let_def split: if_splits option.splits)
      then show thesis using same that by (metis fun_upd_same map_of_put)
    qed (use that in blast)
    then show ?thesis using assms(2,3) ok valid same by (auto simp: cashOut_def Let_def split: if_splits)
  qed
  then obtain l where l: "map_of (ledger s2) (ledgerKey u q) = Some l" "ledger_kind l = ledger_cash_out" "ledger_table l = k"
    "r = storageOk \<lparr>cash_out_wallet = ledger_wallet l, returned_stack = ledger_chips l\<rparr>"
    using ledger_persists [OF assms(4)] by blast
  then show ?thesis using valid by (simp add: cashOut_def Let_def)
qed

text \<open>A buy-in takes the chips once: when it has succeeded, the same call at any later time changes nothing; it
  either returns the same receipt or reports a conflict because the seat is gone or its stack has changed.\<close>
theorem reserveBuyIn_idempotent:
  assumes "game_run d s" "reserveBuyIn k u n a q s = (r, s1)" "succeeded r" "game_step\<^sup>*\<^sup>* s1 s2"
  shows "snd (reserveBuyIn k u n a q s2) = s2 \<and>
    (fst (reserveBuyIn k u n a q s2) = r \<or> storage_error (fst (reserveBuyIn k u n a q s2)) = conflict)"
proof -
  have ok: "store_ok s" using game_run_ok [OF assms(1)] by simp
  have valid: "\<not> (k = 0 \<or> u = 0 \<or> a \<le> 0 \<or> q = [] \<or> length q > 96)" using assms(2,3) by (auto simp: reserveBuyIn_def)
  have "\<exists>l. store_ok s1 \<and> map_of (ledger s1) (ledgerKey u q) = Some l \<and> ledger_kind l = ledger_buy_in \<and> ledger_table l = k \<and>
      ledger_chips l = a \<and> ledger_seat l = n \<and> r = storageOk \<lparr>buy_in_wallet = ledger_wallet l, table_stack = a\<rparr>"
  proof (cases "s1 = s")
    case False
    then show ?thesis using reserveBuyIn_ok [OF ok assms(2)] by auto
  next
    case same: True
    obtain l where l: "map_of (ledger s) (ledgerKey u q) = Some l"
    proof (cases "map_of (ledger s) (ledgerKey u q)")
      case None
      obtain w where "ledger s1 = put (ledgerKey u q) \<lparr>ledger_kind = ledger_buy_in, ledger_table = k,
             ledger_wallet = w - a, ledger_chips = a, ledger_seat = n\<rparr> (ledger s)"
        using assms(2,3) None valid by (auto simp: reserveBuyIn_def Let_def split: if_splits option.splits)
      then show thesis using same that by (metis fun_upd_same map_of_put)
    qed (use that in blast)
    then show ?thesis
      using assms(2,3) ok valid same by (auto simp: reserveBuyIn_def Let_def split: if_splits option.splits)
  qed
  then obtain l where l: "map_of (ledger s2) (ledgerKey u q) = Some l" "ledger_kind l = ledger_buy_in" "ledger_table l = k"
    "ledger_chips l = a" "ledger_seat l = n" "r = storageOk \<lparr>buy_in_wallet = ledger_wallet l, table_stack = a\<rparr>"
    using ledger_persists [OF assms(4)] by blast
  then show ?thesis using valid by (auto simp: reserveBuyIn_def Let_def split: option.splits)
qed


section \<open>An example\<close>

text \<open>Two users with 5000 chips each buy in at one table, play a hand and one of them leaves.\<close>

definition demoTable :: TableRecord where
  "demoTable = \<lparr>table_key = 9, table_name = ''t'', node_id = ''n1'', table_config = defaultConfig, created_by = 1\<rparr>"

definition demoFunded :: InMemoryGameStore where
  "demoFunded = snd (createTable demoTable (snd (seedWallet 2 5000 (snd (seedWallet 1 5000 newGameStore)))))"

definition demoBuyIn :: "BuyInReceipt StorageResult \<times> InMemoryGameStore" where
  "demoBuyIn = reserveBuyIn 9 1 0 2000 ''a'' demoFunded"

definition demoSeated :: InMemoryGameStore where
  "demoSeated = snd (reserveBuyIn 9 2 1 3000 ''b'' (snd demoBuyIn))"

definition demoStart :: HandStartRecord where
  "demoStart = \<lparr>start_hand_id = 77, start_table_id = 9, start_hand_number = 1, start_dealer_seat = 0,
     start_players =
       [\<lparr>start_user_id = 1, start_seat = 0, start_stack = 2000,
         start_hole_cards = [\<lparr>rank = ace, suit = spades\<rparr>, \<lparr>rank = king, suit = spades\<rparr>]\<rparr>,
        \<lparr>start_user_id = 2, start_seat = 1, start_stack = 3000,
         start_hole_cards = [\<lparr>rank = two, suit = clubs\<rparr>, \<lparr>rank = seven, suit = hearts\<rparr>]\<rparr>]\<rparr>"

definition demoSettlement :: HandSettlementRecord where
  "demoSettlement = \<lparr>settled_hand_id = 77, settled_table_id = 9, settled_hand_number = 1, settled_dealer_seat = 0,
     settled_board = [], total_pot = 200,
     settled_players =
       [\<lparr>settled_user_id = 1, settled_seat = 0, settled_start_stack = 2000, committed = 100, winnings = 200, end_stack = 2100,
         settled_hole_cards = [\<lparr>rank = ace, suit = spades\<rparr>, \<lparr>rank = king, suit = spades\<rparr>], settled_folded = False\<rparr>,
        \<lparr>settled_user_id = 2, settled_seat = 1, settled_start_stack = 3000, committed = 100, winnings = 0, end_stack = 2900,
         settled_hole_cards = [\<lparr>rank = two, suit = clubs\<rparr>, \<lparr>rank = seven, suit = hearts\<rparr>], settled_folded = True\<rparr>]\<rparr>"

definition demoSettled :: InMemoryGameStore where
  "demoSettled = snd (settleHand demoSettlement (snd (storeBeginHand demoStart demoSeated)))"

definition demoCashOut :: "CashOutReceipt StorageResult \<times> InMemoryGameStore" where
  "demoCashOut = cashOut 9 1 ''c'' demoSettled"

lemma transact_snd: "game_run d s \<Longrightarrow> game_step s (snd x) \<Longrightarrow> game_run d (snd x)"
  by (rule game_run.transact)

lemma demoFunded_run: "game_run 10000 demoFunded"
proof -
  have "fst (seedWallet 1 5000 newGameStore) = storage_ok" by code_simp
  then have "game_run (0 + 5000) (snd (seedWallet 1 5000 newGameStore))" by (metis game_run.deposit opened prod.collapse)
  moreover have "fst (seedWallet 2 5000 (snd (seedWallet 1 5000 newGameStore))) = storage_ok" by code_simp
  ultimately have "game_run (0 + 5000 + 5000) (snd (seedWallet 2 5000 (snd (seedWallet 1 5000 newGameStore))))"
    by (metis game_run.deposit prod.collapse)
  then have "game_run 10000 (snd (seedWallet 2 5000 (snd (seedWallet 1 5000 newGameStore))))" by simp
  then show ?thesis unfolding demoFunded_def by (rule transact_snd) (metis creates prod.collapse)
qed

lemma demoBuyIn_later: "game_step\<^sup>*\<^sup>* (snd demoBuyIn) demoSettled"
proof -
  have "game_step (snd demoBuyIn) demoSeated" unfolding demoSeated_def by (metis buys_in prod.collapse)
  moreover have "game_step demoSeated (snd (storeBeginHand demoStart demoSeated))" by (metis begins prod.collapse)
  moreover have "game_step (snd (storeBeginHand demoStart demoSeated)) demoSettled"
    unfolding demoSettled_def by (metis settles prod.collapse)
  ultimately show ?thesis by (meson r_into_rtranclp rtranclp_trans)
qed

lemma demoSettled_run: "game_run 10000 demoSettled"
proof -
  have "game_step demoFunded (snd demoBuyIn)" unfolding demoBuyIn_def by (metis buys_in prod.collapse)
  then have "game_run 10000 (snd demoBuyIn)" using demoFunded_run by (rule transact [rotated])
  with demoBuyIn_later show ?thesis by (induction rule: rtranclp_induct) (auto intro: transact)
qed

theorem valid_settlement_balanced_witness:
  "sum_list (map committed (settled_players demoSettlement)) = 200 \<and>
   sum_list (map end_stack (settled_players demoSettlement)) = sum_list (map settled_start_stack (settled_players demoSettlement))"
proof -
  have "validHandSettlement demoSettlement" by code_simp
  from valid_settlement_balanced [OF this] show ?thesis by (simp add: demoSettlement_def)
qed

theorem game_money_conserved_witness:
  "sumOver (\<lambda>w. w) (wallets demoSettled) + sumOver (\<lambda>t. sumOver seat_stack (table_seats t)) (tables demoSettled) = 10000"
  using game_money_conserved [OF demoSettled_run] by blast

theorem cashOut_idempotent_witness:
  "let later = snd (abortTableAndRefund 9 (snd demoCashOut)) in
   storage_value (fst demoCashOut) = Some \<lparr>cash_out_wallet = 5100, returned_stack = 2100\<rparr> \<and>
   cashOut 9 1 ''c'' later = (fst demoCashOut, later)"
proof -
  have receipt: "storage_value (fst demoCashOut) = Some \<lparr>cash_out_wallet = 5100, returned_stack = 2100\<rparr>" by code_simp
  have run: "cashOut 9 1 ''c'' demoSettled = (fst demoCashOut, snd demoCashOut)" by (simp add: demoCashOut_def)
  have good: "succeeded (fst demoCashOut)" by code_simp
  have "game_step\<^sup>*\<^sup>* (snd demoCashOut) (snd (abortTableAndRefund 9 (snd demoCashOut)))"
    by (rule r_into_rtranclp, rule aborts_table, rule prod.collapse [symmetric])
  from cashOut_idempotent [OF demoSettled_run run good this] receipt show ?thesis by simp
qed

theorem reserveBuyIn_idempotent_witness:
  "snd (reserveBuyIn 9 1 0 2000 ''a'' demoSettled) = demoSettled \<and>
   (fst (reserveBuyIn 9 1 0 2000 ''a'' demoSettled) = fst demoBuyIn \<or>
    storage_error (fst (reserveBuyIn 9 1 0 2000 ''a'' demoSettled)) = conflict)"
proof (rule reserveBuyIn_idempotent [OF demoFunded_run _ _ demoBuyIn_later])
  show "reserveBuyIn 9 1 0 2000 ''a'' demoFunded = (fst demoBuyIn, snd demoBuyIn)" by (simp add: demoBuyIn_def)
  show "succeeded (fst demoBuyIn)" by code_simp
qed

end
