(* ===== verification/Node_Registry.thy ===== *)
theory Node_Registry
  imports Auth_Service "HOL-Library.List_Lexorder" "HOL-Library.Char_ord" "HOL-Library.Product_Lexorder"
begin

text \<open>
  The interface of \<open>src/include/poker/cluster/node_registry.hpp\<close>, its implementation
  \<open>src/include/poker/cluster/in_memory_node_registry.hpp\<close>, \<open>src/src/poker/cluster/in_memory_node_registry.cpp\<close>
  and its client \<open>src/include/poker/cluster/lobby_router.hpp\<close>, \<open>src/src/poker/cluster/lobby_router.cpp\<close>: which
  node is alive, which node owns which table, and the one-time tickets that admit a player to a table.

  The clock of the registry is a parameter of its state, the sequence \<open>clock\<close> of its readings; the n-th call
  that reads the clock sees \<open>clock n\<close>. Nothing is assumed about it. The abstract class is the record
  \<open>NodeRegistry\<close> of its virtual functions; the locale \<open>ticket_registry\<close> is the part of its contract that
  the router relies on, and \<open>memory_tickets\<close> its interpretation.
\<close>

section \<open>Interface\<close>

type_synonym TableId = u64

record NodeInfo =
  node_name :: string
  endpoint :: string
  active_tables :: u64
  connections :: u64

record JoinTicket =
  ticket_user :: UserId
  ticket_table :: TableId

record 'r NodeRegistry =
  reg_ping :: "'r \<Rightarrow> bool \<times> 'r"
  reg_heartbeat :: "NodeInfo \<Rightarrow> u32 \<Rightarrow> 'r \<Rightarrow> bool \<times> 'r"
  healthy_nodes :: "'r \<Rightarrow> NodeInfo list \<times> 'r"
  allocate_table_id :: "'r \<Rightarrow> TableId option \<times> 'r"
  assign_room :: "TableId \<Rightarrow> string \<Rightarrow> u32 \<Rightarrow> 'r \<Rightarrow> bool \<times> 'r"
  room_owner :: "TableId \<Rightarrow> 'r \<Rightarrow> string option \<times> 'r"
  store_join_ticket :: "string \<Rightarrow> JoinTicket \<Rightarrow> u32 \<Rightarrow> 'r \<Rightarrow> bool \<times> 'r"
  consume_join_ticket :: "string \<Rightarrow> 'r \<Rightarrow> JoinTicket option \<times> 'r"

section \<open>The registry in memory\<close>

record 'a Expiring =
  held :: 'a
  expires_at_ms :: int

record InMemoryNodeRegistry =
  clock :: "nat \<Rightarrow> int"
  ticks :: nat
  nodes :: "(string, NodeInfo Expiring) assoc_map"
  rooms :: "(TableId, string Expiring) assoc_map"
  tickets :: "(string, JoinTicket Expiring) assoc_map"
  next_table_id :: TableId

definition newRegistry :: "(nat \<Rightarrow> int) \<Rightarrow> InMemoryNodeRegistry" where
  "newRegistry c = \<lparr>clock = c, ticks = 0, nodes = [], rooms = [], tickets = [], next_table_id = 1000\<rparr>"

text \<open>\<open>clock_()\<close>.\<close>

definition readClock :: "InMemoryNodeRegistry \<Rightarrow> int \<times> InMemoryNodeRegistry" where
  "readClock s = (clock s (ticks s), s\<lparr>ticks := Suc (ticks s)\<rparr>)"

definition expiryAt :: "int \<Rightarrow> u32 \<Rightarrow> int" where
  "expiryAt now ttl = now + uint ttl * 1000"

definition nodeIsHealthy :: "string \<Rightarrow> int \<Rightarrow> InMemoryNodeRegistry \<Rightarrow> bool" where
  "nodeIsHealthy n now s = (case map_of (nodes s) n of None \<Rightarrow> False | Some x \<Rightarrow> expires_at_ms x > now)"

definition ping :: "InMemoryNodeRegistry \<Rightarrow> bool \<times> InMemoryNodeRegistry" where
  "ping s = (True, s)"

definition heartbeat :: "NodeInfo \<Rightarrow> u32 \<Rightarrow> InMemoryNodeRegistry \<Rightarrow> bool \<times> InMemoryNodeRegistry" where
  "heartbeat node ttl s =
     (if node_name node = [] \<or> endpoint node = [] \<or> ttl = 0 then (False, s)
      else (case readClock s of (now, s1) \<Rightarrow>
        (True, s1\<lparr>nodes := put (node_name node) \<lparr>held = node, expires_at_ms = expiryAt now ttl\<rparr> (nodes s1)\<rparr>)))"

text \<open>The comparison of \<open>std::sort\<close> in \<open>healthyNodes\<close>: fewest tables, then fewest connections, then the
  smallest name.\<close>

definition nodeLoad :: "NodeInfo \<Rightarrow> u64 \<times> u64 \<times> string" where
  "nodeLoad x = (active_tables x, connections x, node_name x)"

definition healthyNodes :: "InMemoryNodeRegistry \<Rightarrow> NodeInfo list \<times> InMemoryNodeRegistry" where
  "healthyNodes s =
     (case readClock s of (now, s1) \<Rightarrow>
      let alive = filter (\<lambda>(k, x). \<not> expires_at_ms x \<le> now) (nodes s1)
      in (sort_key nodeLoad (map (\<lambda>(k, x). held x) alive), s1\<lparr>nodes := alive\<rparr>))"

definition allocateTableId :: "InMemoryNodeRegistry \<Rightarrow> TableId option \<times> InMemoryNodeRegistry" where
  "allocateTableId s =
     (if next_table_id s = 0 then (None, s)
      else (Some (next_table_id s), s\<lparr>next_table_id := next_table_id s + 1\<rparr>))"

definition assignRoom :: "TableId \<Rightarrow> string \<Rightarrow> u32 \<Rightarrow> InMemoryNodeRegistry \<Rightarrow> bool \<times> InMemoryNodeRegistry" where
  "assignRoom t n ttl s =
     (case readClock s of (now, s1) \<Rightarrow>
      if t = 0 \<or> ttl = 0 \<or> \<not> nodeIsHealthy n now s1 then (False, s1)
      else
        (let existing = map_of (rooms s1) t;
             taken = (case existing of None \<Rightarrow> False | Some x \<Rightarrow> expires_at_ms x > now \<and> held x \<noteq> n);
             new_assignment = (case existing of None \<Rightarrow> True | Some x \<Rightarrow> expires_at_ms x \<le> now)
         in if taken then (False, s1)
            else
              (let s2 = s1\<lparr>rooms := put t \<lparr>held = n, expires_at_ms = expiryAt now ttl\<rparr> (rooms s1)\<rparr>
               in (True,
                   if new_assignment
                   then (case map_of (nodes s2) n of
                           None \<Rightarrow> s2
                         | Some x \<Rightarrow> s2\<lparr>nodes := put n (x\<lparr>held := (held x)\<lparr>active_tables := active_tables (held x) + 1\<rparr>\<rparr>) (nodes s2)\<rparr>)
                   else s2))))"

definition roomOwner :: "TableId \<Rightarrow> InMemoryNodeRegistry \<Rightarrow> string option \<times> InMemoryNodeRegistry" where
  "roomOwner t s =
     (case readClock s of (now, s1) \<Rightarrow>
      case map_of (rooms s1) t of
        None \<Rightarrow> (None, s1)
      | Some x \<Rightarrow>
          (if expires_at_ms x \<le> now \<or> \<not> nodeIsHealthy (held x) now s1
           then (None, s1\<lparr>rooms := erase t (rooms s1)\<rparr>)
           else (Some (held x), s1)))"

definition storeJoinTicket :: "string \<Rightarrow> JoinTicket \<Rightarrow> u32 \<Rightarrow> InMemoryNodeRegistry \<Rightarrow> bool \<times> InMemoryNodeRegistry" where
  "storeJoinTicket h ticket ttl s =
     (if h = [] \<or> ticket_user ticket = 0 \<or> ticket_table ticket = 0 \<or> ttl = 0 then (False, s)
      else (case readClock s of (now, s1) \<Rightarrow>
        if (case map_of (tickets s1) h of None \<Rightarrow> False | Some x \<Rightarrow> expires_at_ms x > now) then (False, s1)
        else (True, s1\<lparr>tickets := put h \<lparr>held = ticket, expires_at_ms = expiryAt now ttl\<rparr> (tickets s1)\<rparr>)))"

definition consumeJoinTicket :: "string \<Rightarrow> InMemoryNodeRegistry \<Rightarrow> JoinTicket option \<times> InMemoryNodeRegistry" where
  "consumeJoinTicket h s =
     (case readClock s of (now, s1) \<Rightarrow>
      case map_of (tickets s1) h of
        None \<Rightarrow> (None, s1)
      | Some x \<Rightarrow> (if expires_at_ms x > now then Some (held x) else None, s1\<lparr>tickets := erase h (tickets s1)\<rparr>))"

definition memoryRegistry :: "InMemoryNodeRegistry NodeRegistry" where
  "memoryRegistry = \<lparr>reg_ping = ping, reg_heartbeat = heartbeat, healthy_nodes = healthyNodes,
     allocate_table_id = allocateTableId, assign_room = assignRoom, room_owner = roomOwner,
     store_join_ticket = storeJoinTicket, consume_join_ticket = consumeJoinTicket\<rparr>"

lemma memoryRegistry_simps [simp]:
  "reg_ping memoryRegistry = ping" "reg_heartbeat memoryRegistry = heartbeat" "healthy_nodes memoryRegistry = healthyNodes"
  "allocate_table_id memoryRegistry = allocateTableId" "assign_room memoryRegistry = assignRoom"
  "room_owner memoryRegistry = roomOwner" "store_join_ticket memoryRegistry = storeJoinTicket"
  "consume_join_ticket memoryRegistry = consumeJoinTicket"
  by (simp_all add: memoryRegistry_def)

section \<open>The lobby router\<close>

record RouteAssignment =
  route_node :: NodeInfo
  join_ticket :: string

record LobbyRouter =
  room_ttl_seconds :: u32
  ticket_ttl_seconds :: u32

definition issue :: "'r NodeRegistry \<Rightarrow> 'c CryptoProvider \<Rightarrow> LobbyRouter \<Rightarrow> NodeInfo \<Rightarrow> TableId \<Rightarrow> UserId \<Rightarrow> 'r \<times> 'c
    \<Rightarrow> RouteAssignment option \<times> 'r \<times> 'c" where
  "issue reg crypto router node t u rc =
     (case rc of (r, c) \<Rightarrow>
      case generate_session_token crypto c of (raw, c') \<Rightarrow>
      case store_join_ticket reg (hash_session_token crypto raw) \<lparr>ticket_user = u, ticket_table = t\<rparr> (ticket_ttl_seconds router) r of
        (stored, r') \<Rightarrow> (if \<not> stored then None else Some \<lparr>route_node = node, join_ticket = raw\<rparr>, r', c'))"

definition assignNewTable :: "'r NodeRegistry \<Rightarrow> 'c CryptoProvider \<Rightarrow> LobbyRouter \<Rightarrow> TableId \<Rightarrow> UserId \<Rightarrow> 'r \<times> 'c
    \<Rightarrow> RouteAssignment option \<times> 'r \<times> 'c" where
  "assignNewTable reg crypto router t u rc =
     (case rc of (r, c) \<Rightarrow>
      case healthy_nodes reg r of (ns, r1) \<Rightarrow>
      if t = 0 \<or> u = 0 \<or> ns = [] then (None, r1, c)
      else (case assign_room reg t (node_name (hd ns)) (room_ttl_seconds router) r1 of (assigned, r2) \<Rightarrow>
              if \<not> assigned then (None, r2, c) else issue reg crypto router (hd ns) t u (r2, c)))"

definition issueTo :: "'r NodeRegistry \<Rightarrow> 'c CryptoProvider \<Rightarrow> LobbyRouter \<Rightarrow> NodeInfo list \<Rightarrow> string \<Rightarrow> TableId \<Rightarrow> UserId \<Rightarrow> 'r \<times> 'c
    \<Rightarrow> RouteAssignment option \<times> 'r \<times> 'c" where
  "issueTo reg crypto router ns owner t u rc =
     (case List.find (\<lambda>n. node_name n = owner) ns of
        None \<Rightarrow> (None, rc)
      | Some n \<Rightarrow> issue reg crypto router n t u rc)"

definition routeExistingTable :: "'r NodeRegistry \<Rightarrow> 'c CryptoProvider \<Rightarrow> LobbyRouter \<Rightarrow> TableId \<Rightarrow> UserId \<Rightarrow> string \<Rightarrow> 'r \<times> 'c
    \<Rightarrow> RouteAssignment option \<times> 'r \<times> 'c" where
  "routeExistingTable reg crypto router t u expected rc =
     (case rc of (r, c) \<Rightarrow>
      if t = 0 \<or> u = 0 then (None, r, c)
      else (case room_owner reg t r of (owner, r1) \<Rightarrow>
            case healthy_nodes reg r1 of (ns, r2) \<Rightarrow>
              (case owner of
                 Some n \<Rightarrow>
                   (if expected \<noteq> [] \<and> n \<noteq> expected then (None, r2, c)
                    else issueTo reg crypto router ns n t u (r2, c))
               | None \<Rightarrow>
                   (if expected = [] then (None, r2, c)
                    else if List.find (\<lambda>n. node_name n = expected) ns = None then (None, r2, c)
                    else (case assign_room reg t expected (room_ttl_seconds router) r2 of (assigned, r3) \<Rightarrow>
                            if \<not> assigned then (None, r3, c)
                            else issueTo reg crypto router ns expected t u (r3, c))))))"

section \<open>Tickets\<close>

text \<open>What the router needs of a registry: the tickets it holds with their expiry, and the time of the next
  reading of the clock.\<close>

locale ticket_registry =
  fixes ops :: "'r NodeRegistry"
    and ticketAt :: "'r \<Rightarrow> string \<Rightarrow> (JoinTicket \<times> int) option"
    and nowOf :: "'r \<Rightarrow> int"
  assumes stored: "store_join_ticket ops h x ttl r = (True, r') \<Longrightarrow>
      ticketAt r' h = Some (x, nowOf r + uint ttl * 1000)"
    and consumed: "consume_join_ticket ops h r = (y, r') \<Longrightarrow>
      y = (case ticketAt r h of None \<Rightarrow> None | Some (x, e) \<Rightarrow> if nowOf r < e then Some x else None) \<and>
      ticketAt r' = (ticketAt r)(h := None)"
begin

lemma issue_then_consume:
  assumes "issue ops crypto router n t u (r, c) = (Some a, r', c')"
  shows "route_node a = n \<and>
    ticketAt r' (hash_session_token crypto (join_ticket a)) =
      Some (\<lparr>ticket_user = u, ticket_table = t\<rparr>, nowOf r + uint (ticket_ttl_seconds router) * 1000) \<and>
    (nowOf r' < nowOf r + uint (ticket_ttl_seconds router) * 1000 \<longrightarrow>
       fst (consume_join_ticket ops (hash_session_token crypto (join_ticket a)) r') = Some \<lparr>ticket_user = u, ticket_table = t\<rparr>)"
proof -
  obtain raw where raw: "generate_session_token crypto c = (raw, c')" "a = \<lparr>route_node = n, join_ticket = raw\<rparr>"
    and st: "store_join_ticket ops (hash_session_token crypto raw) \<lparr>ticket_user = u, ticket_table = t\<rparr> (ticket_ttl_seconds router) r = (True, r')"
    using assms by (auto simp: issue_def split: prod.splits if_splits)
  obtain y r'' where y: "consume_join_ticket ops (hash_session_token crypto raw) r' = (y, r'')" by (metis surj_pair)
  show ?thesis using stored [OF st] consumed [OF y] raw(2) y by simp
qed

lemma consume_once:
  assumes "consume_join_ticket ops h r = (y, r')"
  shows "fst (consume_join_ticket ops h r') = None"
proof -
  obtain z r'' where z: "consume_join_ticket ops h r' = (z, r'')" by (metis surj_pair)
  show ?thesis using consumed [OF assms] consumed [OF z] z by simp
qed

end

abbreviation memoryTicket :: "InMemoryNodeRegistry \<Rightarrow> string \<Rightarrow> (JoinTicket \<times> int) option" where
  "memoryTicket s h \<equiv> map_option (\<lambda>x. (held x, expires_at_ms x)) (map_of (tickets s) h)"

abbreviation memoryNow :: "InMemoryNodeRegistry \<Rightarrow> int" where
  "memoryNow s \<equiv> clock s (ticks s)"

interpretation memory_tickets: ticket_registry memoryRegistry memoryTicket memoryNow
proof unfold_locales
  fix h x ttl r r' y
  show "store_join_ticket memoryRegistry h x ttl r = (True, r') \<Longrightarrow> memoryTicket r' h = Some (x, memoryNow r + uint ttl * 1000)"
    by (auto simp: storeJoinTicket_def readClock_def expiryAt_def map_simps split: if_splits option.splits)
  show "consume_join_ticket memoryRegistry h r = (y, r') \<Longrightarrow>
      y = (case memoryTicket r h of None \<Rightarrow> None | Some (x, e) \<Rightarrow> if memoryNow r < e then Some x else None) \<and>
      memoryTicket r' = (memoryTicket r)(h := None)"
    by (auto simp: consumeJoinTicket_def readClock_def map_simps fun_eq_iff split: if_splits option.splits)
qed


section \<open>Routing with the registry in memory\<close>

text \<open>Assigning a room writes the room map and counts the table at its node.\<close>

lemma assignRoom_True:
  assumes "assignRoom t n ttl s = (True, s')"
  shows "map_of (rooms s') t = Some \<lparr>held = n, expires_at_ms = memoryNow s + uint ttl * 1000\<rparr> \<and> tickets s' = tickets s \<and>
    clock s' = clock s \<and> ticks s' = Suc (ticks s) \<and>
    (\<forall>x. map_of (rooms s) t = Some x \<and> memoryNow s < expires_at_ms x \<longrightarrow> held x = n)"
  using assms
  by (auto simp: assignRoom_def readClock_def expiryAt_def map_simps Let_def split: if_splits option.splits)

lemma sort_key_hd:
  assumes "xs \<noteq> []"
  shows "hd (sort_key f xs) \<in> set xs \<and> (\<forall>y \<in> set xs. f (hd (sort_key f xs)) \<le> f y)"
proof -
  obtain z zs where z: "sort_key f xs = z # zs" using assms by (metis list.exhaust length_0_conv length_sort)
  have "set xs = set (z # zs)" unfolding z [symmetric] by simp
  moreover have "sorted (map f (z # zs))" unfolding z [symmetric] by simp
  ultimately show ?thesis unfolding z by auto
qed

text \<open>A new table goes to the least loaded node: among the nodes whose heartbeat has not expired, the
  assignment names one with the fewest tables, then the fewest connections, then the smallest name. The room is
  recorded for that node, it did not belong to another node at that time, and the player's ticket for the table is
  stored under the hash of the ticket he receives.\<close>
theorem assignNewTable_least_loaded:
  assumes "assignNewTable memoryRegistry crypto router t u (r, c) = (Some a, r', c')"
  shows "(\<exists>k x. (k, x) \<in> set (nodes r) \<and> memoryNow r < expires_at_ms x \<and> held x = route_node a) \<and>
    (\<forall>(k, y) \<in> set (nodes r). memoryNow r < expires_at_ms y \<longrightarrow> nodeLoad (route_node a) \<le> nodeLoad (held y)) \<and>
    (\<exists>e. map_of (rooms r') t = Some \<lparr>held = node_name (route_node a), expires_at_ms = e\<rparr>) \<and>
    (\<forall>x. map_of (rooms r) t = Some x \<and> clock r (Suc (ticks r)) < expires_at_ms x \<longrightarrow> held x = node_name (route_node a)) \<and>
    map_option held (map_of (tickets r') (hash_session_token crypto (join_ticket a))) = Some \<lparr>ticket_user = u, ticket_table = t\<rparr>"
proof -
  let ?alive = "filter (\<lambda>(k, x). \<not> expires_at_ms x \<le> memoryNow r) (nodes r)"
  let ?ns = "sort_key nodeLoad (map (\<lambda>(k, x). held x) ?alive)"
  let ?r1 = "r\<lparr>ticks := Suc (ticks r), nodes := ?alive\<rparr>"
  have healthy: "healthyNodes r = (?ns, ?r1)" by (simp add: healthyNodes_def readClock_def Let_def)
  have ne: "?ns \<noteq> []"
    using assms by (auto simp: assignNewTable_def healthy simp del: sort_key_simps split: if_splits prod.splits)
  obtain r2 where r2: "assignRoom t (node_name (hd ?ns)) (room_ttl_seconds router) ?r1 = (True, r2)"
    and i: "issue memoryRegistry crypto router (hd ?ns) t u (r2, c) = (Some a, r', c')"
    using assms ne by (auto simp: assignNewTable_def healthy split: if_splits prod.splits)
  have a: "route_node a = hd ?ns"
    and ticket: "memoryTicket r' (hash_session_token crypto (join_ticket a)) =
      Some (\<lparr>ticket_user = u, ticket_table = t\<rparr>, memoryNow r2 + uint (ticket_ttl_seconds router) * 1000)"
    using memory_tickets.issue_then_consume [OF i] by auto
  have keeps: "rooms r' = rooms r2"
    using i by (auto simp: issue_def storeJoinTicket_def readClock_def split: prod.splits if_splits option.splits)
  have nonempty: "map (\<lambda>(k, x). held x) ?alive \<noteq> []" using ne by (metis length_0_conv length_sort)
  note best = sort_key_hd [OF nonempty, of nodeLoad]
  have "\<exists>k x. (k, x) \<in> set (nodes r) \<and> memoryNow r < expires_at_ms x \<and> held x = route_node a"
    using best unfolding a by (clarsimp simp: not_le) blast
  moreover have "\<forall>(k, y) \<in> set (nodes r). memoryNow r < expires_at_ms y \<longrightarrow> nodeLoad (route_node a) \<le> nodeLoad (held y)"
    using best unfolding a by (fastforce simp: not_le)
  moreover have "map_option held (map_of (tickets r') (hash_session_token crypto (join_ticket a))) = Some \<lparr>ticket_user = u, ticket_table = t\<rparr>"
    using ticket by auto
  ultimately show ?thesis using assignRoom_True [OF r2] keeps by (simp add: a)
qed

text \<open>A join ticket admits once: after a route has been assigned, the ticket can be consumed before it expires
  and yields the user and the table it was issued for; every later attempt yields nothing.\<close>
theorem ticket_admits_once:
  assumes "routeExistingTable memoryRegistry crypto router t u expected (r, c) = (Some a, r', c')"
    "h = hash_session_token crypto (join_ticket a)"
    "\<exists>x. map_of (tickets r') h = Some x \<and> clock r' (ticks r') < expires_at_ms x"
  shows "\<exists>r''. consumeJoinTicket h r' = (Some \<lparr>ticket_user = u, ticket_table = t\<rparr>, r'') \<and> fst (consumeJoinTicket h r'') = None"
proof -
  obtain n q where i: "issue memoryRegistry crypto router n t u (q, c) = (Some a, r', c')"
    using assms(1) by (auto simp: routeExistingTable_def issueTo_def split: if_splits prod.splits option.splits)
  obtain y r'' where y: "consumeJoinTicket h r' = (y, r'')" by (metis surj_pair)
  have "y = Some \<lparr>ticket_user = u, ticket_table = t\<rparr>"
    using memory_tickets.issue_then_consume [OF i] memory_tickets.consumed [of h r' y r''] y assms(2,3)
    by (auto split: if_splits option.splits)
  then show ?thesis using memory_tickets.consume_once [of h r' y r''] y by simp
qed

definition demoRegistry :: InMemoryNodeRegistry where
  "demoRegistry =
     snd (heartbeat \<lparr>node_name = ''b'', endpoint = ''h:2'', active_tables = 1, connections = 9\<rparr> 30
       (snd (heartbeat \<lparr>node_name = ''a'', endpoint = ''h:1'', active_tables = 4, connections = 2\<rparr> 30
         (newRegistry (\<lambda>n. 1000 + 10 * int n)))))"

definition demoRouter :: LobbyRouter where
  "demoRouter = \<lparr>room_ttl_seconds = 600, ticket_ttl_seconds = 30\<rparr>"

definition demoAssigned :: "RouteAssignment option \<times> InMemoryNodeRegistry \<times> nat" where
  "demoAssigned = assignNewTable memoryRegistry demoCrypto demoRouter 1000 7 (demoRegistry, 0)"

theorem assignNewTable_least_loaded_witness:
  "route_node (the (fst demoAssigned)) = \<lparr>node_name = ''b'', endpoint = ''h:2'', active_tables = 1, connections = 9\<rparr> \<and>
   map_option held (map_of (tickets (fst (snd demoAssigned))) (hash_session_token demoCrypto (join_ticket (the (fst demoAssigned))))) =
      Some \<lparr>ticket_user = 7, ticket_table = 1000\<rparr>"
proof
  show "route_node (the (fst demoAssigned)) = \<lparr>node_name = ''b'', endpoint = ''h:2'', active_tables = 1, connections = 9\<rparr>" by code_simp
  have "fst demoAssigned \<noteq> None" by code_simp
  then have "assignNewTable memoryRegistry demoCrypto demoRouter 1000 7 (demoRegistry, 0) =
      (Some (the (fst demoAssigned)), fst (snd demoAssigned), snd (snd demoAssigned))" by (simp add: demoAssigned_def)
  from assignNewTable_least_loaded [OF this]
  show "map_option held (map_of (tickets (fst (snd demoAssigned))) (hash_session_token demoCrypto (join_ticket (the (fst demoAssigned))))) =
      Some \<lparr>ticket_user = 7, ticket_table = 1000\<rparr>" by blast
qed

theorem ticket_admits_once_witness:
  "\<exists>a r' r''. routeExistingTable memoryRegistry demoCrypto demoRouter 1000 8 [] (fst (snd demoAssigned), 1) = (Some a, r', 2) \<and>
     consumeJoinTicket ''htt'' r' = (Some \<lparr>ticket_user = 8, ticket_table = 1000\<rparr>, r'') \<and> fst (consumeJoinTicket ''htt'' r'') = None"
proof -
  let ?x = "routeExistingTable memoryRegistry demoCrypto demoRouter 1000 8 [] (fst (snd demoAssigned), 1)"
  have x: "fst ?x \<noteq> None" "snd (snd ?x) = 2" by code_simp+
  then have run: "?x = (Some (the (fst ?x)), fst (snd ?x), 2)" by (metis option.collapse prod.collapse)
  have h: "''htt'' = hash_session_token demoCrypto (join_ticket (the (fst ?x)))" by code_simp
  have "case map_of (tickets (fst (snd ?x))) ''htt'' of None \<Rightarrow> False
      | Some y \<Rightarrow> clock (fst (snd ?x)) (ticks (fst (snd ?x))) < expires_at_ms y" by code_simp
  then have "\<exists>y. map_of (tickets (fst (snd ?x))) ''htt'' = Some y \<and> clock (fst (snd ?x)) (ticks (fst (snd ?x))) < expires_at_ms y"
    by (simp split: option.splits)
  from ticket_admits_once [OF run h this] run show ?thesis by blast
qed

end
