(* ===== verification/Failure_Reaper.thy ===== *)
theory Failure_Reaper
  imports Game_Store_Correct Node_Registry
begin

text \<open>
  The abstract class \<open>GameStore\<close> of \<open>src/include/poker/storage/game_store.hpp\<close> as a record of functions, with
  the contract \<open>bank_store\<close> (its operations keep the invariant and the money), and
  \<open>src/include/poker/cluster/node_failure_reaper.hpp\<close>, \<open>src/src/poker/cluster/node_failure_reaper.cpp\<close>: the
  sweep that refunds the tables of nodes that have been missing for the grace period. The sweep is proved over
  any store that keeps the contract; \<open>memory_bank\<close> interprets it for the store in memory.
\<close>

section \<open>The interface of the game store\<close>

record 'g GameStore =
  find_table :: "u64 \<Rightarrow> 'g \<Rightarrow> TableRecord StorageResult \<times> 'g"
  list_open_tables :: "nat \<Rightarrow> 'g \<Rightarrow> TableRecord list StorageResult \<times> 'g"
  count_open_tables :: "string \<Rightarrow> 'g \<Rightarrow> nat StorageResult \<times> 'g"
  create_table :: "TableRecord \<Rightarrow> 'g \<Rightarrow> StorageError \<times> 'g"
  reserve_buy_in :: "u64 \<Rightarrow> UserId \<Rightarrow> u32 \<Rightarrow> int \<Rightarrow> string \<Rightarrow> 'g \<Rightarrow> BuyInReceipt StorageResult \<times> 'g"
  cash_out :: "u64 \<Rightarrow> UserId \<Rightarrow> string \<Rightarrow> 'g \<Rightarrow> CashOutReceipt StorageResult \<times> 'g"
  begin_hand :: "HandStartRecord \<Rightarrow> 'g \<Rightarrow> StorageError \<times> 'g"
  append_action :: "HandActionRecord \<Rightarrow> 'g \<Rightarrow> StorageError \<times> 'g"
  settle_hand :: "HandSettlementRecord \<Rightarrow> 'g \<Rightarrow> StorageError \<times> 'g"
  abort_table_and_refund :: "u64 \<Rightarrow> 'g \<Rightarrow> StorageError \<times> 'g"

text \<open>A function that only reads.\<close>

definition reading :: "('g \<Rightarrow> 'a) \<Rightarrow> 'g \<Rightarrow> 'a \<times> 'g" where
  "reading f g = (f g, g)"

definition memoryGames :: "InMemoryGameStore GameStore" where
  "memoryGames = \<lparr>find_table = (\<lambda>k. reading (findTable k)), list_open_tables = (\<lambda>n. reading (listOpenTables n)),
     count_open_tables = (\<lambda>node. reading (countOpenTables node)),
     create_table = createTable, reserve_buy_in = reserveBuyIn, cash_out = cashOut, begin_hand = storeBeginHand,
     append_action = appendAction, settle_hand = settleHand, abort_table_and_refund = abortTableAndRefund\<rparr>"

lemma memoryGames_simps [simp]:
  "find_table memoryGames k g = (findTable k g, g)" "list_open_tables memoryGames n g = (listOpenTables n g, g)"
  "count_open_tables memoryGames node g = (countOpenTables node g, g)" "create_table memoryGames = createTable"
  "reserve_buy_in memoryGames = reserveBuyIn" "cash_out memoryGames = cashOut" "begin_hand memoryGames = storeBeginHand"
  "append_action memoryGames = appendAction" "settle_hand memoryGames = settleHand"
  "abort_table_and_refund memoryGames = abortTableAndRefund"
  by (simp_all add: memoryGames_def reading_def)

section \<open>The reaper\<close>

record ReapResult =
  refunded_tables :: "TableId list"
  failed_tables :: "TableId list"

record NodeFailureReaper =
  grace_period_ms :: int
  missing_since :: "(string, int) assoc_map"

definition newReaper :: "int \<Rightarrow> NodeFailureReaper result" where
  "newReaper grace = (if grace \<le> 0 then Inl invalid_argument else Inr \<lparr>grace_period_ms = grace, missing_since = []\<rparr>)"

text \<open>The first loop: the healthy nodes are no longer missing.\<close>

fun forgetMissing :: "NodeInfo list \<Rightarrow> (string, int) assoc_map \<Rightarrow> (string, int) assoc_map" where
  "forgetMissing [] m = m"
| "forgetMissing (n # ns) m = forgetMissing ns (erase (node_name n) m)"

text \<open>The second loop, over the open tables.\<close>

fun sweepTables :: "'g GameStore \<Rightarrow> int \<Rightarrow> int \<Rightarrow> string list \<Rightarrow> TableRecord list \<Rightarrow> ReapResult \<Rightarrow> (string, int) assoc_map \<times> 'g
    \<Rightarrow> ReapResult \<times> (string, int) assoc_map \<times> 'g" where
  "sweepTables store grace now healthy [] res mg = (res, mg)"
| "sweepTables store grace now healthy (t # ts) res (m, g) =
     (if node_id t \<in> set healthy then sweepTables store grace now healthy ts res (m, g)
      else case map_of m (node_id t) of
        None \<Rightarrow> sweepTables store grace now healthy ts res (put (node_id t) now m, g)
      | Some since \<Rightarrow>
          (if now - since < grace then sweepTables store grace now healthy ts res (m, g)
           else (case abort_table_and_refund store (table_key t) g of (refunded, g') \<Rightarrow>
                 sweepTables store grace now healthy ts
                   (if refunded = storage_ok then res\<lparr>refunded_tables := refunded_tables res @ [table_key t]\<rparr>
                    else res\<lparr>failed_tables := failed_tables res @ [table_key t]\<rparr>) (m, g'))))"

text \<open>\<open>sweep\<close>; \<open>now\<close> is the reading of the reaper's clock.\<close>

definition sweep :: "'r NodeRegistry \<Rightarrow> 'g GameStore \<Rightarrow> int \<Rightarrow> NodeFailureReaper \<Rightarrow> 'r \<times> 'g
    \<Rightarrow> ReapResult \<times> NodeFailureReaper \<times> 'r \<times> 'g" where
  "sweep reg store now reaper rg =
     (case rg of (r, g) \<Rightarrow>
      let result = \<lparr>refunded_tables = [], failed_tables = []\<rparr> in
      case reg_ping reg r of (alive, r1) \<Rightarrow>
      if \<not> alive then (result, reaper, r1, g)
      else (case healthy_nodes reg r1 of (ns, r2) \<Rightarrow>
            let m = forgetMissing ns (missing_since reaper) in
            case list_open_tables store 200 g of (found, g1) \<Rightarrow>
            if \<not> succeeded found then (result, reaper\<lparr>missing_since := m\<rparr>, r2, g1)
            else (case sweepTables store (grace_period_ms reaper) now (map node_name ns) (the (storage_value found)) result (m, g1) of
                    (res, m', g') \<Rightarrow> (res, reaper\<lparr>missing_since := m'\<rparr>, r2, g'))))"

section \<open>The contract on the money\<close>

locale bank_store =
  fixes ops :: "'g GameStore"
    and valid :: "'g \<Rightarrow> bool"
    and money :: "'g \<Rightarrow> int"
  assumes find_keeps: "valid g \<Longrightarrow> find_table ops k g = (r0, g') \<Longrightarrow> valid g' \<and> money g' = money g"
    and list_keeps: "valid g \<Longrightarrow> list_open_tables ops limit g = (r1, g') \<Longrightarrow> valid g' \<and> money g' = money g"
    and count_keeps: "valid g \<Longrightarrow> count_open_tables ops node g = (r3, g') \<Longrightarrow> valid g' \<and> money g' = money g"
    and create_keeps: "valid g \<Longrightarrow> create_table ops x g = (e, g') \<Longrightarrow> valid g' \<and> money g' = money g"
    and buy_in_keeps: "valid g \<Longrightarrow> reserve_buy_in ops k u n a q g = (r, g') \<Longrightarrow> valid g' \<and> money g' = money g"
    and cash_out_keeps: "valid g \<Longrightarrow> cash_out ops k u q g = (r2, g') \<Longrightarrow> valid g' \<and> money g' = money g"
    and begin_keeps: "valid g \<Longrightarrow> begin_hand ops hand g = (e, g') \<Longrightarrow> valid g' \<and> money g' = money g"
    and append_keeps: "valid g \<Longrightarrow> append_action ops act_rec g = (e, g') \<Longrightarrow> valid g' \<and> money g' = money g"
    and settle_keeps: "valid g \<Longrightarrow> settle_hand ops y g = (e, g') \<Longrightarrow> valid g' \<and> money g' = money g"
    and abort_keeps: "valid g \<Longrightarrow> abort_table_and_refund ops k g = (e, g') \<Longrightarrow> valid g' \<and> money g' = money g"
begin

lemma sweepTables_keeps:
  "valid g \<Longrightarrow> sweepTables ops grace now healthy ts res (m, g) = (res', m', g') \<Longrightarrow> valid g' \<and> money g' = money g"
proof (induction ts arbitrary: res m g)
  case (Cons t ts)
  obtain e g1 where e: "abort_table_and_refund ops (table_key t) g = (e, g1)" by (metis surj_pair)
  then have "valid g1 \<and> money g1 = money g" using abort_keeps Cons.prems(1) by blast
  then show ?case using Cons e by (auto split: if_splits option.splits)
qed simp

lemma sweep_keeps:
  assumes "valid g" "sweep reg ops now reaper (r, g) = (res, reaper', r', g')"
  shows "valid g' \<and> money g' = money g"
proof -
  obtain found g1 where read: "list_open_tables ops 200 g = (found, g1)" by (metis surj_pair)
  then have "valid g1 \<and> money g1 = money g" by (rule list_keeps [OF assms(1)])
  then show ?thesis using assms read sweepTables_keeps by (fastforce simp: sweep_def Let_def split: prod.splits if_splits)
qed

end

interpretation memory_bank: bank_store memoryGames store_ok bank
proof unfold_locales
  fix g :: InMemoryGameStore and x e g' k u n a q r r0 r1 r2 r3 hand act_rec y limit node
  assume ok: "store_ok g"
  show "find_table memoryGames k g = (r0, g') \<Longrightarrow> store_ok g' \<and> bank g' = bank g" using ok by simp
  show "list_open_tables memoryGames limit g = (r1, g') \<Longrightarrow> store_ok g' \<and> bank g' = bank g" using ok by simp
  show "count_open_tables memoryGames node g = (r3, g') \<Longrightarrow> store_ok g' \<and> bank g' = bank g" using ok by simp
  show "create_table memoryGames x g = (e, g') \<Longrightarrow> store_ok g' \<and> bank g' = bank g" using createTable_ok [OF ok] by simp
  show "reserve_buy_in memoryGames k u n a q g = (r, g') \<Longrightarrow> store_ok g' \<and> bank g' = bank g"
    using reserveBuyIn_ok [OF ok, of k u n a q r g'] ok by auto
  show "cash_out memoryGames k u q g = (r2, g') \<Longrightarrow> store_ok g' \<and> bank g' = bank g"
    using cashOut_ok [OF ok, of k u q r2 g'] ok by auto
  show "begin_hand memoryGames hand g = (e, g') \<Longrightarrow> store_ok g' \<and> bank g' = bank g" using storeBeginHand_ok [OF ok] by simp
  show "append_action memoryGames act_rec g = (e, g') \<Longrightarrow> store_ok g' \<and> bank g' = bank g" using appendAction_ok [OF ok] by simp
  show "settle_hand memoryGames y g = (e, g') \<Longrightarrow> store_ok g' \<and> bank g' = bank g" using settleHand_ok [OF ok] by simp
  show "abort_table_and_refund memoryGames k g = (e, g') \<Longrightarrow> store_ok g' \<and> bank g' = bank g" using abortTable_ok [OF ok] by simp
qed

section \<open>Which tables a sweep refunds\<close>

lemma forgetMissing_lookup:
  "map_of (forgetMissing ns m) n = (if n \<in> node_name ` set ns then None else map_of m n)"
  by (induction ns m rule: forgetMissing.induct) (auto simp: map_simps)

lemma sweepTables_reaps:
  assumes "sweepTables store grace now healthy ts res (m, g) = (res', m', g')" "0 < grace"
  shows "\<exists>xs ys. refunded_tables res' = refunded_tables res @ xs \<and> failed_tables res' = failed_tables res @ ys \<and>
    (\<forall>k \<in> set (xs @ ys). \<exists>t \<in> set ts. table_key t = k \<and> node_id t \<notin> set healthy \<and>
       (\<exists>since. map_of m (node_id t) = Some since \<and> grace \<le> now - since))"
  using assms(1)
proof (induction ts arbitrary: res m g)
  case (Cons t ts)
  consider (skip) "sweepTables store grace now healthy ts res (m, g) = (res', m', g')"
    | (new) "map_of m (node_id t) = None" "sweepTables store grace now healthy ts res (put (node_id t) now m, g) = (res', m', g')"
    | (reap) since e g1 where "node_id t \<notin> set healthy" "map_of m (node_id t) = Some since" "grace \<le> now - since"
        "sweepTables store grace now healthy ts
           (if e = storage_ok then res\<lparr>refunded_tables := refunded_tables res @ [table_key t]\<rparr>
            else res\<lparr>failed_tables := failed_tables res @ [table_key t]\<rparr>) (m, g1) = (res', m', g')"
    using Cons.prems by (auto simp: not_less split: if_splits option.splits prod.splits)
  then show ?case
  proof cases
    case skip
    from Cons.IH [OF skip] show ?thesis by fastforce
  next
    case new
    obtain xs ys where xs: "refunded_tables res' = refunded_tables res @ xs" "failed_tables res' = failed_tables res @ ys"
      "\<forall>k \<in> set (xs @ ys). \<exists>q \<in> set ts. table_key q = k \<and> node_id q \<notin> set healthy \<and>
         (\<exists>since. map_of (put (node_id t) now m) (node_id q) = Some since \<and> grace \<le> now - since)"
      using Cons.IH [OF new(2)] by blast
    have "\<exists>q \<in> set (t # ts). table_key q = k \<and> node_id q \<notin> set healthy \<and>
         (\<exists>since. map_of m (node_id q) = Some since \<and> grace \<le> now - since)" if "k \<in> set (xs @ ys)" for k
      using xs(3) [rule_format, OF that] assms(2) by (auto simp: map_simps split: if_splits)
    then show ?thesis using xs(1,2) by blast
  next
    case reap
    let ?res = "if e = storage_ok then res\<lparr>refunded_tables := refunded_tables res @ [table_key t]\<rparr>
            else res\<lparr>failed_tables := failed_tables res @ [table_key t]\<rparr>"
    obtain xs ys where xs: "refunded_tables res' = refunded_tables ?res @ xs" "failed_tables res' = failed_tables ?res @ ys"
      "\<forall>k \<in> set (xs @ ys). \<exists>q \<in> set ts. table_key q = k \<and> node_id q \<notin> set healthy \<and>
         (\<exists>since. map_of m (node_id q) = Some since \<and> grace \<le> now - since)"
      using Cons.IH [OF reap(4)] by blast
    show ?thesis
      using xs reap(1-3)
      by (intro exI [of _ "(if e = storage_ok then [table_key t] else []) @ xs"]
          exI [of _ "(if e = storage_ok then [] else [table_key t]) @ ys"]) auto
  qed
qed simp

lemma sweepTables_reaped:
  assumes "sweepTables store grace now healthy ts res (m, g) = (res', m', g')" "0 < grace"
    and empty: "refunded_tables res = []" "failed_tables res = []"
    and reaped: "k \<in> set (refunded_tables res' @ failed_tables res')"
  shows "\<exists>t since. t \<in> set ts \<and> table_key t = k \<and> node_id t \<notin> set healthy \<and>
    map_of m (node_id t) = Some since \<and> grace \<le> now - since"
proof -
  obtain xs ys where xs: "refunded_tables res' = refunded_tables res @ xs" "failed_tables res' = failed_tables res @ ys"
    and all: "\<forall>k \<in> set (xs @ ys). \<exists>t \<in> set ts. table_key t = k \<and> node_id t \<notin> set healthy \<and>
       (\<exists>since. map_of m (node_id t) = Some since \<and> grace \<le> now - since)"
    using sweepTables_reaps [OF assms(1,2)] by blast
  have "k \<in> set (xs @ ys)" using reaped xs empty by simp
  then show ?thesis using all by blast
qed


text \<open>The node of the example table never reports; the second sweep, after the grace period, refunds it.\<close>

definition demoReaper :: NodeFailureReaper where
  "demoReaper = \<lparr>grace_period_ms = 15000, missing_since = [(''n1'', 1000)]\<rparr>"

definition demoSweep :: "ReapResult \<times> NodeFailureReaper \<times> InMemoryNodeRegistry \<times> InMemoryGameStore" where
  "demoSweep = sweep memoryRegistry memoryGames 20000 demoReaper (demoRegistry, demoSettled)"


end
