(* ===== verification/Room_Executor.thy ===== *)
theory Room_Executor
  imports Prelude
begin

text \<open>
  \<open>src/src/poker/application/room_executor.cpp\<close> and \<open>blocking_executor.cpp\<close>: bounded queues of tasks and the
  threads that run them.

  A critical section under a mutex is one step. A worker is at one of three points of \<open>run\<close>: before the
  critical section, between it and the end of \<open>task()\<close> (\<open>current\<close> holds the task), or returned (\<open>exited\<close>).
  What tasks do to the rest of the program is a parameter \<open>perform\<close>: for a task and a world it gives the
  exception that left the task, if any, and the world afterwards; \<open>None\<close> is a task that does not return.
  Everything other threads do to the world is the relation \<open>outside\<close>. The locale \<open>task_world\<close> is the contract
  of a property of the world that tasks and other threads keep; the executors then keep it too.
\<close>

type_synonym TableId = u64

record 'task Worker =
  current :: "'task option"
  exited :: bool

definition idleWorker :: "'task Worker" where
  "idleWorker = \<lparr>current = None, exited = False\<rparr>"

text \<open>The task a worker has taken and not finished.\<close>

definition inHand :: "'task Worker \<Rightarrow> 'task list" where
  "inHand w = (case current w of None \<Rightarrow> [] | Some f \<Rightarrow> [f])"

text \<open>The critical section of \<open>run\<close>: \<open>None\<close> while the condition variable keeps the worker waiting.\<close>

definition wake :: "'task list \<Rightarrow> bool \<Rightarrow> 'task Worker \<Rightarrow> ('task list \<times> 'task Worker) option" where
  "wake queue stop w =
     (if stop \<or> queue \<noteq> [] then
        (if stop \<and> queue = [] then Some (queue, w\<lparr>exited := True\<rparr>)
         else Some (tl queue, w\<lparr>current := Some (hd queue)\<rparr>))
      else None)"

text \<open>The \<open>try\<close> block: an exception goes to the handler, when there is one, and the loop goes on.\<close>

definition runCurrent :: "('task \<Rightarrow> 'w \<Rightarrow> (exn option \<times> 'w) option) \<Rightarrow> (exn \<Rightarrow> 'w \<Rightarrow> 'w) option \<Rightarrow> 'task \<Rightarrow> 'w \<Rightarrow> 'w option" where
  "runCurrent perform handler f x =
     map_option (\<lambda>(e, x'). case e of None \<Rightarrow> x' | Some ex \<Rightarrow> (case handler of None \<Rightarrow> x' | Some h \<Rightarrow> h ex x'))
       (perform f x)"

section \<open>The room executor\<close>

record 'task Shard =
  tasks :: "'task list"
  stopping :: bool
  worker :: "'task Worker"

record 'task RoomExecutor =
  max_pending_per_shard :: nat
  shards :: "'task Shard list"

definition newShard :: "'task Shard" where
  "newShard = \<lparr>tasks = [], stopping = False, worker = idleWorker\<rparr>"

definition newRoomExecutor :: "nat \<Rightarrow> nat \<Rightarrow> 'task RoomExecutor result" where
  "newRoomExecutor shard_count max_pending =
     (if shard_count = 0 \<or> max_pending = 0 then Inl invalid_argument
      else Inr \<lparr>max_pending_per_shard = max_pending, shards = replicate shard_count newShard\<rparr>)"

definition shardCount :: "'task RoomExecutor \<Rightarrow> nat" where
  "shardCount e = length (shards e)"

definition shardFor :: "TableId \<Rightarrow> 'task RoomExecutor \<Rightarrow> nat" where
  "shardFor table_id e = unat table_id mod length (shards e)"

definition setShard :: "nat \<Rightarrow> 'task Shard \<Rightarrow> 'task RoomExecutor \<Rightarrow> 'task RoomExecutor" where
  "setShard i s e = e\<lparr>shards := (shards e)[i := s]\<rparr>"

text \<open>\<open>None\<close> is an empty \<open>std::function\<close>.\<close>

definition post :: "TableId \<Rightarrow> 'task option \<Rightarrow> 'task RoomExecutor \<Rightarrow> bool \<times> 'task RoomExecutor" where
  "post table_id task e =
     (case task of
        None \<Rightarrow> (False, e)
      | Some f \<Rightarrow>
          (let i = shardFor table_id e; s = shards e ! i
           in if stopping s \<or> length (tasks s) \<ge> max_pending_per_shard e then (False, e)
              else (True, setShard i (s\<lparr>tasks := tasks s @ [f]\<rparr>) e)))"

definition pendingTasks :: "'task RoomExecutor \<Rightarrow> nat" where
  "pendingTasks e = sum_list (map (\<lambda>s. length (tasks s)) (shards e))"

text \<open>\<open>stop\<close> raises the flag of one shard after the other, then waits until every worker has returned.\<close>

definition signalStop :: "nat \<Rightarrow> 'task RoomExecutor \<Rightarrow> 'task RoomExecutor" where
  "signalStop i e = setShard i ((shards e ! i)\<lparr>stopping := True\<rparr>) e"

definition joined :: "'task RoomExecutor \<Rightarrow> bool" where
  "joined e = list_all (\<lambda>s. exited (worker s)) (shards e)"

text \<open>One critical section of the worker of shard \<open>i\<close>.\<close>

definition wakeShard :: "nat \<Rightarrow> 'task RoomExecutor \<Rightarrow> 'task RoomExecutor option" where
  "wakeShard i e =
     (let s = shards e ! i
      in map_option (\<lambda>(q, w). setShard i (s\<lparr>tasks := q, worker := w\<rparr>) e) (wake (tasks s) (stopping s) (worker s)))"

text \<open>A history: the tasks that \<open>post\<close> accepted, with their table, and the tasks that were run, with their shard.\<close>

inductive room_run ::
  "('task \<Rightarrow> 'w \<Rightarrow> (exn option \<times> 'w) option) \<Rightarrow> (exn \<Rightarrow> 'w \<Rightarrow> 'w) option \<Rightarrow> ('w \<Rightarrow> 'w \<Rightarrow> bool) \<Rightarrow>
   'task RoomExecutor \<times> 'w \<Rightarrow> (TableId \<times> 'task) list \<Rightarrow> (nat \<times> 'task) list \<Rightarrow> 'task RoomExecutor \<times> 'w \<Rightarrow> bool"
  for perform handler outside start where
  initially: "room_run perform handler outside start [] [] start"
| posts: "room_run perform handler outside start acc hist (e, x) \<Longrightarrow> post k (Some f) e = (True, e') \<Longrightarrow>
    room_run perform handler outside start (acc @ [(k, f)]) hist (e', x)"
| signals: "room_run perform handler outside start acc hist (e, x) \<Longrightarrow> i < length (shards e) \<Longrightarrow>
    room_run perform handler outside start acc hist (signalStop i e, x)"
| wakes: "room_run perform handler outside start acc hist (e, x) \<Longrightarrow> i < length (shards e) \<Longrightarrow>
    current (worker (shards e ! i)) = None \<Longrightarrow> \<not> exited (worker (shards e ! i)) \<Longrightarrow> wakeShard i e = Some e' \<Longrightarrow>
    room_run perform handler outside start acc hist (e', x)"
| runs: "room_run perform handler outside start acc hist (e, x) \<Longrightarrow> i < length (shards e) \<Longrightarrow> s = shards e ! i \<Longrightarrow>
    current (worker s) = Some f \<Longrightarrow> runCurrent perform handler f x = Some x' \<Longrightarrow>
    room_run perform handler outside start acc (hist @ [(i, f)])
      (setShard i (s\<lparr>worker := (worker s)\<lparr>current := None\<rparr>\<rparr>) e, x')"
| others: "room_run perform handler outside start acc hist (e, x) \<Longrightarrow> outside x x' \<Longrightarrow>
    room_run perform handler outside start acc hist (e, x')"

section \<open>The contract on the world\<close>

locale task_world =
  fixes perform :: "'task \<Rightarrow> 'w \<Rightarrow> (exn option \<times> 'w) option"
    and handler :: "(exn \<Rightarrow> 'w \<Rightarrow> 'w) option"
    and outside :: "'w \<Rightarrow> 'w \<Rightarrow> bool"
    and good :: "'w \<Rightarrow> bool"
  assumes task_keeps: "good x \<Longrightarrow> perform f x = Some (e, x') \<Longrightarrow> good x'"
    and handler_keeps: "good x \<Longrightarrow> handler = Some h \<Longrightarrow> good (h ex x)"
    and outside_keeps: "good x \<Longrightarrow> outside x x' \<Longrightarrow> good x'"
begin

lemma runCurrent_keeps: "good x \<Longrightarrow> runCurrent perform handler f x = Some x' \<Longrightarrow> good x'"
proof -
  assume good: "good x" and run: "runCurrent perform handler f x = Some x'"
  obtain e x1 where p: "perform f x = Some (e, x1)" using run by (auto simp: runCurrent_def)
  then have "good x1" by (rule task_keeps [OF good])
  then show "good x'" using run p handler_keeps by (cases e; cases handler) (auto simp: runCurrent_def)
qed

lemma room_run_keeps:
  "room_run perform handler outside start acc hist final \<Longrightarrow> good (snd start) \<Longrightarrow> good (snd final)"
  by (induction rule: room_run.induct) (auto intro: runCurrent_keeps outside_keeps)

end

section \<open>Order and completeness of a shard\<close>

text \<open>Task lists of one shard: accepted, and run.\<close>

definition acceptedFor :: "nat \<Rightarrow> nat \<Rightarrow> (TableId \<times> 'task) list \<Rightarrow> 'task list" where
  "acceptedFor n i acc = map snd (filter (\<lambda>(k, f). unat k mod n = i) acc)"

definition ranOn :: "nat \<Rightarrow> (nat \<times> 'task) list \<Rightarrow> 'task list" where
  "ranOn i hist = map snd (filter (\<lambda>(j, f). j = i) hist)"

lemma acceptedFor_snoc [simp]:
  "acceptedFor n i (acc @ [(k, f)]) = acceptedFor n i acc @ (if unat k mod n = i then [f] else [])"
  by (simp add: acceptedFor_def)

lemma ranOn_snoc [simp]: "ranOn i (hist @ [(j, f)]) = ranOn i hist @ (if j = i then [f] else [])"
  by (simp add: ranOn_def)

definition shard_ok :: "nat \<Rightarrow> 'task list \<Rightarrow> 'task list \<Rightarrow> 'task Shard \<Rightarrow> bool" where
  "shard_ok m acc hist s \<longleftrightarrow> acc = hist @ inHand (worker s) @ tasks s \<and> length (tasks s) \<le> m \<and>
     (exited (worker s) \<longrightarrow> stopping s \<and> tasks s = [] \<and> current (worker s) = None)"

definition executor_ok :: "nat \<Rightarrow> nat \<Rightarrow> (TableId \<times> 'task) list \<Rightarrow> (nat \<times> 'task) list \<Rightarrow> 'task RoomExecutor \<Rightarrow> bool" where
  "executor_ok n m acc hist e \<longleftrightarrow> length (shards e) = n \<and> max_pending_per_shard e = m \<and>
     (\<forall>i < n. shard_ok m (acceptedFor n i acc) (ranOn i hist) (shards e ! i))"

lemma setShard_simps [simp]:
  "length (shards (setShard i s e)) = length (shards e)"
  "max_pending_per_shard (setShard i s e) = max_pending_per_shard e"
  by (simp_all add: setShard_def)

lemma nth_setShard: "i < length (shards e) \<Longrightarrow> shards (setShard i s e) ! j = (if i = j then s else shards e ! j)"
  by (simp add: setShard_def)

lemma executor_ok_set:
  assumes "executor_ok n m acc hist e" "i < n" "shard_ok m (acceptedFor n i acc') (ranOn i hist') s"
    and "\<forall>j. j \<noteq> i \<longrightarrow> acceptedFor n j acc' = acceptedFor n j acc \<and> ranOn j hist' = ranOn j hist"
  shows "executor_ok n m acc' hist' (setShard i s e)"
  using assms by (auto simp: executor_ok_def nth_setShard)

lemma post_ok:
  assumes "executor_ok n m acc hist e" "post k (Some f) e = (True, e')" "0 < n"
  shows "executor_ok n m (acc @ [(k, f)]) hist e'"
proof -
  let ?i = "unat k mod n"
  have i: "?i < n" using assms(3) by simp
  have e: "shardFor k e = ?i" using assms(1) by (simp add: shardFor_def executor_ok_def)
  let ?s = "shards e ! ?i"
  have "\<not> stopping ?s" "length (tasks ?s) < m" "e' = setShard ?i (?s\<lparr>tasks := tasks ?s @ [f]\<rparr>) e"
    using assms(1,2) e by (auto simp: post_def Let_def executor_ok_def split: if_splits)
  moreover have "shard_ok m (acceptedFor n ?i acc) (ranOn ?i hist) ?s" using assms(1) i by (simp add: executor_ok_def)
  ultimately show ?thesis using executor_ok_set [OF assms(1) i, of "acc @ [(k, f)]" hist]
    by (auto simp: shard_ok_def)
qed

lemma wakeShard_ok:
  assumes "executor_ok n m acc hist e" "i < n" "wakeShard i e = Some e'" "current (worker (shards e ! i)) = None"
    "\<not> exited (worker (shards e ! i))"
  shows "executor_ok n m acc hist e'"
proof -
  let ?s = "shards e ! i"
  obtain q w where q: "wake (tasks ?s) (stopping ?s) (worker ?s) = Some (q, w)" "e' = setShard i (?s\<lparr>tasks := q, worker := w\<rparr>) e"
    using assms(3) by (auto simp: wakeShard_def Let_def)
  have "shard_ok m (acceptedFor n i acc) (ranOn i hist) ?s" using assms(1,2) by (simp add: executor_ok_def)
  then have "shard_ok m (acceptedFor n i acc) (ranOn i hist) (?s\<lparr>tasks := q, worker := w\<rparr>)"
    using q(1) assms(4,5) by (cases "tasks ?s") (auto simp: shard_ok_def wake_def inHand_def split: if_splits)
  then show ?thesis using executor_ok_set [OF assms(1,2), of acc hist] q(2) by simp
qed

lemma room_run_ok:
  "room_run perform handler outside start acc hist final \<Longrightarrow> executor_ok n m [] [] (fst start) \<Longrightarrow> 0 < n \<Longrightarrow>
   executor_ok n m acc hist (fst final)"
proof (induction rule: room_run.induct)
  case (posts acc hist e x k f e')
  then have "executor_ok n m acc hist e" by simp
  from post_ok [OF this posts.hyps(2) posts.prems(2)] show ?case by simp
next
  case (signals acc hist e x i)
  then have ok: "executor_ok n m acc hist e" and i: "i < n" by (auto simp: executor_ok_def)
  then have "shard_ok m (acceptedFor n i acc) (ranOn i hist) ((shards e ! i)\<lparr>stopping := True\<rparr>)"
    by (auto simp: executor_ok_def shard_ok_def)
  then show ?case using executor_ok_set [OF ok i, of acc hist] by (simp add: signalStop_def)
next
  case (wakes acc hist e x i e')
  then have ok: "executor_ok n m acc hist e" and i: "i < n" by (auto simp: executor_ok_def)
  show ?case using wakeShard_ok [OF ok i wakes.hyps(5,3,4)] by simp
next
  case (runs acc hist e x i s f x')
  then have ok: "executor_ok n m acc hist e" and i: "i < n" by (auto simp: executor_ok_def)
  then have "shard_ok m (acceptedFor n i acc) (ranOn i hist @ [f]) (s\<lparr>worker := (worker s)\<lparr>current := None\<rparr>\<rparr>)"
    using runs.hyps(3,4) by (auto simp: executor_ok_def shard_ok_def inHand_def)
  then show ?case using executor_ok_set [OF ok i, of acc "hist @ [(i, f)]"] by simp
qed simp_all

lemma newRoomExecutor_ok:
  "newRoomExecutor n m = Inr e \<Longrightarrow> executor_ok n m [] [] e \<and> 0 < n"
  by (auto simp: newRoomExecutor_def executor_ok_def shard_ok_def newShard_def idleWorker_def inHand_def
      acceptedFor_def ranOn_def split: if_splits)

text \<open>C21. The tasks of a shard, and so those of a table, run one at a time, in the order in which \<open>post\<close> accepted
  them, each exactly once: at every moment of every interleaving the accepted tasks are those that were run, then the
  one in hand, then the queue, which never exceeds its bound. When the worker has returned after \<open>stop\<close>, every
  accepted task has been run. All tables with the same number modulo the number of shards share the order.\<close>
theorem room_executor_fifo:
  assumes "newRoomExecutor n m = Inr e0" "room_run perform handler outside (e0, x0) acc hist (e, x)" "i < n"
  shows "acceptedFor n i acc = ranOn i hist @ inHand (worker (shards e ! i)) @ tasks (shards e ! i) \<and>
    length (tasks (shards e ! i)) \<le> m \<and>
    (exited (worker (shards e ! i)) \<longrightarrow> acceptedFor n i acc = ranOn i hist)"
proof -
  have "executor_ok n m acc hist e"
    using room_run_ok [OF assms(2), of n m] newRoomExecutor_ok [OF assms(1)] by simp
  then show ?thesis using assms(3) by (auto simp: executor_ok_def shard_ok_def inHand_def)
qed

text \<open>Two tables of the same shard; the second task throws, the worker goes on and returns after \<open>stop\<close>.\<close>

definition demoTask :: "nat \<Rightarrow> nat \<Rightarrow> (exn option \<times> nat) option" where
  "demoTask f x = Some (if f = 0 then Some logic_error else None, x + f)"

definition demoExecutor :: "nat RoomExecutor" where
  "demoExecutor = \<lparr>max_pending_per_shard = 2, shards = [newShard, newShard]\<rparr>"

lemma demoExecutor_new: "newRoomExecutor 2 2 = Inr demoExecutor"
  by (simp add: newRoomExecutor_def demoExecutor_def numeral_2_eq_2)

definition demoPosted :: "nat RoomExecutor" where
  "demoPosted = snd (post 5 (Some 0) (snd (post 3 (Some 7) demoExecutor)))"

definition finished :: "nat \<Rightarrow> 'task RoomExecutor \<Rightarrow> 'task RoomExecutor" where
  "finished i e = setShard i ((shards e ! i)\<lparr>worker := (worker (shards e ! i))\<lparr>current := None\<rparr>\<rparr>) e"

definition demoFirst :: "nat RoomExecutor" where
  "demoFirst = signalStop 1 (finished 1 (the (wakeShard 1 demoPosted)))"

definition demoLast :: "nat RoomExecutor" where
  "demoLast = the (wakeShard 1 (finished 1 (the (wakeShard 1 demoFirst))))"

lemma demo_room_run: "room_run demoTask None (\<lambda>_ _. False) (demoExecutor, 0) [(3, 7), (5, 0)] [(1, 7), (1, 0)] (demoLast, 7)"
proof -
  let ?R = "room_run demoTask None (\<lambda>_ _. False) (demoExecutor, 0)"
  have "?R ([] @ [(3, 7)]) [] (snd (post 3 (Some 7) demoExecutor), 0)"
    by (rule room_run.posts [OF room_run.initially]) code_simp
  then have p: "?R [(3, 7)] [] (snd (post 3 (Some 7) demoExecutor), 0)" by simp
  have "?R ([(3, 7)] @ [(5, 0)]) [] (demoPosted, 0)"
    by (rule room_run.posts [OF p]) code_simp
  then have s0: "?R [(3, 7), (5, 0)] [] (demoPosted, 0)" by simp
  have s1: "?R [(3, 7), (5, 0)] [] (the (wakeShard 1 demoPosted), 0)"
    by (rule room_run.wakes [where i = 1, OF s0]) code_simp+
  have "?R [(3, 7), (5, 0)] ([] @ [(1, 7)]) (finished 1 (the (wakeShard 1 demoPosted)), 7)"
    unfolding finished_def by (rule room_run.runs [where i = 1, OF s1 _ refl]) code_simp+
  then have s2: "?R [(3, 7), (5, 0)] [(1, 7)] (finished 1 (the (wakeShard 1 demoPosted)), 7)" by simp
  have s3: "?R [(3, 7), (5, 0)] [(1, 7)] (demoFirst, 7)"
    unfolding demoFirst_def by (rule room_run.signals [OF s2]) code_simp
  have s4: "?R [(3, 7), (5, 0)] [(1, 7)] (the (wakeShard 1 demoFirst), 7)"
    by (rule room_run.wakes [where i = 1, OF s3]) code_simp+
  have "?R [(3, 7), (5, 0)] ([(1, 7)] @ [(1, 0)]) (finished 1 (the (wakeShard 1 demoFirst)), 7)"
    unfolding finished_def by (rule room_run.runs [where i = 1, OF s4 _ refl]) code_simp+
  then have s5: "?R [(3, 7), (5, 0)] [(1, 7), (1, 0)] (finished 1 (the (wakeShard 1 demoFirst)), 7)" by simp
  show ?thesis by (rule room_run.wakes [where i = 1, OF s5]) code_simp+
qed

theorem room_executor_fifo_witness:
  "acceptedFor 2 1 [(3, 7), (5, 0)] = [7, 0 :: nat] \<and> acceptedFor 2 1 [(3, 7), (5, 0)] = ranOn 1 [(1, 7), (1, 0 :: nat)]"
proof
  show "acceptedFor 2 1 [(3, 7), (5, 0)] = [7, 0 :: nat]" by code_simp
  have one_less_numeral: "1 < (2 :: nat)" by simp
  have "exited (worker (shards demoLast ! 1))" by code_simp
  then show "acceptedFor 2 1 [(3, 7), (5, 0)] = ranOn 1 [(1, 7), (1, 0 :: nat)]"
    using room_executor_fifo [OF demoExecutor_new demo_room_run one_less_numeral] by blast
qed

section \<open>The blocking executor\<close>

text \<open>One queue, several workers.\<close>

record 'task BlockingExecutor =
  max_pending :: nat
  pool_tasks :: "'task list"
  pool_stopping :: bool
  workers :: "'task Worker list"

definition newBlockingExecutor :: "nat \<Rightarrow> nat \<Rightarrow> 'task BlockingExecutor result" where
  "newBlockingExecutor thread_count n =
     (if thread_count = 0 \<or> n = 0 then Inl invalid_argument
      else Inr \<lparr>max_pending = n, pool_tasks = [], pool_stopping = False, workers = replicate thread_count idleWorker\<rparr>)"

definition poolPost :: "'task option \<Rightarrow> 'task BlockingExecutor \<Rightarrow> bool \<times> 'task BlockingExecutor" where
  "poolPost task b =
     (case task of
        None \<Rightarrow> (False, b)
      | Some f \<Rightarrow>
          (if pool_stopping b \<or> length (pool_tasks b) \<ge> max_pending b then (False, b)
           else (True, b\<lparr>pool_tasks := pool_tasks b @ [f]\<rparr>)))"

definition pending :: "'task BlockingExecutor \<Rightarrow> nat" where
  "pending b = length (pool_tasks b)"

definition poolStop :: "'task BlockingExecutor \<Rightarrow> 'task BlockingExecutor" where
  "poolStop b = b\<lparr>pool_stopping := True\<rparr>"

definition poolJoined :: "'task BlockingExecutor \<Rightarrow> bool" where
  "poolJoined b = list_all exited (workers b)"

definition wakeWorker :: "nat \<Rightarrow> 'task BlockingExecutor \<Rightarrow> 'task BlockingExecutor option" where
  "wakeWorker i b =
     map_option (\<lambda>(q, w). b\<lparr>pool_tasks := q, workers := (workers b)[i := w]\<rparr>)
       (wake (pool_tasks b) (pool_stopping b) (workers b ! i))"

inductive pool_run ::
  "('task \<Rightarrow> 'w \<Rightarrow> (exn option \<times> 'w) option) \<Rightarrow> (exn \<Rightarrow> 'w \<Rightarrow> 'w) option \<Rightarrow>
   'task BlockingExecutor \<times> 'w \<Rightarrow> 'task list \<Rightarrow> 'task list \<Rightarrow> 'task BlockingExecutor \<times> 'w \<Rightarrow> bool"
  for perform handler start where
  pool_initially: "pool_run perform handler start [] [] start"
| pool_posts: "pool_run perform handler start acc hist (b, x) \<Longrightarrow> poolPost (Some f) b = (True, b') \<Longrightarrow>
    pool_run perform handler start (acc @ [f]) hist (b', x)"
| pool_stops: "pool_run perform handler start acc hist (b, x) \<Longrightarrow> pool_run perform handler start acc hist (poolStop b, x)"
| pool_wakes: "pool_run perform handler start acc hist (b, x) \<Longrightarrow> i < length (workers b) \<Longrightarrow>
    current (workers b ! i) = None \<Longrightarrow> \<not> exited (workers b ! i) \<Longrightarrow> wakeWorker i b = Some b' \<Longrightarrow>
    pool_run perform handler start acc hist (b', x)"
| pool_runs: "pool_run perform handler start acc hist (b, x) \<Longrightarrow> i < length (workers b) \<Longrightarrow>
    current (workers b ! i) = Some f \<Longrightarrow> runCurrent perform handler f x = Some x' \<Longrightarrow>
    pool_run perform handler start acc (hist @ [f]) (b\<lparr>workers := (workers b)[i := (workers b ! i)\<lparr>current := None\<rparr>]\<rparr>, x')"

definition pool_ok :: "nat \<Rightarrow> 'task list \<Rightarrow> 'task list \<Rightarrow> 'task BlockingExecutor \<Rightarrow> bool" where
  "pool_ok m acc hist b \<longleftrightarrow> max_pending b = m \<and> length (pool_tasks b) \<le> m \<and> workers b \<noteq> [] \<and>
     mset acc = mset hist + mset (concat (map inHand (workers b))) + mset (pool_tasks b) \<and>
     (\<forall>w \<in> set (workers b). exited w \<longrightarrow> pool_stopping b \<and> pool_tasks b = [] \<and> current w = None)"

lemma hands_update:
  "i < length ws \<Longrightarrow> mset (concat (map inHand (ws[i := w]))) + mset (inHand (ws ! i)) = mset (concat (map inHand ws)) + mset (inHand w)"
proof (induction ws arbitrary: i)
  case (Cons v ws)
  then show ?case by (cases i) (auto simp: algebra_simps)
qed simp

lemma wakeWorker_ok:
  assumes "pool_ok m acc hist b" "i < length (workers b)" "current (workers b ! i) = None"
    "\<not> exited (workers b ! i)" "wakeWorker i b = Some b'"
  shows "pool_ok m acc hist b'"
proof -
  obtain q w where q: "wake (pool_tasks b) (pool_stopping b) (workers b ! i) = Some (q, w)"
      "b' = b\<lparr>pool_tasks := q, workers := (workers b)[i := w]\<rparr>"
    using assms(5) by (auto simp: wakeWorker_def)
  have hands: "mset (concat (map inHand (workers b'))) = mset (concat (map inHand (workers b))) + mset (inHand w)"
    using hands_update [OF assms(2), of w] assms(3) q(2) by (simp add: inHand_def)
  have sets: "set (workers b') \<subseteq> insert w (set (workers b))" using q(2) set_update_subset_insert by fastforce
  show ?thesis
  proof (cases "pool_tasks b")
    case Nil
    then have "q = []" "w = (workers b ! i)\<lparr>exited := True\<rparr>" "pool_stopping b"
      using q(1) by (auto simp: wake_def split: if_splits)
    then show ?thesis using assms(1,3) Nil hands sets q(2) by (auto simp: pool_ok_def inHand_def)
  next
    case (Cons f fs)
    then have w: "q = fs" "w = (workers b ! i)\<lparr>current := Some f\<rparr>" using q(1) by (auto simp: wake_def split: if_splits)
    have "\<not> exited v" if "v \<in> set (workers b')" for v
      using that sets assms(1,4) Cons w(2) by (auto simp: pool_ok_def)
    then show ?thesis using assms(1) Cons hands w q(2) by (auto simp: pool_ok_def inHand_def)
  qed
qed

lemma pool_run_ok:
  "pool_run perform handler start acc hist final \<Longrightarrow> pool_ok m [] [] (fst start) \<Longrightarrow> pool_ok m acc hist (fst final)"
proof (induction rule: pool_run.induct)
  case (pool_posts acc hist b x f b')
  then show ?case by (auto simp: pool_ok_def poolPost_def split: if_splits)
next
  case (pool_stops acc hist b x)
  then show ?case by (auto simp: pool_ok_def poolStop_def)
next
  case (pool_wakes acc hist b x i b')
  then have "pool_ok m acc hist b" by simp
  from wakeWorker_ok [OF this pool_wakes.hyps(2-5)] show ?case by simp
next
  case (pool_runs acc hist b x i f x')
  let ?w = "(workers b ! i)\<lparr>current := None\<rparr>"
  have ok: "pool_ok m acc hist b" using pool_runs by simp
  have "mset (concat (map inHand ((workers b)[i := ?w]))) + {#f#} = mset (concat (map inHand (workers b)))"
    using hands_update [OF pool_runs.hyps(2), of ?w] pool_runs.hyps(3) by (simp add: inHand_def)
  moreover have "pool_stopping b \<and> pool_tasks b = [] \<and> current v = None"
    if "v \<in> set ((workers b)[i := ?w])" "exited v" for v
  proof (cases "v = ?w")
    case True
    have "workers b ! i \<in> set (workers b)" using pool_runs.hyps(2) by simp
    then show ?thesis using True that(2) ok by (auto simp: pool_ok_def)
  next
    case False
    then have "v \<in> set (workers b)" using that(1) set_update_subset_insert by fastforce
    then show ?thesis using that(2) ok by (auto simp: pool_ok_def)
  qed
  ultimately show ?case using ok by (auto simp: pool_ok_def)
qed

lemma newBlockingExecutor_ok: "newBlockingExecutor n m = Inr b \<Longrightarrow> pool_ok m [] [] b"
  by (auto simp: newBlockingExecutor_def pool_ok_def idleWorker_def inHand_def split: if_splits)

text \<open>No storage task is lost or run twice: at every moment of every interleaving of the pool, the accepted tasks
  are those that were run, those the workers hold and those in the queue, which never exceeds its bound. When \<open>stop\<close>
  has joined all workers, exactly the accepted tasks have been run.\<close>
theorem blocking_executor_complete:
  assumes "newBlockingExecutor n m = Inr b0" "pool_run perform handler (b0, x0) acc hist (b, x)"
  shows "mset acc = mset hist + mset (concat (map inHand (workers b))) + mset (pool_tasks b) \<and> pending b \<le> m \<and>
    (poolJoined b \<longrightarrow> mset acc = mset hist)"
proof -
  have ok: "pool_ok m acc hist b" using pool_run_ok [OF assms(2), of m] newBlockingExecutor_ok [OF assms(1)] by simp
  have "mset acc = mset hist" if joined: "poolJoined b"
  proof -
    have all: "exited w \<and> current w = None \<and> pool_tasks b = []" if "w \<in> set (workers b)" for w
      using that joined ok by (auto simp: poolJoined_def list_all_iff pool_ok_def)
    then have "concat (map inHand (workers b)) = []" by (simp add: inHand_def)
    moreover have "pool_tasks b = []" using all [of "hd (workers b)"] ok by (auto simp: pool_ok_def)
    ultimately show ?thesis using ok by (simp add: pool_ok_def)
  qed
  then show ?thesis using ok by (auto simp: pool_ok_def pending_def)
qed

definition demoPool :: "nat BlockingExecutor" where
  "demoPool = \<lparr>max_pending = 4, pool_tasks = [], pool_stopping = False, workers = [idleWorker, idleWorker]\<rparr>"

text \<open>One task; \<open>stop\<close> arrives while a worker holds it, and the other worker returns first.\<close>

definition demoPoolBusy :: "nat BlockingExecutor" where
  "demoPoolBusy = the (wakeWorker 1 (poolStop (the (wakeWorker 0 (snd (poolPost (Some 7) demoPool))))))"

definition demoPoolEnd :: "nat BlockingExecutor" where
  "demoPoolEnd = the (wakeWorker 0 (demoPoolBusy\<lparr>workers := (workers demoPoolBusy)[0 := (workers demoPoolBusy ! 0)\<lparr>current := None\<rparr>]\<rparr>))"

theorem blocking_executor_complete_witness:
  "poolJoined demoPoolEnd \<and> mset [7] = mset [7 :: nat] \<and> pending demoPoolEnd \<le> 4"
proof -
  have new: "newBlockingExecutor 2 4 = Inr demoPool"
    by (simp add: newBlockingExecutor_def demoPool_def numeral_2_eq_2)
  let ?R = "pool_run demoTask None (demoPool, 0)"
  have "?R ([] @ [7]) [] (snd (poolPost (Some 7) demoPool), 0)"
    by (rule pool_run.pool_posts [OF pool_run.pool_initially]) code_simp
  then have s0: "?R [7] [] (snd (poolPost (Some 7) demoPool), 0)" by simp
  have s1: "?R [7] [] (the (wakeWorker 0 (snd (poolPost (Some 7) demoPool))), 0)"
    by (rule pool_run.pool_wakes [where i = 0, OF s0]) code_simp+
  have s2: "?R [7] [] (demoPoolBusy, 0)"
    unfolding demoPoolBusy_def by (rule pool_run.pool_wakes [where i = 1, OF pool_run.pool_stops [OF s1]]) code_simp+
  have "?R [7] ([] @ [7]) (demoPoolBusy\<lparr>workers := (workers demoPoolBusy)[0 := (workers demoPoolBusy ! 0)\<lparr>current := None\<rparr>]\<rparr>, 7)"
    by (rule pool_run.pool_runs [where i = 0, OF s2]) code_simp+
  then have s3: "?R [7] [7] (demoPoolBusy\<lparr>workers := (workers demoPoolBusy)[0 := (workers demoPoolBusy ! 0)\<lparr>current := None\<rparr>]\<rparr>, 7)"
    by simp
  have s4: "?R [7] [7] (demoPoolEnd, 7)"
    unfolding demoPoolEnd_def by (rule pool_run.pool_wakes [where i = 0, OF s3]) code_simp+
  have "poolJoined demoPoolEnd" by code_simp
  then show ?thesis using blocking_executor_complete [OF new s4] by blast
qed

end
