(* ===== verification/Room_Manager.thy ===== *)
theory Room_Manager
  imports Table_Correct Room_Executor Assoc_Maps
begin

text \<open>
  \<open>src/src/poker/application/room_manager.cpp\<close>: the tables of a server and the tasks that operate on them.

  A room is held by a shared pointer; the pointers are indices into \<open>room_heap\<close>, so that a task keeps the room it
  was created for even after \<open>closeTable\<close> has removed the table and another table has been opened under the same
  number. The closures that the methods post are the values of \<open>RoomTask\<close>, and \<open>performTask\<close> is their body. A
  callback is a number; calling it appends its argument to \<open>replies\<close>. What the called code does next arrives as
  further steps of the run.

  The locale of \<open>Room_Executor\<close> is interpreted twice, for the well-formedness of the rooms and for a closed room.
\<close>

type_synonym Callback = nat

datatype RoomReply =
    ErrorReply TableError
  | SnapshotReply TableError TableSnapshot
  | ActionReply ActionResult TableSnapshot TableSnapshot

record Room =
  room_id :: TableId
  closed :: bool
  room_table :: Table

record 'r Rooms =
  open_rooms :: "(TableId, nat) assoc_map"
  room_heap :: "Room list"
  replies :: "(Callback \<times> RoomReply) list"
  entropy :: 'r

datatype RoomTask =
    SeatTask nat PlayerId nat Chips "Callback option"
  | RemoveTask nat PlayerId "Callback option"
  | ReadyTask nat PlayerId bool "Callback option"
  | StartTask nat "Callback option"
  | DeckTask nat "Card list" "Callback option"
  | AbortTask nat "Callback option"
  | ActTask nat u64 ActionCommand "Callback option"
  | ConnectTask nat PlayerId bool "Callback option"
  | SnapshotTask nat "PlayerId option" "Callback option"
  | AuditTask nat "Callback option"
  | TimeoutTask nat PlayerId u64 "Callback option"

type_synonym 'r RoomManager = "RoomTask RoomExecutor \<times> 'r Rooms"

section \<open>Tables\<close>

definition newRooms :: "'r \<Rightarrow> 'r Rooms" where
  "newRooms r = \<lparr>open_rooms = [], room_heap = [], replies = [], entropy = r\<rparr>"

definition newRoomManager :: "nat \<Rightarrow> nat \<Rightarrow> 'r \<Rightarrow> 'r RoomManager result" where
  "newRoomManager logic_shards bound r =
     bind_result (newRoomExecutor logic_shards bound) (\<lambda>e. Inr (e, newRooms r))"

definition roomCreateTable :: "TableId \<Rightarrow> TableConfig \<Rightarrow> 'r Rooms \<Rightarrow> TableError \<times> 'r Rooms" where
  "roomCreateTable table_id cfg w =
     (if table_id = 0 then (invalid_configuration, w)
      else if map_of (open_rooms w) table_id \<noteq> None then (seat_occupied, w)
      else (ok, w\<lparr>open_rooms := put table_id (length (room_heap w)) (open_rooms w),
                  room_heap := room_heap w @ [\<lparr>room_id = table_id, closed = False, room_table = newTable cfg\<rparr>]\<rparr>))"

definition roomCloseTable :: "TableId \<Rightarrow> 'r Rooms \<Rightarrow> bool \<times> 'r Rooms" where
  "roomCloseTable table_id w =
     (case map_of (open_rooms w) table_id of
        None \<Rightarrow> (False, w)
      | Some ref \<Rightarrow> (True, w\<lparr>room_heap := (room_heap w)[ref := (room_heap w ! ref)\<lparr>closed := True\<rparr>],
                            open_rooms := erase table_id (open_rooms w)\<rparr>))"

definition hasTable :: "TableId \<Rightarrow> 'r Rooms \<Rightarrow> bool" where
  "hasTable table_id w = (map_of (open_rooms w) table_id \<noteq> None)"

definition tableCount :: "'r Rooms \<Rightarrow> nat" where
  "tableCount w = length (open_rooms w)"

definition tableIds :: "'r Rooms \<Rightarrow> TableId list" where
  "tableIds w = sort (map fst (open_rooms w))"

definition findRoom :: "TableId \<Rightarrow> 'r Rooms \<Rightarrow> nat option" where
  "findRoom table_id w = map_of (open_rooms w) table_id"

section \<open>The bodies of the tasks\<close>

definition callBack :: "Callback option \<Rightarrow> RoomReply \<Rightarrow> 'r Rooms \<Rightarrow> 'r Rooms" where
  "callBack cb r w = (case cb of None \<Rightarrow> w | Some c \<Rightarrow> w\<lparr>replies := replies w @ [(c, r)]\<rparr>)"

definition setTable :: "nat \<Rightarrow> Table \<Rightarrow> 'r Rooms \<Rightarrow> 'r Rooms" where
  "setTable ref t w = w\<lparr>room_heap := (room_heap w)[ref := (room_heap w ! ref)\<lparr>room_table := t\<rparr>]\<rparr>"

text \<open>\<open>TableSnapshot{}\<close>, and \<open>ActionResult\<close> built from its first members.\<close>

definition emptySnapshot :: TableSnapshot where
  "emptySnapshot = \<lparr>snap_street = street_waiting, snap_hand_id = 0, snap_server_sequence = 0, snap_dealer = None,
     snap_acting_player = None, snap_current_bet = 0, snap_minimum_raise = 0, snap_pot = 0, snap_board = [],
     snap_players = []\<rparr>"

definition refusal :: "TableError \<Rightarrow> string \<Rightarrow> u64 \<Rightarrow> ActionResult" where
  "refusal e msg n = \<lparr>res_error = e, res_message = msg, res_server_sequence = n, res_awards = [],
     res_action_street = street_waiting\<rparr>"

text \<open>The tasks of the methods with an \<open>ErrorCallback\<close>: the operation \<open>f\<close> is only called when there is one.\<close>

definition errorTask :: "nat \<Rightarrow> Callback option \<Rightarrow> (Table \<Rightarrow> (TableError \<times> Table) result) \<Rightarrow> 'r Rooms \<Rightarrow> exn option \<times> 'r Rooms" where
  "errorTask ref cb f w =
     (if closed (room_heap w ! ref) then (None, callBack cb (ErrorReply service_unavailable) w)
      else if cb = None then (None, w)
      else case f (room_table (room_heap w ! ref)) of
             Inl e \<Rightarrow> (Some e, w)
           | Inr (err, t) \<Rightarrow> (None, callBack cb (ErrorReply err) (setTable ref t w)))"

definition startTask :: "('r \<Rightarrow> u32 \<times> 'r) \<Rightarrow> nat \<Rightarrow> Callback option \<Rightarrow> 'r Rooms \<Rightarrow> (exn option \<times> 'r Rooms) option" where
  "startTask device ref cb w =
     (if closed (room_heap w ! ref) then Some (None, callBack cb (ErrorReply service_unavailable) w)
      else if cb = None then Some (None, w)
      else map_option
             (\<lambda>x. case x of
                Inl e \<Rightarrow> (Some e, w)
              | Inr ((err, t), r) \<Rightarrow> (None, callBack cb (ErrorReply err) (setTable ref t (w\<lparr>entropy := r\<rparr>))))
             (startHandRandom (systemUniform device) (entropy w) (room_table (room_heap w ! ref))))"

definition actOutcome :: "u64 \<Rightarrow> ActionCommand \<Rightarrow> Table \<Rightarrow> (ActionResult \<times> Table) result" where
  "actOutcome expected_hand_id cmd t =
     (let before = snapshot (Some (player_id cmd)) t
      in if expected_hand_id \<noteq> 0 \<and> snap_hand_id before \<noteq> expected_hand_id
         then Inr (refusal action_not_allowed ''action belongs to a stale hand'' (snap_server_sequence before), t)
         else act cmd t)"

definition timeoutOutcome :: "PlayerId \<Rightarrow> u64 \<Rightarrow> Table \<Rightarrow> (ActionResult \<times> Table) result" where
  "timeoutOutcome i expected_sequence t =
     (let before = snapshot (Some i) t
      in if (expected_sequence \<noteq> 0 \<and> snap_server_sequence before \<noteq> expected_sequence) \<or> snap_acting_player before \<noteq> Some i
         then Inr (refusal not_players_turn ''timeout is stale or no longer belongs to this player''
                (snap_server_sequence before), t)
         else
           (let can_check = (case List.find (\<lambda>v. view_id v = i) (snap_players before) of
                               None \<Rightarrow> False
                             | Some v \<Rightarrow> view_street_commitment v = snap_current_bet before)
            in act \<lparr>player_id = i, action_type = (if can_check then check else fold_action), amount = 0\<rparr> t))"

text \<open>The tasks of \<open>act\<close> and \<open>onActionTimeout\<close>, for player \<open>i\<close>.\<close>

definition actionTask :: "nat \<Rightarrow> PlayerId \<Rightarrow> Callback option \<Rightarrow> (Table \<Rightarrow> (ActionResult \<times> Table) result) \<Rightarrow> 'r Rooms
    \<Rightarrow> exn option \<times> 'r Rooms" where
  "actionTask ref i cb f w =
     (if closed (room_heap w ! ref)
      then (None, callBack cb (ActionReply (refusal service_unavailable ''table is closed'' 0) emptySnapshot emptySnapshot) w)
      else case f (room_table (room_heap w ! ref)) of
             Inl e \<Rightarrow> (Some e, w)
           | Inr (r, t) \<Rightarrow> (None, callBack cb (ActionReply r (snapshot (Some i) t) (auditSnapshot t)) (setTable ref t w)))"

definition connectTask :: "nat \<Rightarrow> PlayerId \<Rightarrow> bool \<Rightarrow> Callback option \<Rightarrow> 'r Rooms \<Rightarrow> 'r Rooms" where
  "connectTask ref i v cb w =
     (if closed (room_heap w ! ref) then callBack cb (SnapshotReply service_unavailable emptySnapshot) w
      else (case setConnected i v (room_table (room_heap w ! ref)) of
              (err, t) \<Rightarrow> callBack cb (SnapshotReply err (snapshot (Some i) t)) (setTable ref t w)))"

definition viewTask :: "nat \<Rightarrow> Callback option \<Rightarrow> (Table \<Rightarrow> TableSnapshot) \<Rightarrow> 'r Rooms \<Rightarrow> 'r Rooms" where
  "viewTask ref cb f w =
     (if closed (room_heap w ! ref) then callBack cb (SnapshotReply service_unavailable emptySnapshot) w
      else callBack cb (SnapshotReply ok (f (room_table (room_heap w ! ref)))) w)"

fun performTask :: "('r \<Rightarrow> u32 \<times> 'r) \<Rightarrow> RoomTask \<Rightarrow> 'r Rooms \<Rightarrow> (exn option \<times> 'r Rooms) option" where
  "performTask device (SeatTask ref i s b cb) w = Some (errorTask ref cb (\<lambda>t. Inr (seatPlayer i s b t)) w)"
| "performTask device (RemoveTask ref i cb) w = Some (errorTask ref cb (\<lambda>t. Inr (removePlayer i t)) w)"
| "performTask device (ReadyTask ref i v cb) w = Some (errorTask ref cb (\<lambda>t. Inr (setReady i v t)) w)"
| "performTask device (StartTask ref cb) w = startTask device ref cb w"
| "performTask device (DeckTask ref cards cb) w = Some (errorTask ref cb (startHandWithDeck cards) w)"
| "performTask device (AbortTask ref cb) w = Some (errorTask ref cb (\<lambda>t. Inr (abortHand t)) w)"
| "performTask device (ActTask ref h cmd cb) w = Some (actionTask ref (player_id cmd) cb (actOutcome h cmd) w)"
| "performTask device (ConnectTask ref i v cb) w = Some (None, connectTask ref i v cb w)"
| "performTask device (SnapshotTask ref viewer cb) w = Some (None, viewTask ref cb (snapshot viewer) w)"
| "performTask device (AuditTask ref cb) w = Some (None, viewTask ref cb auditSnapshot w)"
| "performTask device (TimeoutTask ref i n cb) w = Some (actionTask ref i cb (timeoutOutcome i n) w)"

section \<open>The methods\<close>

text \<open>The common shape: a missing room is refused, a full or stopped executor too, both by calling the callback in
  the calling thread.\<close>

definition submit :: "TableId \<Rightarrow> (nat \<Rightarrow> RoomTask) \<Rightarrow> Callback option \<Rightarrow> RoomReply \<Rightarrow> RoomReply \<Rightarrow> 'r RoomManager
    \<Rightarrow> bool \<times> 'r RoomManager" where
  "submit table_id task cb missing overloaded mgr =
     (case mgr of (e, w) \<Rightarrow>
      case findRoom table_id w of
        None \<Rightarrow> (False, e, callBack cb missing w)
      | Some ref \<Rightarrow>
          (case post table_id (Some (task ref)) e of
             (True, e') \<Rightarrow> (True, e', w)
           | (False, e') \<Rightarrow> (False, e', callBack cb overloaded w)))"

definition submitError :: "TableId \<Rightarrow> (nat \<Rightarrow> RoomTask) \<Rightarrow> Callback option \<Rightarrow> 'r RoomManager \<Rightarrow> bool \<times> 'r RoomManager" where
  "submitError k task cb = submit k task cb (ErrorReply player_not_found) (ErrorReply service_unavailable)"

definition submitSnapshot :: "TableId \<Rightarrow> (nat \<Rightarrow> RoomTask) \<Rightarrow> Callback option \<Rightarrow> 'r RoomManager \<Rightarrow> bool \<times> 'r RoomManager" where
  "submitSnapshot k task cb =
     submit k task cb (SnapshotReply player_not_found emptySnapshot) (SnapshotReply service_unavailable emptySnapshot)"

definition submitAction :: "TableId \<Rightarrow> (nat \<Rightarrow> RoomTask) \<Rightarrow> Callback option \<Rightarrow> 'r RoomManager \<Rightarrow> bool \<times> 'r RoomManager" where
  "submitAction k task cb =
     submit k task cb
       (ActionReply (refusal player_not_found ''table does not exist'' 0) emptySnapshot emptySnapshot)
       (ActionReply (refusal service_unavailable ''room executor is overloaded'' 0) emptySnapshot emptySnapshot)"

definition roomSeatPlayer :: "TableId \<Rightarrow> PlayerId \<Rightarrow> nat \<Rightarrow> Chips \<Rightarrow> Callback option \<Rightarrow> 'r RoomManager \<Rightarrow> bool \<times> 'r RoomManager" where
  "roomSeatPlayer k i s b cb = submitError k (\<lambda>ref. SeatTask ref i s b cb) cb"

definition roomRemovePlayer :: "TableId \<Rightarrow> PlayerId \<Rightarrow> Callback option \<Rightarrow> 'r RoomManager \<Rightarrow> bool \<times> 'r RoomManager" where
  "roomRemovePlayer k i cb = submitError k (\<lambda>ref. RemoveTask ref i cb) cb"

definition roomSetReady :: "TableId \<Rightarrow> PlayerId \<Rightarrow> bool \<Rightarrow> Callback option \<Rightarrow> 'r RoomManager \<Rightarrow> bool \<times> 'r RoomManager" where
  "roomSetReady k i v cb = submitError k (\<lambda>ref. ReadyTask ref i v cb) cb"

definition roomStartHand :: "TableId \<Rightarrow> Callback option \<Rightarrow> 'r RoomManager \<Rightarrow> bool \<times> 'r RoomManager" where
  "roomStartHand k cb = submitError k (\<lambda>ref. StartTask ref cb) cb"

definition roomStartHandWithDeck :: "TableId \<Rightarrow> Card list \<Rightarrow> Callback option \<Rightarrow> 'r RoomManager \<Rightarrow> bool \<times> 'r RoomManager" where
  "roomStartHandWithDeck k cards cb = submitError k (\<lambda>ref. DeckTask ref cards cb) cb"

definition roomAbortHand :: "TableId \<Rightarrow> Callback option \<Rightarrow> 'r RoomManager \<Rightarrow> bool \<times> 'r RoomManager" where
  "roomAbortHand k cb = submitError k (\<lambda>ref. AbortTask ref cb) cb"

definition roomAct :: "TableId \<Rightarrow> u64 \<Rightarrow> ActionCommand \<Rightarrow> Callback option \<Rightarrow> 'r RoomManager \<Rightarrow> bool \<times> 'r RoomManager" where
  "roomAct k h cmd cb = submitAction k (\<lambda>ref. ActTask ref h cmd cb) cb"

definition roomActAny :: "TableId \<Rightarrow> ActionCommand \<Rightarrow> Callback option \<Rightarrow> 'r RoomManager \<Rightarrow> bool \<times> 'r RoomManager" where
  "roomActAny k cmd cb = roomAct k 0 cmd cb"

definition roomSetConnected :: "TableId \<Rightarrow> PlayerId \<Rightarrow> bool \<Rightarrow> Callback option \<Rightarrow> 'r RoomManager \<Rightarrow> bool \<times> 'r RoomManager" where
  "roomSetConnected k i v cb = submitSnapshot k (\<lambda>ref. ConnectTask ref i v cb) cb"

definition roomSnapshot :: "TableId \<Rightarrow> PlayerId option \<Rightarrow> Callback option \<Rightarrow> 'r RoomManager \<Rightarrow> bool \<times> 'r RoomManager" where
  "roomSnapshot k viewer cb = submitSnapshot k (\<lambda>ref. SnapshotTask ref viewer cb) cb"

definition roomAuditSnapshot :: "TableId \<Rightarrow> Callback option \<Rightarrow> 'r RoomManager \<Rightarrow> bool \<times> 'r RoomManager" where
  "roomAuditSnapshot k cb = submitSnapshot k (\<lambda>ref. AuditTask ref cb) cb"

definition onActionTimeout :: "TableId \<Rightarrow> PlayerId \<Rightarrow> u64 \<Rightarrow> Callback option \<Rightarrow> 'r RoomManager \<Rightarrow> bool \<times> 'r RoomManager" where
  "onActionTimeout k i n cb = submitAction k (\<lambda>ref. TimeoutTask ref i n cb) cb"

definition onActionTimeoutAny :: "TableId \<Rightarrow> PlayerId \<Rightarrow> Callback option \<Rightarrow> 'r RoomManager \<Rightarrow> bool \<times> 'r RoomManager" where
  "onActionTimeoutAny k i cb = onActionTimeout k i 0 cb"

section \<open>Closed rooms\<close>

text \<open>What other threads do to the rooms while the workers run: tables are opened and closed, refused calls answered.\<close>

inductive room_outside :: "'r Rooms \<Rightarrow> 'r Rooms \<Rightarrow> bool" where
  creates: "room_outside w (snd (roomCreateTable k cfg w))"
| closes: "room_outside w (snd (roomCloseTable k w))"
| answers: "room_outside w (callBack cb r w)"

definition rooms_ok :: "'r Rooms \<Rightarrow> bool" where
  "rooms_ok w \<longleftrightarrow> assoc (open_rooms w) \<and>
     (\<forall>k ref. map_of (open_rooms w) k = Some ref \<longrightarrow>
        ref < length (room_heap w) \<and> \<not> closed (room_heap w ! ref) \<and> room_id (room_heap w ! ref) = k)"

definition frozen :: "nat \<Rightarrow> Table \<Rightarrow> 'r Rooms \<Rightarrow> bool" where
  "frozen ref t w \<longleftrightarrow> rooms_ok w \<and> ref < length (room_heap w) \<and> closed (room_heap w ! ref) \<and> room_table (room_heap w ! ref) = t"

lemma callBack_simps [simp]:
  "open_rooms (callBack cb r w) = open_rooms w" "room_heap (callBack cb r w) = room_heap w" "entropy (callBack cb r w) = entropy w"
  by (simp_all add: callBack_def split: option.split)

text \<open>A task leaves the rooms as they are or writes the table of one open room.\<close>

definition touches :: "'r Rooms \<Rightarrow> 'r Rooms \<Rightarrow> bool" where
  "touches w w' \<longleftrightarrow> open_rooms w' = open_rooms w \<and>
     (room_heap w' = room_heap w \<or>
      (\<exists>ref t. \<not> closed (room_heap w ! ref) \<and> room_heap w' = (room_heap w)[ref := (room_heap w ! ref)\<lparr>room_table := t\<rparr>]))"

lemma nth_update: "j < length xs \<Longrightarrow> xs[i := v] ! j = (if i = j then v else xs ! j)"
  by (cases "i = j") auto

lemma heap_update [simp]:
  "j < length hs \<Longrightarrow> closed (hs[ref := (hs ! ref)\<lparr>room_table := t\<rparr>] ! j) = closed (hs ! j)"
  "j < length hs \<Longrightarrow> room_id (hs[ref := (hs ! ref)\<lparr>room_table := t\<rparr>] ! j) = room_id (hs ! j)"
  by (auto simp: nth_update)

lemma touches_table: "\<not> closed (room_heap w ! ref) \<Longrightarrow> open_rooms w' = open_rooms w \<Longrightarrow>
    room_heap w' = (room_heap w)[ref := (room_heap w ! ref)\<lparr>room_table := t\<rparr>] \<Longrightarrow> touches w w'"
  unfolding touches_def by blast

lemma errorTask_touches: "touches w (snd (errorTask ref cb f w))"
  by (auto simp: errorTask_def setTable_def touches_def split: sum.splits prod.splits)

lemma actionTask_touches: "touches w (snd (actionTask ref i cb f w))"
  by (auto simp: actionTask_def setTable_def touches_def split: sum.splits prod.splits)

lemma startTask_touches: "startTask device ref cb w = Some (e, w') \<Longrightarrow> touches w w'"
proof -
  assume run: "startTask device ref cb w = Some (e, w')"
  show ?thesis
  proof (cases "closed (room_heap w ! ref) \<or> cb = None")
    case True
    then show ?thesis using run by (auto simp: startTask_def touches_def split: if_splits)
  next
    case False
    then obtain x where "startHandRandom (systemUniform device) (entropy w) (room_table (room_heap w ! ref)) = Some x"
      using run by (auto simp: startTask_def)
    then consider "w' = w" | err t r where "w' = callBack cb (ErrorReply err) (setTable ref t (w\<lparr>entropy := r\<rparr>))"
      using run False by (cases x) (auto simp: startTask_def split: prod.splits)
    then show ?thesis
    proof cases
      case (2 err t r)
      then show ?thesis using False by (intro touches_table [of w ref]) (simp_all add: setTable_def)
    qed (simp add: touches_def)
  qed
qed

lemma connectTask_touches: "touches w (connectTask ref i v cb w)"
proof (cases "closed (room_heap w ! ref)")
  case False
  then show ?thesis by (auto simp: connectTask_def setTable_def split: prod.splits intro: touches_table)
qed (simp add: connectTask_def touches_def)

lemma viewTask_touches: "touches w (viewTask ref cb f w)"
  by (simp add: viewTask_def touches_def)

lemma performTask_touches: "performTask device f w = Some (e, w') \<Longrightarrow> touches w w'"
  using errorTask_touches [of w] actionTask_touches [of w] startTask_touches connectTask_touches viewTask_touches
  by (cases f) (auto simp del: split_paired_All simp: prod_eq_iff [of "errorTask _ _ _ _"] prod_eq_iff [of "actionTask _ _ _ _ _"])

lemma touches_rooms_ok: "rooms_ok w \<Longrightarrow> touches w w' \<Longrightarrow> rooms_ok w'"
  unfolding rooms_ok_def touches_def by (elim conjE disjE exE) (simp_all only: length_list_update heap_update, metis heap_update length_list_update)

lemma create_rooms_ok: "rooms_ok w \<Longrightarrow> rooms_ok (snd (roomCreateTable k cfg w))"
  by (auto simp: rooms_ok_def roomCreateTable_def map_simps nth_append less_Suc_eq)

lemma close_rooms_ok: "rooms_ok w \<Longrightarrow> rooms_ok (snd (roomCloseTable k w))"
  by (auto simp: rooms_ok_def roomCloseTable_def map_simps nth_update split: option.splits if_splits)

lemma touches_frozen: "frozen ref t w \<Longrightarrow> touches w w' \<Longrightarrow> frozen ref t w'"
  using touches_rooms_ok [of w w'] unfolding frozen_def touches_def by (auto simp: nth_update)

lemma outside_rooms_ok: "room_outside w w' \<Longrightarrow> rooms_ok w \<Longrightarrow> rooms_ok w'"
  by (induction rule: room_outside.induct) (auto simp: create_rooms_ok close_rooms_ok, simp add: rooms_ok_def)

lemma outside_frozen: "room_outside w w' \<Longrightarrow> frozen ref t w \<Longrightarrow> frozen ref t w'"
proof (induction rule: room_outside.induct)
  case (creates w k cfg)
  then show ?case using create_rooms_ok [of w k cfg] by (auto simp: frozen_def roomCreateTable_def nth_append)
next
  case (closes w k)
  then show ?case using close_rooms_ok [of w k]
    by (auto simp: frozen_def roomCloseTable_def nth_update split: option.splits)
next
  case (answers w cb r)
  then show ?case by (simp add: frozen_def rooms_ok_def)
qed

interpretation live_rooms: task_world "performTask device" None room_outside rooms_ok for device
  by unfold_locales (auto intro: touches_rooms_ok performTask_touches outside_rooms_ok)

interpretation closed_room: task_world "performTask device" None room_outside "frozen ref t" for device ref t
  by unfold_locales (auto intro: touches_frozen performTask_touches outside_frozen)

fun taskRoom :: "RoomTask \<Rightarrow> nat" where
  "taskRoom (SeatTask ref i s b cb) = ref"
| "taskRoom (RemoveTask ref i cb) = ref"
| "taskRoom (ReadyTask ref i v cb) = ref"
| "taskRoom (StartTask ref cb) = ref"
| "taskRoom (DeckTask ref cards cb) = ref"
| "taskRoom (AbortTask ref cb) = ref"
| "taskRoom (ActTask ref h cmd cb) = ref"
| "taskRoom (ConnectTask ref i v cb) = ref"
| "taskRoom (SnapshotTask ref viewer cb) = ref"
| "taskRoom (AuditTask ref cb) = ref"
| "taskRoom (TimeoutTask ref i n cb) = ref"

lemma closed_task: "closed (room_heap w ! taskRoom f) \<Longrightarrow> \<exists>cb r. performTask device f w = Some (None, callBack cb r w)"
  by (cases f) (auto simp: errorTask_def startTask_def actionTask_def connectTask_def viewTask_def)

text \<open>A closed table stays as it was: after a successful \<open>closeTable\<close>, in every interleaving of the workers with
  other threads, also when a new table is opened under the same number, no task changes the table of the closed
  room, and every task that was queued for it does nothing but answer its caller.\<close>
theorem closed_room_frozen:
  assumes "newRoomManager n m r = Inr (e0, w0)"
    and "room_run (performTask device) None room_outside (e0, w0) acc hist (e, w)"
    and "roomCloseTable k w = (True, w1)"
    and "room_run (performTask device) None room_outside (e, w1) acc' hist' (e', w')"
  shows "\<exists>ref. findRoom k w = Some ref \<and> room_table (room_heap w' ! ref) = room_table (room_heap w ! ref) \<and>
    (\<forall>f. taskRoom f = ref \<longrightarrow> (\<exists>cb answer. performTask device f w' = Some (None, callBack cb answer w')))"
proof -
  have "rooms_ok w0" using assms(1) by (auto simp: newRoomManager_def result_simps newRooms_def rooms_ok_def)
  then have ok: "rooms_ok w" using live_rooms.room_run_keeps [OF assms(2)] by simp
  obtain ref where ref: "map_of (open_rooms w) k = Some ref" using assms(3) by (auto simp: roomCloseTable_def split: option.splits)
  then have "frozen ref (room_table (room_heap w ! ref)) w1"
    using ok close_rooms_ok [OF ok, of k] assms(3) by (auto simp: frozen_def roomCloseTable_def rooms_ok_def)
  then have frozen: "frozen ref (room_table (room_heap w ! ref)) w'" using closed_room.room_run_keeps [OF assms(4)] by simp
  have "\<exists>cb answer. performTask device f w' = Some (None, callBack cb answer w')" if "taskRoom f = ref" for f
    using closed_task [of w' f] frozen that by (simp add: frozen_def)
  then show ?thesis using ref frozen by (auto simp: findRoom_def frozen_def)
qed

text \<open>A table is opened, a player's request queued, the table closed, another opened under its number; then the
  request runs and is answered with \<open>service_unavailable\<close>.\<close>

definition demoShard :: "RoomTask RoomExecutor" where
  "demoShard = \<lparr>max_pending_per_shard = 8, shards = [newShard]\<rparr>"

definition demoOpened :: "unit Rooms" where
  "demoOpened = snd (roomCreateTable 5 defaultConfig (newRooms ()))"

definition demoQueued :: "RoomTask RoomExecutor" where
  "demoQueued = snd (post 5 (Some (SeatTask 0 9 1 5000 (Some 1))) demoShard)"

definition demoReopened :: "unit Rooms" where
  "demoReopened = snd (roomCreateTable 5 defaultConfig (snd (roomCloseTable 5 demoOpened)))"

definition demoAnswered :: "unit Rooms" where
  "demoAnswered = callBack (Some 1) (ErrorReply service_unavailable) demoReopened"

theorem closed_room_frozen_witness:
  "findRoom 5 demoOpened = Some 0 \<and> room_table (room_heap demoAnswered ! 0) = room_table (room_heap demoOpened ! 0) \<and>
   map snd (replies demoAnswered) = [ErrorReply service_unavailable] \<and> findRoom 5 demoAnswered = Some 1"
proof -
  let ?D = "\<lambda>_ :: unit. (0 :: u32, ())"
  let ?R = "room_run (performTask ?D) None room_outside"
  have new: "newRoomManager 1 8 () = Inr (demoShard, newRooms ())"
    by (simp add: newRoomManager_def newRoomExecutor_def demoShard_def)
  have o: "?R (demoShard, newRooms ()) [] [] (demoShard, demoOpened)"
    unfolding demoOpened_def by (intro room_run.others [OF room_run.initially] room_outside.creates)
  have "?R (demoShard, newRooms ()) ([] @ [(5, SeatTask 0 9 1 5000 (Some 1))]) [] (demoQueued, demoOpened)"
    by (rule room_run.posts [OF o]) (simp add: demoQueued_def demoShard_def post_def shardFor_def newShard_def)
  then have r1: "?R (demoShard, newRooms ()) [(5, SeatTask 0 9 1 5000 (Some 1))] [] (demoQueued, demoOpened)" by simp
  have close: "roomCloseTable 5 demoOpened = (True, snd (roomCloseTable 5 demoOpened))"
    by (simp add: roomCloseTable_def demoOpened_def roomCreateTable_def newRooms_def map_simps)
  let ?S = "?R (demoQueued, snd (roomCloseTable 5 demoOpened))"
  have s1: "?S [] [] (demoQueued, demoReopened)"
    unfolding demoReopened_def by (intro room_run.others [OF room_run.initially] room_outside.creates)
  have s2: "?S [] [] (the (wakeShard 0 demoQueued), demoReopened)"
    by (rule room_run.wakes [where i = 0, OF s1])
      (simp_all add: demoQueued_def demoShard_def post_def shardFor_def newShard_def idleWorker_def setShard_def wakeShard_def wake_def)
  have "closed (room_heap demoReopened ! 0)"
    by (simp add: demoReopened_def roomCloseTable_def demoOpened_def roomCreateTable_def newRooms_def map_simps)
  then have run: "runCurrent (performTask ?D) None (SeatTask 0 9 1 5000 (Some 1)) demoReopened = Some demoAnswered"
    by (simp add: runCurrent_def errorTask_def demoAnswered_def)
  have "current (worker (shards (the (wakeShard 0 demoQueued)) ! 0)) = Some (SeatTask 0 9 1 5000 (Some 1))"
    "0 < length (shards (the (wakeShard 0 demoQueued)))"
    by (simp_all add: demoQueued_def demoShard_def post_def shardFor_def newShard_def idleWorker_def setShard_def wakeShard_def wake_def)
  then have "?S [] ([] @ [(0, SeatTask 0 9 1 5000 (Some 1))])
      (setShard 0 ((shards (the (wakeShard 0 demoQueued)) ! 0)\<lparr>worker := (worker (shards (the (wakeShard 0 demoQueued)) ! 0))\<lparr>current := None\<rparr>\<rparr>)
         (the (wakeShard 0 demoQueued)), demoAnswered)"
    by (intro room_run.runs [where i = 0, OF s2 _ refl _ run]) simp_all
  from closed_room_frozen [OF new r1 close this]
  have "findRoom 5 demoOpened = Some 0 \<longrightarrow> room_table (room_heap demoAnswered ! 0) = room_table (room_heap demoOpened ! 0)" by auto
  then show ?thesis
    by (simp add: demoAnswered_def demoReopened_def roomCloseTable_def demoOpened_def roomCreateTable_def newRooms_def
        map_simps callBack_def findRoom_def)
qed

section \<open>Timeouts\<close>

text \<open>A table without a running hand has nobody to act.\<close>

lemma hand_step_actor: "hand_step u t \<Longrightarrow> handIsRunning (street t) \<or> acting_seat t = None"
  using betStreet_running hand_open_street
  by (auto simp: hand_step_def fold_end_def showdown_end_def round_end_def settledTable_def markSettled_def)

lemma updatePlayer_frame [simp]:
  "street (updatePlayer i f t) = street t" "acting_seat (updatePlayer i f t) = acting_seat t"
  by (auto simp: updatePlayer_def split: option.splits)

lemma table_step_actor:
  assumes "table_step t t'" "table_inv t" "handIsRunning (street t) \<or> acting_seat t = None"
  shows "handIsRunning (street t') \<or> acting_seat t' = None"
  using assms
proof (induction rule: table_step.induct)
  case (seats_player x s b t t')
  then show ?case by (auto simp: seatPlayer_def split: if_splits)
next
  case (removes_player x t t')
  then show ?case by (auto simp: removePlayer_def split: if_splits option.splits)
next
  case (sets_ready x v t t')
  then show ?case by (auto simp: setReady_def split: if_splits option.splits)
next
  case (sets_connected x v t t')
  then show ?case by (auto simp: setConnected_def split: if_splits option.splits)
next
  case (starts d t t')
  have "seats_ok t" using starts.prems(1) by (simp add: table_inv_def)
  from startHand_ok [OF this starts.hyps(1,2)] show ?case
    using starts.hyps(3) by (auto simp: stuck_def dest: hand_step_actor)
next
  case (acts cmd t r t')
  then show ?case using act_cases [OF acts.prems(1) acts.hyps(1)] by (auto simp: action_step_def dest: hand_step_actor)
next
  case (aborts t t')
  then show ?case by (auto simp: abortHand_def Let_def split: if_splits)
qed

lemma reachable_actor: "reachable cfg t \<Longrightarrow> handIsRunning (street t) \<or> acting_seat t = None"
  by (induction rule: reachable.induct) (auto simp: newTable_def dest: table_step_actor reachable_table_inv)

lemma find_player:
  "distinct (map pid ps) \<Longrightarrow> p \<in> set ps \<Longrightarrow> List.find (\<lambda>v. view_id v = pid p) (map (viewOf viewer st) ps) = Some (viewOf viewer st p)"
  by (induction ps) (auto simp: viewOf_def Let_def)

lemma timeout_accepted:
  assumes "table_inv t" "handIsRunning (street t)" "acting_seat t = Some s" "seats t ! s = Some p" "s < length (seats t)"
    and "a = (if street_commitment p = current_bet t then check else fold_action)"
  shows "\<exists>r t'. act (command (pid p) a 0) t = Inr (r, t') \<and> res_error r = ok"
proof -
  have run: "hand_open t" by (rule running_hand_open [OF assms(1,3,2)])
  then have p: "canAct p" "pid p \<in> pending_action t"
    using assms(3,4) by (auto simp: hand_open_def actor_ready_def sits_def)
  obtain r t' where r: "act (command (pid p) a 0) t = Inr (r, t')" using act_returns [OF assms(1)] by blast
  have "street t \<noteq> showdown" using betStreet_running hand_open_street [OF run] by blast
  then have "res_error r = ok"
    using r p assms(2-4,6) by (auto simp: act_def command_def result_simps split: if_splits)
  then show ?thesis using r by blast
qed

text \<open>Timeouts keep a hand going: on every reachable table a timeout of the player whose turn it is, with the
  sequence number it was armed for, is accepted. It checks when the player owes nothing and folds otherwise, so it never
  puts chips in for him, and afterwards the hand is settled or somebody is to act. A timeout that is stale, or of
  a player whose turn it is not, changes nothing.\<close>
theorem timeout_moves:
  assumes "reachable cfg t"
  shows "\<exists>r t'. timeoutOutcome i n t = Inr (r, t') \<and>
    (if (n \<noteq> 0 \<and> n \<noteq> server_sequence t) \<or> idAt t (acting_seat t) \<noteq> Some i
     then t' = t \<and> res_error r = not_players_turn
     else res_error r = ok \<and>
       (\<exists>p. findPlayer t i = Some p \<and>
          act (command i (if street_commitment p = current_bet t then check else fold_action) 0) t = Inr (r, t')) \<and>
       (street t' = settled \<or> idAt t' (acting_seat t') \<noteq> None))"
proof (cases "(n \<noteq> 0 \<and> n \<noteq> server_sequence t) \<or> idAt t (acting_seat t) \<noteq> Some i")
  case True
  then show ?thesis by (auto simp: timeoutOutcome_def snapshot_def refusal_def Let_def)
next
  case False
  have inv: "table_inv t" by (rule reachable_table_inv [OF assms])
  then have seats: "seats_ok t" by (simp add: table_inv_def)
  obtain s p where p: "acting_seat t = Some s" "s < length (seats t)" "seats t ! s = Some p" "pid p = i"
    using False by (auto simp: idAt_def split: option.splits if_splits)
  have run: "handIsRunning (street t)" using reachable_actor [OF assms] p(1) by simp
  let ?a = "if street_commitment p = current_bet t then check else fold_action"
  obtain r t' where r: "act (command i ?a 0) t = Inr (r, t')" "res_error r = ok"
    using timeout_accepted [OF inv run p(1,3,2) refl] p(4) by auto
  have sits: "sits t s p" using p by (simp add: sits_def)
  have "List.find (\<lambda>v. view_id v = i) (map (viewOf (Some i) (street t)) (players t)) = Some (viewOf (Some i) (street t) p)"
    using find_player [OF seats_ok_distinct [OF seats], of p] in_players sits p(4) by auto
  then have "timeoutOutcome i n t = Inr (r, t')"
    using False r(1) by (auto simp: timeoutOutcome_def snapshot_def Let_def viewOf_def command_def)
  moreover have "findPlayer t i = Some p" using findPlayer_sits [OF seats sits] p(4) by simp
  moreover obtain u where "hand_step u t'" using act_cases [OF inv r(1)] r(2) by (auto simp: action_step_def)
  then have "street t' = settled \<or> idAt t' (acting_seat t') \<noteq> None"
    by (auto simp: hand_step_def fold_end_def showdown_end_def round_end_def hand_open_def actor_ready_def idAt_def sits_def)
  ultimately show ?thesis using False r by auto
qed

theorem timeout_moves_witness:
  "\<exists>r t'. timeoutOutcome 1 0 (headsUp []) = Inr (r, t') \<and> res_error r = ok \<and> (street t' = settled \<or> idAt t' (acting_seat t') \<noteq> None)"
proof -
  have "idAt (headsUp []) (acting_seat (headsUp [])) = Some 1" by code_simp
  then show ?thesis using timeout_moves [OF headsUp_start, of 1 0] by auto
qed

section \<open>An abort without callback\<close>

text \<open>The server aborts a hand whose start could not be stored with \<open>rooms_.abortHand(table_id, {})\<close>. The task that
  this call posts does nothing at all: the room keeps its hand.\<close>
theorem abort_without_callback:
  "findRoom k w = Some ref \<Longrightarrow> post k (Some (AbortTask ref None)) e = (True, e') \<Longrightarrow>
   roomAbortHand k None (e, w) = (True, e', w) \<and> performTask device (AbortTask ref None) w = Some (None, w)"
  by (simp add: roomAbortHand_def submitError_def submit_def errorTask_def callBack_def)

end
