(* ===== verification/Server_Config.thy ===== *)
theory Server_Config
  imports Strings
begin

text \<open>
  \<open>src/src/poker/config/server_config.cpp\<close>: the configuration of a server from its environment, which is a
  parameter \<open>env\<close>, a partial function from names to values. Errors are collected in order; a configuration
  is returned only when there are none.
\<close>

datatype ServerRole = standalone | lobby | game

record MySqlConfig =
  mysql_host :: string
  mysql_port :: int
  mysql_user :: string
  mysql_password :: string
  mysql_database :: string
  pool_size :: int
  connect_timeout_seconds :: int

record RedisConfig =
  redis_host :: string
  redis_port :: int
  redis_password :: string
  redis_database :: int
  connect_timeout_ms :: int

record ServerConfig =
  server_role :: ServerRole
  config_node_id :: string
  public_endpoint :: string
  listen_host :: string
  listen_port :: int
  metrics_host :: string
  metrics_port :: int
  io_threads :: int
  logic_shards :: int
  action_timeout_ms :: int
  connection_idle_timeout_ms :: int
  node_failure_grace_ms :: int
  max_frame_bytes :: int
  max_pending_send_bytes :: int
  requests_per_second :: int
  request_burst :: int
  session_ttl_seconds :: int
  mysql :: MySqlConfig
  redis :: RedisConfig

record ConfigResult =
  config_value :: "ServerConfig option"
  errors :: "string list"

type_synonym environment = "string \<Rightarrow> string option"

definition environment_text :: "environment \<Rightarrow> string \<Rightarrow> string \<Rightarrow> string" where
  "environment_text env name fallback = (case env name of None \<Rightarrow> fallback | Some v \<Rightarrow> v)"

text \<open>\<open>integer\<close>: the value with the errors found so far. The bounds are those of the type \<open>Integer\<close> or
  tighter, so the final cast keeps the value.\<close>

definition integer_error :: "string \<Rightarrow> nat \<Rightarrow> nat \<Rightarrow> string" where
  "integer_error name minimum maximum =
     name @ '' must be an integer in ['' @ to_string minimum @ '', '' @ to_string maximum @ '']''"

definition integer :: "environment \<Rightarrow> string \<Rightarrow> int \<Rightarrow> nat \<Rightarrow> nat \<Rightarrow> string list \<Rightarrow> int \<times> string list" where
  "integer env name fallback minimum maximum es =
     (case env name of
        None \<Rightarrow> (fallback, es)
      | Some v \<Rightarrow>
          (case stoll v of
             Inl _ \<Rightarrow> (fallback, es @ [integer_error name minimum maximum])
           | Inr (parsed, consumed) \<Rightarrow>
               (if consumed \<noteq> length v \<or> parsed < int minimum \<or> parsed > int maximum
                then (fallback, es @ [integer_error name minimum maximum])
                else (parsed, es))))"

definition role :: "environment \<Rightarrow> string list \<Rightarrow> ServerRole \<times> string list" where
  "role env es =
     (let v = environment_text env ''POKER_ROLE'' ''standalone''
      in if v = ''standalone'' then (standalone, es)
         else if v = ''lobby'' then (lobby, es)
         else if v = ''game'' then (game, es)
         else (standalone, es @ [''POKER_ROLE must be standalone, lobby, or game'']))"

text \<open>The numeric settings in the order in which they are read: name, fallback, minimum, maximum.\<close>

definition integerSettings :: "(string \<times> int \<times> nat \<times> nat) list" where
  "integerSettings =
     [(''POKER_LISTEN_PORT'', 7000, 1, 65535),
      (''POKER_METRICS_PORT'', 9100, 1, 65535),
      (''POKER_IO_THREADS'', 4, 1, 128),
      (''POKER_LOGIC_SHARDS'', 4, 1, 128),
      (''POKER_ACTION_TIMEOUT_MS'', 20000, 1000, 300000),
      (''POKER_CONNECTION_IDLE_TIMEOUT_MS'', 45000, 10000, 600000),
      (''POKER_NODE_FAILURE_GRACE_MS'', 15000, 6000, 300000),
      (''POKER_MAX_FRAME_BYTES'', 1048576, 1024, 16777216),
      (''POKER_MAX_PENDING_SEND_BYTES'', 4194304, 65536, 67108864),
      (''POKER_REQUESTS_PER_SECOND'', 100, 1, 1000000),
      (''POKER_REQUEST_BURST'', 200, 1, 1000000),
      (''POKER_SESSION_TTL_SECONDS'', 86400, 300, 2592000),
      (''POKER_MYSQL_PORT'', 3306, 1, 65535),
      (''POKER_MYSQL_POOL_SIZE'', 8, 1, 128),
      (''POKER_REDIS_PORT'', 6379, 1, 65535),
      (''POKER_REDIS_DATABASE'', 0, 0, 15)]"

fun readIntegers :: "environment \<Rightarrow> (string \<times> int \<times> nat \<times> nat) list \<Rightarrow> string list \<Rightarrow> int list \<times> string list" where
  "readIntegers env [] es = ([], es)"
| "readIntegers env ((name, fallback, minimum, maximum) # rest) es =
     (case integer env name fallback minimum maximum es of (v, es1) \<Rightarrow>
      case readIntegers env rest es1 of (vs, es2) \<Rightarrow> (v # vs, es2))"

text \<open>The checks at the end of \<open>loadFromEnvironment\<close>.\<close>

definition missingText :: "ServerConfig \<Rightarrow> string list" where
  "missingText cfg =
     (if config_node_id cfg = [] then [''POKER_NODE_ID must not be empty''] else []) @
     (if public_endpoint cfg = [] then [''POKER_PUBLIC_ENDPOINT must not be empty''] else []) @
     (if metrics_host cfg = [] then [''POKER_METRICS_HOST must not be empty''] else []) @
     (if mysql_password (mysql cfg) = []
      then [''POKER_MYSQL_PASSWORD must be provided; credentials are never compiled in''] else [])"

definition buildConfig :: "environment \<Rightarrow> ServerRole \<Rightarrow> int list \<Rightarrow> ServerConfig" where
  "buildConfig env r vs =
     \<lparr>server_role = r,
      config_node_id = environment_text env ''POKER_NODE_ID'' ''game-1'',
      public_endpoint = environment_text env ''POKER_PUBLIC_ENDPOINT'' ''127.0.0.1:7000'',
      listen_host = environment_text env ''POKER_LISTEN_HOST'' ''0.0.0.0'',
      listen_port = vs ! 0,
      metrics_host = environment_text env ''POKER_METRICS_HOST'' ''0.0.0.0'',
      metrics_port = vs ! 1,
      io_threads = vs ! 2,
      logic_shards = vs ! 3,
      action_timeout_ms = vs ! 4,
      connection_idle_timeout_ms = vs ! 5,
      node_failure_grace_ms = vs ! 6,
      max_frame_bytes = vs ! 7,
      max_pending_send_bytes = vs ! 8,
      requests_per_second = vs ! 9,
      request_burst = vs ! 10,
      session_ttl_seconds = vs ! 11,
      mysql = \<lparr>mysql_host = environment_text env ''POKER_MYSQL_HOST'' ''127.0.0.1'',
               mysql_port = vs ! 12,
               mysql_user = environment_text env ''POKER_MYSQL_USER'' ''poker'',
               mysql_password = environment_text env ''POKER_MYSQL_PASSWORD'' [],
               mysql_database = environment_text env ''POKER_MYSQL_DATABASE'' ''poker'',
               pool_size = vs ! 13,
               connect_timeout_seconds = 5\<rparr>,
      redis = \<lparr>redis_host = environment_text env ''POKER_REDIS_HOST'' ''127.0.0.1'',
               redis_port = vs ! 14,
               redis_password = environment_text env ''POKER_REDIS_PASSWORD'' [],
               redis_database = vs ! 15,
               connect_timeout_ms = 2000\<rparr>\<rparr>"

definition loadFromEnvironment :: "environment \<Rightarrow> ConfigResult" where
  "loadFromEnvironment env =
     (case role env [] of (r, es0) \<Rightarrow>
      case readIntegers env integerSettings es0 of (vs, es1) \<Rightarrow>
      let cfg = buildConfig env r vs;
          es = es1 @ missingText cfg
      in \<lparr>config_value = (if es = [] then Some cfg else None), errors = es\<rparr>)"

fun roleToString :: "ServerRole \<Rightarrow> string" where
  "roleToString standalone = ''standalone''"
| "roleToString lobby = ''lobby''"
| "roleToString game = ''game''"

section \<open>Every loaded value is in its range\<close>

text \<open>A setting is read to a value: the number its text denotes, completely, or the fallback when it is not set.\<close>

definition reads :: "environment \<Rightarrow> string \<times> int \<times> nat \<times> nat \<Rightarrow> int \<Rightarrow> bool" where
  "reads env setting v \<longleftrightarrow>
     (case setting of (name, fallback, minimum, maximum) \<Rightarrow> int minimum \<le> v \<and> v \<le> int maximum \<and>
        (case env name of None \<Rightarrow> v = fallback | Some s \<Rightarrow> stoll s = Inr (v, length s)))"

definition setting_ok :: "string \<times> int \<times> nat \<times> nat \<Rightarrow> bool" where
  "setting_ok setting = (case setting of (name, fallback, minimum, maximum) \<Rightarrow> int minimum \<le> fallback \<and> fallback \<le> int maximum)"

lemma integer_reads:
  assumes "integer env name fallback minimum maximum es = (v, es')" "setting_ok (name, fallback, minimum, maximum)"
  shows "(es' = es \<longrightarrow> reads env (name, fallback, minimum, maximum) v) \<and> (\<exists>more. es' = es @ more)"
  using assms by (auto simp: integer_def reads_def setting_ok_def split: option.splits sum.splits if_splits)

lemma readIntegers_reads:
  "readIntegers env ss es = (vs, es') \<Longrightarrow> list_all setting_ok ss \<Longrightarrow>
   (es' = es \<longrightarrow> list_all2 (reads env) ss vs) \<and> (\<exists>more. es' = es @ more)"
proof (induction ss arbitrary: es vs)
  case (Cons s ss)
  obtain name fallback minimum maximum where s: "s = (name, fallback, minimum, maximum)" by (cases s)
  obtain v es1 where i: "integer env name fallback minimum maximum es = (v, es1)" by (metis surj_pair)
  obtain vs' where r: "readIntegers env ss es1 = (vs', es')" "vs = v # vs'" using Cons.prems(1) i s by (auto split: prod.splits)
  have ok: "setting_ok s" "list_all setting_ok ss" using Cons.prems(2) by simp_all
  from integer_reads [OF i] ok(1) s have head: "(es1 = es \<longrightarrow> reads env s v) \<and> (\<exists>more. es1 = es @ more)" by simp
  from Cons.IH [OF r(1) ok(2)] have rest: "(es' = es1 \<longrightarrow> list_all2 (reads env) ss vs') \<and> (\<exists>more. es' = es1 @ more)" .
  show ?case using head rest r(2) by auto
qed simp

lemma settings_ok: "list_all setting_ok integerSettings"
  by (simp add: integerSettings_def setting_ok_def)

definition rangesOf :: "ServerConfig \<Rightarrow> int list" where
  "rangesOf cfg = [listen_port cfg, metrics_port cfg, io_threads cfg, logic_shards cfg, action_timeout_ms cfg,
     connection_idle_timeout_ms cfg, node_failure_grace_ms cfg, max_frame_bytes cfg, max_pending_send_bytes cfg,
     requests_per_second cfg, request_burst cfg, session_ttl_seconds cfg, mysql_port (mysql cfg), pool_size (mysql cfg),
     redis_port (redis cfg), redis_database (redis cfg)]"

lemma sixteen:
  "length vs = 16 \<Longrightarrow> vs = [vs ! 0, vs ! 1, vs ! 2, vs ! 3, vs ! 4, vs ! 5, vs ! 6, vs ! 7, vs ! 8, vs ! 9, vs ! 10, vs ! 11,
     vs ! 12, vs ! 13, vs ! 14, vs ! 15]"
  by (rule nth_equalityI) (auto simp: nth_Cons' numeral_eq_Suc less_Suc_eq)

text \<open>A configuration that loads is in range: every number lies between its documented bounds and is exactly
  what the variable says, read to its last character, or the default when it is not set; the node name, the
  endpoint, the metrics host and the database password are not empty; and a configuration is returned exactly
  when no error was reported.\<close>
theorem config_in_range:
  assumes "config_value (loadFromEnvironment env) = Some cfg"
  shows "errors (loadFromEnvironment env) = [] \<and> list_all2 (reads env) integerSettings (rangesOf cfg) \<and>
    config_node_id cfg \<noteq> [] \<and> public_endpoint cfg \<noteq> [] \<and> metrics_host cfg \<noteq> [] \<and> mysql_password (mysql cfg) \<noteq> [] \<and>
    (env ''POKER_ROLE'' = Some (roleToString (server_role cfg)) \<or> env ''POKER_ROLE'' = None \<and> server_role cfg = standalone)"
proof -
  obtain r es0 where r: "role env [] = (r, es0)" by (metis surj_pair)
  obtain vs es1 where vs: "readIntegers env integerSettings es0 = (vs, es1)" by (metis surj_pair)
  have es: "es1 @ missingText cfg = []" "cfg = buildConfig env r vs" "errors (loadFromEnvironment env) = []"
    using assms r vs by (auto simp: loadFromEnvironment_def Let_def split: if_splits)
  have reads: "list_all2 (reads env) integerSettings vs \<and> es0 = []"
    using readIntegers_reads [OF vs settings_ok] es(1) by auto
  then have "length vs = 16" using list_all2_lengthD by (fastforce simp: integerSettings_def)
  then have "rangesOf cfg = vs" using sixteen [of vs] by (simp add: es(2) rangesOf_def buildConfig_def)
  moreover have "env ''POKER_ROLE'' = Some (roleToString r) \<or> env ''POKER_ROLE'' = None \<and> r = standalone"
    using r reads by (auto simp: role_def environment_text_def Let_def split: if_splits option.splits)
  moreover have "server_role cfg = r" by (simp add: es(2) buildConfig_def)
  ultimately show ?thesis using reads es(1,3) by (auto simp: missingText_def split: if_splits)
qed

definition demoEnv :: environment where
  "demoEnv = [''POKER_MYSQL_PASSWORD'' \<mapsto> ''secret'', ''POKER_LISTEN_PORT'' \<mapsto> ''8080'', ''POKER_ROLE'' \<mapsto> ''lobby'']"

theorem config_in_range_witness:
  "\<exists>cfg. config_value (loadFromEnvironment demoEnv) = Some cfg \<and> listen_port cfg = 8080 \<and>
     list_all2 (reads demoEnv) integerSettings (rangesOf cfg)"
proof -
  have "stoll ''8080'' = Inr (8080, 4)" by code_simp
  then have ints: "readIntegers demoEnv integerSettings [] =
      ([8080, 9100, 4, 4, 20000, 45000, 15000, 1048576, 4194304, 100, 200, 86400, 3306, 8, 6379, 0], [])"
    by (simp add: integerSettings_def integer_def demoEnv_def)
  have "role demoEnv [] = (lobby, [])" by (simp add: role_def environment_text_def demoEnv_def)
  then have "map_option listen_port (config_value (loadFromEnvironment demoEnv)) = Some 8080"
    using ints by (simp add: loadFromEnvironment_def buildConfig_def missingText_def environment_text_def demoEnv_def)
  then obtain cfg where "config_value (loadFromEnvironment demoEnv) = Some cfg" "listen_port cfg = 8080" by auto
  then show ?thesis using config_in_range by blast
qed

end
