(* ===== verification/Metrics.thy ===== *)
theory Metrics
  imports Strings
begin

text \<open>
  \<open>src/src/poker/observability/metrics.cpp\<close>: the counters of a server. Every counter is a 64-bit word that wraps
  around, as \<open>std::atomic<std::uint64_t>\<close> does. An operation that writes several atomics is a sequence of single
  writes in the code; \<open>observeRequestLatency\<close> and \<open>connectionOpened\<close> are given here with all their writes done, and a reader
  that runs between them sees a part of them. The rendering prints two kinds of numbers as seconds, which divides by a million
  in floating point; the text that the stream prints for such a number is the parameter \<open>seconds\<close> of \<open>renderPrometheus\<close>.
\<close>

record MetricsRegistry =
  active_connections :: u64
  opened_connections :: u64
  requests :: u64
  responses :: u64
  invalid_frames :: u64
  rejected_requests :: u64
  accepted_actions :: u64
  rejected_actions :: u64
  storage_failures :: u64
  metric_tables :: u64
  latency_buckets :: "u64 list"
  latency_count :: u64
  latency_sum_us :: u64

definition latency_bounds_us :: "u64 list" where
  "latency_bounds_us = [1000, 5000, 10000, 25000, 50000, 100000, 250000, 500000, 1000000, 5000000]"

definition newMetrics :: MetricsRegistry where
  "newMetrics = \<lparr>active_connections = 0, opened_connections = 0, requests = 0, responses = 0, invalid_frames = 0,
     rejected_requests = 0, accepted_actions = 0, rejected_actions = 0, storage_failures = 0, metric_tables = 0,
     latency_buckets = replicate (length latency_bounds_us + 1) 0, latency_count = 0, latency_sum_us = 0\<rparr>"

definition connectionOpened :: "MetricsRegistry \<Rightarrow> MetricsRegistry" where
  "connectionOpened m = m\<lparr>active_connections := active_connections m + 1, opened_connections := opened_connections m + 1\<rparr>"

text \<open>The loop ends when the exchange succeeds or the counter is zero; the exchange is atomic.\<close>

definition connectionClosed :: "MetricsRegistry \<Rightarrow> MetricsRegistry" where
  "connectionClosed m =
     (if active_connections m > 0 then m\<lparr>active_connections := active_connections m - 1\<rparr> else m)"

definition requestReceived :: "MetricsRegistry \<Rightarrow> MetricsRegistry" where
  "requestReceived m = m\<lparr>requests := requests m + 1\<rparr>"

definition responseSent :: "MetricsRegistry \<Rightarrow> MetricsRegistry" where
  "responseSent m = m\<lparr>responses := responses m + 1\<rparr>"

definition invalidFrame :: "MetricsRegistry \<Rightarrow> MetricsRegistry" where
  "invalidFrame m = m\<lparr>invalid_frames := invalid_frames m + 1\<rparr>"

definition rejectedRequest :: "MetricsRegistry \<Rightarrow> MetricsRegistry" where
  "rejectedRequest m = m\<lparr>rejected_requests := rejected_requests m + 1\<rparr>"

definition actionAccepted :: "MetricsRegistry \<Rightarrow> MetricsRegistry" where
  "actionAccepted m = m\<lparr>accepted_actions := accepted_actions m + 1\<rparr>"

definition actionRejected :: "MetricsRegistry \<Rightarrow> MetricsRegistry" where
  "actionRejected m = m\<lparr>rejected_actions := rejected_actions m + 1\<rparr>"

definition storageFailure :: "MetricsRegistry \<Rightarrow> MetricsRegistry" where
  "storageFailure m = m\<lparr>storage_failures := storage_failures m + 1\<rparr>"

definition setTables :: "nat \<Rightarrow> MetricsRegistry \<Rightarrow> MetricsRegistry" where
  "setTables n m = m\<lparr>metric_tables := of_nat n\<rparr>"

text \<open>The \<open>while\<close> loop: the first bound that is not below the value.\<close>

fun bucketFrom :: "u64 \<Rightarrow> nat \<Rightarrow> u64 list \<Rightarrow> nat" where
  "bucketFrom v n [] = n"
| "bucketFrom v n (b # bs) = (if v > b then bucketFrom v (Suc n) bs else n)"

definition latencyValue :: "int \<Rightarrow> u64" where
  "latencyValue latency = (if latency < 0 then 0 else word_of_int latency)"

definition observeRequestLatency :: "int \<Rightarrow> MetricsRegistry \<Rightarrow> MetricsRegistry" where
  "observeRequestLatency latency m =
     (let v = latencyValue latency;
          bucket = bucketFrom v 0 latency_bounds_us
      in m\<lparr>latency_buckets := (latency_buckets m)[bucket := latency_buckets m ! bucket + 1],
           latency_count := latency_count m + 1,
           latency_sum_us := latency_sum_us m + v\<rparr>)"

definition activeConnections :: "MetricsRegistry \<Rightarrow> u64" where
  "activeConnections m = active_connections m"

text \<open>The running sums of \<open>renderPrometheus\<close>, one per bound, and the total of the last line.\<close>

fun cumulativeFrom :: "u64 \<Rightarrow> u64 list \<Rightarrow> u64 list" where
  "cumulativeFrom c [] = []"
| "cumulativeFrom c (b # bs) = (c + b) # cumulativeFrom (c + b) bs"

definition typeLine :: "string \<Rightarrow> string \<Rightarrow> string" where
  "typeLine name metric_type = ''# TYPE '' @ name @ '' '' @ metric_type @ [CHR 0x0A]"

definition valueLine :: "string \<Rightarrow> string \<Rightarrow> string" where
  "valueLine name value = name @ '' '' @ value @ [CHR 0x0A]"

definition counterText :: "u64 \<Rightarrow> string" where
  "counterText n = to_string (unat n)"

definition bucketLine :: "string \<Rightarrow> u64 \<Rightarrow> string" where
  "bucketLine bound n = valueLine (''poker_request_latency_seconds_bucket{le='' @ [CHR 0x22] @ bound @ [CHR 0x22] @ ''}'') (counterText n)"

definition renderPrometheus :: "(u64 \<Rightarrow> string) \<Rightarrow> MetricsRegistry \<Rightarrow> string" where
  "renderPrometheus seconds m =
     (let single = (\<lambda>name kind n. typeLine name kind @ valueLine name (counterText n));
          sums = cumulativeFrom 0 (take (length latency_bounds_us) (latency_buckets m));
          total = last sums + last (latency_buckets m)
      in single ''poker_connections'' ''gauge'' (active_connections m)
       @ single ''poker_connections_opened_total'' ''counter'' (opened_connections m)
       @ single ''poker_requests_total'' ''counter'' (requests m)
       @ single ''poker_responses_total'' ''counter'' (responses m)
       @ single ''poker_invalid_frames_total'' ''counter'' (invalid_frames m)
       @ single ''poker_rejected_requests_total'' ''counter'' (rejected_requests m)
       @ typeLine ''poker_actions_total'' ''counter''
       @ valueLine (''poker_actions_total{result='' @ [CHR 0x22] @ ''accepted'' @ [CHR 0x22] @ ''}'') (counterText (accepted_actions m))
       @ valueLine (''poker_actions_total{result='' @ [CHR 0x22] @ ''rejected'' @ [CHR 0x22] @ ''}'') (counterText (rejected_actions m))
       @ single ''poker_storage_failures_total'' ''counter'' (storage_failures m)
       @ single ''poker_tables'' ''gauge'' (metric_tables m)
       @ typeLine ''poker_request_latency_seconds'' ''histogram''
       @ concat (map2 (\<lambda>bound n. bucketLine (seconds bound) n) latency_bounds_us sums)
       @ bucketLine ''+Inf'' total
       @ valueLine ''poker_request_latency_seconds_count'' (counterText (latency_count m))
       @ valueLine ''poker_request_latency_seconds_sum'' (seconds (latency_sum_us m)))"

section \<open>The histogram\<close>

lemma bucketFrom_ge: "n \<le> bucketFrom v n bs"
proof (induction bs arbitrary: n)
  case (Cons b bs)
  have "Suc n \<le> bucketFrom v (Suc n) bs" by (rule Cons.IH)
  then show ?case by simp
qed simp

lemma bucketFrom_le: "bucketFrom v n bs \<le> n + length bs"
proof (induction bs arbitrary: n)
  case (Cons b bs)
  then show ?case using Cons.IH [of "Suc n"] by simp
qed simp

lemma bucketFrom_bound:
  "sorted bs \<Longrightarrow> i < length bs \<Longrightarrow> bucketFrom v n bs \<le> n + i \<longleftrightarrow> v \<le> bs ! i"
proof (induction bs arbitrary: n i)
  case (Cons b bs)
  show ?case
  proof (cases "v > b")
    case True
    show ?thesis
    proof (cases i)
      case 0
      then show ?thesis using True bucketFrom_ge [of "Suc n" v bs] by simp
    next
      case (Suc j)
      then show ?thesis using True Cons.IH [of j "Suc n"] Cons.prems by simp
    qed
  next
    case False
    then have "v \<le> (b # bs) ! i" using Cons.prems by (cases i) (auto simp: not_less dest: order.trans)
    then show ?thesis using False by simp
  qed
qed simp

lemma cumulativeFrom_nth: "i < length bs \<Longrightarrow> cumulativeFrom c bs ! i = c + sum_list (take (Suc i) bs)"
proof (induction bs arbitrary: c i)
  case (Cons b bs)
  then show ?case by (cases i) (simp_all add: add.assoc)
qed simp

lemma sum_take_update:
  "b < length bs \<Longrightarrow> sum_list (take k (bs[b := bs ! b + 1])) = sum_list (take k bs) + (if b < k then 1 else (0 :: u64))"
proof (induction bs arbitrary: b k)
  case (Cons x bs)
  then show ?case by (cases b; cases k) (auto simp: algebra_simps)
qed simp

definition bucketOf :: "int \<Rightarrow> nat" where
  "bucketOf latency = bucketFrom (latencyValue latency) 0 latency_bounds_us"

fun observeAll :: "int list \<Rightarrow> MetricsRegistry \<Rightarrow> MetricsRegistry" where
  "observeAll [] m = m"
| "observeAll (l # ls) m = observeAll ls (observeRequestLatency l m)"

lemma observe_simps:
  "latency_buckets (observeRequestLatency l m) = (latency_buckets m)[bucketOf l := latency_buckets m ! bucketOf l + 1]"
  "latency_count (observeRequestLatency l m) = latency_count m + 1"
  by (simp_all add: observeRequestLatency_def bucketOf_def latencyValue_def Let_def)

lemma observeAll_sums:
  "length (latency_buckets m) = 11 \<Longrightarrow>
   length (latency_buckets (observeAll ls m)) = 11 \<and>
   latency_count (observeAll ls m) = latency_count m + of_nat (length ls) \<and>
   sum_list (take k (latency_buckets (observeAll ls m))) =
     sum_list (take k (latency_buckets m)) + of_nat (length (filter (\<lambda>l. bucketOf l < k) ls))"
proof (induction ls arbitrary: m)
  case (Cons l ls)
  have "bucketOf l \<le> length latency_bounds_us" using bucketFrom_le [of _ 0] by (simp add: bucketOf_def)
  then have "bucketOf l < length (latency_buckets m)" using Cons.prems by (simp add: latency_bounds_us_def)
  then show ?case using Cons.IH [of "observeRequestLatency l m"] Cons.prems
    by (simp add: observe_simps sum_take_update add.assoc add.commute [of "1 :: u64"])
qed simp

text \<open>The histogram counts right: after any sequence of observations the running sum that is rendered for a bound is
  the number of requests that took at most that long, negative durations counting as zero, and the sum over all
  buckets, rendered as \<open>+Inf\<close>, is the number of observations, which is also what is rendered as the count. All
  numbers are modulo two to the power of 64.\<close>
theorem histogram_correct:
  assumes "i < length latency_bounds_us"
  shows "cumulativeFrom 0 (latency_buckets (observeAll ls newMetrics)) ! i =
      of_nat (length (filter (\<lambda>l. latencyValue l \<le> latency_bounds_us ! i) ls)) \<and>
    cumulativeFrom 0 (latency_buckets (observeAll ls newMetrics)) ! length latency_bounds_us = of_nat (length ls) \<and>
    latency_count (observeAll ls newMetrics) = of_nat (length ls)"
proof -
  let ?m = "observeAll ls newMetrics"
  have ten: "length latency_bounds_us = 10" by (simp add: latency_bounds_us_def)
  have zero: "sum_list (take k (latency_buckets newMetrics)) = 0" for k
    using sum_list_replicate [of "min k 11" "0 :: u64"] by (simp add: newMetrics_def ten take_Cons')
  have eleven: "length (latency_buckets newMetrics) = 11" by (simp add: newMetrics_def ten)
  have sums: "length (latency_buckets ?m) = 11" "latency_count ?m = of_nat (length ls)"
    "sum_list (take k (latency_buckets ?m)) = of_nat (length (filter (\<lambda>l. bucketOf l < k) ls))" for k
    using observeAll_sums [OF eleven, of ls k] zero by (simp_all add: newMetrics_def)
  have "sorted latency_bounds_us" by (simp add: latency_bounds_us_def)
  then have "bucketOf l < Suc i \<longleftrightarrow> latencyValue l \<le> latency_bounds_us ! i" for l
    using bucketFrom_bound [OF _ assms, of "latencyValue l" 0] by (simp add: bucketOf_def less_Suc_eq_le)
  then have "cumulativeFrom 0 (latency_buckets ?m) ! i = of_nat (length (filter (\<lambda>l. latencyValue l \<le> latency_bounds_us ! i) ls))"
    using cumulativeFrom_nth [of i "latency_buckets ?m" 0] sums assms ten by simp
  moreover have "bucketOf l < Suc 10" for l
    using bucketFrom_le [of "latencyValue l" 0 latency_bounds_us] unfolding bucketOf_def ten by linarith
  then have "cumulativeFrom 0 (latency_buckets ?m) ! 10 = of_nat (length ls)"
    using cumulativeFrom_nth [of 10 "latency_buckets ?m" 0] sums(1) sums(3) [of 11] by simp
  ultimately show ?thesis using sums(2) ten by simp
qed

theorem histogram_correct_witness:
  "cumulativeFrom 0 (latency_buckets (observeAll [-3, 1000, 1001, 9000000] newMetrics)) ! 0 = 2"
  using histogram_correct [of 0 "[-3, 1000, 1001, 9000000]"] by (simp add: latency_bounds_us_def latencyValue_def)

end
