(* ===== verification/Protocol_Messages.thy ===== *)
theory Protocol_Messages
  imports Hand_Records Account_Store
begin

text \<open>
  The messages of \<open>src/protocol/poker.proto\<close> and the functions of \<open>src/apps/server/protocol_service.cpp\<close> that build
  them: the views of a table (\<open>writeSnapshot\<close>, \<open>snapshotEnvelope\<close>, \<open>pushSnapshotEnvelope\<close>), the three functions
  \<open>map\<close> between error codes and action types, and \<open>validConfig\<close>.

  A message is a record, the \<open>oneof\<close> of the envelope a datatype whose constructor \<open>NoBody\<close> is the unset case, so that
  \<open>has_x()\<close> is a pattern match. \<open>uint64\<close> and \<open>uint32\<close> are words, \<open>int64\<close> is \<open>int\<close>. An enumeration that arrives
  from the network may hold a number without a name; \<open>OtherAction\<close> and \<open>OtherMessage\<close> are those numbers.
\<close>

section \<open>Enumerations\<close>

datatype MessageType =
    MESSAGE_TYPE_UNSPECIFIED | REGISTER_REQUEST | REGISTER_RESPONSE | LOGIN_REQUEST | LOGIN_RESPONSE | LOGOUT_REQUEST
  | REFRESH_SESSION_REQUEST | HEARTBEAT | AUTHENTICATE_SESSION_REQUEST | AUTHENTICATE_SESSION_RESPONSE
  | REFRESH_SESSION_RESPONSE | CREATE_TABLE_REQUEST | CREATE_TABLE_RESPONSE | LIST_TABLES_REQUEST | LIST_TABLES_RESPONSE
  | JOIN_TABLE_REQUEST | JOIN_TABLE_RESPONSE | LEAVE_TABLE_REQUEST | SIT_DOWN_REQUEST | READY_REQUEST | ACTION_REQUEST
  | SNAPSHOT_REQUEST | RECONNECT_REQUEST | TABLE_SNAPSHOT | TABLE_EVENT | COMMAND_ACK | ERROR_RESPONSE
  | OtherMessage int

datatype ErrorCode =
    ERROR_CODE_OK | INVALID_MESSAGE | UNAUTHENTICATED | FORBIDDEN | NOT_FOUND | CONFLICT | RATE_LIMITED | OUT_OF_SEQUENCE
  | INTERNAL_ERROR | SERVICE_UNAVAILABLE | TABLE_RULE_VIOLATION

datatype WireAction = ACTION_TYPE_UNSPECIFIED | FOLD | CHECK | CALL | BET | RAISE | ALL_IN | OtherAction int

datatype WireStreet = STREET_UNSPECIFIED | WAITING | PREFLOP | FLOP | TURN | RIVER | SHOWDOWN | SETTLED

section \<open>Messages\<close>

record WireCard =
  wire_rank :: u32
  wire_suit :: u32

record PlayerState =
  state_user_id :: u64
  state_seat :: u32
  state_stack :: int
  state_street_commitment :: int
  state_hand_commitment :: int
  state_status :: string
  state_ready :: bool
  state_connected :: bool
  visible_hole_cards :: "WireCard list"

record WireSnapshot =
  wire_table_id :: u64
  wire_hand_id :: u64
  wire_server_sequence :: u64
  wire_street :: WireStreet
  dealer_user_id :: u64
  acting_user_id :: u64
  wire_current_bet :: int
  wire_minimum_raise :: int
  wire_pot :: int
  wire_board :: "WireCard list"
  wire_players :: "PlayerState list"

record TableSummary =
  summary_table_id :: u64
  summary_name :: string
  seated_players :: u32
  summary_max_players :: u32
  summary_small_blind :: int
  summary_big_blind :: int
  game_node_id :: string

record CreateTableRequest =
  create_name :: string
  create_max_players :: u32
  create_small_blind :: int
  create_big_blind :: int
  create_min_buy_in :: int
  create_max_buy_in :: int

record SitDownRequest =
  sit_table_id :: u64
  sit_seat :: u32
  sit_buy_in :: int
  sit_join_ticket :: string

record ActionRequest =
  act_table_id :: u64
  act_hand_id :: u64
  act_action :: WireAction
  target_street_commitment :: int

record TableEvent =
  event_table_id :: u64
  event_hand_id :: u64
  event_server_sequence :: u64
  event_type :: string
  event_payload :: string

datatype Body =
    NoBody
  | RegisterRequest (register_username: string) (register_password: string)
  | RegisterResponse u64
  | LoginRequest string string
  | LoginResponse u64 string int int
  | LogoutRequest
  | RefreshSessionRequest string
  | Heartbeat int int
  | AuthenticateSessionRequest string
  | AuthenticateSessionResponse u64 string int int
  | RefreshSessionResponse string int
  | CreateTableBody CreateTableRequest
  | CreateTableResponse TableSummary string string
  | ListTablesRequest u32 string
  | ListTablesResponse "TableSummary list" string
  | JoinTableRequest u64
  | JoinTableResponse string string
  | LeaveTableRequest u64
  | SitDownBody SitDownRequest
  | ReadyRequest u64 bool
  | ActionBody ActionRequest
  | SnapshotRequest u64 u64
  | ReconnectRequest u64 string u64
  | SnapshotBody WireSnapshot
  | EventBody TableEvent
  | CommandAck bool string
  | ErrorResponse ErrorCode string u64

record Envelope =
  protocol_version :: u32
  request_id :: u64
  client_sequence :: u64
  message_type :: MessageType
  session_token :: string
  env_table_id :: u64
  env_hand_id :: u64
  env_server_sequence :: u64
  body :: Body

text \<open>A message with every field at its default.\<close>

definition newEnvelope :: Envelope where
  "newEnvelope = \<lparr>protocol_version = 0, request_id = 0, client_sequence = 0, message_type = MESSAGE_TYPE_UNSPECIFIED,
     session_token = [], env_table_id = 0, env_hand_id = 0, env_server_sequence = 0, body = NoBody\<rparr>"

section \<open>The view of a table\<close>

fun playerStatus :: "PlayerStatus \<Rightarrow> string" where
  "playerStatus status_waiting = ''waiting''"
| "playerStatus active = ''active''"
| "playerStatus folded = ''folded''"
| "playerStatus status_all_in = ''all_in''"
| "playerStatus disconnected = ''disconnected''"

fun wireStreet :: "Street \<Rightarrow> WireStreet" where
  "wireStreet street_waiting = WAITING"
| "wireStreet preflop = PREFLOP"
| "wireStreet flop = FLOP"
| "wireStreet turn = TURN"
| "wireStreet river = RIVER"
| "wireStreet showdown = SHOWDOWN"
| "wireStreet settled = SETTLED"

definition writeCard :: "Card \<Rightarrow> WireCard" where
  "writeCard c = \<lparr>wire_rank = of_nat (rankValue (rank c)), wire_suit = of_nat (suitValue (suit c))\<rparr>"

definition writePlayer :: "PlayerView \<Rightarrow> PlayerState" where
  "writePlayer v =
     \<lparr>state_user_id = view_id v, state_seat = of_nat (view_seat v), state_stack = view_stack v,
      state_street_commitment = view_street_commitment v, state_hand_commitment = view_hand_commitment v,
      state_status = playerStatus (view_status v), state_ready = view_ready v, state_connected = view_connected v,
      visible_hole_cards = map writeCard (view_hole_cards v)\<rparr>"

definition writeSnapshot :: "u64 \<Rightarrow> TableSnapshot \<Rightarrow> WireSnapshot" where
  "writeSnapshot table_id snap =
     \<lparr>wire_table_id = table_id, wire_hand_id = snap_hand_id snap, wire_server_sequence = snap_server_sequence snap,
      wire_street = wireStreet (snap_street snap),
      dealer_user_id = (case snap_dealer snap of None \<Rightarrow> 0 | Some d \<Rightarrow> d),
      acting_user_id = (case snap_acting_player snap of None \<Rightarrow> 0 | Some a \<Rightarrow> a),
      wire_current_bet = snap_current_bet snap, wire_minimum_raise = snap_minimum_raise snap, wire_pot = snap_pot snap,
      wire_board = map writeCard (snap_board snap), wire_players = map writePlayer (snap_players snap)\<rparr>"

text \<open>The nested conditional of \<open>snapshotEnvelope\<close>. The body of a request is one of the five or none of them.\<close>

definition requestTable :: "Envelope \<Rightarrow> u64" where
  "requestTable request =
     (if env_table_id request \<noteq> 0 then env_table_id request
      else (case body request of
              ActionBody b \<Rightarrow> act_table_id b
            | ReadyRequest k r \<Rightarrow> k
            | SitDownBody b \<Rightarrow> sit_table_id b
            | SnapshotRequest k n \<Rightarrow> k
            | ReconnectRequest k token n \<Rightarrow> k
            | _ \<Rightarrow> 0))"

definition snapshotEnvelope :: "Envelope \<Rightarrow> TableSnapshot \<Rightarrow> Envelope" where
  "snapshotEnvelope request snap =
     newEnvelope\<lparr>protocol_version := 1, request_id := request_id request, message_type := TABLE_SNAPSHOT,
       env_hand_id := snap_hand_id snap, env_server_sequence := snap_server_sequence snap,
       env_table_id := requestTable request, body := SnapshotBody (writeSnapshot (requestTable request) snap)\<rparr>"

definition pushSnapshotEnvelope :: "u64 \<Rightarrow> TableSnapshot \<Rightarrow> Envelope" where
  "pushSnapshotEnvelope table_id snap =
     newEnvelope\<lparr>protocol_version := 1, message_type := TABLE_SNAPSHOT, env_table_id := table_id,
       env_hand_id := snap_hand_id snap, env_server_sequence := snap_server_sequence snap,
       body := SnapshotBody (writeSnapshot table_id snap)\<rparr>"

section \<open>Codes\<close>

fun mapTableError :: "TableError \<Rightarrow> ErrorCode" where
  "mapTableError ok = ERROR_CODE_OK"
| "mapTableError player_not_found = NOT_FOUND"
| "mapTableError seat_occupied = CONFLICT"
| "mapTableError player_already_seated = CONFLICT"
| "mapTableError hand_in_progress = CONFLICT"
| "mapTableError service_unavailable = SERVICE_UNAVAILABLE"
| "mapTableError _ = TABLE_RULE_VIOLATION"

fun mapStorageError :: "StorageError \<Rightarrow> ErrorCode" where
  "mapStorageError storage_ok = ERROR_CODE_OK"
| "mapStorageError not_found = NOT_FOUND"
| "mapStorageError storage_duplicate = CONFLICT"
| "mapStorageError conflict = CONFLICT"
| "mapStorageError insufficient_funds = TABLE_RULE_VIOLATION"
| "mapStorageError invalid_data = INVALID_MESSAGE"
| "mapStorageError unavailable = SERVICE_UNAVAILABLE"

fun mapAction :: "WireAction \<Rightarrow> ActionType" where
  "mapAction FOLD = fold_action"
| "mapAction CHECK = check"
| "mapAction CALL = call"
| "mapAction BET = bet"
| "mapAction RAISE = raise"
| "mapAction ALL_IN = all_in_action"
| "mapAction _ = fold_action"

definition validConfig :: "TableConfig \<Rightarrow> bool" where
  "validConfig cfg \<longleftrightarrow> min_players cfg \<ge> 2 \<and> max_players cfg \<ge> min_players cfg \<and> max_players cfg \<le> 6 \<and> small_blind cfg > 0
     \<and> big_blind cfg \<ge> small_blind cfg * 2 \<and> min_buy_in cfg > 0 \<and> max_buy_in cfg \<ge> min_buy_in cfg"

section \<open>What the messages say\<close>

lemma mapTableError_ok [simp]: "mapTableError e = ERROR_CODE_OK \<longleftrightarrow> e = ok"
  by (cases e) simp_all

lemma mapStorageError_ok [simp]: "mapStorageError e = ERROR_CODE_OK \<longleftrightarrow> e = storage_ok"
  by (cases e) simp_all

lemma validConfig_validateConfig: "validConfig cfg \<longleftrightarrow> validateConfig cfg = ok"
  by (auto simp: validConfig_def validateConfig_def)

lemma writeCard_inject [simp]: "writeCard c = writeCard c' \<longleftrightarrow> c = c'"
proof
  assume eq: "writeCard c = writeCard c'"
  have small: "x < 2 ^ 32 \<Longrightarrow> unat (of_nat x :: u32) = x" for x by (simp add: unat_of_nat)
  have b: "rankValue r < 2 ^ 32" "suitValue s < 2 ^ 32" for r s
    using rankValue_bounds(2) [of r] suitValue_le [of s] by simp_all
  have "rankValue (rank c) = rankValue (rank c')" "suitValue (suit c) = suitValue (suit c')"
    using eq small [OF b(1)] small [OF b(2)] by (metis WireCard.ext_inject writeCard_def)+
  then show "c = c'" by simp
qed simp

end
