(* ===== verification/Protocol_Service.thy ===== *)
theory Protocol_Service
  imports Protocol_Messages Room_Manager Failure_Reaper Auth_Service Idempotency Server_Config Metrics
begin

text \<open>
  \<open>src/apps/server/protocol_service.hpp\<close> and \<open>protocol_service.cpp\<close>: the class \<open>ProtocolService\<close>, which answers the
  requests of the clients with the rooms, the stores and the registry.

  The code is a chain of closures: a handler posts a closure to the storage executor, to a room or to the timer
  queue, and the closure goes on with the request when it is run. Here a closure is a value, of \<open>StorageTask\<close>,
  \<open>RoomCallback\<close> or \<open>Timer\<close>, that holds what the closure captures, and its body is a function that is defined before
  the code that posts it: \<open>runStorageTask\<close>, \<open>runCallback\<close> and \<open>runTimer\<close> dispatch to these. A closure runs as one step. When a
  room refuses a call at once, its callback runs inside the call, as in the code (\<open>callRoom\<close>).

  The state is one record. \<open>Setup\<close> holds what the constructor receives and does not change: the configuration, the
  services behind the references (authentication, registry, router, game store, clock) as functions over a common
  state \<open>'w\<close>, the serialization of the protocol library, and whether \<open>push_\<close> and \<open>schedule_\<close> are set. Connections and
  sessions are numbers. What is sent is appended to \<open>outbox\<close>.

  A \<open>TableOperation\<close> is held by shared pointers; its destructor calls \<open>finish\<close>. A pointer is an index into
  \<open>operations\<close>, and \<open>finish\<close> stands at the end of every closure that does not hand the pointer on.
\<close>

section \<open>State\<close>

record 'w Services =
  now_unix_ms :: "'w \<Rightarrow> int \<times> 'w"
  register_user :: "string \<Rightarrow> string \<Rightarrow> 'w \<Rightarrow> UserRecord AuthResult \<times> 'w"
  login_user :: "string \<Rightarrow> string \<Rightarrow> int \<Rightarrow> 'w \<Rightarrow> (AuthenticatedSession AuthResult \<times> 'w) result"
  authenticate_token :: "string \<Rightarrow> int \<Rightarrow> 'w \<Rightarrow> AuthenticatedSession AuthResult"
  refresh_token :: "string \<Rightarrow> int \<Rightarrow> 'w \<Rightarrow> AuthenticatedSession AuthResult \<times> 'w"
  logout_token :: "string \<Rightarrow> 'w \<Rightarrow> AuthError \<times> 'w"
  hash_ticket :: "string \<Rightarrow> string"
  allocate_id :: "'w \<Rightarrow> u64 option \<times> 'w"
  consume_ticket :: "string \<Rightarrow> 'w \<Rightarrow> JoinTicket option \<times> 'w"
  assign_new_table :: "u64 \<Rightarrow> UserId \<Rightarrow> 'w \<Rightarrow> RouteAssignment option \<times> 'w"
  route_existing_table :: "u64 \<Rightarrow> UserId \<Rightarrow> string \<Rightarrow> 'w \<Rightarrow> RouteAssignment option \<times> 'w"
  game_store :: "'w GameStore"

record 'w Setup =
  server_config :: ServerConfig
  services :: "'w Services"
  serialize :: "Envelope \<Rightarrow> u8 list"
  parse :: "u8 list \<Rightarrow> Envelope option"
  push_set :: bool
  schedule_set :: bool

type_synonym Send = nat
type_synonym SessionRef = nat
type_synonym OperationRef = nat

record ConnectionSession =
  session_user_id :: "UserId option"
  session_username :: string
  session_raw_token :: string
  session_expires_at :: int
  session_table_id :: "u64 option"
  authentication_in_progress :: bool

definition newSession :: ConnectionSession where
  "newSession = \<lparr>session_user_id = None, session_username = [], session_raw_token = [], session_expires_at = 0,
     session_table_id = None, authentication_in_progress = False\<rparr>"

record TableOperation =
  owned :: bool
  operation_table :: u64

datatype Output =
    Sent Send Envelope
  | Pushed UserId Envelope

datatype StorageTask =
    RegisterTask Envelope string string Send
  | LoginTask Envelope string string SessionRef Send
  | AuthenticateTask Envelope string SessionRef Send
  | ReconnectTask Envelope string SessionRef Send
  | LogoutTask string "u64 option" UserId Envelope SessionRef Send
  | RefreshTask string UserId Envelope SessionRef Send
  | CreateTableTask UserId CreateTableRequest TableConfig Envelope Send
  | ListTablesTask UserId nat Envelope Send
  | JoinTableTask UserId u64 Envelope Send
  | SitDownTask UserId SitDownRequest Envelope SessionRef Send OperationRef
  | RollbackTask u64 UserId string OperationRef
  | BeginHandTask UserId u64 Envelope Send HandStartRecord OperationRef
  | StoreActionTask UserId u64 Envelope Send TableSnapshot TableSnapshot HandActionRecord "HandSettlementRecord option" OperationRef
  | CashOutTask u64 UserId string Envelope SessionRef Send OperationRef
  | StoreTimeoutTask u64 HandActionRecord "HandSettlementRecord option" TableSnapshot TableSnapshot OperationRef
  | RefundTask u64 u64 u64 "UserId list" nat

datatype RoomCallback =
    BroadcastCallback u64 UserId
  | ViewsCallback u64
  | DisconnectCallback u64
  | SnapshotCallback UserId Envelope Send
  | CurrentCallback u64 UserId Envelope Send bool
  | ReconnectCallback UserId u64 Envelope Send
  | SeatedCallback UserId SitDownRequest Envelope SessionRef Send OperationRef
  | SeatedViewCallback UserId SitDownRequest Envelope Send OperationRef
  | ReadyCallback UserId u64 bool Envelope Send OperationRef
  | StartedCallback UserId u64 Envelope Send OperationRef
  | StartAuditCallback UserId u64 Envelope Send OperationRef
  | ActedCallback UserId ActionRequest Envelope Send OperationRef
  | LeaveCallback u64 UserId Envelope SessionRef Send OperationRef
  | RemovedCallback u64 UserId Envelope SessionRef Send OperationRef
  | TimeoutAuditCallback u64 PlayerId u64 ActionType
  | TimeoutActedCallback u64 PlayerId u64 ActionType OperationRef

datatype Timer =
    RefundTimer u64 u64 u64 "UserId list" nat
  | ActionTimer u64 PlayerId u64 ActionType

record ('w, 'r) Service =
  world :: 'w
  room_manager :: "'r RoomManager"
  storage_executor :: "StorageTask BlockingExecutor"
  idempotency :: IdempotencyCache
  metrics :: MetricsRegistry
  sessions :: "SessionRef \<Rightarrow> ConnectionSession"
  operations :: "TableOperation list"
  active_table_operations :: "u64 set"
  latest_timeout_sequences :: "(u64, u64) assoc_map"
  callbacks :: "(Callback, RoomCallback) assoc_map"
  next_callback :: Callback
  timers :: "(int \<times> Timer) list"
  outbox :: "Output list"

definition newService :: "'w \<Rightarrow> 'r RoomManager \<Rightarrow> StorageTask BlockingExecutor \<Rightarrow> IdempotencyCache \<Rightarrow> ('w, 'r) Service" where
  "newService w mgr pool cache =
     \<lparr>world = w, room_manager = mgr, storage_executor = pool, idempotency = cache, metrics = newMetrics,
      sessions = (\<lambda>_. newSession), operations = [], active_table_operations = {}, latest_timeout_sequences = [],
      callbacks = [], next_callback = 0, timers = [], outbox = []\<rparr>"

section \<open>Primitives\<close>

text \<open>A call of a service behind a reference.\<close>

definition onWorld :: "('w \<Rightarrow> 'a \<times> 'w) \<Rightarrow> ('w, 'r) Service \<Rightarrow> 'a \<times> ('w, 'r) Service" where
  "onWorld f s = (case f (world s) of (x, w) \<Rightarrow> (x, s\<lparr>world := w\<rparr>))"

definition nowUnixMs :: "'w Setup \<Rightarrow> ('w, 'r) Service \<Rightarrow> int \<times> ('w, 'r) Service" where
  "nowUnixMs p s = onWorld (now_unix_ms (services p)) s"

definition meter :: "(MetricsRegistry \<Rightarrow> MetricsRegistry) \<Rightarrow> ('w, 'r) Service \<Rightarrow> ('w, 'r) Service" where
  "meter f s = s\<lparr>metrics := f (metrics s)\<rparr>"

definition sendTo :: "Send \<Rightarrow> Envelope \<Rightarrow> ('w, 'r) Service \<Rightarrow> ('w, 'r) Service" where
  "sendTo send resp s = s\<lparr>outbox := outbox s @ [Sent send resp]\<rparr>"

definition pushTo :: "UserId \<Rightarrow> Envelope \<Rightarrow> ('w, 'r) Service \<Rightarrow> ('w, 'r) Service" where
  "pushTo user_id envelope s = s\<lparr>outbox := outbox s @ [Pushed user_id envelope]\<rparr>"

definition setSession :: "SessionRef \<Rightarrow> ConnectionSession \<Rightarrow> ('w, 'r) Service \<Rightarrow> ('w, 'r) Service" where
  "setSession ref x s = s\<lparr>sessions := (sessions s)(ref := x)\<rparr>"

definition postStorage :: "StorageTask \<Rightarrow> ('w, 'r) Service \<Rightarrow> bool \<times> ('w, 'r) Service" where
  "postStorage task s = (case poolPost (Some task) (storage_executor s) of (queued, b) \<Rightarrow> (queued, s\<lparr>storage_executor := b\<rparr>))"

definition schedule :: "int \<Rightarrow> Timer \<Rightarrow> ('w, 'r) Service \<Rightarrow> ('w, 'r) Service" where
  "schedule delay timer s = s\<lparr>timers := timers s @ [(delay, timer)]\<rparr>"

definition onRooms :: "('r Rooms \<Rightarrow> 'a \<times> 'r Rooms) \<Rightarrow> ('w, 'r) Service \<Rightarrow> 'a \<times> ('w, 'r) Service" where
  "onRooms f s = (case room_manager s of (e, w) \<Rightarrow> case f w of (x, w') \<Rightarrow> (x, s\<lparr>room_manager := (e, w')\<rparr>))"

text \<open>The arguments a callback receives.\<close>

fun replyError :: "RoomReply \<Rightarrow> TableError" where
  "replyError (ErrorReply e) = e"
| "replyError (SnapshotReply e x) = e"
| "replyError (ActionReply r x y) = res_error r"

fun replySnapshot :: "RoomReply \<Rightarrow> TableSnapshot" where
  "replySnapshot (ErrorReply e) = emptySnapshot"
| "replySnapshot (SnapshotReply e x) = x"
| "replySnapshot (ActionReply r x y) = x"

fun replyAudit :: "RoomReply \<Rightarrow> TableSnapshot" where
  "replyAudit (ActionReply r x y) = y"
| "replyAudit _ = emptySnapshot"

fun replyResult :: "RoomReply \<Rightarrow> ActionResult" where
  "replyResult (ActionReply r x y) = r"
| "replyResult r = refusal (replyError r) [] 0"

text \<open>A call of a room with a callback. An accepted call keeps the callback for the room's worker; a refused one
  has run it, with the reply the room manager gives, before it returns.\<close>

definition callRoom :: "(Callback option \<Rightarrow> 'r RoomManager \<Rightarrow> bool \<times> 'r RoomManager) \<Rightarrow> RoomCallback
    \<Rightarrow> (RoomReply \<Rightarrow> ('w, 'r) Service \<Rightarrow> ('w, 'r) Service) \<Rightarrow> ('w, 'r) Service \<Rightarrow> ('w, 'r) Service" where
  "callRoom method callback continue s =
     (let n = next_callback s in
      case method (Some n) (room_manager s) of
        (True, mgr) \<Rightarrow> s\<lparr>room_manager := mgr, callbacks := put n callback (callbacks s), next_callback := Suc n\<rparr>
      | (False, e, w) \<Rightarrow>
          (case replies w of
             [] \<Rightarrow> s\<lparr>room_manager := (e, w), next_callback := Suc n\<rparr>
           | r # rs \<Rightarrow> continue (snd r) (s\<lparr>room_manager := (e, w\<lparr>replies := rs\<rparr>), next_callback := Suc n\<rparr>)))"

section \<open>Table operations\<close>

definition beginTableOperation :: "u64 \<Rightarrow> ('w, 'r) Service \<Rightarrow> OperationRef option \<times> ('w, 'r) Service" where
  "beginTableOperation table_id s =
     (if table_id = 0 then (None, s)
      else if table_id \<in> active_table_operations s then (None, s)
      else (Some (length (operations s)),
            s\<lparr>active_table_operations := insert table_id (active_table_operations s),
              operations := operations s @ [\<lparr>owned = True, operation_table = table_id\<rparr>]\<rparr>))"

definition finishTableOperation :: "u64 \<Rightarrow> ('w, 'r) Service \<Rightarrow> ('w, 'r) Service" where
  "finishTableOperation table_id s = s\<lparr>active_table_operations := active_table_operations s - {table_id}\<rparr>"

definition finish :: "OperationRef \<Rightarrow> ('w, 'r) Service \<Rightarrow> ('w, 'r) Service" where
  "finish op s =
     (if owned (operations s ! op)
      then finishTableOperation (operation_table (operations s ! op))
             (s\<lparr>operations := (operations s)[op := (operations s ! op)\<lparr>owned := False\<rparr>]\<rparr>)
      else s)"

section \<open>Answers\<close>

definition reply :: "'w Setup \<Rightarrow> UserId \<Rightarrow> Envelope \<Rightarrow> Envelope \<Rightarrow> Send \<Rightarrow> ('w, 'r) Service \<Rightarrow> ('w, 'r) Service" where
  "reply p user_id request resp send s =
     (let resp = resp\<lparr>protocol_version := 1, request_id := request_id request\<rparr>
      in sendTo send resp
           (s\<lparr>idempotency := snd (complete user_id (request_id request) (serialize p resp) (idempotency s))\<rparr>))"

definition errorEnvelope :: "Envelope \<Rightarrow> ErrorCode \<Rightarrow> string \<Rightarrow> Envelope" where
  "errorEnvelope request code message =
     newEnvelope\<lparr>protocol_version := 1, request_id := request_id request, message_type := ERROR_RESPONSE,
       body := ErrorResponse code message (request_id request)\<rparr>"

definition failRequest :: "'w Setup \<Rightarrow> Envelope \<Rightarrow> ErrorCode \<Rightarrow> string \<Rightarrow> Send \<Rightarrow> UserId option \<Rightarrow> ('w, 'r) Service \<Rightarrow> ('w, 'r) Service" where
  "failRequest p request code message send user_id s =
     (let s1 = meter rejectedRequest s;
          s2 = (if code = SERVICE_UNAVAILABLE then meter storageFailure s1 else s1);
          resp = errorEnvelope request code message
      in case user_id of
           Some u \<Rightarrow> reply p u request resp send s2
         | None \<Rightarrow> sendTo send resp s2)"

definition acknowledge :: "'w Setup \<Rightarrow> UserId \<Rightarrow> Envelope \<Rightarrow> string \<Rightarrow> Send \<Rightarrow> ('w, 'r) Service \<Rightarrow> ('w, 'r) Service" where
  "acknowledge p user_id request message send s =
     reply p user_id request (newEnvelope\<lparr>message_type := COMMAND_ACK, body := CommandAck True message\<rparr>) send s"

text \<open>\<open>fail(request, map(error), domain::toString(error), send, user_id)\<close>.\<close>

definition failTable :: "'w Setup \<Rightarrow> Envelope \<Rightarrow> TableError \<Rightarrow> Send \<Rightarrow> UserId \<Rightarrow> ('w, 'r) Service \<Rightarrow> ('w, 'r) Service" where
  "failTable p request e send user_id = failRequest p request (mapTableError e) (tableErrorToString e) send (Some user_id)"

definition failQueue :: "'w Setup \<Rightarrow> Envelope \<Rightarrow> Send \<Rightarrow> UserId option \<Rightarrow> ('w, 'r) Service \<Rightarrow> ('w, 'r) Service" where
  "failQueue p request send user_id = failRequest p request SERVICE_UNAVAILABLE ''storage queue is full'' send user_id"

section \<open>Views of a table\<close>

definition onBroadcast :: "'w Setup \<Rightarrow> u64 \<Rightarrow> UserId \<Rightarrow> RoomReply \<Rightarrow> ('w, 'r) Service \<Rightarrow> ('w, 'r) Service" where
  "onBroadcast p table_id user_id r s =
     (if replyError r = ok \<and> push_set p then pushTo user_id (pushSnapshotEnvelope table_id (replySnapshot r)) s else s)"

definition broadcastPlayer :: "'w Setup \<Rightarrow> u64 \<Rightarrow> UserId \<Rightarrow> ('w, 'r) Service \<Rightarrow> ('w, 'r) Service" where
  "broadcastPlayer p table_id u s =
     callRoom (roomSnapshot table_id (Some u)) (BroadcastCallback table_id u) (onBroadcast p table_id u) s"

definition broadcastSnapshot :: "'w Setup \<Rightarrow> u64 \<Rightarrow> TableSnapshot \<Rightarrow> ('w, 'r) Service \<Rightarrow> ('w, 'r) Service" where
  "broadcastSnapshot p table_id source s = fold (broadcastPlayer p table_id) (map view_id (snap_players source)) s"

text \<open>The callback of \<open>setConnected\<close> at logout and expiry, and of the last snapshot of \<open>LEAVE_TABLE_REQUEST\<close>.\<close>

definition onViews :: "'w Setup \<Rightarrow> u64 \<Rightarrow> RoomReply \<Rightarrow> ('w, 'r) Service \<Rightarrow> ('w, 'r) Service" where
  "onViews p table_id r s = (if replyError r = ok then broadcastSnapshot p table_id (replySnapshot r) s else s)"

definition eventEnvelope :: "u64 \<Rightarrow> u64 \<Rightarrow> u64 \<Rightarrow> string \<Rightarrow> string \<Rightarrow> Envelope" where
  "eventEnvelope table_id hand server_seq type message =
     newEnvelope\<lparr>protocol_version := 1, message_type := TABLE_EVENT,
       body := EventBody \<lparr>event_table_id = table_id, event_hand_id = hand, event_server_sequence = server_seq,
         event_type = type, event_payload = message\<rparr>\<rparr>"

definition pushTableEvent :: "'w Setup \<Rightarrow> u64 \<Rightarrow> u64 \<Rightarrow> u64 \<Rightarrow> UserId list \<Rightarrow> string \<Rightarrow> string \<Rightarrow> ('w, 'r) Service \<Rightarrow> ('w, 'r) Service" where
  "pushTableEvent p table_id hand server_seq us type message s =
     (if \<not> push_set p then s
      else fold (\<lambda>u. pushTo u (eventEnvelope table_id hand server_seq type message)) us s)"

section \<open>Aborted tables\<close>

definition max_attempts :: nat where
  "max_attempts = 8"

definition retryDelay :: "nat \<Rightarrow> int" where
  "retryDelay attempt = 1000 * 2 ^ min (attempt - 1) 5"

definition retryRefund :: "'w Setup \<Rightarrow> u64 \<Rightarrow> u64 \<Rightarrow> u64 \<Rightarrow> UserId list \<Rightarrow> nat \<Rightarrow> ('w, 'r) Service \<Rightarrow> ('w, 'r) Service" where
  "retryRefund p table_id hand server_seq us attempt s =
     (if \<not> schedule_set p \<or> attempt > max_attempts
      then pushTableEvent p table_id hand server_seq us ''table_refund_requires_reconciliation''
             ''automatic stack refund retries were exhausted; operator reconciliation is required'' s
      else schedule (retryDelay attempt) (RefundTimer table_id hand server_seq us attempt) s)"

definition onRefundTimer :: "'w Setup \<Rightarrow> u64 \<Rightarrow> u64 \<Rightarrow> u64 \<Rightarrow> UserId list \<Rightarrow> nat \<Rightarrow> ('w, 'r) Service \<Rightarrow> ('w, 'r) Service" where
  "onRefundTimer p table_id hand server_seq us attempt s =
     (case postStorage (RefundTask table_id hand server_seq us attempt) s of
        (queued, s1) \<Rightarrow> if \<not> queued then retryRefund p table_id hand server_seq us (attempt + 1) s1 else s1)"

definition runRefund :: "'w Setup \<Rightarrow> u64 \<Rightarrow> u64 \<Rightarrow> u64 \<Rightarrow> UserId list \<Rightarrow> nat \<Rightarrow> ('w, 'r) Service \<Rightarrow> ('w, 'r) Service" where
  "runRefund p table_id hand server_seq us attempt s =
     (case onWorld (abort_table_and_refund (game_store (services p)) table_id) s of
        (result, s1) \<Rightarrow>
          if result = storage_ok
          then pushTableEvent p table_id hand server_seq us ''table_refund_completed'' ''the deferred table-stack refund completed'' s1
          else retryRefund p table_id hand server_seq us (attempt + 1) (meter storageFailure s1))"

definition abortTableAndNotify :: "'w Setup \<Rightarrow> u64 \<Rightarrow> TableSnapshot \<Rightarrow> string \<Rightarrow> bool \<Rightarrow> ('w, 'r) Service \<Rightarrow> ('w, 'r) Service" where
  "abortTableAndNotify p table_id audit reason attempt_refund s =
     (let us = map view_id (snap_players audit);
          s1 = snd (onRooms (roomCloseTable table_id) s)
      in case (if attempt_refund then onWorld (abort_table_and_refund (game_store (services p)) table_id) s1 else (unavailable, s1)) of
           (refunded, s2) \<Rightarrow>
             if refunded = storage_ok
             then pushTableEvent p table_id (snap_hand_id audit) (snap_server_sequence audit) us ''table_aborted_refunded''
                    (reason @ ''; all table stacks were refunded'') s2
             else retryRefund p table_id (snap_hand_id audit) (snap_server_sequence audit) us 1
                    (pushTableEvent p table_id (snap_hand_id audit) (snap_server_sequence audit) us
                       ''table_aborted_refund_pending'' (reason @ ''; stack refund is pending'') (meter storageFailure s2)))"

section \<open>Timeouts\<close>

text \<open>What two requests and the timeout do after an accepted command: the settlement of a hand that is over, and the
  two writes to the store. The result says which write failed.\<close>

definition settlementFor :: "u64 \<Rightarrow> TableSnapshot \<Rightarrow> ActionResult \<Rightarrow> HandSettlementRecord option" where
  "settlementFor table_id audit result =
     (if snap_street audit = settled then Some (handSettlement table_id audit (res_awards result)) else None)"

definition stored :: "StorageError \<Rightarrow> bool" where
  "stored e \<longleftrightarrow> e = storage_ok \<or> e = storage_duplicate"

datatype StoreOutcome = ActionFailed | SettlementFailed | Stored

definition storeAction :: "'w Setup \<Rightarrow> HandActionRecord \<Rightarrow> HandSettlementRecord option \<Rightarrow> ('w, 'r) Service \<Rightarrow> StoreOutcome \<times> ('w, 'r) Service" where
  "storeAction p action settle s =
     (case onWorld (append_action (game_store (services p)) action) s of
        (action_stored, s1) \<Rightarrow>
          if \<not> stored action_stored then (ActionFailed, meter storageFailure s1)
          else (case settle of
                  None \<Rightarrow> (Stored, s1)
                | Some x \<Rightarrow>
                    (case onWorld (settle_hand (game_store (services p)) x) s1 of
                       (settled_ok, s2) \<Rightarrow>
                         if \<not> stored settled_ok then (SettlementFailed, meter storageFailure s2) else (Stored, s2))))"

text \<open>The critical section of \<open>scheduleTimeout\<close>: \<open>None\<close> when a later sequence number is already recorded.\<close>

definition recordTimeout :: "u64 \<Rightarrow> u64 \<Rightarrow> (u64, u64) assoc_map \<Rightarrow> (u64, u64) assoc_map option" where
  "recordTimeout table_id expected m =
     (case map_of m table_id of
        None \<Rightarrow> Some (put table_id expected m)
      | Some latest \<Rightarrow> if expected < latest then None else Some (put table_id expected m))"

definition timeoutAction :: "PlayerId \<Rightarrow> TableSnapshot \<Rightarrow> ActionType" where
  "timeoutAction acting snap =
     (case List.find (\<lambda>v. view_id v = acting) (snap_players snap) of
        None \<Rightarrow> fold_action
      | Some actor \<Rightarrow> if view_street_commitment actor = snap_current_bet snap then check else fold_action)"

definition scheduleTimeout :: "'w Setup \<Rightarrow> u64 \<Rightarrow> TableSnapshot \<Rightarrow> ('w, 'r) Service \<Rightarrow> ('w, 'r) Service" where
  "scheduleTimeout p table_id snap s =
     (if \<not> schedule_set p then s
      else case recordTimeout table_id (snap_server_sequence snap) (latest_timeout_sequences s) of
        None \<Rightarrow> s
      | Some m \<Rightarrow>
          (let s1 = s\<lparr>latest_timeout_sequences := m\<rparr>
           in case snap_acting_player snap of
                None \<Rightarrow> s1
              | Some acting \<Rightarrow>
                  schedule (action_timeout_ms (server_config p))
                    (ActionTimer table_id acting (snap_server_sequence snap) (timeoutAction acting snap)) s1))"

text \<open>The closures of a timeout, from the innermost: the storage task, the callback of \<open>onActionTimeout\<close>, the callback
  of \<open>auditSnapshot\<close>, the timer.\<close>

definition runStoreTimeout :: "'w Setup \<Rightarrow> u64 \<Rightarrow> HandActionRecord \<Rightarrow> HandSettlementRecord option \<Rightarrow> TableSnapshot \<Rightarrow> TableSnapshot
    \<Rightarrow> OperationRef \<Rightarrow> ('w, 'r) Service \<Rightarrow> ('w, 'r) Service" where
  "runStoreTimeout p table_id action settle after audit op s =
     (case storeAction p action settle s of
        (ActionFailed, s1) \<Rightarrow>
          finish op (abortTableAndNotify p table_id audit ''timeout action history could not be persisted'' True s1)
      | (SettlementFailed, s1) \<Rightarrow>
          finish op (abortTableAndNotify p table_id audit ''timeout settlement could not be committed'' True s1)
      | (Stored, s1) \<Rightarrow> broadcastSnapshot p table_id after (finish op (scheduleTimeout p table_id after s1)))"

definition onTimeoutActed :: "'w Setup \<Rightarrow> u64 \<Rightarrow> PlayerId \<Rightarrow> u64 \<Rightarrow> ActionType \<Rightarrow> OperationRef \<Rightarrow> RoomReply \<Rightarrow> ('w, 'r) Service \<Rightarrow> ('w, 'r) Service" where
  "onTimeoutActed p table_id acting expected timeout_action op r s =
     (let result = replyResult r; audit = replyAudit r in
      if res_error result \<noteq> ok then finish op s
      else
        (let action = \<lparr>action_hand_id = persistentHandId table_id (snap_hand_id audit),
               action_sequence = res_server_sequence result, action_request_id = push_bit 63 1 OR expected,
               action_user_id = acting, action_street = res_action_street result, action_kind = timeout_action,
               target_amount = 0\<rparr>
         in case postStorage (StoreTimeoutTask table_id action (settlementFor table_id audit result) (replySnapshot r) audit op) s of
              (True, s1) \<Rightarrow> s1
            | (False, s1) \<Rightarrow>
                finish op (abortTableAndNotify p table_id audit ''storage queue is full after timeout action'' False s1)))"

definition onTimeoutAudit :: "'w Setup \<Rightarrow> u64 \<Rightarrow> PlayerId \<Rightarrow> u64 \<Rightarrow> ActionType \<Rightarrow> RoomReply \<Rightarrow> ('w, 'r) Service \<Rightarrow> ('w, 'r) Service" where
  "onTimeoutAudit p table_id acting expected timeout_action r s =
     (let now = replySnapshot r in
      if replyError r \<noteq> ok \<or> snap_server_sequence now \<noteq> expected \<or> snap_acting_player now \<noteq> Some acting then s
      else case beginTableOperation table_id s of
        (None, s1) \<Rightarrow> s1
      | (Some op, s1) \<Rightarrow>
          callRoom (onActionTimeout table_id acting expected) (TimeoutActedCallback table_id acting expected timeout_action op)
            (onTimeoutActed p table_id acting expected timeout_action op) s1)"

definition onActionTimer :: "'w Setup \<Rightarrow> u64 \<Rightarrow> PlayerId \<Rightarrow> u64 \<Rightarrow> ActionType \<Rightarrow> ('w, 'r) Service \<Rightarrow> ('w, 'r) Service" where
  "onActionTimer p table_id acting expected timeout_action s =
     (if map_of (latest_timeout_sequences s) table_id \<noteq> Some expected then s
      else callRoom (roomAuditSnapshot table_id) (TimeoutAuditCallback table_id acting expected timeout_action)
             (onTimeoutAudit p table_id acting expected timeout_action) s)"

section \<open>Reading a table\<close>

definition onCurrent :: "'w Setup \<Rightarrow> u64 \<Rightarrow> UserId \<Rightarrow> Envelope \<Rightarrow> Send \<Rightarrow> bool \<Rightarrow> RoomReply \<Rightarrow> ('w, 'r) Service \<Rightarrow> ('w, 'r) Service" where
  "onCurrent p table_id user_id request send arm_timeout r s =
     (if replyError r \<noteq> ok then failTable p request (replyError r) send user_id s
      else
        (let s1 = broadcastSnapshot p table_id (replySnapshot r)
                    (reply p user_id request (snapshotEnvelope request (replySnapshot r)) send s)
         in if arm_timeout then scheduleTimeout p table_id (replySnapshot r) s1 else s1))"

definition replyWithCurrentSnapshot :: "'w Setup \<Rightarrow> u64 \<Rightarrow> UserId \<Rightarrow> Envelope \<Rightarrow> Send \<Rightarrow> bool \<Rightarrow> ('w, 'r) Service \<Rightarrow> ('w, 'r) Service" where
  "replyWithCurrentSnapshot p table_id user_id request send arm_timeout s =
     callRoom (roomSnapshot table_id (Some user_id)) (CurrentCallback table_id user_id request send arm_timeout)
       (onCurrent p table_id user_id request send arm_timeout) s"

definition onSnapshot :: "'w Setup \<Rightarrow> UserId \<Rightarrow> Envelope \<Rightarrow> Send \<Rightarrow> RoomReply \<Rightarrow> ('w, 'r) Service \<Rightarrow> ('w, 'r) Service" where
  "onSnapshot p user_id request send r s =
     (if replyError r \<noteq> ok then failTable p request (replyError r) send user_id s
      else reply p user_id request (snapshotEnvelope request (replySnapshot r)) send s)"

definition handleSnapshot :: "'w Setup \<Rightarrow> UserId \<Rightarrow> Envelope \<Rightarrow> Send \<Rightarrow> ('w, 'r) Service \<Rightarrow> ('w, 'r) Service" where
  "handleSnapshot p user_id request send s =
     (case body request of
        SnapshotRequest table_id after \<Rightarrow>
          callRoom (roomSnapshot table_id (Some user_id)) (SnapshotCallback user_id request send) (onSnapshot p user_id request send) s
      | _ \<Rightarrow> failRequest p request INVALID_MESSAGE ''snapshot body is missing'' send (Some user_id) s)"

definition onReconnect :: "'w Setup \<Rightarrow> UserId \<Rightarrow> u64 \<Rightarrow> Envelope \<Rightarrow> Send \<Rightarrow> RoomReply \<Rightarrow> ('w, 'r) Service \<Rightarrow> ('w, 'r) Service" where
  "onReconnect p user_id table_id request send r s =
     (if replyError r \<noteq> ok then failTable p request (replyError r) send user_id s
      else scheduleTimeout p table_id (replySnapshot r)
             (broadcastSnapshot p table_id (replySnapshot r)
                (reply p user_id request (snapshotEnvelope request (replySnapshot r)) send s)))"

definition handleReconnect :: "'w Setup \<Rightarrow> UserId \<Rightarrow> Envelope \<Rightarrow> SessionRef \<Rightarrow> Send \<Rightarrow> ('w, 'r) Service \<Rightarrow> ('w, 'r) Service" where
  "handleReconnect p user_id request session send s =
     (case body request of
        ReconnectRequest table_id token after \<Rightarrow>
          callRoom (roomSetConnected table_id user_id True) (ReconnectCallback user_id table_id request send)
            (onReconnect p user_id table_id request send)
            (setSession session ((sessions s session)\<lparr>session_table_id := Some table_id\<rparr>) s)
      | _ \<Rightarrow> failRequest p request INVALID_MESSAGE ''reconnect body is missing'' send (Some user_id) s)"

definition onDisconnected :: "'w Setup \<Rightarrow> u64 \<Rightarrow> RoomReply \<Rightarrow> ('w, 'r) Service \<Rightarrow> ('w, 'r) Service" where
  "onDisconnected p table_id r s =
     (if replyError r = ok
      then scheduleTimeout p table_id (replySnapshot r) (broadcastSnapshot p table_id (replySnapshot r) s)
      else s)"

definition onDisconnect :: "'w Setup \<Rightarrow> SessionRef \<Rightarrow> ('w, 'r) Service \<Rightarrow> ('w, 'r) Service" where
  "onDisconnect p session s =
     (case (session_user_id (sessions s session), session_table_id (sessions s session)) of
        (Some user_id, Some table_id) \<Rightarrow>
          callRoom (roomSetConnected table_id user_id False) (DisconnectCallback table_id) (onDisconnected p table_id) s
      | _ \<Rightarrow> s)"

section \<open>Sitting down\<close>

text \<open>The snapshot that names only the affected player.\<close>

definition affectedPlayer :: "UserId \<Rightarrow> TableSnapshot" where
  "affectedPlayer user_id = emptySnapshot\<lparr>snap_players := [\<lparr>view_id = user_id, view_seat = 0, view_stack = 0,
     view_street_commitment = 0, view_hand_commitment = 0, view_status = status_waiting, view_ready = False,
     view_connected = True, view_hole_cards = []\<rparr>]\<rparr>"

definition requestKey :: "string \<Rightarrow> u64 \<Rightarrow> Envelope \<Rightarrow> string" where
  "requestKey prefix table_id request = prefix @ to_string (unat table_id) @ '':'' @ to_string (unat (request_id request))"

definition onSeatedView :: "'w Setup \<Rightarrow> UserId \<Rightarrow> SitDownRequest \<Rightarrow> Envelope \<Rightarrow> Send \<Rightarrow> OperationRef \<Rightarrow> RoomReply \<Rightarrow> ('w, 'r) Service \<Rightarrow> ('w, 'r) Service" where
  "onSeatedView p user_id b request send op r s =
     (if replyError r \<noteq> ok then finish op (failTable p request (replyError r) send user_id s)
      else finish op (broadcastSnapshot p (sit_table_id b) (replySnapshot r)
             (reply p user_id request (snapshotEnvelope request (replySnapshot r)) send s)))"

definition runRollback :: "'w Setup \<Rightarrow> u64 \<Rightarrow> UserId \<Rightarrow> string \<Rightarrow> OperationRef \<Rightarrow> ('w, 'r) Service \<Rightarrow> ('w, 'r) Service" where
  "runRollback p table_id user_id rollback_key op s =
     (case onWorld (cash_out (game_store (services p)) table_id user_id rollback_key) s of
        (rolled_back, s1) \<Rightarrow>
          finish op
            (if \<not> succeeded rolled_back
             then abortTableAndNotify p table_id (affectedPlayer user_id) ''reserved buy-in could not be rolled back'' True s1
             else s1))"

definition onSeated :: "'w Setup \<Rightarrow> UserId \<Rightarrow> SitDownRequest \<Rightarrow> Envelope \<Rightarrow> SessionRef \<Rightarrow> Send \<Rightarrow> OperationRef \<Rightarrow> RoomReply \<Rightarrow> ('w, 'r) Service \<Rightarrow> ('w, 'r) Service" where
  "onSeated p user_id b request session send op r s =
     (if replyError r \<noteq> ok
      then (case postStorage (RollbackTask (sit_table_id b) user_id (requestKey ''rollback:'' (sit_table_id b) request) op) s of
              (False, s1) \<Rightarrow>
                finish op
                  (failRequest p request SERVICE_UNAVAILABLE ''buy-in rollback was deferred and the table was closed'' send (Some user_id)
                     (abortTableAndNotify p (sit_table_id b) (affectedPlayer user_id) ''buy-in rollback queue is full'' False s1))
            | (True, s1) \<Rightarrow> failTable p request (replyError r) send user_id s1)
      else callRoom (roomSnapshot (sit_table_id b) (Some user_id)) (SeatedViewCallback user_id b request send op)
             (onSeatedView p user_id b request send op)
             (setSession session ((sessions s session)\<lparr>session_table_id := Some (sit_table_id b)\<rparr>) s))"

definition runSitDown :: "'w Setup \<Rightarrow> UserId \<Rightarrow> SitDownRequest \<Rightarrow> Envelope \<Rightarrow> SessionRef \<Rightarrow> Send \<Rightarrow> OperationRef \<Rightarrow> ('w, 'r) Service \<Rightarrow> ('w, 'r) Service" where
  "runSitDown p user_id b request session send op s =
     (case onWorld (consume_ticket (services p) (hash_ticket (services p) (sit_join_ticket b))) s of
        (ticket, s1) \<Rightarrow>
          if (case ticket of None \<Rightarrow> True | Some t \<Rightarrow> ticket_user t \<noteq> user_id \<or> ticket_table t \<noteq> sit_table_id b)
          then finish op (failRequest p request FORBIDDEN ''join ticket is invalid or already used'' send (Some user_id) s1)
          else
            (case onWorld (find_table (game_store (services p)) (sit_table_id b)) s1 of (table, s1) \<Rightarrow>
             if \<not> succeeded table
             then finish op (failRequest p request (mapStorageError (storage_error table)) (storage_message table) send (Some user_id) s1)
             else if node_id (the (storage_value table)) \<noteq> config_node_id (server_config p)
             then finish op (failRequest p request FORBIDDEN ''this game node does not own the table'' send (Some user_id) s1)
             else
               (case (if hasTable (sit_table_id b) (snd (room_manager s1)) then (ok, s1)
                      else onRooms (roomCreateTable (sit_table_id b) (table_config (the (storage_value table)))) s1) of
                  (created, s2) \<Rightarrow>
                    if created \<noteq> ok
                    then finish op (failRequest p request SERVICE_UNAVAILABLE ''room could not be activated'' send (Some user_id) s2)
                    else
                      (case onWorld (reserve_buy_in (game_store (services p)) (sit_table_id b) user_id (sit_seat b) (sit_buy_in b)
                              (requestKey ''buy:'' (sit_table_id b) request)) s2 of
                         (reserved, s3) \<Rightarrow>
                           if \<not> succeeded reserved
                           then finish op (failRequest p request (mapStorageError (storage_error reserved)) (storage_message reserved) send (Some user_id) s3)
                           else callRoom (roomSeatPlayer (sit_table_id b) user_id (unat (sit_seat b)) (table_stack (the (storage_value reserved))))
                                  (SeatedCallback user_id b request session send op) (onSeated p user_id b request session send op) s3))))"

text \<open>\<open>beginTableOperation\<close> with the answer to a request that finds the table busy.\<close>

definition withOperation :: "'w Setup \<Rightarrow> u64 \<Rightarrow> UserId \<Rightarrow> Envelope \<Rightarrow> Send \<Rightarrow> (OperationRef \<Rightarrow> ('w, 'r) Service \<Rightarrow> ('w, 'r) Service)
    \<Rightarrow> ('w, 'r) Service \<Rightarrow> ('w, 'r) Service" where
  "withOperation p table_id user_id request send f s =
     (case beginTableOperation table_id s of
        (None, s1) \<Rightarrow> failRequest p request CONFLICT ''another table command is awaiting persistence'' send (Some user_id) s1
      | (Some op, s1) \<Rightarrow> f op s1)"

text \<open>\<open>storage_executor_.post\<close> of a request with the answer when the queue is full; \<open>release\<close> is what the
  destruction of the refused closure does.\<close>

definition postOrFail :: "'w Setup \<Rightarrow> Envelope \<Rightarrow> Send \<Rightarrow> UserId option \<Rightarrow> StorageTask \<Rightarrow> (('w, 'r) Service \<Rightarrow> ('w, 'r) Service)
    \<Rightarrow> ('w, 'r) Service \<Rightarrow> ('w, 'r) Service" where
  "postOrFail p request send user_id task release s =
     (case postStorage task s of
        (True, s1) \<Rightarrow> s1
      | (False, s1) \<Rightarrow> release (failQueue p request send user_id s1))"

definition handleSitDown :: "'w Setup \<Rightarrow> UserId \<Rightarrow> Envelope \<Rightarrow> SessionRef \<Rightarrow> Send \<Rightarrow> ('w, 'r) Service \<Rightarrow> ('w, 'r) Service" where
  "handleSitDown p user_id request session send s =
     (case body request of
        SitDownBody b \<Rightarrow>
          withOperation p (sit_table_id b) user_id request send
            (\<lambda>op. postOrFail p request send (Some user_id) (SitDownTask user_id b request session send op) (finish op)) s
      | _ \<Rightarrow> failRequest p request INVALID_MESSAGE ''sit-down body is missing'' send (Some user_id) s)"

section \<open>Starting a hand\<close>

text \<open>\<open>rooms_.abortHand(table_id, {})\<close>.\<close>

definition abortHandQuietly :: "u64 \<Rightarrow> ('w, 'r) Service \<Rightarrow> ('w, 'r) Service" where
  "abortHandQuietly table_id s = s\<lparr>room_manager := snd (roomAbortHand table_id None (room_manager s))\<rparr>"

definition runBeginHand :: "'w Setup \<Rightarrow> UserId \<Rightarrow> u64 \<Rightarrow> Envelope \<Rightarrow> Send \<Rightarrow> HandStartRecord \<Rightarrow> OperationRef \<Rightarrow> ('w, 'r) Service \<Rightarrow> ('w, 'r) Service" where
  "runBeginHand p user_id table_id request send start op s =
     (case onWorld (begin_hand (game_store (services p)) start) s of
        (e, s1) \<Rightarrow>
          if \<not> stored e
          then finish op (failRequest p request (mapStorageError e) ''hand start could not be persisted'' send (Some user_id)
                 (abortHandQuietly table_id s1))
          else replyWithCurrentSnapshot p table_id user_id request send True (finish op s1))"

definition onStartAudit :: "'w Setup \<Rightarrow> UserId \<Rightarrow> u64 \<Rightarrow> Envelope \<Rightarrow> Send \<Rightarrow> OperationRef \<Rightarrow> RoomReply \<Rightarrow> ('w, 'r) Service \<Rightarrow> ('w, 'r) Service" where
  "onStartAudit p user_id table_id request send op r s =
     (if replyError r \<noteq> ok then finish op (failTable p request (replyError r) send user_id (abortHandQuietly table_id s))
      else (case postStorage (BeginHandTask user_id table_id request send (handStart table_id (replySnapshot r)) op) s of
              (True, s1) \<Rightarrow> s1
            | (False, s1) \<Rightarrow> finish op (failQueue p request send (Some user_id) (abortHandQuietly table_id s1))))"

definition onStarted :: "'w Setup \<Rightarrow> UserId \<Rightarrow> u64 \<Rightarrow> Envelope \<Rightarrow> Send \<Rightarrow> OperationRef \<Rightarrow> RoomReply \<Rightarrow> ('w, 'r) Service \<Rightarrow> ('w, 'r) Service" where
  "onStarted p user_id table_id request send op r s =
     (let e = replyError r in
      if e \<noteq> ok \<and> e \<noteq> not_enough_players \<and> e \<noteq> hand_in_progress then finish op (failTable p request e send user_id s)
      else if e \<noteq> ok then replyWithCurrentSnapshot p table_id user_id request send True (finish op s)
      else callRoom (roomAuditSnapshot table_id) (StartAuditCallback user_id table_id request send op)
             (onStartAudit p user_id table_id request send op) s)"

definition onReady :: "'w Setup \<Rightarrow> UserId \<Rightarrow> u64 \<Rightarrow> bool \<Rightarrow> Envelope \<Rightarrow> Send \<Rightarrow> OperationRef \<Rightarrow> RoomReply \<Rightarrow> ('w, 'r) Service \<Rightarrow> ('w, 'r) Service" where
  "onReady p user_id table_id is_ready request send op r s =
     (if replyError r \<noteq> ok then finish op (failTable p request (replyError r) send user_id s)
      else if \<not> is_ready then replyWithCurrentSnapshot p table_id user_id request send False (finish op s)
      else callRoom (roomStartHand table_id) (StartedCallback user_id table_id request send op)
             (onStarted p user_id table_id request send op) s)"

definition handleReady :: "'w Setup \<Rightarrow> UserId \<Rightarrow> Envelope \<Rightarrow> Send \<Rightarrow> ('w, 'r) Service \<Rightarrow> ('w, 'r) Service" where
  "handleReady p user_id request send s =
     (case body request of
        ReadyRequest table_id is_ready \<Rightarrow>
          withOperation p table_id user_id request send
            (\<lambda>op. callRoom (roomSetReady table_id user_id is_ready) (ReadyCallback user_id table_id is_ready request send op)
                    (onReady p user_id table_id is_ready request send op)) s
      | _ \<Rightarrow> failRequest p request INVALID_MESSAGE ''ready body is missing'' send (Some user_id) s)"

section \<open>Acting\<close>

definition runStoreAction :: "'w Setup \<Rightarrow> UserId \<Rightarrow> u64 \<Rightarrow> Envelope \<Rightarrow> Send \<Rightarrow> TableSnapshot \<Rightarrow> TableSnapshot \<Rightarrow> HandActionRecord
    \<Rightarrow> HandSettlementRecord option \<Rightarrow> OperationRef \<Rightarrow> ('w, 'r) Service \<Rightarrow> ('w, 'r) Service" where
  "runStoreAction p user_id table_id request send snap audit action settle op s =
     (case storeAction p action settle s of
        (ActionFailed, s1) \<Rightarrow>
          finish op (failRequest p request SERVICE_UNAVAILABLE ''action persistence failed; the table was safely aborted'' send (Some user_id)
            (abortTableAndNotify p table_id audit ''action history could not be persisted'' True s1))
      | (SettlementFailed, s1) \<Rightarrow>
          finish op (failRequest p request SERVICE_UNAVAILABLE ''settlement failed; the table was safely aborted'' send (Some user_id)
            (abortTableAndNotify p table_id audit ''settlement could not be committed'' True s1))
      | (Stored, s1) \<Rightarrow>
          broadcastSnapshot p table_id snap
            (reply p user_id request (snapshotEnvelope request snap) send (finish op (scheduleTimeout p table_id snap s1))))"

definition onActed :: "'w Setup \<Rightarrow> UserId \<Rightarrow> ActionRequest \<Rightarrow> Envelope \<Rightarrow> Send \<Rightarrow> OperationRef \<Rightarrow> RoomReply \<Rightarrow> ('w, 'r) Service \<Rightarrow> ('w, 'r) Service" where
  "onActed p user_id b request send op r s =
     (let result = replyResult r; audit = replyAudit r in
      if res_error result \<noteq> ok
      then finish op (failRequest p request (mapTableError (res_error result)) (res_message result) send (Some user_id) (meter actionRejected s))
      else
        (let action = \<lparr>action_hand_id = persistentHandId (act_table_id b) (snap_hand_id audit),
               action_sequence = res_server_sequence result, action_request_id = request_id request,
               action_user_id = user_id, action_street = res_action_street result, action_kind = mapAction (act_action b),
               target_amount = target_street_commitment b\<rparr>
         in case postStorage (StoreActionTask user_id (act_table_id b) request send (replySnapshot r) audit action
                   (settlementFor (act_table_id b) audit result) op) (meter actionAccepted s) of
              (True, s1) \<Rightarrow> s1
            | (False, s1) \<Rightarrow>
                finish op (failRequest p request SERVICE_UNAVAILABLE ''storage queue is full; the table was safely aborted'' send (Some user_id)
                  (abortTableAndNotify p (act_table_id b) audit ''storage queue is full'' False s1))))"

definition handleAction :: "'w Setup \<Rightarrow> UserId \<Rightarrow> Envelope \<Rightarrow> Send \<Rightarrow> ('w, 'r) Service \<Rightarrow> ('w, 'r) Service" where
  "handleAction p user_id request send s =
     (let missing = failRequest p request INVALID_MESSAGE ''action body is missing or invalid'' send (Some user_id) in
      case body request of
        ActionBody b \<Rightarrow>
          (if act_action b = ACTION_TYPE_UNSPECIFIED then missing s
           else withOperation p (act_table_id b) user_id request send
                  (\<lambda>op. callRoom (roomAct (act_table_id b) (act_hand_id b)
                            \<lparr>player_id = user_id, action_type = mapAction (act_action b), amount = target_street_commitment b\<rparr>)
                          (ActedCallback user_id b request send op) (onActed p user_id b request send op)) s)
      | _ \<Rightarrow> missing s)"

section \<open>Leaving\<close>

definition onRemoved :: "'w Setup \<Rightarrow> u64 \<Rightarrow> UserId \<Rightarrow> Envelope \<Rightarrow> SessionRef \<Rightarrow> Send \<Rightarrow> OperationRef \<Rightarrow> RoomReply \<Rightarrow> ('w, 'r) Service \<Rightarrow> ('w, 'r) Service" where
  "onRemoved p table_id user_id request session send op r s =
     (if replyError r \<noteq> ok then finish op (failTable p request (replyError r) send user_id s)
      else
        (let s1 = setSession session ((sessions s session)\<lparr>session_table_id := None\<rparr>) s;
             s2 = acknowledge p user_id request ''left table'' send s1
         in finish op (callRoom (roomSnapshot table_id None) (ViewsCallback table_id) (onViews p table_id) s2)))"

definition runCashOut :: "'w Setup \<Rightarrow> u64 \<Rightarrow> UserId \<Rightarrow> string \<Rightarrow> Envelope \<Rightarrow> SessionRef \<Rightarrow> Send \<Rightarrow> OperationRef \<Rightarrow> ('w, 'r) Service \<Rightarrow> ('w, 'r) Service" where
  "runCashOut p table_id user_id cash_key request session send op s =
     (case onWorld (cash_out (game_store (services p)) table_id user_id cash_key) s of
        (cashed_out, s1) \<Rightarrow>
          if \<not> succeeded cashed_out
          then finish op (failRequest p request (mapStorageError (storage_error cashed_out)) (storage_message cashed_out) send (Some user_id) s1)
          else callRoom (roomRemovePlayer table_id user_id) (RemovedCallback table_id user_id request session send op)
                 (onRemoved p table_id user_id request session send op) s1)"

definition onLeave :: "'w Setup \<Rightarrow> u64 \<Rightarrow> UserId \<Rightarrow> Envelope \<Rightarrow> SessionRef \<Rightarrow> Send \<Rightarrow> OperationRef \<Rightarrow> RoomReply \<Rightarrow> ('w, 'r) Service \<Rightarrow> ('w, 'r) Service" where
  "onLeave p table_id user_id request session send op r s =
     (if replyError r \<noteq> ok then finish op (failTable p request (replyError r) send user_id s)
      else postOrFail p request send (Some user_id)
             (CashOutTask table_id user_id (requestKey ''cash:'' table_id request) request session send op) (finish op) s)"

definition handleLeave :: "'w Setup \<Rightarrow> UserId \<Rightarrow> Envelope \<Rightarrow> SessionRef \<Rightarrow> Send \<Rightarrow> ('w, 'r) Service \<Rightarrow> ('w, 'r) Service" where
  "handleLeave p user_id request session send s =
     (case body request of
        LeaveTableRequest table_id \<Rightarrow>
          withOperation p table_id user_id request send
            (\<lambda>op. callRoom (roomSetReady table_id user_id False) (LeaveCallback table_id user_id request session send op)
                    (onLeave p table_id user_id request session send op)) s
      | _ \<Rightarrow> failRequest p request INVALID_MESSAGE ''leave-table body is missing'' send (Some user_id) s)"

section \<open>Accounts and sessions\<close>

definition authSucceeded :: "'a AuthResult \<Rightarrow> bool" where
  "authSucceeded r \<longleftrightarrow> auth_error r = auth_ok \<and> auth_value r \<noteq> None"

definition authCode :: "AuthError \<Rightarrow> ErrorCode" where
  "authCode e = (if e = storage_unavailable then SERVICE_UNAVAILABLE else UNAUTHENTICATED)"

definition runRegister :: "'w Setup \<Rightarrow> Envelope \<Rightarrow> string \<Rightarrow> string \<Rightarrow> Send \<Rightarrow> ('w, 'r) Service \<Rightarrow> ('w, 'r) Service" where
  "runRegister p request username password send s =
     (case onWorld (register_user (services p) username password) s of
        (registered, s1) \<Rightarrow>
          if \<not> authSucceeded registered
          then failRequest p request
                 (if auth_error registered = username_taken then CONFLICT
                  else if auth_error registered = storage_unavailable then SERVICE_UNAVAILABLE else INVALID_MESSAGE)
                 (auth_message registered) send None s1
          else sendTo send (newEnvelope\<lparr>protocol_version := 1, request_id := request_id request, message_type := REGISTER_RESPONSE,
                 body := RegisterResponse (user_key (the (auth_value registered)))\<rparr>) s1)"

definition handleRegister :: "'w Setup \<Rightarrow> Envelope \<Rightarrow> Send \<Rightarrow> ('w, 'r) Service \<Rightarrow> ('w, 'r) Service" where
  "handleRegister p request send s =
     (case body request of
        RegisterRequest username password \<Rightarrow>
          postOrFail p request send None (RegisterTask request username password send) id s
      | _ \<Rightarrow> failRequest p request INVALID_MESSAGE ''register body is missing'' send None s)"

text \<open>A session without user, and the critical section before an authentication: whether the connection is
  authenticated already, whether an authentication is running, and the session afterwards.\<close>

definition clearSession :: "ConnectionSession \<Rightarrow> ConnectionSession" where
  "clearSession x = x\<lparr>session_user_id := None, session_raw_token := [], session_expires_at := 0, session_table_id := None\<rparr>"

definition beginAuthentication :: "int \<Rightarrow> ConnectionSession \<Rightarrow> bool \<times> bool \<times> ConnectionSession" where
  "beginAuthentication now x =
     (let already = (session_user_id x \<noteq> None \<and> session_expires_at x > now);
          x1 = (if \<not> already \<and> session_user_id x \<noteq> None then clearSession x else x)
      in if already then (True, False, x1)
         else (False, authentication_in_progress x1, x1\<lparr>authentication_in_progress := True\<rparr>))"

text \<open>\<open>nowUnixMs()\<close> is only read when a user is set, as \<open>&&\<close> does not evaluate its second operand otherwise.\<close>

definition startAuthentication :: "'w Setup \<Rightarrow> SessionRef \<Rightarrow> ('w, 'r) Service \<Rightarrow> bool \<times> bool \<times> ('w, 'r) Service" where
  "startAuthentication p session s =
     (case (if session_user_id (sessions s session) \<noteq> None then nowUnixMs p s else (0, s)) of
        (now, s1) \<Rightarrow>
          (case beginAuthentication now (sessions s1 session) of
             (already, busy, x) \<Rightarrow> (already, busy, setSession session x s1)))"

definition endAuthentication :: "SessionRef \<Rightarrow> ('w, 'r) Service \<Rightarrow> ('w, 'r) Service" where
  "endAuthentication session s = setSession session ((sessions s session)\<lparr>authentication_in_progress := False\<rparr>) s"

text \<open>The critical section after an authentication, and \<open>idempotency_.reset\<close>.\<close>

definition installUser :: "SessionRef \<Rightarrow> AuthenticatedSession \<Rightarrow> string \<Rightarrow> ('w, 'r) Service \<Rightarrow> ('w, 'r) Service" where
  "installUser session a token s =
     (let s1 = setSession session ((sessions s session)\<lparr>session_user_id := Some (auth_user_id a), session_username := auth_username a,
                 session_raw_token := token, session_expires_at := auth_expires_at a, authentication_in_progress := False\<rparr>) s
      in s1\<lparr>idempotency := resetUser (auth_user_id a) (idempotency s1)\<rparr>)"

definition runLogin :: "'w Setup \<Rightarrow> Envelope \<Rightarrow> string \<Rightarrow> string \<Rightarrow> SessionRef \<Rightarrow> Send \<Rightarrow> ('w, 'r) Service \<Rightarrow> exn option \<times> ('w, 'r) Service" where
  "runLogin p request username password session send s =
     (case nowUnixMs p s of (now, s1) \<Rightarrow>
      case login_user (services p) username password now (world s1) of
        Inl e \<Rightarrow> (Some e, s1)
      | Inr (logged_in, w) \<Rightarrow>
          (let s2 = s1\<lparr>world := w\<rparr> in
           if \<not> authSucceeded logged_in
           then (None, failRequest p request (authCode (auth_error logged_in)) (auth_message logged_in) send None (endAuthentication session s2))
           else
             (let a = the (auth_value logged_in)
              in (None, sendTo send (newEnvelope\<lparr>protocol_version := 1, request_id := request_id request, message_type := LOGIN_RESPONSE,
                    body := LoginResponse (auth_user_id a) (raw_token a) (auth_wallet_balance a) (auth_expires_at a)\<rparr>)
                    (installUser session a (raw_token a) s2)))))"

definition handleLogin :: "'w Setup \<Rightarrow> Envelope \<Rightarrow> SessionRef \<Rightarrow> Send \<Rightarrow> ('w, 'r) Service \<Rightarrow> ('w, 'r) Service" where
  "handleLogin p request session send s =
     (case body request of
        LoginRequest username password \<Rightarrow>
          (case startAuthentication p session s of
             (already, busy, s1) \<Rightarrow>
               if already then failRequest p request CONFLICT ''this connection is already authenticated'' send None s1
               else if busy then failRequest p request CONFLICT ''another authentication request is already running'' send None s1
               else (case postStorage (LoginTask request username password session send) s1 of
                       (True, s2) \<Rightarrow> s2
                     | (False, s2) \<Rightarrow> failQueue p request send None (endAuthentication session s2)))
      | _ \<Rightarrow> failRequest p request INVALID_MESSAGE ''login body is missing'' send None s)"

definition runAuthenticate :: "'w Setup \<Rightarrow> Envelope \<Rightarrow> string \<Rightarrow> SessionRef \<Rightarrow> Send \<Rightarrow> ('w, 'r) Service \<Rightarrow> ('w, 'r) Service" where
  "runAuthenticate p request token session send s =
     (case nowUnixMs p s of (now, s1) \<Rightarrow>
      let authenticated = authenticate_token (services p) token now (world s1) in
      if \<not> authSucceeded authenticated
      then failRequest p request (authCode (auth_error authenticated)) (auth_message authenticated) send None (endAuthentication session s1)
      else
        (let a = the (auth_value authenticated)
         in sendTo send (newEnvelope\<lparr>protocol_version := 1, request_id := request_id request, message_type := AUTHENTICATE_SESSION_RESPONSE,
              body := AuthenticateSessionResponse (auth_user_id a) (auth_username a) (auth_wallet_balance a) (auth_expires_at a)\<rparr>)
              (installUser session a token s1)))"

definition handleAuthenticate :: "'w Setup \<Rightarrow> Envelope \<Rightarrow> SessionRef \<Rightarrow> Send \<Rightarrow> ('w, 'r) Service \<Rightarrow> ('w, 'r) Service" where
  "handleAuthenticate p request session send s =
     (case body request of
        AuthenticateSessionRequest token \<Rightarrow>
          (case startAuthentication p session s of
             (already, busy, s1) \<Rightarrow>
               if already then failRequest p request CONFLICT ''this connection is already authenticated'' send None s1
               else if busy then failRequest p request CONFLICT ''another authentication request is already running'' send None s1
               else (case postStorage (AuthenticateTask request token session send) s1 of
                       (True, s2) \<Rightarrow> s2
                     | (False, s2) \<Rightarrow> failQueue p request send None (endAuthentication session s2)))
      | _ \<Rightarrow> failRequest p request INVALID_MESSAGE ''authenticate-session body is missing'' send None s)"

definition handleHeartbeat :: "'w Setup \<Rightarrow> Envelope \<Rightarrow> Send \<Rightarrow> ('w, 'r) Service \<Rightarrow> ('w, 'r) Service" where
  "handleHeartbeat p request send s =
     (case nowUnixMs p s of (now, s1) \<Rightarrow>
      sendTo send (newEnvelope\<lparr>protocol_version := 1, request_id := request_id request, message_type := HEARTBEAT,
        body := Heartbeat (case body request of Heartbeat client server \<Rightarrow> client | _ \<Rightarrow> 0) now\<rparr>) s1)"

definition runLogout :: "'w Setup \<Rightarrow> string \<Rightarrow> u64 option \<Rightarrow> UserId \<Rightarrow> Envelope \<Rightarrow> SessionRef \<Rightarrow> Send \<Rightarrow> ('w, 'r) Service \<Rightarrow> ('w, 'r) Service" where
  "runLogout p token table user_id request session send s =
     (case onWorld (logout_token (services p) token) s of
        (e, s1) \<Rightarrow>
          if e \<noteq> auth_ok then failRequest p request (authCode e) (authErrorToString e) send (Some user_id) s1
          else
            (let s2 = setSession session (clearSession (sessions s1 session)) s1;
                 s3 = s2\<lparr>idempotency := resetUser user_id (idempotency s2)\<rparr>;
                 s4 = (case table of
                         None \<Rightarrow> s3
                       | Some table_id \<Rightarrow>
                           callRoom (roomSetConnected table_id user_id False) (ViewsCallback table_id) (onViews p table_id) s3)
             in acknowledge p user_id request ''logged out'' send s4))"

definition handleLogout :: "'w Setup \<Rightarrow> UserId \<Rightarrow> Envelope \<Rightarrow> SessionRef \<Rightarrow> Send \<Rightarrow> ('w, 'r) Service \<Rightarrow> ('w, 'r) Service" where
  "handleLogout p user_id request session send s =
     (let x = sessions s session;
          token = (if session_raw_token x = [] then session_token request else session_raw_token x)
      in postOrFail p request send (Some user_id) (LogoutTask token (session_table_id x) user_id request session send) id s)"

definition runRefresh :: "'w Setup \<Rightarrow> string \<Rightarrow> UserId \<Rightarrow> Envelope \<Rightarrow> SessionRef \<Rightarrow> Send \<Rightarrow> ('w, 'r) Service \<Rightarrow> ('w, 'r) Service" where
  "runRefresh p token user_id request session send s =
     (case nowUnixMs p s of (now, s1) \<Rightarrow>
      case onWorld (refresh_token (services p) token now) s1 of (refreshed, s2) \<Rightarrow>
        if \<not> authSucceeded refreshed
        then failRequest p request (authCode (auth_error refreshed)) (auth_message refreshed) send (Some user_id) s2
        else
          (let x = sessions s2 session; a = the (auth_value refreshed) in
           if session_user_id x \<noteq> Some user_id \<or> session_raw_token x \<noteq> token
           then failRequest p request CONFLICT ''connection identity changed while refreshing'' send (Some user_id) s2
           else reply p user_id request
                  (newEnvelope\<lparr>message_type := REFRESH_SESSION_RESPONSE, body := RefreshSessionResponse (raw_token a) (auth_expires_at a)\<rparr>) send
                  (setSession session (x\<lparr>session_raw_token := raw_token a, session_expires_at := auth_expires_at a\<rparr>) s2)))"

definition handleRefresh :: "'w Setup \<Rightarrow> UserId \<Rightarrow> Envelope \<Rightarrow> SessionRef \<Rightarrow> Send \<Rightarrow> ('w, 'r) Service \<Rightarrow> ('w, 'r) Service" where
  "handleRefresh p user_id request session send s =
     (let missing = failRequest p request INVALID_MESSAGE ''refresh-session token is missing'' send (Some user_id) in
      case body request of
        RefreshSessionRequest token \<Rightarrow>
          (if token = [] then missing s
           else if session_raw_token (sessions s session) \<noteq> token
           then failRequest p request FORBIDDEN ''refresh token does not belong to this connection'' send (Some user_id) s
           else postOrFail p request send (Some user_id) (RefreshTask token user_id request session send) id s)
      | _ \<Rightarrow> missing s)"

section \<open>Lobby\<close>

definition requestedConfig :: "CreateTableRequest \<Rightarrow> TableConfig" where
  "requestedConfig b = defaultConfig\<lparr>max_players := unat (create_max_players b), small_blind := create_small_blind b,
     big_blind := create_big_blind b, min_buy_in := create_min_buy_in b, max_buy_in := create_max_buy_in b\<rparr>"

definition summaryOf :: "u64 \<Rightarrow> string \<Rightarrow> TableConfig \<Rightarrow> string \<Rightarrow> TableSummary" where
  "summaryOf table_id name cfg node =
     \<lparr>summary_table_id = table_id, summary_name = name, seated_players = 0, summary_max_players = of_nat (max_players cfg),
      summary_small_blind = small_blind cfg, summary_big_blind = big_blind cfg, game_node_id = node\<rparr>"

definition runCreateTable :: "'w Setup \<Rightarrow> UserId \<Rightarrow> CreateTableRequest \<Rightarrow> TableConfig \<Rightarrow> Envelope \<Rightarrow> Send \<Rightarrow> ('w, 'r) Service \<Rightarrow> ('w, 'r) Service" where
  "runCreateTable p user_id b cfg request send s =
     (case onWorld (allocate_id (services p)) s of
        (None, s1) \<Rightarrow> failRequest p request SERVICE_UNAVAILABLE ''could not allocate a global table id'' send (Some user_id) s1
      | (Some allocated, s1) \<Rightarrow>
          (case onWorld (assign_new_table (services p) allocated user_id) s1 of
             (None, s2) \<Rightarrow> failRequest p request SERVICE_UNAVAILABLE ''no healthy game node is available'' send (Some user_id) s2
           | (Some assignment, s2) \<Rightarrow>
               (let name = (if create_name b = [] then ''Table '' @ to_string (unat allocated) else create_name b);
                    node = node_name (route_node assignment)
                in case onWorld (create_table (game_store (services p))
                          \<lparr>table_key = allocated, table_name = name, node_id = node, table_config = cfg, created_by = user_id\<rparr>) s2 of
                     (e, s3) \<Rightarrow>
                       if e \<noteq> storage_ok
                       then failRequest p request (mapStorageError e) ''table metadata could not be stored'' send (Some user_id) s3
                       else
                         (case (if node = config_node_id (server_config p) then onRooms (roomCreateTable allocated cfg) s3 else (ok, s3)) of
                            (created, s4) \<Rightarrow>
                              if created \<noteq> ok
                              then failRequest p request SERVICE_UNAVAILABLE ''local room could not be created'' send (Some user_id) s4
                              else reply p user_id request
                                     (newEnvelope\<lparr>message_type := CREATE_TABLE_RESPONSE,
                                        body := CreateTableResponse (summaryOf allocated name cfg node) (endpoint (route_node assignment)) (join_ticket assignment)\<rparr>)
                                     send s4))))"

definition handleCreateTable :: "'w Setup \<Rightarrow> UserId \<Rightarrow> Envelope \<Rightarrow> Send \<Rightarrow> ('w, 'r) Service \<Rightarrow> ('w, 'r) Service" where
  "handleCreateTable p user_id request send s =
     (case body request of
        CreateTableBody b \<Rightarrow>
          (if \<not> validConfig (requestedConfig b) \<or> length (create_name b) > 64
           then failRequest p request INVALID_MESSAGE ''invalid table configuration'' send (Some user_id) s
           else postOrFail p request send (Some user_id) (CreateTableTask user_id b (requestedConfig b) request send) id s)
      | _ \<Rightarrow> failRequest p request INVALID_MESSAGE ''create-table body is missing'' send (Some user_id) s)"

definition runListTables :: "'w Setup \<Rightarrow> UserId \<Rightarrow> nat \<Rightarrow> Envelope \<Rightarrow> Send \<Rightarrow> ('w, 'r) Service \<Rightarrow> ('w, 'r) Service" where
  "runListTables p user_id limit request send s =
     (case onWorld (list_open_tables (game_store (services p)) limit) s of (found, s) \<Rightarrow>
      if \<not> succeeded found then failRequest p request (mapStorageError (storage_error found)) (storage_message found) send (Some user_id) s
      else reply p user_id request
             (newEnvelope\<lparr>message_type := LIST_TABLES_RESPONSE,
                body := ListTablesResponse
                  (map (\<lambda>t. summaryOf (table_key t) (table_name t) (table_config t) (node_id t)) (the (storage_value found))) []\<rparr>) send s)"

definition pageLimit :: "u32 \<Rightarrow> nat" where
  "pageLimit requested = (if requested = 0 then 50 else min (unat requested) 100)"

definition handleListTables :: "'w Setup \<Rightarrow> UserId \<Rightarrow> Envelope \<Rightarrow> Send \<Rightarrow> ('w, 'r) Service \<Rightarrow> ('w, 'r) Service" where
  "handleListTables p user_id request send s =
     (let missing = failRequest p request INVALID_MESSAGE ''list-tables body is missing or page token is unsupported'' send (Some user_id) in
      case body request of
        ListTablesRequest page_size page_token \<Rightarrow>
          (if page_token \<noteq> [] then missing s
           else postOrFail p request send (Some user_id) (ListTablesTask user_id (pageLimit page_size) request send) id s)
      | _ \<Rightarrow> missing s)"

definition runJoinTable :: "'w Setup \<Rightarrow> UserId \<Rightarrow> u64 \<Rightarrow> Envelope \<Rightarrow> Send \<Rightarrow> ('w, 'r) Service \<Rightarrow> ('w, 'r) Service" where
  "runJoinTable p user_id table_id request send s =
     (case onWorld (find_table (game_store (services p)) table_id) s of (found, s) \<Rightarrow>
      if \<not> succeeded found then failRequest p request (mapStorageError (storage_error found)) (storage_message found) send (Some user_id) s
      else
        (let owner = node_id (the (storage_value found));
             unreachable = failRequest p request SERVICE_UNAVAILABLE ''table owner is unavailable'' send (Some user_id)
         in case onWorld (route_existing_table (services p) table_id user_id owner) s of
              (None, s1) \<Rightarrow> unreachable s1
            | (Some assignment, s1) \<Rightarrow>
                if node_name (route_node assignment) \<noteq> owner then unreachable s1
                else reply p user_id request
                       (newEnvelope\<lparr>message_type := JOIN_TABLE_RESPONSE,
                          body := JoinTableResponse (endpoint (route_node assignment)) (join_ticket assignment)\<rparr>) send s1))"

definition handleJoinTable :: "'w Setup \<Rightarrow> UserId \<Rightarrow> Envelope \<Rightarrow> Send \<Rightarrow> ('w, 'r) Service \<Rightarrow> ('w, 'r) Service" where
  "handleJoinTable p user_id request send s =
     (case body request of
        JoinTableRequest table_id \<Rightarrow> postOrFail p request send (Some user_id) (JoinTableTask user_id table_id request send) id s
      | _ \<Rightarrow> failRequest p request INVALID_MESSAGE ''join-table body is missing'' send (Some user_id) s)"

section \<open>Requests\<close>

text \<open>\<open>ProtocolService::beginRequest\<close>.\<close>

definition admit :: "'w Setup \<Rightarrow> UserId \<Rightarrow> Envelope \<Rightarrow> Send \<Rightarrow> ('w, 'r) Service \<Rightarrow> bool \<times> ('w, 'r) Service" where
  "admit p user_id request send s =
     (case beginRequest user_id (request_id request) (client_sequence request) (idempotency s) of
        (d, cache) \<Rightarrow>
          (let s1 = s\<lparr>idempotency := cache\<rparr>;
               cached = (if decision d = duplicate then Option.bind (cached_response d) (parse p) else None)
           in if decision d = accepted then (True, s1)
              else case cached of
                Some resp \<Rightarrow> (False, sendTo send resp s1)
              | None \<Rightarrow>
                  (False, failRequest p request
                     (if decision d = capacity_exceeded then RATE_LIMITED
                      else if decision d = in_flight then CONFLICT else OUT_OF_SEQUENCE)
                     (if decision d = in_flight then ''request is already being processed''
                      else if decision d = capacity_exceeded then ''too many requests are still awaiting cached responses''
                      else ''client sequence is stale or contains a gap'') send None s1)))"

definition authorize :: "'w Setup \<Rightarrow> Envelope \<Rightarrow> SessionRef \<Rightarrow> Send \<Rightarrow> ('w, 'r) Service \<Rightarrow> UserId option \<times> ('w, 'r) Service" where
  "authorize p request session send s =
     (let x = sessions s session in
      case session_user_id x of
        None \<Rightarrow> (None, failRequest p request UNAUTHENTICATED ''login or reconnect is required before this command'' send None s)
      | Some user_id \<Rightarrow>
          (case nowUnixMs p s of
             (now, s1) \<Rightarrow>
               if session_expires_at x \<le> now
               then
                 (let s2 = setSession session (clearSession x) s1;
                      s3 = (case session_table_id x of
                              None \<Rightarrow> s2
                            | Some table_id \<Rightarrow>
                                callRoom (roomSetConnected table_id user_id False) (ViewsCallback table_id) (onViews p table_id) s2)
                  in (None, failRequest p request UNAUTHENTICATED ''session expired; login again'' send None s3))
               else
                 (case admit p user_id request send s1 of
                    (True, s2) \<Rightarrow> (Some user_id, s2)
                  | (False, s2) \<Rightarrow> (None, s2))))"

definition lobbyCommand :: "MessageType \<Rightarrow> bool" where
  "lobbyCommand type \<longleftrightarrow> type = CREATE_TABLE_REQUEST \<or> type = LIST_TABLES_REQUEST \<or> type = JOIN_TABLE_REQUEST"

definition gameCommand :: "MessageType \<Rightarrow> bool" where
  "gameCommand type \<longleftrightarrow> type = SIT_DOWN_REQUEST \<or> type = READY_REQUEST \<or> type = ACTION_REQUEST \<or> type = SNAPSHOT_REQUEST
     \<or> type = RECONNECT_REQUEST \<or> type = LEAVE_TABLE_REQUEST"

text \<open>The switch over the message type.\<close>

fun dispatch :: "'w Setup \<Rightarrow> MessageType \<Rightarrow> UserId \<Rightarrow> Envelope \<Rightarrow> SessionRef \<Rightarrow> Send \<Rightarrow> ('w, 'r) Service \<Rightarrow> ('w, 'r) Service" where
  "dispatch p LOGOUT_REQUEST u request session send s = handleLogout p u request session send s"
| "dispatch p REFRESH_SESSION_REQUEST u request session send s = handleRefresh p u request session send s"
| "dispatch p CREATE_TABLE_REQUEST u request session send s = handleCreateTable p u request send s"
| "dispatch p LIST_TABLES_REQUEST u request session send s = handleListTables p u request send s"
| "dispatch p JOIN_TABLE_REQUEST u request session send s = handleJoinTable p u request send s"
| "dispatch p SIT_DOWN_REQUEST u request session send s = handleSitDown p u request session send s"
| "dispatch p READY_REQUEST u request session send s = handleReady p u request send s"
| "dispatch p ACTION_REQUEST u request session send s = handleAction p u request send s"
| "dispatch p SNAPSHOT_REQUEST u request session send s = handleSnapshot p u request send s"
| "dispatch p RECONNECT_REQUEST u request session send s = handleReconnect p u request session send s"
| "dispatch p LEAVE_TABLE_REQUEST u request session send s = handleLeave p u request session send s"
| "dispatch p _ u request session send s =
     failRequest p request INVALID_MESSAGE ''unsupported message type'' send (Some u) s"

definition handleCommand :: "'w Setup \<Rightarrow> Envelope \<Rightarrow> SessionRef \<Rightarrow> Send \<Rightarrow> ('w, 'r) Service \<Rightarrow> ('w, 'r) Service" where
  "handleCommand p request session send s =
     (case authorize p request session send s of
        (None, s1) \<Rightarrow> s1
      | (Some user_id, s1) \<Rightarrow>
          (let type = message_type request; role = server_role (server_config p) in
           if role = game \<and> lobbyCommand type \<or> role = lobby \<and> gameCommand type
           then failRequest p request FORBIDDEN
                  (if lobbyCommand type then ''this command must be sent to a lobby node''
                   else ''this command must be sent to the assigned game node'') send (Some user_id) s1
           else dispatch p type user_id request session send s1))"

definition handleReconnectFirst :: "'w Setup \<Rightarrow> Envelope \<Rightarrow> SessionRef \<Rightarrow> Send \<Rightarrow> ('w, 'r) Service \<Rightarrow> ('w, 'r) Service" where
  "handleReconnectFirst p request session send s =
     (case body request of
        ReconnectRequest table_id token after \<Rightarrow>
          (case startAuthentication p session s of
             (already, busy, s1) \<Rightarrow>
               if already then handleCommand p request session send s1
               else if busy then failRequest p request CONFLICT ''another authentication request is already running'' send None s1
               else (case postStorage (ReconnectTask request (if token = [] then session_token request else token) session send) s1 of
                       (True, s2) \<Rightarrow> s2
                     | (False, s2) \<Rightarrow> failQueue p request send None (endAuthentication session s2)))
      | _ \<Rightarrow> failRequest p request INVALID_MESSAGE ''reconnect body is missing'' send None s)"

definition handle :: "'w Setup \<Rightarrow> Envelope \<Rightarrow> SessionRef \<Rightarrow> Send \<Rightarrow> ('w, 'r) Service \<Rightarrow> ('w, 'r) Service" where
  "handle p request session send s =
     (if protocol_version request \<noteq> 1 \<or> request_id request = 0 \<or> request_id request > 0x7fffffffffffffff
      then failRequest p request INVALID_MESSAGE ''protocol version and request id are required'' send None s
      else case message_type request of
        REGISTER_REQUEST \<Rightarrow> handleRegister p request send s
      | LOGIN_REQUEST \<Rightarrow> handleLogin p request session send s
      | AUTHENTICATE_SESSION_REQUEST \<Rightarrow> handleAuthenticate p request session send s
      | HEARTBEAT \<Rightarrow> handleHeartbeat p request send s
      | RECONNECT_REQUEST \<Rightarrow> handleReconnectFirst p request session send s
      | _ \<Rightarrow> handleCommand p request session send s)"

definition runReconnect :: "'w Setup \<Rightarrow> Envelope \<Rightarrow> string \<Rightarrow> SessionRef \<Rightarrow> Send \<Rightarrow> ('w, 'r) Service \<Rightarrow> ('w, 'r) Service" where
  "runReconnect p request token session send s =
     (case nowUnixMs p s of (now, s1) \<Rightarrow>
      let authenticated = authenticate_token (services p) token now (world s1) in
      if \<not> authSucceeded authenticated
      then failRequest p request (authCode (auth_error authenticated)) (auth_message authenticated) send None (endAuthentication session s1)
      else handle p request session send (installUser session (the (auth_value authenticated)) token s1))"

section \<open>The closures\<close>

fun runStorageTask :: "'w Setup \<Rightarrow> StorageTask \<Rightarrow> ('w, 'r) Service \<Rightarrow> exn option \<times> ('w, 'r) Service" where
  "runStorageTask p (RegisterTask request username password send) s = (None, runRegister p request username password send s)"
| "runStorageTask p (LoginTask request username password session send) s = runLogin p request username password session send s"
| "runStorageTask p (AuthenticateTask request token session send) s = (None, runAuthenticate p request token session send s)"
| "runStorageTask p (ReconnectTask request token session send) s = (None, runReconnect p request token session send s)"
| "runStorageTask p (LogoutTask token table u request session send) s = (None, runLogout p token table u request session send s)"
| "runStorageTask p (RefreshTask token u request session send) s = (None, runRefresh p token u request session send s)"
| "runStorageTask p (CreateTableTask u b cfg request send) s = (None, runCreateTable p u b cfg request send s)"
| "runStorageTask p (ListTablesTask u limit request send) s = (None, runListTables p u limit request send s)"
| "runStorageTask p (JoinTableTask u k request send) s = (None, runJoinTable p u k request send s)"
| "runStorageTask p (SitDownTask u b request session send op) s = (None, runSitDown p u b request session send op s)"
| "runStorageTask p (RollbackTask k u key op) s = (None, runRollback p k u key op s)"
| "runStorageTask p (BeginHandTask u k request send start op) s = (None, runBeginHand p u k request send start op s)"
| "runStorageTask p (StoreActionTask u k request send snap audit action settle op) s =
     (None, runStoreAction p u k request send snap audit action settle op s)"
| "runStorageTask p (CashOutTask k u key request session send op) s = (None, runCashOut p k u key request session send op s)"
| "runStorageTask p (StoreTimeoutTask k action settle after audit op) s = (None, runStoreTimeout p k action settle after audit op s)"
| "runStorageTask p (RefundTask k hand server_seq us attempt) s = (None, runRefund p k hand server_seq us attempt s)"

fun runCallback :: "'w Setup \<Rightarrow> RoomCallback \<Rightarrow> RoomReply \<Rightarrow> ('w, 'r) Service \<Rightarrow> ('w, 'r) Service" where
  "runCallback p (BroadcastCallback k u) = onBroadcast p k u"
| "runCallback p (ViewsCallback k) = onViews p k"
| "runCallback p (DisconnectCallback k) = onDisconnected p k"
| "runCallback p (SnapshotCallback u request send) = onSnapshot p u request send"
| "runCallback p (CurrentCallback k u request send arm) = onCurrent p k u request send arm"
| "runCallback p (ReconnectCallback u k request send) = onReconnect p u k request send"
| "runCallback p (SeatedCallback u b request session send op) = onSeated p u b request session send op"
| "runCallback p (SeatedViewCallback u b request send op) = onSeatedView p u b request send op"
| "runCallback p (ReadyCallback u k v request send op) = onReady p u k v request send op"
| "runCallback p (StartedCallback u k request send op) = onStarted p u k request send op"
| "runCallback p (StartAuditCallback u k request send op) = onStartAudit p u k request send op"
| "runCallback p (ActedCallback u b request send op) = onActed p u b request send op"
| "runCallback p (LeaveCallback k u request session send op) = onLeave p k u request session send op"
| "runCallback p (RemovedCallback k u request session send op) = onRemoved p k u request session send op"
| "runCallback p (TimeoutAuditCallback k i n a) = onTimeoutAudit p k i n a"
| "runCallback p (TimeoutActedCallback k i n a op) = onTimeoutActed p k i n a op"

fun runTimer :: "'w Setup \<Rightarrow> Timer \<Rightarrow> ('w, 'r) Service \<Rightarrow> ('w, 'r) Service" where
  "runTimer p (RefundTimer k hand server_seq us attempt) s = onRefundTimer p k hand server_seq us attempt s"
| "runTimer p (ActionTimer k i n a) s = onActionTimer p k i n a s"

end
