(* ===== verification/Protocol_Run.thy ===== *)
theory Protocol_Run
  imports Protocol_Service
begin

text \<open>
  The server as a whole: \<open>service_run\<close> interleaves requests, closed connections, timers, the workers of the rooms and
  the workers of the storage executor, in any order. A closure is one step; the steps of the executors are those of
  \<open>Room_Executor\<close>.

  The second part keeps the accounts of the server: what every pending closure owes a client (\<open>callbackRequest\<close>,
  \<open>storageRequest\<close>) and which table operation it holds (\<open>callbackOperation\<close>, \<open>storageOperation\<close>). The predicate
  \<open>balanced P R L s\<close> says that the answers sent and owed are \<open>R\<close>, that the open operations are those held by pending
  closures and those of \<open>L\<close>, and that \<open>P\<close> holds of the services. The rules \<open>accounting\<close> give its change by each
  primitive of the service.
\<close>

section \<open>Steps\<close>

fun taskCallback :: "RoomTask \<Rightarrow> Callback option" where
  "taskCallback (SeatTask ref i k b cb) = cb"
| "taskCallback (RemoveTask ref i cb) = cb"
| "taskCallback (ReadyTask ref i v cb) = cb"
| "taskCallback (StartTask ref cb) = cb"
| "taskCallback (DeckTask ref cards cb) = cb"
| "taskCallback (AbortTask ref cb) = cb"
| "taskCallback (ActTask ref h cmd cb) = cb"
| "taskCallback (ConnectTask ref i v cb) = cb"
| "taskCallback (SnapshotTask ref viewer cb) = cb"
| "taskCallback (AuditTask ref cb) = cb"
| "taskCallback (TimeoutTask ref i n cb) = cb"

fun callbackRequest :: "RoomCallback \<Rightarrow> (Send \<times> u64) list" where
  "callbackRequest (SnapshotCallback u request send) = [(send, request_id request)]"
| "callbackRequest (CurrentCallback k u request send arm) = [(send, request_id request)]"
| "callbackRequest (ReconnectCallback u k request send) = [(send, request_id request)]"
| "callbackRequest (SeatedCallback u b request session send op) = [(send, request_id request)]"
| "callbackRequest (SeatedViewCallback u b request send op) = [(send, request_id request)]"
| "callbackRequest (ReadyCallback u k v request send op) = [(send, request_id request)]"
| "callbackRequest (StartedCallback u k request send op) = [(send, request_id request)]"
| "callbackRequest (StartAuditCallback u k request send op) = [(send, request_id request)]"
| "callbackRequest (ActedCallback u b request send op) = [(send, request_id request)]"
| "callbackRequest (LeaveCallback k u request session send op) = [(send, request_id request)]"
| "callbackRequest (RemovedCallback k u request session send op) = [(send, request_id request)]"
| "callbackRequest _ = []"

fun callbackOperation :: "RoomCallback \<Rightarrow> OperationRef list" where
  "callbackOperation (SeatedCallback u b request session send op) = [op]"
| "callbackOperation (SeatedViewCallback u b request send op) = [op]"
| "callbackOperation (ReadyCallback u k v request send op) = [op]"
| "callbackOperation (StartedCallback u k request send op) = [op]"
| "callbackOperation (StartAuditCallback u k request send op) = [op]"
| "callbackOperation (ActedCallback u b request send op) = [op]"
| "callbackOperation (LeaveCallback k u request session send op) = [op]"
| "callbackOperation (RemovedCallback k u request session send op) = [op]"
| "callbackOperation (TimeoutActedCallback k i n a op) = [op]"
| "callbackOperation _ = []"

fun storageRequest :: "StorageTask \<Rightarrow> (Send \<times> u64) list" where
  "storageRequest (RegisterTask request username password send) = [(send, request_id request)]"
| "storageRequest (LoginTask request username password session send) = [(send, request_id request)]"
| "storageRequest (AuthenticateTask request token session send) = [(send, request_id request)]"
| "storageRequest (ReconnectTask request token session send) = [(send, request_id request)]"
| "storageRequest (LogoutTask token table u request session send) = [(send, request_id request)]"
| "storageRequest (RefreshTask token u request session send) = [(send, request_id request)]"
| "storageRequest (CreateTableTask u b cfg request send) = [(send, request_id request)]"
| "storageRequest (ListTablesTask u limit request send) = [(send, request_id request)]"
| "storageRequest (JoinTableTask u k request send) = [(send, request_id request)]"
| "storageRequest (SitDownTask u b request session send op) = [(send, request_id request)]"
| "storageRequest (BeginHandTask u k request send start op) = [(send, request_id request)]"
| "storageRequest (StoreActionTask u k request send snap audit action settle op) = [(send, request_id request)]"
| "storageRequest (CashOutTask k u key request session send op) = [(send, request_id request)]"
| "storageRequest _ = []"

fun storageOperation :: "StorageTask \<Rightarrow> OperationRef list" where
  "storageOperation (SitDownTask u b request session send op) = [op]"
| "storageOperation (RollbackTask k u key op) = [op]"
| "storageOperation (BeginHandTask u k request send start op) = [op]"
| "storageOperation (StoreActionTask u k request send snap audit action settle op) = [op]"
| "storageOperation (CashOutTask k u key request session send op) = [op]"
| "storageOperation (StoreTimeoutTask k action settle after audit op) = [op]"
| "storageOperation _ = []"

text \<open>The end of a room's task \<open>f\<close> that left the rooms \<open>w\<close>: the callback runs with the reply. When there is no reply,
  an exception has left the task; the closure is destroyed and with it its operation.\<close>

definition endRoomTask :: "'w Setup \<Rightarrow> RoomTask \<Rightarrow> 'r Rooms \<Rightarrow> ('w, 'r) Service \<Rightarrow> ('w, 'r) Service" where
  "endRoomTask p f w s =
     (let s1 = s\<lparr>room_manager := (fst (room_manager s), w\<lparr>replies := []\<rparr>)\<rparr> in
      case taskCallback f of
        None \<Rightarrow> s1
      | Some n \<Rightarrow>
          (case map_of (callbacks s) n of
             None \<Rightarrow> s1
           | Some cb \<Rightarrow>
               (let s2 = s1\<lparr>callbacks := erase n (callbacks s)\<rparr>
                in case replies w of
                     [] \<Rightarrow> fold finish (callbackOperation cb) s2
                   | r # rs \<Rightarrow> runCallback p cb (snd r) s2)))"

text \<open>The requests that nobody will answer because an exception left the task.\<close>

definition lostCallback :: "exn option \<Rightarrow> RoomTask \<Rightarrow> ('w, 'r) Service \<Rightarrow> (Send \<times> u64) list" where
  "lostCallback e f s =
     (if e = None then []
      else case Option.bind (taskCallback f) (map_of (callbacks s)) of None \<Rightarrow> [] | Some cb \<Rightarrow> callbackRequest cb)"

definition lostTask :: "exn option \<Rightarrow> StorageTask \<Rightarrow> (Send \<times> u64) list" where
  "lostTask e f = (if e = None then [] else storageRequest f)"

definition setExecutor :: "RoomTask RoomExecutor \<Rightarrow> ('w, 'r) Service \<Rightarrow> ('w, 'r) Service" where
  "setExecutor e s = s\<lparr>room_manager := (e, snd (room_manager s))\<rparr>"

definition releaseShard :: "nat \<Rightarrow> RoomTask RoomExecutor \<Rightarrow> RoomTask RoomExecutor" where
  "releaseShard i e = setShard i ((shards e ! i)\<lparr>worker := (worker (shards e ! i))\<lparr>current := None\<rparr>\<rparr>) e"

definition releaseWorker :: "nat \<Rightarrow> StorageTask BlockingExecutor \<Rightarrow> StorageTask BlockingExecutor" where
  "releaseWorker i b = b\<lparr>workers := (workers b)[i := (workers b ! i)\<lparr>current := None\<rparr>]\<rparr>"

text \<open>A run of the server: the requests handled, those lost to exceptions, and the state. \<open>outside\<close> is what the rest of
  the world does to the services: time passes, other nodes use the shared stores.\<close>

inductive service_run :: "'w Setup \<Rightarrow> ('r \<Rightarrow> u32 \<times> 'r) \<Rightarrow> ('w \<Rightarrow> 'w \<Rightarrow> bool) \<Rightarrow> ('w, 'r) Service \<Rightarrow> (Send \<times> u64) list
    \<Rightarrow> (Send \<times> u64) list \<Rightarrow> ('w, 'r) Service \<Rightarrow> bool"
  for p device outside start where
  begins: "service_run p device outside start [] [] start"
| connects: "service_run p device outside start hs ls s \<Longrightarrow> service_run p device outside start hs ls (setSession session newSession s)"
| handles: "service_run p device outside start hs ls s \<Longrightarrow>
    service_run p device outside start (hs @ [(send, request_id request)]) ls (handle p request session send s)"
| disconnects: "service_run p device outside start hs ls s \<Longrightarrow> service_run p device outside start hs ls (onDisconnect p session s)"
| fires: "service_run p device outside start hs ls s \<Longrightarrow> i < length (timers s) \<Longrightarrow>
    service_run p device outside start hs ls
      (runTimer p (snd (timers s ! i)) (s\<lparr>timers := take i (timers s) @ drop (Suc i) (timers s)\<rparr>))"
| shard_wakes: "service_run p device outside start hs ls s \<Longrightarrow> e = fst (room_manager s) \<Longrightarrow> i < length (shards e) \<Longrightarrow>
    current (worker (shards e ! i)) = None \<Longrightarrow> \<not> exited (worker (shards e ! i)) \<Longrightarrow> wakeShard i e = Some e' \<Longrightarrow>
    service_run p device outside start hs ls (setExecutor e' s)"
| shard_runs: "service_run p device outside start hs ls s \<Longrightarrow> e = fst (room_manager s) \<Longrightarrow> i < length (shards e) \<Longrightarrow>
    current (worker (shards e ! i)) = Some f \<Longrightarrow> performTask device f (snd (room_manager s)) = Some (ex, w) \<Longrightarrow>
    service_run p device outside start hs (ls @ lostCallback ex f s) (endRoomTask p f w (setExecutor (releaseShard i e) s))"
| shard_stops: "service_run p device outside start hs ls s \<Longrightarrow> e = fst (room_manager s) \<Longrightarrow> i < length (shards e) \<Longrightarrow>
    service_run p device outside start hs ls (setExecutor (signalStop i e) s)"
| worker_wakes: "service_run p device outside start hs ls s \<Longrightarrow> b = storage_executor s \<Longrightarrow> i < length (workers b) \<Longrightarrow>
    current (workers b ! i) = None \<Longrightarrow> \<not> exited (workers b ! i) \<Longrightarrow> wakeWorker i b = Some b' \<Longrightarrow>
    service_run p device outside start hs ls (s\<lparr>storage_executor := b'\<rparr>)"
| worker_runs: "service_run p device outside start hs ls s \<Longrightarrow> b = storage_executor s \<Longrightarrow> i < length (workers b) \<Longrightarrow>
    current (workers b ! i) = Some f \<Longrightarrow> runStorageTask p f (s\<lparr>storage_executor := releaseWorker i b\<rparr>) = (ex, s') \<Longrightarrow>
    service_run p device outside start hs (ls @ lostTask ex f) s'"
| pool_stops: "service_run p device outside start hs ls s \<Longrightarrow>
    service_run p device outside start hs ls (s\<lparr>storage_executor := poolStop (storage_executor s)\<rparr>)"
| others: "service_run p device outside start hs ls s \<Longrightarrow> outside (world s) w \<Longrightarrow>
    service_run p device outside start hs ls (s\<lparr>world := w\<rparr>)"

section \<open>Accounts\<close>

named_theorems accounting "the change of the accounts by the primitives of the service"

fun answerOf :: "Output \<Rightarrow> (Send \<times> u64) list" where
  "answerOf (Sent send e) = [(send, request_id e)]"
| "answerOf (Pushed u e) = []"

definition answered :: "('w, 'r) Service \<Rightarrow> (Send \<times> u64) multiset" where
  "answered s = mset (concat (map answerOf (outbox s)))"

definition roomTasks :: "RoomTask RoomExecutor \<Rightarrow> RoomTask list" where
  "roomTasks e = concat (map (\<lambda>x. inHand (worker x) @ tasks x) (shards e))"

definition storageTasks :: "StorageTask BlockingExecutor \<Rightarrow> StorageTask list" where
  "storageTasks b = concat (map inHand (workers b)) @ pool_tasks b"

definition owed :: "('w, 'r) Service \<Rightarrow> (Send \<times> u64) multiset" where
  "owed s = mset (concat (map (\<lambda>(n, cb). callbackRequest cb) (callbacks s))) +
     mset (concat (map storageRequest (storageTasks (storage_executor s))))"

definition held_operations :: "('w, 'r) Service \<Rightarrow> OperationRef multiset" where
  "held_operations s = mset (concat (map (\<lambda>(n, cb). callbackOperation cb) (callbacks s))) +
     mset (concat (map storageOperation (storageTasks (storage_executor s))))"

definition open_operations :: "('w, 'r) Service \<Rightarrow> OperationRef list" where
  "open_operations s = filter (\<lambda>i. owned (operations s ! i)) [0..<length (operations s)]"

definition taskToken :: "RoomTask \<Rightarrow> Callback list" where
  "taskToken f = (case taskCallback f of None \<Rightarrow> [] | Some n \<Rightarrow> [n])"

text \<open>Cached answers belong to the request they are cached for.\<close>

definition cache_answers :: "'w Setup \<Rightarrow> IdempotencyCache \<Rightarrow> bool" where
  "cache_answers p c \<longleftrightarrow> (\<forall>u st r e bytes. map_of (users c) u = Some st \<longrightarrow> map_of (entries st) r = Some e \<longrightarrow>
     response e = Some bytes \<longrightarrow> (\<exists>x. bytes = serialize p x \<and> request_id x = r))"

definition locks_ok :: "OperationRef multiset \<Rightarrow> ('w, 'r) Service \<Rightarrow> bool" where
  "locks_ok L s \<longleftrightarrow> mset (open_operations s) = held_operations s + L \<and>
     distinct (map (\<lambda>i. operation_table (operations s ! i)) (open_operations s)) \<and>
     active_table_operations s = (\<lambda>i. operation_table (operations s ! i)) ` set (open_operations s)"

definition rooms_idle :: "('w, 'r) Service \<Rightarrow> bool" where
  "rooms_idle s \<longleftrightarrow> replies (snd (room_manager s)) = [] \<and> shards (fst (room_manager s)) \<noteq> [] \<and> assoc (callbacks s) \<and>
     mset (map fst (callbacks s)) = mset (concat (map taskToken (roomTasks (fst (room_manager s))))) \<and>
     (\<forall>n \<in> fst ` set (callbacks s). n < next_callback s)"

definition balanced :: "'w Setup \<Rightarrow> ('w \<Rightarrow> bool) \<Rightarrow> (Send \<times> u64) multiset \<Rightarrow> OperationRef multiset \<Rightarrow> ('w, 'r) Service \<Rightarrow> bool" where
  "balanced p P R L s \<longleftrightarrow> answered s + owed s = R \<and> locks_ok L s \<and> rooms_idle s \<and> cache_answers p (idempotency s) \<and> P (world s)"

end
