(* ===== verification/Protocol_Accounts.thy ===== *)
theory Protocol_Accounts
  imports Protocol_Run
begin

text \<open>
  The accounts of \<open>Protocol_Run\<close> under every operation of the service: a handler that is called with a request adds
  exactly this request to the answers sent and owed, and passes the table operation it holds on to one closure or ends
  it. The lemmas are proved in the locale \<open>lawful_services\<close>, the contract of the services behind the references: their
  operations keep a property \<open>P\<close> of their state.
\<close>

section \<open>Primitives\<close>

lemmas balanced_defs = balanced_def answered_def owed_def locks_ok_def held_operations_def open_operations_def rooms_idle_def

lemma balanced_frame [simp]:
  "balanced p P R L (s\<lparr>metrics := m\<rparr>) = balanced p P R L s"
  "balanced p P R L (s\<lparr>sessions := ss\<rparr>) = balanced p P R L s"
  "balanced p P R L (s\<lparr>timers := ts\<rparr>) = balanced p P R L s"
  "balanced p P R L (s\<lparr>latest_timeout_sequences := lt\<rparr>) = balanced p P R L s"
  by (simp_all add: balanced_defs)

lemma balanced_world [simp]: "balanced p P R L s \<Longrightarrow> balanced p P R L (s\<lparr>world := w\<rparr>) = P w"
  by (simp add: balanced_defs)

lemma balanced_P: "balanced p P R L s \<Longrightarrow> P (world s)"
  by (simp add: balanced_def)

lemma balanced_meter [simp]: "balanced p P R L (meter f s) = balanced p P R L s"
  by (simp add: meter_def)

lemma balanced_setSession [simp]: "balanced p P R L (setSession ref x s) = balanced p P R L s"
  by (simp add: setSession_def)

lemma balanced_schedule [simp]: "balanced p P R L (schedule d t s) = balanced p P R L s"
  by (simp add: schedule_def)

lemma balanced_pushTo [simp]: "balanced p P R L (pushTo u e s) = balanced p P R L s"
  by (simp add: pushTo_def balanced_defs)

lemma balanced_sendTo: "balanced p P R L s \<Longrightarrow> request_id e = r \<Longrightarrow> balanced p P (add_mset (send, r) R) L (sendTo send e s)"
  by (simp add: sendTo_def balanced_defs)

lemma balanced_rooms:
  "replies w' = replies w \<Longrightarrow> room_manager s = (e, w) \<Longrightarrow> balanced p P R L (s\<lparr>room_manager := (e, w')\<rparr>) = balanced p P R L s"
  by (simp add: balanced_defs)

subsection \<open>The cache\<close>

lemma cache_answers_reset: "cache_answers p c \<Longrightarrow> cache_answers p (resetUser u c)"
  by (auto simp: cache_answers_def resetUser_def map_simps split: if_splits)

lemma cache_answers_put:
  "cache_answers p c \<Longrightarrow> (\<And>r e bytes. map_of (entries st) r = Some e \<Longrightarrow> response e = Some bytes \<Longrightarrow> \<exists>x. bytes = serialize p x \<and> request_id x = r) \<Longrightarrow>
   cache_answers p (c\<lparr>users := put u st (users c)\<rparr>)"
  by (auto simp: cache_answers_def map_simps split: if_splits)

lemma cache_answers_state:
  "cache_answers p c \<Longrightarrow> map_of (entries (stateOf c u)) r = Some e \<Longrightarrow> response e = Some bytes \<Longrightarrow> \<exists>x. bytes = serialize p x \<and> request_id x = r"
  by (auto simp: cache_answers_def stateOf_def emptyState_def split: option.splits)

lemma cache_answers_complete:
  assumes "cache_answers p c" "request_id x = r"
  shows "cache_answers p (snd (complete u r (serialize p x) c))"
proof (cases "map_of (users c) u")
  case (Some st)
  show ?thesis
  proof (cases "map_of (entries st) r")
    case (Some e)
    have "\<exists>y. bytes = serialize p y \<and> request_id y = k"
      if "map_of (put r (e\<lparr>response := Some (serialize p x)\<rparr>) (entries st)) k = Some e'" "response e' = Some bytes" for k e' bytes
      using that assms \<open>map_of (users c) u = Some st\<close> by (auto simp: map_simps cache_answers_def split: if_splits)
    then show ?thesis using Some \<open>map_of (users c) u = Some st\<close> assms(1)
      by (auto simp: complete_def intro!: cache_answers_put)
  qed (use Some assms in \<open>simp add: complete_def\<close>)
qed (use assms in \<open>simp add: complete_def\<close>)

lemma evictLoop_entries: "evictLoop n es rs = (es', rs') \<Longrightarrow> map_of es' r = Some e \<Longrightarrow> map_of es r = Some e"
  by (induction n es rs arbitrary: es' rs' rule: evictLoop.induct)
    (fastforce simp: map_simps split: if_splits option.splits prod.splits)+

lemma evictOldest_entries: "map_of (entries (evictOldest n st)) r = Some e \<Longrightarrow> map_of (entries st) r = Some e"
  by (auto simp: evictOldest_def split: prod.splits dest: evictLoop_entries)

lemma cache_answers_begin:
  assumes "cache_answers p c" "beginRequest u r n c = (d, c')"
  shows "cache_answers p c' \<and> (\<forall>bytes. cached_response d = Some bytes \<longrightarrow> (\<exists>x. bytes = serialize p x \<and> request_id x = r))"
proof -
  have old: "map_of (entries (stateOf c u)) k = Some e \<Longrightarrow> response e = Some bytes \<Longrightarrow> \<exists>x. bytes = serialize p x \<and> request_id x = k" for k e bytes
    by (rule cache_answers_state [OF assms(1)])
  let ?st = "evictOldest (max_requests_per_user c) (stateOf c u)"
  have evicted: "map_of (entries ?st) k = Some e \<Longrightarrow> response e = Some bytes \<Longrightarrow> \<exists>x. bytes = serialize p x \<and> request_id x = k" for k e bytes
    using old evictOldest_entries by blast
  have keep: "cache_answers p (c\<lparr>users := put u (stateOf c u) (users c)\<rparr>)" "cache_answers p (c\<lparr>users := put u ?st (users c)\<rparr>)"
    using cache_answers_put [OF assms(1)] old evicted by blast+
  have "cache_answers p (c\<lparr>users := put u (?st\<lparr>last_sequence := n, entries := put r \<lparr>entry_sequence = n, response = None\<rparr> (entries ?st),
      insertion_order := insertion_order ?st @ [r]\<rparr>) (users c)\<rparr>)"
    using evicted by (intro cache_answers_put [OF assms(1)]) (auto simp: map_simps split: if_splits)
  with keep show ?thesis
    using assms old by (auto simp: beginRequest_def Let_def decide_def split: if_splits option.splits)
qed

lemma balanced_reset [simp]: "balanced p P R L s \<Longrightarrow> balanced p P R L (s\<lparr>idempotency := resetUser u (idempotency s)\<rparr>)"
  by (simp add: balanced_defs cache_answers_reset)

subsection \<open>Table operations\<close>

lemma distinct_open: "distinct (open_operations s)"
  by (simp add: open_operations_def)

lemma open_iff: "i \<in> set (open_operations s) \<longleftrightarrow> i < length (operations s) \<and> owned (operations s ! i)"
  by (auto simp: open_operations_def)

lemma balanced_begin:
  assumes "balanced p P R L s" "beginTableOperation k s = (x, s1)"
  shows "case x of None \<Rightarrow> s1 = s | Some op \<Rightarrow> balanced p P R (add_mset op L) s1"
proof (cases x)
  case (Some op)
  then have op: "op = length (operations s)" "k \<notin> active_table_operations s"
    "s1 = s\<lparr>active_table_operations := insert k (active_table_operations s), operations := operations s @ [\<lparr>owned = True, operation_table = k\<rparr>]\<rparr>"
    using assms(2) by (auto simp: beginTableOperation_def split: if_splits)
  have os: "open_operations s1 = open_operations s @ [op]"
    unfolding open_operations_def op by (auto simp: nth_append intro!: filter_cong)
  have same: "operation_table (operations s1 ! i) = operation_table (operations s ! i)" if "i \<in> set (open_operations s)" for i
    using that op by (simp add: open_iff nth_append)
  have new: "operation_table (operations s1 ! op) = k" using op by simp
  have tables: "map (\<lambda>i. operation_table (operations s1 ! i)) (open_operations s) = map (\<lambda>i. operation_table (operations s ! i)) (open_operations s)"
    using same by simp
  have im: "(\<lambda>i. operation_table (operations s1 ! i)) ` set (open_operations s) = (\<lambda>i. operation_table (operations s ! i)) ` set (open_operations s)"
    using same by (auto intro!: image_cong)
  have fin: "held_operations s1 = held_operations s" "active_table_operations s1 = insert k (active_table_operations s)"
    by (simp_all add: op(3) held_operations_def)
  have old: "mset (open_operations s) = held_operations s + L" "distinct (map (\<lambda>i. operation_table (operations s ! i)) (open_operations s))"
      "active_table_operations s = (\<lambda>i. operation_table (operations s ! i)) ` set (open_operations s)"
    using assms(1) by (simp_all add: balanced_def locks_ok_def)
  have "locks_ok (add_mset op L) s1"
    unfolding locks_ok_def os fin map_append set_append image_Un im tables using old new op(2) by auto
  then show ?thesis
    using assms(1) op(3) Some by (simp add: balanced_def answered_def owed_def rooms_idle_def)
qed (use assms in \<open>auto simp: beginTableOperation_def split: if_splits\<close>)

lemma balanced_finish [accounting]:
  assumes "balanced p P R (add_mset op L) s"
  shows "balanced p P R L (finish op s)"
proof -
  have ops: "mset (open_operations s) = add_mset op (held_operations s + L)"
    using assms by (simp add: balanced_def locks_ok_def)
  then have mem: "op \<in> set (open_operations s)" by (metis set_mset_mset union_single_eq_member add_mset_add_single union_commute)
  then have op: "op < length (operations s)" "owned (operations s ! op)" by (simp_all add: open_iff)
  let ?t = "\<lambda>i. operation_table (operations s ! i)"
  let ?s = "finish op s"
  have fin: "operations ?s = (operations s)[op := (operations s ! op)\<lparr>owned := False\<rparr>]"
      "active_table_operations ?s = active_table_operations s - {?t op}"
      "callbacks ?s = callbacks s" "storage_executor ?s = storage_executor s" "world ?s = world s" "idempotency ?s = idempotency s"
      "room_manager ?s = room_manager s" "next_callback ?s = next_callback s" "outbox ?s = outbox s"
    using op by (simp_all add: finish_def finishTableOperation_def)
  have tables: "operation_table (operations ?s ! i) = ?t i" for i
    using fin(1) op(1) by (cases "i = op") auto
  have os: "open_operations ?s = remove1 op (open_operations s)"
    unfolding distinct_remove1_removeAll [OF distinct_open] unfolding open_operations_def fin(1)
    using op(1) by (auto simp: nth_list_update removeAll_filter_not_eq intro!: filter_cong)
  have dist: "distinct (map ?t (open_operations s))" "active_table_operations s = ?t ` set (open_operations s)"
    using assms by (simp_all add: balanced_def locks_ok_def)
  have "set (remove1 op (open_operations s)) = set (open_operations s) - {op}" using distinct_open by (rule set_remove1_eq)
  moreover have "inj_on ?t (set (open_operations s))" using dist(1) by (simp add: distinct_map)
  ultimately have "?t ` set (remove1 op (open_operations s)) = active_table_operations s - {?t op}"
    "distinct (map ?t (remove1 op (open_operations s)))"
    using dist(2) mem distinct_remove1 [OF distinct_open] by (auto simp: distinct_map inj_on_def)
  then have "locks_ok L ?s" using os ops fin tables by (simp add: locks_ok_def held_operations_def)
  then show ?thesis using assms fin by (simp add: balanced_def answered_def owed_def rooms_idle_def)
qed

subsection \<open>The storage executor\<close>

lemma balanced_post:
  assumes "balanced p P R K s" "mset (storageOperation t) \<subseteq># K" "postStorage t s = (queued, s1)"
  shows "if queued then balanced p P (R + mset (storageRequest t)) (K - mset (storageOperation t)) s1 else balanced p P R K s1"
proof (cases queued)
  case True
  obtain L where K: "K = L + mset (storageOperation t)" using assms(2) by (metis subset_mset.le_iff_add union_commute)
  have "s1 = s\<lparr>storage_executor := (storage_executor s)\<lparr>pool_tasks := pool_tasks (storage_executor s) @ [t]\<rparr>\<rparr>"
    using assms(3) True by (auto simp: postStorage_def poolPost_def split: if_splits)
  then show ?thesis using assms(1) K True by (auto simp: balanced_defs storageTasks_def ac_simps)
next
  case False
  then have "s1 = s" using assms(3) by (auto simp: postStorage_def poolPost_def split: if_splits)
  then show ?thesis using assms(1) False by simp
qed

lemma balanced_postStorage:
  assumes "balanced p P R K s" "mset (storageOperation t) \<subseteq># K"
    and "\<And>s1. balanced p P (R + mset (storageRequest t)) (K - mset (storageOperation t)) s1 \<Longrightarrow> balanced p P R' L' (g True s1)"
    and "\<And>s1. balanced p P R K s1 \<Longrightarrow> balanced p P R' L' (g False s1)"
  shows "balanced p P R' L' (case postStorage t s of (queued, s1) \<Rightarrow> g queued s1)"
proof -
  obtain queued s1 where q: "postStorage t s = (queued, s1)" by (metis surj_pair)
  show ?thesis using balanced_post [OF assms(1,2) q] assms(3,4) q by (cases queued) auto
qed

subsection \<open>The rooms\<close>

text \<open>The methods of the room manager that take a callback.\<close>

definition room_method :: "(Callback option \<Rightarrow> 'r RoomManager \<Rightarrow> bool \<times> 'r RoomManager) \<Rightarrow> bool" where
  "room_method m \<longleftrightarrow> (\<exists>k task missing busy. m = (\<lambda>cb. submit k (task cb) cb missing busy) \<and> (\<forall>cb ref. taskCallback (task cb ref) = cb))"

lemma room_methodI: "(\<And>cb ref. taskCallback (task cb ref) = cb) \<Longrightarrow> room_method (\<lambda>cb. submit k (task cb) cb missing busy)"
  unfolding room_method_def by (intro exI conjI allI) simp_all

lemma room_methods [accounting]:
  "room_method (roomSeatPlayer k i c b)" "room_method (roomRemovePlayer k i)" "room_method (roomSetReady k i v)"
  "room_method (roomStartHand k)" "room_method (roomAbortHand k)" "room_method (roomAct k h cmd)"
  "room_method (roomSetConnected k i v)" "room_method (roomSnapshot k viewer)" "room_method (roomAuditSnapshot k)"
  "room_method (onActionTimeout k i n)"
  unfolding roomSeatPlayer_def roomRemovePlayer_def roomSetReady_def roomStartHand_def roomAbortHand_def roomAct_def
    roomSetConnected_def roomSnapshot_def roomAuditSnapshot_def onActionTimeout_def submitError_def submitSnapshot_def submitAction_def
  by (intro room_methodI; simp)+

lemma concat_update:
  "i < length xs \<Longrightarrow> mset (concat (map g (xs[i := y]))) + mset (g (xs ! i)) = mset (concat (map g xs)) + mset (g y)"
proof (induction xs arbitrary: i)
  case (Cons x xs)
  then show ?case by (cases i) (auto simp: algebra_simps)
qed simp

lemma tasks_tokens: "mset (concat (map taskToken fs)) = (\<Sum>f \<in># mset fs. mset (taskToken f))"
  by (induction fs) auto

lemma post_tokens:
  assumes "post k (Some f) e = (True, e')" "shards e \<noteq> []"
  shows "shards e' \<noteq> []" "mset (roomTasks e') = add_mset f (mset (roomTasks e))"
proof -
  let ?i = "shardFor k e"
  have i: "?i < length (shards e)" using assms(2) by (simp add: shardFor_def)
  have e': "e' = setShard ?i ((shards e ! ?i)\<lparr>tasks := tasks (shards e ! ?i) @ [f]\<rparr>) e"
    using assms(1) by (auto simp: post_def Let_def split: if_splits)
  then show "shards e' \<noteq> []" using assms(2) by (simp add: setShard_def)
  show "mset (roomTasks e') = add_mset f (mset (roomTasks e))"
    using concat_update [OF i, of "\<lambda>x. inHand (worker x) @ tasks x" "(shards e ! ?i)\<lparr>tasks := tasks (shards e ! ?i) @ [f]\<rparr>"] e'
    by (simp add: roomTasks_def setShard_def)
qed

lemma submit_cases:
  assumes "room_method m" "m cb (e, w) = (queued, e', w')" "shards e \<noteq> []"
  shows "if queued then w' = w \<and> shards e' \<noteq> [] \<and>
      (\<exists>f. taskCallback f = cb \<and> mset (roomTasks e') = add_mset f (mset (roomTasks e))) else e' = e \<and> (\<exists>r. w' = callBack cb r w)"
proof -
  obtain k task missing busy where m: "m = (\<lambda>cb. submit k (task cb) cb missing busy)" "\<And>cb ref. taskCallback (task cb ref) = cb"
    using assms(1) unfolding room_method_def by blast
  show ?thesis
  proof (cases "findRoom k w")
    case None
    then show ?thesis using assms(2) m(1) by (auto simp: submit_def)
  next
    case (Some ref)
    obtain b e1 where b: "post k (Some (task cb ref)) e = (b, e1)" by (metis surj_pair)
    show ?thesis
    proof (cases b)
      case True
      then show ?thesis using assms(2,3) m Some b post_tokens [of k "task cb ref" e e1] by (auto simp: submit_def)
    next
      case False
      then have "e1 = e" using b by (auto simp: post_def Let_def split: if_splits)
      then show ?thesis using assms(2) m(1) Some b False by (auto simp: submit_def)
    qed
  qed
qed

lemma balanced_callRoom:
  assumes "room_method m" "balanced p P R K s" "mset (callbackOperation cb) \<subseteq># K"
    and "R' = R + mset (callbackRequest cb)" "L' = K - mset (callbackOperation cb)"
    and "\<And>r s1. balanced p P R K s1 \<Longrightarrow> balanced p P R' L' (continue r s1)"
  shows "balanced p P R' L' (callRoom m cb continue s)"
proof -
  obtain e w where mgr: "room_manager s = (e, w)" by (metis surj_pair)
  obtain queued e' w' where run: "m (Some (next_callback s)) (e, w) = (queued, e', w')" by (metis surj_pair)
  have idle: "replies w = []" "shards e \<noteq> []" "assoc (callbacks s)" "\<forall>n \<in> fst ` set (callbacks s). n < next_callback s"
      "mset (map fst (callbacks s)) = mset (concat (map taskToken (roomTasks e)))"
    using assms(2) mgr by (simp_all add: balanced_def rooms_idle_def)
  note cases = submit_cases [OF assms(1) run idle(2)]
  show ?thesis
  proof (cases queued)
    case True
    have fresh: "map_of (callbacks s) (next_callback s) = None" using idle(4) by (force simp: map_of_eq_None_iff)
    have put: "put (next_callback s) cb (callbacks s) = callbacks s @ [(next_callback s, cb)]" by (rule put_absent [OF fresh])
    obtain L where L: "K = L + mset (callbackOperation cb)" using assms(3) by (metis subset_mset.le_iff_add union_commute)
    obtain f where f: "w' = w" "shards e' \<noteq> []" "taskCallback f = Some (next_callback s)"
        "mset (roomTasks e') = add_mset f (mset (roomTasks e))" using cases True by auto
    have eq: "callRoom m cb continue s = s\<lparr>room_manager := (e', w), callbacks := callbacks s @ [(next_callback s, cb)],
        next_callback := Suc (next_callback s)\<rparr>"
      using run mgr True f(1) put by (simp add: callRoom_def Let_def)
    have "mset (concat (map taskToken (roomTasks e'))) = add_mset (next_callback s) (mset (map fst (callbacks s)))"
      using idle(5) f(3,4) by (simp add: tasks_tokens taskToken_def)
    then have "rooms_idle (callRoom m cb continue s)"
      unfolding eq using idle f(2) by (auto simp: rooms_idle_def assoc_def less_Suc_eq)
    moreover have "locks_ok L' (callRoom m cb continue s)" "answered (callRoom m cb continue s) + owed (callRoom m cb continue s) = R'"
      unfolding eq using assms(2,4,5) L by (auto simp: balanced_defs)
    ultimately show ?thesis using assms(2) by (simp add: balanced_def eq)
  next
    case False
    then obtain r where r: "e' = e" "w' = callBack (Some (next_callback s)) r w" using cases by auto
    let ?s = "s\<lparr>room_manager := (e, w'\<lparr>replies := []\<rparr>), next_callback := Suc (next_callback s)\<rparr>"
    have "callRoom m cb continue s = continue r ?s"
      using run mgr False r idle(1) by (simp add: callRoom_def Let_def callBack_def)
    moreover have "balanced p P R K ?s"
      using assms(2) mgr by (auto simp: balanced_defs less_Suc_eq)
    ultimately show ?thesis using assms(6) by simp
  qed
qed

lemma balanced_quiet [simp]: "balanced p P R L s \<Longrightarrow> balanced p P R L (abortHandQuietly k s)"
proof -
  assume b: "balanced p P R L s"
  obtain e w where mgr: "room_manager s = (e, w)" by (metis surj_pair)
  obtain queued e' w' where run: "roomAbortHand k None (e, w) = (queued, e', w')" by (metis surj_pair)
  have idle: "shards e \<noteq> []" using b mgr by (simp add: balanced_def rooms_idle_def)
  have "w' = w" "shards e' \<noteq> []" "mset (concat (map taskToken (roomTasks e'))) = mset (concat (map taskToken (roomTasks e)))"
    using submit_cases [OF room_methods(5) run idle] idle by (auto simp: callBack_def tasks_tokens taskToken_def split: if_splits)
  then show ?thesis using b mgr run by (simp add: abortHandQuietly_def balanced_defs)
qed

section \<open>The contract of the services\<close>

definition keeps :: "('w \<Rightarrow> bool) \<Rightarrow> ('w \<Rightarrow> 'a \<times> 'w) \<Rightarrow> bool" where
  "keeps P f \<longleftrightarrow> (\<forall>w x w'. P w \<longrightarrow> f w = (x, w') \<longrightarrow> P w')"

locale lawful_services =
  fixes p :: "'w Setup"
    and P :: "'w \<Rightarrow> bool"
  assumes parse_serialize: "parse p (serialize p e) = Some e"
    and time_keeps: "keeps P (now_unix_ms (services p))"
    and register_keeps: "keeps P (register_user (services p) name password)"
    and login_keeps: "P w \<Longrightarrow> login_user (services p) name password now w = Inr (r, w') \<Longrightarrow> P w'"
    and refresh_keeps: "keeps P (refresh_token (services p) token now)"
    and logout_keeps: "keeps P (logout_token (services p) token)"
    and allocate_keeps: "keeps P (allocate_id (services p))"
    and ticket_keeps: "keeps P (consume_ticket (services p) token)"
    and assign_keeps: "keeps P (assign_new_table (services p) k u)"
    and route_keeps: "keeps P (route_existing_table (services p) k u node)"
    and find_keeps: "keeps P (find_table (game_store (services p)) k)"
    and list_keeps: "keeps P (list_open_tables (game_store (services p)) limit)"
    and create_keeps: "keeps P (create_table (game_store (services p)) x)"
    and buy_in_keeps: "keeps P (reserve_buy_in (game_store (services p)) k u n a q)"
    and cash_out_keeps: "keeps P (cash_out (game_store (services p)) k u q)"
    and begin_keeps: "keeps P (begin_hand (game_store (services p)) hand)"
    and append_keeps: "keeps P (append_action (game_store (services p)) y)"
    and settle_keeps: "keeps P (settle_hand (game_store (services p)) z)"
    and abort_keeps: "keeps P (abort_table_and_refund (game_store (services p)) k)"
begin

abbreviation sound :: "(Send \<times> u64) multiset \<Rightarrow> OperationRef multiset \<Rightarrow> ('w, 'r) Service \<Rightarrow> bool" where
  "sound \<equiv> balanced p P"

lemma sound_onWorld:
  assumes "keeps P f" "sound R L s" "\<And>x s1. sound R L s1 \<Longrightarrow> sound R' L' (g x s1)"
  shows "sound R' L' (case onWorld f s of (x, s1) \<Rightarrow> g x s1)"
proof -
  obtain x w where x: "f (world s) = (x, w)" by (metis surj_pair)
  then have "P w" using assms(1) balanced_P [OF assms(2)] by (auto simp: keeps_def)
  then have "sound R L (s\<lparr>world := w\<rparr>)" using assms(2) by simp
  then show ?thesis using assms(3) x by (simp add: onWorld_def)
qed

lemma sound_world: "keeps P f \<Longrightarrow> sound R L s \<Longrightarrow> onWorld f s = (x, s1) \<Longrightarrow> sound R L s1"
  using sound_onWorld [of f R L s R L "\<lambda>x s1. s1"] by simp

lemma sound_nowUnixMs:
  "sound R L s \<Longrightarrow> (\<And>x s1. sound R L s1 \<Longrightarrow> sound R' L' (g x s1)) \<Longrightarrow> sound R' L' (case nowUnixMs p s of (x, s1) \<Rightarrow> g x s1)"
  unfolding nowUnixMs_def by (rule sound_onWorld [OF time_keeps])

lemma sound_onRooms:
  assumes "\<And>w. replies (snd (f w)) = replies w" "sound R L s" "\<And>x s1. sound R L s1 \<Longrightarrow> sound R' L' (g x s1)"
  shows "sound R' L' (case onRooms f s of (x, s1) \<Rightarrow> g x s1)"
proof -
  obtain e w where mgr: "room_manager s = (e, w)" by (metis surj_pair)
  obtain x w' where x: "f w = (x, w')" by (metis surj_pair)
  have "sound R L (s\<lparr>room_manager := (e, w')\<rparr>)" using balanced_rooms [OF _ mgr, of w'] assms(1) [of w] assms(2) x by simp
  then show ?thesis using assms(3) mgr x by (simp add: onRooms_def)
qed

lemma room_replies [simp]: "replies (snd (roomCreateTable k cfg w)) = replies w" "replies (snd (roomCloseTable k w)) = replies w"
  by (auto simp: roomCreateTable_def roomCloseTable_def split: option.splits)

section \<open>Answers and views\<close>

lemma sound_reply [accounting]: "sound R L s \<Longrightarrow> sound (add_mset (send, request_id request) R) L (reply p u request resp send s)"
proof -
  assume b: "sound R L s"
  let ?r = "resp\<lparr>protocol_version := 1, request_id := request_id request\<rparr>"
  let ?s = "s\<lparr>idempotency := snd (complete u (request_id request) (serialize p ?r) (idempotency s))\<rparr>"
  have "cache_answers p (snd (complete u (request_id request) (serialize p ?r) (idempotency s)))"
    using b by (intro cache_answers_complete) (simp_all add: balanced_def)
  then have "sound R L ?s" using b by (simp add: balanced_defs)
  then show ?thesis by (simp add: reply_def Let_def balanced_sendTo)
qed

lemma sound_failRequest [accounting]:
  "sound R L s \<Longrightarrow> sound (add_mset (send, request_id request) R) L (failRequest p request code message send u s)"
  by (auto simp: failRequest_def Let_def errorEnvelope_def split: option.split intro!: sound_reply balanced_sendTo)

lemma sound_failTable [accounting]:
  "sound R L s \<Longrightarrow> sound (add_mset (send, request_id request) R) L (failTable p request e send u s)"
  unfolding failTable_def by (rule sound_failRequest)

lemma sound_failQueue [accounting]:
  "sound R L s \<Longrightarrow> sound (add_mset (send, request_id request) R) L (failQueue p request send u s)"
  unfolding failQueue_def by (rule sound_failRequest)

lemma sound_acknowledge [accounting]:
  "sound R L s \<Longrightarrow> sound (add_mset (send, request_id request) R) L (acknowledge p u request message send s)"
  unfolding acknowledge_def by (rule sound_reply)

lemma sound_postOrFail:
  assumes "sound R K s" "mset (storageOperation t) \<subseteq># K" "storageRequest t = [(send, request_id request)]" "L' = K - mset (storageOperation t)"
    and "\<And>s1. sound (add_mset (send, request_id request) R) K s1 \<Longrightarrow> sound (add_mset (send, request_id request) R) L' (release s1)"
  shows "sound (add_mset (send, request_id request) R) L' (postOrFail p request send u t release s)"
  unfolding postOrFail_def
  by (rule balanced_postStorage [OF assms(1,2)]) (use assms(3-5) in \<open>auto intro: accounting\<close>)

lemma sound_onBroadcast: "sound R L s \<Longrightarrow> sound R L (onBroadcast p k u r s)"
  by (simp add: onBroadcast_def)

lemma sound_broadcastPlayer: "sound R L s \<Longrightarrow> sound R L (broadcastPlayer p k u s)"
  unfolding broadcastPlayer_def by (rule balanced_callRoom [OF room_methods(8)]) (auto intro: sound_onBroadcast)

lemma sound_broadcastSnapshot [accounting]: "sound R L s \<Longrightarrow> sound R L (broadcastSnapshot p k source s)"
proof -
  have "sound R L s \<Longrightarrow> sound R L (fold (broadcastPlayer p k) us s)" for us
    by (induction us arbitrary: s) (simp_all add: sound_broadcastPlayer)
  then show "sound R L s \<Longrightarrow> sound R L (broadcastSnapshot p k source s)" by (simp add: broadcastSnapshot_def)
qed

lemma sound_onViews: "sound R L s \<Longrightarrow> sound R L (onViews p k r s)"
  by (simp add: onViews_def sound_broadcastSnapshot)

lemma sound_pushTableEvent [accounting]: "sound R L s \<Longrightarrow> sound R L (pushTableEvent p k h n us type message s)"
proof -
  have "sound R L s \<Longrightarrow> sound R L (fold (\<lambda>u. pushTo u e) us s)" for e by (induction us arbitrary: s) simp_all
  then show "sound R L s \<Longrightarrow> sound R L (pushTableEvent p k h n us type message s)" by (simp add: pushTableEvent_def)
qed

section \<open>Aborted tables and timeouts\<close>

lemma sound_retryRefund [accounting]: "sound R L s \<Longrightarrow> sound R L (retryRefund p k h n us a s)"
  by (simp add: retryRefund_def sound_pushTableEvent)

lemma sound_onRefundTimer: "sound R L s \<Longrightarrow> sound R L (onRefundTimer p k h n us a s)"
  unfolding onRefundTimer_def by (rule balanced_postStorage) (auto intro: accounting)

lemma sound_runRefund: "sound R L s \<Longrightarrow> sound R L (runRefund p k h n us a s)"
  unfolding runRefund_def by (rule sound_onWorld [OF abort_keeps]) (auto intro: accounting simp: sound_retryRefund)

lemma sound_abortTable [accounting]: "sound R L s \<Longrightarrow> sound R L (abortTableAndNotify p k audit reason b s)"
proof -
  assume "sound R L s"
  then have closed: "sound R L (snd (onRooms (roomCloseTable k) s))"
    using sound_onRooms [of "roomCloseTable k" R L s R L "\<lambda>x s1. s1"] by (simp add: case_prod_unfold)
  show ?thesis
  proof (cases b)
    case True
    then show ?thesis unfolding abortTableAndNotify_def Let_def if_P [OF True]
      by (intro sound_onWorld [OF abort_keeps closed]) (simp add: accounting)
  next
    case False
    then show ?thesis using closed by (simp add: abortTableAndNotify_def Let_def accounting)
  qed
qed

lemma sound_scheduleTimeout [accounting]: "sound R L s \<Longrightarrow> sound R L (scheduleTimeout p k snap s)"
  by (auto simp: scheduleTimeout_def Let_def split: option.split)

lemma sound_storeAction:
  assumes "sound R L s" "\<And>x s1. sound R L s1 \<Longrightarrow> sound R' L' (g x s1)"
  shows "sound R' L' (case storeAction p action settle s of (x, s1) \<Rightarrow> g x s1)"
proof -
  obtain x1 s1 where a: "onWorld (append_action (game_store (services p)) action) s = (x1, s1)" by (metis surj_pair)
  have s1: "sound R L s1" by (rule sound_world [OF append_keeps assms(1) a])
  show ?thesis
  proof (cases "stored x1 \<and> settle \<noteq> None")
    case True
    then obtain z where z: "settle = Some z" by auto
    obtain x2 s2 where b: "onWorld (settle_hand (game_store (services p)) z) s1 = (x2, s2)" by (metis surj_pair)
    have "sound R L s2" by (rule sound_world [OF settle_keeps s1 b])
    then show ?thesis using a b z True assms(2) by (simp add: storeAction_def)
  next
    case False
    then show ?thesis using a s1 assms(2) by (auto simp: storeAction_def split: option.split)
  qed
qed

lemma sound_runStoreTimeout: "sound R (add_mset op L) s \<Longrightarrow> sound R L (runStoreTimeout p k action settle after audit op s)"
  unfolding runStoreTimeout_def by (rule sound_storeAction) (auto split: StoreOutcome.split intro!: accounting)

lemma sound_onTimeoutActed: "sound R (add_mset op L) s \<Longrightarrow> sound R L (onTimeoutActed p k i n a op r s)"
  unfolding onTimeoutActed_def Let_def
  by (simp add: accounting, intro impI balanced_postStorage) (auto intro!: accounting)

lemma sound_onTimeoutAudit: "sound R L s \<Longrightarrow> sound R L (onTimeoutAudit p k i n a r s)"
proof -
  assume b: "sound R L s"
  obtain x s1 where x: "beginTableOperation k s = (x, s1)" by (metis surj_pair)
  have step: "case x of None \<Rightarrow> s1 = s | Some op \<Rightarrow> sound R (add_mset op L) s1" by (rule balanced_begin [OF b x])
  have "sound R L (callRoom (onActionTimeout k i n) (TimeoutActedCallback k i n a op) (onTimeoutActed p k i n a op) s1)"
    if "x = Some op" for op
    by (rule balanced_callRoom [OF room_methods(10), of p P R "add_mset op L"]) (use step that in \<open>auto intro: sound_onTimeoutActed\<close>)
  then show ?thesis using b x step by (auto simp: onTimeoutAudit_def Let_def split: option.split)
qed

lemma sound_onActionTimer: "sound R L s \<Longrightarrow> sound R L (onActionTimer p k i n a s)"
  unfolding onActionTimer_def by (auto intro!: balanced_callRoom room_methods sound_onTimeoutAudit)

section \<open>Requests about a table\<close>

lemma sound_withOperation:
  assumes "sound R L s" "\<And>op s1. sound R (add_mset op L) s1 \<Longrightarrow> sound (add_mset (send, request_id request) R) L (f op s1)"
  shows "sound (add_mset (send, request_id request) R) L (withOperation p k u request send f s)"
proof -
  obtain x s1 where x: "beginTableOperation k s = (x, s1)" by (metis surj_pair)
  show ?thesis
    using balanced_begin [OF assms(1) x] assms x by (auto simp: withOperation_def split: option.splits intro: accounting)
qed

lemma sound_onCurrent:
  "sound R L s \<Longrightarrow> sound (add_mset (send, request_id request) R) L (onCurrent p k u request send arm r s)"
  unfolding onCurrent_def Let_def by (auto intro!: accounting)

lemma sound_replyWithCurrent [accounting]:
  "sound R L s \<Longrightarrow> sound (add_mset (send, request_id request) R) L (replyWithCurrentSnapshot p k u request send arm s)"
  unfolding replyWithCurrentSnapshot_def by (rule balanced_callRoom [OF room_methods(8)]) (auto intro: sound_onCurrent)

lemma sound_onSnapshot: "sound R L s \<Longrightarrow> sound (add_mset (send, request_id request) R) L (onSnapshot p u request send r s)"
  unfolding onSnapshot_def by (auto intro: accounting)

lemma sound_handleSnapshot: "sound R L s \<Longrightarrow> sound (add_mset (send, request_id request) R) L (handleSnapshot p u request send s)"
proof -
  assume b: "sound R L s"
  have "sound (add_mset (send, request_id request) R) L (callRoom (roomSnapshot k v) (SnapshotCallback u request send) (onSnapshot p u request send) s)" for k v
    by (rule balanced_callRoom [OF room_methods(8) b]) (auto intro: sound_onSnapshot)
  then show ?thesis using b by (auto simp: handleSnapshot_def split: Body.split intro: accounting)
qed

lemma sound_onReconnect: "sound R L s \<Longrightarrow> sound (add_mset (send, request_id request) R) L (onReconnect p u k request send r s)"
  unfolding onReconnect_def by (auto intro!: accounting)

lemma sound_handleReconnect:
  "sound R L s \<Longrightarrow> sound (add_mset (send, request_id request) R) L (handleReconnect p u request session send s)"
proof -
  assume b: "sound R L s"
  have "sound (add_mset (send, request_id request) R) L
      (callRoom (roomSetConnected k u True) (ReconnectCallback u k request send) (onReconnect p u k request send) (setSession session x s))" for k x
    by (rule balanced_callRoom [OF room_methods(7), of p P R L]) (use b in \<open>auto intro: sound_onReconnect\<close>)
  then show ?thesis using b by (auto simp: handleReconnect_def split: Body.split intro: accounting)
qed

lemma sound_onDisconnected: "sound R L s \<Longrightarrow> sound R L (onDisconnected p k r s)"
  unfolding onDisconnected_def by (auto intro!: accounting)

lemma sound_onDisconnect: "sound R L s \<Longrightarrow> sound R L (onDisconnect p session s)"
proof -
  assume b: "sound R L s"
  have "sound R L (callRoom (roomSetConnected k u False) (DisconnectCallback k) (onDisconnected p k) s)" for k u
    by (rule balanced_callRoom [OF room_methods(7) b]) (auto intro: sound_onDisconnected)
  then show ?thesis using b by (auto simp: onDisconnect_def split: option.split)
qed

lemma sound_setConnected [accounting]:
  "sound R L s \<Longrightarrow> sound R L (callRoom (roomSetConnected k u v) (ViewsCallback k) (onViews p k) s)"
  by (rule balanced_callRoom [OF room_methods(7)]) (auto intro: sound_onViews)

lemma sound_leftView [accounting]: "sound R L s \<Longrightarrow> sound R L (callRoom (roomSnapshot k v) (ViewsCallback k) (onViews p k) s)"
  by (rule balanced_callRoom [OF room_methods(8)]) (auto intro: sound_onViews)

section \<open>Commands that hold a table operation\<close>

text \<open>Each of these is called with an operation to hold and a request to answer.\<close>

lemma sound_onSeatedView:
  "sound R (add_mset op L) s \<Longrightarrow> sound (add_mset (send, request_id request) R) L (onSeatedView p u b request send op r s)"
  unfolding onSeatedView_def by (auto intro!: accounting)

lemma sound_runRollback: "sound R (add_mset op L) s \<Longrightarrow> sound R L (runRollback p k u key op s)"
  unfolding runRollback_def by (rule sound_onWorld [OF cash_out_keeps]) (auto intro!: accounting)

lemma sound_onSeated:
  assumes "sound R (add_mset op L) s"
  shows "sound (add_mset (send, request_id request) R) L (onSeated p u b request session send op r s)"
proof (cases "replyError r = ok")
  case True
  then show ?thesis unfolding onSeated_def
    using assms by (simp, intro balanced_callRoom [OF room_methods(8), of p P R "add_mset op L"]) (auto intro: sound_onSeatedView)
next
  case False
  then show ?thesis unfolding onSeated_def
    by (simp, intro balanced_postStorage [OF assms]) (auto intro!: accounting)
qed

lemma sound_runSitDown:
  assumes "sound R (add_mset op L) s"
  shows "sound (add_mset (send, request_id request) R) L (runSitDown p u b request session send op s)"
proof -
  have fail: "sound (add_mset (send, request_id request) R) L (finish op (failRequest p request code message send (Some u) s1))"
    if "sound R (add_mset op L) s1" for code message and s1 :: "('w, 'r) Service"
    using that by (intro accounting)
  have seat: "sound (add_mset (send, request_id request) R) L
      (callRoom (roomSeatPlayer k u n c) (SeatedCallback u b request session send op) (onSeated p u b request session send op) s1)"
    if "sound R (add_mset op L) s1" for k n c and s1 :: "('w, 'r) Service"
    by (rule balanced_callRoom [OF room_methods(1) that]) (auto intro: sound_onSeated)
  have buy: "sound (add_mset (send, request_id request) R) L
      (case onWorld (reserve_buy_in (game_store (services p)) k u n a q) s1 of
         (reserved, s3) \<Rightarrow>
           if \<not> succeeded reserved then finish op (failRequest p request (mapStorageError (storage_error reserved)) (storage_message reserved) send (Some u) s3)
           else callRoom (roomSeatPlayer k u (unat n) (table_stack (the (storage_value reserved)))) (SeatedCallback u b request session send op)
                  (onSeated p u b request session send op) s3)"
    if "sound R (add_mset op L) s1" for k n a q and s1 :: "('w, 'r) Service"
    by (rule sound_onWorld [OF buy_in_keeps that]) (auto intro: fail seat)
  show ?thesis unfolding runSitDown_def Let_def
    by (rule sound_onWorld [OF ticket_keeps assms])
      (auto intro!: fail buy sound_onWorld [OF find_keeps, where R = R and L = "add_mset op L"]
         sound_onRooms [where R = R and L = "add_mset op L"])
qed

lemma sound_handleSitDown:
  "sound R L s \<Longrightarrow> sound (add_mset (send, request_id request) R) L (handleSitDown p u request session send s)"
  unfolding handleSitDown_def
  by (cases "body request") (auto intro!: sound_withOperation sound_postOrFail accounting)

lemma sound_runBeginHand:
  "sound R (add_mset op L) s \<Longrightarrow> sound (add_mset (send, request_id request) R) L (runBeginHand p u k request send start op s)"
  unfolding runBeginHand_def by (rule sound_onWorld [OF begin_keeps]) (auto intro!: accounting)

lemma sound_onStartAudit:
  "sound R (add_mset op L) s \<Longrightarrow> sound (add_mset (send, request_id request) R) L (onStartAudit p u k request send op r s)"
  unfolding onStartAudit_def by (auto intro!: accounting, rule balanced_postStorage) (auto intro!: accounting)

lemma sound_onStarted:
  assumes "sound R (add_mset op L) s"
  shows "sound (add_mset (send, request_id request) R) L (onStarted p u k request send op r s)"
proof -
  have "sound (add_mset (send, request_id request) R) L
      (callRoom (roomAuditSnapshot k) (StartAuditCallback u k request send op) (onStartAudit p u k request send op) s)"
    by (rule balanced_callRoom [OF room_methods(9) assms]) (auto intro: sound_onStartAudit)
  then show ?thesis using assms by (auto simp: onStarted_def Let_def intro!: accounting)
qed

lemma sound_onReady:
  assumes "sound R (add_mset op L) s"
  shows "sound (add_mset (send, request_id request) R) L (onReady p u k v request send op r s)"
proof -
  have "sound (add_mset (send, request_id request) R) L
      (callRoom (roomStartHand k) (StartedCallback u k request send op) (onStarted p u k request send op) s)"
    by (rule balanced_callRoom [OF room_methods(4) assms]) (auto intro: sound_onStarted)
  then show ?thesis using assms by (auto simp: onReady_def intro!: accounting)
qed

lemma sound_handleReady: "sound R L s \<Longrightarrow> sound (add_mset (send, request_id request) R) L (handleReady p u request send s)"
proof -
  assume b: "sound R L s"
  have "sound (add_mset (send, request_id request) R) L
      (callRoom (roomSetReady k u v) (ReadyCallback u k v request send op) (onReady p u k v request send op) s1)"
    if "sound R (add_mset op L) s1" for k v op and s1 :: "('w, 'r) Service"
    by (rule balanced_callRoom [OF room_methods(3) that]) (auto intro: sound_onReady)
  then show ?thesis using b by (cases "body request") (auto simp: handleReady_def intro!: sound_withOperation accounting)
qed

lemma sound_runStoreAction:
  "sound R (add_mset op L) s \<Longrightarrow>
   sound (add_mset (send, request_id request) R) L (runStoreAction p u k request send snap audit action settle op s)"
  unfolding runStoreAction_def by (rule sound_storeAction) (auto split: StoreOutcome.split intro!: accounting)

lemma sound_onActed:
  "sound R (add_mset op L) s \<Longrightarrow> sound (add_mset (send, request_id request) R) L (onActed p u b request send op r s)"
  unfolding onActed_def Let_def by (simp add: accounting, intro impI balanced_postStorage) (auto intro!: accounting)

lemma sound_handleAction: "sound R L s \<Longrightarrow> sound (add_mset (send, request_id request) R) L (handleAction p u request send s)"
proof -
  assume b: "sound R L s"
  have "sound (add_mset (send, request_id request) R) L
      (callRoom (roomAct k h cmd) (ActedCallback u x request send op) (onActed p u x request send op) s1)"
    if "sound R (add_mset op L) s1" for k h cmd x op and s1 :: "('w, 'r) Service"
    by (rule balanced_callRoom [OF room_methods(6) that]) (auto intro: sound_onActed)
  then show ?thesis using b by (cases "body request") (auto simp: handleAction_def Let_def intro!: sound_withOperation accounting)
qed

lemma sound_onRemoved:
  "sound R (add_mset op L) s \<Longrightarrow> sound (add_mset (send, request_id request) R) L (onRemoved p k u request session send op r s)"
  unfolding onRemoved_def Let_def by (auto intro!: accounting)

lemma sound_runCashOut:
  assumes "sound R (add_mset op L) s"
  shows "sound (add_mset (send, request_id request) R) L (runCashOut p k u key request session send op s)"
proof -
  have "sound (add_mset (send, request_id request) R) L
      (callRoom (roomRemovePlayer k u) (RemovedCallback k u request session send op) (onRemoved p k u request session send op) s1)"
    if "sound R (add_mset op L) s1" for s1 :: "('w, 'r) Service"
    by (rule balanced_callRoom [OF room_methods(2) that]) (auto intro: sound_onRemoved)
  then show ?thesis unfolding runCashOut_def by (intro sound_onWorld [OF cash_out_keeps assms]) (auto intro!: accounting)
qed

lemma sound_onLeave:
  "sound R (add_mset op L) s \<Longrightarrow> sound (add_mset (send, request_id request) R) L (onLeave p k u request session send op r s)"
  unfolding onLeave_def by (auto intro!: sound_postOrFail accounting)

lemma sound_handleLeave: "sound R L s \<Longrightarrow> sound (add_mset (send, request_id request) R) L (handleLeave p u request session send s)"
proof -
  assume b: "sound R L s"
  have "sound (add_mset (send, request_id request) R) L
      (callRoom (roomSetReady k u v) (LeaveCallback k u request session send op) (onLeave p k u request session send op) s1)"
    if "sound R (add_mset op L) s1" for k v op and s1 :: "('w, 'r) Service"
    by (rule balanced_callRoom [OF room_methods(3) that]) (auto intro: sound_onLeave)
  then show ?thesis using b by (cases "body request") (auto simp: handleLeave_def intro!: sound_withOperation accounting)
qed

section \<open>Accounts, sessions and the lobby\<close>

lemma sound_runRegister: "sound R L s \<Longrightarrow> sound (add_mset (send, request_id request) R) L (runRegister p request name password send s)"
  unfolding runRegister_def by (rule sound_onWorld [OF register_keeps]) (auto intro!: accounting balanced_sendTo)

lemma sound_handleRegister: "sound R L s \<Longrightarrow> sound (add_mset (send, request_id request) R) L (handleRegister p request send s)"
  unfolding handleRegister_def by (cases "body request") (auto intro!: sound_postOrFail accounting)

lemma sound_startAuthentication:
  assumes "sound R L s" "\<And>already busy s1. sound R L s1 \<Longrightarrow> sound R' L' (g already busy s1)"
  shows "sound R' L' (case startAuthentication p session s of (already, busy, s1) \<Rightarrow> g already busy s1)"
proof -
  obtain now s1 where now: "(if session_user_id (sessions s session) \<noteq> None then nowUnixMs p s else (0, s)) = (now, s1)" by (metis surj_pair)
  have s1: "sound R L s1"
    using now assms(1) sound_world [OF time_keeps assms(1)] by (auto simp: nowUnixMs_def split: if_splits)
  show ?thesis
    using assms(2) s1 now by (auto simp: startAuthentication_def split: prod.splits)
qed

lemma sound_endAuthentication [accounting]: "sound R L s \<Longrightarrow> sound R L (endAuthentication session s)"
  by (simp add: endAuthentication_def)

lemma sound_installUser [accounting]: "sound R L s \<Longrightarrow> sound R L (installUser session a token s)"
  using balanced_reset [of p P R L "setSession session x s" for x] by (simp add: installUser_def Let_def)

lemma sound_runLogin:
  assumes "sound R L s" "runLogin p request name password session send s = (e, s')"
  shows "sound (R + (if e = None then {#(send, request_id request)#} else {#})) L s'"
proof -
  obtain now s1 where now: "nowUnixMs p s = (now, s1)" by (metis surj_pair)
  have s1: "sound R L s1" using sound_world [OF time_keeps assms(1)] now by (simp add: nowUnixMs_def)
  show ?thesis
  proof (cases "login_user (services p) name password now (world s1)")
    case (Inl ex)
    then show ?thesis using assms(2) now s1 by (auto simp: runLogin_def)
  next
    case (Inr x)
    then obtain logged_in w where x: "login_user (services p) name password now (world s1) = Inr (logged_in, w)" by (cases x) auto
    have s2: "sound R L (s1\<lparr>world := w\<rparr>)" using s1 login_keeps [OF balanced_P [OF s1] x] by simp
    show ?thesis
      using assms(2) now x s2 by (auto simp: runLogin_def Let_def split: if_splits intro!: accounting balanced_sendTo)
  qed
qed

lemma sound_handleLogin: "sound R L s \<Longrightarrow> sound (add_mset (send, request_id request) R) L (handleLogin p request session send s)"
  unfolding handleLogin_def
  by (cases "body request") (auto intro!: accounting sound_startAuthentication [where R = R and L = L] balanced_postStorage [where R = R and K = L])

lemma sound_runAuthenticate:
  "sound R L s \<Longrightarrow> sound (add_mset (send, request_id request) R) L (runAuthenticate p request token session send s)"
  unfolding runAuthenticate_def Let_def by (rule sound_nowUnixMs) (auto intro!: accounting balanced_sendTo)

lemma sound_handleAuthenticate:
  "sound R L s \<Longrightarrow> sound (add_mset (send, request_id request) R) L (handleAuthenticate p request session send s)"
  unfolding handleAuthenticate_def
  by (cases "body request") (auto intro!: accounting sound_startAuthentication [where R = R and L = L] balanced_postStorage [where R = R and K = L])

lemma sound_handleHeartbeat: "sound R L s \<Longrightarrow> sound (add_mset (send, request_id request) R) L (handleHeartbeat p request send s)"
  unfolding handleHeartbeat_def by (rule sound_nowUnixMs) (auto intro!: balanced_sendTo)

lemma sound_runLogout:
  "sound R L s \<Longrightarrow> sound (add_mset (send, request_id request) R) L (runLogout p token table u request session send s)"
  unfolding runLogout_def Let_def
  by (rule sound_onWorld [OF logout_keeps]) (auto split: option.split intro!: accounting balanced_reset)

lemma sound_handleLogout: "sound R L s \<Longrightarrow> sound (add_mset (send, request_id request) R) L (handleLogout p u request session send s)"
  unfolding handleLogout_def Let_def by (auto intro!: sound_postOrFail)

lemma sound_runRefresh:
  "sound R L s \<Longrightarrow> sound (add_mset (send, request_id request) R) L (runRefresh p token u request session send s)"
  unfolding runRefresh_def Let_def
  by (rule sound_nowUnixMs, assumption, rule sound_onWorld [OF refresh_keeps]) (auto intro!: accounting)

lemma sound_handleRefresh: "sound R L s \<Longrightarrow> sound (add_mset (send, request_id request) R) L (handleRefresh p u request session send s)"
  unfolding handleRefresh_def Let_def by (cases "body request") (auto intro!: sound_postOrFail accounting)

lemma sound_runCreateTable:
  "sound R L s \<Longrightarrow> sound (add_mset (send, request_id request) R) L (runCreateTable p u b cfg request send s)"
  unfolding runCreateTable_def Let_def
  by (rule sound_onWorld [OF allocate_keeps])
    (auto split: option.split intro!: accounting sound_onWorld [OF assign_keeps] sound_onWorld [OF create_keeps]
       sound_onRooms [where R = R and L = L])

lemma sound_handleCreateTable: "sound R L s \<Longrightarrow> sound (add_mset (send, request_id request) R) L (handleCreateTable p u request send s)"
  unfolding handleCreateTable_def by (cases "body request") (auto intro!: sound_postOrFail accounting)

lemma sound_runListTables: "sound R L s \<Longrightarrow> sound (add_mset (send, request_id request) R) L (runListTables p u limit request send s)"
  unfolding runListTables_def by (rule sound_onWorld [OF list_keeps]) (auto intro!: accounting)

lemma sound_handleListTables: "sound R L s \<Longrightarrow> sound (add_mset (send, request_id request) R) L (handleListTables p u request send s)"
  unfolding handleListTables_def Let_def by (cases "body request") (auto intro!: sound_postOrFail accounting)

lemma sound_runJoinTable: "sound R L s \<Longrightarrow> sound (add_mset (send, request_id request) R) L (runJoinTable p u k request send s)"
  unfolding runJoinTable_def Let_def
  by (rule sound_onWorld [OF find_keeps])
    (auto split: option.split intro!: accounting sound_onWorld [OF route_keeps, where R = R and L = L])

lemma sound_handleJoinTable: "sound R L s \<Longrightarrow> sound (add_mset (send, request_id request) R) L (handleJoinTable p u request send s)"
  unfolding handleJoinTable_def by (cases "body request") (auto intro!: sound_postOrFail accounting)

section \<open>Requests\<close>

lemma sound_admit:
  assumes "sound R L s" "admit p u request send s = (ok', s')"
  shows "sound (if ok' then R else add_mset (send, request_id request) R) L s'"
proof -
  obtain d c where d: "beginRequest u (request_id request) (client_sequence request) (idempotency s) = (d, c)" by (metis surj_pair)
  have "cache_answers p (idempotency s)" using assms(1) by (simp add: balanced_def)
  from cache_answers_begin [OF this d]
  have c: "cache_answers p c" "\<And>bytes. cached_response d = Some bytes \<Longrightarrow> \<exists>x. bytes = serialize p x \<and> request_id x = request_id request" by auto
  have s1: "sound R L (s\<lparr>idempotency := c\<rparr>)" using assms(1) c(1) by (simp add: balanced_defs)
  have parsed: "request_id x = request_id request" if "cached_response d = Some bytes" "parse p bytes = Some x" for bytes x
    using c(2) [OF that(1)] that(2) parse_serialize by auto
  show ?thesis
    using assms(2) d s1 parsed
    by (auto simp: admit_def Let_def split: if_splits option.splits Option.bind_splits intro!: accounting balanced_sendTo)
qed

lemma sound_authorize:
  assumes "sound R L s" "authorize p request session send s = (x, s')"
  shows "sound (if x = None then add_mset (send, request_id request) R else R) L s'"
proof (cases "session_user_id (sessions s session)")
  case None
  then show ?thesis using assms by (auto simp: authorize_def intro: accounting)
next
  case (Some u)
  obtain now s1 where now: "nowUnixMs p s = (now, s1)" by (metis surj_pair)
  have s1: "sound R L s1" using sound_world [OF time_keeps assms(1)] now by (simp add: nowUnixMs_def)
  obtain b s2 where a: "admit p u request send s1 = (b, s2)" by (metis surj_pair)
  show ?thesis
    using assms(2) Some now s1 a sound_admit [OF s1 a]
    by (auto simp: authorize_def Let_def split: if_splits option.splits bool.splits intro!: accounting)
qed

lemma sound_dispatch: "sound R L s \<Longrightarrow> sound (add_mset (send, request_id request) R) L (dispatch p type u request session send s)"
  by (cases type)
    (auto intro: accounting sound_handleLogout sound_handleRefresh sound_handleCreateTable sound_handleListTables sound_handleJoinTable
       sound_handleSitDown sound_handleReady sound_handleAction sound_handleSnapshot sound_handleReconnect sound_handleLeave)

lemma sound_handleCommand: "sound R L s \<Longrightarrow> sound (add_mset (send, request_id request) R) L (handleCommand p request session send s)"
proof -
  assume b: "sound R L s"
  obtain x s1 where x: "authorize p request session send s = (x, s1)" by (metis surj_pair)
  show ?thesis
    using sound_authorize [OF b x] x
    by (auto simp: handleCommand_def Let_def split: option.splits intro!: accounting sound_dispatch)
qed

lemma sound_handleReconnectFirst:
  "sound R L s \<Longrightarrow> sound (add_mset (send, request_id request) R) L (handleReconnectFirst p request session send s)"
  unfolding handleReconnectFirst_def
  by (cases "body request")
    (auto intro!: accounting sound_handleCommand sound_startAuthentication [where R = R and L = L] balanced_postStorage [where R = R and K = L])

lemma sound_handle: "sound R L s \<Longrightarrow> sound (add_mset (send, request_id request) R) L (handle p request session send s)"
  unfolding handle_def
  by (auto split: MessageType.split intro: accounting sound_handleRegister sound_handleLogin sound_handleAuthenticate sound_handleHeartbeat
      sound_handleReconnectFirst sound_handleCommand)

lemma sound_runReconnect:
  "sound R L s \<Longrightarrow> sound (add_mset (send, request_id request) R) L (runReconnect p request token session send s)"
  unfolding runReconnect_def Let_def by (rule sound_nowUnixMs) (auto intro!: accounting sound_handle)

section \<open>Closures\<close>

lemma sound_runStorageTask:
  assumes "sound R (mset (storageOperation f) + L) s" "runStorageTask p f s = (e, s')"
  shows "sound (R + (if e = None then mset (storageRequest f) else {#})) L s'"
  using assms
  by (cases f)
    (auto dest: sound_runLogin intro: sound_runRegister sound_runAuthenticate sound_runReconnect sound_runLogout sound_runRefresh sound_runCreateTable
      sound_runListTables sound_runJoinTable sound_runSitDown sound_runRollback sound_runBeginHand sound_runStoreAction sound_runCashOut
      sound_runStoreTimeout sound_runRefund)

lemma sound_runCallback:
  "sound R (mset (callbackOperation cb) + L) s \<Longrightarrow> sound (R + mset (callbackRequest cb)) L (runCallback p cb r s)"
  by (cases cb)
    (auto intro: sound_onBroadcast sound_onViews sound_onDisconnected sound_onSnapshot sound_onCurrent sound_onReconnect sound_onSeated
      sound_onSeatedView sound_onReady sound_onStarted sound_onStartAudit sound_onActed sound_onLeave sound_onRemoved
      sound_onTimeoutAudit sound_onTimeoutActed)

lemma sound_runTimer: "sound R L s \<Longrightarrow> sound R L (runTimer p t s)"
  by (cases t) (auto intro: sound_onRefundTimer sound_onActionTimer)

end

end
