(* ===== verification/Protocol_Balance.thy ===== *)
theory Protocol_Balance
  imports Protocol_Accounts
begin

text \<open>
  The accounts over whole runs: the steps of the executors move closures without loss, a closure that is run takes its
  request and its operation with it, and a new server starts with empty books. \<open>sound_run\<close> is the invariant of \<open>service_run\<close>.
\<close>

section \<open>The executors\<close>

lemma wakeShard_tasks:
  assumes "i < length (shards e)" "current (worker (shards e ! i)) = None" "wakeShard i e = Some e'"
  shows "mset (roomTasks e') = mset (roomTasks e)" "shards e' \<noteq> []"
proof -
  let ?x = "shards e ! i"
  obtain q v where q: "wake (tasks ?x) (stopping ?x) (worker ?x) = Some (q, v)" "e' = setShard i (?x\<lparr>tasks := q, worker := v\<rparr>) e"
    using assms(3) by (auto simp: wakeShard_def Let_def)
  have "mset (inHand v @ q) = mset (inHand (worker ?x) @ tasks ?x)"
    using q(1) assms(2) by (cases "tasks ?x") (auto simp: wake_def inHand_def split: if_splits)
  then show "mset (roomTasks e') = mset (roomTasks e)"
    using concat_update [OF assms(1), of "\<lambda>x. inHand (worker x) @ tasks x" "?x\<lparr>tasks := q, worker := v\<rparr>"] q(2)
    by (simp add: roomTasks_def setShard_def)
  show "shards e' \<noteq> []" using assms(1) q(2) by (auto simp: setShard_def)
qed

lemma releaseShard_tasks:
  assumes "i < length (shards e)" "current (worker (shards e ! i)) = Some f"
  shows "mset (roomTasks e) = add_mset f (mset (roomTasks (releaseShard i e)))" "shards (releaseShard i e) \<noteq> []"
  using assms concat_update [OF assms(1), of "\<lambda>x. inHand (worker x) @ tasks x"
      "(shards e ! i)\<lparr>worker := (worker (shards e ! i))\<lparr>current := None\<rparr>\<rparr>"]
  by (auto simp: roomTasks_def setShard_def releaseShard_def inHand_def)

lemma signalStop_tasks:
  assumes "i < length (shards e)"
  shows "mset (roomTasks (signalStop i e)) = mset (roomTasks e)" "shards (signalStop i e) \<noteq> []"
  using assms concat_update [OF assms, of "\<lambda>x. inHand (worker x) @ tasks x" "(shards e ! i)\<lparr>stopping := True\<rparr>"]
  by (auto simp: roomTasks_def setShard_def signalStop_def)

lemma wakeWorker_tasks:
  assumes "i < length (workers b)" "current (workers b ! i) = None" "wakeWorker i b = Some b'"
  shows "mset (storageTasks b') = mset (storageTasks b)"
proof -
  obtain q v where q: "wake (pool_tasks b) (pool_stopping b) (workers b ! i) = Some (q, v)"
      "b' = b\<lparr>pool_tasks := q, workers := (workers b)[i := v]\<rparr>"
    using assms(3) by (auto simp: wakeWorker_def)
  have "mset (inHand v) + mset q = mset (pool_tasks b)"
    using q(1) assms(2) by (cases "pool_tasks b") (auto simp: wake_def inHand_def split: if_splits)
  then show ?thesis
    using hands_update [OF assms(1), of v] assms(2) q(2) by (simp add: storageTasks_def inHand_def)
qed

lemma releaseWorker_tasks:
  assumes "i < length (workers b)" "current (workers b ! i) = Some f"
  shows "mset (storageTasks b) = add_mset f (mset (storageTasks (releaseWorker i b)))"
  using hands_update [OF assms(1), of "(workers b ! i)\<lparr>current := None\<rparr>"] assms(2)
  by (simp add: storageTasks_def releaseWorker_def inHand_def)

section \<open>Accounts and executors\<close>

lemma mset_concat_map: "mset (concat (map g xs)) = (\<Sum>x \<in># mset xs. mset (g x))"
  by (induction xs) auto

lemma balanced_setExecutor:
  assumes "balanced p P R L s" "mset (roomTasks e) = mset (roomTasks (fst (room_manager s)))" "shards e \<noteq> []"
  shows "balanced p P R L (setExecutor e s)"
  using assms by (simp add: setExecutor_def balanced_defs tasks_tokens)

lemma balanced_storage_tasks:
  assumes "balanced p P R L s" "mset (storageTasks b) = mset (storageTasks (storage_executor s))"
  shows "balanced p P R L (s\<lparr>storage_executor := b\<rparr>)"
  using assms by (simp add: balanced_defs mset_concat_map [of storageRequest] mset_concat_map [of storageOperation])

lemma balanced_take_task:
  assumes "balanced p P R L s" "mset (storageTasks (storage_executor s)) = add_mset f (mset (storageTasks b))"
  shows "\<exists>R'. R = R' + mset (storageRequest f) \<and> balanced p P R' (mset (storageOperation f) + L) (s\<lparr>storage_executor := b\<rparr>)"
proof -
  let ?s = "s\<lparr>storage_executor := b\<rparr>"
  have "owed s = owed ?s + mset (storageRequest f)" "held_operations s = held_operations ?s + mset (storageOperation f)"
    using assms(2) by (simp_all add: owed_def held_operations_def mset_concat_map [of storageRequest] mset_concat_map [of storageOperation])
  then show ?thesis using assms(1)
    by (intro exI [of _ "answered s + owed ?s"])
      (auto simp: balanced_def answered_def locks_ok_def open_operations_def rooms_idle_def)
qed

lemma mset_erase: "assoc m \<Longrightarrow> map_of m n = Some v \<Longrightarrow> mset m = add_mset (n, v) (mset (erase n m))"
proof (induction m)
  case (Cons x m)
  obtain k v' where x: "x = (k, v')" by (cases x)
  show ?case
  proof (cases "k = n")
    case True
    then have "map_of m n = None" using Cons.prems(1) x map_of_absent by metis
    then show ?thesis using erase_absent [of m n] True x Cons.prems(2) by (simp add: erase_def)
  next
    case False
    then show ?thesis using Cons x by (simp add: erase_def assoc_def)
  qed
qed simp

lemma balanced_take_callback:
  assumes "balanced p P R L s" "room_manager s = (e, w0)" "mset (roomTasks e) = add_mset f (mset (roomTasks e'))" "shards e' \<noteq> []"
    and "taskCallback f = Some n" "replies w = []"
  shows "\<exists>cb R'. map_of (callbacks s) n = Some cb \<and> R = R' + mset (callbackRequest cb) \<and>
    balanced p P R' (mset (callbackOperation cb) + L) (s\<lparr>room_manager := (e', w), callbacks := erase n (callbacks s)\<rparr>)"
proof -
  have idle: "assoc (callbacks s)" "mset (map fst (callbacks s)) = mset (concat (map taskToken (roomTasks e)))"
      "\<forall>k \<in> fst ` set (callbacks s). k < next_callback s"
    using assms(1,2) by (simp_all add: balanced_def rooms_idle_def)
  have "n \<in># mset (concat (map taskToken (roomTasks e)))" using assms(3,5) by (simp add: tasks_tokens taskToken_def)
  then have "n \<in> fst ` set (callbacks s)" using idle(2) by (metis set_map set_mset_mset)
  then obtain cb where cb: "map_of (callbacks s) n = Some cb" by (metis map_of_eq_None_iff not_Some_eq)
  let ?s = "s\<lparr>room_manager := (e', w), callbacks := erase n (callbacks s)\<rparr>"
  have m: "mset (callbacks s) = add_mset (n, cb) (mset (erase n (callbacks s)))" by (rule mset_erase [OF idle(1) cb])
  have subset: "set (erase n (callbacks s)) \<subseteq> set (callbacks s)" using m by (metis set_mset_add_mset_insert set_mset_mset subset_insertI)
  have "mset (map fst (callbacks s)) = add_mset n (mset (map fst (erase n (callbacks s))))" using m by simp
  then have "rooms_idle ?s"
    using idle assms(3-6) subset by (auto simp: rooms_idle_def tasks_tokens taskToken_def)
  moreover have "owed s = owed ?s + mset (callbackRequest cb)" "held_operations s = held_operations ?s + mset (callbackOperation cb)"
    using m by (simp_all add: owed_def held_operations_def mset_concat_map [of "\<lambda>(n, cb). callbackRequest cb"]
        mset_concat_map [of "\<lambda>(n, cb). callbackOperation cb"])
  ultimately have "balanced p P (answered s + owed ?s) (mset (callbackOperation cb) + L) ?s" "R = (answered s + owed ?s) + mset (callbackRequest cb)"
    using assms(1) by (auto simp: balanced_def answered_def locks_ok_def open_operations_def)
  then show ?thesis using cb by blast
qed

lemma performTask_replies:
  assumes "performTask device f w = Some (ex, w')"
  shows "if ex = None then (\<exists>r. replies w' = replies (callBack (taskCallback f) r w)) else replies w' = replies w"
proof -
  have err: "if ex = None then \<exists>r. replies w' = replies (callBack cb r w) else replies w' = replies w"
    if "errorTask ref cb g w = (ex, w')" for ref cb g
    using that by (auto simp: errorTask_def setTable_def callBack_def split: if_splits sum.splits prod.splits option.splits)
  have start: "if ex = None then \<exists>r. replies w' = replies (callBack cb r w) else replies w' = replies w"
    if "startTask device ref cb w = Some (ex, w')" for ref cb
  proof (cases "startHandRandom (systemUniform device) (entropy w) (room_table (room_heap w ! ref))")
    case (Some z)
    then show ?thesis using that
      by (cases z) (auto simp: startTask_def setTable_def callBack_def split: if_splits)
  qed (use that in \<open>auto simp: startTask_def callBack_def split: if_splits option.splits\<close>)
  have action: "if ex = None then \<exists>r. replies w' = replies (callBack cb r w) else replies w' = replies w"
    if "actionTask ref i cb g w = (ex, w')" for ref i cb g
    using that by (auto simp: actionTask_def setTable_def callBack_def split: if_splits sum.splits prod.splits option.splits)
  have connect: "\<exists>r. replies (connectTask ref i v cb w) = replies (callBack cb r w)" for ref i v cb
    by (auto simp: connectTask_def setTable_def callBack_def split: prod.splits option.splits)
  have view: "\<exists>r. replies (viewTask ref cb g w) = replies (callBack cb r w)" for ref cb g
    by (auto simp: viewTask_def)
  show ?thesis using assms err start action connect view by (cases f) auto
qed

section \<open>Runs\<close>

context lawful_services begin

lemma sound_fold_finish: "sound R (mset ops + L) s \<Longrightarrow> sound R L (fold finish ops s)"
  by (induction ops arbitrary: s) (auto intro: balanced_finish)

lemma sound_endRoomTask:
  assumes s: "sound R L s" and mgr: "room_manager s = (e, w0)" and i: "i < length (shards e)" "current (worker (shards e ! i)) = Some f"
    and task: "performTask device f w0 = Some (ex, w)"
  shows "\<exists>R'. R = R' + mset (lostCallback ex f s) \<and> sound R' L (endRoomTask p f w (setExecutor (releaseShard i e) s))"
proof -
  have idle: "replies w0 = []" using s mgr by (simp add: balanced_def rooms_idle_def)
  note tasks = releaseShard_tasks [OF i]
  let ?e = "releaseShard i e"
  show ?thesis
  proof (cases "taskCallback f")
    case None
    then have "replies w = []" using performTask_replies [OF task] idle by (auto simp: callBack_def split: if_splits)
    then have "sound R L (s\<lparr>room_manager := (?e, w\<lparr>replies := []\<rparr>)\<rparr>)"
      using s mgr tasks None by (simp add: balanced_defs tasks_tokens taskToken_def)
    then show ?thesis using None by (simp add: endRoomTask_def lostCallback_def setExecutor_def)
  next
    case (Some n)
    obtain cb R' where cb: "map_of (callbacks s) n = Some cb" "R = R' + mset (callbackRequest cb)"
        "sound R' (mset (callbackOperation cb) + L) (s\<lparr>room_manager := (?e, w\<lparr>replies := []\<rparr>), callbacks := erase n (callbacks s)\<rparr>)"
      using balanced_take_callback [OF s mgr tasks Some, of "w\<lparr>replies := []\<rparr>"] by auto
    show ?thesis
    proof (cases ex)
      case None
      then obtain r where "replies w = [(n, r)]" using performTask_replies [OF task] idle Some by (auto simp: callBack_def)
      then have "endRoomTask p f w (setExecutor ?e s) =
          runCallback p cb r (s\<lparr>room_manager := (?e, w\<lparr>replies := []\<rparr>), callbacks := erase n (callbacks s)\<rparr>)"
        using Some cb(1) by (simp add: endRoomTask_def setExecutor_def)
      then show ?thesis using sound_runCallback [OF cb(3), of r] cb(2) None by (simp add: lostCallback_def)
    next
      case (Some x)
      then have "replies w = []" using performTask_replies [OF task] idle by simp
      then have "endRoomTask p f w (setExecutor ?e s) =
          fold finish (callbackOperation cb) (s\<lparr>room_manager := (?e, w\<lparr>replies := []\<rparr>), callbacks := erase n (callbacks s)\<rparr>)"
        using \<open>taskCallback f = Some n\<close> cb(1) by (simp add: endRoomTask_def setExecutor_def)
      then show ?thesis
        using sound_fold_finish [OF cb(3)] cb(1,2) Some \<open>taskCallback f = Some n\<close> by (auto simp: lostCallback_def)
    qed
  qed
qed

lemma sound_run:
  assumes "service_run p device outside start hs ls s" "sound {#} {#} start" "\<And>w w'. outside w w' \<Longrightarrow> P w \<Longrightarrow> P w'"
  shows "\<exists>R. sound R {#} s \<and> mset hs = R + mset ls"
  using assms(1)
proof (induction rule: service_run.induct)
  case begins
  show ?case using assms(2) by auto
next
  case (connects hs ls s session)
  then show ?case by simp
next
  case (handles hs ls s send request session)
  then show ?case using sound_handle by fastforce
next
  case (disconnects hs ls s session)
  then show ?case using sound_onDisconnect by blast
next
  case (fires hs ls s i)
  then obtain R where "sound R {#} s" "mset hs = R + mset ls" by blast
  then show ?case using sound_runTimer [of R "{#}" "s\<lparr>timers := take i (timers s) @ drop (Suc i) (timers s)\<rparr>"] by auto
next
  case (shard_wakes hs ls s e i e')
  then show ?case using balanced_setExecutor [of p P _ "{#}" s e'] wakeShard_tasks [of i e e'] by auto
next
  case (shard_runs hs ls s e i f ex w)
  then obtain R where R: "sound R {#} s" "mset hs = R + mset ls" by blast
  have mgr: "room_manager s = (e, snd (room_manager s))" using shard_runs.hyps(2) by simp
  show ?case using sound_endRoomTask [OF R(1) mgr shard_runs.hyps(3-5)] R(2) by auto
next
  case (shard_stops hs ls s e i)
  then show ?case using balanced_setExecutor [of p P _ "{#}" s "signalStop i e"] signalStop_tasks [of i e] by auto
next
  case (worker_wakes hs ls s b i b')
  then show ?case using balanced_storage_tasks [of p P _ "{#}" s b'] wakeWorker_tasks [of i b b'] by auto
next
  case (worker_runs hs ls s b i f ex s')
  then obtain R where R: "sound R {#} s" "mset hs = R + mset ls" by blast
  have "mset (storageTasks (storage_executor s)) = add_mset f (mset (storageTasks (releaseWorker i b)))"
    using releaseWorker_tasks [of i b f] worker_runs.hyps(2-4) by simp
  from balanced_take_task [OF R(1) this]
  obtain R' where R': "R = R' + mset (storageRequest f)" "sound R' (mset (storageOperation f) + {#}) (s\<lparr>storage_executor := releaseWorker i b\<rparr>)"
    by blast
  show ?case
    using sound_runStorageTask [OF R'(2) worker_runs.hyps(5)] R(2) R'(1)
    by (intro exI [of _ "R' + (if ex = None then mset (storageRequest f) else {#})"]) (simp add: lostTask_def)
next
  case (pool_stops hs ls s)
  then show ?case using balanced_storage_tasks [of p P _ "{#}" s "poolStop (storage_executor s)"]
    by (auto simp: poolStop_def storageTasks_def)
next
  case (others hs ls s w)
  then show ?case using assms(3) balanced_P by fastforce
qed

end

lemma newService_balanced:
  assumes "newRoomManager n m r = Inr mgr" "newBlockingExecutor t k = Inr pool" "newCache c = Inr cache" "P w"
  shows "balanced p P {#} {#} (newService w mgr pool cache)"
proof -
  have mgr: "mgr = (\<lparr>max_pending_per_shard = m, shards = replicate n newShard\<rparr>, newRooms r)" "n \<noteq> 0"
    using assms(1) by (auto simp: newRoomManager_def newRoomExecutor_def split: if_splits)
  have pool: "pool = \<lparr>max_pending = k, pool_tasks = [], pool_stopping = False, workers = replicate t idleWorker\<rparr>"
    using assms(2) by (auto simp: newBlockingExecutor_def split: if_splits)
  have cache: "cache = \<lparr>max_requests_per_user = c, users = []\<rparr>" using assms(3) by (auto simp: newCache_def split: if_splits)
  have "roomTasks (fst mgr) = []" by (simp add: mgr roomTasks_def newShard_def idleWorker_def inHand_def)
  moreover have "storageTasks pool = []" by (simp add: pool storageTasks_def idleWorker_def inHand_def)
  ultimately show ?thesis
    using assms(4) mgr(2) by (simp add: newService_def balanced_defs cache cache_answers_def) (simp add: mgr newRooms_def)
qed

end
