(* ===== verification/Wire_Format.thy ===== *)
theory Wire_Format
  imports Protocol_Messages "HOL-Library.Countable"
begin

text \<open>
  \<open>SerializeToString\<close> and \<open>ParseFromArray\<close> of the protocol library are parameters of the service, of which the
  theorems use that parsing undoes serializing. This theory shows that such functions exist: messages are
  countable, so that they can be numbered and the number written in unary.
\<close>

section \<open>Messages are countable\<close>

lemma countable_via: "(\<And>x y :: 'a. f x = f y \<Longrightarrow> x = y) \<Longrightarrow> \<exists>g :: 'a \<Rightarrow> nat. inj g" for f :: "'a \<Rightarrow> 'b :: countable"
proof -
  assume "\<And>x y :: 'a. f x = f y \<Longrightarrow> x = y"
  then have "inj f" by (intro injI)
  then have "inj (to_nat \<circ> f)" by (intro inj_compose) simp_all
  then show ?thesis by blast
qed

instance MessageType :: countable
  by countable_datatype

instance ErrorCode :: countable
  by countable_datatype

instance WireAction :: countable
  by countable_datatype

instance WireStreet :: countable
  by countable_datatype

instance WireCard_ext :: (countable) countable
  by standard (rule countable_via [where f = "\<lambda>x. (wire_rank x, wire_suit x, WireCard.more x)"], simp)

instance PlayerState_ext :: (countable) countable
  by standard (rule countable_via [where f = "\<lambda>x. (state_user_id x, state_seat x, state_stack x, state_street_commitment x,
    state_hand_commitment x, state_status x, state_ready x, state_connected x, visible_hole_cards x, PlayerState.more x)"], simp)

instance WireSnapshot_ext :: (countable) countable
  by standard (rule countable_via [where f = "\<lambda>x. (wire_table_id x, wire_hand_id x, wire_server_sequence x, wire_street x, dealer_user_id x, acting_user_id x, wire_current_bet x, wire_minimum_raise x, wire_pot x, wire_board x, wire_players x, WireSnapshot.more x)"], simp)

instance TableSummary_ext :: (countable) countable
  by standard (rule countable_via [where f = "\<lambda>x. (summary_table_id x, summary_name x, seated_players x, summary_max_players x, summary_small_blind x, summary_big_blind x, game_node_id x, TableSummary.more x)"], simp)

instance CreateTableRequest_ext :: (countable) countable
  by standard (rule countable_via [where f = "\<lambda>x. (create_name x, create_max_players x, create_small_blind x, create_big_blind x, create_min_buy_in x, create_max_buy_in x, CreateTableRequest.more x)"], simp)

instance SitDownRequest_ext :: (countable) countable
  by standard (rule countable_via [where f = "\<lambda>x. (sit_table_id x, sit_seat x, sit_buy_in x, sit_join_ticket x, SitDownRequest.more x)"], simp)

instance ActionRequest_ext :: (countable) countable
  by standard (rule countable_via [where f = "\<lambda>x. (act_table_id x, act_hand_id x, act_action x, target_street_commitment x, ActionRequest.more x)"], simp)

instance TableEvent_ext :: (countable) countable
  by standard (rule countable_via [where f = "\<lambda>x. (event_table_id x, event_hand_id x, event_server_sequence x, event_type x, event_payload x, TableEvent.more x)"], simp)

instance Body :: countable
  by countable_datatype

instance Envelope_ext :: (countable) countable
  by standard (rule countable_via [where f = "\<lambda>x. (protocol_version x, request_id x, client_sequence x, message_type x, session_token x, env_table_id x, env_hand_id x, env_server_sequence x, body x, Envelope.more x)"], simp)

section \<open>An encoding\<close>

definition unarySerialize :: "Envelope \<Rightarrow> u8 list" where
  "unarySerialize e = replicate (to_nat e) 0"

definition unaryParse :: "u8 list \<Rightarrow> Envelope option" where
  "unaryParse bytes = Some (from_nat (length bytes))"

lemma unaryParse_serialize [simp]: "unaryParse (unarySerialize e) = Some e"
  by (simp add: unaryParse_def unarySerialize_def)

end
