(* ===== verification/Memory_Server.thy ===== *)
theory Memory_Server
  imports Protocol_Balance Wire_Format
begin

text \<open>
  The server on the stores in memory: one state \<open>World\<close> holds the account store, the registry, the game store, the crypto
  provider and the clock, and \<open>memoryServices\<close> gives the functions behind the references of the service. The locale
  \<open>lawful_services\<close> is interpreted on it, for the contract that the money in the game store is kept. The end of the
  theory is a run of such a server: a registration, a login and a player who sits down.
\<close>

section \<open>Services\<close>

record 'c World =
  accounts :: InMemoryAccountStore
  crypto_state :: 'c
  registry :: InMemoryNodeRegistry
  games :: InMemoryGameStore
  wall_clock :: "nat \<Rightarrow> int"
  readings :: nat

definition readWallClock :: "'c World \<Rightarrow> int \<times> 'c World" where
  "readWallClock w = (wall_clock w (readings w), w\<lparr>readings := Suc (readings w)\<rparr>)"

definition onAccounts :: "(InMemoryAccountStore \<times> 'c \<Rightarrow> 'a \<times> InMemoryAccountStore \<times> 'c) \<Rightarrow> 'c World \<Rightarrow> 'a \<times> 'c World" where
  "onAccounts f w = (case f (accounts w, crypto_state w) of (x, a, c) \<Rightarrow> (x, w\<lparr>accounts := a, crypto_state := c\<rparr>))"

definition onRegistry :: "(InMemoryNodeRegistry \<Rightarrow> 'a \<times> InMemoryNodeRegistry) \<Rightarrow> 'c World \<Rightarrow> 'a \<times> 'c World" where
  "onRegistry f w = (case f (registry w) of (x, r) \<Rightarrow> (x, w\<lparr>registry := r\<rparr>))"

definition onRouter :: "(InMemoryNodeRegistry \<times> 'c \<Rightarrow> 'a \<times> InMemoryNodeRegistry \<times> 'c) \<Rightarrow> 'c World \<Rightarrow> 'a \<times> 'c World" where
  "onRouter f w = (case f (registry w, crypto_state w) of (x, r, c) \<Rightarrow> (x, w\<lparr>registry := r, crypto_state := c\<rparr>))"

definition onGames :: "(InMemoryGameStore \<Rightarrow> 'a \<times> InMemoryGameStore) \<Rightarrow> 'c World \<Rightarrow> 'a \<times> 'c World" where
  "onGames f w = (case f (games w) of (x, g) \<Rightarrow> (x, w\<lparr>games := g\<rparr>))"

definition worldGames :: "'c World GameStore" where
  "worldGames = \<lparr>find_table = (\<lambda>k. onGames (reading (findTable k))), list_open_tables = (\<lambda>n. onGames (reading (listOpenTables n))),
     count_open_tables = (\<lambda>node. onGames (reading (countOpenTables node))), create_table = (\<lambda>x. onGames (createTable x)),
     reserve_buy_in = (\<lambda>k u n a q. onGames (reserveBuyIn k u n a q)), cash_out = (\<lambda>k u q. onGames (cashOut k u q)),
     begin_hand = (\<lambda>h. onGames (storeBeginHand h)), append_action = (\<lambda>y. onGames (appendAction y)),
     settle_hand = (\<lambda>z. onGames (settleHand z)), abort_table_and_refund = (\<lambda>k. onGames (abortTableAndRefund k))\<rparr>"

definition memoryServices :: "'c CryptoProvider \<Rightarrow> AuthService \<Rightarrow> LobbyRouter \<Rightarrow> 'c World Services" where
  "memoryServices crypto auth router =
     \<lparr>now_unix_ms = readWallClock,
      register_user = (\<lambda>name password. onAccounts (registerUser memoryAccounts crypto auth name password)),
      login_user = (\<lambda>name password now w.
        bind_result (login memoryAccounts crypto auth name password now (accounts w, crypto_state w))
          (\<lambda>(x, a, c). Inr (x, w\<lparr>accounts := a, crypto_state := c\<rparr>))),
      authenticate_token = (\<lambda>token now w. authenticate memoryAccounts crypto token now (accounts w)),
      refresh_token = (\<lambda>token now. onAccounts (refresh memoryAccounts crypto auth token now)),
      logout_token = (\<lambda>token. onAccounts (\<lambda>(a, c). case logout memoryAccounts crypto token a of (e, a') \<Rightarrow> (e, a', c))),
      hash_ticket = hash_session_token crypto,
      allocate_id = onRegistry allocateTableId,
      consume_ticket = (\<lambda>h. onRegistry (consumeJoinTicket h)),
      assign_new_table = (\<lambda>k u. onRouter (assignNewTable memoryRegistry crypto router k u)),
      route_existing_table = (\<lambda>k u node. onRouter (routeExistingTable memoryRegistry crypto router k u node)),
      game_store = worldGames\<rparr>"

section \<open>The contract on the money\<close>

definition fundedWith :: "int \<Rightarrow> 'c World \<Rightarrow> bool" where
  "fundedWith m w \<longleftrightarrow> store_ok (games w) \<and> bank (games w) = m"

lemma keeps_funded [simp]:
  "keeps (fundedWith m) readWallClock" "keeps (fundedWith m) (onAccounts f)" "keeps (fundedWith m) (onRegistry g)"
  "keeps (fundedWith m) (onRouter h)"
  by (auto simp: keeps_def fundedWith_def readWallClock_def onAccounts_def onRegistry_def onRouter_def split: prod.splits)

lemma keeps_games:
  "(\<And>s x s'. store_ok s \<Longrightarrow> f s = (x, s') \<Longrightarrow> store_ok s' \<and> bank s' = bank s) \<Longrightarrow> keeps (fundedWith m) (onGames f)"
  by (auto simp: keeps_def fundedWith_def onGames_def split: prod.splits)

lemma memory_lawful:
  assumes "\<forall>e. parse p (serialize p e) = Some e" "services p = memoryServices crypto auth router"
  shows "lawful_services p (fundedWith m)"
proof
  have store: "game_store (services p) = worldGames" by (simp add: assms(2) memoryServices_def)
  show "fundedWith m w \<Longrightarrow> login_user (services p) name password now w = Inr (r, w') \<Longrightarrow> fundedWith m w'" for w name password now r w'
    by (auto simp: assms(2) memoryServices_def fundedWith_def result_simps)
  show "keeps (fundedWith m) (find_table (game_store (services p)) k)" for k
    by (auto simp: store worldGames_def reading_def intro!: keeps_games)
  show "keeps (fundedWith m) (list_open_tables (game_store (services p)) limit)" for limit
    by (auto simp: store worldGames_def reading_def intro!: keeps_games)
  show "keeps (fundedWith m) (create_table (game_store (services p)) x)" for x
    using memory_bank.create_keeps by (auto simp: store worldGames_def intro!: keeps_games)
  show "keeps (fundedWith m) (reserve_buy_in (game_store (services p)) k u n a q)" for k u n a q
    using memory_bank.buy_in_keeps by (auto simp: store worldGames_def intro!: keeps_games)
  show "keeps (fundedWith m) (cash_out (game_store (services p)) k u q)" for k u q
    using memory_bank.cash_out_keeps by (auto simp: store worldGames_def intro!: keeps_games)
  show "keeps (fundedWith m) (begin_hand (game_store (services p)) hand)" for hand
    using memory_bank.begin_keeps by (auto simp: store worldGames_def intro!: keeps_games)
  show "keeps (fundedWith m) (append_action (game_store (services p)) y)" for y
    using memory_bank.append_keeps by (auto simp: store worldGames_def intro!: keeps_games)
  show "keeps (fundedWith m) (settle_hand (game_store (services p)) z)" for z
    using memory_bank.settle_keeps by (auto simp: store worldGames_def intro!: keeps_games)
  show "keeps (fundedWith m) (abort_table_and_refund (game_store (services p)) k)" for k
    using memory_bank.abort_keeps by (auto simp: store worldGames_def intro!: keeps_games)
qed (use assms in \<open>simp_all add: memoryServices_def\<close>)

definition memorySetup :: "ServerConfig \<Rightarrow> 'c CryptoProvider \<Rightarrow> AuthService \<Rightarrow> LobbyRouter \<Rightarrow> 'c World Setup" where
  "memorySetup cfg crypto auth router = \<lparr>server_config = cfg, services = memoryServices crypto auth router,
     serialize = unarySerialize, parse = unaryParse, push_set = True, schedule_set = True\<rparr>"

interpretation memory_server: lawful_services "memorySetup cfg crypto auth router" "fundedWith m" for cfg crypto auth router m
  by (rule memory_lawful [where crypto = crypto and auth = auth and router = router]) (simp_all add: memorySetup_def)

section \<open>A run\<close>

definition demoConfig :: ServerConfig where
  "demoConfig = \<lparr>server_role = standalone, config_node_id = ''b'', public_endpoint = ''h:2'', listen_host = ''h'', listen_port = 2,
     metrics_host = ''h'', metrics_port = 3, io_threads = 1, logic_shards = 1, action_timeout_ms = 15000,
     connection_idle_timeout_ms = 60000, node_failure_grace_ms = 60000, max_frame_bytes = 65536, max_pending_send_bytes = 65536,
     requests_per_second = 20, request_burst = 40, session_ttl_seconds = 60,
     mysql = \<lparr>mysql_host = ''m'', mysql_port = 4, mysql_user = ''u'', mysql_password = ''p'', mysql_database = ''d'', pool_size = 1,
       connect_timeout_seconds = 1\<rparr>,
     redis = \<lparr>redis_host = ''r'', redis_port = 5, redis_password = [], redis_database = 0, connect_timeout_ms = 1\<rparr>\<rparr>"

definition demoSetup :: "nat World Setup" where
  "demoSetup = memorySetup demoConfig demoCrypto demoService demoRouter"

definition demoWorld :: "nat World" where
  "demoWorld = \<lparr>accounts = newAccountStore, crypto_state = 0, registry = demoRegistry, games = snd (seedWallet 1 5000 newGameStore),
     wall_clock = (\<lambda>n. 5000 + int n), readings = 0\<rparr>"

definition demoServer :: "(nat World, unit) Service" where
  "demoServer = newService demoWorld (\<lparr>max_pending_per_shard = 8, shards = [newShard]\<rparr>, newRooms ())
     \<lparr>max_pending = 4, pool_tasks = [], pool_stopping = False, workers = [idleWorker]\<rparr> \<lparr>max_requests_per_user = 16, users = []\<rparr>"

definition registerAlice :: Envelope where
  "registerAlice = newEnvelope\<lparr>protocol_version := 1, request_id := 41, message_type := REGISTER_REQUEST,
     body := RegisterRequest ''alice'' ''correct horse''\<rparr>"

definition loginAlice :: Envelope where
  "loginAlice = newEnvelope\<lparr>protocol_version := 1, request_id := 42, message_type := LOGIN_REQUEST,
     body := LoginRequest ''alice'' ''correct horse''\<rparr>"

definition sitAlice :: Envelope where
  "sitAlice = newEnvelope\<lparr>protocol_version := 1, request_id := 43, client_sequence := 1, message_type := SIT_DOWN_REQUEST,
     body := SitDownBody \<lparr>sit_table_id = 1000, sit_seat = 2, sit_buy_in = 2000, sit_join_ticket = ''t''\<rparr>\<rparr>"

text \<open>The worker of the storage executor takes a task and runs it.\<close>

definition workerTakes :: "('w, 'r) Service \<Rightarrow> ('w, 'r) Service" where
  "workerTakes s = s\<lparr>storage_executor := the (wakeWorker 0 (storage_executor s))\<rparr>"

definition workerRuns :: "'w Setup \<Rightarrow> ('w, 'r) Service \<Rightarrow> ('w, 'r) Service" where
  "workerRuns p s = snd (runStorageTask p (the (current (workers (storage_executor s) ! 0)))
     (s\<lparr>storage_executor := releaseWorker 0 (storage_executor s)\<rparr>))"

definition demoRegistered :: "(nat World, unit) Service" where
  "demoRegistered = workerRuns demoSetup (workerTakes (handle demoSetup registerAlice 3 7 demoServer))"

definition demoLoggedIn :: "(nat World, unit) Service" where
  "demoLoggedIn = workerRuns demoSetup (workerTakes (handle demoSetup loginAlice 3 7 demoRegistered))"

definition demoSitting :: "(nat World, unit) Service" where
  "demoSitting = handle demoSetup sitAlice 3 7 demoLoggedIn"

definition workerReady :: "'w Setup \<Rightarrow> ('w, 'r) Service \<Rightarrow> bool" where
  "workerReady p s \<longleftrightarrow> pool_tasks (storage_executor s) \<noteq> [] \<and> workers (storage_executor s) \<noteq> [] \<and>
     current (workers (storage_executor s) ! 0) = None \<and> \<not> exited (workers (storage_executor s) ! 0) \<and>
     fst (runStorageTask p (hd (pool_tasks (storage_executor s)))
       ((workerTakes s)\<lparr>storage_executor := releaseWorker 0 (storage_executor (workerTakes s))\<rparr>)) = None"

lemma worker_works:
  assumes "service_run p device outside start hs ls s" "workerReady p s"
  shows "service_run p device outside start hs ls (workerRuns p (workerTakes s))"
proof -
  let ?b = "storage_executor s"
  have b: "0 < length (workers ?b)" "current (workers ?b ! 0) = None" "\<not> exited (workers ?b ! 0)" "pool_tasks ?b \<noteq> []"
    using assms(2) by (auto simp: workerReady_def)
  let ?b' = "?b\<lparr>pool_tasks := tl (pool_tasks ?b), workers := (workers ?b)[0 := (workers ?b ! 0)\<lparr>current := Some (hd (pool_tasks ?b))\<rparr>]\<rparr>"
  have wake: "wakeWorker 0 ?b = Some ?b'" using b(4) by (simp add: wakeWorker_def wake_def)
  then have t: "workerTakes s = s\<lparr>storage_executor := ?b'\<rparr>" by (simp add: workerTakes_def)
  have r1: "service_run p device outside start hs ls (workerTakes s)"
    unfolding t by (rule service_run.worker_wakes [OF assms(1) refl b(1-3) wake])
  have c: "0 < length (workers ?b')" "current (workers ?b' ! 0) = Some (hd (pool_tasks ?b))" using b(1) by simp_all
  let ?s = "(workerTakes s)\<lparr>storage_executor := releaseWorker 0 (storage_executor (workerTakes s))\<rparr>"
  have run: "runStorageTask p (hd (pool_tasks ?b)) ?s = (None, workerRuns p (workerTakes s))"
    using assms(2) c(2) by (simp add: workerReady_def workerRuns_def t prod_eq_iff)
  have "service_run p device outside start hs (ls @ lostTask None (hd (pool_tasks ?b))) (workerRuns p (workerTakes s))"
    by (rule service_run.worker_runs [OF r1 refl _ _ run]) (use c in \<open>simp_all add: t\<close>)
  then show ?thesis by (simp add: lostTask_def)
qed

lemma demo_run: "service_run demoSetup device outside demoServer [(7, 41), (7, 42), (7, 43)] [] demoSitting"
proof -
  have "service_run demoSetup device outside demoServer ([] @ [(7, request_id registerAlice)]) [] (handle demoSetup registerAlice 3 7 demoServer)"
    by (rule service_run.handles, rule service_run.begins)
  moreover have "workerReady demoSetup (handle demoSetup registerAlice 3 7 demoServer)" by code_simp
  ultimately have "service_run demoSetup device outside demoServer [(7, 41)] [] demoRegistered"
    unfolding demoRegistered_def by (intro worker_works) (simp_all add: registerAlice_def)
  then have "service_run demoSetup device outside demoServer ([(7, 41)] @ [(7, request_id loginAlice)]) [] (handle demoSetup loginAlice 3 7 demoRegistered)"
    by (rule service_run.handles)
  moreover have "workerReady demoSetup (handle demoSetup loginAlice 3 7 demoRegistered)" by code_simp
  ultimately have "service_run demoSetup device outside demoServer [(7, 41), (7, 42)] [] demoLoggedIn"
    unfolding demoLoggedIn_def by (intro worker_works) (simp_all add: loginAlice_def)
  then have "service_run demoSetup device outside demoServer ([(7, 41), (7, 42)] @ [(7, request_id sitAlice)]) [] demoSitting"
    unfolding demoSitting_def by (rule service_run.handles)
  then show ?thesis by (simp add: sitAlice_def)
qed

lemma demo_new:
  "newRoomManager 1 8 () = Inr (\<lparr>max_pending_per_shard = 8, shards = [newShard]\<rparr>, newRooms ())"
  "newBlockingExecutor 1 4 = Inr \<lparr>max_pending = 4, pool_tasks = [], pool_stopping = False, workers = [idleWorker]\<rparr>"
  "newCache 16 = Inr \<lparr>max_requests_per_user = 16, users = []\<rparr>"
  by (simp_all add: newRoomManager_def newRoomExecutor_def newBlockingExecutor_def newCache_def)

lemma demo_wire: "\<forall>e. parse demoSetup (serialize demoSetup e) = Some e"
  by (simp add: demoSetup_def memorySetup_def)

lemma demo_services: "services demoSetup = memoryServices demoCrypto demoService demoRouter"
  by (simp add: demoSetup_def memorySetup_def)

lemma demo_funded: "fundedWith 5000 demoWorld"
  by (simp add: fundedWith_def demoWorld_def seedWallet_def newGameStore_def store_ok_def bank_def put_def assoc_def)

end
