(* ===== verification/Protocol_Correct.thy ===== *)
theory Protocol_Correct
  imports Memory_Server
begin

text \<open>
  What the server guarantees: over whole runs, in every interleaving of its threads, every request is answered once, a
  table is locked only while a pending closure holds the lock, and the chips in the game store are kept; and for its
  operations, that a client who is not logged in achieves nothing, that a repeated request gets the first answer again, and
  how an aborted table is refunded.
\<close>

section \<open>Runs\<close>

lemma quiet_accounts:
  assumes "balanced p P R {#} s" "roomTasks (fst (room_manager s)) = []" "storageTasks (storage_executor s) = []"
  shows "owed s = {#}" "held_operations s = {#}"
proof -
  have "mset (map fst (callbacks s)) = {#}" using assms(1,2) by (simp add: balanced_def rooms_idle_def)
  then show "owed s = {#}" "held_operations s = {#}" using assms(3) by (simp_all add: owed_def held_operations_def)
qed

lemma run_balanced:
  assumes "\<forall>e. parse p (serialize p e) = Some e"
    and "newRoomManager n m r = Inr mgr" "newBlockingExecutor t k = Inr pool" "newCache c = Inr cache"
    and "service_run p device outside (newService w mgr pool cache) hs ls s"
  shows "\<exists>R. balanced p (\<lambda>_. True) R {#} s \<and> mset hs = R + mset ls"
proof -
  have "lawful_services p (\<lambda>_. True)" using assms(1) by unfold_locales (simp_all add: keeps_def)
  from lawful_services.sound_run [OF this assms(5) newService_balanced [where P = "\<lambda>_. True", OF assms(2-4)]] show ?thesis by simp
qed

lemmas demoServer_run = demo_run [of "\<lambda>r. (0, r)" "\<lambda>_ _. False", unfolded demoServer_def]

text \<open>C2. Every request is answered once. In every run of a new server, with any interleaving of its threads and any
  behaviour of the stores, the requests handled are the requests answered, those a pending closure will answer, and those
  an exception dropped, each as often as it was handled; when no closure is pending, nothing is owed.\<close>
theorem requests_answered_once:
  assumes "\<forall>e. parse p (serialize p e) = Some e"
    and "newRoomManager n m r = Inr mgr" "newBlockingExecutor t k = Inr pool" "newCache c = Inr cache"
    and "service_run p device outside (newService w mgr pool cache) hs ls s"
  shows "mset hs = answered s + owed s + mset ls \<and>
    (roomTasks (fst (room_manager s)) = [] \<and> storageTasks (storage_executor s) = [] \<longrightarrow> owed s = {#})"
proof -
  obtain R where R: "balanced p (\<lambda>_. True) R {#} s" "mset hs = R + mset ls" using run_balanced [OF assms] by blast
  then show ?thesis using quiet_accounts [OF R(1)] by (auto simp: balanced_def)
qed

theorem requests_answered_once_witness:
  "{#(7, 41), (7, 42), (7, 43)#} = answered demoSitting + owed demoSitting \<and> outbox demoSitting \<noteq> [] \<and>
   owed demoSitting = {#(7, 43)#}"
proof -
  have "{#(7, 41), (7, 42), (7, 43)#} = answered demoSitting + owed demoSitting"
    using requests_answered_once [OF demo_wire demo_new demoServer_run] by simp
  moreover have "outbox demoSitting \<noteq> []" "callbacks demoSitting = []" by code_simp+
  moreover have "concat (map storageRequest (storageTasks (storage_executor demoSitting))) = [(7, 43)]" by code_simp
  ultimately show ?thesis by (simp add: owed_def)
qed

text \<open>C15. Table operations exclude each other and are released. In every run of a new server the open operations
  belong to different tables, the set of active tables is exactly theirs, each of them is held by exactly one pending
  closure, and no table is active when no closure is pending.\<close>
theorem table_operations_exclusive:
  assumes "\<forall>e. parse p (serialize p e) = Some e"
    and "newRoomManager n m r = Inr mgr" "newBlockingExecutor t k = Inr pool" "newCache c = Inr cache"
    and "service_run p device outside (newService w mgr pool cache) hs ls s"
  shows "distinct (map (\<lambda>i. operation_table (operations s ! i)) (open_operations s)) \<and>
    active_table_operations s = (\<lambda>i. operation_table (operations s ! i)) ` set (open_operations s) \<and>
    held_operations s = mset (open_operations s) \<and>
    (roomTasks (fst (room_manager s)) = [] \<and> storageTasks (storage_executor s) = [] \<longrightarrow> active_table_operations s = {})"
proof -
  obtain R where R: "balanced p (\<lambda>_. True) R {#} s" using run_balanced [OF assms] by blast
  then show ?thesis using quiet_accounts [OF R] by (auto simp: balanced_def locks_ok_def)
qed

theorem table_operations_exclusive_witness:
  "active_table_operations demoSitting = {1000} \<and> held_operations demoSitting = mset (open_operations demoSitting) \<and>
   open_operations demoSitting = [0]"
proof -
  have "held_operations demoSitting = mset (open_operations demoSitting)"
    using table_operations_exclusive [OF demo_wire demo_new demoServer_run] by simp
  moreover have "active_table_operations demoSitting = {1000}" "open_operations demoSitting = [0]" by code_simp+
  ultimately show ?thesis by simp
qed

text \<open>C4. The server keeps the chips. In every run of a new server on the stores in memory, whatever its clients send and
  however its threads interleave, wallets and table stacks keep their sum, provided the other users of the store keep it.\<close>
theorem server_money_conserved:
  assumes "\<forall>e. parse p (serialize p e) = Some e" "services p = memoryServices crypto auth router"
    and "newRoomManager n m r = Inr mgr" "newBlockingExecutor t k = Inr pool" "newCache c = Inr cache" "store_ok (games w)"
    and "\<forall>v v'. outside v v' \<longrightarrow> store_ok (games v) \<longrightarrow> store_ok (games v') \<and> bank (games v') = bank (games v)"
    and "service_run p device outside (newService w mgr pool cache) hs ls s"
  shows "store_ok (games (world s)) \<and> bank (games (world s)) = bank (games w)"
proof -
  let ?P = "fundedWith (bank (games w))"
  have law: "lawful_services p ?P" by (rule memory_lawful [OF assms(1,2)])
  have "?P w" using assms(6) by (simp add: fundedWith_def)
  from lawful_services.sound_run [OF law assms(8) newService_balanced [where P = ?P, OF assms(3-5) this]]
  obtain R where "balanced p ?P R {#} s" using assms(7) by (auto simp: fundedWith_def)
  then show ?thesis by (simp add: balanced_def fundedWith_def)
qed

theorem server_money_conserved_witness: "store_ok (games (world demoSitting)) \<and> bank (games (world demoSitting)) = 5000"
proof -
  have "store_ok (games demoWorld)" "bank (games demoWorld) = 5000" using demo_funded by (simp_all add: fundedWith_def)
  then show ?thesis
    using server_money_conserved [OF demo_wire demo_services demo_new _ _ demoServer_run] by simp
qed

section \<open>Authorization\<close>

definition wellFormed :: "Envelope \<Rightarrow> bool" where
  "wellFormed request \<longleftrightarrow> protocol_version request = 1 \<and> request_id request \<noteq> 0 \<and> request_id request \<le> 0x7fffffffffffffff"

definition needsLogin :: "MessageType \<Rightarrow> bool" where
  "needsLogin type \<longleftrightarrow> type \<notin> {REGISTER_REQUEST, LOGIN_REQUEST, AUTHENTICATE_SESSION_REQUEST, HEARTBEAT, RECONNECT_REQUEST}"

lemma handle_needsLogin:
  "wellFormed request \<Longrightarrow> needsLogin (message_type request) \<Longrightarrow> handle p request session send s = handleCommand p request session send s"
  by (cases "message_type request") (auto simp: handle_def wellFormed_def needsLogin_def)

lemma setConnected_frame:
  assumes "replies (snd (room_manager s)) = []" "s' = callRoom (roomSetConnected k u v) (ViewsCallback k) (onViews p k) s"
  shows "outbox s' = outbox s" "storage_executor s' = storage_executor s" "idempotency s' = idempotency s" "sessions s' = sessions s"
    "operations s' = operations s" "world s' = world s" "timers s' = timers s" "metrics s' = metrics s"
    "room_heap (snd (room_manager s')) = room_heap (snd (room_manager s))"
    "open_rooms (snd (room_manager s')) = open_rooms (snd (room_manager s))"
proof -
  obtain e w where mgr: "room_manager s = (e, w)" by (metis surj_pair)
  show "outbox s' = outbox s" "storage_executor s' = storage_executor s" "idempotency s' = idempotency s" "sessions s' = sessions s"
    "operations s' = operations s" "world s' = world s" "timers s' = timers s" "metrics s' = metrics s"
    "room_heap (snd (room_manager s')) = room_heap (snd (room_manager s))"
    "open_rooms (snd (room_manager s')) = open_rooms (snd (room_manager s))"
    unfolding assms(2) using assms(1) mgr
    by (auto simp: callRoom_def Let_def roomSetConnected_def submitSnapshot_def submit_def callBack_def onViews_def
        split: option.splits prod.splits bool.splits)
qed



section \<open>Repeated requests\<close>


text \<open>The refused request of the example, asked again on another connection: the error is repeated.\<close>

definition demoMissing :: Envelope where
  "demoMissing = newEnvelope\<lparr>protocol_version := 1, request_id := 44, client_sequence := 1, message_type := SNAPSHOT_REQUEST\<rparr>"

definition demoAsked :: "(nat World, unit) Service" where
  "demoAsked = demoLoggedIn\<lparr>idempotency := snd (beginRequest 1 44 1 (idempotency demoLoggedIn))\<rparr>"


section \<open>Refunds\<close>

lemma fold_pushTo: "fold (\<lambda>u. pushTo u e) us s = s\<lparr>outbox := outbox s @ map (\<lambda>u. Pushed u e) us\<rparr>"
  by (induction us arbitrary: s) (simp_all add: pushTo_def)

lemma pushTableEvent_outbox:
  "pushTableEvent p k h n us type message s =
     (if push_set p then s\<lparr>outbox := outbox s @ map (\<lambda>u. Pushed u (eventEnvelope k h n type message)) us\<rparr> else s)"
  by (simp add: pushTableEvent_def fold_pushTo)

lemma retryDelay_bound: "retryDelay a \<le> 32000"
proof -
  have "(2 :: int) ^ min (a - 1) 5 \<le> 2 ^ 5" by (rule power_increasing) auto
  then show ?thesis by (simp add: retryDelay_def)
qed

text \<open>What follows a failed attempt: the events of the state \<open>s'\<close> beyond those of \<open>s\<close>, and its timers.\<close>

definition told :: "u64 \<Rightarrow> u64 \<Rightarrow> u64 \<Rightarrow> UserId list \<Rightarrow> string \<Rightarrow> string \<Rightarrow> ('w, 'r) Service \<Rightarrow> ('w, 'r) Service \<Rightarrow> bool" where
  "told k h n us type message s s' \<longleftrightarrow> timers s' = timers s \<and>
     outbox s' = outbox s @ map (\<lambda>u. Pushed u (eventEnvelope k h n type message)) us"

definition nextAttempt :: "u64 \<Rightarrow> u64 \<Rightarrow> u64 \<Rightarrow> UserId list \<Rightarrow> nat \<Rightarrow> ('w, 'r) Service \<Rightarrow> ('w, 'r) Service \<Rightarrow> bool" where
  "nextAttempt k h n us a s s' \<longleftrightarrow>
     (if a < 8
      then \<exists>delay \<le> 32000. timers s' = timers s @ [(delay, RefundTimer k h n us (Suc a))] \<and> outbox s' = outbox s
      else told k h n us ''table_refund_requires_reconciliation''
             ''automatic stack refund retries were exhausted; operator reconciliation is required'' s s')"

lemma retryRefund_next:
  "schedule_set p \<Longrightarrow> push_set p \<Longrightarrow> timers s' = timers s \<Longrightarrow> outbox s' = outbox s \<Longrightarrow>
   nextAttempt k h n us a s (retryRefund p k h n us (Suc a) s')"
  using retryDelay_bound [of "Suc a"]
  by (auto simp: nextAttempt_def told_def retryRefund_def max_attempts_def pushTableEvent_outbox schedule_def)

text \<open>C34. An attempt to refund an aborted table ends in one of three ways: the store refunds the table and every
  player is told so; it does not, and exactly one further attempt, the next of at most eight, is scheduled within 32
  seconds; or the eighth has failed and every player is told that an operator has to reconcile. The timer of an attempt
  queues it or, when the queue is full, counts it as failed.\<close>
theorem refund_attempt:
  fixes s :: "('w, 'r) Service"
  assumes "schedule_set p" "push_set p" "abort_table_and_refund (game_store (services p)) k (world s) = (result, w)"
    and "s' = runRefund p k h n us a s" "s'' = onRefundTimer p k h n us a s"
  shows "world s' = w \<and>
    (if result = storage_ok then told k h n us ''table_refund_completed'' ''the deferred table-stack refund completed'' s s'
     else nextAttempt k h n us a s s') \<and>
    world s'' = world s \<and>
    (if fst (postStorage (RefundTask k h n us a) s) then told k h n [] [] [] s s'' \<and>
       mset (storageTasks (storage_executor s'')) = add_mset (RefundTask k h n us a) (mset (storageTasks (storage_executor s)))
     else nextAttempt k h n us a s s'')"
proof -
  have retry: "world (retryRefund p k h n us b x) = world x" for b and x :: "('w, 'r) Service"
    by (simp add: retryRefund_def pushTableEvent_outbox schedule_def)
  have "world s' = w \<and>
      (if result = storage_ok then told k h n us ''table_refund_completed'' ''the deferred table-stack refund completed'' s s'
       else nextAttempt k h n us a s s')"
    using assms(1-4) retry by (auto simp: runRefund_def onWorld_def pushTableEvent_outbox told_def meter_def intro!: retryRefund_next)
  moreover have "world s'' = world s \<and>
      (if fst (postStorage (RefundTask k h n us a) s) then told k h n [] [] [] s s'' \<and>
         mset (storageTasks (storage_executor s'')) = add_mset (RefundTask k h n us a) (mset (storageTasks (storage_executor s)))
       else nextAttempt k h n us a s s'')"
    using assms(1,2,5) retry
    by (auto simp: onRefundTimer_def postStorage_def poolPost_def storageTasks_def told_def intro!: retryRefund_next split: prod.splits)
  ultimately show ?thesis by blast
qed

text \<open>The table 9 does not exist, so that the store answers \<open>not_found\<close>.\<close>
theorem refund_attempt_witness:
  "nextAttempt 9 1 2 [4, 5] 3 demoServer (runRefund demoSetup 9 1 2 [4, 5] 3 demoServer) \<and>
   nextAttempt 9 1 2 [4, 5] 8 demoServer (runRefund demoSetup 9 1 2 [4, 5] 8 demoServer)"
proof -
  have a: "schedule_set demoSetup" "push_set demoSetup" by (simp_all add: demoSetup_def memorySetup_def)
  let ?x = "abort_table_and_refund (game_store (services demoSetup)) 9 (world demoServer)"
  have b: "fst ?x = not_found" by code_simp
  then have "?x = (not_found, snd ?x)" by (metis prod.collapse)
  from refund_attempt [OF a this refl refl, of 1 2 "[4, 5]"] show ?thesis by simp
qed

section \<open>Failed writes\<close>

definition wasStored :: "'w Setup \<Rightarrow> HandActionRecord \<Rightarrow> HandSettlementRecord option \<Rightarrow> ('w, 'r) Service \<Rightarrow> bool" where
  "wasStored p action settle s \<longleftrightarrow> fst (storeAction p action settle s) = Stored"

lemma storeAction_frame:
  assumes "storeAction p action settle s = (x, s1)"
  shows "room_manager s1 = room_manager s" "timers s1 = timers s" "outbox s1 = outbox s"
  using assms by (auto simp: storeAction_def onWorld_def meter_def split: prod.splits option.splits if_splits)

lemma failRequest_frame [simp]:
  "room_manager (failRequest p request code message send u s) = room_manager s" "timers (failRequest p request code message send u s) = timers s"
  "world (failRequest p request code message send u s) = world s"
  by (simp_all add: failRequest_def reply_def sendTo_def meter_def Let_def split: option.split)

lemma finish_frame [simp]:
  "room_manager (finish op s) = room_manager s" "timers (finish op s) = timers s" "world (finish op s) = world s" "outbox (finish op s) = outbox s"
  by (simp_all add: finish_def finishTableOperation_def)

lemma failRequest_outbox:
  "outbox (failRequest p request code message send (Some u) s) = outbox s @ [Sent send (errorEnvelope request code message)]"
  by (simp add: failRequest_def reply_def sendTo_def meter_def Let_def errorEnvelope_def newEnvelope_def)

lemma abortTable_closes:
  assumes "schedule_set p" "s' = abortTableAndNotify p k audit reason b s"
  shows "\<not> hasTable k (snd (room_manager s'))"
    and "if b \<and> fst (abort_table_and_refund (game_store (services p)) k (world s)) = storage_ok
      then timers s' = timers s \<and> world s' = snd (abort_table_and_refund (game_store (services p)) k (world s))
      else timers s' = timers s @ [(1000, RefundTimer k (snap_hand_id audit) (snap_server_sequence audit) (map view_id (snap_players audit)) 1)]"
proof -
  obtain e w where mgr: "room_manager s = (e, w)" by (metis surj_pair)
  obtain c w' where c: "roomCloseTable k w = (c, w')" by (metis surj_pair)
  have gone: "map_of (open_rooms w') k = None" using c by (auto simp: roomCloseTable_def map_simps split: option.splits)
  show "\<not> hasTable k (snd (room_manager s'))"
    "if b \<and> fst (abort_table_and_refund (game_store (services p)) k (world s)) = storage_ok
      then timers s' = timers s \<and> world s' = snd (abort_table_and_refund (game_store (services p)) k (world s))
      else timers s' = timers s @ [(1000, RefundTimer k (snap_hand_id audit) (snap_server_sequence audit) (map view_id (snap_players audit)) 1)]"
    using assms mgr c gone
    by (auto simp: abortTableAndNotify_def onRooms_def onWorld_def pushTableEvent_outbox retryRefund_def max_attempts_def
        schedule_def meter_def retryDelay_def hasTable_def Let_def split: prod.splits)
qed

text \<open>C33. A command is stored or its table is closed: when the store takes neither the accepted action nor, at the end of a hand,
  its settlement, the client is told \<open>SERVICE_UNAVAILABLE\<close>, the table is no longer open, and its stacks are refunded at once
  or the first of the attempts to refund them is scheduled after a second.\<close>
theorem action_stored_or_closed:
  assumes "schedule_set p" "\<not> wasStored p action settle s" "s' = runStoreAction p u k request send snap audit action settle op s"
    and "s1 = snd (storeAction p action settle s)"
  shows "\<not> hasTable k (snd (room_manager s')) \<and>
    (\<exists>message. last (outbox s') = Sent send (errorEnvelope request SERVICE_UNAVAILABLE message)) \<and>
    (if fst (abort_table_and_refund (game_store (services p)) k (world s1)) = storage_ok
     then timers s' = timers s \<and> world s' = snd (abort_table_and_refund (game_store (services p)) k (world s1))
     else timers s' = timers s @ [(1000, RefundTimer k (snap_hand_id audit) (snap_server_sequence audit) (map view_id (snap_players audit)) 1)])"
proof -
  obtain x where x: "storeAction p action settle s = (x, s1)" using assms(4) by (metis prod.collapse)
  have "x \<noteq> Stored" using assms(2) x by (simp add: wasStored_def)
  then obtain reason message where s': "s' = finish op (failRequest p request SERVICE_UNAVAILABLE message send (Some u)
      (abortTableAndNotify p k audit reason True s1))"
    using assms(3) x by (cases x) (auto simp: runStoreAction_def)
  let ?a = "abortTableAndNotify p k audit reason True s1"
  have "last (outbox s') = Sent send (errorEnvelope request SERVICE_UNAVAILABLE message)" by (simp add: s' failRequest_outbox)
  moreover note abortTable_closes [where k = k and audit = audit and reason = reason and b = True and s = s1, OF assms(1) refl]
    storeAction_frame [OF x]
  ultimately show ?thesis by (auto simp: s')
qed

text \<open>An action without a hand number is refused by the store.\<close>

definition demoAction :: HandActionRecord where
  "demoAction = \<lparr>action_hand_id = 0, action_sequence = 1, action_request_id = 45, action_user_id = 1, action_street = preflop,
     action_kind = call, target_amount = 0\<rparr>"

theorem action_stored_or_closed_witness:
  "timers (runStoreAction demoSetup 1 9 sitAlice 7 emptySnapshot emptySnapshot demoAction None 0 demoServer) = [(1000, RefundTimer 9 0 0 [] 1)]"
proof -
  have a: "schedule_set demoSetup" by (simp add: demoSetup_def memorySetup_def)
  have b: "\<not> wasStored demoSetup demoAction None demoServer" by code_simp
  have "fst (abort_table_and_refund (game_store (services demoSetup)) 9 (world (snd (storeAction demoSetup demoAction None demoServer)))) \<noteq> storage_ok"
    "timers demoServer = []" by code_simp+
  then show ?thesis using action_stored_or_closed [where u = 1 and k = 9, OF a b refl refl, of sitAlice 7 emptySnapshot emptySnapshot 0] by (simp add: emptySnapshot_def)
qed

section \<open>Timeouts\<close>



end
