(* ===== verification/Network_Client.thy ===== *)
theory Network_Client
  imports Protocol_Messages Codec Strings
begin

text \<open>
  \<open>src/apps/client/network_client.hpp\<close> and \<open>network_client.cpp\<close>: the class \<open>NetworkClient\<close>, the state machine of the
  graphical client between its user, the server it is connected to and the properties its pages show.

  The data members are a record. The socket and the timers belong to Qt: of the socket the model keeps what \<open>state()\<close>
  answers and the calls made on it, of a timer whether it is active. What Qt decides is the record \<open>Qt\<close>: whether
  \<open>abort()\<close> and \<open>disconnectFromHost()\<close> emit \<open>disconnected()\<close> before they return, in which state \<open>connectToHost()\<close>
  leaves the socket and whether it reports an error at once, and the text functions of \<open>QString\<close>. The protobuf
  functions are in that record too. A slot that a signal of the socket calls runs inside the call that emits it, as with the
  direct connections of the constructor.

  A property of the object is read again by the pages when its \<open>NOTIFY\<close> signal is emitted; \<open>screen\<close> holds what they read
  last. Texts are \<open>string\<close>s of UTF-8 bytes.
\<close>

section \<open>State\<close>

type_synonym u16 = "16 word"

datatype SocketState = UnconnectedState | HostLookupState | ConnectingState | ConnectedState | ClosingState

datatype SocketCall = ConnectToHost string u16 | Write "u8 list" | Abort | DisconnectFromHost

datatype Signal = connectedChanged | authenticatedChanged | statusChanged | identityChanged | tablesChanged | tableChanged

record Qt =
  abort_emits :: "SocketState \<Rightarrow> bool"
  disconnect_outcome :: "SocketState \<Rightarrow> SocketState \<times> bool"
  connect_outcome :: "SocketState \<Rightarrow> SocketState \<times> string option"
  trimmed :: "string \<Rightarrow> string"
  to_lower :: "string \<Rightarrow> string"
  to_ushort :: "string \<Rightarrow> u16 option"
  serialize_message :: "Envelope \<Rightarrow> u8 list option"
  parse_message :: "u8 list \<Rightarrow> Envelope option"

record TableItem =
  item_table_id :: u64
  item_name :: string
  item_players :: u32
  item_max_players :: u32
  item_blinds :: string
  item_node :: string

record PlayerItem =
  item_user_id :: u64
  item_seat :: u32
  item_stack :: int
  item_commitment :: int
  item_status :: string
  item_ready :: bool
  item_connected :: bool
  item_cards :: string

text \<open>The properties of the object.\<close>

record Screen =
  shown_connected :: bool
  shown_authenticated :: bool
  shown_status :: string
  shown_user :: u64
  shown_wallet :: int
  shown_tables :: "TableItem list"
  shown_players :: "PlayerItem list"
  shown_board :: "string list"
  shown_table :: u64
  shown_hand :: u64
  shown_acting :: u64
  shown_street :: string
  shown_pot :: int
  shown_bet :: int
  shown_raise :: int

record NetworkClient =
  socket :: SocketState
  socket_calls :: "SocketCall list"
  reconnect_timer :: "nat option"
  heartbeat_timer :: bool
  nc_codec :: LengthFieldCodec
  nc_status :: string
  lobby_host :: string
  lobby_port :: u16
  game_host :: string
  game_port :: u16
  nc_session_token :: string
  pending_ticket :: string
  routing_to_game :: bool
  authenticate_on_connect :: bool
  authenticated :: bool
  seated :: bool
  intentional_disconnect :: bool
  reconnect_after_auth :: bool
  reconnect_attempt :: nat
  next_request_id :: u64
  nc_client_sequence :: u64
  lobby_sequence :: u64
  game_sequence :: u64
  nc_user_id :: u64
  wallet_chips :: int
  nc_tables :: "TableItem list"
  nc_players :: "PlayerItem list"
  nc_board :: "string list"
  nc_table_id :: u64
  nc_hand_id :: u64
  nc_server_sequence :: u64
  nc_acting_user_id :: u64
  nc_street :: string
  nc_pot :: int
  nc_current_bet :: int
  nc_minimum_raise :: int
  screen :: Screen

definition isConnected :: "NetworkClient \<Rightarrow> bool" where
  "isConnected c \<longleftrightarrow> socket c = ConnectedState"

definition newScreen :: Screen where
  "newScreen = \<lparr>shown_connected = False, shown_authenticated = False, shown_status = ''Disconnected'', shown_user = 0,
     shown_wallet = 0, shown_tables = [], shown_players = [], shown_board = [], shown_table = 0, shown_hand = 0,
     shown_acting = 0, shown_street = ''Waiting'', shown_pot = 0, shown_bet = 0, shown_raise = 0\<rparr>"

definition newClient :: NetworkClient where
  "newClient = \<lparr>socket = UnconnectedState, socket_calls = [], reconnect_timer = None, heartbeat_timer = False,
     nc_codec = \<lparr>max_frame_size = default_max_frame_size, buffer = [], read_offset = 0, failed = False\<rparr>,
     nc_status = ''Disconnected'', lobby_host = ''127.0.0.1'', lobby_port = 6000, game_host = [], game_port = 0,
     nc_session_token = [], pending_ticket = [], routing_to_game = False, authenticate_on_connect = False,
     authenticated = False, seated = False, intentional_disconnect = False, reconnect_after_auth = False,
     reconnect_attempt = 0, next_request_id = 1, nc_client_sequence = 0, lobby_sequence = 0, game_sequence = 0,
     nc_user_id = 0, wallet_chips = 0, nc_tables = [], nc_players = [], nc_board = [], nc_table_id = 0, nc_hand_id = 0,
     nc_server_sequence = 0, nc_acting_user_id = 0, nc_street = ''Waiting'', nc_pot = 0, nc_current_bet = 0,
     nc_minimum_raise = 0, screen = newScreen\<rparr>"

section \<open>Signals and status\<close>

fun refreshScreen :: "Signal \<Rightarrow> NetworkClient \<Rightarrow> Screen \<Rightarrow> Screen" where
  "refreshScreen connectedChanged c v = v\<lparr>shown_connected := isConnected c\<rparr>"
| "refreshScreen authenticatedChanged c v = v\<lparr>shown_authenticated := authenticated c\<rparr>"
| "refreshScreen statusChanged c v = v\<lparr>shown_status := nc_status c\<rparr>"
| "refreshScreen identityChanged c v = v\<lparr>shown_user := nc_user_id c, shown_wallet := wallet_chips c\<rparr>"
| "refreshScreen tablesChanged c v = v\<lparr>shown_tables := nc_tables c\<rparr>"
| "refreshScreen tableChanged c v = v\<lparr>shown_players := nc_players c, shown_board := nc_board c, shown_table := nc_table_id c,
     shown_hand := nc_hand_id c, shown_acting := nc_acting_user_id c, shown_street := nc_street c, shown_pot := nc_pot c,
     shown_bet := nc_current_bet c, shown_raise := nc_minimum_raise c\<rparr>"

definition emit :: "Signal \<Rightarrow> NetworkClient \<Rightarrow> NetworkClient" where
  "emit signal c = c\<lparr>screen := refreshScreen signal c (screen c)\<rparr>"

definition setStatus :: "string \<Rightarrow> NetworkClient \<Rightarrow> NetworkClient" where
  "setStatus value c = (if nc_status c = value then c else emit statusChanged (c\<lparr>nc_status := value\<rparr>))"

text \<open>The character that ends three of the messages, and the suits, in UTF-8.\<close>

definition ellipsis :: string where
  "ellipsis = [CHR 0xE2, CHR 0x80, CHR 0xA6]"

definition suitTexts :: "string list" where
  "suitTexts = [[CHR 0xE2, CHR 0x99, CHR 0xA3], [CHR 0xE2, CHR 0x99, CHR 0xA6], [CHR 0xE2, CHR 0x99, CHR 0xA5], [CHR 0xE2, CHR 0x99, CHR 0xA0]]"

definition rankTexts :: "string list" where
  "rankTexts = [''?'', ''?'', ''2'', ''3'', ''4'', ''5'', ''6'', ''7'', ''8'', ''9'', ''T'', ''J'', ''Q'', ''K'', ''A'']"

definition cardText :: "WireCard \<Rightarrow> string" where
  "cardText k =
     (if unat (wire_rank k) < length rankTexts then rankTexts ! unat (wire_rank k) else ''?'') @
     (if unat (wire_suit k) < length suitTexts then suitTexts ! unat (wire_suit k) else ''?'')"

fun streetText :: "WireStreet \<Rightarrow> string" where
  "streetText WAITING = ''Waiting''"
| "streetText PREFLOP = ''Preflop''"
| "streetText FLOP = ''Flop''"
| "streetText TURN = ''Turn''"
| "streetText RIVER = ''River''"
| "streetText SHOWDOWN = ''Showdown''"
| "streetText SETTLED = ''Settled''"
| "streetText STREET_UNSPECIFIED = ''Unknown''"

definition numberText :: "int \<Rightarrow> string" where
  "numberText i = (if i < 0 then ''-'' @ to_string (nat (- i)) else to_string (nat i))"

section \<open>Sending\<close>

definition envelope :: "MessageType \<Rightarrow> bool \<Rightarrow> NetworkClient \<Rightarrow> Envelope \<times> NetworkClient" where
  "envelope type sequenced c =
     (let result = newEnvelope\<lparr>protocol_version := 1, request_id := next_request_id c, message_type := type\<rparr>;
          c1 = c\<lparr>next_request_id := next_request_id c + 1\<rparr>
      in if sequenced
         then (let n = nc_client_sequence c + 1; c2 = c1\<lparr>nc_client_sequence := n\<rparr>
               in (result\<lparr>client_sequence := n\<rparr>,
                   if routing_to_game c then c2\<lparr>game_sequence := n\<rparr> else c2\<lparr>lobby_sequence := n\<rparr>))
         else (result, c1))"

text \<open>The \<open>what()\<close> of the exceptions of \<open>LengthFieldCodec::encode\<close>.\<close>

fun encodeWhat :: "exn \<Rightarrow> string" where
  "encodeWhat invalid_argument = ''empty protocol frames are not allowed''"
| "encodeWhat length_error = ''protocol frame exceeds the configured maximum''"
| "encodeWhat _ = []"

definition sendMessage :: "Qt \<Rightarrow> Envelope \<Rightarrow> NetworkClient \<Rightarrow> NetworkClient" where
  "sendMessage q message c =
     (if \<not> isConnected c then setStatus ''Not connected'' c
      else (case serialize_message q message of
              None \<Rightarrow> setStatus ''Could not encode request'' c
            | Some payload \<Rightarrow>
                (case encode payload default_max_frame_size of
                   Inl e \<Rightarrow> setStatus (encodeWhat e) c
                 | Inr frame \<Rightarrow> c\<lparr>socket_calls := socket_calls c @ [Write frame]\<rparr>)))"

text \<open>A request is an envelope whose body is filled in, and is sent.\<close>

definition request :: "Qt \<Rightarrow> MessageType \<Rightarrow> bool \<Rightarrow> (NetworkClient \<Rightarrow> Body) \<Rightarrow> NetworkClient \<Rightarrow> NetworkClient" where
  "request q type sequenced content c =
     (case envelope type sequenced c of (e, c1) \<Rightarrow> sendMessage q (e\<lparr>body := content c1\<rparr>) c1)"

definition registerAccount :: "Qt \<Rightarrow> string \<Rightarrow> string \<Rightarrow> NetworkClient \<Rightarrow> NetworkClient" where
  "registerAccount q username password = request q REGISTER_REQUEST False (\<lambda>_. RegisterRequest username password)"

definition clientLogin :: "Qt \<Rightarrow> string \<Rightarrow> string \<Rightarrow> NetworkClient \<Rightarrow> NetworkClient" where
  "clientLogin q username password = request q LOGIN_REQUEST False (\<lambda>_. LoginRequest username password)"

definition clientLogout :: "Qt \<Rightarrow> NetworkClient \<Rightarrow> NetworkClient" where
  "clientLogout q = request q LOGOUT_REQUEST True (\<lambda>_. LogoutRequest)"

definition refreshTables :: "Qt \<Rightarrow> NetworkClient \<Rightarrow> NetworkClient" where
  "refreshTables q = request q LIST_TABLES_REQUEST True (\<lambda>_. ListTablesRequest 100 [])"

definition clientCreateTable :: "Qt \<Rightarrow> string \<Rightarrow> int \<Rightarrow> int \<Rightarrow> int \<Rightarrow> int \<Rightarrow> int \<Rightarrow> NetworkClient \<Rightarrow> NetworkClient" where
  "clientCreateTable q name maxPlayers smallBlind bigBlind minimumBuyIn maximumBuyIn =
     request q CREATE_TABLE_REQUEST True
       (\<lambda>_. CreateTableBody \<lparr>create_name = name, create_max_players = of_int (max 2 (min 6 maxPlayers)),
          create_small_blind = smallBlind, create_big_blind = bigBlind, create_min_buy_in = minimumBuyIn,
          create_max_buy_in = maximumBuyIn\<rparr>)"

definition clientJoinTable :: "Qt \<Rightarrow> u64 \<Rightarrow> NetworkClient \<Rightarrow> NetworkClient" where
  "clientJoinTable q tableId c =
     request q JOIN_TABLE_REQUEST True (\<lambda>_. JoinTableRequest tableId) (emit tableChanged (c\<lparr>nc_table_id := tableId\<rparr>))"

definition sitDown :: "Qt \<Rightarrow> int \<Rightarrow> int \<Rightarrow> NetworkClient \<Rightarrow> NetworkClient" where
  "sitDown q seat_index buyIn =
     request q SIT_DOWN_REQUEST True
       (\<lambda>c. SitDownBody \<lparr>sit_table_id = nc_table_id c, sit_seat = of_int (max 0 seat_index), sit_buy_in = buyIn,
          sit_join_ticket = pending_ticket c\<rparr>)"

definition clientReady :: "Qt \<Rightarrow> bool \<Rightarrow> NetworkClient \<Rightarrow> NetworkClient" where
  "clientReady q ready_flag = request q READY_REQUEST True (\<lambda>c. ReadyRequest (nc_table_id c) ready_flag)"

definition actionNamed :: "string \<Rightarrow> WireAction option" where
  "actionNamed normalized =
     (if normalized = ''fold'' then Some FOLD
      else if normalized = ''check'' then Some CHECK
      else if normalized = ''call'' then Some CALL
      else if normalized = ''bet'' then Some BET
      else if normalized = ''raise'' then Some RAISE
      else if normalized = ''all_in'' then Some ALL_IN
      else None)"

definition clientAct :: "Qt \<Rightarrow> string \<Rightarrow> int \<Rightarrow> NetworkClient \<Rightarrow> NetworkClient" where
  "clientAct q action targetCommitment c =
     (case envelope ACTION_REQUEST True c of
        (e, c1) \<Rightarrow>
          (case actionNamed (to_lower q (trimmed q action)) of
             None \<Rightarrow> setStatus ''Unknown action'' c1
           | Some a \<Rightarrow>
               sendMessage q (e\<lparr>body := ActionBody \<lparr>act_table_id = nc_table_id c1, act_hand_id = nc_hand_id c1, act_action = a,
                 target_street_commitment = targetCommitment\<rparr>\<rparr>) c1))"

definition leaveTable :: "Qt \<Rightarrow> NetworkClient \<Rightarrow> NetworkClient" where
  "leaveTable q = request q LEAVE_TABLE_REQUEST True (\<lambda>c. LeaveTableRequest (nc_table_id c))"

section \<open>The connection\<close>

definition scheduleReconnect :: "NetworkClient \<Rightarrow> NetworkClient" where
  "scheduleReconnect c =
     (if reconnect_timer c \<noteq> None then c
      else (let shift = min (reconnect_attempt c) 4; delay_ms = min 10000 (500 * 2 ^ shift);
                c1 = setStatus (''Connection lost; retrying in '' @ to_string delay_ms @ '' ms'')
                       (c\<lparr>reconnect_attempt := reconnect_attempt c + 1\<rparr>)
            in c1\<lparr>reconnect_timer := Some delay_ms\<rparr>))"

definition onConnected :: "Qt \<Rightarrow> NetworkClient \<Rightarrow> NetworkClient" where
  "onConnected q c =
     (let c1 = emit connectedChanged (c\<lparr>reconnect_timer := None, heartbeat_timer := True\<rparr>);
          c2 = setStatus (if routing_to_game c1 then ''Connected to game node'' else ''Connected to lobby'') c1
      in if authenticate_on_connect c2 \<and> nc_session_token c2 \<noteq> []
         then request q AUTHENTICATE_SESSION_REQUEST False (\<lambda>x. AuthenticateSessionRequest (nc_session_token x)) c2
         else c2)"

definition onSocketDisconnected :: "NetworkClient \<Rightarrow> NetworkClient" where
  "onSocketDisconnected c =
     (let c1 = emit authenticatedChanged (emit connectedChanged (c\<lparr>heartbeat_timer := False, authenticated := False\<rparr>))
      in if intentional_disconnect c1 then c1\<lparr>intentional_disconnect := False\<rparr>
         else if routing_to_game c1 \<and> nc_session_token c1 \<noteq> [] \<and> nc_table_id c1 \<noteq> 0
         then scheduleReconnect (c1\<lparr>reconnect_after_auth := seated c1\<rparr>)
         else setStatus ''Disconnected'' c1)"

definition onSocketError :: "string \<Rightarrow> NetworkClient \<Rightarrow> NetworkClient" where
  "onSocketError errorString c =
     (let c1 = setStatus errorString c
      in if \<not> intentional_disconnect c1 \<and> socket c1 = UnconnectedState \<and> routing_to_game c1 \<and> nc_session_token c1 \<noteq> []
            \<and> nc_table_id c1 \<noteq> 0
         then scheduleReconnect c1 else c1)"

definition abortSocket :: "Qt \<Rightarrow> NetworkClient \<Rightarrow> NetworkClient" where
  "abortSocket q c =
     (let c1 = c\<lparr>socket := UnconnectedState, socket_calls := socket_calls c @ [Abort]\<rparr>
      in if abort_emits q (socket c) then onSocketDisconnected c1 else c1)"

definition disconnectFromHost :: "Qt \<Rightarrow> NetworkClient \<Rightarrow> NetworkClient" where
  "disconnectFromHost q c =
     (case disconnect_outcome q (socket c) of
        (st, emits) \<Rightarrow>
          let c1 = c\<lparr>socket := st, socket_calls := socket_calls c @ [DisconnectFromHost]\<rparr>
          in if emits then onSocketDisconnected c1 else c1)"

definition connectToHost :: "Qt \<Rightarrow> string \<Rightarrow> u16 \<Rightarrow> NetworkClient \<Rightarrow> NetworkClient" where
  "connectToHost q host port c =
     (case connect_outcome q (socket c) of
        (st, reported) \<Rightarrow>
          let c1 = c\<lparr>socket := st, socket_calls := socket_calls c @ [ConnectToHost host port]\<rparr>
          in case reported of None \<Rightarrow> c1 | Some text \<Rightarrow> onSocketError text c1)"

definition connectToLobby :: "Qt \<Rightarrow> string \<Rightarrow> u16 \<Rightarrow> NetworkClient \<Rightarrow> NetworkClient" where
  "connectToLobby q host port c =
     (let c1 = c\<lparr>reconnect_timer := None, reconnect_attempt := 0, reconnect_after_auth := False,
                 lobby_host := if trimmed q host = [] then ''127.0.0.1'' else trimmed q host, lobby_port := port\<rparr>;
          c2 = if routing_to_game c1 then c1\<lparr>game_sequence := nc_client_sequence c1\<rparr> else c1;
          c3 = emit authenticatedChanged
                 (c2\<lparr>routing_to_game := False, nc_client_sequence := lobby_sequence c2,
                     authenticate_on_connect := (nc_session_token c2 \<noteq> []), authenticated := False\<rparr>);
          c4 = c3\<lparr>nc_codec := reset (nc_codec c3), intentional_disconnect := (socket c3 \<noteq> UnconnectedState)\<rparr>;
          c5 = setStatus (''Connecting to lobby'' @ ellipsis) (abortSocket q c4)
      in connectToHost q (lobby_host c5) (lobby_port c5) c5)"

text \<open>\<open>lastIndexOf(':')\<close>; without a colon the code has \<open>-1\<close>.\<close>

definition lastColon :: "string \<Rightarrow> int" where
  "lastColon endpoint =
     (if CHR '':'' \<in> set endpoint then int (length endpoint) - 1 - int (length (takeWhile (\<lambda>x. x \<noteq> CHR '':'') (rev endpoint))) else - 1)"

definition routeToGame :: "Qt \<Rightarrow> string \<Rightarrow> string \<Rightarrow> u64 \<Rightarrow> NetworkClient \<Rightarrow> NetworkClient" where
  "routeToGame q endpoint ticket tableId c =
     (let separator = lastColon endpoint
      in if separator \<le> 0 then setStatus ''Invalid game-node endpoint'' c
         else (case to_ushort q (drop (nat separator + 1) endpoint) of
                 None \<Rightarrow> setStatus ''Invalid game-node port'' c
               | Some port \<Rightarrow>
                   (let c1 = emit tableChanged (emit authenticatedChanged
                          (c\<lparr>lobby_sequence := nc_client_sequence c, nc_client_sequence := game_sequence c, nc_table_id := tableId,
                             pending_ticket := ticket, game_host := take (nat separator) endpoint, game_port := port,
                             routing_to_game := True, reconnect_timer := None, reconnect_attempt := 0,
                             reconnect_after_auth := False, authenticate_on_connect := True, authenticated := False\<rparr>));
                        c2 = c1\<lparr>nc_codec := reset (nc_codec c1), intentional_disconnect := (socket c1 \<noteq> UnconnectedState)\<rparr>;
                        c3 = setStatus (''Routing to assigned game node'' @ ellipsis) (abortSocket q c2)
                    in connectToHost q (game_host c3) (game_port c3) c3)))"

definition onReconnectTimer :: "Qt \<Rightarrow> NetworkClient \<Rightarrow> NetworkClient" where
  "onReconnectTimer q c =
     (if \<not> routing_to_game c \<or> game_host c = [] \<or> game_port c = 0 then c
      else (let c1 = setStatus (''Reconnecting to game node'' @ ellipsis)
                       (c\<lparr>nc_codec := reset (nc_codec c), authenticate_on_connect := True\<rparr>)
            in connectToHost q (game_host c1) (game_port c1) c1))"

definition onHeartbeatTimer :: "Qt \<Rightarrow> int \<Rightarrow> NetworkClient \<Rightarrow> NetworkClient" where
  "onHeartbeatTimer q now c = (if \<not> isConnected c then c else request q HEARTBEAT False (\<lambda>_. Heartbeat now 0) c)"

section \<open>Messages of the server\<close>

text \<open>An accessor of a body that is not set gives the default message.\<close>

definition loginBody :: "Envelope \<Rightarrow> u64 \<times> string \<times> int" where
  "loginBody e = (case body e of LoginResponse u token wallet t \<Rightarrow> (u, token, wallet) | _ \<Rightarrow> (0, [], 0))"

definition authenticateBody :: "Envelope \<Rightarrow> u64 \<times> int" where
  "authenticateBody e = (case body e of AuthenticateSessionResponse u name wallet t \<Rightarrow> (u, wallet) | _ \<Rightarrow> (0, 0))"

definition refreshBody :: "Envelope \<Rightarrow> string" where
  "refreshBody e = (case body e of RefreshSessionResponse token t \<Rightarrow> token | _ \<Rightarrow> [])"

definition listBody :: "Envelope \<Rightarrow> TableSummary list" where
  "listBody e = (case body e of ListTablesResponse ts page \<Rightarrow> ts | _ \<Rightarrow> [])"

definition createBody :: "Envelope \<Rightarrow> u64 \<times> string \<times> string" where
  "createBody e = (case body e of CreateTableResponse t endpoint ticket \<Rightarrow> (summary_table_id t, endpoint, ticket) | _ \<Rightarrow> (0, [], []))"

definition joinBody :: "Envelope \<Rightarrow> string \<times> string" where
  "joinBody e = (case body e of JoinTableResponse endpoint ticket \<Rightarrow> (endpoint, ticket) | _ \<Rightarrow> ([], []))"

definition ackBody :: "Envelope \<Rightarrow> string" where
  "ackBody e = (case body e of CommandAck accepted message \<Rightarrow> message | _ \<Rightarrow> [])"

definition errorBody :: "Envelope \<Rightarrow> ErrorCode \<times> string" where
  "errorBody e = (case body e of ErrorResponse code message related \<Rightarrow> (code, message) | _ \<Rightarrow> (ERROR_CODE_OK, []))"

definition eventBody :: "Envelope \<Rightarrow> string \<times> string" where
  "eventBody e = (case body e of EventBody event \<Rightarrow> (event_type event, event_payload event) | _ \<Rightarrow> ([], []))"

definition snapshotBody :: "Envelope \<Rightarrow> WireSnapshot" where
  "snapshotBody e =
     (case body e of
        SnapshotBody s \<Rightarrow> s
      | _ \<Rightarrow> \<lparr>wire_table_id = 0, wire_hand_id = 0, wire_server_sequence = 0, wire_street = STREET_UNSPECIFIED, dealer_user_id = 0,
              acting_user_id = 0, wire_current_bet = 0, wire_minimum_raise = 0, wire_pot = 0, wire_board = [], wire_players = []\<rparr>)"

definition tableItem :: "TableSummary \<Rightarrow> TableItem" where
  "tableItem t =
     \<lparr>item_table_id = summary_table_id t, item_name = summary_name t, item_players = seated_players t,
      item_max_players = summary_max_players t,
      item_blinds = numberText (summary_small_blind t) @ '' / '' @ numberText (summary_big_blind t),
      item_node = game_node_id t\<rparr>"

fun joinSpace :: "string list \<Rightarrow> string" where
  "joinSpace [] = []"
| "joinSpace [x] = x"
| "joinSpace (x # xs) = x @ '' '' @ joinSpace xs"

definition playerItem :: "PlayerState \<Rightarrow> PlayerItem" where
  "playerItem p =
     \<lparr>item_user_id = state_user_id p, item_seat = state_seat p, item_stack = state_stack p,
      item_commitment = state_street_commitment p, item_status = state_status p, item_ready = state_ready p,
      item_connected = state_connected p, item_cards = joinSpace (map cardText (visible_hole_cards p))\<rparr>"

definition processSnapshot :: "WireSnapshot \<Rightarrow> NetworkClient \<Rightarrow> NetworkClient" where
  "processSnapshot s c =
     (let c1 = emit tableChanged
                 (c\<lparr>nc_table_id := wire_table_id s, nc_hand_id := wire_hand_id s, nc_server_sequence := wire_server_sequence s,
                    nc_acting_user_id := acting_user_id s, nc_street := streetText (wire_street s), nc_pot := wire_pot s,
                    nc_current_bet := wire_current_bet s, nc_minimum_raise := wire_minimum_raise s,
                    nc_board := map cardText (wire_board s), nc_players := map playerItem (wire_players s),
                    seated := (\<exists>p \<in> set (wire_players s). state_user_id p = nc_user_id c)\<rparr>)
      in setStatus (if nc_acting_user_id c1 = nc_user_id c1 then ''Your turn'' else ''Table synchronized'') c1)"

text \<open>The assignments and signals with which three branches of \<open>process\<close> forget who the user is.\<close>

definition forgetIdentity :: "NetworkClient \<Rightarrow> NetworkClient" where
  "forgetIdentity c =
     emit tableChanged (emit identityChanged (emit authenticatedChanged
       (c\<lparr>reconnect_timer := None, nc_session_token := [], authenticate_on_connect := False, reconnect_after_auth := False,
          authenticated := False, seated := False, nc_table_id := 0, nc_hand_id := 0, nc_server_sequence := 0,
          nc_acting_user_id := 0, nc_user_id := 0, wallet_chips := 0, nc_client_sequence := 0, lobby_sequence := 0,
          game_sequence := 0, nc_players := [], nc_board := []\<rparr>)))"

definition backToLobby :: "Qt \<Rightarrow> NetworkClient \<Rightarrow> NetworkClient" where
  "backToLobby q c = connectToLobby q (lobby_host c) (lobby_port c) c"

definition onLoginResponse :: "Qt \<Rightarrow> Envelope \<Rightarrow> NetworkClient \<Rightarrow> NetworkClient" where
  "onLoginResponse q message c =
     (case loginBody message of
        (user, token, wallet) \<Rightarrow>
          refreshTables q (setStatus ''Signed in'' (emit identityChanged (emit authenticatedChanged
            (c\<lparr>nc_user_id := user, wallet_chips := wallet, nc_session_token := token, nc_client_sequence := 0, lobby_sequence := 0,
               authenticated := True\<rparr>)))))"

definition onAuthenticateResponse :: "Qt \<Rightarrow> Envelope \<Rightarrow> NetworkClient \<Rightarrow> NetworkClient" where
  "onAuthenticateResponse q message c =
     (case authenticateBody message of
        (user, wallet) \<Rightarrow>
          let c1 = c\<lparr>nc_user_id := user, wallet_chips := wallet, authenticated := True, authenticate_on_connect := False,
                     reconnect_attempt := 0, nc_client_sequence := 0\<rparr>;
              c2 = (if routing_to_game c1 then c1\<lparr>game_sequence := 0\<rparr> else c1\<lparr>lobby_sequence := 0\<rparr>);
              c3 = setStatus (if routing_to_game c2 then ''Game node authenticated'' else ''Lobby session restored'')
                     (emit identityChanged (emit authenticatedChanged c2))
          in if routing_to_game c3 \<and> reconnect_after_auth c3
             then (case envelope RECONNECT_REQUEST True c3 of
                     (e, c4) \<Rightarrow>
                       sendMessage q (e\<lparr>body := ReconnectRequest (nc_table_id c4) (nc_session_token c4) (nc_server_sequence c4)\<rparr>)
                         (c4\<lparr>reconnect_after_auth := False\<rparr>))
             else if \<not> routing_to_game c3 then refreshTables q c3
             else c3)"

definition onCommandAck :: "Qt \<Rightarrow> Envelope \<Rightarrow> NetworkClient \<Rightarrow> NetworkClient" where
  "onCommandAck q message c =
     (let text = ackBody message; c1 = setStatus text c
      in if text = ''logged out''
         then (let c2 = forgetIdentity c1 in if routing_to_game c1 then backToLobby q c2 else c2)
         else if text = ''left table''
         then backToLobby q (emit tableChanged
                (c1\<lparr>seated := False, nc_table_id := 0, nc_hand_id := 0, nc_players := [], nc_board := []\<rparr>))
         else c1)"

definition onErrorResponse :: "Qt \<Rightarrow> Envelope \<Rightarrow> NetworkClient \<Rightarrow> NetworkClient" where
  "onErrorResponse q message c =
     (case errorBody message of
        (code, text) \<Rightarrow>
          setStatus (''Error: '' @ text)
            (if code = UNAUTHENTICATED
             then (let c1 = forgetIdentity (c\<lparr>heartbeat_timer := False\<rparr>) in if routing_to_game c then backToLobby q c1 else c1)
             else c))"

definition onTableEvent :: "Qt \<Rightarrow> Envelope \<Rightarrow> NetworkClient \<Rightarrow> NetworkClient" where
  "onTableEvent q message c =
     (case eventBody message of
        (kind, payload) \<Rightarrow>
          let c1 = setStatus payload c
          in if kind = ''session_replaced''
             then (let c2 = forgetIdentity (c1\<lparr>heartbeat_timer := False, routing_to_game := False\<rparr>)
                   in disconnectFromHost q (c2\<lparr>intentional_disconnect := (socket c2 \<noteq> UnconnectedState)\<rparr>))
             else if kind = ''table_aborted_refunded'' \<or> kind = ''table_aborted_refund_pending''
             then backToLobby q (emit tableChanged
                    (c1\<lparr>seated := False, nc_table_id := 0, nc_hand_id := 0, nc_acting_user_id := 0, nc_players := [], nc_board := []\<rparr>))
             else c1)"

definition process :: "Qt \<Rightarrow> Envelope \<Rightarrow> NetworkClient \<Rightarrow> NetworkClient" where
  "process q message c =
     (case message_type message of
        REGISTER_RESPONSE \<Rightarrow> setStatus ''Account created. Sign in now.'' c
      | LOGIN_RESPONSE \<Rightarrow> onLoginResponse q message c
      | AUTHENTICATE_SESSION_RESPONSE \<Rightarrow> onAuthenticateResponse q message c
      | REFRESH_SESSION_RESPONSE \<Rightarrow> setStatus ''Session refreshed'' (c\<lparr>nc_session_token := refreshBody message\<rparr>)
      | LIST_TABLES_RESPONSE \<Rightarrow>
          setStatus ''Lobby refreshed'' (emit tablesChanged (c\<lparr>nc_tables := map tableItem (listBody message)\<rparr>))
      | CREATE_TABLE_RESPONSE \<Rightarrow> (case createBody message of (k, endpoint, ticket) \<Rightarrow> routeToGame q endpoint ticket k c)
      | JOIN_TABLE_RESPONSE \<Rightarrow> (case joinBody message of (endpoint, ticket) \<Rightarrow> routeToGame q endpoint ticket (nc_table_id c) c)
      | TABLE_SNAPSHOT \<Rightarrow> processSnapshot (snapshotBody message) c
      | COMMAND_ACK \<Rightarrow> onCommandAck q message c
      | ERROR_RESPONSE \<Rightarrow> onErrorResponse q message c
      | TABLE_EVENT \<Rightarrow> onTableEvent q message c
      | HEARTBEAT \<Rightarrow> c
      | _ \<Rightarrow> setStatus ''Unsupported server response'' c)"

definition processFrame :: "Qt \<Rightarrow> u8 list \<Rightarrow> NetworkClient \<Rightarrow> NetworkClient" where
  "processFrame q frame c =
     (case parse_message q frame of
        None \<Rightarrow> setStatus ''Invalid server message'' c
      | Some message \<Rightarrow> process q message c)"

text \<open>\<open>feed\<close> does not throw on an array (\<open>feed_any_input\<close>), so that its first case does not arise.\<close>

definition onReadyRead :: "Qt \<Rightarrow> u8 list \<Rightarrow> NetworkClient \<Rightarrow> NetworkClient" where
  "onReadyRead q bytes c =
     (case feed bytes (nc_codec c) of
        Inl e \<Rightarrow> c
      | Inr (decoded, codec) \<Rightarrow>
          let c1 = c\<lparr>nc_codec := codec\<rparr>
          in if codec_error decoded \<noteq> codec_none then abortSocket q (setStatus ''Protocol framing error'' c1)
             else fold (processFrame q) (frames decoded) c1)"

section \<open>Runs\<close>

text \<open>What the pages can call.\<close>

datatype UserCommand =
    ConnectCommand string u16
  | RegisterCommand string string
  | LoginCommand string string
  | LogoutCommand
  | RefreshCommand
  | CreateCommand string int int int int int
  | JoinCommand u64
  | SitCommand int int
  | ReadyCommand bool
  | ActCommand string int
  | LeaveCommand

fun perform :: "Qt \<Rightarrow> UserCommand \<Rightarrow> NetworkClient \<Rightarrow> NetworkClient" where
  "perform q (ConnectCommand host port) = connectToLobby q host port"
| "perform q (RegisterCommand username password) = registerAccount q username password"
| "perform q (LoginCommand username password) = clientLogin q username password"
| "perform q LogoutCommand = clientLogout q"
| "perform q RefreshCommand = refreshTables q"
| "perform q (CreateCommand name seats_wanted small big least most) = clientCreateTable q name seats_wanted small big least most"
| "perform q (JoinCommand k) = clientJoinTable q k"
| "perform q (SitCommand i buy_in) = sitDown q i buy_in"
| "perform q (ReadyCommand flag) = clientReady q flag"
| "perform q (ActCommand name target) = clientAct q name target"
| "perform q LeaveCommand = leaveTable q"

text \<open>The user, the socket and the timers, in any order. An error is reported while the socket keeps its state or after an
  attempt to connect has failed; a socket that was connected reports \<open>disconnected()\<close> when it is not any longer. A single
  shot timer is inactive when its slot runs.\<close>

inductive client_step :: "Qt \<Rightarrow> NetworkClient \<Rightarrow> NetworkClient \<Rightarrow> bool" for q :: Qt where
  step_command: "client_step q c (perform q cmd c)"
| step_found: "socket c = HostLookupState \<Longrightarrow> client_step q c (c\<lparr>socket := ConnectingState\<rparr>)"
| step_connected: "socket c = ConnectingState \<Longrightarrow> client_step q c (onConnected q (c\<lparr>socket := ConnectedState\<rparr>))"
| step_disconnected: "socket c \<in> {ConnectedState, ClosingState} \<Longrightarrow>
    client_step q c (onSocketDisconnected (c\<lparr>socket := UnconnectedState\<rparr>))"
| step_error: "st = socket c \<or> socket c \<in> {HostLookupState, ConnectingState} \<and> st = UnconnectedState \<Longrightarrow>
    client_step q c (onSocketError text (c\<lparr>socket := st\<rparr>))"
| step_read: "socket c \<in> {ConnectedState, ClosingState} \<Longrightarrow> client_step q c (onReadyRead q bytes c)"
| step_reconnect: "reconnect_timer c \<noteq> None \<Longrightarrow> client_step q c (onReconnectTimer q (c\<lparr>reconnect_timer := None\<rparr>))"
| step_heartbeat: "heartbeat_timer c \<Longrightarrow> client_step q c (onHeartbeatTimer q now c)"

inductive client_reachable :: "Qt \<Rightarrow> NetworkClient \<Rightarrow> bool" for q :: Qt where
  reach_new: "client_reachable q newClient"
| reach_step: "client_reachable q c \<Longrightarrow> client_step q c c' \<Longrightarrow> client_reachable q c'"

end
