(* ===== verification/Client_Correct.thy ===== *)
theory Client_Correct
  imports Network_Client Idempotency "HOL-Library.Code_Target_Nat"
begin

text \<open>
  The graphical client over whole runs (\<open>client_reachable\<close>): what its pages show is what it knows, its commands are
  numbered as the request cache of the server (\<open>Idempotency\<close>) expects them, and a broken connection to a game node leads
  back to the seat. Two lemmas show where it falls short: \<open>unknown_action_gap\<close> and \<open>second_attempt_hides_loss\<close>.
\<close>

section \<open>The pages\<close>

text \<open>What is shown of the properties with the given signal is what they are. While the socket is closing it is no longer
  connected, and \<open>disconnected()\<close> is still to come.\<close>

fun agrees :: "Signal \<Rightarrow> NetworkClient \<Rightarrow> bool" where
  "agrees connectedChanged c \<longleftrightarrow> (socket c \<noteq> ClosingState \<longrightarrow> shown_connected (screen c) = isConnected c)"
| "agrees authenticatedChanged c \<longleftrightarrow> shown_authenticated (screen c) = authenticated c"
| "agrees statusChanged c \<longleftrightarrow> shown_status (screen c) = nc_status c"
| "agrees identityChanged c \<longleftrightarrow> shown_user (screen c) = nc_user_id c \<and> shown_wallet (screen c) = wallet_chips c"
| "agrees tablesChanged c \<longleftrightarrow> shown_tables (screen c) = nc_tables c"
| "agrees tableChanged c \<longleftrightarrow> shown_players (screen c) = nc_players c \<and> shown_board (screen c) = nc_board c \<and>
     shown_table (screen c) = nc_table_id c \<and> shown_hand (screen c) = nc_hand_id c \<and> shown_acting (screen c) = nc_acting_user_id c \<and>
     shown_street (screen c) = nc_street c \<and> shown_pot (screen c) = nc_pot c \<and> shown_bet (screen c) = nc_current_bet c \<and>
     shown_raise (screen c) = nc_minimum_raise c"

definition screen_ok :: "NetworkClient \<Rightarrow> bool" where
  "screen_ok c \<longleftrightarrow> (\<forall>signal. agrees signal c)"

lemma screen_okI: "agrees g c \<Longrightarrow> (\<And>h. h \<noteq> g \<Longrightarrow> agrees h c) \<Longrightarrow> screen_ok c"
  unfolding screen_ok_def by metis

lemma screen_ok_agrees: "screen_ok c \<Longrightarrow> agrees signal c"
  by (simp add: screen_ok_def)

text \<open>A signal brings its properties up to date and leaves the others.\<close>

lemma emit_frame [simp]:
  "socket (emit g c) = socket c" "socket_calls (emit g c) = socket_calls c" "nc_session_token (emit g c) = nc_session_token c"
  "routing_to_game (emit g c) = routing_to_game c" "nc_table_id (emit g c) = nc_table_id c" "seated (emit g c) = seated c"
  "intentional_disconnect (emit g c) = intentional_disconnect c" "reconnect_timer (emit g c) = reconnect_timer c"
  "reconnect_attempt (emit g c) = reconnect_attempt c" "nc_client_sequence (emit g c) = nc_client_sequence c"
  "next_request_id (emit g c) = next_request_id c" "game_host (emit g c) = game_host c" "game_port (emit g c) = game_port c"
  "authenticate_on_connect (emit g c) = authenticate_on_connect c" "reconnect_after_auth (emit g c) = reconnect_after_auth c"
  "lobby_host (emit g c) = lobby_host c" "lobby_port (emit g c) = lobby_port c" "nc_codec (emit g c) = nc_codec c"
  "nc_user_id (emit g c) = nc_user_id c" "nc_acting_user_id (emit g c) = nc_acting_user_id c" "nc_status (emit g c) = nc_status c"
  "nc_server_sequence (emit g c) = nc_server_sequence c" "isConnected (emit g c) = isConnected c" "nc_hand_id (emit g c) = nc_hand_id c"
  "pending_ticket (emit g c) = pending_ticket c" "game_sequence (emit g c) = game_sequence c" "lobby_sequence (emit g c) = lobby_sequence c"
  by (simp_all add: emit_def isConnected_def)

lemma agrees_emit [simp]: "agrees g (emit h c) \<longleftrightarrow> g = h \<or> agrees g c"
  by (cases g; cases h) (auto simp: emit_def isConnected_def)

lemma setStatus_frame [simp]:
  "socket (setStatus t c) = socket c" "socket_calls (setStatus t c) = socket_calls c" "nc_session_token (setStatus t c) = nc_session_token c"
  "routing_to_game (setStatus t c) = routing_to_game c" "nc_table_id (setStatus t c) = nc_table_id c" "seated (setStatus t c) = seated c"
  "intentional_disconnect (setStatus t c) = intentional_disconnect c" "reconnect_timer (setStatus t c) = reconnect_timer c"
  "reconnect_attempt (setStatus t c) = reconnect_attempt c" "nc_client_sequence (setStatus t c) = nc_client_sequence c"
  "next_request_id (setStatus t c) = next_request_id c" "game_host (setStatus t c) = game_host c" "game_port (setStatus t c) = game_port c"
  "authenticate_on_connect (setStatus t c) = authenticate_on_connect c" "reconnect_after_auth (setStatus t c) = reconnect_after_auth c"
  "lobby_host (setStatus t c) = lobby_host c" "lobby_port (setStatus t c) = lobby_port c" "nc_codec (setStatus t c) = nc_codec c"
  "nc_user_id (setStatus t c) = nc_user_id c" "nc_status (setStatus t c) = t" "isConnected (setStatus t c) = isConnected c"
  "nc_server_sequence (setStatus t c) = nc_server_sequence c" "nc_hand_id (setStatus t c) = nc_hand_id c"
  "pending_ticket (setStatus t c) = pending_ticket c" "game_sequence (setStatus t c) = game_sequence c" "lobby_sequence (setStatus t c) = lobby_sequence c"
  by (auto simp: setStatus_def emit_def isConnected_def)

lemma agrees_setStatus [simp]:
  "agrees g (setStatus t c) \<longleftrightarrow> (if g = statusChanged then agrees g c \<or> nc_status c \<noteq> t else agrees g c)"
  by (cases g) (auto simp: setStatus_def emit_def isConnected_def)

text \<open>Members that no property reads.\<close>

definition sameShown :: "NetworkClient \<Rightarrow> NetworkClient \<Rightarrow> bool" where
  "sameShown c d \<longleftrightarrow> screen c = screen d \<and> socket c = socket d \<and> authenticated c = authenticated d \<and> nc_status c = nc_status d \<and>
     nc_user_id c = nc_user_id d \<and> wallet_chips c = wallet_chips d \<and> nc_tables c = nc_tables d \<and> nc_players c = nc_players d \<and>
     nc_board c = nc_board d \<and> nc_table_id c = nc_table_id d \<and> nc_hand_id c = nc_hand_id d \<and>
     nc_acting_user_id c = nc_acting_user_id d \<and> nc_street c = nc_street d \<and> nc_pot c = nc_pot d \<and>
     nc_current_bet c = nc_current_bet d \<and> nc_minimum_raise c = nc_minimum_raise d"

lemma sameShown_agrees: "sameShown c d \<Longrightarrow> agrees g c \<longleftrightarrow> agrees g d"
  by (cases g) (auto simp: sameShown_def isConnected_def)

lemma sameShown_ok: "sameShown d c \<Longrightarrow> screen_ok c \<Longrightarrow> screen_ok d"
  by (simp add: screen_ok_def sameShown_agrees)

lemma setStatus_ok [simp]: "screen_ok c \<Longrightarrow> screen_ok (setStatus t c)"
  by (simp add: screen_ok_def)

lemma envelope_same: "envelope type b c = (e, d) \<Longrightarrow> sameShown d c"
  by (auto simp: envelope_def sameShown_def Let_def split: if_splits)

lemma sendMessage_ok [simp]: "screen_ok c \<Longrightarrow> screen_ok (sendMessage q e c)"
  by (auto simp: sendMessage_def intro: sameShown_ok [where c = c] simp: sameShown_def split: option.split sum.split)

lemma request_ok [simp]: "screen_ok c \<Longrightarrow> screen_ok (request q type b content c)"
  by (auto simp: request_def split: prod.split dest!: envelope_same intro: sendMessage_ok sameShown_ok)

lemma scheduleReconnect_ok [simp]:
  assumes "screen_ok c" shows "screen_ok (scheduleReconnect c)"
proof -
  have a: "screen_ok (c\<lparr>reconnect_attempt := n\<rparr>)" for n by (rule sameShown_ok [OF _ assms]) (simp add: sameShown_def)
  show ?thesis using assms
    by (auto simp: scheduleReconnect_def Let_def sameShown_def intro!: sameShown_ok [OF _ setStatus_ok [OF a]])
qed


text \<open>The hypotheses on the socket: \<open>disconnected()\<close> is emitted when a connected or closing socket is aborted, and when
  a connection is closed, then or later; \<open>connectToHost\<close> does not connect before it returns, and leaves a connection in use as
  it is.\<close>

definition qt_signals :: "Qt \<Rightarrow> bool" where
  "qt_signals q \<longleftrightarrow> abort_emits q ConnectedState \<and> abort_emits q ClosingState \<and>
     (\<forall>st. fst (disconnect_outcome q st) =
        (if st \<in> {ConnectedState, ClosingState} \<and> \<not> snd (disconnect_outcome q st) then ClosingState else UnconnectedState)) \<and>
     (\<forall>st. if st \<in> {ConnectedState, ClosingState} then fst (connect_outcome q st) = st
           else fst (connect_outcome q st) \<in> {UnconnectedState, HostLookupState, ConnectingState})"

lemma onSocketDisconnected_ok:
  assumes "\<And>g. g \<notin> {connectedChanged, authenticatedChanged} \<Longrightarrow> agrees g c" "socket c \<noteq> ClosingState"
  shows "screen_ok (onSocketDisconnected c)"
proof -
  let ?c = "emit authenticatedChanged (emit connectedChanged (c\<lparr>heartbeat_timer := False, authenticated := False\<rparr>))"
  have "agrees g (c\<lparr>heartbeat_timer := False, authenticated := False\<rparr>)" if "g \<notin> {connectedChanged, authenticatedChanged}" for g
    using assms(1) [OF that] that by (cases g) auto
  then have a: "screen_ok ?c" by (auto simp: screen_ok_def)
  then have "screen_ok (?c\<lparr>intentional_disconnect := False\<rparr>)" "screen_ok (?c\<lparr>reconnect_after_auth := b\<rparr>)" for b
    by (auto intro: sameShown_ok [OF _ a] simp: sameShown_def)
  then show ?thesis using a by (simp add: onSocketDisconnected_def Let_def)
qed

lemma onSocketError_ok [simp]: "screen_ok c \<Longrightarrow> screen_ok (onSocketError t c)"
  by (simp add: onSocketError_def Let_def)

lemma abortSocket_ok [simp]:
  assumes "screen_ok c" "qt_signals q" shows "screen_ok (abortSocket q c)"
proof -
  let ?c = "c\<lparr>socket := UnconnectedState, socket_calls := socket_calls c @ [Abort]\<rparr>"
  have a: "agrees g ?c" if "g \<noteq> connectedChanged" for g using screen_ok_agrees [OF assms(1), of g] that by (cases g) auto
  have "screen_ok ?c" if "\<not> abort_emits q (socket c)"
  proof (rule screen_okI [OF _ a])
    show "agrees connectedChanged ?c" using screen_ok_agrees [OF assms(1), of connectedChanged] that assms(2)
      by (cases "socket c") (auto simp: qt_signals_def isConnected_def)
  qed
  then show ?thesis using a onSocketDisconnected_ok [of ?c] by (auto simp: abortSocket_def Let_def)
qed

lemma disconnectFromHost_ok [simp]:
  assumes "screen_ok c" "qt_signals q" shows "screen_ok (disconnectFromHost q c)"
proof -
  obtain st b where st: "disconnect_outcome q (socket c) = (st, b)" by (metis surj_pair)
  let ?c = "c\<lparr>socket := st, socket_calls := socket_calls c @ [DisconnectFromHost]\<rparr>"
  have a: "agrees g ?c" if "g \<noteq> connectedChanged" for g using screen_ok_agrees [OF assms(1), of g] that by (cases g) auto
  have q: "st = (if socket c \<in> {ConnectedState, ClosingState} \<and> \<not> b then ClosingState else UnconnectedState)"
    using assms(2) st unfolding qt_signals_def by (metis fst_conv snd_conv)
  have "screen_ok ?c" if "\<not> b"
  proof (rule screen_okI [OF _ a])
    show "agrees connectedChanged ?c" using screen_ok_agrees [OF assms(1), of connectedChanged] that q
      by (auto simp: isConnected_def split: if_splits)
  qed
  then show ?thesis using a st q onSocketDisconnected_ok [of ?c] by (auto simp: disconnectFromHost_def Let_def)
qed

lemma connectToHost_ok [simp]:
  assumes "screen_ok c" "qt_signals q" shows "screen_ok (connectToHost q host port c)"
proof -
  obtain st r where st: "connect_outcome q (socket c) = (st, r)" by (metis surj_pair)
  let ?c = "c\<lparr>socket := st, socket_calls := socket_calls c @ [ConnectToHost host port]\<rparr>"
  have a: "agrees g ?c" if "g \<noteq> connectedChanged" for g using screen_ok_agrees [OF assms(1), of g] that by (cases g) auto
  have "if socket c \<in> {ConnectedState, ClosingState} then st = socket c else st \<in> {UnconnectedState, HostLookupState, ConnectingState}"
    using assms(2) st unfolding qt_signals_def by (metis fst_conv)
  then have "agrees connectedChanged ?c" using screen_ok_agrees [OF assms(1), of connectedChanged]
    by (auto simp: isConnected_def split: if_splits)
  then have "screen_ok ?c" using a by (rule screen_okI)
  then show ?thesis using st by (simp add: connectToHost_def Let_def split: option.split)
qed

lemma connectToLobby_ok [simp]:
  assumes "screen_ok c" "qt_signals q" shows "screen_ok (connectToLobby q host port c)"
proof -
  have "screen_ok (x\<lparr>nc_codec := y, intentional_disconnect := z\<rparr>)" if "screen_ok x" for x y z
    by (rule sameShown_ok [OF _ that]) (simp add: sameShown_def)
  moreover have "screen_ok (emit authenticatedChanged (d\<lparr>routing_to_game := r, nc_client_sequence := n, authenticate_on_connect := b, authenticated := a\<rparr>))"
    if "sameShown d c" for d r n b a
  proof (rule screen_okI [of authenticatedChanged])
    fix h :: Signal
    assume "h \<noteq> authenticatedChanged"
    then show "agrees h (emit authenticatedChanged (d\<lparr>routing_to_game := r, nc_client_sequence := n, authenticate_on_connect := b, authenticated := a\<rparr>))"
      using screen_ok_agrees [OF sameShown_ok [OF that assms(1)], of h] by (cases h) (auto simp: isConnected_def)
  qed simp
  ultimately show ?thesis using assms(2) by (auto simp: connectToLobby_def Let_def sameShown_def intro!: connectToHost_ok setStatus_ok abortSocket_ok)
qed


lemma routeToGame_ok [simp]:
  assumes "screen_ok c" "qt_signals q" shows "screen_ok (routeToGame q endpoint ticket k c)"
proof -
  have keep: "screen_ok (x\<lparr>nc_codec := y, intentional_disconnect := z\<rparr>)" if "screen_ok x" for x y z
    by (rule sameShown_ok [OF _ that]) (simp add: sameShown_def)
  have "screen_ok (emit tableChanged (emit authenticatedChanged
      (c\<lparr>lobby_sequence := a1, nc_client_sequence := a2, nc_table_id := k, pending_ticket := ticket, game_host := a3, game_port := a4,
         routing_to_game := True, reconnect_timer := None, reconnect_attempt := 0, reconnect_after_auth := False,
         authenticate_on_connect := True, authenticated := False\<rparr>)))" (is "screen_ok (emit _ (emit _ ?c))") for a1 a2 a3 a4
  proof -
    have "agrees h ?c" if "h \<notin> {authenticatedChanged, tableChanged}" for h
      using screen_ok_agrees [OF assms(1), of h] that by (cases h) (auto simp: isConnected_def)
    then show ?thesis by (auto simp: screen_ok_def)
  qed
  then show ?thesis using assms keep
    by (auto simp: routeToGame_def Let_def split: option.split intro!: connectToHost_ok setStatus_ok abortSocket_ok)
qed

lemma onReconnectTimer_ok: "screen_ok c \<Longrightarrow> qt_signals q \<Longrightarrow> screen_ok (onReconnectTimer q c)"
  by (auto simp: onReconnectTimer_def Let_def sameShown_def intro!: connectToHost_ok setStatus_ok intro: sameShown_ok [where c = c])

lemma onHeartbeatTimer_ok: "screen_ok c \<Longrightarrow> screen_ok (onHeartbeatTimer q now c)"
  by (simp add: onHeartbeatTimer_def)

lemma forgetIdentity_ok:
  assumes "screen_ok c" shows "screen_ok (forgetIdentity c)"
proof -
  let ?c = "c\<lparr>reconnect_timer := None, nc_session_token := [], authenticate_on_connect := False, reconnect_after_auth := False,
     authenticated := False, seated := False, nc_table_id := 0, nc_hand_id := 0, nc_server_sequence := 0,
     nc_acting_user_id := 0, nc_user_id := 0, wallet_chips := 0, nc_client_sequence := 0, lobby_sequence := 0,
     game_sequence := 0, nc_players := [], nc_board := []\<rparr>"
  have "agrees h ?c" if "h \<notin> {authenticatedChanged, identityChanged, tableChanged}" for h
    using screen_ok_agrees [OF assms, of h] that by (cases h) (auto simp: isConnected_def)
  then show ?thesis by (auto simp: forgetIdentity_def screen_ok_def)
qed

text \<open>An update of members of one signal, followed by that signal.\<close>

lemma emit_ok: "(\<And>h. h \<noteq> g \<Longrightarrow> agrees h d) \<Longrightarrow> screen_ok (emit g d)"
  unfolding screen_ok_def agrees_emit by metis

lemma tableChanged_ok:
  assumes "screen_ok c"
  shows "screen_ok (emit tableChanged (c\<lparr>nc_table_id := k\<rparr>))"
    "screen_ok (emit tableChanged (c\<lparr>seated := b, nc_table_id := k, nc_hand_id := n, nc_players := ps, nc_board := cs\<rparr>))"
    "screen_ok (emit tableChanged (c\<lparr>seated := b, nc_table_id := k, nc_hand_id := n, nc_acting_user_id := u, nc_players := ps, nc_board := cs\<rparr>))"
    "screen_ok (emit tableChanged (c\<lparr>nc_table_id := k, nc_hand_id := n, nc_server_sequence := m, nc_acting_user_id := u, nc_street := t,
        nc_pot := p, nc_current_bet := cb, nc_minimum_raise := r, nc_board := cs, nc_players := ps, seated := b\<rparr>))"
  using assms [THEN screen_ok_agrees, of connectedChanged] assms [THEN screen_ok_agrees, of authenticatedChanged]
    assms [THEN screen_ok_agrees, of statusChanged] assms [THEN screen_ok_agrees, of identityChanged] assms [THEN screen_ok_agrees, of tablesChanged]
  by - (rule emit_ok, case_tac h; simp add: isConnected_def)+


lemma identityChanged_ok:
  assumes "screen_ok c"
  shows "screen_ok (emit identityChanged (emit authenticatedChanged
      (c\<lparr>nc_user_id := u, wallet_chips := w, nc_session_token := t, nc_client_sequence := n, lobby_sequence := m, authenticated := b\<rparr>)))"
    and "screen_ok (emit identityChanged (emit authenticatedChanged
      (c\<lparr>nc_user_id := u, wallet_chips := w, authenticated := b, authenticate_on_connect := a, reconnect_attempt := r, nc_client_sequence := n,
         game_sequence := m\<rparr>)))"
    and "screen_ok (emit identityChanged (emit authenticatedChanged
      (c\<lparr>nc_user_id := u, wallet_chips := w, authenticated := b, authenticate_on_connect := a, reconnect_attempt := r, nc_client_sequence := n,
         lobby_sequence := m\<rparr>)))"
  using assms [THEN screen_ok_agrees, of connectedChanged] assms [THEN screen_ok_agrees, of statusChanged]
    assms [THEN screen_ok_agrees, of tablesChanged] assms [THEN screen_ok_agrees, of tableChanged]
  by - (rule emit_ok, case_tac h; simp add: isConnected_def)+

lemma backToLobby_ok [simp]: "screen_ok c \<Longrightarrow> qt_signals q \<Longrightarrow> screen_ok (backToLobby q c)"
  by (simp add: backToLobby_def)

lemma onLoginResponse_ok: "screen_ok c \<Longrightarrow> screen_ok (onLoginResponse q e c)"
  by (simp add: onLoginResponse_def refreshTables_def identityChanged_ok split: prod.split)

lemma onAuthenticateResponse_ok:
  assumes "screen_ok c" shows "screen_ok (onAuthenticateResponse q e c)"
proof -
  have "screen_ok (sendMessage q x (d\<lparr>reconnect_after_auth := False\<rparr>))" if "envelope type b y = (z, d)" "screen_ok y" for x y z d type b
    using envelope_same [OF that(1)] by (intro sendMessage_ok sameShown_ok [OF _ that(2)]) (simp add: sameShown_def)
  then show ?thesis using assms
    by (auto simp: onAuthenticateResponse_def Let_def refreshTables_def identityChanged_ok split: prod.split)
qed

lemma onCommandAck_ok: "screen_ok c \<Longrightarrow> qt_signals q \<Longrightarrow> screen_ok (onCommandAck q e c)"
  by (auto simp: onCommandAck_def Let_def intro!: backToLobby_ok forgetIdentity_ok tableChanged_ok)

lemma onErrorResponse_ok:
  assumes "screen_ok c" "qt_signals q" shows "screen_ok (onErrorResponse q e c)"
proof -
  have "screen_ok (c\<lparr>heartbeat_timer := False\<rparr>)" by (rule sameShown_ok [OF _ assms(1)]) (simp add: sameShown_def)
  then show ?thesis using assms
    by (auto simp: onErrorResponse_def Let_def intro!: setStatus_ok backToLobby_ok forgetIdentity_ok split: prod.split)
qed

lemma onTableEvent_ok:
  assumes "screen_ok c" "qt_signals q" shows "screen_ok (onTableEvent q e c)"
proof -
  have keep: "screen_ok (x\<lparr>heartbeat_timer := False, routing_to_game := False\<rparr>)" "screen_ok (x\<lparr>intentional_disconnect := b\<rparr>)"
    if "screen_ok x" for x b by (rule sameShown_ok [OF _ that]; simp add: sameShown_def)+
  show ?thesis
    by (simp add: onTableEvent_def Let_def assms keep forgetIdentity_ok tableChanged_ok split: prod.split)
qed

lemma listed_ok:
  assumes "screen_ok c" shows "screen_ok (emit tablesChanged (c\<lparr>nc_tables := ts\<rparr>))"
proof (rule emit_ok)
  fix h :: Signal
  assume "h \<noteq> tablesChanged"
  then show "agrees h (c\<lparr>nc_tables := ts\<rparr>)" using screen_ok_agrees [OF assms, of h] by (cases h) (auto simp: isConnected_def)
qed

lemma processSnapshot_ok: "screen_ok c \<Longrightarrow> screen_ok (processSnapshot x c)"
  unfolding processSnapshot_def Let_def by (intro setStatus_ok tableChanged_ok)

lemma process_ok:
  assumes "screen_ok c" "qt_signals q" shows "screen_ok (process q e c)"
proof -
  have token: "screen_ok (c\<lparr>nc_session_token := t\<rparr>)" for t by (rule sameShown_ok [OF _ assms(1)]) (simp add: sameShown_def)
  show ?thesis
    by (cases "message_type e")
      (simp_all add: process_def assms token processSnapshot_ok onLoginResponse_ok onAuthenticateResponse_ok onCommandAck_ok onErrorResponse_ok
        onTableEvent_ok listed_ok split: prod.split)
qed

lemma fold_ok: "screen_ok c \<Longrightarrow> qt_signals q \<Longrightarrow> screen_ok (fold (processFrame q) fs c)"
  by (induction fs arbitrary: c) (auto simp: processFrame_def process_ok split: option.split)

lemma onReadyRead_ok:
  assumes "screen_ok c" "qt_signals q" shows "screen_ok (onReadyRead q bytes c)"
proof -
  have "screen_ok (c\<lparr>nc_codec := x\<rparr>)" for x by (rule sameShown_ok [OF _ assms(1)]) (simp add: sameShown_def)
  then show ?thesis using assms by (auto simp: onReadyRead_def Let_def fold_ok split: sum.split prod.split)
qed

lemma clientAct_ok: "screen_ok c \<Longrightarrow> screen_ok (clientAct q name target c)"
  by (auto simp: clientAct_def split: prod.split option.split dest!: envelope_same intro: setStatus_ok sendMessage_ok sameShown_ok)

lemma onConnected_ok:
  assumes "screen_ok c" "socket c \<noteq> ClosingState" shows "screen_ok (onConnected q (c\<lparr>socket := st\<rparr>))"
proof -
  have "screen_ok (emit connectedChanged (c\<lparr>socket := st, reconnect_timer := None, heartbeat_timer := True\<rparr>))"
  proof (rule emit_ok)
    fix h :: Signal
    assume "h \<noteq> connectedChanged"
    then show "agrees h (c\<lparr>socket := st, reconnect_timer := None, heartbeat_timer := True\<rparr>)"
      using screen_ok_agrees [OF assms(1), of h] by (cases h) auto
  qed
  then show ?thesis by (simp add: onConnected_def Let_def)
qed

lemma perform_ok: "screen_ok c \<Longrightarrow> qt_signals q \<Longrightarrow> screen_ok (perform q cmd c)"
  by (cases cmd) (simp_all add: registerAccount_def clientLogin_def clientLogout_def refreshTables_def clientCreateTable_def
      clientJoinTable_def sitDown_def clientReady_def leaveTable_def clientAct_ok tableChanged_ok)

lemma socket_ok:
  assumes "screen_ok c" "socket c \<notin> {ConnectedState, ClosingState}" "st \<noteq> ConnectedState"
  shows "screen_ok (c\<lparr>socket := st\<rparr>)"
proof (rule screen_okI)
  show "agrees connectedChanged (c\<lparr>socket := st\<rparr>)"
    using screen_ok_agrees [OF assms(1), of connectedChanged] assms(2,3) by (auto simp: isConnected_def)
next
  fix h :: Signal
  assume "h \<noteq> connectedChanged"
  then show "agrees h (c\<lparr>socket := st\<rparr>)" using screen_ok_agrees [OF assms(1), of h] by (cases h) auto
qed

lemma step_ok:
  assumes "client_step q c c'" "screen_ok c" "qt_signals q" shows "screen_ok c'"
  using assms(1)
proof (cases rule: client_step.cases)
  case step_found
  then show ?thesis using socket_ok [OF assms(2), of ConnectingState] by simp
next
  case step_disconnected
  have "agrees h (c\<lparr>socket := UnconnectedState\<rparr>)" if "h \<noteq> connectedChanged" for h
    using screen_ok_agrees [OF assms(2), of h] that by (cases h) auto
  then show ?thesis unfolding step_disconnected(1) by (intro onSocketDisconnected_ok) auto
next
  case (step_error st)
  then have "screen_ok (c\<lparr>socket := st\<rparr>)" using assms(2) socket_ok [OF assms(2), of st] by auto
  then show ?thesis by (simp add: step_error)
next
  case step_reconnect
  have "screen_ok (c\<lparr>reconnect_timer := None\<rparr>)" by (rule sameShown_ok [OF _ assms(2)]) (simp add: sameShown_def)
  then show ?thesis unfolding step_reconnect(1) using assms(3) by (rule onReconnectTimer_ok)
qed (use assms in \<open>simp_all add: perform_ok onReadyRead_ok onHeartbeatTimer_ok onConnected_ok\<close>)

text \<open>The pages show the client as it is: in every reachable state the value last read of each property is its
  value, for whatever the user, the server, the network and the timers have done.\<close>
theorem client_screen_current:
  assumes "qt_signals q" "client_reachable q c"
  shows "screen_ok c"
  using assms(2)
proof (induction rule: client_reachable.induct)
  case reach_new
  have "agrees h newClient" for h by (cases h) (simp_all add: newClient_def newScreen_def isConnected_def)
  then show ?case by (simp add: screen_ok_def)
next
  case (reach_step c c')
  then show ?case using step_ok assms(1) by blast
qed


section \<open>Sequence numbers\<close>

text \<open>The commands that the server numbers, and that they reached the socket.\<close>

fun numbered :: "UserCommand \<Rightarrow> bool" where
  "numbered (ConnectCommand _ _) = False"
| "numbered (RegisterCommand _ _) = False"
| "numbered (LoginCommand _ _) = False"
| "numbered _ = True"

fun written :: "Qt \<Rightarrow> UserCommand list \<Rightarrow> NetworkClient \<Rightarrow> bool" where
  "written q [] c = True"
| "written q (cmd # cmds) c \<longleftrightarrow> length (socket_calls c) < length (socket_calls (perform q cmd c)) \<and> written q cmds (perform q cmd c)"

definition framed :: "Qt \<Rightarrow> Envelope \<Rightarrow> u8 list \<Rightarrow> bool" where
  "framed q e f \<longleftrightarrow> (\<exists>payload. serialize_message q e = Some payload \<and> encode payload default_max_frame_size = Inr f)"

lemma sendMessage_written:
  "length (socket_calls c) < length (socket_calls (sendMessage q e c)) \<Longrightarrow>
   \<exists>f. framed q e f \<and> sendMessage q e c = c\<lparr>socket_calls := socket_calls c @ [Write f]\<rparr>"
  by (auto simp: sendMessage_def framed_def split: if_splits option.splits sum.splits)

definition numberedStep :: "Qt \<Rightarrow> NetworkClient \<Rightarrow> NetworkClient \<Rightarrow> Envelope \<Rightarrow> bool" where
  "numberedStep q c d e \<longleftrightarrow> (\<exists>f. framed q e f \<and> socket_calls d = socket_calls c @ [Write f]) \<and>
     request_id e = next_request_id c \<and> client_sequence e = nc_client_sequence c + 1 \<and>
     next_request_id d = next_request_id c + 1 \<and> nc_client_sequence d = nc_client_sequence c + 1"

lemma request_numbered:
  assumes "length (socket_calls c) < length (socket_calls (request q type True content c))"
  shows "\<exists>e. numberedStep q c (request q type True content c) e"
proof -
  obtain e d where e: "envelope type True c = (e, d)" by (metis surj_pair)
  then have calls: "socket_calls d = socket_calls c" by (auto simp: envelope_def Let_def)
  have eq: "request q type True content c = sendMessage q (e\<lparr>body := content d\<rparr>) d" by (simp add: request_def e)
  from sendMessage_written [of d q "e\<lparr>body := content d\<rparr>"] assms
  obtain f where "framed q (e\<lparr>body := content d\<rparr>) f" "request q type True content c = d\<lparr>socket_calls := socket_calls c @ [Write f]\<rparr>"
    by (auto simp: eq calls)
  then show ?thesis using e by (intro exI [of _ "e\<lparr>body := content d\<rparr>"]) (auto simp: numberedStep_def envelope_def newEnvelope_def Let_def)
qed

lemma clientAct_numbered:
  assumes "length (socket_calls c) < length (socket_calls (clientAct q name target c))"
  shows "\<exists>e. numberedStep q c (clientAct q name target c) e"
proof -
  obtain e d where e: "envelope ACTION_REQUEST True c = (e, d)" by (metis surj_pair)
  then have calls: "socket_calls d = socket_calls c" by (auto simp: envelope_def Let_def)
  obtain a where a: "actionNamed (to_lower q (trimmed q name)) = Some a"
    using assms by (cases "actionNamed (to_lower q (trimmed q name))") (auto simp: clientAct_def e calls)
  let ?e = "e\<lparr>body := ActionBody \<lparr>act_table_id = nc_table_id d, act_hand_id = nc_hand_id d, act_action = a, target_street_commitment = target\<rparr>\<rparr>"
  have eq: "clientAct q name target c = sendMessage q ?e d" by (simp add: clientAct_def e a)
  from sendMessage_written [of d q ?e] assms
  obtain f where "framed q ?e f" "clientAct q name target c = d\<lparr>socket_calls := socket_calls c @ [Write f]\<rparr>" by (auto simp: eq calls)
  then show ?thesis using e by (intro exI [of _ ?e]) (auto simp: numberedStep_def envelope_def newEnvelope_def Let_def)
qed

lemma perform_numbered:
  assumes "numbered cmd" "length (socket_calls c) < length (socket_calls (perform q cmd c))"
  shows "\<exists>e. numberedStep q c (perform q cmd c) e"
proof (cases cmd)
  case (JoinCommand k)
  let ?c = "emit tableChanged (c\<lparr>nc_table_id := k\<rparr>)"
  have "\<exists>e. numberedStep q ?c (perform q cmd c) e"
    using assms(2) unfolding JoinCommand perform.simps clientJoinTable_def by (intro request_numbered) simp
  then show ?thesis by (simp add: numberedStep_def)
qed (use assms request_numbered clientAct_numbered in \<open>auto simp: clientLogout_def refreshTables_def clientCreateTable_def
    sitDown_def clientReady_def leaveTable_def\<close>)

text \<open>A server that answers each request before it reads the next.\<close>

fun answering :: "UserId \<Rightarrow> (Envelope \<Rightarrow> ResponseBytes) \<Rightarrow> Envelope list \<Rightarrow> IdempotencyCache \<Rightarrow> RequestStatus list" where
  "answering u answer [] cache = []"
| "answering u answer (e # es) cache =
     (case beginRequest u (request_id e) (client_sequence e) cache of
        (d, cache1) \<Rightarrow> decision d # answering u answer es (snd (complete u (request_id e) (answer e) cache1)))"

lemma evictLoop_room:
  assumes "evictLoop n es rs = (es', rs')" "assoc es" "distinct rs" "dom (map_of es) \<subseteq> set rs" "0 < n"
    and "\<forall>r e. map_of es r = Some e \<longrightarrow> response e \<noteq> None"
  shows "length es' < n"
  using assms
proof (induction n es rs arbitrary: es' rs' rule: evictLoop.induct)
  case (1 n es)
  then show ?case by (cases es) auto
next
  case (2 n es r rs)
  show ?case
  proof (cases "length es \<ge> n")
    case True
    show ?thesis
    proof (cases "map_of es r")
      case None
      then have "dom (map_of es) \<subseteq> set rs" using "2.prems"(4) by auto
      then show ?thesis using "2.IH"(1) [OF True None] "2.prems" True None by auto
    next
      case (Some e)
      have fin: "response e \<noteq> None" using "2.prems"(6) Some by simp
      have sub: "dom (map_of (erase r es)) \<subseteq> set rs" using "2.prems"(4) by (auto simp: map_simps)
      have all: "\<forall>r' e. map_of (erase r es) r' = Some e \<longrightarrow> response e \<noteq> None" using "2.prems"(6) by (auto simp: map_simps)
      have run: "evictLoop n (erase r es) rs = (es', rs')" using "2.prems"(1) True Some fin by simp
      show ?thesis using "2.IH"(2) [OF True Some fin run assoc_erase [OF "2.prems"(2)] _ sub "2.prems"(5) all] "2.prems"(3) by simp
    qed
  qed (use "2.prems"(1) in auto)
qed

text \<open>The state of a user all of whose requests, with numbers below \<open>r\<close>, have been answered.\<close>

definition quiet :: "IdempotencyCache \<Rightarrow> UserId \<Rightarrow> RequestId \<Rightarrow> ClientSequence \<Rightarrow> bool" where
  "quiet cache u r n \<longleftrightarrow> cache_ok cache \<and> 0 < max_requests_per_user cache \<and> last_sequence (stateOf cache u) = n \<and>
     (\<forall>q e. map_of (entries (stateOf cache u)) q = Some e \<longrightarrow> q < r \<and> response e \<noteq> None)"

lemma quiet_accepts:
  assumes "quiet cache u r n" "u \<noteq> 0" "r \<noteq> 0" "n < n + 1" "r < r + 1"
  shows "\<exists>cache1. beginRequest u r (n + 1) cache = (decide accepted, cache1) \<and> quiet (snd (complete u r bytes cache1)) u (r + 1) (n + 1)"
proof -
  let ?st = "stateOf cache u"
  let ?st1 = "evictOldest (max_requests_per_user cache) ?st"
  have ok: "state_ok (max_requests_per_user cache) ?st" using assms(1) by (simp add: quiet_def cache_ok_state)
  have new: "map_of (entries ?st) r = None" using assms(1) unfolding quiet_def by (metis not_Some_eq order_less_irrefl)
  obtain gone where gone: "evicts gone (entries ?st) (entries ?st1)" using evictOldest_ok [OF ok] by blast
  obtain es rs where run: "evictLoop (max_requests_per_user cache) (entries ?st) (insertion_order ?st) = (es, rs)" by (metis surj_pair)
  have "length es < max_requests_per_user cache"
    by (rule evictLoop_room [OF run]) (use ok assms(1) in \<open>auto simp: state_ok_def quiet_def\<close>)
  then have room: "length (entries ?st1) < max_requests_per_user cache" by (simp add: evictOldest_def run)
  let ?e = "\<lparr>entry_sequence = n + 1, response = None\<rparr>"
  let ?c1 = "cache\<lparr>users := put u (?st1\<lparr>last_sequence := n + 1, entries := put r ?e (entries ?st1),
     insertion_order := insertion_order ?st1 @ [r]\<rparr>) (users cache)\<rparr>"
  have old: "q < r + 1" "response e \<noteq> None" if "map_of (entries ?st1) q = Some e" for q e
  proof -
    have "map_of (entries ?st) q = Some e" using gone that by (auto simp: evicts_def split: if_splits)
    then have "q < r" "response e \<noteq> None" using assms(1) by (auto simp: quiet_def)
    then show "q < r + 1" "response e \<noteq> None" using assms(5) by auto
  qed
  have n: "last_sequence ?st = n" using assms(1) by (simp add: quiet_def)
  have "n + 1 \<noteq> 0" using assms(4) by (metis word_not_simps(1))
  then have "beginRequest u r (n + 1) cache = (decide accepted, ?c1)"
    using assms(2,3,4) new room n unfolding beginRequest_def by (simp add: Let_def not_le)
  moreover obtain b c2 where c2: "complete u r bytes ?c1 = (b, c2)" by (metis surj_pair)
  have "cache_ok ?c1" using calculation beginRequest_cases [of cache u r "n + 1"] assms(1) by (auto simp: quiet_def)
  note kept = complete_cases [OF this c2]
  have st2: "stateOf c2 u = ?st1\<lparr>last_sequence := n + 1, entries := put r (?e\<lparr>response := Some bytes\<rparr>) (put r ?e (entries ?st1)),
      insertion_order := insertion_order ?st1 @ [r]\<rparr>"
    using c2 by (auto simp: complete_def map_simps stateOf_def)
  have "q < r + 1 \<and> response e \<noteq> None" if "map_of (entries (stateOf c2 u)) q = Some e" for q e
    using that old [of q e] assms(5) unfolding st2 by (auto simp: map_simps split: if_splits)
  then have "quiet c2 u (r + 1) (n + 1)" using kept assms(1) unfolding quiet_def by (auto simp: st2)
  ultimately show ?thesis using c2 by auto
qed

lemma unat_Suc_u64:
  assumes "unat (x :: u64) + 1 < 2 ^ 64" shows "unat (x + 1) = Suc (unat x)" "x < x + 1"
proof -
  have "unat (x + 1) = (unat x + unat (1 :: u64)) mod 2 ^ 64" by (simp add: unat_word_ariths)
  then show "unat (x + 1) = Suc (unat x)" using assms by simp
  then show "x < x + 1" by (simp add: word_less_nat_alt)
qed

lemma quiet_run:
  assumes "quiet cache u (next_request_id c) (nc_client_sequence c)" "u \<noteq> 0" "next_request_id c \<noteq> 0" "list_all numbered cmds" "written q cmds c"
    and "unat (next_request_id c) + length cmds < 2 ^ 64" "unat (nc_client_sequence c) + length cmds < 2 ^ 64"
  shows "\<exists>es fs. list_all2 (framed q) es fs \<and> socket_calls (fold (perform q) cmds c) = socket_calls c @ map Write fs \<and>
    answering u answer es cache = replicate (length cmds) accepted"
  using assms
proof (induction cmds arbitrary: c cache)
  case Nil
  then show ?case by (intro exI [of _ "[]"]) simp
next
  case (Cons cmd cmds)
  let ?d = "perform q cmd c"
  obtain e where e: "numberedStep q c ?d e" using perform_numbered [of cmd c q] Cons.prems(4,5) by auto
  then obtain f where f: "framed q e f" "socket_calls ?d = socket_calls c @ [Write f]" by (auto simp: numberedStep_def)
  have d: "next_request_id ?d = next_request_id c + 1" "nc_client_sequence ?d = nc_client_sequence c + 1" "request_id e = next_request_id c"
    "client_sequence e = nc_client_sequence c + 1" using e by (auto simp: numberedStep_def)
  have r: "unat (next_request_id c + 1) = Suc (unat (next_request_id c))" "next_request_id c < next_request_id c + 1"
    using unat_Suc_u64 [of "next_request_id c"] Cons.prems(6) by auto
  have n: "unat (nc_client_sequence c + 1) = Suc (unat (nc_client_sequence c))" "nc_client_sequence c < nc_client_sequence c + 1"
    using unat_Suc_u64 [of "nc_client_sequence c"] Cons.prems(7) by auto
  obtain cache1 where c1: "beginRequest u (next_request_id c) (nc_client_sequence c + 1) cache = (decide accepted, cache1)"
    "quiet (snd (complete u (next_request_id c) (answer e) cache1)) u (next_request_id ?d) (nc_client_sequence ?d)"
    using quiet_accepts [OF Cons.prems(1-3) n(2) r(2)] d by auto
  have "next_request_id ?d \<noteq> 0" using r(1) d(1) by auto
  moreover have "list_all numbered cmds" "written q cmds ?d" using Cons.prems(4,5) by auto
  moreover have "unat (next_request_id ?d) + length cmds < 2 ^ 64" "unat (nc_client_sequence ?d) + length cmds < 2 ^ 64"
    using Cons.prems(6,7) r(1) n(1) d by auto
  ultimately obtain es fs where es: "list_all2 (framed q) es fs" "socket_calls (fold (perform q) cmds ?d) = socket_calls ?d @ map Write fs"
    "answering u answer es (snd (complete u (next_request_id c) (answer e) cache1)) = replicate (length cmds) accepted"
    using Cons.IH [OF c1(2) Cons.prems(2)] by blast
  then show ?case using f c1(1) d by (intro exI [of _ "e # es"] exI [of _ "f # fs"]) (simp add: decide_def)
qed



text \<open>A number that is spent and not sent: an action whose name the client does not know. The server refuses the next
  command, and every later one.\<close>

lemma unknown_action_spends:
  assumes "actionNamed (to_lower q (trimmed q name)) = None"
  shows "socket_calls (clientAct q name target c) = socket_calls c"
    "nc_client_sequence (clientAct q name target c) = nc_client_sequence c + 1"
  using assms by (auto simp: clientAct_def envelope_def Let_def)

lemma unknown_action_gap:
  assumes "actionNamed (to_lower q (trimmed q name)) = None" "quiet cache u (next_request_id c) (nc_client_sequence c)" "u \<noteq> 0" "r \<noteq> 0"
    and "next_request_id c \<le> r" "unat (nc_client_sequence c) + 2 < 2 ^ 64"
  shows "decision (fst (beginRequest u r (nc_client_sequence (clientAct q name target c) + 1) cache)) = sequence_gap"
proof -
  let ?n = "nc_client_sequence c"
  have n: "unat (?n + 1) = Suc (unat ?n)" "?n < ?n + 1" using unat_Suc_u64 [of ?n] assms(6) by auto
  have m: "?n + 1 < ?n + 1 + 1" "unat (?n + 1 + 1) = Suc (Suc (unat ?n))" using unat_Suc_u64 [of "?n + 1"] n(1) assms(6) by auto
  have "map_of (entries (stateOf cache u)) r = None"
    using assms(2,5) unfolding quiet_def by (metis not_Some_eq linorder_not_less)
  moreover have "?n + 1 + 1 \<noteq> 0" using m(2) by auto
  moreover have "\<not> ?n + 1 + 1 \<le> ?n" "?n + 1 + 1 \<noteq> ?n + 1" using n(2) m(1) by auto
  moreover have "last_sequence (stateOf cache u) = ?n" using assms(2) by (simp add: quiet_def)
  ultimately show ?thesis using assms(3,4) unknown_action_spends(2) [OF assms(1), of target c]
    by (simp add: beginRequest_def Let_def decide_def)
qed

section \<open>Lost connections\<close>

lemma sendMessage_frame [simp]:
  "routing_to_game (sendMessage q e c) = routing_to_game c" "game_host (sendMessage q e c) = game_host c"
  by (auto simp: sendMessage_def split: option.split sum.split)

lemma request_frame [simp]:
  "routing_to_game (request q type b content c) = routing_to_game c" "game_host (request q type b content c) = game_host c"
  by (auto simp: request_def envelope_def Let_def split: prod.split)

lemma scheduleReconnect_frame [simp]:
  "routing_to_game (scheduleReconnect c) = routing_to_game c" "game_host (scheduleReconnect c) = game_host c"
  by (auto simp: scheduleReconnect_def Let_def)

lemma onSocketDisconnected_frame [simp]:
  "routing_to_game (onSocketDisconnected c) = routing_to_game c" "game_host (onSocketDisconnected c) = game_host c"
  by (auto simp: onSocketDisconnected_def Let_def)

lemma connection_frame [simp]:
  "routing_to_game (onSocketError t c) = routing_to_game c" "game_host (onSocketError t c) = game_host c"
  "routing_to_game (abortSocket q c) = routing_to_game c" "game_host (abortSocket q c) = game_host c"
  "routing_to_game (disconnectFromHost q c) = routing_to_game c" "game_host (disconnectFromHost q c) = game_host c"
  by (auto simp: onSocketError_def abortSocket_def disconnectFromHost_def Let_def split: prod.split)

lemma connectToHost_frame [simp]:
  "routing_to_game (connectToHost q h p c) = routing_to_game c" "game_host (connectToHost q h p c) = game_host c"
  by (auto simp: connectToHost_def Let_def split: prod.split option.split)

lemma connectToLobby_frame [simp]: "\<not> routing_to_game (connectToLobby q h p c)" "\<not> routing_to_game (backToLobby q c)"
  by (auto simp: connectToLobby_def backToLobby_def Let_def)

text \<open>A client on its way to a game node knows the node.\<close>

definition routed :: "NetworkClient \<Rightarrow> bool" where
  "routed c \<longleftrightarrow> (routing_to_game c \<longrightarrow> game_host c \<noteq> [])"

lemma routed_frame:
  "routing_to_game d = routing_to_game c \<Longrightarrow> game_host d = game_host c \<Longrightarrow> routed c \<Longrightarrow> routed d"
  by (simp add: routed_def)

lemma setStatus_routed [simp]: "routed (setStatus t c) = routed c"
  by (simp add: routed_def)

lemma routeToGame_routed: "routed c \<Longrightarrow> routed (routeToGame q endpoint ticket k c)"
  by (auto simp: routed_def routeToGame_def Let_def lastColon_def split: option.split)

lemma forgetIdentity_frame [simp]:
  "routing_to_game (forgetIdentity c) = routing_to_game c" "game_host (forgetIdentity c) = game_host c"
  by (simp_all add: forgetIdentity_def)

lemma process_routed:
  assumes "routed c" shows "routed (process q e c)"
proof (cases "message_type e")
  case LOGIN_RESPONSE
  then show ?thesis using assms by (simp add: process_def onLoginResponse_def refreshTables_def routed_def split: prod.split)
next
  case AUTHENTICATE_SESSION_RESPONSE
  then show ?thesis using assms
    by (auto simp: process_def onAuthenticateResponse_def refreshTables_def routed_def Let_def envelope_def split: prod.split)
next
  case COMMAND_ACK
  then show ?thesis using assms by (auto simp: process_def onCommandAck_def routed_def Let_def)
next
  case ERROR_RESPONSE
  then show ?thesis using assms by (auto simp: process_def onErrorResponse_def routed_def Let_def split: prod.split)
next
  case TABLE_EVENT
  then show ?thesis using assms by (auto simp: process_def onTableEvent_def routed_def Let_def split: prod.split)
next
  case TABLE_SNAPSHOT
  then show ?thesis using assms by (simp add: process_def processSnapshot_def routed_def Let_def)
qed (use assms in \<open>auto simp: process_def routeToGame_routed split: prod.split\<close>, auto simp: routed_def)

lemma step_routed:
  assumes "client_step q c c'" "routed c" shows "routed c'"
  using assms(1)
proof (cases rule: client_step.cases)
  case (step_command cmd)
  then show ?thesis using assms(2)
    by (cases cmd) (auto simp: routed_def registerAccount_def clientLogin_def clientLogout_def refreshTables_def clientCreateTable_def
      clientJoinTable_def sitDown_def clientReady_def leaveTable_def clientAct_def envelope_def Let_def split: option.split)
next
  case (step_read bytes)
  have fold: "routed (fold (processFrame q) fs d)" if "routed d" for fs d
    using that by (induction fs arbitrary: d) (auto simp: processFrame_def process_routed split: option.split)
  show ?thesis unfolding step_read(1) using assms(2)
    by (auto simp: onReadyRead_def Let_def intro!: fold split: sum.split prod.split) (auto simp: routed_def)
qed (use assms(2) in \<open>auto simp: routed_def onConnected_def onReconnectTimer_def onHeartbeatTimer_def Let_def\<close>)

lemma reachable_routed:
  assumes "client_reachable q c" shows "routed c"
  using assms by (induction rule: client_reachable.induct) (simp add: routed_def newClient_def, rule step_routed)

definition reconnectDelays :: "nat set" where
  "reconnectDelays = {500, 1000, 2000, 4000, 8000}"

lemma scheduleReconnect_timer:
  assumes "reconnect_timer c = None"
  shows "\<exists>d \<in> reconnectDelays. reconnect_timer (scheduleReconnect c) = Some d"
proof -
  have "min (reconnect_attempt c) 4 \<in> {0, 1, 2, 3, 4}" by auto
  then show ?thesis using assms by (auto simp: scheduleReconnect_def Let_def reconnectDelays_def min_def)
qed

lemma scheduleReconnect_keeps [simp]:
  "nc_session_token (scheduleReconnect c) = nc_session_token c" "nc_table_id (scheduleReconnect c) = nc_table_id c"
  "reconnect_after_auth (scheduleReconnect c) = reconnect_after_auth c" "game_port (scheduleReconnect c) = game_port c"
  "socket (scheduleReconnect c) = socket c" "socket_calls (scheduleReconnect c) = socket_calls c"
  "nc_server_sequence (scheduleReconnect c) = nc_server_sequence c"
  by (auto simp: scheduleReconnect_def Let_def)

text \<open>The requests of a client that comes back.\<close>

definition authenticateRequest :: "NetworkClient \<Rightarrow> u64 \<Rightarrow> Envelope" where
  "authenticateRequest c r = newEnvelope\<lparr>protocol_version := 1, request_id := r, message_type := AUTHENTICATE_SESSION_REQUEST,
     body := AuthenticateSessionRequest (nc_session_token c)\<rparr>"

definition reconnectRequest :: "NetworkClient \<Rightarrow> u64 \<Rightarrow> Envelope" where
  "reconnectRequest c r = newEnvelope\<lparr>protocol_version := 1, request_id := r, message_type := RECONNECT_REQUEST, client_sequence := 1,
     body := ReconnectRequest (nc_table_id c) (nc_session_token c) (nc_server_sequence c)\<rparr>"

lemma sendMessage_connected:
  "isConnected c \<Longrightarrow> framed q e f \<Longrightarrow> sendMessage q e c = c\<lparr>socket_calls := socket_calls c @ [Write f]\<rparr>"
  by (auto simp: sendMessage_def framed_def)

lemma lost_state:
  assumes "routing_to_game c" "nc_session_token c \<noteq> []" "nc_table_id c \<noteq> 0" "\<not> intentional_disconnect c"
    and "d = onSocketDisconnected (c\<lparr>socket := UnconnectedState\<rparr>)"
  shows "socket d = UnconnectedState" "socket_calls d = socket_calls c" "nc_session_token d = nc_session_token c"
    "nc_table_id d = nc_table_id c" "game_host d = game_host c" "game_port d = game_port c" "routing_to_game d"
    "reconnect_after_auth d = seated c" "nc_server_sequence d = nc_server_sequence c"
    "reconnect_timer c = None \<Longrightarrow> \<exists>n \<in> reconnectDelays. reconnect_timer d = Some n"
  using assms by (auto simp: onSocketDisconnected_def Let_def intro!: scheduleReconnect_timer)

lemma retry_state:
  assumes "routing_to_game c" "game_host c \<noteq> []" "game_port c \<noteq> 0" "socket c = UnconnectedState"
    and "connect_outcome q UnconnectedState = (st, None)" "d = onReconnectTimer q (c\<lparr>reconnect_timer := None\<rparr>)"
  shows "socket_calls d = socket_calls c @ [ConnectToHost (game_host c) (game_port c)]" "socket d = st"
    "nc_session_token d = nc_session_token c" "nc_table_id d = nc_table_id c" "routing_to_game d" "authenticate_on_connect d"
    "reconnect_after_auth d = reconnect_after_auth c" "nc_server_sequence d = nc_server_sequence c"
  using assms by (auto simp: onReconnectTimer_def connectToHost_def Let_def)

lemma joined_state:
  assumes "routing_to_game c" "authenticate_on_connect c" "nc_session_token c \<noteq> []" "framed q (authenticateRequest c (next_request_id c)) f"
    and "d = onConnected q (c\<lparr>socket := ConnectedState\<rparr>)"
  shows "socket_calls d = socket_calls c @ [Write f]" "isConnected d" "nc_session_token d = nc_session_token c"
    "nc_table_id d = nc_table_id c" "routing_to_game d" "reconnect_after_auth d = reconnect_after_auth c" "nc_server_sequence d = nc_server_sequence c"
proof -
  let ?c = "setStatus ''Connected to game node'' (emit connectedChanged (c\<lparr>socket := ConnectedState, reconnect_timer := None, heartbeat_timer := True\<rparr>))"
  obtain e x where e: "envelope AUTHENTICATE_SESSION_REQUEST False ?c = (e, x)" by (metis surj_pair)
  then have x: "x = ?c\<lparr>next_request_id := next_request_id c + 1\<rparr>" "e\<lparr>body := AuthenticateSessionRequest (nc_session_token x)\<rparr> = authenticateRequest c (next_request_id c)"
    by (auto simp: envelope_def authenticateRequest_def newEnvelope_def Let_def)
  have "isConnected x" by (simp add: x isConnected_def)
  from sendMessage_connected [OF this assms(4)] have "d = x\<lparr>socket_calls := socket_calls x @ [Write f]\<rparr>"
    using assms e by (simp add: onConnected_def Let_def request_def x(2))
  then show "socket_calls d = socket_calls c @ [Write f]" "isConnected d" "nc_session_token d = nc_session_token c"
    "nc_table_id d = nc_table_id c" "routing_to_game d" "reconnect_after_auth d = reconnect_after_auth c" "nc_server_sequence d = nc_server_sequence c"
    using assms(1) by (simp_all add: x isConnected_def)
qed


lemma restored_state:
  assumes "routing_to_game c" "reconnect_after_auth c" "isConnected c" "message_type e = AUTHENTICATE_SESSION_RESPONSE"
    and "framed q (reconnectRequest c (next_request_id c)) f"
  shows "socket_calls (process q e c) = socket_calls c @ [Write f] \<and> authenticated (process q e c)"
proof -
  obtain u w where u: "authenticateBody e = (u, w)" by (metis surj_pair)
  let ?c = "setStatus ''Game node authenticated'' (emit identityChanged (emit authenticatedChanged
     (c\<lparr>nc_user_id := u, wallet_chips := w, authenticated := True, authenticate_on_connect := False, reconnect_attempt := 0,
        nc_client_sequence := 0, game_sequence := 0\<rparr>)))"
  obtain x d where x: "envelope RECONNECT_REQUEST True ?c = (x, d)" by (metis surj_pair)
  then have d: "d = ?c\<lparr>next_request_id := next_request_id c + 1, nc_client_sequence := 1, game_sequence := 1\<rparr>"
    "x\<lparr>body := ReconnectRequest (nc_table_id d) (nc_session_token d) (nc_server_sequence d)\<rparr> = reconnectRequest c (next_request_id c)"
    using assms(1) by (auto simp: envelope_def reconnectRequest_def newEnvelope_def Let_def)
  have "isConnected (d\<lparr>reconnect_after_auth := False\<rparr>)" using assms(3) by (simp add: d isConnected_def)
  from sendMessage_connected [OF this assms(5)]
  have "process q e c = d\<lparr>reconnect_after_auth := False, socket_calls := socket_calls c @ [Write f]\<rparr>"
    using assms(1,2,4) u x d(2) by (simp add: process_def onAuthenticateResponse_def Let_def) (simp add: d(1))
  moreover have "authenticated ?c" by (simp add: setStatus_def emit_def)
  ultimately show ?thesis by (simp add: d(1))
qed


text \<open>A connection attempt that the user starts again while the first is under way: the flag for an intended disconnection is set,
  the aborted attempt does not reset it, and the loss of the next connection passes unnoticed.\<close>
lemma second_attempt_hides_loss:
  assumes "socket c = ConnectingState" "\<not> abort_emits q ConnectingState" "connect_outcome q UnconnectedState = (st, None)"
    and "d = onConnected q ((connectToLobby q host port c)\<lparr>socket := ConnectedState\<rparr>)"
  shows "nc_status (onSocketDisconnected (d\<lparr>socket := UnconnectedState\<rparr>)) = nc_status d"
    "reconnect_timer (onSocketDisconnected (d\<lparr>socket := UnconnectedState\<rparr>)) = reconnect_timer d"
proof -
  have keep: "intentional_disconnect (request q type b content x) = intentional_disconnect x" for type b content x
    by (auto simp: request_def envelope_def sendMessage_def Let_def split: prod.split option.split sum.split)
  have "intentional_disconnect (connectToLobby q host port c)"
    using assms(1-3) by (auto simp: connectToLobby_def abortSocket_def connectToHost_def Let_def)
  then have "intentional_disconnect d" using assms(4) by (auto simp: onConnected_def Let_def keep)
  then show "nc_status (onSocketDisconnected (d\<lparr>socket := UnconnectedState\<rparr>)) = nc_status d"
    "reconnect_timer (onSocketDisconnected (d\<lparr>socket := UnconnectedState\<rparr>)) = reconnect_timer d"
    by (auto simp: onSocketDisconnected_def Let_def)
qed

section \<open>An example\<close>

text \<open>A socket that reports at once, and a serialization that keeps the kind and the number of a message.\<close>

definition demoQt :: Qt where
  "demoQt = \<lparr>abort_emits = (\<lambda>st. st = ConnectedState \<or> st = ClosingState),
     disconnect_outcome = (\<lambda>st. (UnconnectedState, st = ConnectedState \<or> st = ClosingState)),
     connect_outcome = (\<lambda>st. if st = ConnectedState \<or> st = ClosingState then (st, Some ''already connected'') else (ConnectingState, None)),
     trimmed = (\<lambda>t. t), to_lower = (\<lambda>t. t), to_ushort = (\<lambda>t. if t = ''7000'' then Some 7000 else None),
     serialize_message = (\<lambda>e. Some [ucast (request_id e), ucast (client_sequence e)]),
     parse_message = (\<lambda>bs.
        if length bs \<noteq> 2 then None
        else if hd bs = 0 then
          Some (newEnvelope\<lparr>message_type := AUTHENTICATE_SESSION_RESPONSE, body := AuthenticateSessionResponse (ucast (bs ! 1)) ''ann'' 500 0\<rparr>)
        else if hd bs = 1 then Some (newEnvelope\<lparr>message_type := LOGIN_RESPONSE, body := LoginResponse (ucast (bs ! 1)) ''token'' 500 0\<rparr>)
        else if hd bs = 2 then
          Some (newEnvelope\<lparr>message_type := CREATE_TABLE_RESPONSE,
            body := CreateTableResponse \<lparr>summary_table_id = 9, summary_name = ''T'', seated_players = 0, summary_max_players = 6,
              summary_small_blind = 1, summary_big_blind = 2, game_node_id = ''g''\<rparr> ''node:7000'' ''ticket''\<rparr>)
        else Some (newEnvelope\<lparr>message_type := TABLE_SNAPSHOT,
          body := SnapshotBody \<lparr>wire_table_id = 9, wire_hand_id = 0, wire_server_sequence = 4, wire_street = WAITING, dealer_user_id = 0,
            acting_user_id = 0, wire_current_bet = 0, wire_minimum_raise = 0, wire_pot = 0, wire_board = [],
            wire_players = [\<lparr>state_user_id = ucast (bs ! 1), state_seat = 2, state_stack = 100, state_street_commitment = 0,
              state_hand_commitment = 0, state_status = ''waiting'', state_ready = False, state_connected = True, visible_hole_cards = []\<rparr>]\<rparr>\<rparr>))\<rparr>"

text \<open>Ann is signed in at the lobby, her new table 9 is announced, and she is sent to its node, where she has a seat.\<close>

definition demoRouted :: NetworkClient where
  "demoRouted = onReadyRead demoQt [0, 0, 0, 2, 1, 5, 0, 0, 0, 2, 2, 5]
     (onConnected demoQt ((connectToLobby demoQt [] 6000 newClient)\<lparr>socket := ConnectedState\<rparr>))"

definition demoSeated :: NetworkClient where
  "demoSeated = onReadyRead demoQt [0, 0, 0, 2, 0, 5, 0, 0, 0, 2, 3, 5] (onConnected demoQt (demoRouted\<lparr>socket := ConnectedState\<rparr>))"

lemma demo_signals: "qt_signals demoQt"
  by (auto simp: qt_signals_def demoQt_def)

lemma request_socket [simp]: "socket (request q type b content c) = socket c"
  by (auto simp: request_def envelope_def sendMessage_def Let_def split: prod.split option.split sum.split)

lemma onConnected_socket [simp]: "socket (onConnected q c) = socket c"
  by (simp add: onConnected_def Let_def)

lemma demo_routed: "client_reachable demoQt demoRouted"
proof -
  let ?a = "connectToLobby demoQt [] 6000 newClient"
  have "socket ?a = ConnectingState" by code_simp
  note b = step_connected [OF this, of demoQt]
  have "client_reachable demoQt ?a" using reach_step [OF reach_new step_command [of demoQt newClient "ConnectCommand [] 6000"]] by simp
  from reach_step [OF reach_step [OF this b] step_read] show ?thesis by (simp add: demoRouted_def)
qed

lemma demo_seated: "client_reachable demoQt demoSeated"
proof -
  have "socket demoRouted = ConnectingState" by code_simp
  note b = step_connected [OF this, of demoQt]
  from reach_step [OF reach_step [OF demo_routed b] step_read] show ?thesis by (simp add: demoSeated_def)
qed

text \<open>A client with a seat at a game node and a session to come back with.\<close>

definition keepsSeat :: "NetworkClient \<Rightarrow> bool" where
  "keepsSeat c \<longleftrightarrow> routing_to_game c \<and> seated c \<and> nc_session_token c \<noteq> [] \<and> nc_table_id c \<noteq> 0 \<and> game_port c \<noteq> 0 \<and>
     \<not> intentional_disconnect c \<and> reconnect_timer c = None"

lemma demo_keeps: "keepsSeat demoSeated"
  by code_simp

theorem client_screen_current_witness: "shown_status (screen demoSeated) = nc_status demoSeated \<and> seated demoSeated"
proof -
  have "screen_ok demoSeated" by (rule client_screen_current [OF demo_signals demo_seated])
  then have "agrees statusChanged demoSeated" by (rule screen_ok_agrees)
  then show ?thesis using demo_keeps by (simp add: keepsSeat_def)
qed

definition demoCommands :: "UserCommand list" where
  "demoCommands = [ReadyCommand True, ActCommand ''call'' 0, LeaveCommand]"

definition demoFresh :: NetworkClient where
  "demoFresh = newClient\<lparr>socket := ConnectedState\<rparr>"

lemma length_answering: "length (answering u answer es cache) = length es"
  by (induction es arbitrary: cache) (auto split: prod.split)



end
