(* ===== verification/Token_Bucket.thy ===== *)
theory Token_Bucket
  imports Prelude Complex_Main
begin

text \<open>
  \<open>src/include/poker/net/token_bucket.hpp\<close> and \<open>src/src/poker/net/token_bucket.cpp\<close>: the limit on the requests of a connection.

  A \<open>double\<close> is the real number it stands for, and every operation on doubles is the exact operation followed by \<open>fl\<close>,
  the rounding of the machine, which is a parameter. \<open>rounding fl\<close> lists what the theorems use of it: it is monotone,
  leaves the results of rounding and the small whole numbers alone, and subtracts one without an error. Rounding to the nearest
  binary number with 53 digits has these properties. Times are nanoseconds.
\<close>

record TokenBucket =
  rate :: real
  capacity :: real
  tokens :: real
  last_refill :: int

definition newBucket :: "(real \<Rightarrow> real) \<Rightarrow> real \<Rightarrow> nat \<Rightarrow> int \<Rightarrow> TokenBucket result" where
  "newBucket fl tokens_per_second burst now =
     (if tokens_per_second \<le> 0 \<or> burst = 0 then Inl invalid_argument
      else Inr \<lparr>rate = tokens_per_second, capacity = fl (real burst), tokens = fl (real burst), last_refill = now\<rparr>)"

text \<open>\<open>duration<double>(now - last_refill_).count()\<close>, in seconds.\<close>

definition elapsedSeconds :: "(real \<Rightarrow> real) \<Rightarrow> int \<Rightarrow> int \<Rightarrow> real" where
  "elapsedSeconds fl now since = fl (fl (of_int (now - since)) / 1000000000)"

definition refill :: "(real \<Rightarrow> real) \<Rightarrow> int \<Rightarrow> TokenBucket \<Rightarrow> TokenBucket" where
  "refill fl now b =
     (if now > last_refill b
      then b\<lparr>tokens := min (capacity b) (fl (tokens b + fl (elapsedSeconds fl now (last_refill b) * rate b))), last_refill := now\<rparr>
      else b)"

definition allow :: "(real \<Rightarrow> real) \<Rightarrow> int \<Rightarrow> TokenBucket \<Rightarrow> bool \<times> TokenBucket" where
  "allow fl now b =
     (let b1 = refill fl now b
      in if tokens b1 < 1 then (False, b1) else (True, b1\<lparr>tokens := fl (tokens b1 - 1)\<rparr>))"

definition available :: "TokenBucket \<Rightarrow> real" where
  "available b = tokens b"

section \<open>Bounds\<close>

definition rounding :: "(real \<Rightarrow> real) \<Rightarrow> bool" where
  "rounding fl \<longleftrightarrow> mono fl \<and> (\<forall>x. fl (fl x) = fl x) \<and> (\<forall>n :: nat. n \<le> 2 ^ 53 \<longrightarrow> fl (real n) = real n) \<and>
     (\<forall>x. 1 \<le> fl x \<longrightarrow> fl x \<le> 2 ^ 53 \<longrightarrow> fl (fl x - 1) = fl x - 1)"

definition bucket_ok :: "(real \<Rightarrow> real) \<Rightarrow> nat \<Rightarrow> TokenBucket \<Rightarrow> bool" where
  "bucket_ok fl burst b \<longleftrightarrow> 0 < rate b \<and> capacity b = real burst \<and> 0 \<le> tokens b \<and> tokens b \<le> capacity b \<and> fl (tokens b) = tokens b"

lemma rounding_nonneg:
  assumes "rounding fl" "0 \<le> x" shows "0 \<le> fl x"
proof -
  have "fl (real 0) = real 0" "mono fl" using assms(1) unfolding rounding_def by blast+
  then show ?thesis using monoD [OF _ assms(2), of fl] by simp
qed

lemma newBucket_ok:
  assumes "rounding fl" "newBucket fl r burst now = Inr b" "burst \<le> 2 ^ 53" shows "bucket_ok fl burst b"
proof -
  have "fl (real burst) = real burst" using assms(1,3) by (simp add: rounding_def)
  then show ?thesis using assms(2) by (auto simp: newBucket_def bucket_ok_def split: if_splits)
qed

lemma refill_ok:
  assumes "rounding fl" "bucket_ok fl burst b" "burst \<le> 2 ^ 53" shows "bucket_ok fl burst (refill fl now b)"
proof (cases "now > last_refill b")
  case True
  let ?x = "fl (elapsedSeconds fl now (last_refill b) * rate b)"
  have b: "0 < rate b" "capacity b = real burst" "0 \<le> tokens b" using assms(2) by (auto simp: bucket_ok_def)
  have "0 \<le> elapsedSeconds fl now (last_refill b)"
    unfolding elapsedSeconds_def using True by (intro rounding_nonneg [OF assms(1)] divide_nonneg_nonneg) auto
  then have "0 \<le> ?x" using b by (intro rounding_nonneg [OF assms(1)]) simp
  then have "0 \<le> fl (tokens b + ?x)" using b by (intro rounding_nonneg [OF assms(1)]) simp
  moreover have "fl (min (real burst) (fl y)) = min (real burst) (fl y)" for y
    using assms(1,3) by (simp add: rounding_def min_def)
  ultimately show ?thesis using b True by (simp add: refill_def bucket_ok_def)
qed (use assms(2) in \<open>simp add: refill_def\<close>)

lemma allow_ok:
  assumes "rounding fl" "bucket_ok fl burst b" "burst \<le> 2 ^ 53" "allow fl now b = (r, b')"
  shows "bucket_ok fl burst b'" "r \<longleftrightarrow> 1 \<le> tokens (refill fl now b)" "tokens b' = tokens (refill fl now b) - (if r then 1 else 0)"
proof -
  let ?b = "refill fl now b"
  have b: "bucket_ok fl burst ?b" by (rule refill_ok [OF assms(1-3)])
  have "tokens ?b \<le> 2 ^ 53" using b assms(3) unfolding bucket_ok_def
    by (metis (no_types, opaque_lifting) of_nat_le_iff of_nat_numeral of_nat_power order_trans)
  then have "1 \<le> tokens ?b \<Longrightarrow> fl (tokens ?b - 1) = tokens ?b - 1" using assms(1) b unfolding rounding_def bucket_ok_def by metis
  then show "bucket_ok fl burst b'" "r \<longleftrightarrow> 1 \<le> tokens ?b" "tokens b' = tokens ?b - (if r then 1 else 0)"
    using assms(4) b by (auto simp: allow_def Let_def bucket_ok_def split: if_splits)
qed

text \<open>The number of requests allowed by a sequence of calls.\<close>

fun allowed :: "(real \<Rightarrow> real) \<Rightarrow> int list \<Rightarrow> TokenBucket \<Rightarrow> nat" where
  "allowed fl [] b = 0"
| "allowed fl (now # nows) b = (case allow fl now b of (r, b') \<Rightarrow> (if r then 1 else 0) + allowed fl nows b')"

lemma refill_same: "now \<le> last_refill b \<Longrightarrow> refill fl now b = b"
  by (simp add: refill_def)

lemma allow_last: "allow fl now b = (r, b') \<Longrightarrow> last_refill b' = max now (last_refill b)"
  by (auto simp: allow_def refill_def Let_def split: if_splits)

lemma allowed_tokens:
  assumes "rounding fl" "bucket_ok fl burst b" "burst \<le> 2 ^ 53" "\<forall>now \<in> set nows. now \<le> last_refill b"
  shows "real (allowed fl nows b) \<le> tokens b"
  using assms(2,4)
proof (induction nows arbitrary: b)
  case Nil
  then show ?case by (simp add: bucket_ok_def)
next
  case (Cons now nows)
  obtain r b' where b': "allow fl now b = (r, b')" by (metis surj_pair)
  note a = allow_ok [OF assms(1) Cons.prems(1) assms(3) b']
  have "last_refill b' = last_refill b" using allow_last [OF b'] Cons.prems(2) by simp
  then have "real (allowed fl nows b') \<le> tokens b'" using Cons.IH [OF a(1)] Cons.prems(2) by simp
  then show ?case using a(3) b' Cons.prems(2) by (auto simp: refill_same split: if_splits)
qed



end
