(* ===== verification/Tcp_Server.thy ===== *)
theory Tcp_Server
  imports Protocol_Run Codec Token_Bucket
begin

text \<open>
  \<open>src/apps/server/poker_tcp_server.hpp\<close> and \<open>poker_tcp_server.cpp\<close>: the class \<open>PokerTcpServer\<close> between the connections of
  muduo and the protocol service.

  Connections are numbers, and \<open>conns\<close> holds what the code asks of them and does to them: whether \<open>connected()\<close> holds, whether a
  weak pointer to the connection can still be locked, and the frames handed to \<open>send\<close>. Of muduo it is a parameter whether a
  connection counts as connected after \<open>shutdown()\<close>. A \<open>State\<close> object is a cell of the heap \<open>links\<close>, because the closures that
  answer a request keep it after \<open>states_\<close> has dropped it; its session is the session of the service with the same number. Two
  connections that live one after the other at the same address are different numbers here.

  The closure that a request passes to the service as \<open>Send\<close> is an entry of \<open>closures\<close>, its number the position. The service appends
  what it sends to its outbox; \<open>drain\<close> hands over what is new there after each step: an answer runs its closure (\<open>deliver\<close>), a
  push is a call of \<open>push\<close>. No step of the service changes the user of a session after it has sent something, so that the
  closure finds the sessions as it would inside the step. Clock readings are nanoseconds of the common state.
\<close>

section \<open>State\<close>

record 'w TcpSetup =
  protocol :: "'w Setup"
  steady_ns :: "'w \<Rightarrow> int \<times> 'w"
  rounding_of :: "real \<Rightarrow> real"
  connected_after_shutdown :: bool

record TcpConnection =
  is_connected :: bool
  is_alive :: bool
  no_delay :: bool
  high_water_mark :: "int option"
  is_shutdown :: bool
  force_closed :: bool
  sent_frames :: "u8 list list"

record LinkState =
  link_codec :: LengthFieldCodec
  limiter :: TokenBucket
  generation :: u64
  last_activity_ms :: int
  link_connection :: nat

record UserBinding =
  bound_connection :: nat
  bound_generation :: u64

record SendClosure =
  closure_connection :: nat
  closure_link :: nat
  closure_started :: int

record ('w, 'r) TcpServer =
  service :: "('w, 'r) Service"
  conns :: "nat \<Rightarrow> TcpConnection"
  links :: "LinkState list"
  states :: "(nat, nat) assoc_map"
  bindings :: "(UserId, UserBinding) assoc_map"
  next_connection_generation :: u64
  closures :: "SendClosure list"
  drained :: nat

definition newConnection :: TcpConnection where
  "newConnection = \<lparr>is_connected = False, is_alive = False, no_delay = False, high_water_mark = None, is_shutdown = False,
     force_closed = False, sent_frames = []\<rparr>"

definition newTcpServer :: "('w, 'r) Service \<Rightarrow> ('w, 'r) TcpServer" where
  "newTcpServer srv = \<lparr>service = srv, conns = (\<lambda>_. newConnection), links = [], states = [], bindings = [],
     next_connection_generation = 1, closures = [], drained = length (outbox srv)\<rparr>"

definition tcpConfig :: "'w TcpSetup \<Rightarrow> ServerConfig" where
  "tcpConfig tp = server_config (protocol tp)"

section \<open>Primitives\<close>

definition onService :: "(('w, 'r) Service \<Rightarrow> ('w, 'r) Service) \<Rightarrow> ('w, 'r) TcpServer \<Rightarrow> ('w, 'r) TcpServer" where
  "onService f s = s\<lparr>service := f (service s)\<rparr>"

definition setConn :: "nat \<Rightarrow> (TcpConnection \<Rightarrow> TcpConnection) \<Rightarrow> ('w, 'r) TcpServer \<Rightarrow> ('w, 'r) TcpServer" where
  "setConn c f s = s\<lparr>conns := (conns s)(c := f (conns s c))\<rparr>"

definition steadyNow :: "'w TcpSetup \<Rightarrow> ('w, 'r) TcpServer \<Rightarrow> int \<times> ('w, 'r) TcpServer" where
  "steadyNow tp s = (case onWorld (steady_ns tp) (service s) of (t, srv) \<Rightarrow> (t, s\<lparr>service := srv\<rparr>))"

text \<open>\<open>duration_cast\<close> rounds toward zero.\<close>

definition truncateTo :: "int \<Rightarrow> int \<Rightarrow> int" where
  "truncateTo unit ns = sgn ns * (\<bar>ns\<bar> div unit)"

definition monotonicMilliseconds :: "'w TcpSetup \<Rightarrow> ('w, 'r) TcpServer \<Rightarrow> int \<times> ('w, 'r) TcpServer" where
  "monotonicMilliseconds tp s = (case steadyNow tp s of (t, s1) \<Rightarrow> (truncateTo 1000000 t, s1))"

definition shutdown :: "'w TcpSetup \<Rightarrow> nat \<Rightarrow> ('w, 'r) TcpServer \<Rightarrow> ('w, 'r) TcpServer" where
  "shutdown tp c = setConn c (\<lambda>x. x\<lparr>is_shutdown := True, is_connected := is_connected x \<and> connected_after_shutdown tp\<rparr>)"

definition sendFrame :: "'w TcpSetup \<Rightarrow> nat \<Rightarrow> Envelope \<Rightarrow> ('w, 'r) TcpServer \<Rightarrow> ('w, 'r) TcpServer" where
  "sendFrame tp c e s =
     (if \<not> is_connected (conns s c) then s
      else (case encode (serialize (protocol tp) e) (nat (max_frame_bytes (tcpConfig tp))) of
              Inl x \<Rightarrow> shutdown tp c s
            | Inr frame \<Rightarrow> onService (meter responseSent) (setConn c (\<lambda>x. x\<lparr>sent_frames := sent_frames x @ [frame]\<rparr>) s)))"

definition protocolError :: "ErrorCode \<Rightarrow> string \<Rightarrow> Envelope" where
  "protocolError code message =
     newEnvelope\<lparr>protocol_version := 1, message_type := ERROR_RESPONSE, body := ErrorResponse code message 0\<rparr>"

definition sendProtocolError :: "'w TcpSetup \<Rightarrow> nat \<Rightarrow> ErrorCode \<Rightarrow> string \<Rightarrow> ('w, 'r) TcpServer \<Rightarrow> ('w, 'r) TcpServer" where
  "sendProtocolError tp c code message = sendFrame tp c (protocolError code message)"

section \<open>Bindings of users\<close>

definition pushUser :: "'w TcpSetup \<Rightarrow> UserId \<Rightarrow> Envelope \<Rightarrow> ('w, 'r) TcpServer \<Rightarrow> ('w, 'r) TcpServer" where
  "pushUser tp user_id e s =
     (case map_of (bindings s) user_id of
        None \<Rightarrow> s
      | Some b \<Rightarrow>
          (if is_alive (conns s (bound_connection b))
           then (if is_connected (conns s (bound_connection b)) then sendFrame tp (bound_connection b) e s else s)
           else s\<lparr>bindings := erase user_id (bindings s)\<rparr>))"

text \<open>The bindings that a connection of this generation holds and that its loops erase: their connection is gone or is this one.\<close>

definition holds :: "nat \<Rightarrow> u64 \<Rightarrow> ('w, 'r) TcpServer \<Rightarrow> UserBinding \<Rightarrow> bool" where
  "holds c g s b \<longleftrightarrow> bound_generation b = g \<and> (\<not> is_alive (conns s (bound_connection b)) \<or> bound_connection b = c)"

definition replacedEnvelope :: Envelope where
  "replacedEnvelope =
     newEnvelope\<lparr>protocol_version := 1, message_type := TABLE_EVENT,
       body := EventBody \<lparr>event_table_id = 0, event_hand_id = 0, event_server_sequence = 0, event_type = ''session_replaced'',
         event_payload = ''this session was replaced by a newer connection''\<rparr>\<rparr>"

definition bindAuthenticated :: "'w TcpSetup \<Rightarrow> nat \<Rightarrow> nat \<Rightarrow> ('w, 'r) TcpServer \<Rightarrow> ('w, 'r) TcpServer" where
  "bindAuthenticated tp c l s =
     (if \<not> is_connected (conns s c) \<or> map_of (states s) c \<noteq> Some l then s
      else
        (let g = generation (links s ! l) in
         case session_user_id (sessions (service s) l) of
           None \<Rightarrow> s\<lparr>bindings := filter (\<lambda>(u, b). \<not> holds c g s b) (bindings s)\<rparr>
         | Some user_id \<Rightarrow>
             (let s1 = s\<lparr>bindings := filter (\<lambda>(u, b). \<not> (u \<noteq> user_id \<and> holds c g s b)) (bindings s)\<rparr>;
                  found = map_of (bindings s1) user_id
              in if \<exists>b. found = Some b \<and> bound_generation b > g then s1
                 else
                   (let s2 = s1\<lparr>bindings := put user_id \<lparr>bound_connection = c, bound_generation = g\<rparr> (bindings s1)\<rparr>
                    in case found of
                         None \<Rightarrow> s2
                       | Some b \<Rightarrow>
                           (let previous = bound_connection b
                            in if is_alive (conns s previous) \<and> previous \<noteq> c \<and> is_connected (conns s previous)
                               then shutdown tp previous (sendFrame tp previous replacedEnvelope s2)
                               else s2)))))"

definition unbind :: "nat \<Rightarrow> nat \<Rightarrow> ('w, 'r) TcpServer \<Rightarrow> bool \<times> ('w, 'r) TcpServer" where
  "unbind c l s =
     (case session_user_id (sessions (service s) l) of
        None \<Rightarrow> (True, s)
      | Some user_id \<Rightarrow>
          (case map_of (bindings s) user_id of
             None \<Rightarrow> (True, s)
           | Some b \<Rightarrow>
               (if \<not> is_alive (conns s (bound_connection b))
                   \<or> bound_connection b = c \<and> bound_generation b = generation (links s ! l)
                then (True, s\<lparr>bindings := erase user_id (bindings s)\<rparr>)
                else (False, s))))"

section \<open>Delivery\<close>

fun deliver :: "'w TcpSetup \<Rightarrow> Output \<Rightarrow> ('w, 'r) TcpServer \<Rightarrow> ('w, 'r) TcpServer" where
  "deliver tp (Sent n e) s =
     (if n < length (closures s)
      then (let k = closures s ! n in
            case steadyNow tp s of
              (t, s1) \<Rightarrow>
                sendFrame tp (closure_connection k) e
                  (bindAuthenticated tp (closure_connection k) (closure_link k)
                    (onService (meter (observeRequestLatency (truncateTo 1000 (t - closure_started k)))) s1)))
      else s)"
| "deliver tp (Pushed u e) s = pushUser tp u e s"

definition drain :: "'w TcpSetup \<Rightarrow> ('w, 'r) TcpServer \<Rightarrow> ('w, 'r) TcpServer" where
  "drain tp s =
     (let out = outbox (service s) in fold (deliver tp) (drop (drained s) out) (s\<lparr>drained := length out\<rparr>))"

section \<open>Events\<close>

text \<open>A connection has opened. The constructors of the codec and of the bucket may throw.\<close>

definition onOpened :: "'w TcpSetup \<Rightarrow> nat \<Rightarrow> ('w, 'r) TcpServer \<Rightarrow> ('w, 'r) TcpServer result" where
  "onOpened tp c s =
     (let cfg = tcpConfig tp;
          s1 = onService (meter connectionOpened)
                 (setConn c (\<lambda>x. x\<lparr>no_delay := True, high_water_mark := Some (max_pending_send_bytes cfg)\<rparr>) s);
          g = next_connection_generation s1;
          s2 = s1\<lparr>next_connection_generation := g + 1\<rparr>
      in case newCodec (nat (max_frame_bytes cfg)) of
           Inl e \<Rightarrow> Inl e
         | Inr codec \<Rightarrow>
             (case steadyNow tp s2 of
                (t, s3) \<Rightarrow>
                  (case newBucket (rounding_of tp) (of_int (requests_per_second cfg)) (nat (request_burst cfg)) t of
                     Inl e \<Rightarrow> Inl e
                   | Inr bucket \<Rightarrow>
                       (case monotonicMilliseconds tp s3 of
                          (now, s4) \<Rightarrow>
                            let l = length (links s4)
                            in Inr (onService (setSession l newSession)
                                 (s4\<lparr>links := links s4 @ [\<lparr>link_codec = codec, limiter = bucket, generation = g, last_activity_ms = now,
                                       link_connection = c\<rparr>],
                                     states := put c l (states s4)\<rparr>))))))"

definition onClosed :: "'w TcpSetup \<Rightarrow> nat \<Rightarrow> ('w, 'r) TcpServer \<Rightarrow> ('w, 'r) TcpServer" where
  "onClosed tp c s =
     (let s1 = (case map_of (states s) c of
                  None \<Rightarrow> s
                | Some l \<Rightarrow>
                    (case unbind c l (s\<lparr>states := erase c (states s)\<rparr>) of
                       (owner, s2) \<Rightarrow> if owner then drain tp (onService (onDisconnect (protocol tp) l) s2) else s2))
      in onService (meter connectionClosed) s1)"

definition onHighWaterMark :: "nat \<Rightarrow> ('w, 'r) TcpServer \<Rightarrow> ('w, 'r) TcpServer" where
  "onHighWaterMark c s = setConn c (\<lambda>x. x\<lparr>force_closed := True\<rparr>) (onService (meter rejectedRequest) s)"

definition setLink :: "nat \<Rightarrow> (LinkState \<Rightarrow> LinkState) \<Rightarrow> ('w, 'r) TcpServer \<Rightarrow> ('w, 'r) TcpServer" where
  "setLink l f s = s\<lparr>links := (links s)[l := f (links s ! l)]\<rparr>"

definition onFrame :: "'w TcpSetup \<Rightarrow> nat \<Rightarrow> nat \<Rightarrow> u8 list \<Rightarrow> ('w, 'r) TcpServer \<Rightarrow> ('w, 'r) TcpServer" where
  "onFrame tp c l frame s =
     (case steadyNow tp s of
        (t, s1) \<Rightarrow>
          (case allow (rounding_of tp) t (limiter (links s1 ! l)) of
             (allowed_now, bucket) \<Rightarrow>
               let s2 = setLink l (\<lambda>x. x\<lparr>limiter := bucket\<rparr>) s1
               in if \<not> allowed_now
                  then sendProtocolError tp c RATE_LIMITED ''connection request rate exceeded'' (onService (meter rejectedRequest) s2)
                  else
                    (case steadyNow tp (onService (meter requestReceived) s2) of
                       (started, s3) \<Rightarrow>
                         (case Setup.parse (protocol tp) frame of
                            None \<Rightarrow>
                              sendProtocolError tp c INVALID_MESSAGE ''payload is not a valid protobuf Envelope''
                                (onService (meter invalidFrame) s3)
                          | Some request \<Rightarrow>
                              (let n = length (closures s3);
                                   s4 = s3\<lparr>closures := closures s3 @ [\<lparr>closure_connection = c, closure_link = l, closure_started = started\<rparr>]\<rparr>;
                                   s5 = drain tp (onService (handle (protocol tp) request l n) s4)
                               in bindAuthenticated tp c l s5)))))"

text \<open>\<open>feed\<close> does not throw on an array, so that the first case of its result does not arise.\<close>

definition onMessage :: "'w TcpSetup \<Rightarrow> nat \<Rightarrow> u8 list \<Rightarrow> ('w, 'r) TcpServer \<Rightarrow> ('w, 'r) TcpServer" where
  "onMessage tp c bytes s =
     (case map_of (states s) c of
        None \<Rightarrow> shutdown tp c s
      | Some l \<Rightarrow>
          (case monotonicMilliseconds tp s of
             (now, s1) \<Rightarrow>
               (case feed bytes (link_codec (links s1 ! l)) of
                  Inl e \<Rightarrow> s1
                | Inr (decoded, codec) \<Rightarrow>
                    (let s2 = setLink l (\<lambda>x. x\<lparr>last_activity_ms := now, link_codec := codec\<rparr>) s1
                     in if codec_error decoded \<noteq> codec_none
                        then shutdown tp c (sendProtocolError tp c INVALID_MESSAGE (''invalid TCP frame: '' @ codecErrorToString (codec_error decoded))
                               (onService (meter invalidFrame) s2))
                        else fold (onFrame tp c l) (frames decoded) s2))))"

definition isIdle :: "'w TcpSetup \<Rightarrow> int \<Rightarrow> ('w, 'r) TcpServer \<Rightarrow> nat \<times> nat \<Rightarrow> bool" where
  "isIdle tp now s entry =
     (case entry of (c, l) \<Rightarrow>
        \<not> now - last_activity_ms (links s ! l) < connection_idle_timeout_ms (tcpConfig tp) \<and> is_alive (conns s (link_connection (links s ! l))))"

definition closeIdleConnections :: "'w TcpSetup \<Rightarrow> ('w, 'r) TcpServer \<Rightarrow> ('w, 'r) TcpServer" where
  "closeIdleConnections tp s =
     (case monotonicMilliseconds tp s of
        (now, s1) \<Rightarrow>
          fold (\<lambda>c x. shutdown tp c (sendProtocolError tp c SERVICE_UNAVAILABLE ''connection heartbeat timed out'' x))
            (map (\<lambda>(c, l). link_connection (links s1 ! l)) (filter (isIdle tp now s1) (states s1))) s1)"

section \<open>Runs\<close>

text \<open>The events of muduo, and the service at work behind them: its threads and timers take any steps, and what they send
  is handed over. A connection is destroyed when it is closed and nothing holds it any more.\<close>

inductive tcp_run :: "'w TcpSetup \<Rightarrow> ('r \<Rightarrow> u32 \<times> 'r) \<Rightarrow> ('w \<Rightarrow> 'w \<Rightarrow> bool) \<Rightarrow> ('w, 'r) Service \<Rightarrow> ('w, 'r) TcpServer \<Rightarrow> bool"
  for tp device outside start where
  starts: "tcp_run tp device outside start (newTcpServer start)"
| opens: "tcp_run tp device outside start s \<Longrightarrow> conns s c = newConnection \<Longrightarrow>
    onOpened tp c (setConn c (\<lambda>x. x\<lparr>is_connected := True, is_alive := True\<rparr>) s) = Inr s' \<Longrightarrow> tcp_run tp device outside start s'"
| receives: "tcp_run tp device outside start s \<Longrightarrow> is_alive (conns s c) \<Longrightarrow> tcp_run tp device outside start (onMessage tp c bytes s)"
| closes: "tcp_run tp device outside start s \<Longrightarrow> is_alive (conns s c) \<Longrightarrow>
    tcp_run tp device outside start (onClosed tp c (setConn c (\<lambda>x. x\<lparr>is_connected := False\<rparr>) s))"
| destroys: "tcp_run tp device outside start s \<Longrightarrow> \<not> is_connected (conns s c) \<Longrightarrow> map_of (states s) c = None \<Longrightarrow>
    tcp_run tp device outside start (setConn c (\<lambda>x. x\<lparr>is_alive := False\<rparr>) s)"
| floods: "tcp_run tp device outside start s \<Longrightarrow> is_alive (conns s c) \<Longrightarrow> tcp_run tp device outside start (onHighWaterMark c s)"
| sweeps: "tcp_run tp device outside start s \<Longrightarrow> tcp_run tp device outside start (closeIdleConnections tp s)"
| works: "tcp_run tp device outside start s \<Longrightarrow> service_run (protocol tp) device outside (service s) hs ls srv \<Longrightarrow>
    tcp_run tp device outside start (drain tp (s\<lparr>service := srv\<rparr>))"

end
