(* ===== verification/Tcp_Correct.thy ===== *)
theory Tcp_Correct
  imports Tcp_Server Memory_Server
begin

text \<open>
  The connections of the server: over whole runs, the states, closures and bindings fit together (\<open>tcp_ok\<close>); and for its
  operations, that the newest connection of a user wins, that closing a replaced connection is harmless, and that frames which
  are refused have no effect.
\<close>

section \<open>The invariant\<close>

text \<open>Generations number the links in the order in which they were opened; states, closures and bindings name the connection of
  their link; and no two users are bound to one link.\<close>

definition bindings_ok :: "LinkState list \<Rightarrow> (UserId, UserBinding) assoc_map \<Rightarrow> bool" where
  "bindings_ok ls bs \<longleftrightarrow> assoc bs \<and>
     (\<forall>u b. map_of bs u = Some b \<longrightarrow> (\<exists>l < length ls. bound_generation b = generation (ls ! l) \<and> bound_connection b = link_connection (ls ! l))) \<and>
     (\<forall>u v b d. map_of bs u = Some b \<longrightarrow> map_of bs v = Some d \<longrightarrow> bound_generation b = bound_generation d \<longrightarrow> u = v)"

definition links_ok :: "('w, 'r) TcpServer \<Rightarrow> bool" where
  "links_ok s \<longleftrightarrow> assoc (states s) \<and> next_connection_generation s = of_nat (Suc (length (links s))) \<and>
     (\<forall>l < length (links s). generation (links s ! l) = of_nat (Suc l)) \<and>
     (\<forall>c l. map_of (states s) c = Some l \<longrightarrow> l < length (links s) \<and> link_connection (links s ! l) = c) \<and>
     (\<forall>k \<in> set (closures s). closure_link k < length (links s) \<and> link_connection (links s ! closure_link k) = closure_connection k)"

definition tcp_ok :: "('w, 'r) TcpServer \<Rightarrow> bool" where
  "tcp_ok s \<longleftrightarrow> length (links s) < 2 ^ 64 \<longrightarrow> links_ok s \<and> bindings_ok (links s) (bindings s)"

text \<open>Operations that leave links, states, bindings and closures alone.\<close>

definition sameLinks :: "('w, 'r) TcpServer \<Rightarrow> ('w, 'r) TcpServer \<Rightarrow> bool" where
  "sameLinks s' s \<longleftrightarrow> links s' = links s \<and> states s' = states s \<and> bindings s' = bindings s \<and> closures s' = closures s \<and>
     next_connection_generation s' = next_connection_generation s"

lemma sameLinks_ok: "sameLinks s' s \<Longrightarrow> tcp_ok s \<Longrightarrow> tcp_ok s'"
  by (simp add: sameLinks_def tcp_ok_def links_ok_def)

lemma sameLinks_refl [simp]: "sameLinks s s"
  by (simp add: sameLinks_def)

lemma primitive_same [simp]:
  "sameLinks (onService f s) s" "sameLinks (setConn c g s) s" "sameLinks (shutdown tp c s) s"
  by (simp_all add: sameLinks_def onService_def setConn_def shutdown_def)

lemma sendFrame_same [simp]: "sameLinks (sendFrame tp c e s) s"
  by (auto simp: sendFrame_def sameLinks_def onService_def setConn_def shutdown_def split: sum.split)

lemma clock_same: "steadyNow tp s = (t, s') \<Longrightarrow> sameLinks s' s" "monotonicMilliseconds tp s = (t, s') \<Longrightarrow> sameLinks s' s"
  by (auto simp: steadyNow_def monotonicMilliseconds_def sameLinks_def split: prod.splits)

lemmas same_ok [simp] = primitive_same [THEN sameLinks_ok] sendFrame_same [THEN sameLinks_ok]

lemma sendProtocolError_ok [simp]: "tcp_ok s \<Longrightarrow> tcp_ok (sendProtocolError tp c code message s)"
  by (simp add: sendProtocolError_def)

lemma restrict_ok:
  assumes "tcp_ok s" "\<And>u b. assoc (bindings s) \<Longrightarrow> map_of bs u = Some b \<Longrightarrow> map_of (bindings s) u = Some b" "assoc (bindings s) \<Longrightarrow> assoc bs"
  shows "tcp_ok (s\<lparr>bindings := bs\<rparr>)"
  using assms unfolding tcp_ok_def links_ok_def bindings_ok_def by simp meson

lemma assoc_filter: "assoc m \<Longrightarrow> assoc (filter P m)"
  by (simp add: assoc_def distinct_map_filter)

lemma map_of_filter:
  assumes "assoc m" shows "map_of (filter (\<lambda>(u, b). P u b) m) u = Some b \<longleftrightarrow> map_of m u = Some b \<and> P u b"
  unfolding in_assoc [OF assms, symmetric] in_assoc [OF assoc_filter [OF assms], symmetric] by auto

lemma pushUser_ok: "tcp_ok s \<Longrightarrow> tcp_ok (pushUser tp u e s)"
  by (auto simp: pushUser_def map_simps split: option.split if_splits intro!: restrict_ok)

lemma generation_link:
  assumes "links_ok s" "length (links s) < 2 ^ 64" "i < length (links s)" "j < length (links s)"
    and "generation (links s ! i) = generation (links s ! j)"
  shows "i = j"
proof -
  have "(of_nat (Suc i) :: u64) = of_nat (Suc j)" using assms by (simp add: links_ok_def)
  then have "unat (of_nat (Suc i) :: u64) = unat (of_nat (Suc j) :: u64)" by simp
  then show ?thesis using assms(2-4) unat_of_nat_u64 [of "Suc i"] unat_of_nat_u64 [of "Suc j"] by simp
qed


lemma bind_ok:
  assumes ok: "links_ok s" "bindings_ok (links s) bs" and l: "length (links s) < 2 ^ 64" "l < length (links s)" "link_connection (links s ! l) = c"
    and other: "\<And>v d. map_of bs v = Some d \<Longrightarrow> v \<noteq> u \<Longrightarrow> \<not> (bound_generation d = generation (links s ! l) \<and> bound_connection d = c)"
  shows "bindings_ok (links s) (put u \<lparr>bound_connection = c, bound_generation = generation (links s ! l)\<rparr> bs)"
proof -
  let ?g = "generation (links s ! l)"
  have new: "bound_generation d \<noteq> ?g" if v: "map_of bs v = Some d" "v \<noteq> u" for v d
  proof
    assume g: "bound_generation d = ?g"
    obtain j where j: "j < length (links s)" "bound_generation d = generation (links s ! j)" "bound_connection d = link_connection (links s ! j)"
      using ok(2) v(1) unfolding bindings_ok_def by blast
    have "generation (links s ! j) = ?g" using g j(2) by (rule trans [OF sym, rotated])
    then have "j = l" by (rule generation_link [OF ok(1) l(1) j(1) l(2)])
    then show False using other [OF v] g j(3) l(3) by blast
  qed
  let ?new = "put u \<lparr>bound_connection = c, bound_generation = ?g\<rparr> bs"
  have one: "v = w" if d: "map_of ?new v = Some d" "map_of ?new w = Some e" "bound_generation d = bound_generation e" for v w d e
  proof -
    consider "v = u" "w = u" | "v = u" "w \<noteq> u" | "v \<noteq> u" "w = u" | "v \<noteq> u" "w \<noteq> u" by blast
    then show ?thesis
    proof cases
      case 2
      then show ?thesis using d new [of w e] by (auto simp: map_simps)
    next
      case 3
      then show ?thesis using d new [of v d] by (auto simp: map_simps)
    next
      case 4
      then have "map_of bs v = Some d" "map_of bs w = Some e" using d by (simp_all add: map_simps)
      then show ?thesis using ok(2) d(3) unfolding bindings_ok_def by blast
    qed simp
  qed
  have named: "\<exists>l < length (links s). bound_generation d = generation (links s ! l) \<and> bound_connection d = link_connection (links s ! l)"
    if d: "map_of ?new v = Some d" for v d
  proof (cases "v = u")
    case True
    then show ?thesis using d l(2,3) by (auto simp: map_simps)
  next
    case False
    then show ?thesis using d ok(2) unfolding bindings_ok_def by (simp add: map_simps)
  qed
  have "assoc ?new" using ok(2) by (simp add: bindings_ok_def)
  moreover have "\<forall>v d. map_of ?new v = Some d \<longrightarrow>
      (\<exists>l < length (links s). bound_generation d = generation (links s ! l) \<and> bound_connection d = link_connection (links s ! l))"
    using named by iprover
  moreover have "\<forall>v w d e. map_of ?new v = Some d \<longrightarrow> map_of ?new w = Some e \<longrightarrow> bound_generation d = bound_generation e \<longrightarrow> v = w"
    using one by iprover
  ultimately show ?thesis unfolding bindings_ok_def by iprover
qed

lemma bindAuthenticated_ok [simp]:
  assumes "tcp_ok s" shows "tcp_ok (bindAuthenticated tp c l s)"
proof (cases "is_connected (conns s c) \<and> map_of (states s) c = Some l")
  case True
  let ?g = "generation (links s ! l)"
  show ?thesis
  proof (cases "session_user_id (sessions (service s) l)")
    case None
    have "tcp_ok (s\<lparr>bindings := filter (\<lambda>(u, b). \<not> holds c ?g s b) (bindings s)\<rparr>)"
      using assms by (rule restrict_ok) (auto simp: map_of_filter assoc_filter)
    then show ?thesis using True None by (simp add: bindAuthenticated_def Let_def)
  next
    case (Some u)
    let ?s = "s\<lparr>bindings := filter (\<lambda>(v, b). \<not> (v \<noteq> u \<and> holds c ?g s b)) (bindings s)\<rparr>"
    have s1: "tcp_ok ?s" using assms by (rule restrict_ok) (auto simp: map_of_filter assoc_filter)
    have "tcp_ok (?s\<lparr>bindings := put u \<lparr>bound_connection = c, bound_generation = ?g\<rparr> (bindings ?s)\<rparr>)" (is "tcp_ok ?s2")
      unfolding tcp_ok_def
    proof
      assume "length (links ?s2) < 2 ^ 64"
      then have n: "length (links s) < 2 ^ 64" by simp
      then have ok: "links_ok s" "bindings_ok (links s) (bindings s)" "bindings_ok (links s) (bindings ?s)"
        using assms s1 by (simp_all add: tcp_ok_def)
      have l: "l < length (links s)" "link_connection (links s ! l) = c" using ok(1) True unfolding links_ok_def by blast+
      have "assoc (bindings s)" using ok(2) by (simp add: bindings_ok_def)
      then have "\<not> (bound_generation d = ?g \<and> bound_connection d = c)" if "map_of (bindings ?s) v = Some d" "v \<noteq> u" for v d
        using that by (simp add: map_of_filter holds_def)
      from bind_ok [OF ok(1,3) n l this] have "bindings_ok (links ?s2) (bindings ?s2)" by simp
      moreover have "links_ok ?s2" using ok(1) by (simp add: links_ok_def)
      ultimately show "links_ok ?s2 \<and> bindings_ok (links ?s2) (bindings ?s2)" by blast
    qed
    then show ?thesis using True Some s1 by (auto simp: bindAuthenticated_def Let_def split: option.split)
  qed
qed (use assms in \<open>auto simp: bindAuthenticated_def\<close>)


lemma clock_ok:
  "steadyNow tp s = (t, s') \<Longrightarrow> tcp_ok s \<Longrightarrow> tcp_ok s'" "monotonicMilliseconds tp s = (t, s') \<Longrightarrow> tcp_ok s \<Longrightarrow> tcp_ok s'"
  using clock_same sameLinks_ok by blast+

lemma deliver_ok: "tcp_ok s \<Longrightarrow> tcp_ok (deliver tp out s)"
  by (cases out) (auto simp: Let_def pushUser_ok split: prod.split dest: clock_ok)

lemma fold_deliver_ok: "tcp_ok s \<Longrightarrow> tcp_ok (fold (deliver tp) outs s)"
  by (induction outs arbitrary: s) (simp_all add: deliver_ok)

lemma drain_ok: "tcp_ok s \<Longrightarrow> tcp_ok (drain tp s)"
proof -
  assume "tcp_ok s"
  then have "tcp_ok (s\<lparr>drained := n\<rparr>)" for n by (rule sameLinks_ok [rotated]) (simp add: sameLinks_def)
  then show ?thesis by (simp add: drain_def Let_def fold_deliver_ok)
qed

lemma unbind_ok: "tcp_ok s \<Longrightarrow> unbind c l s = (b, s') \<Longrightarrow> tcp_ok s'"
  by (auto simp: unbind_def map_simps split: option.splits if_splits intro!: restrict_ok)

lemma bindings_cong:
  assumes "bindings_ok ls bs" "length ls' = length ls"
    and "\<And>i. i < length ls \<Longrightarrow> generation (ls' ! i) = generation (ls ! i) \<and> link_connection (ls' ! i) = link_connection (ls ! i)"
  shows "bindings_ok ls' bs"
proof -
  have "\<exists>l < length ls'. bound_generation b = generation (ls' ! l) \<and> bound_connection b = link_connection (ls' ! l)"
    if b: "map_of bs u = Some b" for u b
  proof -
    obtain l where l: "l < length ls" "bound_generation b = generation (ls ! l)" "bound_connection b = link_connection (ls ! l)"
      using assms(1) b unfolding bindings_ok_def by iprover
    then show ?thesis using assms(2) assms(3) [OF l(1)] by (intro exI [of _ l]) simp
  qed
  then show ?thesis using assms(1) unfolding bindings_ok_def by iprover
qed

lemma setLink_ok:
  assumes "tcp_ok s" "\<And>x. generation (f x) = generation x" "\<And>x. link_connection (f x) = link_connection x"
  shows "tcp_ok (setLink l f s)"
proof -
  have n: "generation ((links s)[l := f (links s ! l)] ! i) = generation (links s ! i)"
    "link_connection ((links s)[l := f (links s ! l)] ! i) = link_connection (links s ! i)" if "i < length (links s)" for i
    using that by (cases "l = i"; simp add: assms(2,3))+
  have "bindings_ok (links (setLink l f s)) (bindings (setLink l f s))" if "bindings_ok (links s) (bindings s)"
    using n by (auto simp: setLink_def intro: bindings_cong [OF that])
  moreover have "links_ok (setLink l f s)" if "links_ok s"
    using that n by (auto simp: links_ok_def setLink_def)
  ultimately show ?thesis using assms(1) by (simp add: tcp_ok_def setLink_def)
qed

lemma links_states: "tcp_ok s \<Longrightarrow> length (links s) < 2 ^ 64 \<Longrightarrow> map_of (states s) c = Some l \<Longrightarrow> l < length (links s) \<and> link_connection (links s ! l) = c"
  by (simp add: tcp_ok_def links_ok_def)

lemma closures_ok:
  assumes "tcp_ok s" "length (links s) < 2 ^ 64 \<Longrightarrow> closure_link k < length (links s) \<and> link_connection (links s ! closure_link k) = closure_connection k"
  shows "tcp_ok (s\<lparr>closures := closures s @ [k]\<rparr>)"
  using assms by (auto simp: tcp_ok_def links_ok_def)

lemma states_erase_ok: "tcp_ok s \<Longrightarrow> tcp_ok (s\<lparr>states := erase c (states s)\<rparr>)"
  by (auto simp: tcp_ok_def links_ok_def map_simps split: if_splits)


lemma sameLinks_links [simp]:
  "links (onService f s) = links s" "links (setConn c g s) = links s" "links (shutdown tp c s) = links s" "links (sendFrame tp c e s) = links s"
  using primitive_same sendFrame_same unfolding sameLinks_def by blast+

lemma sameLinks_bindings [simp]:
  "bindings (onService f s) = bindings s" "bindings (setConn c g s) = bindings s" "bindings (shutdown tp c s) = bindings s"
  "bindings (sendFrame tp c e s) = bindings s"
  using primitive_same sendFrame_same unfolding sameLinks_def by blast+

lemma clock_links: "steadyNow tp s = (t, s') \<Longrightarrow> links s' = links s"
  using clock_same(1) unfolding sameLinks_def by blast

lemma bindAuthenticated_links [simp]: "links (bindAuthenticated tp c l s) = links s"
  by (auto simp: bindAuthenticated_def Let_def split: option.split)

lemma deliver_links [simp]: "links (deliver tp out s) = links s"
  by (cases out) (auto simp: Let_def pushUser_def split: prod.split option.split dest: clock_links)

lemma fold_deliver_links: "links (fold (deliver tp) outs s) = links s"
  by (induction outs arbitrary: s) simp_all

lemma drain_links [simp]: "links (drain tp s) = links s"
  by (simp add: drain_def Let_def fold_deliver_links)

text \<open>A cell of the heap stays the state of its connection.\<close>

definition linked :: "nat \<Rightarrow> nat \<Rightarrow> ('w, 'r) TcpServer \<Rightarrow> bool" where
  "linked c l s \<longleftrightarrow> tcp_ok s \<and> (length (links s) < 2 ^ 64 \<longrightarrow> l < length (links s) \<and> link_connection (links s ! l) = c)"

lemma onFrame_linked:
  assumes "linked c l s" shows "linked c l (onFrame tp c l frame s)"
proof -
  obtain t s1 where s1: "steadyNow tp s = (t, s1)" by (metis surj_pair)
  obtain a bucket where a: "allow (rounding_of tp) t (limiter (links s1 ! l)) = (a, bucket)" by (metis surj_pair)
  let ?s2 = "setLink l (\<lambda>x. x\<lparr>limiter := bucket\<rparr>) s1"
  have "tcp_ok s" using assms by (simp add: linked_def)
  from clock_ok(1) [OF s1 this] have s2: "tcp_ok ?s2" by (rule setLink_ok) simp_all
  obtain t2 s3 where s3: "steadyNow tp (onService (meter requestReceived) ?s2) = (t2, s3)" by (metis surj_pair)
  have ok3: "tcp_ok s3" using clock_ok(1) [OF s3] s2 by simp
  have eq: "links s3 = links ?s2" using clock_links [OF s3] by simp
  have l: "length (links ?s2) = length (links s)" "l < length (links s) \<Longrightarrow> link_connection (links ?s2 ! l) = link_connection (links s ! l)"
    using clock_links [OF s1] by (auto simp: setLink_def)
  have "tcp_ok (s3\<lparr>closures := closures s3 @ [\<lparr>closure_connection = c, closure_link = l, closure_started = t2\<rparr>]\<rparr>)"
    by (rule closures_ok [OF ok3]) (use l eq assms in \<open>auto simp: linked_def\<close>)
  then have "tcp_ok (onFrame tp c l frame s)" using s1 a s2 s3 ok3 by (simp add: onFrame_def Let_def drain_ok split: option.split)
  moreover have "links (onFrame tp c l frame s) = links ?s2" using s1 a s3 eq by (simp add: onFrame_def Let_def sendProtocolError_def split: option.split)
  ultimately show ?thesis using assms l by (auto simp: linked_def)
qed

lemma fold_onFrame_linked: "linked c l s \<Longrightarrow> linked c l (fold (onFrame tp c l) fs s)"
  by (induction fs arbitrary: s) (simp_all add: onFrame_linked)

lemma onMessage_ok:
  assumes "tcp_ok s" shows "tcp_ok (onMessage tp c bytes s)"
proof (cases "map_of (states s) c")
  case (Some l)
  obtain now s1 where s1: "monotonicMilliseconds tp s = (now, s1)" by (metis surj_pair)
  have ok: "tcp_ok s1" "sameLinks s1 s" using clock_ok(2) [OF s1 assms] clock_same(2) [OF s1] by auto
  have "linked c l (setLink l (\<lambda>x. x\<lparr>last_activity_ms := now, link_codec := codec\<rparr>) s1)" for codec
  proof -
    have "tcp_ok (setLink l (\<lambda>x. x\<lparr>last_activity_ms := now, link_codec := codec\<rparr>) s1)" using ok(1) by (rule setLink_ok) simp_all
    then show ?thesis using links_states [OF assms _ Some] ok(2) by (auto simp: linked_def setLink_def sameLinks_def)
  qed
  note l = this fold_onFrame_linked [OF this]
  then show ?thesis using Some s1 ok(1) by (auto simp: onMessage_def Let_def linked_def split: sum.split prod.split)
qed (use assms in \<open>simp add: onMessage_def\<close>)

lemma onClosed_ok: "tcp_ok s \<Longrightarrow> tcp_ok (onClosed tp c s)"
  by (auto simp: onClosed_def Let_def drain_ok split: option.split prod.split dest: unbind_ok [OF states_erase_ok])

lemma onHighWaterMark_ok: "tcp_ok s \<Longrightarrow> tcp_ok (onHighWaterMark c s)"
  by (simp add: onHighWaterMark_def)

lemma sweep_ok: "tcp_ok s \<Longrightarrow> tcp_ok (fold (\<lambda>c x. shutdown tp c (sendProtocolError tp c code message x)) cs s)"
  by (induction cs arbitrary: s) simp_all

lemma closeIdleConnections_ok: "tcp_ok s \<Longrightarrow> tcp_ok (closeIdleConnections tp s)"
  by (auto simp: closeIdleConnections_def sweep_ok split: prod.split dest: clock_ok(2))

lemma opened_ok:
  assumes "tcp_ok s" "next_connection_generation s' = next_connection_generation s + 1" "states s' = put c (length (links s)) (states s)"
    "bindings s' = bindings s" "closures s' = closures s" "links s' = links s @ [x]" "generation x = next_connection_generation s" "link_connection x = c"
  shows "tcp_ok s'"
  unfolding tcp_ok_def
proof
  assume n: "length (links s') < 2 ^ 64"
  then have ok: "links_ok s" "bindings_ok (links s) (bindings s)" using assms(1,6) by (simp_all add: tcp_ok_def)
  have "links_ok s'" using ok(1) assms(2-8) by (auto simp: links_ok_def map_simps nth_append less_Suc_eq split: if_splits)
  moreover have "bindings_ok (links s @ [x]) (bindings s)" using ok(2) unfolding bindings_ok_def
    by (metis (no_types, lifting) length_append_singleton less_SucI nth_append)
  ultimately show "links_ok s' \<and> bindings_ok (links s') (bindings s')" using assms(4,6) by simp
qed

lemma onOpened_ok:
  assumes "onOpened tp c s = Inr s'" "tcp_ok s" shows "tcp_ok s'"
proof -
  let ?cfg = "tcpConfig tp"
  let ?s1 = "onService (meter connectionOpened) (setConn c (\<lambda>x. x\<lparr>no_delay := True, high_water_mark := Some (max_pending_send_bytes ?cfg)\<rparr>) s)"
  let ?s2 = "?s1\<lparr>next_connection_generation := next_connection_generation ?s1 + 1\<rparr>"
  obtain codec where codec: "newCodec (nat (max_frame_bytes ?cfg)) = Inr codec" using assms(1) by (auto simp: onOpened_def Let_def split: sum.splits)
  obtain t s3 where s3: "steadyNow tp ?s2 = (t, s3)" by (metis surj_pair)
  obtain bucket where bucket: "newBucket (rounding_of tp) (of_int (requests_per_second ?cfg)) (nat (request_burst ?cfg)) t = Inr bucket"
    using assms(1) codec s3 by (auto simp: onOpened_def Let_def split: sum.splits)
  obtain now s4 where s4: "monotonicMilliseconds tp s3 = (now, s4)" by (metis surj_pair)
  let ?x = "\<lparr>link_codec = codec, limiter = bucket, generation = next_connection_generation s, last_activity_ms = now, link_connection = c\<rparr>"
  have s': "s' = onService (setSession (length (links s4)) newSession) (s4\<lparr>links := links s4 @ [?x], states := put c (length (links s4)) (states s4)\<rparr>)"
    using assms(1) codec s3 bucket s4 by (simp add: onOpened_def Let_def onService_def setConn_def)
  have "sameLinks ?s1 s" by (simp add: sameLinks_def onService_def setConn_def)
  then show ?thesis using clock_same(1) [OF s3] clock_same(2) [OF s4]
    by (intro opened_ok [OF assms(2), where x = ?x and c = c]) (auto simp: s' sameLinks_def onService_def)
qed

lemma run_ok: "tcp_run tp device outside start s \<Longrightarrow> tcp_ok s"
proof (induction rule: tcp_run.induct)
  case starts
  then show ?case by (simp add: tcp_ok_def links_ok_def bindings_ok_def newTcpServer_def)
next
  case (opens s c s')
  then show ?case using onOpened_ok [OF opens(3)] by simp
next
  case (works s hs ls srv)
  have "tcp_ok (s\<lparr>service := srv\<rparr>)" by (rule sameLinks_ok [OF _ works(3)]) (simp add: sameLinks_def)
  then show ?case by (rule drain_ok)
qed (simp_all add: onMessage_ok onClosed_ok onHighWaterMark_ok closeIdleConnections_ok)


section \<open>Theorems\<close>

text \<open>C17. In every run with fewer than two to the 64 connections, a bound user is bound to a connection that was opened, under its own
  generation, no connection is bound for two users, and a registered state, like the closure of a pending request, belongs to its
  connection.\<close>
theorem user_bindings_sound:
  assumes "tcp_run tp device outside start s" "length (links s) < 2 ^ 64"
  shows "links_ok s \<and> bindings_ok (links s) (bindings s)"
  using run_ok [OF assms(1)] assms(2) by (simp add: tcp_ok_def)

lemma shutdown_conns [simp]:
  "conns (shutdown tp c s) d = (if d = c then (conns s c)\<lparr>is_shutdown := True, is_connected := is_connected (conns s c) \<and> connected_after_shutdown tp\<rparr> else conns s d)"
  by (simp add: shutdown_def setConn_def)

lemma sendFrame_conns:
  "encode (serialize (protocol tp) e) (nat (max_frame_bytes (tcpConfig tp))) = Inr f \<Longrightarrow> is_connected (conns s c) \<Longrightarrow>
   conns (sendFrame tp c e s) = (conns s)(c := (conns s c)\<lparr>sent_frames := sent_frames (conns s c) @ [f]\<rparr>)"
  "d \<noteq> c \<Longrightarrow> conns (sendFrame tp c e s) d = conns s d"
  by (auto simp: sendFrame_def onService_def setConn_def shutdown_def split: sum.split)

lemma bind_cases:
  assumes "is_connected (conns s c)" "map_of (states s) c = Some l" "session_user_id (sessions (service s) l) = Some u"
    and "assoc (bindings s)" "g = generation (links s ! l)" "s' = bindAuthenticated tp c l s"
  shows "(\<forall>v. v \<noteq> u \<longrightarrow> (\<forall>b. map_of (bindings s') v = Some b \<longleftrightarrow> map_of (bindings s) v = Some b \<and> \<not> holds c g s b))"
    and "map_of (bindings s') u = (case map_of (bindings s) u of
        None \<Rightarrow> Some \<lparr>bound_connection = c, bound_generation = g\<rparr>
      | Some b \<Rightarrow> if g < bound_generation b then Some b else Some \<lparr>bound_connection = c, bound_generation = g\<rparr>)"
proof -
  let ?bs = "filter (\<lambda>(v, b). \<not> (v \<noteq> u \<and> holds c g s b)) (bindings s)"
  have bs: "map_of ?bs v = Some b \<longleftrightarrow> map_of (bindings s) v = Some b \<and> \<not> (v \<noteq> u \<and> holds c g s b)" for v b
    using map_of_filter [OF assms(4), of "\<lambda>v b. \<not> (v \<noteq> u \<and> holds c g s b)"] by simp
  have u: "map_of ?bs u = map_of (bindings s) u" using bs [of u] by (cases "map_of (bindings s) u"; cases "map_of ?bs u") auto
  have "bindings s' = (if \<exists>b. map_of (bindings s) u = Some b \<and> g < bound_generation b then ?bs
      else put u \<lparr>bound_connection = c, bound_generation = g\<rparr> ?bs)"
    using assms u by (auto simp: bindAuthenticated_def Let_def split: option.split)
  then show "\<forall>v. v \<noteq> u \<longrightarrow> (\<forall>b. map_of (bindings s') v = Some b \<longleftrightarrow> map_of (bindings s) v = Some b \<and> \<not> holds c g s b)"
    "map_of (bindings s') u = (case map_of (bindings s) u of
        None \<Rightarrow> Some \<lparr>bound_connection = c, bound_generation = g\<rparr>
      | Some b \<Rightarrow> if g < bound_generation b then Some b else Some \<lparr>bound_connection = c, bound_generation = g\<rparr>)"
    using bs u by (auto simp: map_simps split: option.split)
qed


lemma bind_conns:
  assumes "is_connected (conns s c)" "map_of (states s) c = Some l" "session_user_id (sessions (service s) l) = Some u"
    and "assoc (bindings s)" "g = generation (links s ! l)" "s' = bindAuthenticated tp c l s"
  shows "conns s' = (case map_of (bindings s) u of
      None \<Rightarrow> conns s
    | Some b \<Rightarrow>
        if bound_generation b \<le> g \<and> is_alive (conns s (bound_connection b)) \<and> bound_connection b \<noteq> c \<and> is_connected (conns s (bound_connection b))
        then conns (shutdown tp (bound_connection b) (sendFrame tp (bound_connection b) replacedEnvelope s)) else conns s)"
proof -
  have u: "map_of (filter (\<lambda>(v, b). \<not> (v \<noteq> u \<and> holds c g s b)) (bindings s)) u = map_of (bindings s) u"
    using map_of_filter [OF assms(4), of "\<lambda>v b. \<not> (v \<noteq> u \<and> holds c g s b)" u]
    by (cases "map_of (bindings s) u"; cases "map_of (filter (\<lambda>(v, b). \<not> (v \<noteq> u \<and> holds c g s b)) (bindings s)) u") auto
  have "conns (sendFrame tp d e (s\<lparr>bindings := x\<rparr>)) = conns (sendFrame tp d e s)" for d e x
    by (auto simp: sendFrame_def shutdown_def onService_def setConn_def split: sum.split)
  then have "conns (shutdown tp d (sendFrame tp d e (s\<lparr>bindings := x\<rparr>))) = conns (shutdown tp d (sendFrame tp d e s))" for d e x
    by (simp add: shutdown_def setConn_def)
  then show ?thesis using assms u by (auto simp: bindAuthenticated_def Let_def not_less split: option.split)
qed

text \<open>The newest connection of a user wins: when a connection with a session binds itself, the user is bound to it or to a
  newer one; it displaces only an older one, which is told that it was replaced and is shut down; nothing happens to any other
  connection, and the connection stays bound for this user alone.\<close>
theorem newest_connection_wins:
  assumes "tcp_ok s" "length (links s) < 2 ^ 64" "is_connected (conns s c)" "map_of (states s) c = Some l"
    and "session_user_id (sessions (service s) l) = Some u" "g = generation (links s ! l)" "s' = bindAuthenticated tp c l s"
    and "encode (serialize (protocol tp) replacedEnvelope) (nat (max_frame_bytes (tcpConfig tp))) = Inr f"
  shows "(\<forall>v b. map_of (bindings s') v = Some b \<and> bound_generation b = g \<longrightarrow> v = u) \<and>
    (case map_of (bindings s) u of
       None \<Rightarrow> map_of (bindings s') u = Some \<lparr>bound_connection = c, bound_generation = g\<rparr> \<and> conns s' = conns s
     | Some b \<Rightarrow>
         if g < bound_generation b then map_of (bindings s') u = Some b \<and> conns s' = conns s
         else map_of (bindings s') u = Some \<lparr>bound_connection = c, bound_generation = g\<rparr> \<and>
           (let d = bound_connection b in
            if d \<noteq> c \<and> is_alive (conns s d) \<and> is_connected (conns s d)
            then conns s' = (conns s)(d := (conns s d)\<lparr>sent_frames := sent_frames (conns s d) @ [f], is_shutdown := True,
                   is_connected := connected_after_shutdown tp\<rparr>)
            else conns s' = conns s))"
proof -
  have ok: "links_ok s" "bindings_ok (links s) (bindings s)" using assms(1,2) by (simp_all add: tcp_ok_def)
  have assoc: "assoc (bindings s)" using ok(2) by (simp add: bindings_ok_def)
  note bs = bind_cases [OF assms(3-5) assoc assms(6,7)]
  note cs = bind_conns [OF assms(3-5) assoc assms(6,7)]
  have "bindings_ok (links s') (bindings s')" using bindAuthenticated_ok [OF assms(1), of tp c l] assms(2,7) by (simp add: tcp_ok_def)
  have l: "l < length (links s)" "link_connection (links s ! l) = c" using links_states [OF assms(1,2,4)] by auto
  have "v = u" if v: "map_of (bindings s') v = Some b" "bound_generation b = g" for v b
  proof (rule ccontr)
    assume "v \<noteq> u"
    then have b: "map_of (bindings s) v = Some b" "\<not> holds c g s b" using bs(1) v(1) by blast+
    obtain j where j: "j < length (links s)" "bound_generation b = generation (links s ! j)" "bound_connection b = link_connection (links s ! j)"
      using ok(2) b(1) unfolding bindings_ok_def by blast
    have "generation (links s ! j) = generation (links s ! l)" using j(2) v(2) assms(6) by metis
    then have "j = l" by (rule generation_link [OF ok(1) assms(2) j(1) l(1)])
    then show False using b(2) j(3) l(2) v(2) by (simp add: holds_def)
  qed
  moreover have "conns (shutdown tp d (sendFrame tp d replacedEnvelope s)) = (conns s)(d := (conns s d)\<lparr>sent_frames := sent_frames (conns s d) @ [f], is_shutdown := True,
      is_connected := connected_after_shutdown tp\<rparr>)" if "is_connected (conns s d)" for d
    using sendFrame_conns(1) [OF assms(8) that] that by (simp add: shutdown_def setConn_def)
  ultimately show ?thesis using bs(2) cs by (auto simp: Let_def split: option.split)
qed

text \<open>Closing a connection that a newer one has replaced does not disconnect the player: only the count of connections changes
  in the service, and the binding stays.\<close>
theorem superseded_close_harmless:
  assumes "map_of (states s) c = Some l" "session_user_id (sessions (service s) l) = Some u" "map_of (bindings s) u = Some b"
    and "is_alive (conns s (bound_connection b))" "bound_connection b \<noteq> c \<or> bound_generation b \<noteq> generation (links s ! l)"
    and "s' = onClosed tp c s"
  shows "service s' = meter connectionClosed (service s) \<and> bindings s' = bindings s \<and> conns s' = conns s \<and> map_of (states s') c = None"
  using assms by (auto simp: onClosed_def unbind_def onService_def Let_def map_simps)

lemma sendFrame_sent:
  "encode (serialize (protocol tp) e) (nat (max_frame_bytes (tcpConfig tp))) = Inr f \<Longrightarrow> is_connected (conns s c) \<Longrightarrow>
   sendFrame tp c e s = onService (meter responseSent) (setConn c (\<lambda>x. x\<lparr>sent_frames := sent_frames x @ [f]\<rparr>) s)"
  by (simp add: sendFrame_def)

lemma clock_frame:
  assumes "steadyNow tp s = (t, s')"
  shows "conns s' = conns s" "closures s' = closures s" "bindings s' = bindings s" "states s' = states s" "\<exists>w. service s' = (service s)\<lparr>world := w\<rparr>"
  using assms by (auto simp: steadyNow_def onWorld_def split: prod.splits)

text \<open>A frame that exceeds the rate of its connection, or that is no message, never reaches the service: the connection is sent one
  error, and nothing else changes but the counters and the clock.\<close>
theorem bad_frame_refused:
  assumes "steadyNow tp s = (t, s1)" "allow (rounding_of tp) t (limiter (links s ! l)) = (a, bucket)"
    and "\<not> a \<or> Setup.parse (protocol tp) frame = None" "is_connected (conns s c)" "s' = onFrame tp c l frame s"
    and "e = (if a then protocolError INVALID_MESSAGE ''payload is not a valid protobuf Envelope''
             else protocolError RATE_LIMITED ''connection request rate exceeded'')"
    and "encode (serialize (protocol tp) e) (nat (max_frame_bytes (tcpConfig tp))) = Inr f"
  shows "conns s' = (conns s)(c := (conns s c)\<lparr>sent_frames := sent_frames (conns s c) @ [f]\<rparr>) \<and> closures s' = closures s \<and>
    bindings s' = bindings s \<and> states s' = states s \<and>
    (\<exists>w m. service s' = (service s)\<lparr>world := w, metrics := m\<rparr>)"
proof -
  let ?s2 = "setLink l (\<lambda>x. x\<lparr>limiter := bucket\<rparr>) s1"
  obtain t2 s3 where s3: "steadyNow tp (onService (meter requestReceived) ?s2) = (t2, s3)" by (metis surj_pair)
  note k1 = clock_frame [OF assms(1)] and k3 = clock_frame [OF s3]
  have links: "links s1 = links s" by (rule clock_links [OF assms(1)])
  obtain w1 where w1: "service s1 = (service s)\<lparr>world := w1\<rparr>" using k1(5) by blast
  obtain w3 where w3: "service s3 = (service (onService (meter requestReceived) ?s2))\<lparr>world := w3\<rparr>" using k3(5) by blast
  show ?thesis
  proof (cases a)
    case False
    have conn: "is_connected (conns (onService (meter rejectedRequest) ?s2) c)" using assms(4) k1(1) by (simp add: onService_def setLink_def)
    have "s' = sendFrame tp c e (onService (meter rejectedRequest) ?s2)"
      using assms(1,2,5,6) False links by (simp add: onFrame_def Let_def sendProtocolError_def)
    then show ?thesis unfolding sendFrame_sent [OF assms(7) conn] using k1 w1
      by (auto simp: onService_def setConn_def setLink_def meter_def)
  next
    case True
    have conn: "is_connected (conns (onService (meter invalidFrame) s3) c)" using assms(4) k1(1) k3(1) by (simp add: onService_def setLink_def)
    have "s' = sendFrame tp c e (onService (meter invalidFrame) s3)"
      using assms(1-3,5,6) True links s3 by (simp add: onFrame_def Let_def sendProtocolError_def)
    then show ?thesis unfolding sendFrame_sent [OF assms(7) conn] using k1 k3 w1 w3
      by (auto simp: onService_def setConn_def setLink_def meter_def)
  qed
qed


section \<open>An example\<close>

text \<open>Two connections of the user 5, of which the first is bound; every message is written as one byte, and none is understood.\<close>

definition demoTcp :: "nat World TcpSetup" where
  "demoTcp = \<lparr>protocol = demoSetup\<lparr>serialize := (\<lambda>_. [1]), parse := (\<lambda>_. None)\<rparr>, steady_ns = (\<lambda>w. (0, w)), rounding_of = (\<lambda>x. x),
     connected_after_shutdown = False\<rparr>"

definition demoLink :: "u64 \<Rightarrow> nat \<Rightarrow> LinkState" where
  "demoLink g c = \<lparr>link_codec = \<lparr>max_frame_size = 65536, buffer = [], read_offset = 0, failed = False\<rparr>,
     limiter = \<lparr>rate = 20, capacity = 40, tokens = 0, last_refill = 0\<rparr>, generation = g, last_activity_ms = 0, link_connection = c\<rparr>"

definition demoTcpServer :: "(nat World, unit) TcpServer" where
  "demoTcpServer = (newTcpServer (demoServer\<lparr>sessions := (\<lambda>_. newSession\<lparr>session_user_id := Some 5\<rparr>)\<rparr>))
     \<lparr>conns := (\<lambda>_. newConnection\<lparr>is_connected := True, is_alive := True\<rparr>), links := [demoLink 1 0, demoLink 2 1],
      states := [(0, 0), (1, 1)], bindings := [(5, \<lparr>bound_connection = 0, bound_generation = 1\<rparr>)], next_connection_generation := 3\<rparr>"

definition demoOpened :: "(nat World, unit) TcpServer" where
  "demoOpened = (case onOpened demoTcp 0 (setConn 0 (\<lambda>x. x\<lparr>is_connected := True, is_alive := True\<rparr>) (newTcpServer demoServer)) of
     Inr s \<Rightarrow> s | Inl e \<Rightarrow> newTcpServer demoServer)"

lemmas demo_tcp_defs = demoTcp_def tcpConfig_def demoSetup_def memorySetup_def demoConfig_def

lemma demo_encode: "encode (serialize (protocol demoTcp) e) (nat (max_frame_bytes (tcpConfig demoTcp))) = Inr [0, 0, 0, 1, 1]"
  by (simp add: demo_tcp_defs encode_def uint32_max_def lengthHeader_def)

lemma demo_tcp_ok: "tcp_ok demoTcpServer"
  by (auto simp: tcp_ok_def links_ok_def bindings_ok_def demoTcpServer_def newTcpServer_def demoLink_def assoc_def less_Suc_eq nth_Cons'
      split: if_splits)

theorem user_bindings_sound_witness: "links_ok demoOpened \<and> bindings_ok (links demoOpened) (bindings demoOpened) \<and> map_of (states demoOpened) 0 = Some 0"
proof -
  let ?start = "setConn 0 (\<lambda>x. x\<lparr>is_connected := True, is_alive := True\<rparr>) (newTcpServer demoServer)"
  have eq: "onOpened demoTcp 0 ?start = Inr demoOpened"
    by (simp add: demoOpened_def onOpened_def Let_def steadyNow_def monotonicMilliseconds_def onWorld_def demo_tcp_defs newCodec_def uint32_max_def newBucket_def)
  have len: "length (links demoOpened) = 1" "map_of (states demoOpened) 0 = Some 0"
    by (simp_all add: demoOpened_def onOpened_def Let_def steadyNow_def monotonicMilliseconds_def onWorld_def demo_tcp_defs newCodec_def
        uint32_max_def newBucket_def newTcpServer_def onService_def setConn_def put_def)
  have "tcp_run demoTcp (\<lambda>r. (0, r)) (\<lambda>_ _. False) demoServer demoOpened"
    by (rule tcp_run.opens [OF tcp_run.starts _ eq]) (simp add: newTcpServer_def)
  from user_bindings_sound [OF this] len show ?thesis by simp
qed

theorem newest_connection_wins_witness:
  "map_of (bindings (bindAuthenticated demoTcp 1 1 demoTcpServer)) 5 = Some \<lparr>bound_connection = 1, bound_generation = 2\<rparr> \<and>
   is_shutdown (conns (bindAuthenticated demoTcp 1 1 demoTcpServer) 0)"
proof -
  have a: "is_connected (conns demoTcpServer 1)" "map_of (states demoTcpServer) 1 = Some 1"
    "session_user_id (sessions (service demoTcpServer) 1) = Some 5" "length (links demoTcpServer) < 2 ^ 64"
    "map_of (bindings demoTcpServer) 5 = Some \<lparr>bound_connection = 0, bound_generation = 1\<rparr>" "generation (links demoTcpServer ! 1) = 2"
    "is_alive (conns demoTcpServer 0)" "is_connected (conns demoTcpServer 0)"
    by (simp_all add: demoTcpServer_def newTcpServer_def demoLink_def newSession_def)
  show ?thesis using newest_connection_wins [OF demo_tcp_ok a(4,1-3) refl refl demo_encode] a by (simp add: Let_def)
qed

theorem superseded_close_harmless_witness:
  "service (onClosed demoTcp 1 demoTcpServer) = meter connectionClosed (service demoTcpServer)"
proof -
  let ?b = "\<lparr>bound_connection = 0, bound_generation = 1\<rparr>"
  have a: "map_of (states demoTcpServer) 1 = Some 1" "session_user_id (sessions (service demoTcpServer) 1) = Some 5"
    "map_of (bindings demoTcpServer) 5 = Some ?b" "is_alive (conns demoTcpServer (bound_connection ?b))"
    by (simp_all add: demoTcpServer_def newTcpServer_def newSession_def)
  have "bound_connection ?b \<noteq> 1 \<or> bound_generation ?b \<noteq> generation (links demoTcpServer ! 1)" by simp
  from superseded_close_harmless [OF a this refl, of demoTcp] show ?thesis by (rule conjunct1)
qed

theorem bad_frame_refused_witness: "sent_frames (conns (onFrame demoTcp 0 0 [9] demoTcpServer) 0) = [[0, 0, 0, 1, 1]]"
proof -
  let ?b = "\<lparr>rate = 20, capacity = 40, tokens = 0, last_refill = 0\<rparr>"
  obtain s1 where a: "steadyNow demoTcp demoTcpServer = (0, s1)" by (simp add: steadyNow_def onWorld_def demo_tcp_defs)
  have b: "allow (rounding_of demoTcp) 0 (limiter (links demoTcpServer ! 0)) = (False, ?b)"
    by (simp add: allow_def refill_def demoTcpServer_def newTcpServer_def demoLink_def)
  have c: "is_connected (conns demoTcpServer 0)" "sent_frames (conns demoTcpServer 0) = []" by (simp_all add: demoTcpServer_def newConnection_def)
  show ?thesis using bad_frame_refused [OF a b _ c(1) refl refl demo_encode] c(2) by simp
qed

end
