(* ===== verification/Server_Main.thy ===== *)
theory Server_Main
  imports Failure_Reaper Room_Manager Server_Config Metrics
begin

text \<open>
  \<open>src/apps/server/main.cpp\<close> and \<open>src/apps/server/health_http_server.cpp\<close>: how a server starts, the two periodic tasks
  of the coordination executor (the heartbeat of the node and, in a lobby, the sweep of the failure reaper), and the pages of
  the health server. The registry and the game store are any implementation of their interfaces; \<open>ping_database\<close> is
  \<open>MySqlConnectionPool::ping\<close>. Every thread that shares state with the tasks is the step \<open>others\<close> of \<open>coordination_run\<close>.
\<close>

section \<open>Start\<close>

text \<open>What is caught at the end of \<open>main\<close>: a \<open>std::runtime_error\<close> with its text or another exception of the library.\<close>

datatype Fatal =
    runtime_error string
  | standard_error exn

fun refundStale :: "'g GameStore \<Rightarrow> string \<Rightarrow> TableRecord list \<Rightarrow> 'g \<Rightarrow> Fatal option \<times> 'g" where
  "refundStale store self [] g = (None, g)"
| "refundStale store self (t # ts) g =
     (if node_id t \<noteq> self then refundStale store self ts g
      else (case abort_table_and_refund store (table_key t) g of (e, g') \<Rightarrow>
              if e \<noteq> storage_ok
              then (Some (runtime_error (''could not refund stale table '' @ to_string (unat (table_key t)))), g')
              else refundStale store self ts g'))"

definition recoverNode :: "'r NodeRegistry \<Rightarrow> 'g GameStore \<Rightarrow> ServerConfig \<Rightarrow> 'r \<times> 'g \<Rightarrow> Fatal option \<times> 'r \<times> 'g" where
  "recoverNode reg store cfg rg =
     (case rg of (r, g) \<Rightarrow>
      if server_role cfg = lobby then (None, r, g)
      else (case healthy_nodes reg r of (ns, r1) \<Rightarrow>
            if List.find (\<lambda>n. node_name n = config_node_id cfg) ns \<noteq> None
            then (Some (runtime_error ''POKER_NODE_ID is already registered; wait for its heartbeat TTL or choose a unique id''), r1, g)
            else
              (case list_open_tables store 10000 g of (stale, g1) \<Rightarrow>
               if \<not> succeeded stale
               then (Some (runtime_error ''could not inspect stale tables during node startup''), r1, g1)
               else (case refundStale store (config_node_id cfg) (the (storage_value stale)) g1 of (failed, g') \<Rightarrow> (failed, r1, g')))))"

text \<open>The two closures that are posted to the coordination executor, and the state that the server shares with them.\<close>

datatype CoordinationTask = HeartbeatTask | SweepTask

record ('r, 'g, 'e) Node =
  node_registry :: 'r
  node_games :: 'g
  failure_reaper :: NodeFailureReaper
  node_rooms :: "'e RoomManager"
  node_metrics :: MetricsRegistry
  coordination_executor :: "CoordinationTask BlockingExecutor"
  coordination_healthy :: bool
  database_healthy :: bool

text \<open>The objects of \<open>main\<close> in their order; the bound of a shard is the default argument of \<open>RoomManager\<close>.\<close>

definition assemble :: "ServerConfig \<Rightarrow> 'e \<Rightarrow> 'r \<times> 'g \<Rightarrow> exn + ('r, 'g, 'e) Node" where
  "assemble cfg e rg =
     bind_result (newReaper (node_failure_grace_ms cfg)) (\<lambda>reaper.
     bind_result (newRoomManager (nat (logic_shards cfg)) 16384 e) (\<lambda>manager.
     bind_result (newBlockingExecutor (nat (pool_size (mysql cfg))) 8192 :: unit BlockingExecutor result) (\<lambda>_.
     bind_result (newBlockingExecutor 1 1) (\<lambda>executor.
       Inr \<lparr>node_registry = fst rg, node_games = snd rg, failure_reaper = reaper, node_rooms = manager, node_metrics = newMetrics,
            coordination_executor = executor, coordination_healthy = False, database_healthy = False\<rparr>))))"

section \<open>The heartbeat\<close>

fun assignRooms :: "'r NodeRegistry \<Rightarrow> string \<Rightarrow> TableId list \<Rightarrow> bool \<times> 'r \<Rightarrow> bool \<times> 'r" where
  "assignRooms reg self [] hr = hr"
| "assignRooms reg self (t # ts) (healthy, r) =
     (case assign_room reg t self 30 r of (assigned, r') \<Rightarrow> assignRooms reg self ts (assigned \<and> healthy, r'))"

definition tableCountOf :: "'g GameStore \<Rightarrow> ServerConfig \<Rightarrow> bool \<Rightarrow> TableId list \<Rightarrow> 'g \<Rightarrow> (bool \<times> nat) \<times> 'g" where
  "tableCountOf store cfg alive table_ids g =
     (if alive \<and> server_role cfg \<noteq> lobby
      then (case count_open_tables store (config_node_id cfg) g of (owned, g1) \<Rightarrow>
            (if succeeded owned then (True, the (storage_value owned)) else (False, length table_ids), g1))
      else ((alive, length table_ids), g))"

definition registerNode :: "'r NodeRegistry \<Rightarrow> ServerConfig \<Rightarrow> nat \<Rightarrow> u64 \<Rightarrow> 'r \<Rightarrow> bool \<times> 'r" where
  "registerNode reg cfg n conns r =
     (if server_role cfg = lobby then reg_ping reg r
      else reg_heartbeat reg \<lparr>node_name = config_node_id cfg, endpoint = public_endpoint cfg, active_tables = of_nat n, connections = conns\<rparr> 6 r)"

definition runHeartbeat :: "'r NodeRegistry \<Rightarrow> 'g GameStore \<Rightarrow> ('g \<Rightarrow> bool \<times> 'g) \<Rightarrow> ServerConfig \<Rightarrow> ('r, 'g, 'e) Node \<Rightarrow> ('r, 'g, 'e) Node" where
  "runHeartbeat reg store ping_database cfg s =
     (case ping_database (node_games s) of (alive, g) \<Rightarrow>
      let table_ids = tableIds (snd (node_rooms s)) in
      case tableCountOf store cfg alive table_ids g of ((mysql_healthy, n), g) \<Rightarrow>
      let m = setTables n (node_metrics s);
          (registered, r1) = (if mysql_healthy then registerNode reg cfg n (activeConnections m) (node_registry s) else (False, node_registry s));
          (healthy, r2) = (if registered \<and> server_role cfg \<noteq> lobby then assignRooms reg (config_node_id cfg) table_ids (True, r1)
                           else (registered, r1))
      in s\<lparr>node_games := g, node_registry := r2, node_metrics := m, database_healthy := mysql_healthy, coordination_healthy := healthy\<rparr>)"

definition heartbeatTick :: "('r, 'g, 'e) Node \<Rightarrow> ('r, 'g, 'e) Node" where
  "heartbeatTick s =
     (case poolPost (Some HeartbeatTask) (coordination_executor s) of (accepted, b) \<Rightarrow>
      if accepted then s\<lparr>coordination_executor := b\<rparr>
      else s\<lparr>coordination_executor := b, coordination_healthy := False, database_healthy := False\<rparr>)"

section \<open>The sweep of a lobby\<close>

definition runSweep :: "'r NodeRegistry \<Rightarrow> 'g GameStore \<Rightarrow> int \<Rightarrow> ('r, 'g, 'e) Node \<Rightarrow> ('r, 'g, 'e) Node" where
  "runSweep reg store now s =
     (case sweep reg store now (failure_reaper s) (node_registry s, node_games s) of (swept, reaper, r, g) \<Rightarrow>
      s\<lparr>failure_reaper := reaper, node_registry := r, node_games := g,
        node_metrics := (if failed_tables swept \<noteq> [] then storageFailure (node_metrics s) else node_metrics s)\<rparr>)"

definition sweepTick :: "('r, 'g, 'e) Node \<Rightarrow> ('r, 'g, 'e) Node" where
  "sweepTick s =
     (case poolPost (Some SweepTask) (coordination_executor s) of (accepted, b) \<Rightarrow>
      if accepted then s\<lparr>coordination_executor := b\<rparr>
      else s\<lparr>coordination_executor := b, node_metrics := storageFailure (node_metrics s)\<rparr>)"

definition runCoordination :: "'r NodeRegistry \<Rightarrow> 'g GameStore \<Rightarrow> ('g \<Rightarrow> bool \<times> 'g) \<Rightarrow> ServerConfig \<Rightarrow> int \<Rightarrow> CoordinationTask
    \<Rightarrow> ('r, 'g, 'e) Node \<Rightarrow> ('r, 'g, 'e) Node" where
  "runCoordination reg store ping_database cfg now task s =
     (case task of HeartbeatTask \<Rightarrow> runHeartbeat reg store ping_database cfg s | SweepTask \<Rightarrow> runSweep reg store now s)"

text \<open>\<open>main\<close> up to the loop: the environment, the recovery, the objects and the first heartbeat. The number is what \<open>main\<close>
  returns, with the lines that it prints before; the text of an exception of the library is the parameter \<open>describe\<close>.\<close>

definition configurationLines :: "string list \<Rightarrow> string list" where
  "configurationLines es = map (\<lambda>e. ''configuration error: '' @ e) es"

definition fatalLine :: "(exn \<Rightarrow> string) \<Rightarrow> Fatal \<Rightarrow> string" where
  "fatalLine describe f = ''fatal server error: '' @ (case f of runtime_error what \<Rightarrow> what | standard_error e \<Rightarrow> describe e)"

datatype ('r, 'g, 'e) Launch =
    Exited nat "string list" "('r \<times> 'g) option"
  | Serving ServerConfig "('r, 'g, 'e) Node"

definition launch :: "(exn \<Rightarrow> string) \<Rightarrow> environment \<Rightarrow> 'r NodeRegistry \<Rightarrow> 'g GameStore \<Rightarrow> 'e \<Rightarrow> 'r \<times> 'g \<Rightarrow> ('r, 'g, 'e) Launch" where
  "launch describe env reg store e rg =
     (let loaded = loadFromEnvironment env in
      case config_value loaded of
        None \<Rightarrow> Exited 2 (configurationLines (errors loaded)) None
      | Some cfg \<Rightarrow>
          (case recoverNode reg store cfg rg of
             (Some failure, rg') \<Rightarrow> Exited 1 [fatalLine describe failure] (Some rg')
           | (None, rg') \<Rightarrow>
               (case assemble cfg e rg' of
                  Inl x \<Rightarrow> Exited 1 [fatalLine describe (standard_error x)] (Some rg')
                | Inr s \<Rightarrow> Serving cfg (heartbeatTick s))))"

section \<open>The health server\<close>

record HttpResponse =
  close_connection :: bool
  status_code :: nat
  status_message :: string
  content_type :: string
  http_body :: string

definition quoted :: "string \<Rightarrow> string" where
  "quoted x = [CHR 0x22] @ x @ [CHR 0x22]"

definition statusBody :: "string \<Rightarrow> string" where
  "statusBody x = ''{'' @ quoted ''status'' @ '':'' @ quoted x @ ''}'' @ [CHR 0x0A]"

definition ready :: "('r, 'g, 'e) Node \<Rightarrow> bool" where
  "ready s = (database_healthy s \<and> coordination_healthy s)"

definition healthHandle :: "(u64 \<Rightarrow> string) \<Rightarrow> string \<Rightarrow> ('r, 'g, 'e) Node \<Rightarrow> HttpResponse" where
  "healthHandle seconds path s =
     (if path = ''/health/live''
      then \<lparr>close_connection = True, status_code = 200, status_message = ''OK'', content_type = ''application/json; charset=utf-8'',
            http_body = statusBody ''live''\<rparr>
      else if path = ''/health/ready''
      then \<lparr>close_connection = True, status_code = (if ready s then 200 else 503),
            status_message = (if ready s then ''OK'' else ''Service Unavailable''),
            content_type = ''application/json; charset=utf-8'',
            http_body = (if ready s then statusBody ''ready'' else statusBody ''not_ready'')\<rparr>
      else if path = ''/metrics''
      then \<lparr>close_connection = True, status_code = 200, status_message = ''OK'',
            content_type = ''text/plain; version=0.0.4; charset=utf-8'', http_body = renderPrometheus seconds (node_metrics s)\<rparr>
      else \<lparr>close_connection = True, status_code = 404, status_message = ''Not Found'', content_type = ''text/plain; charset=utf-8'',
            http_body = ''not found'' @ [CHR 0x0A]\<rparr>)"

section \<open>Runs\<close>

definition freeWorker :: "CoordinationTask BlockingExecutor \<Rightarrow> CoordinationTask BlockingExecutor" where
  "freeWorker b = b\<lparr>workers := (workers b)[0 := (workers b ! 0)\<lparr>current := None\<rparr>]\<rparr>"

text \<open>The history holds the states before and after each heartbeat task that has run. \<open>others\<close> is everything that other threads and other
  processes do: they share the registry, the stores, the rooms and the counters, but write neither flag.\<close>

inductive coordination_run :: "'r NodeRegistry \<Rightarrow> 'g GameStore \<Rightarrow> ('g \<Rightarrow> bool \<times> 'g) \<Rightarrow> ServerConfig \<Rightarrow> ('r, 'g, 'e) Node \<Rightarrow>
    (('r, 'g, 'e) Node \<times> ('r, 'g, 'e) Node) list \<Rightarrow> ('r, 'g, 'e) Node \<Rightarrow> bool"
  for reg store ping_database cfg start where
  node_starts: "coordination_run reg store ping_database cfg start [] start"
| heartbeat_due: "coordination_run reg store ping_database cfg start h s \<Longrightarrow>
    coordination_run reg store ping_database cfg start h (heartbeatTick s)"
| sweep_due: "coordination_run reg store ping_database cfg start h s \<Longrightarrow> server_role cfg = lobby \<Longrightarrow>
    coordination_run reg store ping_database cfg start h (sweepTick s)"
| task_taken: "coordination_run reg store ping_database cfg start h s \<Longrightarrow> current (workers (coordination_executor s) ! 0) = None \<Longrightarrow>
    \<not> exited (workers (coordination_executor s) ! 0) \<Longrightarrow> wakeWorker 0 (coordination_executor s) = Some b \<Longrightarrow>
    coordination_run reg store ping_database cfg start h (s\<lparr>coordination_executor := b\<rparr>)"
| task_run: "coordination_run reg store ping_database cfg start h s \<Longrightarrow> current (workers (coordination_executor s) ! 0) = Some task \<Longrightarrow>
    s0 = s\<lparr>coordination_executor := freeWorker (coordination_executor s)\<rparr> \<Longrightarrow>
    s' = runCoordination reg store ping_database cfg now task s0 \<Longrightarrow>
    coordination_run reg store ping_database cfg start (if task = HeartbeatTask then h @ [(s0, s')] else h) s'"
| others: "coordination_run reg store ping_database cfg start h s \<Longrightarrow>
    coordination_run reg store ping_database cfg start h (s\<lparr>node_registry := r, node_games := g, node_rooms := m, node_metrics := c\<rparr>)"
| node_stops: "coordination_run reg store ping_database cfg start h s \<Longrightarrow>
    coordination_run reg store ping_database cfg start h (s\<lparr>coordination_executor := poolStop (coordination_executor s)\<rparr>)"

section \<open>Recovery\<close>

text \<open>Every table is filed under its own number, which \<open>createTable\<close> ensures and nothing changes.\<close>

definition filed :: "InMemoryGameStore \<Rightarrow> bool" where
  "filed g \<longleftrightarrow> (\<forall>k t. map_of (tables g) k = Some t \<longrightarrow> table_key (table_record t) = k)"

lemma filed_step:
  assumes "game_step g g'" "filed g"
  shows "filed g'"
  using assms
proof cases
  case (creates x e)
  then show ?thesis using assms(2) by (auto simp: createTable_def Let_def filed_def map_simps split: if_splits)
next
  case (buys_in k u n a q r)
  then show ?thesis using assms(2)
    by (auto simp: reserveBuyIn_def Let_def filed_def map_simps split: if_splits option.splits)
next
  case (cashes_out k u q r)
  then show ?thesis using assms(2)
    by (auto simp: cashOut_def Let_def filed_def map_simps split: if_splits option.splits)
next
  case (begins hand e)
  then show ?thesis using assms(2)
    by (auto simp: storeBeginHand_def Let_def filed_def map_simps split: if_splits option.splits)
next
  case (appends a e)
  then show ?thesis using assms(2)
    by (auto simp: appendAction_def Let_def filed_def map_simps split: if_splits option.splits)
next
  case (settles x e)
  then show ?thesis using assms(2)
    by (auto simp: settleHand_def Let_def filed_def map_simps split: if_splits option.splits)
next
  case (aborts_table k e)
  then show ?thesis using assms(2)
    by (auto simp: abortTableAndRefund_def filed_def map_simps split: if_splits option.splits prod.splits bool.splits)
qed

lemma filed_run: "game_run d g \<Longrightarrow> filed g"
proof (induction rule: game_run.induct)
  case opened
  show ?case by (simp add: filed_def newGameStore_def)
next
  case (deposit d s u b s')
  then show ?case by (auto simp: seedWallet_def filed_def split: if_splits)
next
  case (transact d s s')
  then show ?case using filed_step by blast
qed

lemma openRecords_mem:
  assumes "store_ok g"
  shows "t \<in> set (openRecords g) \<longleftrightarrow> (\<exists>k x. map_of (tables g) k = Some x \<and> \<not> aborted x \<and> table_record x = t)"
proof -
  have "distinct (map fst (tables g))" using store_okD(2) [OF assms] by (simp add: assoc_def)
  then have "map_of (tables g) k = Some x \<longleftrightarrow> (k, x) \<in> set (tables g)" for k x by (rule map_of_eq_Some_iff)
  then show ?thesis by (force simp: openRecords_def)
qed

lemma openRecords_filed:
  assumes "store_ok g" "filed g"
  shows "t \<in> set (openRecords g) \<longleftrightarrow> (\<exists>x. map_of (tables g) (table_key t) = Some x \<and> \<not> aborted x \<and> table_record x = t)"
  using assms(2) unfolding openRecords_mem [OF assms(1)] filed_def by blast

lemma abort_open:
  assumes "store_ok g" "filed g" "t \<in> set (openRecords g)" "abortTableAndRefund (table_key t) g = (e, g')"
  shows "e = storage_ok \<and> store_ok g' \<and> filed g' \<and> bank g' = bank g \<and> set (openRecords g') = set (openRecords g) - {t}"
proof -
  obtain x where x: "map_of (tables g) (table_key t) = Some x" "\<not> aborted x" "table_record x = t"
    using assms(3) openRecords_filed [OF assms(1,2)] by blast
  have kept: "store_ok g'" "bank g' = bank g" "e \<noteq> conflict" using abortTable_ok [OF assms(1,4)] by simp_all
  have again: "filed g'" by (rule filed_step [OF aborts_table [OF assms(4)] assms(2)])
  obtain x' where x': "e = storage_ok" "tables g' = put (table_key t) x' (tables g)" "aborted x'"
    using assms(4) x(1,2) kept(3) by (auto simp: abortTableAndRefund_def split: prod.splits bool.splits)
  have elsewhere: "map_of (tables g') k = (if k = table_key t then Some x' else map_of (tables g) k)" for k
    by (simp add: x'(2) map_of_put)
  have "y \<in> set (openRecords g') \<longleftrightarrow> y \<in> set (openRecords g) - {t}" for y
  proof (cases "table_key y = table_key t")
    case True
    then have "y \<notin> set (openRecords g')" using x'(3) elsewhere openRecords_filed [OF kept(1) again] by simp
    moreover have "y = t" if "y \<in> set (openRecords g)"
      using that True x(1,3) openRecords_filed [OF assms(1,2), of y] by auto
    ultimately show ?thesis by blast
  next
    case False
    then show ?thesis using elsewhere openRecords_filed [OF kept(1) again] openRecords_filed [OF assms(1,2)] by auto
  qed
  then have "set (openRecords g') = set (openRecords g) - {t}" by (rule set_eqI)
  then show ?thesis using kept again x'(1) by simp
qed

lemma refundStale_open:
  assumes "store_ok g" "filed g" "distinct ts" "set ts \<subseteq> set (openRecords g)"
  shows "\<exists>g'. refundStale memoryGames self ts g = (None, g') \<and> store_ok g' \<and> filed g' \<and> bank g' = bank g \<and>
    set (openRecords g') = set (openRecords g) - {t \<in> set ts. node_id t = self}"
  using assms
proof (induction ts arbitrary: g)
  case (Cons t ts)
  show ?case
  proof (cases "node_id t = self")
    case True
    obtain e g1 where run: "abortTableAndRefund (table_key t) g = (e, g1)" by (metis surj_pair)
    have g1: "e = storage_ok" "store_ok g1" "filed g1" "bank g1 = bank g" "set (openRecords g1) = set (openRecords g) - {t}"
      using abort_open [OF Cons.prems(1,2) _ run] Cons.prems(4) by auto
    have "distinct ts" "set ts \<subseteq> set (openRecords g1)" using Cons.prems(3,4) g1(5) by auto
    from Cons.IH [OF g1(2,3) this] show ?thesis using True run g1 by auto
  next
    case False
    then show ?thesis using Cons.IH [OF Cons.prems(1,2)] Cons.prems(3,4) by auto
  qed
qed simp

lemma openRecords_distinct:
  assumes "store_ok g" "filed g"
  shows "distinct (openRecords g)"
proof -
  have "distinct (map fst (tables g))" using store_okD(2) [OF assms(1)] by (simp add: assoc_def)
  moreover have "\<forall>(k, x) \<in> set (tables g). table_key (table_record x) = k"
    using assms(2) map_of_is_SomeI [OF calculation] by (fastforce simp: filed_def)
  then have "map fst (tables g) = map table_key (map table_record (map snd (tables g)))" by auto
  ultimately have "distinct (map table_record (map snd (tables g)))" by (metis distinct_map)
  then have "distinct (map table_record (filter (\<lambda>t. \<not> aborted t) (map snd (tables g))))" by (rule distinct_map_filter)
  then show ?thesis by (simp add: openRecords_def)
qed

lemma recoverNode_memory:
  assumes "store_ok g" "filed g" "server_role cfg \<noteq> lobby" "length (openRecords g) \<le> 10000"
    "config_node_id cfg \<notin> node_name ` set (fst (healthyNodes r))"
  shows "\<exists>g'. recoverNode memoryRegistry memoryGames cfg (r, g) = (None, snd (healthyNodes r), g') \<and> store_ok g' \<and> bank g' = bank g \<and>
    set (openRecords g') = {t \<in> set (openRecords g). node_id t \<noteq> config_node_id cfg}"
proof -
  obtain ns r1 where ns: "healthyNodes r = (ns, r1)" by (metis surj_pair)
  let ?ts = "sort_key table_key (openRecords g)"
  have listed: "listOpenTables 10000 g = storageOk ?ts" using assms(4) by (simp add: listOpenTables_def)
  obtain g' where g': "refundStale memoryGames (config_node_id cfg) ?ts g = (None, g')" "store_ok g'" "bank g' = bank g"
    "set (openRecords g') = set (openRecords g) - {t \<in> set ?ts. node_id t = config_node_id cfg}"
    using refundStale_open [OF assms(1,2), of ?ts] openRecords_distinct [OF assms(1,2)] by auto
  have "List.find (\<lambda>n. node_name n = config_node_id cfg) ns = None" using assms(5) ns by (auto simp: find_None_iff image_iff)
  then have "recoverNode memoryRegistry memoryGames cfg (r, g) = (None, r1, g')"
    using assms(3) ns listed g'(1) by (simp add: recoverNode_def storageOk_def succeeded_def)
  then show ?thesis using ns g'(2-4) by auto
qed

lemma config_positive:
  assumes "config_value (loadFromEnvironment env) = Some cfg"
  shows "0 < node_failure_grace_ms cfg \<and> 0 < logic_shards cfg \<and> 0 < pool_size (mysql cfg)"
proof -
  have "list_all2 (reads env) integerSettings (rangesOf cfg)" using config_in_range [OF assms] by blast
  then show ?thesis by (simp add: integerSettings_def rangesOf_def reads_def)
qed


section \<open>Readiness\<close>

text \<open>What assigning rooms keeps of a node: everything but the number of its tables.\<close>

definition sameNode :: "NodeInfo Expiring \<Rightarrow> NodeInfo Expiring \<Rightarrow> bool" where
  "sameNode x y \<longleftrightarrow> expires_at_ms y = expires_at_ms x \<and> node_name (held y) = node_name (held x) \<and>
     endpoint (held y) = endpoint (held x) \<and> connections (held y) = connections (held x)"

lemma assignRoom_node:
  assumes "assignRoom t n ttl r = (True, r')" "map_of (nodes r) n = Some x"
  shows "\<exists>y. map_of (nodes r') n = Some y \<and> sameNode x y"
  using assms by (auto simp: assignRoom_def readClock_def map_simps Let_def sameNode_def split: if_splits option.splits)

lemma assignRoom_rooms:
  assumes "assignRoom t n ttl r = (True, r')"
  shows "map_option held (map_of (rooms r') t) = Some n" "j \<noteq> t \<Longrightarrow> map_of (rooms r') j = map_of (rooms r) j"
  using assms by (auto simp: assignRoom_def readClock_def map_simps Let_def split: if_splits option.splits)

lemma assignRooms_flag: "assignRooms reg self ts (healthy, r) = (True, r') \<Longrightarrow> healthy"
  by (induction ts arbitrary: healthy r) (auto split: prod.splits)

lemma assignRooms_memory:
  assumes "assignRooms memoryRegistry self ts (True, r) = (True, r')" "map_of (nodes r) self = Some x"
  shows "(\<forall>t. t \<in> set ts \<or> map_option held (map_of (rooms r) t) = Some self \<longrightarrow> map_option held (map_of (rooms r') t) = Some self) \<and>
    (\<exists>y. map_of (nodes r') self = Some y \<and> sameNode x y)"
  using assms
proof (induction ts arbitrary: r x)
  case Nil
  then show ?case by (auto simp: sameNode_def)
next
  case (Cons t ts)
  obtain assigned r1 where one: "assignRoom t self 30 r = (assigned, r1)" by (metis surj_pair)
  then have rest: "assignRooms memoryRegistry self ts (assigned, r1) = (True, r')" using Cons.prems(1) by simp
  then have "assigned" by (rule assignRooms_flag)
  with one rest have one': "assignRoom t self 30 r = (True, r1)" and rest': "assignRooms memoryRegistry self ts (True, r1) = (True, r')"
    by simp_all
  obtain y where y: "map_of (nodes r1) self = Some y" "sameNode x y"
    using assignRoom_node [OF one' Cons.prems(2)] by blast
  have kept: "j \<in> set (t # ts) \<or> map_option held (map_of (rooms r) j) = Some self \<Longrightarrow>
      j \<in> set ts \<or> map_option held (map_of (rooms r1) j) = Some self" for j
    using assignRoom_rooms(1) [OF one'] assignRoom_rooms(2) [OF one', of j] by (cases "j = t") auto
  have "map_option held (map_of (rooms r') j) = Some self"
    if "j \<in> set (t # ts) \<or> map_option held (map_of (rooms r) j) = Some self" for j
    using Cons.IH [OF rest' y(1)] kept [OF that] by blast
  moreover obtain z where "map_of (nodes r') self = Some z" "sameNode y z" using Cons.IH [OF rest' y(1)] by blast
  ultimately show ?case using y(2) by (auto simp: sameNode_def)
qed

lemma heartbeat_registers:
  assumes "server_role cfg \<noteq> lobby" "s' = runHeartbeat memoryRegistry store ping_database cfg s" "ready s'"
  shows "(\<forall>t \<in> set (tableIds (snd (node_rooms s'))). map_option held (map_of (rooms (node_registry s')) t) = Some (config_node_id cfg)) \<and>
    (\<exists>x. map_of (nodes (node_registry s')) (config_node_id cfg) = Some x \<and> node_name (held x) = config_node_id cfg \<and>
      endpoint (held x) = public_endpoint cfg \<and> connections (held x) = activeConnections (node_metrics s') \<and>
      expires_at_ms x = memoryNow (node_registry s) + 6000)"
proof -
  obtain alive g where ping: "ping_database (node_games s) = (alive, g)" by (metis surj_pair)
  let ?ids = "tableIds (snd (node_rooms s))"
  obtain up n g1 where counted: "tableCountOf store cfg alive ?ids g = ((up, n), g1)" by (metis surj_pair)
  let ?m = "setTables n (node_metrics s)"
  let ?info = "\<lparr>node_name = config_node_id cfg, endpoint = public_endpoint cfg, active_tables = of_nat n,
    connections = activeConnections ?m\<rparr>"
  obtain registered r1 where beat: "heartbeat ?info 6 (node_registry s) = (registered, r1)" by (metis surj_pair)
  obtain healthy r2 where assigned: "assignRooms memoryRegistry (config_node_id cfg) ?ids (True, r1) = (healthy, r2)"
    by (metis surj_pair)
  have run: "s' = s\<lparr>node_games := g1, node_registry := (if up then if registered then r2 else r1 else node_registry s),
      node_metrics := ?m, database_healthy := up, coordination_healthy := up \<and> registered \<and> healthy\<rparr>"
    using assms(1,2) ping counted beat assigned by (simp add: runHeartbeat_def registerNode_def Let_def)
  then have "up" "registered" "healthy" using assms(3) by (auto simp: ready_def)
  then have s': "s' = s\<lparr>node_games := g1, node_registry := r2, node_metrics := ?m, database_healthy := True, coordination_healthy := True\<rparr>"
    and beat': "heartbeat ?info 6 (node_registry s) = (True, r1)"
    and rooms': "assignRooms memoryRegistry (config_node_id cfg) ?ids (True, r1) = (True, r2)"
    using run beat assigned by simp_all
  have "map_of (nodes r1) (config_node_id cfg) = Some \<lparr>held = ?info, expires_at_ms = memoryNow (node_registry s) + 6000\<rparr>"
    using beat' by (auto simp: heartbeat_def readClock_def expiryAt_def map_simps split: if_splits)
  from assignRooms_memory [OF rooms' this] show ?thesis by (auto simp: s' sameNode_def)
qed

lemma run_ready:
  assumes "coordination_run reg store ping_database cfg start h s" "\<not> ready start" "ready s"
  shows "h \<noteq> [] \<and> ready (snd (last h)) \<and> snd (last h) = runHeartbeat reg store ping_database cfg (fst (last h))"
  using assms
proof (induction rule: coordination_run.induct)
  case (heartbeat_due h s)
  then show ?case by (auto simp: heartbeatTick_def ready_def split: prod.splits if_splits)
next
  case (sweep_due h s)
  then show ?case by (auto simp: sweepTick_def ready_def split: prod.splits if_splits)
next
  case (task_run h s task s0 s' now)
  then show ?case
    by (cases task) (auto simp: runCoordination_def runSweep_def ready_def split: prod.splits)
qed (auto simp: ready_def)


section \<open>Examples\<close>

text \<open>The node \<open>n1\<close> starts again after a crash that left a table with a player open.\<close>

definition mainEnv :: environment where
  "mainEnv = [''POKER_MYSQL_PASSWORD'' \<mapsto> ''secret'', ''POKER_NODE_ID'' \<mapsto> ''n1'', ''POKER_PUBLIC_ENDPOINT'' \<mapsto> ''h:1'']"

definition mainConfig :: ServerConfig where
  "mainConfig = the (config_value (loadFromEnvironment mainEnv))"

lemma mainConfig_loaded:
  "config_value (loadFromEnvironment mainEnv) = Some mainConfig" "server_role mainConfig = standalone"
  "config_node_id mainConfig = ''n1''" "public_endpoint mainConfig = ''h:1''"
proof -
  have "role mainEnv [] = (standalone, [])" by (simp add: role_def environment_text_def mainEnv_def)
  moreover obtain vs where "readIntegers mainEnv integerSettings [] = (vs, [])"
    by (simp add: integerSettings_def integer_def mainEnv_def)
  ultimately have loaded: "loadFromEnvironment mainEnv =
      \<lparr>config_value = Some (buildConfig mainEnv standalone vs), errors = []\<rparr>"
    by (simp add: loadFromEnvironment_def buildConfig_def missingText_def environment_text_def mainEnv_def)
  then show "config_value (loadFromEnvironment mainEnv) = Some mainConfig" "server_role mainConfig = standalone"
    "config_node_id mainConfig = ''n1''" "public_endpoint mainConfig = ''h:1''"
    by (simp_all add: mainConfig_def buildConfig_def environment_text_def mainEnv_def)
qed


definition nodeStarted :: "(InMemoryNodeRegistry, InMemoryGameStore, unit) Node" where
  "nodeStarted = \<lparr>node_registry = demoRegistry, node_games = demoSettled, failure_reaper = demoReaper,
     node_rooms = (\<lparr>max_pending_per_shard = 8, shards = [newShard]\<rparr>, snd (roomCreateTable 9 (table_config demoTable) (newRooms ()))),
     node_metrics = newMetrics,
     coordination_executor = \<lparr>max_pending = 1, pool_tasks = [], pool_stopping = False, workers = [idleWorker]\<rparr>,
     coordination_healthy = False, database_healthy = False\<rparr>"

definition nodeTaken :: "(InMemoryNodeRegistry, InMemoryGameStore, unit) Node" where
  "nodeTaken = (let s = heartbeatTick nodeStarted in s\<lparr>coordination_executor := the (wakeWorker 0 (coordination_executor s))\<rparr>)"

definition nodeBefore :: "(InMemoryNodeRegistry, InMemoryGameStore, unit) Node" where
  "nodeBefore = nodeTaken\<lparr>coordination_executor := freeWorker (coordination_executor nodeTaken)\<rparr>"

definition nodeReady :: "(InMemoryNodeRegistry, InMemoryGameStore, unit) Node" where
  "nodeReady = runHeartbeat memoryRegistry memoryGames (Pair True) mainConfig nodeBefore"

lemma nodeReady_run: "coordination_run memoryRegistry memoryGames (Pair True) mainConfig nodeStarted [(nodeBefore, nodeReady)] nodeReady"
proof -
  let ?run = "coordination_run memoryRegistry memoryGames (Pair True) mainConfig nodeStarted"
  let ?s = "heartbeatTick nodeStarted"
  have "current (workers (coordination_executor ?s) ! 0) = None" "\<not> exited (workers (coordination_executor ?s) ! 0)"
    "wakeWorker 0 (coordination_executor ?s) = Some (the (wakeWorker 0 (coordination_executor ?s)))"
    "current (workers (coordination_executor nodeTaken) ! 0) = Some HeartbeatTask" by code_simp+
  then have "?run [] nodeTaken" and "current (workers (coordination_executor nodeTaken) ! 0) = Some HeartbeatTask"
    using task_taken [OF heartbeat_due [OF node_starts]] by (simp_all add: nodeTaken_def Let_def)
  from task_run [OF this nodeBefore_def refl] show ?thesis by (simp add: runCoordination_def nodeReady_def)
qed

lemma nodeBefore_parts:
  "node_registry nodeBefore = demoRegistry" "node_games nodeBefore = demoSettled" "node_metrics nodeBefore = newMetrics"
  "snd (node_rooms nodeBefore) = snd (roomCreateTable 9 (table_config demoTable) (newRooms ()))"
  by (simp_all add: nodeBefore_def nodeTaken_def nodeStarted_def heartbeatTick_def Let_def split: prod.splits)

lemma nodeBefore_ids: "tableIds (snd (node_rooms nodeBefore)) = [9]"
  unfolding nodeBefore_parts(4) by (simp add: tableIds_def roomCreateTable_def newRooms_def put_def)

lemma nodeReady_flags: "ready nodeReady"
proof -
  have counted: "countOpenTables ''n1'' demoSettled = storageOk 1" by code_simp
  let ?beat = "heartbeat \<lparr>node_name = ''n1'', endpoint = ''h:1'', active_tables = 1, connections = 0\<rparr> 6 demoRegistry"
  have "fst ?beat" "fst (assignRoom 9 ''n1'' 30 (snd ?beat))" by code_simp+
  then obtain r r' where "?beat = (True, r)" "assignRoom 9 ''n1'' 30 r = (True, r')" by (metis (full_types) prod.collapse)
  moreover have "activeConnections (setTables 1 newMetrics) = 0" by (simp add: activeConnections_def setTables_def newMetrics_def)
  ultimately show ?thesis
    by (simp add: nodeReady_def runHeartbeat_def nodeBefore_parts(1-3) nodeBefore_ids mainConfig_loaded tableCountOf_def counted
        registerNode_def ready_def Let_def)
qed

lemma nodeReady_rooms: "tableIds (snd (node_rooms nodeReady)) = [9]"
  unfolding nodeBefore_ids [symmetric] by (simp add: nodeReady_def runHeartbeat_def Let_def split: prod.splits)


end
