(* ===== verification/Mysql_Database.thy ===== *)
theory Mysql_Database
  imports Game_Store Server_Config
begin

text \<open>
  The database of \<open>src/deploy/mysql/init/001_schema.sql\<close> and the calls of the MySQL client library that
  \<open>src/src/poker/infrastructure/mysql_game_store.cpp\<close> makes.

  A table is an association map from its primary key to its rows; columns that the program never reads (times of creation and
  change) are left out. A statement is a function on the database that gives an error number or the number of rows it has
  changed, which is what \<open>mysql_stmt_affected_rows\<close> reports; the constraints of the schema are checked in the order ranges and
  \<open>CHECK\<close>, unique keys (error 1062), foreign keys. How texts are compared (the collation), how their characters are counted, which
  ids \<open>AUTO_INCREMENT\<close> gives and what \<open>UNHEX\<close> makes of a text are parameters. A row of \<open>sessions\<close> is found by its unique \<open>token_hash\<close>; times are
  kept in milliseconds.

  What goes wrong outside the program is a parameter too: \<open>faults\<close> decides for every call that reaches the server whether it
  works, is refused without an effect (a lock that times out, a statement that cannot be prepared), or finds the connection lost.
  The server rolls back the transaction of a lost connection. A statement outside a transaction, and a \<open>COMMIT\<close>, may have
  taken effect although the answer got lost; both cases occur. Transactions lock the rows that they read with \<open>FOR UPDATE\<close>, so that
  they are serializable; \<open>others\<close> is what other connections commit before a call that is made outside a transaction.
\<close>

section \<open>The schema\<close>

datatype TableStatus = table_waiting | table_playing | table_closing | table_closed | table_aborted

datatype HandStatus = hand_playing | hand_settled | hand_aborted

record UserRow =
  row_username :: string
  row_password_hash :: string
  row_disabled :: bool

record SessionRow =
  row_session_user :: UserId
  row_last_sequence :: u64
  row_expires_ms :: int
  row_revoked :: bool

record WalletRow =
  balance :: int
  wallet_version :: u64

record PokerTableRow =
  row_name :: string
  row_node :: string
  row_status :: TableStatus
  row_max_players :: u64
  row_small_blind :: int
  row_big_blind :: int
  row_min_buy_in :: int
  row_max_buy_in :: int
  row_created_by :: UserId

record SeatRow =
  row_seat_no :: u64
  row_stack :: int
  hand_start_stack :: int
  seat_version :: u64

record HandRow =
  row_hand_table :: u64
  row_hand_number :: u64
  row_hand_status :: HandStatus
  row_dealer_seat :: u64
  row_board_cards :: "u8 list option"
  row_total_pot :: int

record HandPlayerRow =
  row_player_seat :: u64
  row_start_stack :: int
  row_committed :: int
  row_winnings :: int
  row_end_stack :: "int option"
  row_hole_cards :: "u8 list"
  row_folded :: bool

record ActionRow =
  row_request_id :: u64
  row_user_id :: UserId
  row_street :: string
  row_action_type :: string
  row_target_amount :: int

record LedgerRow =
  delta_amount :: int
  balance_after :: int
  ledger_reason :: string
  reference_id :: string

record Database =
  db_users :: "(UserId, UserRow) assoc_map"
  db_sessions :: "(string, SessionRow) assoc_map"
  db_wallets :: "(UserId, WalletRow) assoc_map"
  db_tables :: "(u64, PokerTableRow) assoc_map"
  db_seats :: "(u64 \<times> UserId, SeatRow) assoc_map"
  db_hands :: "(u64, HandRow) assoc_map"
  db_hand_players :: "(u64 \<times> UserId, HandPlayerRow) assoc_map"
  db_actions :: "(u64 \<times> u64, ActionRow) assoc_map"
  db_ledger :: "(UserId \<times> string, LedgerRow) assoc_map"

section \<open>The client library\<close>

datatype Fault = Works | Refused | Lost bool

record MySql =
  committed_db :: Database
  transaction :: "Database option"
  link_up :: bool
  server_calls :: nat
  faults :: "nat \<Rightarrow> Fault"
  others :: "nat \<Rightarrow> Database \<Rightarrow> Database"
  collate :: "string \<Rightarrow> string"
  char_length :: "string \<Rightarrow> nat"
  error_text :: "nat \<Rightarrow> string"
  new_ids :: "nat \<Rightarrow> UserId"
  unhex :: "string \<Rightarrow> string option"

type_synonym statement = "Database \<Rightarrow> nat + nat \<times> Database"

text \<open>The numbers of the errors: a duplicate key, a lost connection, a refused statement, and one for the other constraints.\<close>

definition er_dup_entry :: nat where
  "er_dup_entry = 1062"

definition cr_server_lost :: nat where
  "cr_server_lost = 2013"

definition er_lock_wait_timeout :: nat where
  "er_lock_wait_timeout = 1205"

definition er_constraint :: nat where
  "er_constraint = 3819"

definition visible :: "MySql \<Rightarrow> Database" where
  "visible m = (case transaction m of None \<Rightarrow> committed_db m | Some d \<Rightarrow> d)"

definition putVisible :: "Database \<Rightarrow> MySql \<Rightarrow> MySql" where
  "putVisible d m = (case transaction m of None \<Rightarrow> m\<lparr>committed_db := d\<rparr> | Some _ \<Rightarrow> m\<lparr>transaction := Some d\<rparr>)"

definition serverCall :: "MySql \<Rightarrow> Fault \<times> MySql" where
  "serverCall m =
     (let n = server_calls m;
          f = (if link_up m then faults m n else Lost False);
          m1 = m\<lparr>server_calls := Suc n,
                 committed_db := (if transaction m = None then others m n (committed_db m) else committed_db m)\<rparr>
      in (f, case f of Lost _ \<Rightarrow> m1\<lparr>link_up := False\<rparr> | _ \<Rightarrow> m1))"

text \<open>\<open>mysql_stmt_init\<close> and \<open>mysql_stmt_prepare\<close>.\<close>

definition prepare :: "MySql \<Rightarrow> bool \<times> MySql" where
  "prepare m =
     (case serverCall m of
        (Works, m1) \<Rightarrow> (True, m1)
      | (Refused, m1) \<Rightarrow> (False, m1)
      | (Lost _, m1) \<Rightarrow> (False, m1\<lparr>transaction := None\<rparr>))"

fun prepareAll :: "nat \<Rightarrow> MySql \<Rightarrow> bool \<times> MySql" where
  "prepareAll 0 m = (True, m)"
| "prepareAll (Suc n) m = (case prepare m of (p, m1) \<Rightarrow> case prepareAll n m1 of (q, m2) \<Rightarrow> (p \<and> q, m2))"

text \<open>\<open>mysql_stmt_bind_param\<close> and \<open>mysql_stmt_execute\<close>: the error number or the rows changed.\<close>

definition execute :: "statement \<Rightarrow> MySql \<Rightarrow> (nat + nat) \<times> MySql" where
  "execute stmt m =
     (case serverCall m of
        (Works, m1) \<Rightarrow>
          (case stmt (visible m1) of
             Inl e \<Rightarrow> (Inl e, m1)
           | Inr (n, d) \<Rightarrow> (Inr n, putVisible d m1))
      | (Refused, m1) \<Rightarrow> (Inl er_lock_wait_timeout, m1)
      | (Lost applied, m1) \<Rightarrow>
          (Inl cr_server_lost,
           if applied \<and> transaction m1 = None
           then (case stmt (committed_db m1) of Inl e \<Rightarrow> m1 | Inr (n, d) \<Rightarrow> m1\<lparr>committed_db := d\<rparr>)
           else m1\<lparr>transaction := None\<rparr>))"

text \<open>A statement that is prepared and executed at once; 0 is the number of one that was not prepared.\<close>

definition statement :: "statement \<Rightarrow> MySql \<Rightarrow> (nat + nat) \<times> MySql" where
  "statement stmt m = (case prepare m of (False, m1) \<Rightarrow> (Inl 0, m1) | (True, m1) \<Rightarrow> execute stmt m1)"

text \<open>A query: \<open>mysql_stmt_execute\<close>, \<open>mysql_stmt_store_result\<close>, \<open>mysql_stmt_bind_result\<close>, \<open>mysql_stmt_fetch\<close>. The result is in
  the memory of the client before it is fetched.\<close>

definition fetch :: "(Database \<Rightarrow> 'a) \<Rightarrow> MySql \<Rightarrow> (nat + 'a) \<times> MySql" where
  "fetch q m =
     (case serverCall m of
        (Works, m1) \<Rightarrow> (Inr (q (visible m1)), m1)
      | (Refused, m1) \<Rightarrow> (Inl er_lock_wait_timeout, m1)
      | (Lost _, m1) \<Rightarrow> (Inl cr_server_lost, m1\<lparr>transaction := None\<rparr>))"

text \<open>\<open>mysql_autocommit\<close>, \<open>mysql_commit\<close> and \<open>mysql_rollback\<close> fail only with the connection. Without autocommit a new transaction
  follows the one that has ended; switching autocommit on commits an open transaction.\<close>

definition autocommit :: "bool \<Rightarrow> MySql \<Rightarrow> bool \<times> MySql" where
  "autocommit on m =
     (case serverCall m of
        (Works, m1) \<Rightarrow>
          (True,
           if on then m1\<lparr>committed_db := visible m1, transaction := None\<rparr>
           else m1\<lparr>transaction := Some (visible m1)\<rparr>)
      | (_, m1) \<Rightarrow> (False, m1\<lparr>link_up := False, transaction := None\<rparr>))"

definition mysqlCommit :: "MySql \<Rightarrow> bool \<times> MySql" where
  "mysqlCommit m =
     (case serverCall m of
        (Works, m1) \<Rightarrow> (True, m1\<lparr>committed_db := visible m1\<rparr>)
      | (Lost True, m1) \<Rightarrow> (False, m1\<lparr>committed_db := visible m1, transaction := None\<rparr>)
      | (_, m1) \<Rightarrow> (False, m1\<lparr>link_up := False, transaction := None\<rparr>))"

definition mysqlRollback :: "MySql \<Rightarrow> bool \<times> MySql" where
  "mysqlRollback m =
     (case serverCall m of
        (Works, m1) \<Rightarrow> (True, if transaction m1 = None then m1 else m1\<lparr>transaction := Some (committed_db m1)\<rparr>)
      | (_, m1) \<Rightarrow> (False, m1\<lparr>link_up := False, transaction := None\<rparr>))"

section \<open>Leases\<close>

text \<open>\<open>pool_.acquire()\<close> gives a connection that has just answered, in autocommit mode and without a transaction, or none. The lease
  gives it back at the end of the operation: \<open>giveBack\<close> rolls back what is open and switches autocommit on, or replaces the
  connection.\<close>

definition acquire :: "MySql \<Rightarrow> bool \<times> MySql" where
  "acquire m =
     (case serverCall (m\<lparr>link_up := True, transaction := None\<rparr>) of
        (Works, m1) \<Rightarrow> (True, m1)
      | (_, m1) \<Rightarrow> (False, m1))"

definition release :: "MySql \<Rightarrow> MySql" where
  "release m = (case mysqlRollback m of (rolled_back, m1) \<Rightarrow>
     let m2 = (if rolled_back then snd (autocommit True m1) else m1) in m2\<lparr>link_up := False, transaction := None\<rparr>)"

definition withLease :: "'a \<Rightarrow> (MySql \<Rightarrow> 'a \<times> MySql) \<Rightarrow> MySql \<Rightarrow> 'a \<times> MySql" where
  "withLease refusal f m =
     (case acquire m of
        (False, m1) \<Rightarrow> (refusal, m1)
      | (True, m1) \<Rightarrow> (case f m1 of (x, m2) \<Rightarrow> (x, release m2)))"

section \<open>Values\<close>

definition bigint :: "int \<Rightarrow> bool" where
  "bigint i \<longleftrightarrow> - (2 ^ 63) \<le> i \<and> i < 2 ^ 63"

definition tinyint :: "u64 \<Rightarrow> bool" where
  "tinyint n \<longleftrightarrow> n < 256"

text \<open>An \<open>UPDATE\<close> of the row with a key. A row whose columns keep their values does not count as changed.\<close>

definition updateRow :: "'k \<Rightarrow> ('v \<Rightarrow> bool) \<Rightarrow> ('v \<Rightarrow> 'v) \<Rightarrow> ('v \<Rightarrow> bool) \<Rightarrow> ('k, 'v) assoc_map \<Rightarrow> nat + nat \<times> ('k, 'v) assoc_map" where
  "updateRow k condition change constraint rows =
     (case map_of rows k of
        None \<Rightarrow> Inr (0, rows)
      | Some r \<Rightarrow>
          (if \<not> condition r then Inr (0, rows)
           else if \<not> constraint (change r) then Inl er_constraint
           else Inr (if change r = r then 0 else 1, put k (change r) rows)))"

end
