(* ===== verification/Mysql_Game_Store.thy ===== *)
theory Mysql_Game_Store
  imports Mysql_Database Failure_Reaper
begin

text \<open>
  \<open>src/src/poker/infrastructure/mysql_game_store.cpp\<close>: the game store of a real server, a sequence of SQL statements for each
  operation. Each statement of the source is a function of the section on statements, and each operation follows the code call by
  call, with a branch for every call that can fail. \<open>mysqlGames\<close> is the record of the operations.
\<close>

section \<open>Helpers\<close>

definition querySigned :: "(Database \<Rightarrow> int option) \<Rightarrow> MySql \<Rightarrow> int option \<times> MySql" where
  "querySigned q m =
     (case prepare m of
        (False, m1) \<Rightarrow> (None, m1)
      | (True, m1) \<Rightarrow> (case fetch q m1 of (Inl e, m2) \<Rightarrow> (None, m2) | (Inr x, m2) \<Rightarrow> (x, m2)))"

record LedgerReplay =
  replay_reason :: string
  replay_reference :: string
  replay_delta :: int
  replay_balance :: int

definition ledgerRow :: "(string \<Rightarrow> string) \<Rightarrow> UserId \<Rightarrow> string \<Rightarrow> Database \<Rightarrow> LedgerRow option" where
  "ledgerRow coll user_id key d =
     map_option snd (List.find (\<lambda>((u, k), r). u = user_id \<and> coll k = coll key) (db_ledger d))"

definition queryLedger :: "UserId \<Rightarrow> string \<Rightarrow> MySql \<Rightarrow> LedgerReplay option \<times> MySql" where
  "queryLedger user_id key m =
     (case prepare m of
        (False, m1) \<Rightarrow> (None, m1)
      | (True, m1) \<Rightarrow>
          (case fetch (ledgerRow (collate m1) user_id key) m1 of
             (Inl e, m2) \<Rightarrow> (None, m2)
           | (Inr x, m2) \<Rightarrow>
               (map_option (\<lambda>r. \<lparr>replay_reason = ledger_reason r, replay_reference = reference_id r,
                  replay_delta = delta_amount r, replay_balance = balance_after r\<rparr>) x, m2)))"

definition replayBuyIn :: "LedgerReplay option \<Rightarrow> u64 \<Rightarrow> int \<Rightarrow> BuyInReceipt StorageResult" where
  "replayBuyIn replay table_id expected_amount =
     (case replay of
        None \<Rightarrow> storageFail not_found []
      | Some r \<Rightarrow>
          (if replay_reason r \<noteq> ''table_buy_in'' \<or> replay_reference r \<noteq> to_string (unat table_id)
              \<or> replay_delta r \<ge> 0 \<or> - replay_delta r \<noteq> expected_amount
           then storageFail conflict ''idempotency key was reused''
           else storageOk \<lparr>buy_in_wallet = replay_balance r, table_stack = - replay_delta r\<rparr>))"

definition replayCashOut :: "LedgerReplay option \<Rightarrow> u64 \<Rightarrow> CashOutReceipt StorageResult" where
  "replayCashOut replay table_id =
     (case replay of
        None \<Rightarrow> storageFail not_found []
      | Some r \<Rightarrow>
          (if replay_reason r \<noteq> ''table_cash_out'' \<or> replay_reference r \<noteq> to_string (unat table_id) \<or> replay_delta r < 0
           then storageFail conflict ''idempotency key was reused''
           else storageOk \<lparr>cash_out_wallet = replay_balance r, returned_stack = replay_delta r\<rparr>))"

definition beginTransaction :: "MySql \<Rightarrow> bool \<times> MySql" where
  "beginTransaction m = autocommit False m"

definition commit :: "MySql \<Rightarrow> bool \<times> MySql" where
  "commit m = (case mysqlCommit m of (committed_ok, m1) \<Rightarrow> (committed_ok, snd (autocommit True m1)))"

definition rollback :: "MySql \<Rightarrow> MySql" where
  "rollback m = snd (autocommit True (snd (mysqlRollback m)))"

text \<open>\<open>rollback(connection); return x;\<close>\<close>

definition undo :: "'a \<Rightarrow> MySql \<Rightarrow> 'a \<times> MySql" where
  "undo x m = (x, rollback m)"

definition encodeCards :: "Card list \<Rightarrow> u8 list" where
  "encodeCards cs = map (\<lambda>c. word_of_nat (cardIndex c)) cs"

fun streetName :: "Street \<Rightarrow> string" where
  "streetName flop = ''flop''"
| "streetName turn = ''turn''"
| "streetName river = ''river''"
| "streetName _ = ''preflop''"

fun actionName :: "ActionType \<Rightarrow> string" where
  "actionName fold_action = ''fold''"
| "actionName check = ''check''"
| "actionName call = ''call''"
| "actionName bet = ''bet''"
| "actionName raise = ''raise''"
| "actionName all_in_action = ''all_in''"

text \<open>\<open>TableRow\<close>: a text that does not fit its buffer is truncated, which the code takes for a failure.\<close>

definition tableRow :: "u64 \<Rightarrow> PokerTableRow \<Rightarrow> TableRecord option" where
  "tableRow k r =
     (if length (row_name r) > 65 \<or> length (row_node r) > 65 then None
      else Some \<lparr>table_key = k, table_name = row_name r, node_id = row_node r,
        table_config = \<lparr>min_players = 2, max_players = unat (row_max_players r), small_blind = row_small_blind r,
          big_blind = row_big_blind r, min_buy_in = row_min_buy_in r, max_buy_in = row_max_buy_in r\<rparr>,
        created_by = row_created_by r\<rparr>)"

definition isOpen :: "PokerTableRow \<Rightarrow> bool" where
  "isOpen r \<longleftrightarrow> row_status r \<in> {table_waiting, table_playing}"

section \<open>Statements\<close>

definition insertTable :: "(string \<Rightarrow> nat) \<Rightarrow> TableRecord \<Rightarrow> statement" where
  "insertTable chars x d =
     (let cfg = table_config x;
          row = \<lparr>row_name = table_name x, row_node = node_id x, row_status = table_waiting,
            row_max_players = of_nat (max_players cfg), row_small_blind = small_blind cfg, row_big_blind = big_blind cfg,
            row_min_buy_in = min_buy_in cfg, row_max_buy_in = max_buy_in cfg, row_created_by = created_by x\<rparr>
      in if chars (table_name x) > 64 \<or> chars (node_id x) > 64 \<or> \<not> tinyint (row_max_players row)
            \<or> row_max_players row < 2 \<or> row_max_players row > 6
            \<or> \<not> (small_blind cfg > 0 \<and> big_blind cfg \<ge> small_blind cfg * 2)
            \<or> \<not> (min_buy_in cfg > 0 \<and> max_buy_in cfg \<ge> min_buy_in cfg)
         then Inl er_constraint
         else if map_of (db_tables d) (table_key x) \<noteq> None then Inl er_dup_entry
         else if map_of (db_users d) (created_by x) = None then Inl er_constraint
         else Inr (1, d\<lparr>db_tables := put (table_key x) row (db_tables d)\<rparr>))"

definition insertSeat :: "u64 \<Rightarrow> UserId \<Rightarrow> u64 \<Rightarrow> int \<Rightarrow> statement" where
  "insertSeat table_id user_id seat_no amt d =
     (if \<not> tinyint seat_no \<or> \<not> bigint amt \<or> amt < 0 then Inl er_constraint
      else if map_of (db_seats d) (table_id, user_id) \<noteq> None
        \<or> (\<exists>((k, u), r) \<in> set (db_seats d). k = table_id \<and> row_seat_no r = seat_no) then Inl er_dup_entry
      else if map_of (db_tables d) table_id = None \<or> map_of (db_users d) user_id = None then Inl er_constraint
      else Inr (1, d\<lparr>db_seats := put (table_id, user_id)
              \<lparr>row_seat_no = seat_no, row_stack = amt, hand_start_stack = amt, seat_version = 0\<rparr> (db_seats d)\<rparr>))"

definition walletFits :: "WalletRow \<Rightarrow> bool" where
  "walletFits w \<longleftrightarrow> bigint (balance w) \<and> balance w \<ge> 0"

definition changeWallet :: "UserId \<Rightarrow> (WalletRow \<Rightarrow> bool) \<Rightarrow> int \<Rightarrow> statement" where
  "changeWallet user_id condition delta d =
     map_sum id (\<lambda>(n, ws). (n, d\<lparr>db_wallets := ws\<rparr>))
       (updateRow user_id condition (\<lambda>w. w\<lparr>balance := balance w + delta, wallet_version := wallet_version w + 1\<rparr>) walletFits
          (db_wallets d))"

definition insertLedger :: "(string \<Rightarrow> string) \<Rightarrow> UserId \<Rightarrow> string \<Rightarrow> LedgerRow \<Rightarrow> statement" where
  "insertLedger coll user_id key row d =
     (if \<not> bigint (delta_amount row) \<or> \<not> bigint (balance_after row) \<or> balance_after row < 0 then Inl er_constraint
      else if ledgerRow coll user_id key d \<noteq> None then Inl er_dup_entry
      else if map_of (db_users d) user_id = None then Inl er_constraint
      else Inr (1, d\<lparr>db_ledger := put (user_id, key) row (db_ledger d)\<rparr>))"

definition deleteSeat :: "u64 \<Rightarrow> UserId \<Rightarrow> statement" where
  "deleteSeat table_id user_id d =
     Inr (if map_of (db_seats d) (table_id, user_id) = None then 0 else 1, d\<lparr>db_seats := erase (table_id, user_id) (db_seats d)\<rparr>)"

definition insertHand :: "HandStartRecord \<Rightarrow> statement" where
  "insertHand hand d =
     (if \<not> tinyint (ucast (start_dealer_seat hand)) then Inl er_constraint
      else if map_of (db_hands d) (start_hand_id hand) \<noteq> None
        \<or> (\<exists>(i, h) \<in> set (db_hands d). row_hand_table h = start_table_id hand \<and> row_hand_number h = start_hand_number hand)
      then Inl er_dup_entry
      else if map_of (db_tables d) (start_table_id hand) = None then Inl er_constraint
      else Inr (1, d\<lparr>db_hands := put (start_hand_id hand)
              \<lparr>row_hand_table = start_table_id hand, row_hand_number = start_hand_number hand, row_hand_status = hand_playing,
               row_dealer_seat = ucast (start_dealer_seat hand), row_board_cards = None, row_total_pot = 0\<rparr> (db_hands d)\<rparr>))"

definition insertHandPlayer :: "u64 \<Rightarrow> HandStartPlayer \<Rightarrow> statement" where
  "insertHandPlayer hand p d =
     (if \<not> tinyint (ucast (start_seat p)) \<or> \<not> bigint (start_stack p) then Inl er_constraint
      else if map_of (db_hand_players d) (hand, start_user_id p) \<noteq> None then Inl er_dup_entry
      else if map_of (db_hands d) hand = None \<or> map_of (db_users d) (start_user_id p) = None then Inl er_constraint
      else Inr (1, d\<lparr>db_hand_players := put (hand, start_user_id p)
              \<lparr>row_player_seat = ucast (start_seat p), row_start_stack = start_stack p, row_committed = 0, row_winnings = 0,
               row_end_stack = None, row_hole_cards = encodeCards (start_hole_cards p), row_folded = False\<rparr> (db_hand_players d)\<rparr>))"

definition seatFits :: "SeatRow \<Rightarrow> bool" where
  "seatFits r \<longleftrightarrow> bigint (row_stack r) \<and> bigint (hand_start_stack r) \<and> row_stack r \<ge> 0 \<and> hand_start_stack r \<ge> 0"

definition changeSeat :: "u64 \<Rightarrow> UserId \<Rightarrow> (SeatRow \<Rightarrow> bool) \<Rightarrow> (SeatRow \<Rightarrow> SeatRow) \<Rightarrow> statement" where
  "changeSeat table_id user_id condition change d =
     map_sum id (\<lambda>(n, rows). (n, d\<lparr>db_seats := rows\<rparr>))
       (updateRow (table_id, user_id) condition (\<lambda>r. (change r)\<lparr>seat_version := seat_version r + 1\<rparr>) seatFits (db_seats d))"

definition changeTable :: "u64 \<Rightarrow> TableStatus list \<Rightarrow> TableStatus \<Rightarrow> statement" where
  "changeTable table_id from to d =
     map_sum id (\<lambda>(n, rows). (n, d\<lparr>db_tables := rows\<rparr>))
       (updateRow table_id (\<lambda>r. row_status r \<in> set from) (\<lambda>r. r\<lparr>row_status := to\<rparr>) (\<lambda>_. True) (db_tables d))"

definition everyStatus :: "TableStatus list" where
  "everyStatus = [table_waiting, table_playing, table_closing, table_closed, table_aborted]"

definition insertAction :: "HandActionRecord \<Rightarrow> statement" where
  "insertAction a d =
     (case map_of (db_hands d) (action_hand_id a) of
        None \<Rightarrow> Inr (0, d)
      | Some h \<Rightarrow>
          (if row_hand_status h \<noteq> hand_playing then Inr (0, d)
           else if \<not> bigint (target_amount a) then Inl er_constraint
           else if map_of (db_actions d) (action_hand_id a, action_sequence a) \<noteq> None
             \<or> (\<exists>((i, n), r) \<in> set (db_actions d). i = action_hand_id a \<and> row_user_id r = action_user_id a \<and> row_request_id r = action_request_id a)
           then Inl er_dup_entry
           else if map_of (db_users d) (action_user_id a) = None then Inl er_constraint
           else Inr (1, d\<lparr>db_actions := put (action_hand_id a, action_sequence a)
                   \<lparr>row_request_id = action_request_id a, row_user_id = action_user_id a, row_street = streetName (action_street a),
                    row_action_type = actionName (action_kind a), row_target_amount = target_amount a\<rparr> (db_actions d)\<rparr>)))"

definition settleHandRow :: "HandSettlementRecord \<Rightarrow> statement" where
  "settleHandRow x d =
     map_sum id (\<lambda>(n, rows). (n, d\<lparr>db_hands := rows\<rparr>))
       (updateRow (settled_hand_id x) (\<lambda>h. row_hand_table h = settled_table_id x \<and> row_hand_status h = hand_playing)
          (\<lambda>h. h\<lparr>row_hand_status := hand_settled, row_board_cards := Some (encodeCards (settled_board x)), row_total_pot := total_pot x\<rparr>)
          (\<lambda>h. bigint (row_total_pot h)) (db_hands d))"

definition settlePlayerRow :: "u64 \<Rightarrow> HandPlayerSettlement \<Rightarrow> statement" where
  "settlePlayerRow hand p d =
     map_sum id (\<lambda>(n, rows). (n, d\<lparr>db_hand_players := rows\<rparr>))
       (updateRow (hand, settled_user_id p) (\<lambda>r. row_start_stack r = settled_start_stack p)
          (\<lambda>r. r\<lparr>row_committed := committed p, row_winnings := winnings p, row_end_stack := Some (end_stack p),
             row_hole_cards := encodeCards (settled_hole_cards p), row_folded := settled_folded p\<rparr>)
          (\<lambda>r. bigint (row_committed r) \<and> bigint (row_winnings r) \<and> bigint (end_stack p)) (db_hand_players d))"

definition seatedUsers :: "u64 \<Rightarrow> Database \<Rightarrow> (UserId \<times> int) list" where
  "seatedUsers table_id d = map (\<lambda>((k, u), r). (u, row_stack r)) (filter (\<lambda>((k, u), r). k = table_id) (db_seats d))"

text \<open>\<open>UPDATE wallets w JOIN table_seats s\<close>: a user has one seat at a table, so that a wallet is changed once.\<close>

definition refundWallets :: "u64 \<Rightarrow> statement" where
  "refundWallets table_id d =
     (let seated_users = seatedUsers table_id d;
          paid = (\<lambda>(u, w). case map_of seated_users u of
                    None \<Rightarrow> (u, w)
                  | Some chips \<Rightarrow> (u, w\<lparr>balance := balance w + chips, wallet_version := wallet_version w + 1\<rparr>));
          rows = map paid (db_wallets d)
      in if \<exists>(u, w) \<in> set rows. map_of seated_users u \<noteq> None \<and> \<not> walletFits w then Inl er_constraint
         else Inr (length (filter (\<lambda>(u, w). map_of seated_users u \<noteq> None) rows), d\<lparr>db_wallets := rows\<rparr>))"

definition crashKey :: "u64 \<Rightarrow> UserId \<Rightarrow> string" where
  "crashKey table_id user_id = ''crash:'' @ to_string (unat table_id) @ '':'' @ to_string (unat user_id)"

fun insertRefunds :: "(string \<Rightarrow> string) \<Rightarrow> u64 \<Rightarrow> (UserId \<times> int) list \<Rightarrow> statement" where
  "insertRefunds coll table_id [] d = Inr (0, d)"
| "insertRefunds coll table_id ((u, chips) # seated_users) d =
     (case map_of (db_wallets d) u of
        None \<Rightarrow> insertRefunds coll table_id seated_users d
      | Some w \<Rightarrow>
          (case insertLedger coll u (crashKey table_id u)
                  \<lparr>delta_amount = chips, balance_after = balance w, ledger_reason = ''crash_refund'', reference_id = to_string (unat table_id)\<rparr> d of
             Inl e \<Rightarrow> Inl e
           | Inr (n, d1) \<Rightarrow> (case insertRefunds coll table_id seated_users d1 of Inl e \<Rightarrow> Inl e | Inr (k, d2) \<Rightarrow> Inr (n + k, d2))))"

definition refundLedger :: "(string \<Rightarrow> string) \<Rightarrow> u64 \<Rightarrow> statement" where
  "refundLedger coll table_id d = insertRefunds coll table_id (seatedUsers table_id d) d"

definition deleteSeats :: "u64 \<Rightarrow> statement" where
  "deleteSeats table_id d =
     Inr (length (seatedUsers table_id d), d\<lparr>db_seats := filter (\<lambda>((k, u), r). k \<noteq> table_id) (db_seats d)\<rparr>)"

definition abortHands :: "u64 \<Rightarrow> statement" where
  "abortHands table_id d =
     (let hit = (\<lambda>h. row_hand_table h = table_id \<and> row_hand_status h = hand_playing)
      in Inr (length (filter (\<lambda>(i, h). hit h) (db_hands d)),
              d\<lparr>db_hands := map (\<lambda>(i, h). (i, if hit h then h\<lparr>row_hand_status := hand_aborted\<rparr> else h)) (db_hands d)\<rparr>))"

section \<open>Operations\<close>

text \<open>The refusal when the pool has no connection.\<close>

abbreviation noMySql :: "'a StorageResult" where
  "noMySql \<equiv> storageFail unavailable ''mysql is unavailable''"

definition sqlFindTable :: "u64 \<Rightarrow> MySql \<Rightarrow> TableRecord StorageResult \<times> MySql" where
  "sqlFindTable table_id =
     withLease noMySql
       (\<lambda>m. case prepare m of
          (False, m1) \<Rightarrow> (storageFail unavailable ''table query could not be prepared'', m1)
        | (True, m1) \<Rightarrow>
            (case fetch (\<lambda>d. map_of (filter (\<lambda>(k, r). isOpen r) (db_tables d)) table_id) m1 of
               (Inl e, m2) \<Rightarrow> (storageFail unavailable (error_text m2 e), m2)
             | (Inr None, m2) \<Rightarrow> (storageFail not_found ''table not found'', m2)
             | (Inr (Some r), m2) \<Rightarrow>
                 ((case tableRow table_id r of None \<Rightarrow> storageFail unavailable (error_text m2 0) | Some x \<Rightarrow> storageOk x), m2)))"

definition openRows :: "nat \<Rightarrow> Database \<Rightarrow> (u64 \<times> PokerTableRow) list" where
  "openRows limit d = take limit (sort_key fst (filter (\<lambda>(k, r). isOpen r) (db_tables d)))"

definition sqlListOpenTables :: "nat \<Rightarrow> MySql \<Rightarrow> TableRecord list StorageResult \<times> MySql" where
  "sqlListOpenTables limit m =
     (if limit = 0 then (storageFail invalid_data ''limit must be positive'', m)
      else
        withLease noMySql
          (\<lambda>m. case prepare m of
             (False, m1) \<Rightarrow> (storageFail unavailable ''table list could not be prepared'', m1)
           | (True, m1) \<Rightarrow>
               (case fetch (openRows (min limit 10000)) m1 of
                  (Inl e, m2) \<Rightarrow> (storageFail unavailable (error_text m2 e), m2)
                | (Inr rows, m2) \<Rightarrow>
                    (let decoded = map (\<lambda>(k, r). tableRow k r) rows
                     in if None \<in> set decoded then (storageFail unavailable (error_text m2 0), m2)
                        else (storageOk (map the decoded), m2)))) m)"

definition sqlCountOpenTables :: "string \<Rightarrow> MySql \<Rightarrow> nat StorageResult \<times> MySql" where
  "sqlCountOpenTables node m =
     (if node = [] then (storageFail invalid_data ''node id is required'', m)
      else
        withLease noMySql
          (\<lambda>m. case prepare m of
             (False, m1) \<Rightarrow> (storageFail unavailable ''table count could not be prepared'', m1)
           | (True, m1) \<Rightarrow>
               (case fetch (\<lambda>d. length (filter (\<lambda>(k, r). collate m1 (row_node r) = collate m1 node \<and> isOpen r) (db_tables d))) m1 of
                  (Inl e, m2) \<Rightarrow> (storageFail unavailable (error_text m2 e), m2)
                | (Inr n, m2) \<Rightarrow> (storageOk n, m2))) m)"

definition sqlCreateTable :: "TableRecord \<Rightarrow> MySql \<Rightarrow> StorageError \<times> MySql" where
  "sqlCreateTable x =
     withLease unavailable
       (\<lambda>m. case statement (insertTable (char_length m) x) m of
          (Inr n, m1) \<Rightarrow> (storage_ok, m1)
        | (Inl e, m1) \<Rightarrow> (if e = er_dup_entry then storage_duplicate else unavailable, m1))"

text \<open>The end of a buy-in, with the balance read: the seat, the wallet, the ledger and the commit.\<close>

definition storeBuyIn :: "u64 \<Rightarrow> UserId \<Rightarrow> u32 \<Rightarrow> int \<Rightarrow> string \<Rightarrow> int \<Rightarrow> MySql \<Rightarrow> BuyInReceipt StorageResult \<times> MySql" where
  "storeBuyIn table_id user_id seat_no amt key bal m =
     (case statement (insertSeat table_id user_id (ucast seat_no) amt) m of
        (Inl e, m1) \<Rightarrow>
          (case queryLedger user_id key (rollback m1) of
             (found, m2) \<Rightarrow>
               let replay = replayBuyIn found table_id amt
               in if storage_error replay \<noteq> not_found then (replay, m2)
                  else (storageFail (if e = er_dup_entry then conflict else unavailable) ''seat could not be reserved'', m2))
      | (Inr _, m1) \<Rightarrow>
          (case statement (changeWallet user_id (\<lambda>w. balance w \<ge> amt) (- amt)) m1 of
             (Inl e, m2) \<Rightarrow> undo (storageFail conflict ''wallet changed concurrently'') m2
           | (Inr n, m2) \<Rightarrow>
               (if n \<noteq> 1 then undo (storageFail conflict ''wallet changed concurrently'') m2
                else
                  (case statement (insertLedger (collate m2) user_id key
                          \<lparr>delta_amount = - amt, balance_after = bal - amt, ledger_reason = ''table_buy_in'', reference_id = to_string (unat table_id)\<rparr>) m2 of
                     (Inl e, m3) \<Rightarrow> undo (storageFail unavailable ''buy-in ledger commit failed'') m3
                   | (Inr _, m3) \<Rightarrow>
                       (case commit m3 of
                          (False, m4) \<Rightarrow> undo (storageFail unavailable ''buy-in ledger commit failed'') m4
                        | (True, m4) \<Rightarrow> (storageOk \<lparr>buy_in_wallet = bal - amt, table_stack = amt\<rparr>, m4))))))"

definition tableRules :: "u64 \<Rightarrow> Database \<Rightarrow> (u64 \<times> int \<times> int) option" where
  "tableRules table_id d =
     (case map_of (db_tables d) table_id of
        None \<Rightarrow> None
      | Some r \<Rightarrow> if row_status r = table_waiting then Some (row_max_players r, row_min_buy_in r, row_max_buy_in r) else None)"

definition walletOf :: "UserId \<Rightarrow> Database \<Rightarrow> int option" where
  "walletOf user_id d = map_option balance (map_of (db_wallets d) user_id)"

text \<open>The transaction of a buy-in.\<close>

definition transactBuyIn :: "u64 \<Rightarrow> UserId \<Rightarrow> u32 \<Rightarrow> int \<Rightarrow> string \<Rightarrow> MySql \<Rightarrow> BuyInReceipt StorageResult \<times> MySql" where
  "transactBuyIn table_id user_id seat_no amt key m =
     (case prepare m of
        (False, m1) \<Rightarrow> undo (storageFail unavailable ''table rules could not be read'') m1
      | (True, m1) \<Rightarrow>
          (case fetch (tableRules table_id) m1 of
             (Inl e, m2) \<Rightarrow> undo (storageFail unavailable ''table rules could not be read'') m2
           | (Inr None, m2) \<Rightarrow> undo (storageFail conflict ''table is missing or a hand is in progress'') m2
           | (Inr (Some (seats_allowed, least, most)), m2) \<Rightarrow>
               (if ucast seat_no \<ge> seats_allowed \<or> amt < least \<or> amt > most
                then undo (storageFail invalid_data ''seat or buy-in is outside table rules'') m2
                else
                  (case querySigned (walletOf user_id) m2 of
                     (None, m3) \<Rightarrow> undo (storageFail not_found ''wallet not found'') m3
                   | (Some bal, m3) \<Rightarrow>
                       (if bal < amt then undo (storageFail insufficient_funds ''insufficient wallet balance'') m3
                        else storeBuyIn table_id user_id seat_no amt key bal m3)))))"

definition sqlReserveBuyIn :: "u64 \<Rightarrow> UserId \<Rightarrow> u32 \<Rightarrow> int \<Rightarrow> string \<Rightarrow> MySql \<Rightarrow> BuyInReceipt StorageResult \<times> MySql" where
  "sqlReserveBuyIn table_id user_id seat_no amt key m =
     (if table_id = 0 \<or> user_id = 0 \<or> amt \<le> 0 \<or> key = [] \<or> length key > 96
      then (storageFail invalid_data ''invalid buy-in'', m)
      else
        withLease noMySql
          (\<lambda>m. case queryLedger user_id key m of
             (found, m1) \<Rightarrow>
               (let existing = replayBuyIn found table_id amt
                in if storage_error existing \<noteq> not_found
                   then
                     (if storage_error existing = storage_ok
                      then (case querySigned (\<lambda>d. map_option (uint \<circ> row_seat_no) (map_of (db_seats d) (table_id, user_id))) m1 of
                              (persisted, m2) \<Rightarrow>
                                if persisted \<noteq> Some (uint seat_no)
                                then (storageFail conflict ''idempotent buy-in does not match the active seat'', m2)
                                else (existing, m2))
                      else (existing, m1))
                   else
                     (case beginTransaction m1 of
                        (False, m2) \<Rightarrow> (noMySql, m2)
                      | (True, m2) \<Rightarrow> transactBuyIn table_id user_id seat_no amt key m2))) m)"

definition statusIs :: "TableStatus \<Rightarrow> u64 \<Rightarrow> Database \<Rightarrow> int option" where
  "statusIs wanted table_id d = map_option (\<lambda>r. if row_status r = wanted then 1 else 0) (map_of (db_tables d) table_id)"

definition stackOf :: "u64 \<Rightarrow> UserId \<Rightarrow> Database \<Rightarrow> int option" where
  "stackOf table_id user_id d = map_option row_stack (map_of (db_seats d) (table_id, user_id))"

text \<open>The end of a cash-out: the wallet, the seat, the ledger and the commit.\<close>

definition storeCashOut :: "u64 \<Rightarrow> UserId \<Rightarrow> string \<Rightarrow> int \<Rightarrow> int \<Rightarrow> MySql \<Rightarrow> CashOutReceipt StorageResult \<times> MySql" where
  "storeCashOut table_id user_id key stk bal m =
     (let failed = undo (storageFail unavailable ''cash-out update failed'') in
      case prepareAll 2 m of
        (False, m1) \<Rightarrow> failed m1
      | (True, m1) \<Rightarrow>
          (case execute (changeWallet user_id (\<lambda>_. True) stk) m1 of
             (Inl e, m2) \<Rightarrow> failed m2
           | (Inr _, m2) \<Rightarrow>
               (case execute (deleteSeat table_id user_id) m2 of
                  (Inl e, m3) \<Rightarrow> failed m3
                | (Inr _, m3) \<Rightarrow>
                    (case statement (insertLedger (collate m3) user_id key
                            \<lparr>delta_amount = stk, balance_after = bal + stk, ledger_reason = ''table_cash_out'', reference_id = to_string (unat table_id)\<rparr>) m3 of
                       (Inl e, m4) \<Rightarrow> undo (storageFail unavailable ''cash-out ledger commit failed'') m4
                     | (Inr _, m4) \<Rightarrow>
                         (case commit m4 of
                            (False, m5) \<Rightarrow> undo (storageFail unavailable ''cash-out ledger commit failed'') m5
                          | (True, m5) \<Rightarrow> (storageOk \<lparr>cash_out_wallet = bal + stk, returned_stack = stk\<rparr>, m5))))))"

definition transactCashOut :: "u64 \<Rightarrow> UserId \<Rightarrow> string \<Rightarrow> MySql \<Rightarrow> CashOutReceipt StorageResult \<times> MySql" where
  "transactCashOut table_id user_id key m =
     (case querySigned (statusIs table_waiting table_id) m of
        (None, m1) \<Rightarrow> undo (storageFail not_found ''table not found'') m1
      | (Some w, m1) \<Rightarrow>
          (if w = 0 then undo (storageFail conflict ''cash-out is not allowed during a hand'') m1
           else
             (case querySigned (stackOf table_id user_id) m1 of
                (stk, m2) \<Rightarrow>
                  (case querySigned (walletOf user_id) m2 of
                     (bal, m3) \<Rightarrow>
                       (case (stk, bal) of
                          (Some x, Some y) \<Rightarrow> storeCashOut table_id user_id key x y m3
                        | _ \<Rightarrow>
                            (case queryLedger user_id key (rollback m3) of
                               (found, m4) \<Rightarrow>
                                 let replay = replayCashOut found table_id
                                 in if storage_error replay \<noteq> not_found then (replay, m4)
                                    else (storageFail not_found ''seat or wallet not found'', m4)))))))"

definition sqlCashOut :: "u64 \<Rightarrow> UserId \<Rightarrow> string \<Rightarrow> MySql \<Rightarrow> CashOutReceipt StorageResult \<times> MySql" where
  "sqlCashOut table_id user_id key m =
     (if table_id = 0 \<or> user_id = 0 \<or> key = [] \<or> length key > 96 then (storageFail invalid_data ''invalid cash-out'', m)
      else
        withLease noMySql
          (\<lambda>m. case queryLedger user_id key m of
             (found, m1) \<Rightarrow>
               (let existing = replayCashOut found table_id
                in if storage_error existing \<noteq> not_found then (existing, m1)
                   else
                     (case beginTransaction m1 of
                        (False, m2) \<Rightarrow> (noMySql, m2)
                      | (True, m2) \<Rightarrow> transactCashOut table_id user_id key m2))) m)"

text \<open>The loop over the players of a hand that begins; the continuation runs when all are stored.\<close>

fun storeStarts :: "HandStartRecord \<Rightarrow> HandStartPlayer list \<Rightarrow> (MySql \<Rightarrow> StorageError \<times> MySql) \<Rightarrow> MySql \<Rightarrow> StorageError \<times> MySql" where
  "storeStarts hand [] continue m = continue m"
| "storeStarts hand (p # ps) continue m =
     (if start_user_id p = 0 \<or> length (start_hole_cards p) \<noteq> 2 \<or> start_stack p < 0 then undo invalid_data m
      else
        (case prepareAll 2 m of
           (False, m1) \<Rightarrow> undo conflict m1
         | (True, m1) \<Rightarrow>
             (case execute (insertHandPlayer (start_hand_id hand) p) m1 of
                (Inl e, m2) \<Rightarrow> undo conflict m2
              | (Inr _, m2) \<Rightarrow>
                  (case execute (changeSeat (start_table_id hand) (start_user_id p) (\<lambda>r. row_stack r = start_stack p)
                          (\<lambda>r. r\<lparr>hand_start_stack := start_stack p\<rparr>)) m2 of
                     (Inl e, m3) \<Rightarrow> undo conflict m3
                   | (Inr n, m3) \<Rightarrow> if n \<noteq> 1 then undo conflict m3 else storeStarts hand ps continue m3))))"

definition markPlaying :: "u64 \<Rightarrow> MySql \<Rightarrow> StorageError \<times> MySql" where
  "markPlaying table_id m =
     (case statement (changeTable table_id [table_waiting] table_playing) m of
        (Inl e, m1) \<Rightarrow> undo conflict m1
      | (Inr n, m1) \<Rightarrow>
          (if n \<noteq> 1 then undo conflict m1
           else (case commit m1 of (False, m2) \<Rightarrow> undo conflict m2 | (True, m2) \<Rightarrow> (storage_ok, m2))))"

definition transactBeginHand :: "HandStartRecord \<Rightarrow> MySql \<Rightarrow> StorageError \<times> MySql" where
  "transactBeginHand hand m =
     (case querySigned (statusIs table_waiting (start_table_id hand)) m of
        (None, m1) \<Rightarrow> undo not_found m1
      | (Some w, m1) \<Rightarrow>
          (if w = 0 then undo conflict m1
           else
             (case statement (insertHand hand) m1 of
                (Inl e, m2) \<Rightarrow> undo (if e = er_dup_entry then storage_duplicate else unavailable) m2
              | (Inr _, m2) \<Rightarrow> storeStarts hand (start_players hand) (markPlaying (start_table_id hand)) m2)))"

definition withTransaction :: "(MySql \<Rightarrow> StorageError \<times> MySql) \<Rightarrow> MySql \<Rightarrow> StorageError \<times> MySql" where
  "withTransaction f m = (case beginTransaction m of (False, m1) \<Rightarrow> (unavailable, m1) | (True, m1) \<Rightarrow> f m1)"

definition sqlBeginHand :: "HandStartRecord \<Rightarrow> MySql \<Rightarrow> StorageError \<times> MySql" where
  "sqlBeginHand hand m =
     (if start_hand_id hand = 0 \<or> start_table_id hand = 0 \<or> start_hand_number hand = 0 \<or> length (start_players hand) < 2
      then (invalid_data, m)
      else withLease unavailable (withTransaction (transactBeginHand hand)) m)"

definition sameActionRow :: "HandActionRecord \<Rightarrow> (u64 \<times> u64) \<times> ActionRow \<Rightarrow> bool" where
  "sameActionRow a entry =
     (case entry of ((i, n), r) \<Rightarrow>
        n = action_sequence a \<and> row_request_id r = action_request_id a \<and> row_user_id r = action_user_id a
        \<and> row_target_amount r = target_amount a \<and> row_street r = streetName (action_street a)
        \<and> row_action_type r = actionName (action_kind a))"

definition isExactActionDuplicate :: "HandActionRecord \<Rightarrow> MySql \<Rightarrow> bool \<times> MySql" where
  "isExactActionDuplicate a m =
     (case prepare m of
        (False, m1) \<Rightarrow> (False, m1)
      | (True, m1) \<Rightarrow>
          (case fetch (\<lambda>d. List.find (\<lambda>((i, n), r). i = action_hand_id a
                  \<and> (n = action_sequence a \<or> row_user_id r = action_user_id a \<and> row_request_id r = action_request_id a)) (db_actions d)) m1 of
             (Inr (Some entry), m2) \<Rightarrow> (sameActionRow a entry, m2)
           | (_, m2) \<Rightarrow> (False, m2)))"

definition sqlAppendAction :: "HandActionRecord \<Rightarrow> MySql \<Rightarrow> StorageError \<times> MySql" where
  "sqlAppendAction a =
     withLease unavailable
       (\<lambda>m. case prepare m of
          (False, m1) \<Rightarrow> (unavailable, m1)
        | (True, m1) \<Rightarrow>
            (case execute (insertAction a) m1 of
               (Inr n, m2) \<Rightarrow> (if n = 1 then storage_ok else conflict, m2)
             | (Inl e, m2) \<Rightarrow>
                 (if e = er_dup_entry
                  then (case isExactActionDuplicate a m2 of (same, m3) \<Rightarrow> (if same then storage_duplicate else conflict, m3))
                  else (unavailable, m2))))"

fun storeSettlements :: "HandSettlementRecord \<Rightarrow> HandPlayerSettlement list \<Rightarrow> (MySql \<Rightarrow> StorageError \<times> MySql) \<Rightarrow> MySql \<Rightarrow> StorageError \<times> MySql" where
  "storeSettlements x [] continue m = continue m"
| "storeSettlements x (p # ps) continue m =
     (case statement (settlePlayerRow (settled_hand_id x) p) m of
        (Inl e, m1) \<Rightarrow> undo conflict m1
      | (Inr n, m1) \<Rightarrow>
          (if n \<noteq> 1 then undo conflict m1
           else
             (case statement (changeSeat (settled_table_id x) (settled_user_id p) (\<lambda>r. hand_start_stack r = settled_start_stack p)
                     (\<lambda>r. r\<lparr>row_stack := end_stack p, hand_start_stack := end_stack p\<rparr>)) m1 of
                (Inl e, m2) \<Rightarrow> undo conflict m2
              | (Inr k, m2) \<Rightarrow> if k \<noteq> 1 then undo conflict m2 else storeSettlements x ps continue m2)))"

definition markWaiting :: "u64 \<Rightarrow> MySql \<Rightarrow> StorageError \<times> MySql" where
  "markWaiting table_id m =
     (case statement (changeTable table_id everyStatus table_waiting) m of
        (Inl e, m1) \<Rightarrow> undo unavailable m1
      | (Inr _, m1) \<Rightarrow> (case commit m1 of (False, m2) \<Rightarrow> undo unavailable m2 | (True, m2) \<Rightarrow> (storage_ok, m2)))"

definition transactSettleHand :: "HandSettlementRecord \<Rightarrow> MySql \<Rightarrow> StorageError \<times> MySql" where
  "transactSettleHand x m =
     (case querySigned (statusIs table_playing (settled_table_id x)) m of
        (None, m1) \<Rightarrow> undo not_found m1
      | (Some w, m1) \<Rightarrow>
          (if w = 0 then undo conflict m1
           else
             (case statement (settleHandRow x) m1 of
                (Inl e, m2) \<Rightarrow> undo unavailable m2
              | (Inr n, m2) \<Rightarrow>
                  (if n \<noteq> 1 then undo conflict m2
                   else storeSettlements x (settled_players x) (markWaiting (settled_table_id x)) m2))))"

definition sqlSettleHand :: "HandSettlementRecord \<Rightarrow> MySql \<Rightarrow> StorageError \<times> MySql" where
  "sqlSettleHand x m =
     (if \<not> validHandSettlement x then (invalid_data, m) else withLease unavailable (withTransaction (transactSettleHand x)) m)"

text \<open>A list of prepared statements that are executed one after the other until one fails; the number is what the last has changed.\<close>

fun executeAll :: "statement list \<Rightarrow> nat \<Rightarrow> MySql \<Rightarrow> (nat + nat) \<times> MySql" where
  "executeAll [] n m = (Inr n, m)"
| "executeAll (stmt # stmts) n m = (case execute stmt m of (Inl e, m1) \<Rightarrow> (Inl e, m1) | (Inr k, m1) \<Rightarrow> executeAll stmts k m1)"

definition transactAbort :: "u64 \<Rightarrow> MySql \<Rightarrow> StorageError \<times> MySql" where
  "transactAbort table_id m =
     (case querySigned (statusIs table_aborted table_id) m of
        (None, m1) \<Rightarrow> undo not_found m1
      | (Some w, m1) \<Rightarrow>
          (if w \<noteq> 0 then undo storage_ok m1
           else
             (case prepareAll 5 m1 of
                (False, m2) \<Rightarrow> undo unavailable m2
              | (True, m2) \<Rightarrow>
                  (case executeAll [refundWallets table_id, refundLedger (collate m2) table_id, deleteSeats table_id, abortHands table_id,
                          changeTable table_id [table_waiting, table_playing, table_closing] table_aborted] 0 m2 of
                     (Inl e, m3) \<Rightarrow> undo unavailable m3
                   | (Inr n, m3) \<Rightarrow>
                       (if n \<noteq> 1 then undo unavailable m3
                        else (case commit m3 of (False, m4) \<Rightarrow> undo unavailable m4 | (True, m4) \<Rightarrow> (storage_ok, m4)))))))"

definition sqlAbortTableAndRefund :: "u64 \<Rightarrow> MySql \<Rightarrow> StorageError \<times> MySql" where
  "sqlAbortTableAndRefund table_id = withLease unavailable (withTransaction (transactAbort table_id))"

definition mysqlGames :: "MySql GameStore" where
  "mysqlGames = \<lparr>find_table = sqlFindTable, list_open_tables = sqlListOpenTables, count_open_tables = sqlCountOpenTables,
     create_table = sqlCreateTable, reserve_buy_in = sqlReserveBuyIn, cash_out = sqlCashOut, begin_hand = sqlBeginHand,
     append_action = sqlAppendAction, settle_hand = sqlSettleHand, abort_table_and_refund = sqlAbortTableAndRefund\<rparr>"

section \<open>An example\<close>

text \<open>User 1 with 5,000 chips and table 1000, on a server that loses one connection: the call \<open>bad\<close> takes effect, but its answer is lost.\<close>

definition sqlDb :: Database where
  "sqlDb = \<lparr>db_users = [(1, \<lparr>row_username = ''alice'', row_password_hash = ''#'', row_disabled = False\<rparr>)], db_sessions = [], db_wallets = [(1, \<lparr>balance = 5000, wallet_version = 0\<rparr>)],
     db_tables = [(1000, \<lparr>row_name = ''t'', row_node = ''b'', row_status = table_waiting, row_max_players = 6, row_small_blind = 10,
       row_big_blind = 20, row_min_buy_in = 1000, row_max_buy_in = 4000, row_created_by = 1\<rparr>)],
     db_seats = [], db_hands = [], db_hand_players = [], db_actions = [], db_ledger = []\<rparr>"

definition sqlServer :: "nat \<Rightarrow> Database \<Rightarrow> MySql" where
  "sqlServer bad d = \<lparr>committed_db = d, transaction = None, link_up = False, server_calls = 0,
     faults = (\<lambda>n. if n = bad then Lost True else Works), others = (\<lambda>_ d. d), collate = (\<lambda>s. s), char_length = length, error_text = (\<lambda>_. []), new_ids = (\<lambda>n. of_nat n + 2), unhex = Some\<rparr>"

end
