(* ===== verification/Mysql_Rules.thy ===== *)
theory Mysql_Rules
  imports Mysql_Game_Store
begin

text \<open>
  What the MySQL store keeps, whatever fails. \<open>idle c J m\<close> describes a connection outside a transaction to a server with the
  collation \<open>c\<close> whose committed database has \<open>J\<close>, a property that the other connections keep; \<open>inside c J P m\<close> one whose transaction,
  unless it is lost, has reached a database with \<open>P\<close>. The rules \<open>sql_rules\<close> follow the calls of an operation forwards; what they leave
  are conditions on the statements of a transaction at its \<open>COMMIT\<close>.
\<close>

section \<open>Following the calls\<close>

named_theorems sql_rules "rules that follow the calls of an operation"
named_theorems sql_splits "rules for the branches of an operation"

type_synonym surroundings = "(string \<Rightarrow> string) \<times> (nat \<Rightarrow> Database \<Rightarrow> Database) \<times> (string \<Rightarrow> string option)"

definition stable :: "surroundings \<Rightarrow> (Database \<Rightarrow> bool) \<Rightarrow> bool" where
  "stable c J \<longleftrightarrow> (\<forall>n d. J d \<longrightarrow> J (fst (snd c) n d))"

definition idle :: "surroundings \<Rightarrow> (Database \<Rightarrow> bool) \<Rightarrow> MySql \<Rightarrow> bool" where
  "idle c J m \<longleftrightarrow> (collate m, others m, unhex m) = c \<and> stable c J \<and> J (committed_db m) \<and> transaction m = None"

definition inside :: "surroundings \<Rightarrow> (Database \<Rightarrow> bool) \<Rightarrow> (Database \<Rightarrow> bool) \<Rightarrow> MySql \<Rightarrow> bool" where
  "inside c J P m \<longleftrightarrow> (collate m, others m, unhex m) = c \<and> stable c J \<and> J (committed_db m)
     \<and> (transaction m = None \<longrightarrow> \<not> link_up m) \<and> (\<forall>d. transaction m = Some d \<longrightarrow> P d)"

definition leads :: "'a \<times> MySql \<Rightarrow> ('a \<Rightarrow> MySql \<Rightarrow> bool) \<Rightarrow> bool" where
  "leads x Q \<longleftrightarrow> (case x of (r, m) \<Rightarrow> Q r m)"

lemma inside_mono: "inside c J P m \<Longrightarrow> (\<And>d. P d \<Longrightarrow> P' d) \<Longrightarrow> inside c J P' m"
  by (auto simp: inside_def)

lemma post_Pair [sql_splits]: "Q r m \<Longrightarrow> leads (r, m) Q"
  by (simp add: leads_def)

lemma post_if [sql_splits]: "(A \<Longrightarrow> leads x Q) \<Longrightarrow> (\<not> A \<Longrightarrow> leads y Q) \<Longrightarrow> leads (if A then x else y) Q"
  by simp

lemma post_sum [sql_splits]: "leads (f a) Q \<Longrightarrow> leads (case Inl a of Inl a \<Rightarrow> f a | Inr b \<Rightarrow> g b) Q"
    "leads (g b) Q \<Longrightarrow> leads (case Inr b of Inl a \<Rightarrow> f a | Inr b \<Rightarrow> g b) Q"
  by simp_all

lemma post_result: "(\<And>e. leads (f e) Q) \<Longrightarrow> (\<And>n. leads (g n) Q) \<Longrightarrow> leads (case x of Inl e \<Rightarrow> f e | Inr n \<Rightarrow> g n) Q"
  by (cases x) auto

lemma post_bool [sql_splits]: "leads x Q \<Longrightarrow> leads (case True of True \<Rightarrow> x | False \<Rightarrow> y) Q"
    "leads y Q \<Longrightarrow> leads (case False of True \<Rightarrow> x | False \<Rightarrow> y) Q"
  by simp_all

lemma post_known [sql_splits]: "leads y Q \<Longrightarrow> leads (case None of None \<Rightarrow> y | Some a \<Rightarrow> f a) Q"
    "leads (f b) Q \<Longrightarrow> leads (case Some b of None \<Rightarrow> y | Some a \<Rightarrow> f a) Q"
  by simp_all

lemma post_option [sql_splits]:
  "(x = None \<Longrightarrow> leads y Q) \<Longrightarrow> (\<And>a. x = Some a \<Longrightarrow> leads (f a) Q) \<Longrightarrow> leads (case x of None \<Rightarrow> y | Some a \<Rightarrow> f a) Q"
  by (cases x) auto

lemma post_pair [sql_splits]: "leads (f a b) Q \<Longrightarrow> leads (case (a, b) of (a, b) \<Rightarrow> f a b) Q"
    "(\<And>a b. x = (a, b) \<Longrightarrow> leads (f a b) Q) \<Longrightarrow> leads (case x of (a, b) \<Rightarrow> f a b) Q"
  by (auto split: prod.splits)

lemma post_let [sql_splits]: "(\<And>y. y = x \<Longrightarrow> leads (f y) Q) \<Longrightarrow> leads (let y = x in f y) Q"
  by simp

lemmas call_defs = serverCall_def prepare_def execute_def fetch_def autocommit_def mysqlCommit_def mysqlRollback_def
  visible_def putVisible_def

lemma prepare_idle [sql_rules]:
  "idle c J m \<Longrightarrow> (\<And>m1. idle c J m1 \<Longrightarrow> leads (f False m1) Q) \<Longrightarrow> (\<And>m1. idle c J m1 \<Longrightarrow> leads (f True m1) Q) \<Longrightarrow> leads (case_prod f (prepare m)) Q"
  by (auto simp: idle_def stable_def call_defs Let_def split: Fault.splits)

lemma prepare_inside [sql_rules]:
  "inside c J P m \<Longrightarrow> (\<And>m1. inside c J P m1 \<Longrightarrow> leads (f False m1) Q) \<Longrightarrow> (\<And>m1. inside c J P m1 \<Longrightarrow> leads (f True m1) Q) \<Longrightarrow> leads (case_prod f (prepare m)) Q"
  by (auto simp: inside_def stable_def call_defs Let_def split: Fault.splits)

lemma prepareAll_inside [sql_rules]:
  assumes "inside c J P m" "\<And>m1. inside c J P m1 \<Longrightarrow> leads (f False m1) Q" "\<And>m1. inside c J P m1 \<Longrightarrow> leads (f True m1) Q"
  shows "leads (case_prod f (prepareAll n m)) Q"
  using assms
proof (induction n arbitrary: m f)
  case (Suc n)
  have "leads (case prepare m of (p, m1) \<Rightarrow> case prepareAll n m1 of (q, m2) \<Rightarrow> f (p \<and> q) m2) Q"
    by (rule prepare_inside [OF Suc.prems(1)]; rule Suc.IH; (assumption | simp add: Suc.prems))
  then show ?case by (simp add: case_prod_beta)
qed simp

lemma execute_inside_result:
  assumes "inside c J P m"
  shows "case execute stmt m of (Inl e, m1) \<Rightarrow> inside c J (\<lambda>_. True) m1
    | (Inr n, m1) \<Rightarrow> inside c J (\<lambda>d. \<exists>d0. P d0 \<and> stmt d0 = Inr (n, d)) m1"
  using assms by (auto simp: inside_def stable_def call_defs Let_def split: Fault.splits option.splits sum.splits)

lemma execute_idle_result:
  assumes "idle c J m" "\<And>d n d'. J d \<Longrightarrow> stmt d = Inr (n, d') \<Longrightarrow> J d'"
  shows "idle c J (snd (execute stmt m))"
  using assms by (fastforce simp: idle_def stable_def call_defs Let_def split: Fault.splits option.splits sum.splits)

lemma execute_inside [sql_rules]:
  assumes "inside c J P m" "\<And>e m1. inside c J (\<lambda>_. True) m1 \<Longrightarrow> leads (f (Inl e) m1) Q"
    "\<And>n m1. collate m = fst c \<Longrightarrow> inside c J (\<lambda>d. \<exists>d0. P d0 \<and> stmt d0 = Inr (n, d)) m1 \<Longrightarrow> leads (f (Inr n) m1) Q"
  shows "leads (case_prod f (execute stmt m)) Q"
proof -
  have "collate m = fst c" using assms(1) by (auto simp: inside_def)
  then show ?thesis using execute_inside_result [OF assms(1), of stmt] assms(2,3) by (auto split: prod.splits sum.splits)
qed

lemma execute_idle [sql_rules]:
  assumes "idle c J m" "\<And>d n d'. unhex m = snd (snd c) \<Longrightarrow> J d \<Longrightarrow> stmt d = Inr (n, d') \<Longrightarrow> J d'" "\<And>x m1. idle c J m1 \<Longrightarrow> leads (f x m1) Q"
  shows "leads (case_prod f (execute stmt m)) Q"
proof -
  have c: "unhex m = snd (snd c)" using assms(1) by (auto simp: idle_def)
  show ?thesis using execute_idle_result [OF assms(1), of stmt] assms(2) [OF c] assms(3) by (auto split: prod.splits)
qed

lemma statement_cases: "case_prod f (statement stmt m) = (case prepare m of (False, m1) \<Rightarrow> f (Inl 0) m1 | (True, m1) \<Rightarrow> case_prod f (execute stmt m1))"
  by (simp add: statement_def split: prod.splits bool.splits)

lemma statement_inside [sql_rules]:
  assumes "inside c J P m" "\<And>e m1. inside c J (\<lambda>_. True) m1 \<Longrightarrow> leads (f (Inl e) m1) Q"
    "\<And>n m1. collate m = fst c \<Longrightarrow> inside c J (\<lambda>d. \<exists>d0. P d0 \<and> stmt d0 = Inr (n, d)) m1 \<Longrightarrow> leads (f (Inr n) m1) Q"
  shows "leads (case_prod f (statement stmt m)) Q"
proof -
  have c: "collate m = fst c" using assms(1) by (auto simp: inside_def)
  show ?thesis unfolding statement_cases
    by (rule prepare_inside [OF assms(1)]; simp only: bool.case; (rule assms(2); simp add: inside_def | erule execute_inside; (erule assms | rule assms(3) [OF c]; assumption)))
qed

lemma statement_idle [sql_rules]:
  assumes "idle c J m" "\<And>d n d'. unhex m = snd (snd c) \<Longrightarrow> J d \<Longrightarrow> stmt d = Inr (n, d') \<Longrightarrow> J d'" "\<And>x m1. idle c J m1 \<Longrightarrow> leads (f x m1) Q"
  shows "leads (case_prod f (statement stmt m)) Q"
proof -
  have c: "unhex m = snd (snd c)" using assms(1) by (auto simp: idle_def)
  show ?thesis unfolding statement_cases
    by (rule prepare_idle [OF assms(1)]; simp only: bool.case; (erule assms | erule execute_idle; (rule assms(2) [OF c]; assumption | erule assms)))
qed

lemma fetch_inside [sql_rules]:
  assumes "inside c J P m" "\<And>e m1. inside c J P m1 \<Longrightarrow> leads (f (Inl e) m1) Q"
    "\<And>x d m1. P d \<Longrightarrow> q d = x \<Longrightarrow> inside c J (\<lambda>d. P d \<and> q d = x) m1 \<Longrightarrow> leads (f (Inr x) m1) Q"
  shows "leads (case_prod f (fetch q m)) Q"
  using assms by (auto simp: inside_def stable_def call_defs Let_def split: Fault.splits option.splits)

lemma fetch_idle [sql_rules]:
  assumes "idle c J m" "\<And>e m1. idle c J m1 \<Longrightarrow> leads (f (Inl e) m1) Q" "\<And>d m1. unhex m = snd (snd c) \<Longrightarrow> J d \<Longrightarrow> idle c J m1 \<Longrightarrow> leads (f (Inr (q d)) m1) Q"
  shows "leads (case_prod f (fetch q m)) Q"
  using assms by (auto simp: idle_def stable_def call_defs Let_def split: Fault.splits)

lemma querySigned_cases: "case_prod f (querySigned q m) =
    (case prepare m of (False, m1) \<Rightarrow> f None m1 | (True, m1) \<Rightarrow> case fetch q m1 of (Inl e, m2) \<Rightarrow> f None m2 | (Inr x, m2) \<Rightarrow> f x m2)"
  by (simp add: querySigned_def split: prod.splits bool.splits sum.splits)

lemma querySigned_inside [sql_rules]:
  assumes "inside c J P m" "\<And>m1. inside c J P m1 \<Longrightarrow> leads (f None m1) Q"
    "\<And>x d m1. P d \<Longrightarrow> q d = Some x \<Longrightarrow> inside c J (\<lambda>d. P d \<and> q d = Some x) m1 \<Longrightarrow> leads (f (Some x) m1) Q"
  shows "leads (case_prod f (querySigned q m)) Q"
proof -
  have "leads (f x m1) Q" if "P d" "q d = x" "inside c J (\<lambda>d. P d \<and> q d = x) m1" for x d m1
  proof (cases x)
    case None
    show ?thesis unfolding None by (rule assms(2), rule inside_mono [OF that(3)]) simp
  next
    case (Some y)
    show ?thesis using assms(3) that unfolding Some by blast
  qed
  note found = this
  show ?thesis unfolding querySigned_cases
    by (rule prepare_inside [OF assms(1)]; simp only: bool.case; (erule assms | erule fetch_inside; simp only: sum.case; (erule assms | rule found; assumption)))
qed

lemma querySigned_idle [sql_rules]:
  assumes "idle c J m" "\<And>m1. idle c J m1 \<Longrightarrow> leads (f None m1) Q" "\<And>d x m1. J d \<Longrightarrow> q d = Some x \<Longrightarrow> idle c J m1 \<Longrightarrow> leads (f (Some x) m1) Q"
  shows "leads (case_prod f (querySigned q m)) Q"
proof -
  have "leads (f (q d) m1) Q" if "J d" "idle c J m1" for d m1
    using that assms(2,3) by (cases "q d") auto
  note found = this
  show ?thesis unfolding querySigned_cases
    by (rule prepare_idle [OF assms(1)]; simp only: bool.case; (erule assms | erule fetch_idle; simp only: sum.case; (erule assms | rule found; assumption)))
qed

lemma queryLedger_cases: "case_prod f (queryLedger u key m) =
    (case prepare m of (False, m1) \<Rightarrow> f None m1 | (True, m1) \<Rightarrow> case fetch (ledgerRow (collate m1) u key) m1 of (Inl e, m2) \<Rightarrow> f None m2
      | (Inr x, m2) \<Rightarrow> f (map_option (\<lambda>r. \<lparr>replay_reason = ledger_reason r, replay_reference = reference_id r,
            replay_delta = delta_amount r, replay_balance = balance_after r\<rparr>) x) m2)"
  by (simp add: queryLedger_def split: prod.splits bool.splits sum.splits)

definition replayOf :: "LedgerRow \<Rightarrow> LedgerReplay" where
  "replayOf r = \<lparr>replay_reason = ledger_reason r, replay_reference = reference_id r, replay_delta = delta_amount r, replay_balance = balance_after r\<rparr>"

lemma queryLedger_idle [sql_rules]:
  assumes "idle c J m" "\<And>m1. idle c J m1 \<Longrightarrow> leads (f None m1) Q"
    "\<And>d r m1. J d \<Longrightarrow> ledgerRow (fst c) u key d = Some r \<Longrightarrow> idle c J m1 \<Longrightarrow> leads (f (Some (replayOf r)) m1) Q"
  shows "leads (case_prod f (queryLedger u key m)) Q"
proof -
  have found: "leads (f (map_option replayOf (ledgerRow (collate m1) u key d)) m2) Q" if "collate m1 = fst c" "J d" "idle c J m2" for m1 d m2
    using that assms(2,3) by (cases "ledgerRow (collate m1) u key d") auto
  show ?thesis unfolding queryLedger_cases
  proof (rule prepare_idle [OF assms(1)]; simp only: bool.case)
    show "idle c J m1 \<Longrightarrow> leads (f None m1) Q" for m1 by (rule assms(2))
    fix m1
    assume "idle c J m1"
    then have "collate m1 = fst c" by (auto simp: idle_def)
    note row = found [OF this, unfolded replayOf_def]
    show "leads (case fetch (ledgerRow (collate m1) u key) m1 of (Inl e, m2) \<Rightarrow> f None m2
      | (Inr x, m2) \<Rightarrow> f (map_option (\<lambda>r. \<lparr>replay_reason = ledger_reason r, replay_reference = reference_id r,
            replay_delta = delta_amount r, replay_balance = balance_after r\<rparr>) x) m2) Q"
      by (rule fetch_idle [OF \<open>idle c J m1\<close>]; simp only: sum.case) (erule assms(2), erule (1) row)
  qed
qed

lemma beginTransaction_idle [sql_rules]:
  assumes "idle c J m" "\<And>m1. idle c J m1 \<Longrightarrow> leads (f False m1) Q" "\<And>m1. inside c J J m1 \<Longrightarrow> leads (f True m1) Q"
  shows "leads (case_prod f (beginTransaction m)) Q"
  using assms by (auto simp: beginTransaction_def idle_def inside_def stable_def call_defs Let_def split: Fault.splits)

lemma autocommit_inside: "inside c J J m \<Longrightarrow> idle c J (snd (autocommit True m))"
  by (auto simp: idle_def inside_def stable_def call_defs Let_def split: Fault.splits option.splits)

lemma autocommit_idle: "idle c J m \<Longrightarrow> idle c J (snd (autocommit True m))"
  by (auto simp: idle_def stable_def call_defs Let_def split: Fault.splits option.splits)

lemma mysqlRollback_inside: "inside c J P m \<Longrightarrow> inside c J J (snd (mysqlRollback m))"
  by (auto simp: inside_def stable_def call_defs Let_def split: Fault.splits option.splits)

lemma mysqlRollback_idle: "idle c J m \<Longrightarrow> idle c J (snd (mysqlRollback m))"
  by (auto simp: idle_def stable_def call_defs Let_def split: Fault.splits option.splits)

lemma rollback_idle: "inside c J P m \<Longrightarrow> idle c J (rollback m)"
  unfolding rollback_def by (intro autocommit_inside mysqlRollback_inside)

lemma rollback_again: "idle c J m \<Longrightarrow> idle c J (rollback m)"
  unfolding rollback_def by (intro autocommit_idle mysqlRollback_idle)

lemma queryLedger_rollback [sql_rules]:
  assumes "inside c J P m" "\<And>m1. idle c J m1 \<Longrightarrow> leads (f None m1) Q"
    "\<And>d r m1. J d \<Longrightarrow> ledgerRow (fst c) u key d = Some r \<Longrightarrow> idle c J m1 \<Longrightarrow> leads (f (Some (replayOf r)) m1) Q"
  shows "leads (case_prod f (queryLedger u key (rollback m))) Q"
  using queryLedger_idle [OF rollback_idle [OF assms(1)], of f Q u key] assms(2,3) by blast

lemma undo_inside [sql_rules]: "inside c J P m \<Longrightarrow> (\<And>m1. idle c J m1 \<Longrightarrow> Q x m1) \<Longrightarrow> leads (undo x m) Q"
  by (simp add: undo_def leads_def rollback_idle)

lemma undo_idle [sql_rules]: "idle c J m \<Longrightarrow> (\<And>m1. idle c J m1 \<Longrightarrow> Q x m1) \<Longrightarrow> leads (undo x m) Q"
  by (simp add: undo_def leads_def rollback_again)

lemma mysqlCommit_result:
  assumes "inside c J P m" "\<And>d. P d \<Longrightarrow> J' d" "stable c J'"
  shows "case mysqlCommit m of (True, m1) \<Rightarrow> inside c J' J' m1 | (False, m1) \<Rightarrow> idle c (\<lambda>d. J d \<or> J' d) m1"
  using assms by (auto simp: idle_def inside_def stable_def call_defs Let_def split: Fault.splits option.splits bool.splits)

lemma commit_inside:
  assumes "inside c J P m" "\<And>d. P d \<Longrightarrow> J' d" "stable c J'"
    "\<And>m1. idle c (\<lambda>d. J d \<or> J' d) m1 \<Longrightarrow> leads (f False m1) Q" "\<And>m1. idle c J' m1 \<Longrightarrow> leads (f True m1) Q"
  shows "leads (case_prod f (commit m)) Q"
  using mysqlCommit_result [OF assms(1-3)] assms(4,5) autocommit_inside autocommit_idle
  by (auto simp: commit_def split: prod.splits bool.splits)

lemma commit_keeps [sql_rules]:
  assumes "inside c J P m" "\<And>d. P d \<Longrightarrow> J d" "\<And>m1. idle c J m1 \<Longrightarrow> leads (f False m1) Q" "\<And>m1. idle c J m1 \<Longrightarrow> leads (f True m1) Q"
  shows "leads (case_prod f (commit m)) Q"
  by (rule commit_inside [OF assms(1), of J]) (use assms in \<open>auto simp: inside_def\<close>)

text \<open>A lease begins outside a transaction and gives back a connection without one.\<close>

lemma release_inside: "inside c J P m \<Longrightarrow> idle c J (release m)"
  using mysqlRollback_inside [of c J P m] autocommit_inside [of c J "snd (mysqlRollback m)"]
  by (auto simp: release_def Let_def idle_def inside_def split: prod.splits)

lemma release_idle: "idle c J m \<Longrightarrow> idle c J (release m)"
  using mysqlRollback_idle [of c J m] autocommit_idle [of c J "snd (mysqlRollback m)"]
  by (auto simp: release_def Let_def idle_def split: prod.splits)

lemma acquire_idle: "idle c J m \<Longrightarrow> idle c J (snd (acquire m))"
  by (auto simp: acquire_def idle_def stable_def call_defs Let_def split: Fault.splits)

lemma withLease_post:
  assumes "idle c J m" "\<And>m1. idle c J m1 \<Longrightarrow> Q refusal m1" "\<And>m1. idle c J m1 \<Longrightarrow> leads (f m1) Q" "\<And>x m. Q x m \<Longrightarrow> Q x (release m)"
  shows "leads (withLease refusal f m) Q"
proof (cases "acquire m")
  case (Pair got m1)
  then have idle: "idle c J m1" using acquire_idle [OF assms(1)] by simp
  then show ?thesis using Pair assms(2) [OF idle] assms(3) [OF idle] assms(4)
    by (cases got; cases "f m1") (simp_all add: withLease_def leads_def)
qed

lemma withLease_keeps:
  assumes "idle c J m" "\<And>m1. idle c J m1 \<Longrightarrow> leads (f m1) (\<lambda>x. idle c J)"
  shows "leads (withLease refusal f m) (\<lambda>x. idle c J)"
  by (rule withLease_post [OF assms(1)]; (assumption | erule assms | erule release_idle))

end
