(* ===== verification/Mysql_Correct.thy ===== *)
theory Mysql_Correct
  imports Mysql_Rules Game_Store_Correct
begin

text \<open>
  The MySQL store keeps the money, whatever fails: \<open>db_ok\<close> is the invariant of the database, \<open>sqlMoney\<close> the sum of all wallets and
  stacks. A lemma for each statement says what it does to them, the rules of \<open>Mysql_Rules\<close> carry this through the operations, and the
  interpretation \<open>mysql_bank\<close> makes the store an instance of \<open>bank_store\<close>.
\<close>

section \<open>The money of the database\<close>

definition wallet_rows_ok :: "(UserId, WalletRow) assoc_map \<Rightarrow> bool" where
  "wallet_rows_ok ws \<longleftrightarrow> assoc ws \<and> (\<forall>u w. map_of ws u = Some w \<longrightarrow> 0 \<le> balance w)"

definition seat_rows_ok :: "UserId set \<Rightarrow> (u64 \<times> UserId, SeatRow) assoc_map \<Rightarrow> bool" where
  "seat_rows_ok W ss \<longleftrightarrow> assoc ss \<and> (\<forall>k u r. map_of ss (k, u) = Some r \<longrightarrow> 0 \<le> row_stack r \<and> hand_start_stack r = row_stack r \<and> u \<in> W)"

definition db_ok :: "Database \<Rightarrow> bool" where
  "db_ok d \<longleftrightarrow> wallet_rows_ok (db_wallets d) \<and> seat_rows_ok (dom (map_of (db_wallets d))) (db_seats d)"

definition sqlMoney :: "Database \<Rightarrow> int" where
  "sqlMoney d = sumOver balance (db_wallets d) + sumOver row_stack (db_seats d)"

lemma db_ok_same:
  "db_wallets d' = db_wallets d \<Longrightarrow> db_seats d' = db_seats d \<Longrightarrow> db_ok d' = db_ok d"
  "db_wallets d' = db_wallets d \<Longrightarrow> db_seats d' = db_seats d \<Longrightarrow> sqlMoney d' = sqlMoney d"
  by (simp_all add: db_ok_def sqlMoney_def)

lemma updateRow_Inr:
  assumes "updateRow k condition change constraint rows = Inr (n, rows')"
  shows "n = 0 \<and> rows' = rows \<or>
    (\<exists>r. map_of rows k = Some r \<and> condition r \<and> constraint (change r) \<and> rows' = put k (change r) rows \<and> n = (if change r = r then 0 else 1))"
  using assms by (auto simp: updateRow_def split: option.splits if_splits)

lemma map_sum_Inr: "map_sum id g x = Inr y \<longleftrightarrow> (\<exists>z. x = Inr z \<and> y = g z)"
  by (cases x) auto

lemma wallet_rows_ok_put: "wallet_rows_ok ws \<Longrightarrow> 0 \<le> balance w \<Longrightarrow> wallet_rows_ok (put u w ws)"
  by (simp add: wallet_rows_ok_def map_simps)

lemma seat_rows_ok_put: "seat_rows_ok W ss \<Longrightarrow> 0 \<le> row_stack r \<Longrightarrow> hand_start_stack r = row_stack r \<Longrightarrow> u \<in> W \<Longrightarrow> seat_rows_ok W (put (k, u) r ss)"
  by (simp add: seat_rows_ok_def map_simps)

lemma seat_rows_ok_erase: "seat_rows_ok W ss \<Longrightarrow> seat_rows_ok W (erase x ss)"
  by (simp add: seat_rows_ok_def map_simps fun_upd_apply split: if_splits)

lemma db_ok_sums:
  "db_ok d \<Longrightarrow> sumOver f (put u w (db_wallets d)) = sumOver f (db_wallets d) + f w - (case map_of (db_wallets d) u of None \<Rightarrow> 0 | Some v \<Rightarrow> f v)"
  "db_ok d \<Longrightarrow> sumOver g (put x r (db_seats d)) = sumOver g (db_seats d) + g r - (case map_of (db_seats d) x of None \<Rightarrow> 0 | Some v \<Rightarrow> g v)"
  "db_ok d \<Longrightarrow> sumOver g (erase x (db_seats d)) = sumOver g (db_seats d) - (case map_of (db_seats d) x of None \<Rightarrow> 0 | Some v \<Rightarrow> g v)"
  by (simp_all add: db_ok_def wallet_rows_ok_def seat_rows_ok_def sumOver_put sumOver_erase)

lemma changeWallet_ok:
  assumes "db_ok d" "changeWallet u condition delta d = Inr (n, d')"
  shows "db_ok d' \<and> sqlMoney d' = sqlMoney d + int n * delta \<and> db_seats d' = db_seats d \<and>
    (\<forall>b. walletOf u d = Some b \<longrightarrow> (\<forall>w. balance w = b \<longrightarrow> condition w) \<longrightarrow> n = 1)"
proof -
  let ?change = "\<lambda>w. w\<lparr>balance := balance w + delta, wallet_version := wallet_version w + 1\<rparr>"
  obtain ws where ws: "updateRow u condition ?change walletFits (db_wallets d) = Inr (n, ws)" and d': "d' = d\<lparr>db_wallets := ws\<rparr>"
    using assms(2) by (auto simp: changeWallet_def map_sum_Inr)
  have new: "?change w \<noteq> w" for w :: WalletRow
  proof
    assume "?change w = w"
    then have "wallet_version (?change w) = wallet_version w" by (rule arg_cong)
    then show False by simp
  qed
  from updateRow_Inr [OF ws] have "db_ok d' \<and> sqlMoney d' = sqlMoney d + int n * delta"
  proof (elim disjE exE conjE)
    fix r
    assume r: "map_of (db_wallets d) u = Some r" "walletFits (?change r)" "ws = put u (?change r) (db_wallets d)"
      "n = (if ?change r = r then 0 else 1)"
    then have "insert u (dom (map_of (db_wallets d))) = dom (map_of (db_wallets d))" by auto
    then have "db_ok d'" using r assms(1) d' by (simp add: db_ok_def wallet_rows_ok_put walletFits_def map_simps)
    moreover have "sqlMoney d' = sqlMoney d + int n * delta" using r(1,3,4) d' new [of r]
      by (simp add: sqlMoney_def db_ok_sums [OF assms(1)])
    ultimately show ?thesis by simp
  qed (simp add: assms(1) d')
  moreover have "\<forall>b. walletOf u d = Some b \<longrightarrow> (\<forall>w. balance w = b \<longrightarrow> condition w) \<longrightarrow> n = 1"
    using ws new by (auto simp: walletOf_def updateRow_def split: option.splits if_splits)
  ultimately show ?thesis using d' by simp
qed

text \<open>The statements that touch neither wallets nor seats.\<close>

lemma other_statements:
  "insertTable chars x d = Inr (n, d') \<Longrightarrow> db_wallets d' = db_wallets d \<and> db_seats d' = db_seats d"
  "insertLedger c u key row d = Inr (n, d') \<Longrightarrow> db_wallets d' = db_wallets d \<and> db_seats d' = db_seats d"
  "insertHand hand d = Inr (n, d') \<Longrightarrow> db_wallets d' = db_wallets d \<and> db_seats d' = db_seats d"
  "insertHandPlayer h p d = Inr (n, d') \<Longrightarrow> db_wallets d' = db_wallets d \<and> db_seats d' = db_seats d"
  "changeTable k from to d = Inr (n, d') \<Longrightarrow> db_wallets d' = db_wallets d \<and> db_seats d' = db_seats d"
  "insertAction a d = Inr (n, d') \<Longrightarrow> db_wallets d' = db_wallets d \<and> db_seats d' = db_seats d"
  "settleHandRow y d = Inr (n, d') \<Longrightarrow> db_wallets d' = db_wallets d \<and> db_seats d' = db_seats d"
  "settlePlayerRow h q d = Inr (n, d') \<Longrightarrow> db_wallets d' = db_wallets d \<and> db_seats d' = db_seats d"
  "abortHands k d = Inr (n, d') \<Longrightarrow> db_wallets d' = db_wallets d \<and> db_seats d' = db_seats d"
  by (auto simp: insertTable_def insertLedger_def insertHand_def insertHandPlayer_def changeTable_def insertAction_def settleHandRow_def
      settlePlayerRow_def abortHands_def Let_def map_sum_Inr split: if_splits option.splits)

lemma insertRefunds_frame:
  "insertRefunds c k us d = Inr (n, d') \<Longrightarrow> db_wallets d' = db_wallets d \<and> db_seats d' = db_seats d"
proof (induction us arbitrary: n d)
  case (Cons x us)
  obtain u chips where "x = (u, chips)" by (cases x)
  with Cons.prems show ?case using Cons.IH other_statements(2)
    by (fastforce split: option.splits sum.splits prod.splits)
qed simp

lemma insertSeat_ok:
  assumes "db_ok d" "insertSeat k u s amt d = Inr (n, d')" "walletOf u d = Some b"
  shows "db_ok d' \<and> sqlMoney d' = sqlMoney d + amt \<and> walletOf u d' = Some b"
proof -
  have d': "d' = d\<lparr>db_seats := put (k, u) \<lparr>row_seat_no = s, row_stack = amt, hand_start_stack = amt, seat_version = 0\<rparr> (db_seats d)\<rparr>"
    and new: "map_of (db_seats d) (k, u) = None" "0 \<le> amt"
    using assms(2) by (auto simp: insertSeat_def split: if_splits)
  have "u \<in> dom (map_of (db_wallets d))" using assms(3) by (auto simp: walletOf_def)
  then have "db_ok d'" using assms(1) new unfolding d' by (simp add: db_ok_def seat_rows_ok_put)
  then show ?thesis using assms(1,3) new d' by (simp add: sqlMoney_def db_ok_sums walletOf_def)
qed

lemma deleteSeat_ok:
  assumes "db_ok d" "deleteSeat k u d = Inr (n, d')" "stackOf k u d = Some b"
  shows "db_ok d' \<and> sqlMoney d' = sqlMoney d - b"
proof -
  have d': "d' = d\<lparr>db_seats := erase (k, u) (db_seats d)\<rparr>" using assms(2) by (simp add: deleteSeat_def)
  then have "db_ok d'" using assms(1) by (simp add: db_ok_def seat_rows_ok_erase)
  then show ?thesis using assms(1,3) d' by (auto simp: sqlMoney_def db_ok_sums stackOf_def)
qed

lemma changeSeat_ok:
  assumes "db_ok d" "changeSeat k u condition change d = Inr (n, d')" "n \<noteq> 0"
    "\<And>r. condition r \<Longrightarrow> row_stack r = hand_start_stack r \<Longrightarrow>
      hand_start_stack (change r) = row_stack (change r) \<and> row_stack (change r) = new \<and> row_stack r = old"
  shows "db_ok d' \<and> sqlMoney d' = sqlMoney d + new - old"
proof -
  let ?change = "\<lambda>r. (change r)\<lparr>seat_version := seat_version r + 1\<rparr>"
  obtain rows where row: "updateRow (k, u) condition ?change seatFits (db_seats d) = Inr (n, rows)" and d': "d' = d\<lparr>db_seats := rows\<rparr>"
    using assms(2) by (auto simp: changeSeat_def map_sum_Inr)
  from updateRow_Inr [OF row] assms(3) obtain r where r: "map_of (db_seats d) (k, u) = Some r" "condition r" "seatFits (?change r)"
      "rows = put (k, u) (?change r) (db_seats d)" by (auto split: if_splits)
  have u: "u \<in> dom (map_of (db_wallets d))" "row_stack r = hand_start_stack r"
    using assms(1) r(1) unfolding db_ok_def seat_rows_ok_def by simp_all
  then have change: "hand_start_stack (change r) = row_stack (change r)" "row_stack (change r) = new" "row_stack r = old"
    using assms(4) [OF r(2)] by simp_all
  have "db_ok d'" using assms(1) r(3) u(1) change unfolding d' r(4) db_ok_def by (simp add: seat_rows_ok_put seatFits_def)
  then show ?thesis using r(1) change unfolding d' r(4) by (simp add: sqlMoney_def db_ok_sums [OF assms(1)])
qed

lemma sum_of_one: "distinct us \<Longrightarrow> sum_list (map (\<lambda>v. if v = u then x else 0) us) = (if u \<in> set us then x else (0::int))"
  by (induction us) auto

lemma sum_paid:
  "distinct us \<Longrightarrow> assoc ss \<Longrightarrow> fst ` set ss \<subseteq> set us \<Longrightarrow>
    sum_list (map (\<lambda>u. case map_of ss u of None \<Rightarrow> 0 | Some x \<Rightarrow> x) us) = sum_list (map snd ss)" for ss :: "('a \<times> int) list"
proof (induction ss)
  case (Cons y ss)
  obtain v x where y: "y = (v, x)" by (cases y)
  have "map_of ss v = None" using map_of_absent Cons.prems(2) y by metis
  then have "(case map_of (y # ss) u of None \<Rightarrow> 0 | Some x \<Rightarrow> x) = (if u = v then x else 0) + (case map_of ss u of None \<Rightarrow> 0 | Some x \<Rightarrow> x)" for u
    using y by simp
  then show ?case using Cons y by (simp add: sum_list_addf sum_of_one assoc_def)
qed simp

definition seatedMoney :: "u64 \<Rightarrow> Database \<Rightarrow> int" where
  "seatedMoney k d = sum_list (map snd (seatedUsers k d))"

lemma seatedUsers_fst: "fst ` set (seatedUsers k d) = {u. (k, u) \<in> fst ` set (db_seats d)}"
  by (force simp: seatedUsers_def)

lemma seatedUsers_assoc:
  assumes "db_ok d"
  shows "assoc (seatedUsers k d)"
proof -
  have "assoc ss \<Longrightarrow> assoc (map (\<lambda>((k, u), r). (u, row_stack r)) (filter (\<lambda>((j, u), r). j = k) ss))" for ss :: "(u64 \<times> UserId, SeatRow) assoc_map"
    by (induction ss) (force simp: assoc_def)+
  then show ?thesis using assms by (simp add: seatedUsers_def db_ok_def seat_rows_ok_def)
qed

lemma deleteSeats_ok:
  assumes "db_ok d" "deleteSeats k d = Inr (n, d')"
  shows "db_ok d' \<and> sqlMoney d' = sqlMoney d - seatedMoney k d"
proof -
  let ?rest = "filter (\<lambda>((j, u), r). j \<noteq> k)"
  have d': "d' = d\<lparr>db_seats := ?rest (db_seats d)\<rparr>" using assms(2) by (simp add: deleteSeats_def)
  have "sumOver row_stack (?rest ss) = sumOver row_stack ss - sum_list (map snd (map (\<lambda>((k, u), r). (u, row_stack r)) (filter (\<lambda>((j, u), r). j = k) ss)))" for ss
    by (induction ss) auto
  then have "sqlMoney d' = sqlMoney d - seatedMoney k d" by (simp add: d' sqlMoney_def seatedMoney_def seatedUsers_def)
  moreover have "map_of (?rest ss) (j, u) = (if j = k then None else map_of ss (j, u))" for ss :: "(u64 \<times> UserId, SeatRow) assoc_map" and j u
    by (induction ss) auto
  moreover have "assoc ss \<Longrightarrow> assoc (?rest ss)" for ss :: "(u64 \<times> UserId, SeatRow) assoc_map"
    by (simp add: assoc_def distinct_map_filter)
  ultimately show ?thesis using assms(1) by (simp add: d' db_ok_def seat_rows_ok_def)
qed

text \<open>Paying every wallet what the map \<open>su\<close> has for its owner.\<close>

definition payAll :: "(UserId \<rightharpoonup> int) \<Rightarrow> UserId \<times> WalletRow \<Rightarrow> UserId \<times> WalletRow" where
  "payAll su = (\<lambda>(u, w). case su u of None \<Rightarrow> (u, w) | Some x \<Rightarrow> (u, w\<lparr>balance := balance w + x, wallet_version := wallet_version w + 1\<rparr>))"

lemma payAll_sum: "sumOver balance (map (payAll su) ws) = sumOver balance ws + sum_list (map (\<lambda>u. case su u of None \<Rightarrow> 0 | Some x \<Rightarrow> x) (map fst ws))"
  by (induction ws) (auto simp: payAll_def split: option.splits)

lemma payAll_keys: "map fst (map (payAll su) ws) = map fst ws"
  by (induction ws) (auto simp: payAll_def split: option.splits)

lemma payAll_wallets:
  assumes "wallet_rows_ok ws" "\<forall>(u, w) \<in> set (map (payAll su) ws). su u = None \<or> walletFits w"
  shows "wallet_rows_ok (map (payAll su) ws)"
proof -
  have asc: "assoc ws" "assoc (map (payAll su) ws)" using assms(1) payAll_keys [of su ws] by (simp_all only: wallet_rows_ok_def assoc_def)
  have "0 \<le> balance w" if new: "(u, w) \<in> set (map (payAll su) ws)" for u w
  proof (cases "su u")
    case None
    then have "(u, w) \<in> set ws" using new by (auto simp: payAll_def split: option.splits)
    then show ?thesis using assms(1) in_assoc [OF asc(1)] by (simp add: wallet_rows_ok_def)
  next
    case (Some x)
    then have "walletFits w" using bspec [OF assms(2) new] by simp
    then show ?thesis by (simp add: walletFits_def)
  qed
  then show ?thesis using asc(2) in_assoc [OF asc(2)] by (simp only: wallet_rows_ok_def) blast
qed

lemma refundWallets_ok:
  assumes "db_ok d" "refundWallets k d = Inr (n, d')"
  shows "db_ok d' \<and> sqlMoney d' = sqlMoney d + seatedMoney k d \<and> db_seats d' = db_seats d"
proof -
  let ?su = "seatedUsers k d" and ?ws = "db_wallets d"
  let ?new = "map (payAll (map_of ?su)) ?ws"
  have d': "d' = d\<lparr>db_wallets := ?new\<rparr>" and fits: "\<forall>(u, w) \<in> set ?new. map_of ?su u = None \<or> walletFits w"
    using assms(2) by (auto simp: refundWallets_def Let_def payAll_def split: if_splits)
  have "wallet_rows_ok ?ws" "assoc ?ws" using assms(1) by (simp_all add: db_ok_def wallet_rows_ok_def)
  note new = payAll_wallets [OF this(1) fits] this(2)
  have "dom (map_of ?new) = dom (map_of ?ws)" by (metis dom_map_of_conv_image_fst payAll_keys set_map)
  then have "db_ok d'" using assms(1) new(1) d' by (simp add: db_ok_def)
  moreover have "fst ` set ?su \<subseteq> set (map fst ?ws)"
  proof
    fix u
    assume "u \<in> fst ` set ?su"
    then obtain r where "((k, u), r) \<in> set (db_seats d)" by (auto simp: seatedUsers_fst)
    then have "u \<in> dom (map_of ?ws)" using assms(1) unfolding db_ok_def seat_rows_ok_def by (metis in_assoc)
    then show "u \<in> set (map fst ?ws)" by (simp add: dom_map_of_conv_image_fst)
  qed
  then have "sumOver balance ?new = sumOver balance ?ws + seatedMoney k d"
    using sum_paid [OF _ seatedUsers_assoc [OF assms(1)], of "map fst ?ws" k] new(2) by (simp add: payAll_sum seatedMoney_def assoc_def)
  ultimately show ?thesis using d' by (simp add: sqlMoney_def)
qed

section \<open>Operations\<close>

text \<open>A database that a list of statements reaches from another.\<close>

fun inOrder :: "statement list \<Rightarrow> Database \<Rightarrow> Database \<Rightarrow> bool" where
  "inOrder [] d d' \<longleftrightarrow> d' = d"
| "inOrder (stmt # stmts) d d' \<longleftrightarrow> (\<exists>n d1. stmt d = Inr (n, d1) \<and> inOrder stmts d1 d')"


definition funds :: "int \<Rightarrow> Database \<Rightarrow> bool" where
  "funds K d \<longleftrightarrow> db_ok d \<and> sqlMoney d = K"

lemma funds_same: "funds K d \<Longrightarrow> db_wallets d' = db_wallets d \<and> db_seats d' = db_seats d \<Longrightarrow> funds K d'"
  by (simp add: funds_def db_ok_same [of d' d])

lemma find_idle: "idle c J m \<Longrightarrow> leads (sqlFindTable k m) (\<lambda>x. idle c J)"
  unfolding sqlFindTable_def by (erule withLease_keeps) (erule sql_rules | rule sql_splits | assumption)+

lemma list_idle: "idle c J m \<Longrightarrow> leads (sqlListOpenTables limit m) (\<lambda>x. idle c J)"
  unfolding sqlListOpenTables_def
  by (rule post_if; (rule post_Pair, assumption | erule withLease_keeps)) (erule sql_rules | rule sql_splits | assumption)+

lemma count_idle: "idle c J m \<Longrightarrow> leads (sqlCountOpenTables node m) (\<lambda>x. idle c J)"
  unfolding sqlCountOpenTables_def
  by (rule post_if; (rule post_Pair, assumption | erule withLease_keeps)) (erule sql_rules | rule sql_splits | assumption)+

lemma create_idle: "idle c (funds K) m \<Longrightarrow> leads (sqlCreateTable x m) (\<lambda>x. idle c (funds K))"
  unfolding sqlCreateTable_def
  by (erule withLease_keeps, erule statement_idle, erule funds_same, erule other_statements)
    (simp add: leads_def split: sum.splits)

lemma isExactActionDuplicate_idle [sql_rules]:
  assumes "idle c J m" "\<And>same m1. idle c J m1 \<Longrightarrow> leads (f same m1) Q"
  shows "leads (case_prod f (isExactActionDuplicate a m)) Q"
proof -
  have "leads (isExactActionDuplicate a m) (\<lambda>x. idle c J)"
    unfolding isExactActionDuplicate_def by (insert assms(1)) (erule sql_rules | rule sql_splits | assumption)+
  then show ?thesis using assms(2) by (cases "isExactActionDuplicate a m") (simp add: leads_def)
qed

lemma append_idle: "idle c (funds K) m \<Longrightarrow> leads (sqlAppendAction a m) (\<lambda>x. idle c (funds K))"
  unfolding sqlAppendAction_def
  by (erule withLease_keeps)
    (erule sql_rules | rule sql_splits post_result | assumption | erule funds_same, erule other_statements)+

text \<open>The sums at the \<open>COMMIT\<close> of a buy-in and of a cash-out.\<close>

lemma buy_in_balanced:
  assumes "funds K d0" "walletOf u d0 = Some bal" "insertSeat k u s amt d0 = Inr (n, d1)"
    "changeWallet u condition (- amt) d1 = Inr (1, d2)" "insertLedger c u key row d2 = Inr (n', d3)"
  shows "funds K d3"
proof -
  have "db_ok d1 \<and> sqlMoney d1 = K + amt" using insertSeat_ok [OF _ assms(3,2)] assms(1) by (simp add: funds_def)
  then have "funds K d2" using changeWallet_ok [of d1, OF _ assms(4)] by (simp add: funds_def)
  then show ?thesis using other_statements(2) [OF assms(5)] by (rule funds_same)
qed

lemma cash_out_balanced:
  assumes "funds K d0" "stackOf k u d0 = Some x" "walletOf u d0 = Some bal" "changeWallet u (\<lambda>_. True) x d0 = Inr (n, d1)"
    "deleteSeat k u d1 = Inr (n', d2)" "insertLedger c u key row d2 = Inr (n'', d3)"
  shows "funds K d3"
proof -
  have "db_ok d1" "sqlMoney d1 = K + x" "stackOf k u d1 = Some x"
    using changeWallet_ok [of d0, OF _ assms(4)] assms(1-3) by (auto simp: funds_def stackOf_def)
  then have "funds K d2" using deleteSeat_ok [OF _ assms(5)] by (simp add: funds_def)
  then show ?thesis using other_statements(2) [OF assms(6)] by (rule funds_same)
qed

lemma storeBuyIn_idle:
  "inside c (funds K) (\<lambda>d. funds K d \<and> walletOf u d = Some bal) m \<Longrightarrow> leads (storeBuyIn k u s amt key bal m) (\<lambda>x. idle c (funds K))"
  unfolding storeBuyIn_def
  by (erule sql_rules | rule sql_splits | assumption | elim exE conjE, rule buy_in_balanced, simp_all)+

lemma transactBuyIn_idle: "inside c (funds K) (funds K) m \<Longrightarrow> leads (transactBuyIn k u s amt key m) (\<lambda>x. idle c (funds K))"
  unfolding transactBuyIn_def
  by (erule sql_rules | rule sql_splits | assumption | rule storeBuyIn_idle, erule inside_mono, simp)+

lemma buy_in_idle: "idle c (funds K) m \<Longrightarrow> leads (sqlReserveBuyIn k u s amt key m) (\<lambda>x. idle c (funds K))"
  unfolding sqlReserveBuyIn_def
  by (rule post_if; (rule post_Pair, assumption | erule withLease_keeps))
    (erule sql_rules | rule sql_splits | assumption | erule transactBuyIn_idle)+

lemma storeCashOut_idle:
  "inside c (funds K) (\<lambda>d. funds K d \<and> stackOf k u d = Some x \<and> walletOf u d = Some bal) m \<Longrightarrow>
    leads (storeCashOut k u key x bal m) (\<lambda>x. idle c (funds K))"
  unfolding storeCashOut_def Let_def
  by (erule sql_rules | rule sql_splits | assumption | elim exE conjE, rule cash_out_balanced, assumption+)+

lemma transactCashOut_idle: "inside c (funds K) (funds K) m \<Longrightarrow> leads (transactCashOut k u key m) (\<lambda>x. idle c (funds K))"
  unfolding transactCashOut_def
  by (erule sql_rules | rule sql_splits | assumption | simp only: option.case prod.case | rule storeCashOut_idle, erule inside_mono, simp)+

lemma cash_out_idle: "idle c (funds K) m \<Longrightarrow> leads (sqlCashOut k u key m) (\<lambda>x. idle c (funds K))"
  unfolding sqlCashOut_def
  by (rule post_if; (rule post_Pair, assumption | erule withLease_keeps))
    (erule sql_rules | rule sql_splits | assumption | erule transactCashOut_idle)+

lemma withTransaction_idle:
  "idle c J m \<Longrightarrow> (\<And>m1. inside c J J m1 \<Longrightarrow> leads (f m1) (\<lambda>x. idle c J)) \<Longrightarrow> leads (withTransaction f m) (\<lambda>x. idle c J)"
  unfolding withTransaction_def by (erule sql_rules | rule sql_splits | assumption)+

lemma start_balanced:
  assumes "funds K d0" "insertHandPlayer h p d0 = Inr (n, d1)"
    "changeSeat k u (\<lambda>r. row_stack r = x) (\<lambda>r. r\<lparr>hand_start_stack := x\<rparr>) d1 = Inr (1, d2)"
  shows "funds K d2"
  using changeSeat_ok [OF _ assms(3), of x x] funds_same [OF assms(1) other_statements(4) [OF assms(2)]] by (simp add: funds_def)

lemma storeStarts_idle:
  assumes "\<And>m. inside c (funds K) (funds K) m \<Longrightarrow> leads (continue m) (\<lambda>x. idle c (funds K))"
  shows "inside c (funds K) (funds K) m \<Longrightarrow> leads (storeStarts hand ps continue m) (\<lambda>x. idle c (funds K))"
proof (induction ps arbitrary: m)
  case (Cons p ps)
  then show ?case unfolding storeStarts.simps
    by - (erule sql_rules | rule sql_splits | assumption | rule Cons.IH, erule inside_mono, elim exE conjE, rule start_balanced, simp_all)+
qed (simp add: assms)

lemma markPlaying_idle: "inside c (funds K) (funds K) m \<Longrightarrow> leads (markPlaying k m) (\<lambda>x. idle c (funds K))"
  unfolding markPlaying_def
  by (erule sql_rules | rule sql_splits | assumption | elim exE conjE, erule funds_same, erule other_statements)+

lemma transactBeginHand_idle: "inside c (funds K) (funds K) m \<Longrightarrow> leads (transactBeginHand hand m) (\<lambda>x. idle c (funds K))"
  unfolding transactBeginHand_def
  by (erule sql_rules | rule sql_splits | assumption
      | rule storeStarts_idle, erule markPlaying_idle, erule inside_mono, elim exE conjE, erule funds_same, erule other_statements)+

lemma begin_idle: "idle c (funds K) m \<Longrightarrow> leads (sqlBeginHand hand m) (\<lambda>x. idle c (funds K))"
  unfolding sqlBeginHand_def
  by (rule post_if; (rule post_Pair, assumption | erule withLease_keeps)) (erule withTransaction_idle, erule transactBeginHand_idle)

text \<open>In the loop of a settlement the sum is off by what is still to be settled.\<close>

definition gain :: "HandPlayerSettlement list \<Rightarrow> int" where
  "gain ps = sum_list (map end_stack ps) - sum_list (map settled_start_stack ps)"

lemma settle_balanced:
  assumes "funds K d0" "settlePlayerRow h p d0 = Inr (n, d1)"
    "changeSeat k u (\<lambda>r. hand_start_stack r = x) (\<lambda>r. r\<lparr>row_stack := y, hand_start_stack := y\<rparr>) d1 = Inr (1, d2)"
  shows "funds (K + y - x) d2"
  using changeSeat_ok [OF _ assms(3), of y x] funds_same [OF assms(1) other_statements(8) [OF assms(2)]] by (simp add: funds_def)

lemma storeSettlements_idle:
  assumes "\<And>m. inside c J (funds K) m \<Longrightarrow> leads (continue m) (\<lambda>x. idle c J)"
  shows "inside c J (funds (K - gain ps)) m \<Longrightarrow> leads (storeSettlements s ps continue m) (\<lambda>x. idle c J)"
proof (induction ps arbitrary: m)
  case (Cons p ps)
  have K: "K - gain (p # ps) + end_stack p - settled_start_stack p = K - gain ps" by (simp add: gain_def)
  from Cons.prems show ?case unfolding storeSettlements.simps
    by - (erule sql_rules | rule sql_splits | assumption
      | rule Cons.IH, erule inside_mono, elim exE conjE, rule settle_balanced [where K = "K - gain (p # ps)" and x = "settled_start_stack p" and y = "end_stack p", unfolded K], simp_all)+
qed (simp add: assms gain_def)

lemma markWaiting_idle: "inside c (funds K) (funds K) m \<Longrightarrow> leads (markWaiting k m) (\<lambda>x. idle c (funds K))"
  unfolding markWaiting_def
  by (erule sql_rules | rule sql_splits | assumption | elim exE conjE, erule funds_same, erule other_statements)+

lemma transactSettleHand_idle:
  assumes "gain (settled_players x) = 0"
  shows "inside c (funds K) (funds K) m \<Longrightarrow> leads (transactSettleHand x m) (\<lambda>x. idle c (funds K))"
  unfolding transactSettleHand_def
  by (erule sql_rules | rule sql_splits | assumption
      | rule storeSettlements_idle [where K = K], erule markWaiting_idle, simp only: assms diff_zero, erule inside_mono, elim exE conjE, erule funds_same,
        erule other_statements)+

lemma settle_idle: "idle c (funds K) m \<Longrightarrow> leads (sqlSettleHand x m) (\<lambda>x. idle c (funds K))"
  unfolding sqlSettleHand_def
  by (rule post_if; (rule post_Pair, assumption | erule withLease_keeps))
    (erule withTransaction_idle, rule transactSettleHand_idle; simp add: gain_def settlement_sums)

lemma refund_balanced:
  assumes "funds K d0" "refundWallets k d0 = Inr (n0, d1)" "refundLedger c k d1 = Inr (n1, d2)" "deleteSeats k d2 = Inr (n2, d3)"
    "abortHands k d3 = Inr (n3, d4)" "changeTable k from to d4 = Inr (n4, d5)"
  shows "funds K d5"
proof -
  have d1: "db_ok d1" "sqlMoney d1 = K + seatedMoney k d0" "db_seats d1 = db_seats d0"
    using refundWallets_ok [OF _ assms(2)] assms(1) by (simp_all add: funds_def)
  have d2: "db_wallets d2 = db_wallets d1 \<and> db_seats d2 = db_seats d1" using insertRefunds_frame assms(3) by (simp add: refundLedger_def)
  then have "seatedMoney k d2 = seatedMoney k d0" using d1(3) by (simp add: seatedMoney_def seatedUsers_def)
  then have "funds K d3" using deleteSeats_ok [OF _ assms(4)] d1 db_ok_same [of d2 d1] d2 by (simp add: funds_def)
  then show ?thesis using other_statements(9) [OF assms(5)] other_statements(5) [OF assms(6)] by (blast intro: funds_same)
qed

lemma executeAll_inside [sql_rules]:
  assumes "inside c J P m" "\<And>e m1. inside c J (\<lambda>_. True) m1 \<Longrightarrow> leads (f (Inl e) m1) Q"
    "\<And>n m1. inside c J (\<lambda>d. \<exists>d0. P d0 \<and> inOrder stmts d0 d) m1 \<Longrightarrow> leads (f (Inr n) m1) Q"
  shows "leads (case_prod f (executeAll stmts k m)) Q"
  using assms
proof (induction stmts arbitrary: P m k)
  case (Cons stmt stmts)
  have "case_prod f (executeAll (stmt # stmts) k m) =
      (case execute stmt m of (Inl e, m1) \<Rightarrow> f (Inl e) m1 | (Inr n, m1) \<Rightarrow> case_prod f (executeAll stmts n m1))"
    by (simp split: prod.splits sum.splits)
  moreover have "leads (case execute stmt m of (Inl e, m1) \<Rightarrow> f (Inl e) m1 | (Inr n, m1) \<Rightarrow> case_prod f (executeAll stmts n m1)) Q"
  proof (rule execute_inside [OF Cons.prems(1)]; simp only: sum.case)
    show "inside c J (\<lambda>_. True) m1 \<Longrightarrow> leads (f (Inl e) m1) Q" for e m1 by (rule Cons.prems(2))
    fix n m1
    assume "inside c J (\<lambda>d. \<exists>d0. P d0 \<and> stmt d0 = Inr (n, d)) m1"
    then show "leads (case_prod f (executeAll stmts n m1)) Q"
    proof (rule Cons.IH)
      show "leads (f (Inr k') m2) Q"
        if "inside c J (\<lambda>d. \<exists>d0. (\<exists>d1. P d1 \<and> stmt d1 = Inr (n, d0)) \<and> inOrder stmts d0 d) m2" for k' m2
        by (rule Cons.prems(3), rule inside_mono [OF that]) auto
    qed (rule Cons.prems(2))
  qed
  ultimately show ?case by simp
qed (auto simp: inside_def)

lemma transactAbort_idle: "inside c (funds K) (funds K) m \<Longrightarrow> leads (transactAbort k m) (\<lambda>x. idle c (funds K))"
  unfolding transactAbort_def
  by (erule sql_rules | rule sql_splits | assumption
      | simp only: inOrder.simps, elim exE conjE, hypsubst, rule refund_balanced, assumption+)+

lemma abort_idle: "idle c (funds K) m \<Longrightarrow> leads (sqlAbortTableAndRefund k m) (\<lambda>x. idle c (funds K))"
  unfolding sqlAbortTableAndRefund_def by (erule withLease_keeps, erule withTransaction_idle, erule transactAbort_idle)

section \<open>The contract\<close>

text \<open>The operations begin and end outside a transaction, and the other connections do not change the sum either.\<close>

definition sqlValid :: "MySql \<Rightarrow> bool" where
  "sqlValid m \<longleftrightarrow> transaction m = None \<and> db_ok (committed_db m) \<and> (\<forall>n d. db_ok d \<longrightarrow> db_ok (others m n d) \<and> sqlMoney (others m n d) = sqlMoney d)"

lemma sqlValid_idle: "sqlValid m \<Longrightarrow> idle (collate m, others m, unhex m) (funds (sqlMoney (committed_db m))) m"
  by (simp add: sqlValid_def idle_def stable_def funds_def)

lemma keeps_valid:
  assumes "sqlValid m" "op m = (r, m')"
    "\<And>c K m. idle c (funds K) m \<Longrightarrow> leads (op m) (\<lambda>x. idle c (funds K))"
  shows "sqlValid m' \<and> sqlMoney (committed_db m') = sqlMoney (committed_db m)"
proof -
  have "idle (collate m, others m, unhex m) (funds (sqlMoney (committed_db m))) m'"
    using assms(3) [OF sqlValid_idle [OF assms(1)]] assms(2) by (simp add: leads_def)
  then show ?thesis using assms(1) by (auto simp: sqlValid_def idle_def funds_def)
qed

interpretation mysql_bank: bank_store mysqlGames sqlValid "sqlMoney \<circ> committed_db"
proof unfold_locales
  fix m x e m' k u n a q r r0 r1 r2 r3 hand act_rec y limit node
  assume ok: "sqlValid m"
  note keeps = keeps_valid [OF ok]
  show "find_table mysqlGames k m = (r0, m') \<Longrightarrow> sqlValid m' \<and> (sqlMoney \<circ> committed_db) m' = (sqlMoney \<circ> committed_db) m"
    by (simp add: mysqlGames_def) (erule keeps, erule find_idle)
  show "list_open_tables mysqlGames limit m = (r1, m') \<Longrightarrow> sqlValid m' \<and> (sqlMoney \<circ> committed_db) m' = (sqlMoney \<circ> committed_db) m"
    by (simp add: mysqlGames_def) (erule keeps, erule list_idle)
  show "count_open_tables mysqlGames node m = (r3, m') \<Longrightarrow> sqlValid m' \<and> (sqlMoney \<circ> committed_db) m' = (sqlMoney \<circ> committed_db) m"
    by (simp add: mysqlGames_def) (erule keeps, erule count_idle)
  show "create_table mysqlGames x m = (e, m') \<Longrightarrow> sqlValid m' \<and> (sqlMoney \<circ> committed_db) m' = (sqlMoney \<circ> committed_db) m"
    by (simp add: mysqlGames_def) (erule keeps, erule create_idle)
  show "reserve_buy_in mysqlGames k u n a q m = (r, m') \<Longrightarrow> sqlValid m' \<and> (sqlMoney \<circ> committed_db) m' = (sqlMoney \<circ> committed_db) m"
    by (simp add: mysqlGames_def) (erule keeps, erule buy_in_idle)
  show "cash_out mysqlGames k u q m = (r2, m') \<Longrightarrow> sqlValid m' \<and> (sqlMoney \<circ> committed_db) m' = (sqlMoney \<circ> committed_db) m"
    by (simp add: mysqlGames_def) (erule keeps, erule cash_out_idle)
  show "begin_hand mysqlGames hand m = (e, m') \<Longrightarrow> sqlValid m' \<and> (sqlMoney \<circ> committed_db) m' = (sqlMoney \<circ> committed_db) m"
    by (simp add: mysqlGames_def) (erule keeps, erule begin_idle)
  show "append_action mysqlGames act_rec m = (e, m') \<Longrightarrow> sqlValid m' \<and> (sqlMoney \<circ> committed_db) m' = (sqlMoney \<circ> committed_db) m"
    by (simp add: mysqlGames_def) (erule keeps, erule append_idle)
  show "settle_hand mysqlGames y m = (e, m') \<Longrightarrow> sqlValid m' \<and> (sqlMoney \<circ> committed_db) m' = (sqlMoney \<circ> committed_db) m"
    by (simp add: mysqlGames_def) (erule keeps, erule settle_idle)
  show "abort_table_and_refund mysqlGames k m = (e, m') \<Longrightarrow> sqlValid m' \<and> (sqlMoney \<circ> committed_db) m' = (sqlMoney \<circ> committed_db) m"
    by (simp add: mysqlGames_def) (erule keeps, erule abort_idle)
qed

end
