(* ===== verification/Mysql_Server.thy ===== *)
theory Mysql_Server
  imports Mysql_Correct Memory_Server
begin

text \<open>
  The server on the MySQL game store. \<open>withMySql\<close> takes the services of a server and puts the MySQL store in the place of its game
  store; \<open>lawful_services\<close> is interpreted on the result, so that the chips in the database are kept in every run of the server.
\<close>

section \<open>Services\<close>

definition onFirst :: "('w \<Rightarrow> 'a \<times> 'w) \<Rightarrow> 'w \<times> MySql \<Rightarrow> 'a \<times> 'w \<times> MySql" where
  "onFirst f = (\<lambda>(w, m). case f w of (x, w') \<Rightarrow> (x, w', m))"

definition onMySql :: "(MySql \<Rightarrow> 'a \<times> MySql) \<Rightarrow> 'w \<times> MySql \<Rightarrow> 'a \<times> 'w \<times> MySql" where
  "onMySql f = (\<lambda>(w, m). case f m of (x, m') \<Rightarrow> (x, w, m'))"

definition sharedGames :: "('w \<times> MySql) GameStore" where
  "sharedGames = \<lparr>find_table = (\<lambda>k. onMySql (find_table mysqlGames k)), list_open_tables = (\<lambda>n. onMySql (list_open_tables mysqlGames n)),
     count_open_tables = (\<lambda>node. onMySql (count_open_tables mysqlGames node)), create_table = (\<lambda>x. onMySql (create_table mysqlGames x)),
     reserve_buy_in = (\<lambda>k u n a q. onMySql (reserve_buy_in mysqlGames k u n a q)), cash_out = (\<lambda>k u q. onMySql (cash_out mysqlGames k u q)),
     begin_hand = (\<lambda>h. onMySql (begin_hand mysqlGames h)), append_action = (\<lambda>y. onMySql (append_action mysqlGames y)),
     settle_hand = (\<lambda>z. onMySql (settle_hand mysqlGames z)), abort_table_and_refund = (\<lambda>k. onMySql (abort_table_and_refund mysqlGames k))\<rparr>"

definition withMySql :: "'w Services \<Rightarrow> ('w \<times> MySql) Services" where
  "withMySql v =
     \<lparr>now_unix_ms = onFirst (now_unix_ms v),
      register_user = (\<lambda>name password. onFirst (register_user v name password)),
      login_user = (\<lambda>name password now (w, m). map_sum id (\<lambda>(x, w'). (x, w', m)) (login_user v name password now w)),
      authenticate_token = (\<lambda>token now (w, m). authenticate_token v token now w),
      refresh_token = (\<lambda>token now. onFirst (refresh_token v token now)),
      logout_token = (\<lambda>token. onFirst (logout_token v token)),
      hash_ticket = hash_ticket v,
      allocate_id = onFirst (allocate_id v),
      consume_ticket = (\<lambda>h. onFirst (consume_ticket v h)),
      assign_new_table = (\<lambda>k u. onFirst (assign_new_table v k u)),
      route_existing_table = (\<lambda>k u node. onFirst (route_existing_table v k u node)),
      game_store = sharedGames\<rparr>"

section \<open>The contract on the money\<close>

definition sqlFunded :: "int \<Rightarrow> 'w \<times> MySql \<Rightarrow> bool" where
  "sqlFunded K = (\<lambda>(w, m). sqlValid m \<and> sqlMoney (committed_db m) = K)"

lemma keeps_first [simp]: "keeps (sqlFunded K) (onFirst f)"
  by (auto simp: keeps_def sqlFunded_def onFirst_def split: prod.splits)

lemma keeps_mysql:
  "(\<And>m x m'. sqlValid m \<Longrightarrow> f m = (x, m') \<Longrightarrow> sqlValid m' \<and> (sqlMoney \<circ> committed_db) m' = (sqlMoney \<circ> committed_db) m) \<Longrightarrow>
    keeps (sqlFunded K) (onMySql f)"
  by (auto simp: keeps_def sqlFunded_def onMySql_def split: prod.splits)

lemma mysql_lawful:
  assumes "\<forall>e. parse p (serialize p e) = Some e" "services p = withMySql v"
  shows "lawful_services p (sqlFunded K)"
proof
  have store: "game_store (services p) = sharedGames" by (simp add: assms(2) withMySql_def)
  show "sqlFunded K w \<Longrightarrow> login_user (services p) name password now w = Inr (r, w') \<Longrightarrow> sqlFunded K w'" for w name password now r w'
    by (auto simp: assms(2) withMySql_def sqlFunded_def map_sum_Inr split: prod.splits)
  show "keeps (sqlFunded K) (find_table (game_store (services p)) k)" for k
    unfolding store by (simp add: sharedGames_def) (rule keeps_mysql, erule (1) mysql_bank.find_keeps)
  show "keeps (sqlFunded K) (list_open_tables (game_store (services p)) limit)" for limit
    unfolding store by (simp add: sharedGames_def) (rule keeps_mysql, erule (1) mysql_bank.list_keeps)
  show "keeps (sqlFunded K) (create_table (game_store (services p)) x)" for x
    unfolding store by (simp add: sharedGames_def) (rule keeps_mysql, erule (1) mysql_bank.create_keeps)
  show "keeps (sqlFunded K) (reserve_buy_in (game_store (services p)) k u n a q)" for k u n a q
    unfolding store by (simp add: sharedGames_def) (rule keeps_mysql, erule (1) mysql_bank.buy_in_keeps)
  show "keeps (sqlFunded K) (cash_out (game_store (services p)) k u q)" for k u q
    unfolding store by (simp add: sharedGames_def) (rule keeps_mysql, erule (1) mysql_bank.cash_out_keeps)
  show "keeps (sqlFunded K) (begin_hand (game_store (services p)) hand)" for hand
    unfolding store by (simp add: sharedGames_def) (rule keeps_mysql, erule (1) mysql_bank.begin_keeps)
  show "keeps (sqlFunded K) (append_action (game_store (services p)) y)" for y
    unfolding store by (simp add: sharedGames_def) (rule keeps_mysql, erule (1) mysql_bank.append_keeps)
  show "keeps (sqlFunded K) (settle_hand (game_store (services p)) z)" for z
    unfolding store by (simp add: sharedGames_def) (rule keeps_mysql, erule (1) mysql_bank.settle_keeps)
  show "keeps (sqlFunded K) (abort_table_and_refund (game_store (services p)) k)" for k
    unfolding store by (simp add: sharedGames_def) (rule keeps_mysql, erule (1) mysql_bank.abort_keeps)
qed (use assms in \<open>simp_all add: withMySql_def\<close>)


section \<open>A run\<close>

text \<open>Alice registers, logs in and sits down with 2,000 chips. The connection to the database is lost when the buy-in has been committed
  but not acknowledged.\<close>

definition sqlSetup :: "(nat World \<times> MySql) Setup" where
  "sqlSetup = \<lparr>server_config = demoConfig, services = withMySql (memoryServices demoCrypto demoService demoRouter),
     serialize = unarySerialize, parse = unaryParse, push_set = True, schedule_set = True\<rparr>"

definition sqlWorld :: "nat World" where
  "sqlWorld = demoWorld\<lparr>registry :=
     snd (storeJoinTicket ''ht'' \<lparr>ticket_user = 1, ticket_table = 1000\<rparr> 30 demoRegistry)\<rparr>"

definition sqlStart :: "(nat World \<times> MySql, unit) Service" where
  "sqlStart = newService (sqlWorld, sqlServer 19 sqlDb) (\<lparr>max_pending_per_shard = 8, shards = [newShard]\<rparr>, newRooms ())
     \<lparr>max_pending = 4, pool_tasks = [], pool_stopping = False, workers = [idleWorker]\<rparr> \<lparr>max_requests_per_user = 16, users = []\<rparr>"

definition sqlRegistered :: "(nat World \<times> MySql, unit) Service" where
  "sqlRegistered = workerRuns sqlSetup (workerTakes (handle sqlSetup registerAlice 3 7 sqlStart))"

definition sqlLoggedIn :: "(nat World \<times> MySql, unit) Service" where
  "sqlLoggedIn = workerRuns sqlSetup (workerTakes (handle sqlSetup loginAlice 3 7 sqlRegistered))"

definition sqlSeated :: "(nat World \<times> MySql, unit) Service" where
  "sqlSeated = workerRuns sqlSetup (workerTakes (handle sqlSetup sitAlice 3 7 sqlLoggedIn))"

lemma sql_run: "service_run sqlSetup device outside sqlStart [(7, 41), (7, 42), (7, 43)] [] sqlSeated"
proof -
  have "service_run sqlSetup device outside sqlStart ([] @ [(7, request_id registerAlice)]) [] (handle sqlSetup registerAlice 3 7 sqlStart)"
    by (rule service_run.handles, rule service_run.begins)
  moreover have "workerReady sqlSetup (handle sqlSetup registerAlice 3 7 sqlStart)" by code_simp
  ultimately have "service_run sqlSetup device outside sqlStart [(7, 41)] [] sqlRegistered"
    unfolding sqlRegistered_def by (intro worker_works) (simp_all add: registerAlice_def)
  then have "service_run sqlSetup device outside sqlStart ([(7, 41)] @ [(7, request_id loginAlice)]) [] (handle sqlSetup loginAlice 3 7 sqlRegistered)"
    by (rule service_run.handles)
  moreover have "workerReady sqlSetup (handle sqlSetup loginAlice 3 7 sqlRegistered)" by code_simp
  ultimately have "service_run sqlSetup device outside sqlStart [(7, 41), (7, 42)] [] sqlLoggedIn"
    unfolding sqlLoggedIn_def by (intro worker_works) (simp_all add: loginAlice_def)
  then have "service_run sqlSetup device outside sqlStart ([(7, 41), (7, 42)] @ [(7, request_id sitAlice)]) [] (handle sqlSetup sitAlice 3 7 sqlLoggedIn)"
    by (rule service_run.handles)
  moreover have "workerReady sqlSetup (handle sqlSetup sitAlice 3 7 sqlLoggedIn)" by code_simp
  ultimately show ?thesis unfolding sqlSeated_def by (intro worker_works) (simp_all add: sitAlice_def)
qed

lemma sqlServer_valid: "sqlValid (sqlServer b sqlDb)" "sqlMoney (committed_db (sqlServer b sqlDb)) = 5000"
  by (auto simp: sqlValid_def sqlServer_def sqlDb_def db_ok_def wallet_rows_ok_def seat_rows_ok_def assoc_def sqlMoney_def)


text \<open>In this run the player is told that the service is unavailable and no one sits at the table in memory, yet the buy-in is in the
  database; the join ticket is used up, so that the player cannot try again.\<close>

lemma unacknowledged_buy_in:
  "stackOf 1000 1 (committed_db (snd (world sqlSeated))) = Some 2000"
  "body (case last (outbox sqlSeated) of Sent send e \<Rightarrow> e) = ErrorResponse SERVICE_UNAVAILABLE ''buy-in ledger commit failed'' 43"
  "fst (consumeJoinTicket ''ht'' (registry (fst (world sqlSeated)))) = None"
  "roomTasks (fst (room_manager sqlSeated)) = []"
  by code_simp+

end
