(* ===== verification/Mysql_Account_Store.thy ===== *)
theory Mysql_Account_Store
  imports Mysql_Game_Store
begin

text \<open>
  \<open>src/src/poker/infrastructure/mysql_account_store.cpp\<close>: the accounts and sessions of a real server, on the database of
  \<open>Mysql_Database\<close>. As in \<open>Mysql_Game_Store\<close> every call that can fail has its branch.
\<close>

section \<open>Statements\<close>

text \<open>\<open>mysql_insert_id\<close> is the id of the row that the statement has inserted.\<close>

definition insertUser :: "MySql \<Rightarrow> UserId \<Rightarrow> string \<Rightarrow> string \<Rightarrow> statement" where
  "insertUser m i username hash d =
     (if char_length m username > 32 \<or> char_length m hash > 255 \<or> i = 0 \<or> map_of (db_users d) i \<noteq> None then Inl er_constraint
      else if \<exists>(j, r) \<in> set (db_users d). collate m (row_username r) = collate m username then Inl er_dup_entry
      else Inr (1, d\<lparr>db_users := put i \<lparr>row_username = username, row_password_hash = hash, row_disabled = False\<rparr> (db_users d)\<rparr>))"

definition insertWallet :: "UserId \<Rightarrow> int \<Rightarrow> statement" where
  "insertWallet i chips d =
     (if \<not> walletFits \<lparr>balance = chips, wallet_version = 0\<rparr> then Inl er_constraint
      else if map_of (db_wallets d) i \<noteq> None then Inl er_dup_entry
      else if map_of (db_users d) i = None then Inl er_constraint
      else Inr (1, d\<lparr>db_wallets := put i \<lparr>balance = chips, wallet_version = 0\<rparr> (db_wallets d)\<rparr>))"

text \<open>\<open>FROM_UNIXTIME\<close> has no result for a negative time; a \<open>TIMESTAMP\<close> lies between the first second of 1970 and January 2038.\<close>

definition timestampFits :: "int \<Rightarrow> bool" where
  "timestampFits ms \<longleftrightarrow> 1000 \<le> ms \<and> ms \<le> 2147483647499"

text \<open>What \<open>BINARY(32)\<close> stores of a text in hexadecimal digits.\<close>

definition tokenBytes :: "MySql \<Rightarrow> string \<Rightarrow> string option" where
  "tokenBytes m h = (case unhex m h of None \<Rightarrow> None | Some b \<Rightarrow> if length b > 32 then None else Some (b @ replicate (32 - length b) (CHR 0x00)))"

definition insertSession :: "MySql \<Rightarrow> SessionRecord \<Rightarrow> statement" where
  "insertSession m x d =
     (case tokenBytes m (token_hash x) of
        None \<Rightarrow> Inl er_constraint
      | Some t \<Rightarrow>
          (if \<not> timestampFits (expires_at_unix_ms x) then Inl er_constraint
           else if map_of (db_sessions d) t \<noteq> None then Inl er_dup_entry
           else if map_of (db_users d) (session_user x) = None then Inl er_constraint
           else Inr (1, d\<lparr>db_sessions := put t \<lparr>row_session_user = session_user x, row_last_sequence = last_client_sequence x,
                   row_expires_ms = expires_at_unix_ms x, row_revoked = False\<rparr> (db_sessions d)\<rparr>)))"

text \<open>The rows that a condition \<open>token_hash = UNHEX(?) AND ...\<close> selects: at most one.\<close>

definition sessionWhere :: "MySql \<Rightarrow> string \<Rightarrow> (SessionRow \<Rightarrow> bool) \<Rightarrow> Database \<Rightarrow> (string \<times> SessionRow) option" where
  "sessionWhere m h condition d =
     (case unhex m h of
        None \<Rightarrow> None
      | Some t \<Rightarrow> (case map_of (db_sessions d) t of None \<Rightarrow> None | Some r \<Rightarrow> if condition r then Some (t, r) else None))"

definition liveRow :: "int \<Rightarrow> SessionRow \<Rightarrow> bool" where
  "liveRow now r \<longleftrightarrow> \<not> row_revoked r \<and> 0 \<le> now \<and> now < row_expires_ms r"

text \<open>An \<open>UPDATE\<close> of the selected row.\<close>

definition updateSession :: "MySql \<Rightarrow> string \<Rightarrow> (SessionRow \<Rightarrow> bool) \<Rightarrow> (SessionRow \<Rightarrow> SessionRow) \<Rightarrow> statement" where
  "updateSession m h condition change d =
     (case sessionWhere m h condition d of
        None \<Rightarrow> Inr (0, d)
      | Some (t, r) \<Rightarrow> Inr (if change r = r then 0 else 1, d\<lparr>db_sessions := put t (change r) (db_sessions d)\<rparr>))"

text \<open>The \<open>UPDATE\<close> of \<open>rotateSession\<close> gives the row another key.\<close>

definition rotateRow :: "MySql \<Rightarrow> string \<Rightarrow> SessionRecord \<Rightarrow> int \<Rightarrow> statement" where
  "rotateRow m h x now d =
     (case sessionWhere m h (\<lambda>r. row_session_user r = session_user x \<and> liveRow now r) d of
        None \<Rightarrow> Inr (0, d)
      | Some (t, r) \<Rightarrow>
          (case tokenBytes m (token_hash x) of
             None \<Rightarrow> Inl er_constraint
           | Some t' \<Rightarrow>
               (if \<not> timestampFits (expires_at_unix_ms x) then Inl er_constraint
                else if t' \<noteq> t \<and> map_of (db_sessions d) t' \<noteq> None then Inl er_dup_entry
                else
                  (let r' = r\<lparr>row_last_sequence := last_client_sequence x, row_expires_ms := expires_at_unix_ms x\<rparr>
                   in Inr (if t' = t \<and> r' = r then 0 else 1, d\<lparr>db_sessions := put t' r' (erase t (db_sessions d))\<rparr>)))))"

section \<open>Operations\<close>

abbreviation noConnection :: "'a StorageResult" where
  "noConnection \<equiv> storageFail unavailable ''mysql pool is exhausted''"

definition executeSessionWrite :: "(MySql \<Rightarrow> statement) \<Rightarrow> MySql \<Rightarrow> StorageError \<times> MySql" where
  "executeSessionWrite stmt =
     withLease unavailable
       (\<lambda>m. case statement (stmt m) m of
          (Inl e, m1) \<Rightarrow> (unavailable, m1)
        | (Inr n, m1) \<Rightarrow> (if n = 1 then storage_ok else not_found, m1))"

text \<open>The join of a user with the wallet; a text that does not fit its buffer is truncated, which the code takes for a failure.\<close>

definition userRow :: "(UserId \<times> UserRow) option \<Rightarrow> Database \<Rightarrow> (UserRecord option) option" where
  "userRow found d =
     (case found of
        None \<Rightarrow> None
      | Some (i, r) \<Rightarrow>
          (case map_of (db_wallets d) i of
             None \<Rightarrow> None
           | Some w \<Rightarrow>
               Some (if length (row_username r) > 33 \<or> length (row_password_hash r) > 256 then None
                     else Some \<lparr>user_key = i, user_name = row_username r, password_hash = row_password_hash r,
                            wallet_balance = balance w, disabled = row_disabled r\<rparr>)))"

definition fetchUser :: "(Database \<Rightarrow> (UserId \<times> UserRow) option) \<Rightarrow> MySql \<Rightarrow> UserRecord StorageResult \<times> MySql" where
  "fetchUser q m =
     (case prepare m of
        (False, m1) \<Rightarrow> (storageFail unavailable ''could not prepare user query'', m1)
      | (True, m1) \<Rightarrow>
          (case fetch (\<lambda>d. userRow (q d) d) m1 of
             (Inl e, m2) \<Rightarrow> (storageFail unavailable (error_text m2 e), m2)
           | (Inr None, m2) \<Rightarrow> (storageFail not_found ''user not found'', m2)
           | (Inr (Some None), m2) \<Rightarrow> (storageFail unavailable (error_text m2 0), m2)
           | (Inr (Some (Some u)), m2) \<Rightarrow> (storageOk u, m2)))"

definition namedUser :: "(string \<Rightarrow> string) \<Rightarrow> string \<Rightarrow> Database \<Rightarrow> (UserId \<times> UserRow) option" where
  "namedUser coll username d = List.find (\<lambda>(i, r). coll (row_username r) = coll username) (db_users d)"

definition numberedUser :: "UserId \<Rightarrow> Database \<Rightarrow> (UserId \<times> UserRow) option" where
  "numberedUser i d = map_option (Pair i) (map_of (db_users d) i)"

definition sqlFindUserByName :: "string \<Rightarrow> MySql \<Rightarrow> UserRecord StorageResult \<times> MySql" where
  "sqlFindUserByName username = withLease noConnection (\<lambda>m. fetchUser (namedUser (collate m) username) m)"

definition sqlFindUserById :: "UserId \<Rightarrow> MySql \<Rightarrow> UserRecord StorageResult \<times> MySql" where
  "sqlFindUserById i = withLease noConnection (fetchUser (numberedUser i))"

text \<open>The text of the error of a statement; 0 is the number of one that was not prepared.\<close>

definition errorOf :: "MySql \<Rightarrow> nat \<Rightarrow> string" where
  "errorOf m e = (if e = 0 then ''prepare failed'' else error_text m e)"

definition initialKey :: "UserId \<Rightarrow> string" where
  "initialKey i = ''initial:'' @ to_string (unat i)"

text \<open>The end of a registration: the ledger and the commit. \<open>mysql_commit\<close> leaves the text of the statement empty.\<close>

definition storeGrant :: "UserId \<Rightarrow> string \<Rightarrow> string \<Rightarrow> int \<Rightarrow> MySql \<Rightarrow> UserRecord StorageResult \<times> MySql" where
  "storeGrant i username hash chips m =
     (case statement (insertLedger (collate m) i (initialKey i)
             \<lparr>delta_amount = chips, balance_after = chips, ledger_reason = ''initial_grant'', reference_id = []\<rparr>) m of
        (Inl e, m1) \<Rightarrow> undo (storageFail unavailable (errorOf m1 e)) m1
      | (Inr _, m1) \<Rightarrow>
          (case commit m1 of
             (False, m2) \<Rightarrow> undo (storageFail unavailable []) m2
           | (True, m2) \<Rightarrow>
               (storageOk \<lparr>user_key = i, user_name = username, password_hash = hash, wallet_balance = chips, disabled = False\<rparr>, m2)))"

definition transactCreateUser :: "string \<Rightarrow> string \<Rightarrow> int \<Rightarrow> MySql \<Rightarrow> UserRecord StorageResult \<times> MySql" where
  "transactCreateUser username hash chips m =
     (let i = new_ids m (server_calls m) in
      case statement (insertUser m i username hash) m of
        (Inl e, m1) \<Rightarrow> undo (storageFail (if e = er_dup_entry then storage_duplicate else unavailable) (errorOf m1 e)) m1
      | (Inr _, m1) \<Rightarrow>
          (case statement (insertWallet i chips) m1 of
             (Inl e, m2) \<Rightarrow> undo (storageFail unavailable (errorOf m2 e)) m2
           | (Inr _, m2) \<Rightarrow> storeGrant i username hash chips m2))"

definition sqlCreateUser :: "string \<Rightarrow> string \<Rightarrow> int \<Rightarrow> MySql \<Rightarrow> UserRecord StorageResult \<times> MySql" where
  "sqlCreateUser username hash chips =
     withLease noConnection
       (\<lambda>m. case autocommit False m of
          (False, m1) \<Rightarrow> (storageFail unavailable (error_text m1 cr_server_lost), m1)
        | (True, m1) \<Rightarrow> transactCreateUser username hash chips m1)"

definition sqlStoreSession :: "SessionRecord \<Rightarrow> MySql \<Rightarrow> StorageError \<times> MySql" where
  "sqlStoreSession x =
     withLease unavailable
       (\<lambda>m. case statement (insertSession m x) m of
          (Inl e, m1) \<Rightarrow> (if e = er_dup_entry then conflict else unavailable, m1)
        | (Inr _, m1) \<Rightarrow> (storage_ok, m1))"

definition sqlFindSession :: "string \<Rightarrow> int \<Rightarrow> MySql \<Rightarrow> SessionRecord StorageResult \<times> MySql" where
  "sqlFindSession h now =
     withLease noConnection
       (\<lambda>m. case prepare m of
          (False, m1) \<Rightarrow> (storageFail unavailable ''could not prepare session query'', m1)
        | (True, m1) \<Rightarrow>
            (case fetch (sessionWhere m1 h (liveRow now)) m1 of
               (Inl e, m2) \<Rightarrow> (storageFail unavailable (error_text m2 e), m2)
             | (Inr None, m2) \<Rightarrow> (storageFail not_found ''session not found'', m2)
             | (Inr (Some (t, r)), m2) \<Rightarrow>
                 (storageOk \<lparr>session_user = row_session_user r, token_hash = h, expires_at_unix_ms = row_expires_ms r,
                    last_client_sequence = row_last_sequence r, revoked = False\<rparr>, m2)))"

definition sqlRotateSession :: "string \<Rightarrow> SessionRecord \<Rightarrow> int \<Rightarrow> MySql \<Rightarrow> StorageError \<times> MySql" where
  "sqlRotateSession h x now m =
     (if session_user x = 0 \<or> token_hash x = [] \<or> expires_at_unix_ms x \<le> now then (invalid_data, m)
      else
        withLease unavailable
          (\<lambda>m. case statement (rotateRow m h x now) m of
             (Inl e, m1) \<Rightarrow> (if e = er_dup_entry then conflict else unavailable, m1)
           | (Inr n, m1) \<Rightarrow> (if n = 1 then storage_ok else not_found, m1)) m)"

definition sqlRevokeSession :: "string \<Rightarrow> MySql \<Rightarrow> StorageError \<times> MySql" where
  "sqlRevokeSession h = executeSessionWrite (\<lambda>m. updateSession m h (\<lambda>r. \<not> row_revoked r) (\<lambda>r. r\<lparr>row_revoked := True\<rparr>))"

definition sqlUpdateSessionSequence :: "string \<Rightarrow> u64 \<Rightarrow> u64 \<Rightarrow> MySql \<Rightarrow> StorageError \<times> MySql" where
  "sqlUpdateSessionSequence h expected replacement =
     withLease unavailable
       (\<lambda>m. if replacement \<noteq> expected + 1 then (conflict, m)
            else
              (case statement (updateSession m h (\<lambda>r. row_last_sequence r = expected \<and> \<not> row_revoked r) (\<lambda>r. r\<lparr>row_last_sequence := replacement\<rparr>)) m of
                 (Inl e, m1) \<Rightarrow> (unavailable, m1)
               | (Inr n, m1) \<Rightarrow> (if n = 1 then storage_ok else conflict, m1)))"

end
