(* ===== verification/Mysql_Once.thy ===== *)
theory Mysql_Once
  imports Mysql_Rules
begin

text \<open>
  A buy-in and a cash-out happen once, however often they are tried and whatever fails. \<open>boughtIn\<close> and \<open>cashedOut\<close> say what a
  transaction does to the database as a whole. An attempt either leaves the database as it is or applies this effect; when the
  answer gets lost nobody knows which, but the entry in the ledger makes a further attempt harmless.
\<close>

section \<open>Effects\<close>

definition boughtIn :: "u64 \<Rightarrow> UserId \<Rightarrow> u32 \<Rightarrow> int \<Rightarrow> string \<Rightarrow> Database \<Rightarrow> Database" where
  "boughtIn k u s amt key d =
     (let w = the (map_of (db_wallets d) u)
      in d\<lparr>db_seats := put (k, u) \<lparr>row_seat_no = ucast s, row_stack = amt, hand_start_stack = amt, seat_version = 0\<rparr> (db_seats d),
           db_wallets := put u (w\<lparr>balance := balance w - amt, wallet_version := wallet_version w + 1\<rparr>) (db_wallets d),
           db_ledger := put (u, key) \<lparr>delta_amount = - amt, balance_after = balance w - amt, ledger_reason = ''table_buy_in'',
             reference_id = to_string (unat k)\<rparr> (db_ledger d)\<rparr>)"

definition cashedOut :: "u64 \<Rightarrow> UserId \<Rightarrow> string \<Rightarrow> Database \<Rightarrow> Database" where
  "cashedOut k u key d =
     (let w = the (map_of (db_wallets d) u);
          x = row_stack (the (map_of (db_seats d) (k, u)))
      in d\<lparr>db_wallets := put u (w\<lparr>balance := balance w + x, wallet_version := wallet_version w + 1\<rparr>) (db_wallets d),
           db_seats := erase (k, u) (db_seats d),
           db_ledger := put (u, key) \<lparr>delta_amount = x, balance_after = balance w + x, ledger_reason = ''table_cash_out'',
             reference_id = to_string (unat k)\<rparr> (db_ledger d)\<rparr>)"

lemma insertSeat_Inr:
  "insertSeat k u s amt d = Inr (n, d') \<Longrightarrow>
    d' = d\<lparr>db_seats := put (k, u) \<lparr>row_seat_no = s, row_stack = amt, hand_start_stack = amt, seat_version = 0\<rparr> (db_seats d)\<rparr>"
  by (simp add: insertSeat_def split: if_splits)

lemma changeWallet_Inr:
  "changeWallet u condition delta d = Inr (n, d') \<Longrightarrow> map_of (db_wallets d) u = Some w \<Longrightarrow> condition w \<Longrightarrow>
    d' = d\<lparr>db_wallets := put u (w\<lparr>balance := balance w + delta, wallet_version := wallet_version w + 1\<rparr>) (db_wallets d)\<rparr>"
  by (simp add: changeWallet_def updateRow_def split: if_splits)

lemma insertLedger_Inr:
  "insertLedger c u key row d = Inr (n, d') \<Longrightarrow> d' = d\<lparr>db_ledger := put (u, key) row (db_ledger d)\<rparr> \<and> ledgerRow c u key d = None"
  by (simp add: insertLedger_def split: if_splits)

lemma buy_in_effect:
  assumes "walletOf u d0 = Some bal" "amt \<le> bal" "insertSeat k u (ucast s) amt d0 = Inr (n, d1)"
    "changeWallet u (\<lambda>w. amt \<le> balance w) (- amt) d1 = Inr (n', d2)"
    "insertLedger c u key \<lparr>delta_amount = - amt, balance_after = bal - amt, ledger_reason = ''table_buy_in'', reference_id = to_string (unat k)\<rparr> d2 = Inr (n'', d3)"
  shows "d3 = boughtIn k u s amt key d0"
proof -
  obtain w where w: "map_of (db_wallets d0) u = Some w" "balance w = bal" using assms(1) by (auto simp: walletOf_def)
  note d1 = insertSeat_Inr [OF assms(3)]
  have "map_of (db_wallets d1) u = Some w" using d1 w(1) by simp
  note d2 = changeWallet_Inr [OF assms(4) this]
  show ?thesis using d1 d2 insertLedger_Inr [OF assms(5)] w assms(2) by (simp add: boughtIn_def Let_def)
qed

lemma cash_out_effect:
  assumes "stackOf k u d0 = Some x" "walletOf u d0 = Some bal" "changeWallet u (\<lambda>_. True) x d0 = Inr (n, d1)" "deleteSeat k u d1 = Inr (n', d2)"
    "insertLedger c u key \<lparr>delta_amount = x, balance_after = bal + x, ledger_reason = ''table_cash_out'', reference_id = to_string (unat k)\<rparr> d2 = Inr (n'', d3)"
  shows "d3 = cashedOut k u key d0"
proof -
  obtain w where w: "map_of (db_wallets d0) u = Some w" "balance w = bal" using assms(2) by (auto simp: walletOf_def)
  have d2: "d2 = d1\<lparr>db_seats := erase (k, u) (db_seats d1)\<rparr>" using assms(4) by (simp add: deleteSeat_def)
  show ?thesis using changeWallet_Inr [OF assms(3) w(1)] d2 insertLedger_Inr [OF assms(5)] w assms(1)
    by (auto simp: cashedOut_def Let_def stackOf_def)
qed

text \<open>The row that an operation adds to the ledger is found under its key.\<close>

lemma ledgerRow_put:
  "ledgerRow c u key d = None \<Longrightarrow> ledgerRow c u key (d\<lparr>db_ledger := put (u, key) row (db_ledger d)\<rparr>) = Some row"
proof -
  assume none: "ledgerRow c u key d = None"
  have "List.find f (put (u, key) row m) = Some ((u, key), row)"
    if "List.find f m = None" "f ((u, key), row)" "\<And>r. f ((u, key), r)" for f and m :: "(UserId \<times> string, LedgerRow) assoc_map"
    using that by (induction m) (auto simp: put_def split: if_splits)
  then show ?thesis using none by (simp add: ledgerRow_def)
qed

section \<open>Attempts\<close>

text \<open>What is known after an attempt that may turn \<open>d0\<close> into \<open>d1\<close> and answers with \<open>v\<close>, when no other connection writes.\<close>

definition undisturbed :: "surroundings \<Rightarrow> bool" where
  "undisturbed c \<longleftrightarrow> fst (snd c) = (\<lambda>_ d. d)"

definition outcome :: "surroundings \<Rightarrow> Database \<Rightarrow> Database \<Rightarrow> 'v \<Rightarrow> 'v StorageResult \<Rightarrow> MySql \<Rightarrow> bool" where
  "outcome c d0 d1 v r m \<longleftrightarrow>
     (if storage_error r = storage_ok then idle c (\<lambda>d. d = d1) m \<and> storage_value r = Some v else idle c (\<lambda>d. d = d0 \<or> d = d1) m)"

lemma stable_quiet: "undisturbed c \<Longrightarrow> stable c J"
  by (simp add: undisturbed_def stable_def)

lemma outcome_release: "outcome c d0 d1 v r m \<Longrightarrow> outcome c d0 d1 v r (release m)"
  by (simp add: outcome_def release_idle split: if_splits)

lemma outcome_before: "undisturbed c \<Longrightarrow> idle c (\<lambda>d. d = d0) m \<Longrightarrow> storage_error r \<noteq> storage_ok \<Longrightarrow> outcome c d0 d1 v r m"
  by (simp add: outcome_def idle_def stable_quiet)

lemma outcome_unknown: "idle c (\<lambda>d. d = d0 \<or> d = d1) m \<Longrightarrow> storage_error r \<noteq> storage_ok \<Longrightarrow> outcome c d0 d1 v r m"
  by (simp add: outcome_def)

lemma outcome_after: "idle c (\<lambda>d. d = d1) m \<Longrightarrow> storage_error r = storage_ok \<Longrightarrow> storage_value r = Some v \<Longrightarrow> outcome c d0 d1 v r m"
  by (simp add: outcome_def)

lemma failed_error [simp]: "storage_error (storageFail e t) = e" "storage_error (storageOk v) = storage_ok" "storage_value (storageOk v) = Some v"
  by (simp_all add: storageFail_def storageOk_def)

declare commit_keeps [sql_rules del]

lemma replay_none [simp]: "storage_error (replayBuyIn None k amt) = not_found" "storage_error (replayCashOut None k) = not_found"
  by (simp_all add: replayBuyIn_def replayCashOut_def)

lemma storeBuyIn_outcome:
  assumes c: "undisturbed c" and new: "ledgerRow (fst c) u key d0 = None" and "amt \<le> bal"
  shows "inside c (\<lambda>d. d = d0) (\<lambda>d. d = d0 \<and> walletOf u d = Some bal) m \<Longrightarrow>
    leads (storeBuyIn k u s amt key bal m) (outcome c d0 (boughtIn k u s amt key d0) \<lparr>buy_in_wallet = bal - amt, table_stack = amt\<rparr>)"
  unfolding storeBuyIn_def
  by (erule commit_inside [where J' = "\<lambda>d. d = boughtIn k u s amt key d0"] sql_rules | rule sql_splits stable_quiet [OF c]
      | rule outcome_before [OF c], assumption, simp; fail | rule outcome_unknown, assumption, simp; fail
      | rule outcome_after, assumption, simp, simp | simp add: new; fail
      | elim exE conjE, simp only: , rule buy_in_effect [OF _ assms(3)], assumption+)+

lemma outcome_bought:
  assumes "undisturbed c" "ledgerRow (fst c) u key d0 = None" "walletOf u d0 = Some bal" "\<not> bal < amt"
    "inside c (\<lambda>d. d = d0) (\<lambda>d. d = d0 \<and> walletOf u d = Some bal) m"
  shows "leads (storeBuyIn k u s amt key bal m)
    (outcome c d0 (boughtIn k u s amt key d0) \<lparr>buy_in_wallet = balance (the (map_of (db_wallets d0) u)) - amt, table_stack = amt\<rparr>)"
  using storeBuyIn_outcome [OF assms(1,2) _ assms(5), of amt k s] assms(3,4) by (auto simp: walletOf_def)

text \<open>The first attempt, and an attempt when the buy-in is already in the database.\<close>

lemma transactBuyIn_outcome:
  assumes c: "undisturbed c" and new: "ledgerRow (fst c) u key d0 = None"
  shows "inside c (\<lambda>d. d = d0) (\<lambda>d. d = d0) m \<Longrightarrow>
    leads (transactBuyIn k u s amt key m)
      (outcome c d0 (boughtIn k u s amt key d0) \<lparr>buy_in_wallet = balance (the (map_of (db_wallets d0) u)) - amt, table_stack = amt\<rparr>)"
  unfolding transactBuyIn_def
  by (erule sql_rules | rule sql_splits | rule outcome_before [OF c], assumption, simp; fail | rule outcome_bought [OF c new], simp, assumption, erule inside_mono, simp)+

lemma buy_in_outcome:
  assumes c: "undisturbed c" and new: "ledgerRow (fst c) u key d0 = None"
  shows "idle c (\<lambda>d. d = d0) m \<Longrightarrow>
    leads (sqlReserveBuyIn k u s amt key m)
      (outcome c d0 (boughtIn k u s amt key d0) \<lparr>buy_in_wallet = balance (the (map_of (db_wallets d0) u)) - amt, table_stack = amt\<rparr>)"
  unfolding sqlReserveBuyIn_def
  by (rule post_if; (rule post_Pair, rule outcome_before [OF c], assumption, simp | erule withLease_post))
    (erule sql_rules | rule sql_splits | erule outcome_release | erule transactBuyIn_outcome [OF c new]
      | rule outcome_before [OF c], assumption, simp; fail | simp add: new; fail)+

lemma idle_False [simp]: "\<not> idle c (\<lambda>_. False) m"
  by (simp add: idle_def)

lemma storeBuyIn_again:
  assumes c: "undisturbed c" and row: "ledgerRow (fst c) u key d1 = Some row" "replayBuyIn (Some (replayOf row)) k amt = storageOk v"
    and seat: "map_of (db_seats d1) (k, u) \<noteq> None"
  shows "inside c (\<lambda>d. d = d1) (\<lambda>d. d = d1) m \<Longrightarrow> leads (storeBuyIn k u s amt key bal m) (outcome c d1 d1 v)"
  unfolding storeBuyIn_def
  by (erule commit_inside [where J' = "\<lambda>_. False"] sql_rules | rule sql_splits stable_quiet [OF c]
      | rule outcome_before [OF c], assumption, simp; fail | rule outcome_unknown, assumption, simp; fail
      | clarsimp simp: outcome_def leads_def row; fail | clarsimp simp: seat insertSeat_def split: if_splits; fail)+

lemma transactBuyIn_again:
  assumes c: "undisturbed c" and row: "ledgerRow (fst c) u key d1 = Some row" "replayBuyIn (Some (replayOf row)) k amt = storageOk v"
    and seat: "map_of (db_seats d1) (k, u) \<noteq> None"
  shows "inside c (\<lambda>d. d = d1) (\<lambda>d. d = d1) m \<Longrightarrow> leads (transactBuyIn k u s amt key m) (outcome c d1 d1 v)"
  unfolding transactBuyIn_def
  by (erule sql_rules | rule sql_splits | rule outcome_before [OF c], assumption, simp; fail
      | rule storeBuyIn_again [OF c row seat], erule inside_mono, simp)+

lemma buy_in_again:
  assumes c: "undisturbed c" and row: "ledgerRow (fst c) u key d1 = Some row" "replayBuyIn (Some (replayOf row)) k amt = storageOk v"
    and seat: "map_of (db_seats d1) (k, u) \<noteq> None"
  shows "idle c (\<lambda>d. d = d1) m \<Longrightarrow> leads (sqlReserveBuyIn k u s amt key m) (outcome c d1 d1 v)"
  unfolding sqlReserveBuyIn_def
  by (rule post_if; (rule post_Pair, rule outcome_before [OF c], assumption, simp | erule withLease_post))
    (erule sql_rules | rule sql_splits | erule outcome_release | erule transactBuyIn_again [OF c row seat]
      | rule outcome_before [OF c], assumption, simp; fail | clarsimp simp: outcome_def leads_def row; fail)+

section \<open>Cash-outs\<close>

lemma storeCashOut_outcome:
  assumes c: "undisturbed c"
  shows "inside c (\<lambda>d. d = d0) (\<lambda>d. d = d0 \<and> stackOf k u d = Some x \<and> walletOf u d = Some bal) m \<Longrightarrow>
    leads (storeCashOut k u key x bal m) (outcome c d0 (cashedOut k u key d0) \<lparr>cash_out_wallet = bal + x, returned_stack = x\<rparr>)"
  unfolding storeCashOut_def Let_def
  by (erule commit_inside [where J' = "\<lambda>d. d = cashedOut k u key d0"] sql_rules | rule sql_splits stable_quiet [OF c]
      | rule outcome_before [OF c], assumption, simp; fail | rule outcome_unknown, assumption, simp; fail
      | rule outcome_after, assumption, simp, simp
      | elim exE conjE, simp only: , rule cash_out_effect, assumption+)+

lemma outcome_cashed:
  assumes "undisturbed c" "stackOf k u d0 = Some x" "walletOf u d0 = Some bal"
    "inside c (\<lambda>d. d = d0) (\<lambda>d. d = d0 \<and> stackOf k u d = Some x \<and> walletOf u d = Some bal) m"
    "map_of (db_seats d0) (k, u) = Some r" "map_of (db_wallets d0) u = Some w"
  shows "leads (storeCashOut k u key x bal m)
    (outcome c d0 (cashedOut k u key d0) \<lparr>cash_out_wallet = balance w + row_stack r, returned_stack = row_stack r\<rparr>)"
  using storeCashOut_outcome [OF assms(1,4), of key] assms(2,3,5,6) by (simp add: stackOf_def walletOf_def)

lemma cash_out_outcome:
  assumes c: "undisturbed c" and new: "ledgerRow (fst c) u key d0 = None"
    and rows: "map_of (db_seats d0) (k, u) = Some r" "map_of (db_wallets d0) u = Some w"
  shows "idle c (\<lambda>d. d = d0) m \<Longrightarrow>
    leads (sqlCashOut k u key m) (outcome c d0 (cashedOut k u key d0) \<lparr>cash_out_wallet = balance w + row_stack r, returned_stack = row_stack r\<rparr>)"
  unfolding sqlCashOut_def transactCashOut_def
  by (rule post_if; (rule post_Pair, rule outcome_before [OF c], assumption, simp | erule withLease_post))
    (erule sql_rules | rule sql_splits | erule outcome_release
      | rule outcome_before [OF c], assumption, simp; fail
      | rule outcome_cashed [OF c _ _ _ rows], simp, simp, erule inside_mono, simp
      | simp add: new; fail)+

lemma cash_out_again:
  assumes c: "undisturbed c" and row: "ledgerRow (fst c) u key d1 = Some row" "replayCashOut (Some (replayOf row)) k = storageOk v"
    and seat: "map_of (db_seats d1) (k, u) = None"
  shows "idle c (\<lambda>d. d = d1) m \<Longrightarrow> leads (sqlCashOut k u key m) (outcome c d1 d1 v)"
  unfolding sqlCashOut_def transactCashOut_def
  by (rule post_if; (rule post_Pair, rule outcome_before [OF c], assumption, simp | erule withLease_post))
    (erule sql_rules | rule sql_splits | erule outcome_release
      | rule outcome_before [OF c], assumption, simp; fail
      | clarsimp simp: outcome_def leads_def row stackOf_def seat; fail)+

section \<open>Any number of attempts\<close>

fun attempts :: "nat \<Rightarrow> (MySql \<Rightarrow> 'a \<times> MySql) \<Rightarrow> MySql \<Rightarrow> 'a list \<times> MySql" where
  "attempts 0 op m = ([], m)"
| "attempts (Suc n) op m = (case op m of (r, m1) \<Rightarrow> case attempts n op m1 of (rs, m2) \<Rightarrow> (r # rs, m2))"

lemma idle_or: "undisturbed c \<Longrightarrow> idle c (\<lambda>d. d = d0 \<or> d = d1) m \<longleftrightarrow> idle c (\<lambda>d. d = d0) m \<or> idle c (\<lambda>d. d = d1) m"
  by (auto simp: idle_def stable_quiet)

lemma attempts_again:
  assumes "\<And>m. idle c (\<lambda>d. d = d1) m \<Longrightarrow> leads (op m) (outcome c d1 d1 v)"
  shows "idle c (\<lambda>d. d = d1) m \<Longrightarrow> attempts n op m = (rs, m') \<Longrightarrow>
    idle c (\<lambda>d. d = d1) m' \<and> (\<forall>r \<in> set rs. storage_error r = storage_ok \<longrightarrow> storage_value r = Some v)"
proof (induction n arbitrary: m rs)
  case (Suc n)
  obtain r m1 where r: "op m = (r, m1)" by fastforce
  obtain rs1 where rs: "attempts n op m1 = (rs1, m')" "rs = r # rs1" using Suc.prems(2) r by (auto split: prod.splits)
  have "idle c (\<lambda>d. d = d1) m1" "storage_error r = storage_ok \<longrightarrow> storage_value r = Some v"
    using assms [OF Suc.prems(1)] r by (auto simp: leads_def outcome_def split: if_splits)
  then show ?case using Suc.IH [OF _ rs(1)] rs(2) by simp
qed simp

lemma attempts_once:
  assumes "undisturbed c" "\<And>m. idle c (\<lambda>d. d = d0) m \<Longrightarrow> leads (op m) (outcome c d0 d1 v)"
    "\<And>m. idle c (\<lambda>d. d = d1) m \<Longrightarrow> leads (op m) (outcome c d1 d1 v)"
  shows "idle c (\<lambda>d. d = d0) m \<Longrightarrow> attempts n op m = (rs, m') \<Longrightarrow>
    idle c (\<lambda>d. d = d0 \<or> d = d1) m' \<and>
    (\<forall>r \<in> set rs. storage_error r = storage_ok \<longrightarrow> storage_value r = Some v \<and> idle c (\<lambda>d. d = d1) m')"
proof (induction n arbitrary: m rs)
  case (Suc n)
  obtain r m1 where r: "op m = (r, m1)" by fastforce
  obtain rs1 where rs: "attempts n op m1 = (rs1, m')" "rs = r # rs1" using Suc.prems(2) r by (auto split: prod.splits)
  have known: "outcome c d0 d1 v r m1" using assms(2) [OF Suc.prems(1)] r by (simp add: leads_def)
  show ?case
  proof (cases "idle c (\<lambda>d. d = d1) m1")
    case True
    then show ?thesis using attempts_again [OF assms(3) True rs(1)] known rs(2) idle_or [OF assms(1)] by (auto simp: outcome_def split: if_splits)
  next
    case False
    then have "idle c (\<lambda>d. d = d0) m1" "storage_error r \<noteq> storage_ok"
      using known idle_or [OF assms(1), of d0 d1 m1] by (auto simp: outcome_def split: if_splits)
    then show ?thesis using Suc.IH [OF _ rs(1)] rs(2) by simp
  qed
qed (simp add: idle_or [OF assms(1)])

lemma boughtIn_recorded:
  assumes "ledgerRow c u key d = None" "map_of (db_wallets d) u = Some w"
  shows "ledgerRow c u key (boughtIn k u s amt key d) =
      Some \<lparr>delta_amount = - amt, balance_after = balance w - amt, ledger_reason = ''table_buy_in'', reference_id = to_string (unat k)\<rparr>"
    "map_of (db_seats (boughtIn k u s amt key d)) (k, u) \<noteq> None"
  using ledgerRow_put [OF assms(1)] assms(2) by (simp_all add: boughtIn_def Let_def ledgerRow_def map_simps)

lemma cashedOut_recorded:
  assumes "ledgerRow c u key d = None" "map_of (db_wallets d) u = Some w" "map_of (db_seats d) (k, u) = Some r"
  shows "ledgerRow c u key (cashedOut k u key d) =
      Some \<lparr>delta_amount = row_stack r, balance_after = balance w + row_stack r, ledger_reason = ''table_cash_out'', reference_id = to_string (unat k)\<rparr>"
    "map_of (db_seats (cashedOut k u key d)) (k, u) = None"
  using ledgerRow_put [OF assms(1)] assms(2,3) by (simp_all add: cashedOut_def Let_def ledgerRow_def map_simps)

lemma quiet_idle:
  assumes "transaction m = None" "others m = (\<lambda>_ d. d)"
  shows "undisturbed (collate m, others m, unhex m)" "idle (collate m, others m, unhex m) (\<lambda>d. d = committed_db m) m"
  using assms by (simp_all add: undisturbed_def idle_def stable_def)

text \<open>C6. A buy-in happens once. However often it is tried with one new key, and whichever calls to the database fail or lose
  their answers on the way, the database is in the end either untouched or has exactly one buy-in: the seat, the wallet less the
  amount, the entry in the ledger. When an attempt reports success, the buy-in is in the database, and the receipt is the same
  for every attempt that succeeds.\<close>
theorem buy_in_exactly_once:
  assumes "transaction m = None" "others m = (\<lambda>_ d. d)" "ledgerRow (collate m) u key (committed_db m) = None"
    "map_of (db_wallets (committed_db m)) u = Some w" "attempts n (sqlReserveBuyIn k u s amt key) m = (rs, m')"
  shows "committed_db m' \<in> {committed_db m, boughtIn k u s amt key (committed_db m)} \<and>
    (\<forall>r \<in> set rs. storage_error r = storage_ok \<longrightarrow>
      storage_value r = Some \<lparr>buy_in_wallet = balance w - amt, table_stack = amt\<rparr> \<and> committed_db m' = boughtIn k u s amt key (committed_db m))"
proof -
  let ?c = "(collate m, others m, unhex m)" and ?d0 = "committed_db m" and ?v = "\<lparr>buy_in_wallet = balance w - amt, table_stack = amt\<rparr>"
  note start = quiet_idle [OF assms(1,2)] and recorded = boughtIn_recorded [OF assms(3,4), of k s amt]
  have again: "leads (sqlReserveBuyIn k u s amt key m1) (outcome ?c (boughtIn k u s amt key ?d0) (boughtIn k u s amt key ?d0) ?v)"
    if "idle ?c (\<lambda>d. d = boughtIn k u s amt key ?d0) m1" for m1
  proof (cases "0 < amt")
    case True
    then show ?thesis using buy_in_again [OF start(1) _ _ recorded(2) that, of key _ amt ?v s] recorded(1) by (simp add: replayBuyIn_def replayOf_def)
  next
    case False
    then show ?thesis using that by (simp add: sqlReserveBuyIn_def leads_def outcome_def)
  qed
  have first: "leads (sqlReserveBuyIn k u s amt key m1) (outcome ?c ?d0 (boughtIn k u s amt key ?d0) ?v)" if "idle ?c (\<lambda>d. d = ?d0) m1" for m1
    using buy_in_outcome [OF start(1) _ that, of u key k s amt] assms(3,4) by simp
  from attempts_once [OF start(1) first again start(2) assms(5)] show ?thesis by (auto simp: idle_def)
qed

text \<open>C7. A cash-out happens once, in the same sense: after any number of attempts with one new key and any failures, the
  database is untouched or has exactly one cash-out, in which the stack of the seat goes to the wallet and the seat is free.\<close>
theorem cash_out_exactly_once:
  assumes "transaction m = None" "others m = (\<lambda>_ d. d)" "ledgerRow (collate m) u key (committed_db m) = None"
    "map_of (db_wallets (committed_db m)) u = Some w" "map_of (db_seats (committed_db m)) (k, u) = Some x" "0 \<le> row_stack x"
    "attempts n (sqlCashOut k u key) m = (rs, m')"
  shows "committed_db m' \<in> {committed_db m, cashedOut k u key (committed_db m)} \<and>
    (\<forall>r \<in> set rs. storage_error r = storage_ok \<longrightarrow>
      storage_value r = Some \<lparr>cash_out_wallet = balance w + row_stack x, returned_stack = row_stack x\<rparr> \<and>
      committed_db m' = cashedOut k u key (committed_db m))"
proof -
  let ?c = "(collate m, others m, unhex m)" and ?d0 = "committed_db m" and ?v = "\<lparr>cash_out_wallet = balance w + row_stack x, returned_stack = row_stack x\<rparr>"
  note start = quiet_idle [OF assms(1,2)] and recorded = cashedOut_recorded [OF assms(3-5)]
  have again: "leads (sqlCashOut k u key m1) (outcome ?c (cashedOut k u key ?d0) (cashedOut k u key ?d0) ?v)"
    if "idle ?c (\<lambda>d. d = cashedOut k u key ?d0) m1" for m1
    using cash_out_again [OF start(1) _ _ recorded(2) that, of key _ ?v] recorded(1) assms(6) by (simp add: replayCashOut_def replayOf_def)
  have first: "leads (sqlCashOut k u key m1) (outcome ?c ?d0 (cashedOut k u key ?d0) ?v)" if "idle ?c (\<lambda>d. d = ?d0) m1" for m1
    using cash_out_outcome [OF start(1) _ assms(5,4) that, of key] assms(3) by simp
  from attempts_once [OF start(1) first again start(2) assms(7)] show ?thesis by (auto simp: idle_def)
qed

section \<open>Without failures\<close>

definition healthy :: "MySql \<Rightarrow> bool" where
  "healthy m \<longleftrightarrow> (\<forall>n. faults m n = Works) \<and> others m = (\<lambda>_ d. d)"

text \<open>What the rules of the table, the wallet and the schema ask of a buy-in.\<close>

definition mayBuyIn :: "u64 \<Rightarrow> UserId \<Rightarrow> u32 \<Rightarrow> int \<Rightarrow> Database \<Rightarrow> bool" where
  "mayBuyIn k u s amt d \<longleftrightarrow> 0 < amt \<and> map_of (db_users d) u \<noteq> None \<and> tinyint (ucast s) \<and>
     (case tableRules k d of None \<Rightarrow> False | Some (n, least, most) \<Rightarrow> ucast s < n \<and> least \<le> amt \<and> amt \<le> most) \<and>
     (case map_of (db_wallets d) u of None \<Rightarrow> False | Some w \<Rightarrow> amt \<le> balance w \<and> bigint (balance w)) \<and>
     map_of (db_seats d) (k, u) = None \<and> (\<forall>((j, v), r) \<in> set (db_seats d). j = k \<longrightarrow> row_seat_no r \<noteq> ucast s)"

text \<open>A connection that is up, with its database, its transaction and the number of calls.\<close>

definition linkedAt :: "MySql \<Rightarrow> Database \<Rightarrow> Database option \<Rightarrow> nat \<Rightarrow> MySql" where
  "linkedAt m d t n = m\<lparr>committed_db := d, transaction := t, link_up := True, server_calls := n\<rparr>"

lemma healthy_calls:
  assumes "healthy m"
  shows "prepare (linkedAt m d t n) = (True, linkedAt m d t (Suc n))"
    "fetch q (linkedAt m d None n) = (Inr (q d), linkedAt m d None (Suc n))"
    "fetch r (linkedAt m d (Some d') n) = (Inr (r d'), linkedAt m d (Some d') (Suc n))"
    "stmt d' = Inr (k, d'') \<Longrightarrow> execute stmt (linkedAt m d (Some d') n) = (Inr k, linkedAt m d (Some d'') (Suc n))"
    "autocommit False (linkedAt m d None n) = (True, linkedAt m d (Some d) (Suc n))"
    "autocommit True (linkedAt m d (Some d') n) = (True, linkedAt m d' None (Suc n))"
    "mysqlCommit (linkedAt m d (Some d') n) = (True, linkedAt m d' (Some d') (Suc n))"
    "acquire m = (True, linkedAt m (committed_db m) None (Suc (server_calls m)))"
    "collate (linkedAt m d t n) = collate m" "committed_db (release (linkedAt m d None n)) = d"
  using assms by (simp_all add: healthy_def linkedAt_def call_defs acquire_def release_def Let_def)

lemma mayBuyIn_statements:
  assumes "mayBuyIn k u s amt d" "ledgerRow c u key d = None" "map_of (db_wallets d) u = Some w"
  obtains d1 d2 where "insertSeat k u (ucast s) amt d = Inr (1, d1)" "changeWallet u (\<lambda>w. amt \<le> balance w) (- amt) d1 = Inr (1, d2)"
    "insertLedger c u key \<lparr>delta_amount = - amt, balance_after = balance w - amt, ledger_reason = ''table_buy_in'', reference_id = to_string (unat k)\<rparr> d2
      = Inr (1, boughtIn k u s amt key d)"
proof -
  have w: "amt \<le> balance w" "bigint (balance w)" and "0 < amt" using assms(1,3) by (simp_all add: mayBuyIn_def)
  then have fits: "bigint amt" "bigint (balance w - amt)" "bigint (- amt)" "0 \<le> balance w - amt" by (auto simp: bigint_def)
  let ?d1 = "d\<lparr>db_seats := put (k, u) \<lparr>row_seat_no = ucast s, row_stack = amt, hand_start_stack = amt, seat_version = 0\<rparr> (db_seats d)\<rparr>"
  let ?w = "w\<lparr>balance := balance w + - amt, wallet_version := wallet_version w + 1\<rparr>"
  have "map_of (db_tables d) k \<noteq> None" using assms(1) by (auto simp: mayBuyIn_def tableRules_def split: option.splits)
  then have "insertSeat k u (ucast s) amt d = Inr (1, ?d1)"
    using assms(1) fits(1) by (fastforce simp: mayBuyIn_def insertSeat_def)
  moreover have "?w \<noteq> w"
  proof
    assume "?w = w"
    then have "wallet_version ?w = wallet_version w" by (rule arg_cong)
    then show False by simp
  qed
  then have "changeWallet u (\<lambda>w. amt \<le> balance w) (- amt) ?d1 = Inr (1, ?d1\<lparr>db_wallets := put u ?w (db_wallets d)\<rparr>)"
    using assms(3) w fits by (simp add: changeWallet_def updateRow_def walletFits_def)
  moreover have "insertLedger c u key \<lparr>delta_amount = - amt, balance_after = balance w - amt, ledger_reason = ''table_buy_in'', reference_id = to_string (unat k)\<rparr>
      (?d1\<lparr>db_wallets := put u ?w (db_wallets d)\<rparr>) = Inr (1, boughtIn k u s amt key d)"
    using assms fits by (simp add: insertLedger_def ledgerRow_def boughtIn_def Let_def mayBuyIn_def)
  ultimately show ?thesis by (rule that)
qed

text \<open>C8. A buy-in that the rules of the table, the wallet and the schema allow succeeds at the first attempt when the database works:
  the answer is the receipt, and the database has the buy-in.\<close>
theorem allowed_buy_in_succeeds:
  assumes "healthy m" "mayBuyIn k u s amt (committed_db m)" "ledgerRow (collate m) u key (committed_db m) = None"
    "k \<noteq> 0" "u \<noteq> 0" "key \<noteq> []" "length key \<le> 96" "sqlReserveBuyIn k u s amt key m = (r, m')"
  shows "storage_error r = storage_ok \<and> committed_db m' = boughtIn k u s amt key (committed_db m)"
proof -
  let ?d = "committed_db m"
  obtain w n least most where w: "map_of (db_wallets ?d) u = Some w" "tableRules k ?d = Some (n, least, most)" "ucast s < n" "least \<le> amt" "amt \<le> most"
      "amt \<le> balance w" "0 < amt"
    using assms(2) by (auto simp: mayBuyIn_def split: option.splits)
  obtain d1 d2 where stmts: "insertSeat k u (ucast s) amt ?d = Inr (1, d1)" "changeWallet u (\<lambda>w. amt \<le> balance w) (- amt) d1 = Inr (1, d2)"
    "insertLedger (collate m) u key \<lparr>delta_amount = - amt, balance_after = balance w - amt, ledger_reason = ''table_buy_in'', reference_id = to_string (unat k)\<rparr> d2
      = Inr (1, boughtIn k u s amt key ?d)"
    using mayBuyIn_statements [OF assms(2,3) w(1)] by blast
  have "\<not> n \<le> ucast s" "\<not> amt < least" "\<not> most < amt" "\<not> balance w < amt" "\<not> amt \<le> 0" using w(3-7) by (simp_all add: not_le)
  then show ?thesis using assms(3-8) w(1,2) stmts
    by (auto simp: sqlReserveBuyIn_def withLease_def healthy_calls [OF assms(1)] queryLedger_def querySigned_def transactBuyIn_def
        storeBuyIn_def beginTransaction_def statement_def commit_def walletOf_def)
qed

section \<open>Examples\<close>

text \<open>The answer to the commit of the first attempt is lost; the second attempt finds the entry in the ledger.\<close>

definition sqlSat :: Database where
  "sqlSat = boughtIn 1000 1 2 2000 ''b'' sqlDb"

theorem buy_in_exactly_once_witness:
  "let run = attempts 2 (sqlReserveBuyIn 1000 1 2 2000 ''b'') (sqlServer 14 sqlDb) in
   map storage_error (fst run) = [unavailable, storage_ok] \<and> committed_db (snd run) = sqlSat"
proof -
  let ?m = "sqlServer 14 sqlDb"
  obtain rs m' where run: "attempts 2 (sqlReserveBuyIn 1000 1 2 2000 ''b'') ?m = (rs, m')" by fastforce
  have "map storage_error (fst (attempts 2 (sqlReserveBuyIn 1000 1 2 2000 ''b'') ?m)) = [unavailable, storage_ok]" by code_simp
  then have rs: "map storage_error rs = [unavailable, storage_ok]" using run by simp
  then have "\<exists>r \<in> set rs. storage_error r = storage_ok" by (auto simp: map_eq_Cons_conv)
  then have "committed_db m' = boughtIn 1000 1 2 2000 ''b'' (committed_db ?m)"
    using buy_in_exactly_once [of ?m 1 "''b''" _ 2 1000 2 2000, OF _ _ _ _ run] by (auto simp: sqlServer_def sqlDb_def ledgerRow_def)
  then show ?thesis using run rs by (simp add: sqlSat_def sqlServer_def)
qed

theorem cash_out_exactly_once_witness:
  "let run = attempts 2 (sqlCashOut 1000 1 ''c'') (sqlServer 16 sqlSat) in
   map storage_error (fst run) = [unavailable, storage_ok] \<and> committed_db (snd run) = cashedOut 1000 1 ''c'' sqlSat"
proof -
  let ?m = "sqlServer 16 sqlSat"
  obtain rs m' where run: "attempts 2 (sqlCashOut 1000 1 ''c'') ?m = (rs, m')" by fastforce
  have "map storage_error (fst (attempts 2 (sqlCashOut 1000 1 ''c'') ?m)) = [unavailable, storage_ok]" by code_simp
  then have rs: "map storage_error rs = [unavailable, storage_ok]" using run by simp
  then have "\<exists>r \<in> set rs. storage_error r = storage_ok" by (auto simp: map_eq_Cons_conv)
  then have "committed_db m' = cashedOut 1000 1 ''c'' (committed_db ?m)"
    using cash_out_exactly_once [of ?m 1 "''c''" _ 1000 _ 2, OF _ _ _ _ _ _ run]
    by (auto simp: sqlServer_def sqlSat_def sqlDb_def boughtIn_def Let_def put_def ledgerRow_def)
  then show ?thesis using run rs by (simp add: sqlServer_def)
qed

theorem allowed_buy_in_succeeds_witness:
  "let m = (sqlServer 0 sqlDb)\<lparr>faults := \<lambda>_. Works\<rparr>; run = sqlReserveBuyIn 1000 1 2 2000 ''b'' m in
   mayBuyIn 1000 1 2 2000 sqlDb \<and> storage_error (fst run) = storage_ok \<and> committed_db (snd run) = sqlSat"
proof -
  let ?m = "(sqlServer 0 sqlDb)\<lparr>faults := \<lambda>_. Works\<rparr>"
  have may: "mayBuyIn 1000 1 2 2000 sqlDb" by code_simp
  obtain r m' where run: "sqlReserveBuyIn 1000 1 2 2000 ''b'' ?m = (r, m')" by fastforce
  have "healthy ?m" "committed_db ?m = sqlDb" "ledgerRow (collate ?m) 1 ''b'' (committed_db ?m) = None"
    by (simp_all add: healthy_def sqlServer_def sqlDb_def ledgerRow_def)
  then show ?thesis using allowed_buy_in_succeeds [OF _ _ _ _ _ _ _ run] may run by (simp add: sqlSat_def)
qed

end
