(* ===== verification/Mysql_Accounts.thy ===== *)
theory Mysql_Accounts
  imports Mysql_Account_Store Mysql_Once Mysql_Correct
begin

text \<open>
  What the accounts in MySQL promise, whatever fails: a registration happens completely or not at all, and a session that has been
  revoked is never accepted again.
\<close>

section \<open>Registrations\<close>

definition registered :: "UserId \<Rightarrow> string \<Rightarrow> string \<Rightarrow> int \<Rightarrow> Database \<Rightarrow> Database" where
  "registered i username hash chips d =
     d\<lparr>db_users := put i \<lparr>row_username = username, row_password_hash = hash, row_disabled = False\<rparr> (db_users d),
       db_wallets := put i \<lparr>balance = chips, wallet_version = 0\<rparr> (db_wallets d),
       db_ledger := put (i, initialKey i) \<lparr>delta_amount = chips, balance_after = chips, ledger_reason = ''initial_grant'', reference_id = []\<rparr>
         (db_ledger d)\<rparr>"

text \<open>An account that can be added.\<close>

definition newAccount :: "(string \<Rightarrow> string) \<Rightarrow> UserId \<Rightarrow> string \<Rightarrow> int \<Rightarrow> Database \<Rightarrow> bool" where
  "newAccount coll i username chips d \<longleftrightarrow> i \<noteq> 0 \<and> map_of (db_users d) i = None \<and> map_of (db_wallets d) i = None \<and> 0 \<le> chips \<and>
     (\<forall>(j, r) \<in> set (db_users d). coll (row_username r) \<noteq> coll username)"

lemma registration_effect:
  assumes "insertUser m i username hash d0 = Inr (n, d1)" "insertWallet i chips d1 = Inr (n', d2)"
    "insertLedger c i (initialKey i) \<lparr>delta_amount = chips, balance_after = chips, ledger_reason = ''initial_grant'', reference_id = []\<rparr> d2 = Inr (n'', d3)"
  shows "d3 = registered i username hash chips d0 \<and> newAccount (collate m) i username chips d0"
proof -
  have d1: "d1 = d0\<lparr>db_users := put i \<lparr>row_username = username, row_password_hash = hash, row_disabled = False\<rparr> (db_users d0)\<rparr>"
      "i \<noteq> 0" "map_of (db_users d0) i = None" "\<forall>(j, r) \<in> set (db_users d0). collate m (row_username r) \<noteq> collate m username"
    using assms(1) by (auto simp: insertUser_def split: if_splits)
  have d2: "d2 = d1\<lparr>db_wallets := put i \<lparr>balance = chips, wallet_version = 0\<rparr> (db_wallets d1)\<rparr>" "map_of (db_wallets d1) i = None" "0 \<le> chips"
    using assms(2) by (auto simp: insertWallet_def walletFits_def split: if_splits)
  show ?thesis using d1 d2 insertLedger_Inr [OF assms(3)] by (simp add: registered_def newAccount_def)
qed

definition registration :: "surroundings \<Rightarrow> Database \<Rightarrow> string \<Rightarrow> string \<Rightarrow> int \<Rightarrow> UserRecord StorageResult \<Rightarrow> MySql \<Rightarrow> bool" where
  "registration c d0 username hash chips r m \<longleftrightarrow>
     (if storage_error r = storage_ok
      then \<exists>i. storage_value r = Some \<lparr>user_key = i, user_name = username, password_hash = hash, wallet_balance = chips, disabled = False\<rparr> \<and>
        idle c (\<lambda>d. d = registered i username hash chips d0 \<and> newAccount (fst c) i username chips d0) m
      else \<exists>i. idle c (\<lambda>d. d = d0 \<or> d = registered i username hash chips d0 \<and> newAccount (fst c) i username chips d0) m)"

lemma registration_before:
  "undisturbed c \<Longrightarrow> idle c (\<lambda>d. d = d0) m \<Longrightarrow> storage_error r \<noteq> storage_ok \<Longrightarrow> registration c d0 username hash chips r m"
  by (simp add: registration_def idle_def stable_quiet)

lemma registration_unknown:
  "idle c (\<lambda>d. d = d0 \<or> d = registered i username hash chips d0 \<and> newAccount (fst c) i username chips d0) m \<Longrightarrow> storage_error r \<noteq> storage_ok \<Longrightarrow>
    registration c d0 username hash chips r m"
  by (auto simp: registration_def)

lemma registration_after:
  "idle c (\<lambda>d. d = registered i username hash chips d0 \<and> newAccount (fst c) i username chips d0) m \<Longrightarrow>
    registration c d0 username hash chips (storageOk \<lparr>user_key = i, user_name = username, password_hash = hash, wallet_balance = chips, disabled = False\<rparr>) m"
  by (auto simp: registration_def)

lemma registration_release: "registration c d0 username hash chips r m \<Longrightarrow> registration c d0 username hash chips r (release m)"
  using release_idle by (fastforce simp: registration_def split: if_splits)

lemma autocommit_begins [sql_rules]:
  assumes "idle c J m" "\<And>m1. idle c J m1 \<Longrightarrow> leads (f False m1) Q" "\<And>m1. inside c J J m1 \<Longrightarrow> leads (f True m1) Q"
  shows "leads (case_prod f (autocommit False m)) Q"
  using beginTransaction_idle [OF assms] by (simp add: beginTransaction_def)

lemma transactCreateUser_registers:
  assumes c: "undisturbed c" and m: "collate m = fst c"
  shows "inside c (\<lambda>d. d = d0) (\<lambda>d. d = d0) m \<Longrightarrow> leads (transactCreateUser username hash chips m) (registration c d0 username hash chips)"
  unfolding transactCreateUser_def storeGrant_def Let_def
  by (erule commit_inside [where J' = "\<lambda>d. d = registered (new_ids m (server_calls m)) username hash chips d0 \<and>
        newAccount (fst c) (new_ids m (server_calls m)) username chips d0"] sql_rules | rule sql_splits stable_quiet [OF c]
      | rule registration_before [OF c], assumption, simp; fail | rule registration_unknown, assumption, simp; fail
      | erule registration_after
      | elim exE conjE, simp only: m [symmetric], rule registration_effect, assumption+)+

lemma inside_collate: "inside c J P m \<Longrightarrow> collate m = fst c"
  by (auto simp: inside_def)

lemma create_registers:
  assumes c: "undisturbed c"
  shows "idle c (\<lambda>d. d = d0) m \<Longrightarrow> leads (sqlCreateUser username hash chips m) (registration c d0 username hash chips)"
  unfolding sqlCreateUser_def
  by (erule withLease_post)
    (erule sql_rules | rule sql_splits | erule registration_release | rule registration_before [OF c], assumption, simp; fail
      | rule transactCreateUser_registers [OF c inside_collate], assumption, assumption)+

lemma registered_ok:
  assumes "db_ok d" "newAccount coll i username chips d"
  shows "db_ok (registered i username hash chips d) \<and> sqlMoney (registered i username hash chips d) = sqlMoney d + chips"
proof -
  have new: "map_of (db_wallets d) i = None" "0 \<le> chips" using assms(2) by (simp_all add: newAccount_def)
  have "wallet_rows_ok (db_wallets d)" "seat_rows_ok (dom (map_of (db_wallets d))) (db_seats d)" using assms(1) by (simp_all add: db_ok_def)
  then have "db_ok (registered i username hash chips d)"
    using new(2) by (auto simp: db_ok_def registered_def wallet_rows_ok_put map_simps seat_rows_ok_def)
  then show ?thesis using new(1) by (simp add: registered_def sqlMoney_def db_ok_sums [OF assms(1)])
qed

text \<open>C10. A registration happens completely or not at all. Whichever calls to the database fail, it leaves the database untouched or adds
  exactly one account under a new id and a new name: the user, the wallet with the chips, and the entry in the ledger. It reports
  success only when the account is in the database, and the chips of the database grow by the grant or not at all.\<close>
theorem registration_atomic:
  assumes "transaction m = None" "others m = (\<lambda>_ d. d)" "sqlCreateUser username hash chips m = (r, m')" "committed_db m = d" "committed_db m' = d'"
  shows "(d' = d \<or> (\<exists>i. newAccount (collate m) i username chips d \<and> d' = registered i username hash chips d)) \<and>
    (storage_error r = storage_ok \<longrightarrow>
      (\<exists>i. storage_value r = Some \<lparr>user_key = i, user_name = username, password_hash = hash, wallet_balance = chips, disabled = False\<rparr> \<and>
        newAccount (collate m) i username chips d \<and> d' = registered i username hash chips d)) \<and>
    (db_ok d \<longrightarrow> db_ok d' \<and> sqlMoney d' \<in> {sqlMoney d, sqlMoney d + chips})"
proof -
  have "registration (collate m, others m, unhex m) d username hash chips r m'"
    using create_registers [OF quiet_idle(1) [OF assms(1,2)], of d m username hash chips] quiet_idle(2) [OF assms(1,2)] assms(3,4)
    by (simp add: leads_def)
  then have "(d' = d \<or> (\<exists>i. newAccount (collate m) i username chips d \<and> d' = registered i username hash chips d)) \<and>
    (storage_error r = storage_ok \<longrightarrow>
      (\<exists>i. storage_value r = Some \<lparr>user_key = i, user_name = username, password_hash = hash, wallet_balance = chips, disabled = False\<rparr> \<and>
        newAccount (collate m) i username chips d \<and> d' = registered i username hash chips d))"
    using assms(5) by (auto simp: registration_def idle_def split: if_splits)
  moreover from this have "db_ok d' \<and> sqlMoney d' \<in> {sqlMoney d, sqlMoney d + chips}" if "db_ok d"
    using registered_ok [OF that] that by auto
  ultimately show ?thesis by blast
qed

section \<open>Revoked sessions\<close>

definition revokedRow :: "string \<Rightarrow> Database \<Rightarrow> bool" where
  "revokedRow t d \<longleftrightarrow> (\<exists>r. map_of (db_sessions d) t = Some r \<and> row_revoked r)"

lemma revokedRow_same: "revokedRow t d \<Longrightarrow> db_sessions d' = db_sessions d \<Longrightarrow> revokedRow t d'"
  by (simp add: revokedRow_def)

lemma account_statements:
  "insertUser m i username hash d = Inr (n, d') \<Longrightarrow> db_sessions d' = db_sessions d"
  "insertWallet i chips d = Inr (n, d') \<Longrightarrow> db_sessions d' = db_sessions d"
  "insertLedger coll i key row d = Inr (n, d') \<Longrightarrow> db_sessions d' = db_sessions d"
  by (auto simp: insertUser_def insertWallet_def insertLedger_def split: if_splits)

lemma insertSession_revoked: "revokedRow t d \<Longrightarrow> insertSession m x d = Inr (n, d') \<Longrightarrow> revokedRow t d'"
  by (auto simp: revokedRow_def insertSession_def map_simps split: option.splits if_splits)

lemma updateSession_revoked:
  "revokedRow t d \<Longrightarrow> updateSession m h condition change d = Inr (n, d') \<Longrightarrow> (\<And>r. condition r \<Longrightarrow> \<not> row_revoked r) \<Longrightarrow> revokedRow t d'"
  by (auto simp: revokedRow_def updateSession_def sessionWhere_def map_simps split: option.splits if_splits prod.splits)

lemma rotateRow_revoked: "revokedRow t d \<Longrightarrow> rotateRow m h x now d = Inr (n, d') \<Longrightarrow> revokedRow t d'"
  by (auto simp: revokedRow_def rotateRow_def sessionWhere_def liveRow_def Let_def map_simps split: option.splits if_splits prod.splits)

lemma create_revoked: "idle c (revokedRow t) m \<Longrightarrow> leads (sqlCreateUser username hash chips m) (\<lambda>x. idle c (revokedRow t))"
  unfolding sqlCreateUser_def transactCreateUser_def storeGrant_def Let_def
  by (erule withLease_keeps)
    (erule commit_keeps sql_rules | rule sql_splits | assumption | elim exE conjE, erule revokedRow_same, simp add: account_statements)+

lemma fetchUser_idle: "idle c J m \<Longrightarrow> leads (fetchUser q m) (\<lambda>x. idle c J)"
  unfolding fetchUser_def by (erule sql_rules | rule sql_splits | assumption)+

lemma find_user_idle:
  "idle c J m \<Longrightarrow> leads (sqlFindUserByName username m) (\<lambda>x. idle c J)" "idle c J m \<Longrightarrow> leads (sqlFindUserById i m) (\<lambda>x. idle c J)"
  unfolding sqlFindUserByName_def sqlFindUserById_def by (erule withLease_keeps, erule fetchUser_idle)+

lemma find_session_idle: "idle c J m \<Longrightarrow> leads (sqlFindSession h now m) (\<lambda>x. idle c J)"
  unfolding sqlFindSession_def by (erule withLease_keeps) (erule sql_rules | rule sql_splits | assumption)+

lemma session_writes_revoked:
  "idle c (revokedRow t) m \<Longrightarrow> leads (sqlStoreSession x m) (\<lambda>x. idle c (revokedRow t))"
  "idle c (revokedRow t) m \<Longrightarrow> leads (sqlRotateSession h x now m) (\<lambda>x. idle c (revokedRow t))"
  "idle c (revokedRow t) m \<Longrightarrow> leads (sqlRevokeSession h m) (\<lambda>x. idle c (revokedRow t))"
  "idle c (revokedRow t) m \<Longrightarrow> leads (sqlUpdateSessionSequence h expected replacement m) (\<lambda>x. idle c (revokedRow t))"
  unfolding sqlStoreSession_def sqlRotateSession_def sqlRevokeSession_def executeSessionWrite_def sqlUpdateSessionSequence_def
  by (erule withLease_keeps sql_rules | rule sql_splits post_result | assumption | erule insertSession_revoked, assumption
      | erule rotateRow_revoked, assumption | erule updateSession_revoked, assumption, simp)+

text \<open>Any calls of the account store, one after the other.\<close>

inductive account_run :: "MySql \<Rightarrow> MySql \<Rightarrow> bool" for m0 where
  begins: "account_run m0 m0"
| creates: "account_run m0 m \<Longrightarrow> sqlCreateUser username hash chips m = (r, m') \<Longrightarrow> account_run m0 m'"
| finds_name: "account_run m0 m \<Longrightarrow> sqlFindUserByName username m = (r, m') \<Longrightarrow> account_run m0 m'"
| finds_id: "account_run m0 m \<Longrightarrow> sqlFindUserById i m = (r, m') \<Longrightarrow> account_run m0 m'"
| stores: "account_run m0 m \<Longrightarrow> sqlStoreSession x m = (e, m') \<Longrightarrow> account_run m0 m'"
| finds_session: "account_run m0 m \<Longrightarrow> sqlFindSession h now m = (y, m') \<Longrightarrow> account_run m0 m'"
| rotates: "account_run m0 m \<Longrightarrow> sqlRotateSession h x now m = (e, m') \<Longrightarrow> account_run m0 m'"
| revokes: "account_run m0 m \<Longrightarrow> sqlRevokeSession h m = (e, m') \<Longrightarrow> account_run m0 m'"
| updates: "account_run m0 m \<Longrightarrow> sqlUpdateSessionSequence h expected replacement m = (e, m') \<Longrightarrow> account_run m0 m'"

lemma leads_to: "leads (op m) (\<lambda>x. idle c J) \<Longrightarrow> op m = (r, m') \<Longrightarrow> idle c J m'"
  by (simp add: leads_def)

lemma account_run_revoked: "account_run m0 m \<Longrightarrow> idle c (revokedRow t) m0 \<Longrightarrow> idle c (revokedRow t) m"
  by (induction rule: account_run.induct)
    (auto elim!: leads_to [rotated] intro: create_revoked find_user_idle find_session_idle session_writes_revoked)

lemma find_revoked:
  assumes "snd (snd c) h = Some t"
  shows "idle c (revokedRow t) m \<Longrightarrow> leads (sqlFindSession h now m) (\<lambda>r m'. storage_error r \<noteq> storage_ok)"
  unfolding sqlFindSession_def
  by (erule withLease_post) (erule sql_rules | rule sql_splits | assumption | simp; fail
      | clarsimp simp: assms sessionWhere_def revokedRow_def liveRow_def leads_def; fail)+

text \<open>A statement outside a transaction that reports one changed row has had its effect.\<close>

lemma execute_effect:
  assumes "idle c (\<lambda>_. True) m" "stable c J" "\<And>d d'. stmt d = Inr (1, d') \<Longrightarrow> J d'" "execute stmt m = (x, m1)"
  shows "idle c (\<lambda>_. True) m1 \<and> (x = Inr 1 \<longrightarrow> idle c J m1)"
  using assms by (auto simp: idle_def call_defs Let_def stable_def split: Fault.splits option.splits sum.splits if_splits)

lemma statement_effect:
  assumes "idle c (\<lambda>_. True) m" "stable c J" "\<And>d d'. unhex m = snd (snd c) \<Longrightarrow> stmt d = Inr (1, d') \<Longrightarrow> J d'"
    "\<And>x m1. idle c (\<lambda>_. True) m1 \<Longrightarrow> (x = Inr 1 \<longrightarrow> idle c J m1) \<Longrightarrow> leads (f x m1) Q"
  shows "leads (case_prod f (statement stmt m)) Q"
proof -
  have c: "unhex m = snd (snd c)" using assms(1) by (auto simp: idle_def)
  show ?thesis unfolding statement_cases
  proof (rule prepare_idle [OF assms(1)]; simp only: bool.case)
    show "idle c (\<lambda>_. True) m1 \<Longrightarrow> leads (f (Inl 0) m1) Q" for m1 by (rule assms(4)) simp_all
    fix m1
    assume "idle c (\<lambda>_. True) m1"
    then show "leads (case_prod f (execute stmt m1)) Q"
      using execute_effect [OF _ assms(2) assms(3) [OF c], of m1] assms(4) by (cases "execute stmt m1") auto
  qed
qed

definition after :: "surroundings \<Rightarrow> (Database \<Rightarrow> bool) \<Rightarrow> StorageError \<Rightarrow> MySql \<Rightarrow> bool" where
  "after c J e m \<longleftrightarrow> idle c (\<lambda>_. True) m \<and> (e = storage_ok \<longrightarrow> idle c J m)"

lemma updateSession_revokes:
  "unhex m h = Some t \<Longrightarrow> updateSession m h (\<lambda>r. \<not> row_revoked r) (\<lambda>r. r\<lparr>row_revoked := True\<rparr>) d = Inr (1, d') \<Longrightarrow> revokedRow t d'"
  by (auto simp: updateSession_def sessionWhere_def revokedRow_def map_simps split: option.splits if_splits prod.splits)

lemma revoke_result:
  assumes "stable c (revokedRow t)" "snd (snd c) h = Some t"
  shows "idle c (\<lambda>_. True) m \<Longrightarrow> leads (sqlRevokeSession h m) (after c (revokedRow t))"
  unfolding sqlRevokeSession_def executeSessionWrite_def
proof (erule withLease_post)
  show "idle c (\<lambda>_. True) m1 \<Longrightarrow> after c (revokedRow t) unavailable m1" for m1 by (simp add: after_def)
  show "after c (revokedRow t) e m1 \<Longrightarrow> after c (revokedRow t) e (release m1)" for e m1 by (simp add: after_def release_idle)
  fix m1
  assume "idle c (\<lambda>_. True) m1"
  then show "leads (case statement (updateSession m1 h (\<lambda>r. \<not> row_revoked r) (\<lambda>r. r\<lparr>row_revoked := True\<rparr>)) m1 of
      (Inl e, m1) \<Rightarrow> (unavailable, m1) | (Inr n, m1) \<Rightarrow> (if n = 1 then storage_ok else not_found, m1)) (after c (revokedRow t))"
    by (rule statement_effect [OF _ assms(1)])
      (rule updateSession_revokes [of m1 h], simp add: assms(2), assumption, auto simp: leads_def after_def split: sum.splits)
qed

text \<open>C11. Logging out is final. Once a session has been revoked in the database, no call of the account store ever accepts its
  token again, whatever calls follow, at whatever time it is presented and whichever calls to the database fail, provided that
  nobody else brings the session back.\<close>
theorem revoked_for_ever:
  assumes "transaction m = None" "unhex m h = Some t" "\<forall>n d. revokedRow t d \<longrightarrow> revokedRow t (others m n d)"
    and "sqlRevokeSession h m = (storage_ok, m1)" "account_run m1 m2" "sqlFindSession h now m2 = (r, m3)"
  shows "storage_error r \<noteq> storage_ok"
proof -
  let ?c = "(collate m, others m, unhex m)"
  have "stable ?c (revokedRow t)" "idle ?c (\<lambda>_. True) m" using assms(1,3) by (simp_all add: stable_def idle_def)
  then have "idle ?c (revokedRow t) m1" using revoke_result [of ?c t h m] assms(2,4) by (simp add: leads_def after_def)
  then have "idle ?c (revokedRow t) m2" by (rule account_run_revoked [OF assms(5)])
  then show ?thesis using find_revoked [of ?c h t m2 now] assms(2,6) by (simp add: leads_def)
qed

lemma store_idle: "idle c (\<lambda>_. True) m \<Longrightarrow> leads (sqlStoreSession x m) (\<lambda>x. idle c (\<lambda>_. True))"
  unfolding sqlStoreSession_def by (erule withLease_keeps) (erule sql_rules | rule sql_splits post_result TrueI | assumption)+

section \<open>Examples\<close>

text \<open>Bob registers, although the answer to the commit is lost; Alice logs in and out.\<close>

definition aliceSession :: SessionRecord where
  "aliceSession = \<lparr>session_user = 1, token_hash = replicate 32 (CHR ''h''), expires_at_unix_ms = 90000, last_client_sequence = 0, revoked = False\<rparr>"

theorem registration_atomic_witness:
  "let run = sqlCreateUser ''bob'' ''#'' 1000 (sqlServer 8 sqlDb) in
   storage_error (fst run) = unavailable \<and> map fst (db_wallets (committed_db (snd run))) = [1, 4] \<and> db_ok (committed_db (snd run))"
proof -
  let ?m = "sqlServer 8 sqlDb"
  obtain r m' where run: "sqlCreateUser ''bob'' ''#'' 1000 ?m = (r, m')" by fastforce
  have "storage_error (fst (sqlCreateUser ''bob'' ''#'' 1000 ?m)) = unavailable"
    "map fst (db_wallets (committed_db (snd (sqlCreateUser ''bob'' ''#'' 1000 ?m)))) = [1, 4]" by code_simp+
  moreover have "db_ok (committed_db ?m)"
    by (auto simp: sqlServer_def sqlDb_def db_ok_def wallet_rows_ok_def seat_rows_ok_def assoc_def)
  then have "db_ok (committed_db m')" using registration_atomic [OF _ _ run refl refl] by (simp add: sqlServer_def)
  ultimately show ?thesis using run by simp
qed

definition aliceServer :: MySql where
  "aliceServer = snd (sqlStoreSession aliceSession (sqlServer 99 sqlDb))"

definition aliceGone :: MySql where
  "aliceGone = snd (sqlRevokeSession (token_hash aliceSession) aliceServer)"

theorem revoked_for_ever_witness:
  "storage_error (fst (sqlFindSession (token_hash aliceSession) 5000 aliceServer)) = storage_ok \<and>
   fst (sqlStoreSession aliceSession aliceGone) = conflict \<and>
   storage_error (fst (sqlFindSession (token_hash aliceSession) 5000 (snd (sqlStoreSession aliceSession aliceGone)))) \<noteq> storage_ok"
proof -
  let ?h = "token_hash aliceSession" and ?m2 = "snd (sqlStoreSession aliceSession aliceGone)"
  have before: "storage_error (fst (sqlFindSession ?h 5000 aliceServer)) = storage_ok" by code_simp
  have again: "fst (sqlStoreSession aliceSession aliceGone) = conflict" by code_simp
  have "fst (sqlRevokeSession ?h aliceServer) = storage_ok" by code_simp
  then have out: "sqlRevokeSession ?h aliceServer = (storage_ok, aliceGone)" by (simp add: aliceGone_def prod_eq_iff)
  have "idle ((\<lambda>s. s), (\<lambda>_ d. d), Some) (\<lambda>_. True) (sqlServer 99 sqlDb)" by (simp add: idle_def stable_def sqlServer_def)
  then have "idle ((\<lambda>s. s), (\<lambda>_ d. d), Some) (\<lambda>_. True) aliceServer"
    using store_idle [of "((\<lambda>s. s), (\<lambda>_ d. d), Some)" "sqlServer 99 sqlDb" aliceSession] by (simp add: aliceServer_def leads_def case_prod_beta)
  then have m: "transaction aliceServer = None" "unhex aliceServer ?h = Some ?h" "others aliceServer = (\<lambda>_ d. d)" by (simp_all add: idle_def)
  have run: "account_run aliceGone ?m2" by (rule account_run.stores [OF account_run.begins prod.collapse [symmetric]])
  show ?thesis using revoked_for_ever [OF m(1,2) _ out run, of 5000] before again m(3) by (simp add: prod_eq_iff)
qed

end
