(* ===== verification/Mysql_Pool.thy ===== *)
theory Mysql_Pool
  imports Prelude "HOL-Library.Multiset"
begin

text \<open>
  \<open>src/include/poker/storage/mysql_connection_pool.hpp\<close> and \<open>src/src/poker/infrastructure/mysql_connection_pool.cpp\<close>: the pool of
  connections to MySQL and its leases. A connection is the number of its handle. The functions \<open>takeAvailable\<close>, \<open>returnAvailable\<close> and
  \<open>installReplacement\<close> are the critical sections of the mutex; \<open>pool_step\<close> interleaves them with what threads do outside the mutex,
  each thread being in one of the places of \<open>Use\<close>. Whether a ping, a rollback or a new connection works is not known beforehand, so each
  has a step for both ends. A new connection has a handle that no open connection has.
\<close>

section \<open>The pool\<close>

type_synonym Handle = nat

record ConnectionPool =
  all_connections :: "Handle list"
  available_connections :: "Handle list"
  pool_closing :: bool

text \<open>The constructor: \<open>connectOne\<close> for each place, \<open>None\<close> when it throws; the connections made before are then closed.\<close>

fun connectAll :: "(nat \<Rightarrow> Handle option) \<Rightarrow> nat \<Rightarrow> Handle list \<Rightarrow> Handle list + Handle list" where
  "connectAll connect 0 made = Inr made"
| "connectAll connect (Suc n) made =
     (case connect (length made) of None \<Rightarrow> Inl made | Some c \<Rightarrow> connectAll connect n (made @ [c]))"

definition newPool :: "(nat \<Rightarrow> Handle option) \<Rightarrow> nat \<Rightarrow> Handle list + ConnectionPool" where
  "newPool connect places =
     map_sum id (\<lambda>cs. \<lparr>all_connections = cs, available_connections = cs, pool_closing = False\<rparr>) (connectAll connect places [])"

definition poolSize :: "ConnectionPool \<Rightarrow> nat" where
  "poolSize p = length (all_connections p)"

definition poolAvailable :: "ConnectionPool \<Rightarrow> nat" where
  "poolAvailable p = length (available_connections p)"

text \<open>The wait of \<open>acquire\<close> and \<open>ping\<close> ends with a connection; a wait that times out or meets the end of the pool changes nothing.\<close>

definition takeAvailable :: "ConnectionPool \<Rightarrow> (Handle \<times> ConnectionPool) option" where
  "takeAvailable p =
     (if pool_closing p \<or> available_connections p = [] then None
      else Some (last (available_connections p), p\<lparr>available_connections := butlast (available_connections p)\<rparr>))"

definition returnAvailable :: "Handle \<Rightarrow> ConnectionPool \<Rightarrow> ConnectionPool" where
  "returnAvailable c p = (if pool_closing p then p else p\<lparr>available_connections := available_connections p @ [c]\<rparr>)"

text \<open>The critical section of \<open>replaceConnection\<close>: whether the replacement takes the place of the failed connection.\<close>

definition installReplacement :: "Handle \<Rightarrow> Handle \<Rightarrow> ConnectionPool \<Rightarrow> bool \<times> ConnectionPool" where
  "installReplacement failed r p =
     (if pool_closing p \<or> failed \<notin> set (all_connections p) then (False, p)
      else (True, p\<lparr>all_connections := (all_connections p)[length (takeWhile (\<lambda>c. c \<noteq> failed) (all_connections p)) := r]\<rparr>))"

section \<open>Leases\<close>

text \<open>A lease holds a connection or none. Moving from it empties it; \<open>release\<close> gives the connection back and empties it.\<close>

type_synonym Lease = "Handle option"

definition moveLease :: "Lease \<Rightarrow> Lease \<times> Lease" where
  "moveLease other = (other, None)"

definition releaseLease :: "Lease \<Rightarrow> Handle list \<times> Lease" where
  "releaseLease l = ((case l of None \<Rightarrow> [] | Some c \<Rightarrow> [c]), None)"

definition assignLease :: "bool \<Rightarrow> Lease \<Rightarrow> Lease \<Rightarrow> Handle list \<times> Lease \<times> Lease" where
  "assignLease same this other = (if same then ([], this, other) else (fst (releaseLease this), other, None))"

text \<open>However leases are moved, every connection is given back once or is still in one lease.\<close>

definition inLease :: "Lease \<Rightarrow> Handle multiset" where
  "inLease l = (case l of None \<Rightarrow> {#} | Some c \<Rightarrow> {#c#})"

lemma lease_kept:
  "moveLease other = (this, other') \<Longrightarrow> inLease this + inLease other' = inLease other"
  "releaseLease l = (given, l') \<Longrightarrow> mset given + inLease l' = inLease l"
  "assignLease False this other = (given, this', other') \<Longrightarrow> mset given + inLease this' + inLease other' = inLease this + inLease other"
  by (auto simp: moveLease_def releaseLease_def assignLease_def inLease_def split: option.splits)

section \<open>Threads\<close>

text \<open>Where a thread is that has a connection: \<open>Checking\<close> pings it, for a lease or for \<open>ping\<close>; \<open>Connecting\<close> and \<open>Swapping\<close> are in
  \<open>replaceConnection\<close>, with the use that continues; \<open>Leased\<close> runs an operation of a store; \<open>GivingBack\<close> is in \<open>giveBack\<close>.\<close>

datatype Purpose = for_lease | for_ping | for_return

datatype Use =
    Checking Purpose Handle
  | Connecting Purpose Handle
  | Swapping Purpose Handle Handle
  | Leased Handle
  | GivingBack Handle

fun useOf :: "Use \<Rightarrow> Handle" where
  "useOf (Checking f c) = c"
| "useOf (Connecting f c) = c"
| "useOf (Swapping f c r) = c"
| "useOf (Leased c) = c"
| "useOf (GivingBack c) = c"

fun replacementOf :: "Use \<Rightarrow> Handle multiset" where
  "replacementOf (Swapping f c r) = {#r#}"
| "replacementOf u = {#}"

record PoolWorld =
  the_pool :: ConnectionPool
  uses :: "Use multiset"
  open_connections :: "Handle set"

definition startWorld :: "ConnectionPool \<Rightarrow> PoolWorld" where
  "startWorld p = \<lparr>the_pool = p, uses = {#}, open_connections = set (all_connections p)\<rparr>"

text \<open>How a use ends that has a working connection, or a failed one that could not be replaced.\<close>

fun carryOn :: "Purpose \<Rightarrow> Handle \<Rightarrow> Use multiset \<Rightarrow> PoolWorld \<Rightarrow> PoolWorld" where
  "carryOn for_lease c us w = w\<lparr>uses := add_mset (Leased c) us\<rparr>"
| "carryOn f c us w = w\<lparr>uses := us, the_pool := returnAvailable c (the_pool w)\<rparr>"

definition giveUp :: "Handle \<Rightarrow> Use multiset \<Rightarrow> PoolWorld \<Rightarrow> PoolWorld" where
  "giveUp c us w = w\<lparr>uses := us, the_pool := returnAvailable c (the_pool w)\<rparr>"

inductive pool_step :: "PoolWorld \<Rightarrow> PoolWorld \<Rightarrow> bool" where
  takes: "takeAvailable (the_pool w) = Some (c, p) \<Longrightarrow> f \<noteq> for_return \<Longrightarrow>
    pool_step w (w\<lparr>the_pool := p, uses := add_mset (Checking f c) (uses w)\<rparr>)"
| ping_works: "uses w = add_mset (Checking f c) us \<Longrightarrow> pool_step w (carryOn f c us w)"
| ping_fails: "uses w = add_mset (Checking f c) us \<Longrightarrow> pool_step w (w\<lparr>uses := add_mset (Connecting f c) us\<rparr>)"
| connect_fails: "uses w = add_mset (Connecting f c) us \<Longrightarrow> pool_step w (giveUp c us w)"
| connects: "uses w = add_mset (Connecting f c) us \<Longrightarrow> r \<notin> open_connections w \<Longrightarrow>
    pool_step w (w\<lparr>uses := add_mset (Swapping f c r) us, open_connections := insert r (open_connections w)\<rparr>)"
| swaps: "uses w = add_mset (Swapping f c r) us \<Longrightarrow> installReplacement c r (the_pool w) = (True, p) \<Longrightarrow>
    pool_step w (carryOn f r us (w\<lparr>the_pool := p, open_connections := open_connections w - {c}\<rparr>))"
| swap_refused: "uses w = add_mset (Swapping f c r) us \<Longrightarrow> installReplacement c r (the_pool w) = (False, p) \<Longrightarrow>
    pool_step w (giveUp c us (w\<lparr>the_pool := p, open_connections := open_connections w - {r}\<rparr>))"
| gives_back: "uses w = add_mset (Leased c) us \<Longrightarrow> pool_step w (w\<lparr>uses := add_mset (GivingBack c) us\<rparr>)"
| cleaned: "uses w = add_mset (GivingBack c) us \<Longrightarrow> pool_step w (carryOn for_return c us w)"
| not_cleaned: "uses w = add_mset (GivingBack c) us \<Longrightarrow> pool_step w (w\<lparr>uses := add_mset (Connecting for_return c) us\<rparr>)"
| closes: "pool_step w (w\<lparr>the_pool := (the_pool w)\<lparr>pool_closing := True\<rparr>\<rparr>)"

section \<open>The invariant\<close>

text \<open>\<open>inUse\<close> are the connections that threads hold; \<open>handles\<close> are the connections of the pool and those that are about to replace one.\<close>

definition inUse :: "PoolWorld \<Rightarrow> Handle multiset" where
  "inUse w = image_mset useOf (uses w)"

definition handles :: "PoolWorld \<Rightarrow> Handle multiset" where
  "handles w = mset (all_connections (the_pool w)) + sum_mset (image_mset replacementOf (uses w))"

definition lease_ok :: "nat \<Rightarrow> PoolWorld \<Rightarrow> bool" where
  "lease_ok n w \<longleftrightarrow> length (all_connections (the_pool w)) = n \<and> (\<forall>c. count (handles w) c \<le> 1) \<and> set_mset (handles w) \<subseteq> open_connections w \<and>
     mset (available_connections (the_pool w)) + inUse w \<subseteq># mset (all_connections (the_pool w)) \<and>
     (\<not> pool_closing (the_pool w) \<longrightarrow> mset (available_connections (the_pool w)) + inUse w = mset (all_connections (the_pool w)))"

lemma takeAvailable_Some:
  "takeAvailable p = Some (c, p') \<Longrightarrow> \<not> pool_closing p \<and> p' = p\<lparr>available_connections := butlast (available_connections p)\<rparr> \<and>
    mset (available_connections p) = add_mset c (mset (available_connections p'))"
  by (auto simp: takeAvailable_def split: if_splits) (metis append_butlast_last_id mset_append add.commute mset_single_iff_right mset.simps union_mset_add_mset_right add_0_right)

lemma install_True:
  assumes "installReplacement c r p = (True, p')"
  shows "\<not> pool_closing p" "c \<in> set (all_connections p)" "p' = p\<lparr>all_connections := all_connections p'\<rparr>"
    "length (all_connections p') = length (all_connections p)" "mset (all_connections p') = add_mset r (mset (all_connections p) - {#c#})"
proof -
  let ?i = "length (takeWhile (\<lambda>x. x \<noteq> c) (all_connections p))"
  show c: "\<not> pool_closing p" "c \<in> set (all_connections p)" using assms by (auto simp: installReplacement_def split: if_splits)
  have p': "p' = p\<lparr>all_connections := (all_connections p)[?i := r]\<rparr>" using assms by (auto simp: installReplacement_def split: if_splits)
  then show "p' = p\<lparr>all_connections := all_connections p'\<rparr>" "length (all_connections p') = length (all_connections p)" by simp_all
  obtain ys zs where split: "all_connections p = ys @ c # zs" "c \<notin> set ys" using split_list_first [OF c(2)] by blast
  then have "?i = length ys" by (subst split(1), subst takeWhile_append2) auto
  then show "mset (all_connections p') = add_mset r (mset (all_connections p) - {#c#})" using split(1) by (simp add: p')
qed

lemma install_False: "installReplacement c r p = (False, p') \<Longrightarrow> p' = p \<and> (pool_closing p \<or> c \<notin> set (all_connections p))"
  by (auto simp: installReplacement_def split: if_splits)

lemma returned_ok:
  assumes "lease_ok n w" "uses w = add_mset u us" "useOf u = c" "replacementOf u = {#}"
  shows "lease_ok n (w\<lparr>uses := us, the_pool := returnAvailable c (the_pool w)\<rparr>)"
  using assms by (auto simp: lease_ok_def handles_def inUse_def returnAvailable_def dest: mset_subset_eq_insertD [THEN conjunct2, THEN subset_mset.less_imp_le])

lemma changed_ok:
  assumes "lease_ok n w" "uses w = add_mset u us" "useOf u' = useOf u" "replacementOf u = {#}" "replacementOf u' = {#}"
  shows "lease_ok n (w\<lparr>uses := add_mset u' us\<rparr>)"
  using assms by (simp add: lease_ok_def handles_def inUse_def)

lemma carryOn_ok:
  assumes "lease_ok n w" "uses w = add_mset u us" "useOf u = c" "replacementOf u = {#}"
  shows "lease_ok n (carryOn f c us w)"
  using changed_ok [OF assms(1,2), of "Leased c"] returned_ok [OF assms] assms(3,4) by (cases f) simp_all

lemma connects_ok:
  assumes "lease_ok n w" "uses w = add_mset (Connecting f c) us" "r \<notin> open_connections w"
  shows "lease_ok n (w\<lparr>uses := add_mset (Swapping f c r) us, open_connections := insert r (open_connections w)\<rparr>)"
proof -
  let ?w = "w\<lparr>uses := add_mset (Swapping f c r) us, open_connections := insert r (open_connections w)\<rparr>"
  have h: "handles ?w = add_mset r (handles w)" and i: "inUse ?w = inUse w" using assms(2) by (simp_all add: handles_def inUse_def)
  have "count (handles w) r = 0" using assms(1,3) by (auto simp: lease_ok_def count_eq_zero_iff)
  then show ?thesis using assms(1) unfolding lease_ok_def h i by auto
qed

lemma swap_refused_ok:
  assumes "lease_ok n w" "uses w = add_mset (Swapping f c r) us"
  shows "lease_ok n (w\<lparr>uses := add_mset (Connecting f c) us, open_connections := open_connections w - {r}\<rparr>)"
proof -
  let ?w = "w\<lparr>uses := add_mset (Connecting f c) us, open_connections := open_connections w - {r}\<rparr>"
  have h: "handles w = add_mset r (handles ?w)" and i: "inUse ?w = inUse w" using assms(2) by (simp_all add: handles_def inUse_def)
  have one: "count (handles w) x \<le> 1" for x using assms(1) by (simp add: lease_ok_def)
  have "r \<notin># handles ?w" using one [of r] by (simp add: h not_in_iff)
  moreover have "count (handles ?w) x \<le> 1" for x using one [of x] by (simp add: h split: if_splits)
  ultimately show ?thesis using assms(1) unfolding lease_ok_def h i by auto
qed

lemma swaps_ok:
  assumes "lease_ok n w" "uses w = add_mset (Swapping f c r) us" "installReplacement c r (the_pool w) = (True, p)"
  shows "lease_ok n (w\<lparr>uses := add_mset (Leased r) us, the_pool := p, open_connections := open_connections w - {c}\<rparr>)"
proof -
  let ?w = "w\<lparr>uses := add_mset (Leased r) us, the_pool := p, open_connections := open_connections w - {c}\<rparr>"
  note p = install_True [OF assms(3)]
  have all: "mset (all_connections (the_pool w)) = add_mset c (mset (all_connections p) - {#r#})" "r \<in># mset (all_connections p)"
    using p(2,5) by simp_all
  have h: "handles w = add_mset c (handles ?w)" using assms(2) p(2,5) by (simp add: handles_def)
  have one: "count (handles w) x \<le> 1" for x using assms(1) by (simp add: lease_ok_def)
  have "c \<notin># handles ?w" using one [of c] by (simp add: h not_in_iff)
  moreover have "count (handles ?w) x \<le> 1" for x using one [of x] by (simp add: h split: if_splits)
  moreover have "available_connections p = available_connections (the_pool w)" "pool_closing p = pool_closing (the_pool w)"
    using p(3) by (metis ConnectionPool.select_convs(2) ConnectionPool.select_convs(3) ConnectionPool.surjective ConnectionPool.update_convs(1))+
  moreover have "mset (available_connections (the_pool w)) + inUse w = mset (all_connections (the_pool w))"
    using assms(1) p(1) by (simp add: lease_ok_def)
  then have "mset (available_connections (the_pool w)) + image_mset useOf us = mset (all_connections p) - {#r#}"
    using assms(2) all(1) by (simp add: inUse_def)
  then have "mset (available_connections (the_pool w)) + inUse ?w = mset (all_connections p)"
    using all(2) by (simp add: inUse_def)
  ultimately show ?thesis using assms(1) p(4) unfolding lease_ok_def h by auto
qed

lemma pool_step_ok: "pool_step w w' \<Longrightarrow> lease_ok n w \<Longrightarrow> lease_ok n w'"
proof (induction rule: pool_step.induct)
  case (takes w c p f)
  then show ?case using takeAvailable_Some [OF takes(1)] by (auto simp: lease_ok_def handles_def inUse_def)
next
  case (ping_works w f c us)
  then show ?case using carryOn_ok [OF ping_works(2,1)] by simp
next
  case (ping_fails w f c us)
  then show ?case using changed_ok [OF ping_fails(2,1)] by simp
next
  case (connect_fails w f c us)
  then show ?case using returned_ok [OF connect_fails(2,1)] by (simp add: giveUp_def)
next
  case (connects w f c us r)
  show ?case by (rule connects_ok [OF connects(3,1,2)])
next
  case (swaps w f c r us p)
  show ?case using carryOn_ok [OF swaps_ok [OF swaps(3,1,2)], of "Leased r" us r f] by (cases f) simp_all
next
  case (swap_refused w f c r us p)
  have "p = the_pool w" using install_False [OF swap_refused(2)] by simp
  then show ?case using returned_ok [OF swap_refused_ok [OF swap_refused(3,1)], of "Connecting f c" us c] by (simp add: giveUp_def)
next
  case (gives_back w c us)
  then show ?case using changed_ok [OF gives_back(2,1)] by simp
next
  case (cleaned w c us)
  then show ?case using carryOn_ok [OF cleaned(2,1), of c for_return] by simp
next
  case (not_cleaned w c us)
  then show ?case using changed_ok [OF not_cleaned(2,1)] by simp
next
  case (closes w)
  then show ?case by (simp add: lease_ok_def handles_def inUse_def)
qed

inductive lease_run :: "PoolWorld \<Rightarrow> PoolWorld \<Rightarrow> bool" for w0 where
  starts: "lease_run w0 w0"
| steps: "lease_run w0 w \<Longrightarrow> pool_step w w' \<Longrightarrow> lease_run w0 w'"

lemma connectAll_made:
  assumes "connectAll connect n made = Inr cs"
  shows "length cs = length made + n \<and> (\<forall>i < length made. cs ! i = made ! i) \<and> (\<forall>i. length made \<le> i \<longrightarrow> i < length cs \<longrightarrow> connect i = Some (cs ! i))"
  using assms
proof (induction n arbitrary: made)
  case (Suc n)
  then obtain c where c: "connect (length made) = Some c" "connectAll connect n (made @ [c]) = Inr cs" by (auto split: option.splits)
  note made = Suc.IH [OF this(2)]
  have "connect i = Some (cs ! i)" if "length made \<le> i" "i < length cs" for i
    using made that c(1) by (cases "i = length made") (auto simp: nth_append)
  then show ?case using made by (auto simp: nth_append)
qed simp

lemma newPool_ok:
  assumes "newPool connect places = Inr p" "\<forall>i j c. connect i = Some c \<longrightarrow> connect j = Some c \<longrightarrow> i = j"
  shows "lease_ok places (startWorld p)"
proof -
  obtain cs where cs: "connectAll connect places [] = Inr cs" "p = \<lparr>all_connections = cs, available_connections = cs, pool_closing = False\<rparr>"
    using assms(1) by (cases "connectAll connect places []") (auto simp: newPool_def)
  note made = connectAll_made [OF cs(1), simplified]
  have "distinct cs" unfolding distinct_conv_nth using made assms(2) by metis
  then show ?thesis using made cs(2) by (simp add: lease_ok_def startWorld_def handles_def inUse_def distinct_count_atmost_1)
qed

lemma lease_run_ok: "lease_run w0 w \<Longrightarrow> lease_ok n w0 \<Longrightarrow> lease_ok n w"
  by (induction rule: lease_run.induct) (auto intro: pool_step_ok)


section \<open>An example\<close>

text \<open>Two connections; a thread takes the second, finds it dead, replaces it by a new one and gives that back.\<close>

definition twoConnections :: ConnectionPool where
  "twoConnections = \<lparr>all_connections = [10, 11], available_connections = [10, 11], pool_closing = False\<rparr>"

definition afterSwap :: PoolWorld where
  "afterSwap = \<lparr>the_pool = \<lparr>all_connections = [10, 12], available_connections = [10], pool_closing = False\<rparr>, uses = {#Leased 12#},
     open_connections = {10, 12}\<rparr>"

lemma swap_run: "lease_run (startWorld twoConnections) afterSwap"
proof -
  let ?p = "twoConnections\<lparr>available_connections := [10]\<rparr>"
  let ?w = "\<lambda>u opened. \<lparr>the_pool = ?p, uses = {#u#}, open_connections = opened\<rparr>"
  have "pool_step (startWorld twoConnections) (?w (Checking for_lease 11) {10, 11})"
    using pool_step.takes [of "startWorld twoConnections" 11 ?p for_lease] by (simp add: startWorld_def twoConnections_def takeAvailable_def)
  moreover have "pool_step (?w (Checking for_lease 11) {10, 11}) (?w (Connecting for_lease 11) {10, 11})"
    using pool_step.ping_fails [of "?w (Checking for_lease 11) {10, 11}" for_lease 11 "{#}"] by simp
  moreover have "pool_step (?w (Connecting for_lease 11) {10, 11}) (?w (Swapping for_lease 11 12) {10, 11, 12})"
    using pool_step.connects [of "?w (Connecting for_lease 11) {10, 11}" for_lease 11 "{#}" 12] by (simp add: insert_commute)
  moreover have "pool_step (?w (Swapping for_lease 11 12) {10, 11, 12}) afterSwap"
    using pool_step.swaps [of "?w (Swapping for_lease 11 12) {10, 11, 12}" for_lease 11 12 "{#}" "the_pool afterSwap"]
    by (simp add: installReplacement_def twoConnections_def afterSwap_def insert_commute insert_Diff_if)
  ultimately show ?thesis by (meson lease_run.intros)
qed


end
