(* ===== verification/Redis_Registry.thy ===== *)
theory Redis_Registry
  imports Node_Registry Server_Config
begin

text \<open>
  The registry in Redis: \<open>src/include/poker/cluster/hiredis_node_registry.hpp\<close> and
  \<open>src/src/poker/infrastructure/hiredis_node_registry.cpp\<close>.

  The hiredis library and everything behind it (the network, the server, its clock) is the parameter \<open>'s Hiredis\<close>: opening a
  connection and sending a command change a world of type \<open>'s\<close>. A command is the list of its words, as the library sends it
  after the format has been filled in; an answer is \<open>None\<close> where \<open>redisvCommand\<close> returns a null pointer. Several registry
  objects, one in each process, share the world; the i-th has a connection when \<open>contexts s i\<close> holds. The mutex of an object makes
  its operations exclusive.
\<close>

section \<open>Strings\<close>

text \<open>\<open>std::stoull\<close>, which takes a sign and negates modulo \<open>2 ^ 64\<close>; \<open>std::string::find\<close> and \<open>rfind\<close> of a character.\<close>

definition stoull :: "string \<Rightarrow> u64 result" where
  "stoull s =
     (let rest = dropWhile isspace s;
          sign = takeWhile (\<lambda>ch. ch = CHR ''-'' \<or> ch = CHR ''+'') (take 1 rest);
          ds = takeWhile isdigit (drop (length sign) rest);
          v = int (decimal ds)
      in if ds = [] then Inl invalid_argument
         else if v \<ge> 2 ^ 64 then Inl out_of_range
         else Inr (word_of_int (if sign = ''-'' then - v else v)))"

definition find_char :: "char \<Rightarrow> string \<Rightarrow> nat option" where
  "find_char ch s = (if ch \<in> set s then Some (length (takeWhile (\<lambda>x. x \<noteq> ch) s)) else None)"

definition rfind :: "char \<Rightarrow> string \<Rightarrow> nat option" where
  "rfind ch s = (if ch \<in> set s then Some (length s - 1 - length (takeWhile (\<lambda>x. x \<noteq> ch) (rev s))) else None)"

text \<open>\<open>%d\<close> of a format.\<close>

definition int_text :: "int \<Rightarrow> string" where
  "int_text n = (if n < 0 then CHR ''-'' # to_string (nat (- n)) else to_string (nat n))"

section \<open>The library\<close>

datatype Reply = StatusReply string | ErrorReply string | IntegerReply int | NilReply | StringReply string | ArrayReply "Reply list"

type_synonym redisWords = "string list"

record 's Hiredis =
  redis_connect :: "nat \<Rightarrow> string \<Rightarrow> int \<Rightarrow> int \<times> int \<Rightarrow> 's \<Rightarrow> bool \<times> 's"
  redis_command :: "nat \<Rightarrow> redisWords \<Rightarrow> 's \<Rightarrow> Reply option \<times> 's"

record 's Registries =
  redis_world :: 's
  contexts :: "nat \<Rightarrow> bool"

definition redisFree :: "nat \<Rightarrow> 's Registries \<Rightarrow> 's Registries" where
  "redisFree i s = s\<lparr>contexts := (contexts s)(i := False)\<rparr>"

text \<open>The part of \<open>commandLocked\<close> that has a context.\<close>

definition sendCommand :: "'s Hiredis \<Rightarrow> nat \<Rightarrow> redisWords \<Rightarrow> 's Registries \<Rightarrow> Reply option \<times> 's Registries" where
  "sendCommand lib i cmd s =
     (case redis_command lib i cmd (redis_world s) of (raw, w) \<Rightarrow>
      let s1 = s\<lparr>redis_world := w\<rparr> in (raw, if raw = None then redisFree i s1 else s1))"

text \<open>\<open>AUTH\<close> and \<open>SELECT\<close>: a failure closes the new connection.\<close>

definition introduce :: "'s Hiredis \<Rightarrow> nat \<Rightarrow> redisWords \<Rightarrow> 's Registries \<Rightarrow> bool \<times> 's Registries" where
  "introduce lib i cmd s =
     (case sendCommand lib i cmd s of (reply, s1) \<Rightarrow>
      case reply of
        None \<Rightarrow> (False, redisFree i s1)
      | Some (ErrorReply e) \<Rightarrow> (False, redisFree i s1)
      | Some _ \<Rightarrow> (True, s1))"

definition connectLocked :: "'s Hiredis \<Rightarrow> RedisConfig \<Rightarrow> nat \<Rightarrow> 's Registries \<Rightarrow> bool \<times> 's Registries" where
  "connectLocked lib config i s =
     (let timeout = (connect_timeout_ms config div 1000, connect_timeout_ms config mod 1000 * 1000) in
      case redis_connect lib i (redis_host config) (redis_port config) timeout (redis_world s) of (connected, w) \<Rightarrow>
      let s1 = (redisFree i s)\<lparr>redis_world := w\<rparr> in
      if \<not> connected then (False, s1)
      else
        (let s2 = s1\<lparr>contexts := (contexts s1)(i := True)\<rparr> in
         case (if redis_password config \<noteq> [] then introduce lib i [''AUTH'', redis_password config] s2 else (True, s2)) of (ok, s3) \<Rightarrow>
         if \<not> ok then (False, s3)
         else if redis_database config \<noteq> 0 then introduce lib i [''SELECT'', int_text (redis_database config)] s3
         else (True, s3)))"

definition commandLocked :: "'s Hiredis \<Rightarrow> RedisConfig \<Rightarrow> nat \<Rightarrow> redisWords \<Rightarrow> 's Registries \<Rightarrow> Reply option \<times> 's Registries" where
  "commandLocked lib config i cmd s =
     (if contexts s i then sendCommand lib i cmd s
      else (case connectLocked lib config i s of (ok, s1) \<Rightarrow> if \<not> ok then (None, s1) else sendCommand lib i cmd s1))"

section \<open>Keys and values\<close>

definition nodeKey :: "string \<Rightarrow> string" where
  "nodeKey node_id = ''poker:node:'' @ node_id"

definition roomKey :: "TableId \<Rightarrow> string" where
  "roomKey table_id = ''poker:room:'' @ to_string (unat table_id)"

definition ticketKey :: "string \<Rightarrow> string" where
  "ticketKey h = ''poker:ticket:'' @ h"

definition nodeValue :: "NodeInfo \<Rightarrow> string" where
  "nodeValue node = endpoint node @ ''|'' @ to_string (unat (active_tables node)) @ ''|'' @ to_string (unat (connections node))"

definition nodeScore :: "NodeInfo \<Rightarrow> u64" where
  "nodeScore node = active_tables node * 1000000 + connections node"

definition ticketValue :: "JoinTicket \<Rightarrow> string" where
  "ticketValue ticket = to_string (unat (ticket_user ticket)) @ '':'' @ to_string (unat (ticket_table ticket))"

text \<open>For a value that starts with its only bar, \<open>first - 1\<close> wraps around: the second search finds the same bar, and the
  length \<open>first - second - 1\<close> wraps around as well and takes the rest of the text.\<close>

definition parseNode :: "string \<Rightarrow> string \<Rightarrow> NodeInfo option" where
  "parseNode node_id text =
     (case rfind CHR ''|'' text of
        None \<Rightarrow> None
      | Some first \<Rightarrow>
          (case (if first = 0 then rfind CHR ''|'' text else rfind CHR ''|'' (take first text)) of
             None \<Rightarrow> None
           | Some second \<Rightarrow>
               (case stoull (if first = second then drop (second + 1) text
                             else take (first - second - 1) (drop (second + 1) text)) of
                  Inl e \<Rightarrow> None
                | Inr n \<Rightarrow>
                    (case stoull (drop (first + 1) text) of
                       Inl e \<Rightarrow> None
                     | Inr c \<Rightarrow> Some \<lparr>node_name = node_id, endpoint = take second text, active_tables = n, connections = c\<rparr>))))"

definition parseTicket :: "string \<Rightarrow> JoinTicket option" where
  "parseTicket text =
     (case find_char CHR '':'' text of
        None \<Rightarrow> None
      | Some separator \<Rightarrow>
          (case stoull (take separator text) of
             Inl e \<Rightarrow> None
           | Inr u \<Rightarrow>
               (case stoull (drop (separator + 1) text) of
                  Inl e \<Rightarrow> None
                | Inr t \<Rightarrow> Some \<lparr>ticket_user = u, ticket_table = t\<rparr>)))"

section \<open>The operations\<close>

definition newHiredisRegistry :: "'s Hiredis \<Rightarrow> RedisConfig \<Rightarrow> nat \<Rightarrow> 's Registries \<Rightarrow> 's Registries" where
  "newHiredisRegistry lib config i s = snd (connectLocked lib config i s)"

definition deleteHiredisRegistry :: "nat \<Rightarrow> 's Registries \<Rightarrow> 's Registries" where
  "deleteHiredisRegistry i s = (if contexts s i then redisFree i s else s)"

fun isStatus :: "Reply option \<Rightarrow> bool" where
  "isStatus (Some (StatusReply x)) = True"
| "isStatus _ = False"

fun isInteger :: "Reply option \<Rightarrow> bool" where
  "isInteger (Some (IntegerReply n)) = True"
| "isInteger _ = False"

definition redisPing :: "'s Hiredis \<Rightarrow> RedisConfig \<Rightarrow> nat \<Rightarrow> 's Registries \<Rightarrow> bool \<times> 's Registries" where
  "redisPing lib config i s = (case commandLocked lib config i [''PING''] s of (reply, s1) \<Rightarrow> (isStatus reply, s1))"

definition setCommand :: "string \<Rightarrow> string \<Rightarrow> u32 \<Rightarrow> redisWords" where
  "setCommand key value ttl = [''SET'', key, value, ''EX'', to_string (unat ttl)]"

definition redisHeartbeat :: "'s Hiredis \<Rightarrow> RedisConfig \<Rightarrow> nat \<Rightarrow> NodeInfo \<Rightarrow> u32 \<Rightarrow> 's Registries \<Rightarrow> bool \<times> 's Registries" where
  "redisHeartbeat lib config i node ttl s =
     (if node_name node = [] \<or> endpoint node = [] \<or> ttl = 0 then (False, s)
      else
        (case commandLocked lib config i (setCommand (nodeKey (node_name node)) (nodeValue node) ttl) s of (stored, s1) \<Rightarrow>
         case commandLocked lib config i [''ZADD'', ''poker:nodes:load'', to_string (unat (nodeScore node)), node_name node] s1 of
           (indexed, s2) \<Rightarrow> (isStatus stored \<and> (isInteger indexed \<or> isStatus indexed), s2)))"

text \<open>The loop of \<open>healthyNodes\<close> over the elements of the first reply.\<close>

fun readNodes :: "'s Hiredis \<Rightarrow> RedisConfig \<Rightarrow> nat \<Rightarrow> Reply list \<Rightarrow> 's Registries \<Rightarrow> NodeInfo list \<times> 's Registries" where
  "readNodes lib config i [] s = ([], s)"
| "readNodes lib config i (StringReply node_id # items) s =
     (case commandLocked lib config i [''GET'', nodeKey node_id] s of (reply, s1) \<Rightarrow>
      if reply = None \<or> reply = Some NilReply
      then readNodes lib config i items (snd (commandLocked lib config i [''ZREM'', ''poker:nodes:load'', node_id] s1))
      else (case readNodes lib config i items s1 of (ns, s2) \<Rightarrow>
              (case reply of
                 Some (StringReply text) \<Rightarrow>
                   (case parseNode node_id text of None \<Rightarrow> (ns, s2) | Some n \<Rightarrow> (n # ns, s2))
               | _ \<Rightarrow> (ns, s2))))"
| "readNodes lib config i (_ # items) s = readNodes lib config i items s"

definition redisHealthyNodes :: "'s Hiredis \<Rightarrow> RedisConfig \<Rightarrow> nat \<Rightarrow> 's Registries \<Rightarrow> NodeInfo list \<times> 's Registries" where
  "redisHealthyNodes lib config i s =
     (case commandLocked lib config i [''ZRANGE'', ''poker:nodes:load'', ''0'', ''-1''] s of (ids, s1) \<Rightarrow>
      case ids of
        Some (ArrayReply items) \<Rightarrow> readNodes lib config i items s1
      | _ \<Rightarrow> ([], s1))"

definition redisAllocateTableId :: "'s Hiredis \<Rightarrow> RedisConfig \<Rightarrow> nat \<Rightarrow> 's Registries \<Rightarrow> TableId option \<times> 's Registries" where
  "redisAllocateTableId lib config i s =
     (case commandLocked lib config i [''INCR'', ''poker:ids:table''] s of (reply, s1) \<Rightarrow>
      case reply of
        Some (IntegerReply n) \<Rightarrow> (if n \<le> 0 \<or> n > 2 ^ 32 - 1 then None else Some (word_of_int n), s1)
      | _ \<Rightarrow> (None, s1))"

definition assignScript :: string where
  "assignScript = ''local current=redis.call('' @ [CHR 39] @ ''GET'' @ [CHR 39] @ '',KEYS[1]); '' @
     ''if not current then redis.call('' @ [CHR 39] @ ''SET'' @ [CHR 39] @ '',KEYS[1],ARGV[1],'' @ [CHR 39] @ ''EX'' @ [CHR 39] @ '',ARGV[2]); '' @
     ''redis.call('' @ [CHR 39] @ ''ZINCRBY'' @ [CHR 39] @ '','' @ [CHR 39] @ ''poker:nodes:load'' @ [CHR 39] @ '',1000000,ARGV[1]); return 1; end; '' @
     ''if current==ARGV[1] then redis.call('' @ [CHR 39] @ ''SET'' @ [CHR 39] @ '',KEYS[1],ARGV[1],'' @ [CHR 39] @ ''EX'' @ [CHR 39] @ '',ARGV[2]); '' @
     ''return 1; end; return 0''"

definition redisAssignRoom :: "'s Hiredis \<Rightarrow> RedisConfig \<Rightarrow> nat \<Rightarrow> TableId \<Rightarrow> string \<Rightarrow> u32 \<Rightarrow> 's Registries \<Rightarrow> bool \<times> 's Registries" where
  "redisAssignRoom lib config i t n ttl s =
     (if t = 0 \<or> n = [] \<or> ttl = 0 then (False, s)
      else (case commandLocked lib config i [''EVAL'', assignScript, ''1'', roomKey t, n, to_string (unat ttl)] s of (reply, s1) \<Rightarrow>
              (reply = Some (IntegerReply 1), s1)))"

definition redisRoomOwner :: "'s Hiredis \<Rightarrow> RedisConfig \<Rightarrow> nat \<Rightarrow> TableId \<Rightarrow> 's Registries \<Rightarrow> string option \<times> 's Registries" where
  "redisRoomOwner lib config i t s =
     (case commandLocked lib config i [''GET'', roomKey t] s of (reply, s1) \<Rightarrow>
      (case reply of Some (StringReply owner) \<Rightarrow> Some owner | _ \<Rightarrow> None, s1))"

definition redisStoreJoinTicket :: "'s Hiredis \<Rightarrow> RedisConfig \<Rightarrow> nat \<Rightarrow> string \<Rightarrow> JoinTicket \<Rightarrow> u32 \<Rightarrow> 's Registries \<Rightarrow> bool \<times> 's Registries" where
  "redisStoreJoinTicket lib config i h ticket ttl s =
     (if h = [] \<or> ticket_user ticket = 0 \<or> ticket_table ticket = 0 \<or> ttl = 0 then (False, s)
      else (case commandLocked lib config i (setCommand (ticketKey h) (ticketValue ticket) ttl @ [''NX'']) s of (reply, s1) \<Rightarrow>
              (isStatus reply, s1)))"

definition redisConsumeJoinTicket :: "'s Hiredis \<Rightarrow> RedisConfig \<Rightarrow> nat \<Rightarrow> string \<Rightarrow> 's Registries \<Rightarrow> JoinTicket option \<times> 's Registries" where
  "redisConsumeJoinTicket lib config i h s =
     (case commandLocked lib config i [''GETDEL'', ticketKey h] s of (reply, s1) \<Rightarrow>
      (case reply of Some (StringReply text) \<Rightarrow> parseTicket text | _ \<Rightarrow> None, s1))"

definition hiredisRegistry :: "'s Hiredis \<Rightarrow> RedisConfig \<Rightarrow> nat \<Rightarrow> 's Registries NodeRegistry" where
  "hiredisRegistry lib config i = \<lparr>reg_ping = redisPing lib config i, reg_heartbeat = redisHeartbeat lib config i,
     healthy_nodes = redisHealthyNodes lib config i, allocate_table_id = redisAllocateTableId lib config i,
     assign_room = redisAssignRoom lib config i, room_owner = redisRoomOwner lib config i,
     store_join_ticket = redisStoreJoinTicket lib config i, consume_join_ticket = redisConsumeJoinTicket lib config i\<rparr>"

section \<open>Values are read back\<close>

lemma stoull_to_string: "stoull (to_string (unat (x :: u64))) = Inr x"
proof -
  let ?n = "unat x"
  obtain ch ds where s: "to_string ?n = ch # ds" by (cases "to_string ?n") auto
  have d: "isdigit c" if "c \<in> set (to_string ?n)" for c using to_string_digits [OF that] by (simp add: isdigit_def)
  have "\<not> isspace ch" "ch \<noteq> CHR ''-''" "ch \<noteq> CHR ''+''"
    using to_string_digits [of ch ?n] s by (auto simp: isspace_def)
  moreover have "takeWhile isdigit (to_string ?n) = to_string ?n" using d by (simp add: takeWhile_eq_all_conv)
  moreover have "int ?n < 2 ^ 64" by (simp add: uint_nat [symmetric]) (rule order_less_le_trans [OF unsigned_less], simp)
  ultimately show ?thesis using decimal_to_string [of ?n] s by (simp add: stoull_def Let_def)
qed

lemma no_digit: "\<not> isdigit ch \<Longrightarrow> ch \<notin> set (to_string n)"
  using to_string_digits by (auto simp: isdigit_def)

lemma rfind_last: "ch \<notin> set q \<Longrightarrow> rfind ch (p @ ch # q) = Some (length p)"
proof -
  assume "ch \<notin> set q"
  then have "takeWhile (\<lambda>x. x \<noteq> ch) (rev q @ ch # rev p) = rev q" by (subst takeWhile_append2) auto
  then show ?thesis by (simp add: rfind_def)
qed

lemma find_char_first: "ch \<notin> set p \<Longrightarrow> find_char ch (p @ ch # q) = Some (length p)"
  by (subst find_char_def) (subst takeWhile_append2, auto)

text \<open>A ticket is read back as it was written.\<close>

lemma parse_ticketValue: "parseTicket (ticketValue x) = Some x"
  using find_char_first [of "CHR '':''" "to_string (unat (ticket_user x))" "to_string (unat (ticket_table x))"]
  by (simp add: parseTicket_def ticketValue_def stoull_to_string no_digit isdigit_def)

text \<open>A node is read back as it was written, with its name from the index: whatever its endpoint, and for every
  number of tables and connections.\<close>

lemma parse_nodeValue: "parseNode (node_name n) (nodeValue n) = Some n"
proof -
  let ?a = "to_string (unat (active_tables n))" and ?c = "to_string (unat (connections n))"
  have bar: "CHR ''|'' \<notin> set (to_string k)" for k by (rule no_digit) (simp add: isdigit_def)
  have v: "nodeValue n = (endpoint n @ CHR ''|'' # ?a) @ CHR ''|'' # ?c" by (simp add: nodeValue_def)
  have 1: "rfind CHR ''|'' (nodeValue n) = Some (length (endpoint n @ CHR ''|'' # ?a))" unfolding v by (rule rfind_last [OF bar])
  have 2: "rfind CHR ''|'' (endpoint n @ CHR ''|'' # ?a) = Some (length (endpoint n))" by (rule rfind_last [OF bar])
  show ?thesis
    using 2 by (simp add: parseNode_def 1) (simp add: v stoull_to_string)
qed

end
