(* ===== verification/Redis_Correct.thy ===== *)
theory Redis_Correct
  imports Redis_Registry
begin

text \<open>
  What the registry in Redis promises. The locale \<open>redis_library\<close> states the documented behaviour of the commands that the tickets
  rest on: a key gets a value only from \<open>SET\<close> (or the other commands that write the key they name), may vanish at any time
  (deleted, expired), and \<open>GETDEL\<close> answers with the value it has removed. Nothing is said about which calls are
  answered. \<open>documentedRedis\<close> is a server with these laws, with a clock, expiry and failures as parameters of its state, and
  the interpretation \<open>documented\<close> proves them for it.
\<close>

section \<open>The laws of the commands\<close>

text \<open>The keys that a command may give a value; the script of \<open>assignRoom\<close> also writes the index.\<close>

definition mayWrite :: "redisWords \<Rightarrow> string list" where
  "mayWrite cmd =
     (if cmd = [] then []
      else if hd cmd \<in> {''SET'', ''INCR'', ''ZADD'', ''ZREM''} then take 1 (tl cmd)
      else if hd cmd = ''EVAL'' then ''poker:nodes:load'' # take 1 (drop 3 cmd)
      else [])"

lemmas command_defs = setCommand_def mayWrite_def nodeKey_def roomKey_def ticketKey_def

text \<open>A value stays or vanishes.\<close>

abbreviation fades :: "'a option \<Rightarrow> 'a option \<Rightarrow> bool" where
  "fades v v' \<equiv> v' = v \<or> v' = None"

datatype RegistryCall = OpenCall | CloseCall | PingCall | HeartbeatCall NodeInfo u32 | HealthyCall | AllocateCall
  | AssignCall TableId string u32 | OwnerCall TableId | StoreCall string JoinTicket u32 | ConsumeCall string

text \<open>A call of the registry object \<open>i\<close> with the ticket that it hands out.\<close>

fun performCall :: "'s Hiredis \<Rightarrow> (nat \<Rightarrow> RedisConfig) \<Rightarrow> nat \<times> RegistryCall \<Rightarrow> 's Registries \<Rightarrow> JoinTicket option \<times> 's Registries" where
  "performCall lib config (i, OpenCall) s = (None, newHiredisRegistry lib (config i) i s)"
| "performCall lib config (i, CloseCall) s = (None, deleteHiredisRegistry i s)"
| "performCall lib config (i, PingCall) s = (None, snd (redisPing lib (config i) i s))"
| "performCall lib config (i, HeartbeatCall n ttl) s = (None, snd (redisHeartbeat lib (config i) i n ttl s))"
| "performCall lib config (i, HealthyCall) s = (None, snd (redisHealthyNodes lib (config i) i s))"
| "performCall lib config (i, AllocateCall) s = (None, snd (redisAllocateTableId lib (config i) i s))"
| "performCall lib config (i, AssignCall t n ttl) s = (None, snd (redisAssignRoom lib (config i) i t n ttl s))"
| "performCall lib config (i, OwnerCall t) s = (None, snd (redisRoomOwner lib (config i) i t s))"
| "performCall lib config (i, StoreCall h x ttl) s = (None, snd (redisStoreJoinTicket lib (config i) i h x ttl s))"
| "performCall lib config (i, ConsumeCall h) s = redisConsumeJoinTicket lib (config i) i h s"

fun performCalls :: "'s Hiredis \<Rightarrow> (nat \<Rightarrow> RedisConfig) \<Rightarrow> (nat \<times> RegistryCall) list \<Rightarrow> 's Registries \<Rightarrow> JoinTicket option list \<times> 's Registries" where
  "performCalls lib config [] s = ([], s)"
| "performCalls lib config (c # cs) s =
     (case performCall lib config c s of (x, s1) \<Rightarrow>
      case performCalls lib config cs s1 of (xs, s2) \<Rightarrow> (x # xs, s2))"

fun storesTicket :: "string \<Rightarrow> nat \<times> RegistryCall \<Rightarrow> bool" where
  "storesTicket h (i, StoreCall h' x ttl) = (h' = h)"
| "storesTicket h _ = False"

text \<open>The tickets that the calls consuming \<open>h\<close> have handed out.\<close>

definition handedOut :: "string \<Rightarrow> (nat \<times> RegistryCall) list \<Rightarrow> JoinTicket option list \<Rightarrow> JoinTicket list" where
  "handedOut h calls rs = [x. (c, Some x) \<leftarrow> zip calls rs, snd c = ConsumeCall h]"

lemma handedOut_Nil [simp]: "handedOut h [] rs = []"
  by (simp add: handedOut_def)

lemma handedOut_Cons [simp]:
  "handedOut h (c # cs) (r # rs) =
     (case r of None \<Rightarrow> [] | Some x \<Rightarrow> if snd c = ConsumeCall h then [x] else []) @ handedOut h cs rs"
  by (auto simp: handedOut_def split: option.splits)

locale redis_library =
  fixes lib :: "'s Hiredis"
    and keyed :: "'s \<Rightarrow> string \<Rightarrow> string option"
  assumes connect_law: "redis_connect lib i host p timeout w = (ok, w') \<Longrightarrow> fades (keyed w k) (keyed w' k)"
    and other_law: "redis_command lib i cmd w = (r, w') \<Longrightarrow> k \<notin> set (mayWrite cmd) \<Longrightarrow> fades (keyed w k) (keyed w' k)"
    and set_law: "redis_command lib i (setCommand k v ttl @ options) w = (r, w') \<Longrightarrow>
      fades (keyed w k) (keyed w' k) \<or> keyed w' k = Some v"
    and getdel_law: "redis_command lib i [''GETDEL'', k] w = (Some (StringReply v), w') \<Longrightarrow>
      keyed w k = Some v \<and> keyed w' k = None"
begin

lemma send_fades:
  assumes "sendCommand lib i cmd s = (r, s')" "k \<notin> set (mayWrite cmd)"
  shows "fades (keyed (redis_world s) k) (keyed (redis_world s') k)"
proof -
  have "redis_command lib i cmd (redis_world s) = (r, redis_world s')"
    using assms(1) by (auto simp: sendCommand_def redisFree_def Let_def split: prod.splits)
  from other_law [OF this assms(2)] show ?thesis .
qed

lemma introduce_fades:
  assumes "introduce lib i cmd s = (ok, s')" "k \<notin> set (mayWrite cmd)"
  shows "fades (keyed (redis_world s) k) (keyed (redis_world s') k)"
  using assms send_fades [of i cmd s _ _ k]
  by (auto simp: introduce_def redisFree_def split: prod.splits option.splits Reply.splits)

lemma connect_fades:
  assumes "connectLocked lib config i s = (ok, s')"
  shows "fades (keyed (redis_world s) k) (keyed (redis_world s') k)"
proof -
  obtain c w where w: "redis_connect lib i (redis_host config) (redis_port config)
      (connect_timeout_ms config div 1000, connect_timeout_ms config mod 1000 * 1000) (redis_world s) = (c, w)" by (metis surj_pair)
  note connect_law [OF w, of k]
  moreover have "fades (keyed w k) (keyed (redis_world s') k)"
    using assms introduce_fades [of i "[''AUTH'', redis_password config]" _ _ _ k]
      introduce_fades [of i "[''SELECT'', int_text (redis_database config)]" _ _ _ k]
    by (simp add: connectLocked_def w redisFree_def mayWrite_def Let_def split: prod.splits if_splits) fastforce+
  ultimately show ?thesis by auto
qed

text \<open>A command is sent from a world that differs from the first one by a connection that was opened, or not at all.\<close>

lemma command_cases:
  assumes "commandLocked lib config i cmd s = (r, s')"
  obtains "r = None" "fades (keyed (redis_world s) k) (keyed (redis_world s') k)"
  | w where "redis_command lib i cmd w = (r, redis_world s')" "fades (keyed (redis_world s) k) (keyed w k)"
proof (cases "contexts s i")
  case True
  then have "redis_command lib i cmd (redis_world s) = (r, redis_world s')"
    using assms by (auto simp: commandLocked_def sendCommand_def redisFree_def Let_def split: prod.splits)
  then show ?thesis using that(2) by blast
next
  case False
  obtain ok s1 where s1: "connectLocked lib config i s = (ok, s1)" by (metis surj_pair)
  show ?thesis
  proof (cases ok)
    case True
    then have "redis_command lib i cmd (redis_world s1) = (r, redis_world s')"
      using assms False s1 by (auto simp: commandLocked_def sendCommand_def redisFree_def Let_def split: prod.splits)
    then show ?thesis using that(2) connect_fades [OF s1] by blast
  next
    case f: False
    then show ?thesis using that(1) assms False s1 connect_fades [OF s1] by (simp add: commandLocked_def)
  qed
qed

lemma command_fades:
  assumes "commandLocked lib config i cmd s = (r, s')" "k \<notin> set (mayWrite cmd)"
  shows "fades (keyed (redis_world s) k) (keyed (redis_world s') k)"
  using command_cases [OF assms(1), of k] other_law [OF _ assms(2)] by metis

lemma command_snd_fades:
  "k \<notin> set (mayWrite cmd) \<Longrightarrow> fades (keyed (redis_world s) k) (keyed (redis_world (snd (commandLocked lib config i cmd s))) k)"
  by (rule command_fades [of config i cmd s "fst (commandLocked lib config i cmd s)"]) simp_all

lemma fades_trans: "fades u v \<Longrightarrow> fades v w \<Longrightarrow> fades u w"
  by auto

lemma readNodes_fades: "fades (keyed (redis_world s) (ticketKey h)) (keyed (redis_world (snd (readNodes lib config i items s))) (ticketKey h))"
proof (induction items arbitrary: s)
  case (Cons item items)
  show ?case
  proof (cases item)
    case (StringReply n)
    obtain r s1 where s1: "commandLocked lib config i [''GET'', nodeKey n] s = (r, s1)" by (metis surj_pair)
    obtain r' s2 where s2: "commandLocked lib config i [''ZREM'', ''poker:nodes:load'', n] s1 = (r', s2)" by (metis surj_pair)
    have 1: "fades (keyed (redis_world s) (ticketKey h)) (keyed (redis_world s1) (ticketKey h))"
      by (rule command_fades [OF s1]) (simp add: command_defs)
    have 2: "fades (keyed (redis_world s1) (ticketKey h)) (keyed (redis_world s2) (ticketKey h))"
      by (rule command_fades [OF s2]) (simp add: command_defs)
    show ?thesis
      using fades_trans [OF 1 Cons.IH] fades_trans [OF fades_trans [OF 1 2] Cons.IH] StringReply s1 s2
      by (auto split: prod.splits option.splits Reply.splits)
  qed (use Cons.IH in auto)
qed simp

lemma heartbeat_fades: "fades (keyed (redis_world s) (ticketKey h)) (keyed (redis_world (snd (redisHeartbeat lib config i n ttl s))) (ticketKey h))"
proof -
  let ?a = "setCommand (nodeKey (node_name n)) (nodeValue n) ttl"
    and ?b = "[''ZADD'', ''poker:nodes:load'', to_string (unat (nodeScore n)), node_name n]"
  obtain r s1 where s1: "commandLocked lib config i ?a s = (r, s1)" by (metis surj_pair)
  obtain r' s2 where s2: "commandLocked lib config i ?b s1 = (r', s2)" by (metis surj_pair)
  have "fades (keyed (redis_world s) (ticketKey h)) (keyed (redis_world s1) (ticketKey h))"
    by (rule command_fades [OF s1]) (simp add: command_defs)
  moreover have "fades (keyed (redis_world s1) (ticketKey h)) (keyed (redis_world s2) (ticketKey h))"
    by (rule command_fades [OF s2]) (simp add: command_defs)
  ultimately show ?thesis using s1 s2 by (auto simp: redisHeartbeat_def split: if_splits)
qed

lemma healthy_fades: "fades (keyed (redis_world s) (ticketKey h)) (keyed (redis_world (snd (redisHealthyNodes lib config i s))) (ticketKey h))"
proof -
  obtain r s1 where s1: "commandLocked lib config i [''ZRANGE'', ''poker:nodes:load'', ''0'', ''-1''] s = (r, s1)" by (metis surj_pair)
  have "fades (keyed (redis_world s) (ticketKey h)) (keyed (redis_world s1) (ticketKey h))"
    by (rule command_fades [OF s1]) (simp add: command_defs)
  moreover have "snd (redisHealthyNodes lib config i s) = s1 \<or> (\<exists>items. snd (redisHealthyNodes lib config i s) = snd (readNodes lib config i items s1))"
    using s1 by (simp add: redisHealthyNodes_def split: option.splits Reply.splits) metis
  ultimately show ?thesis using readNodes_fades [where s = s1 and h = h and config = config and i = i] by (metis (no_types))
qed

lemma perform_fades:
  assumes "performCall lib config c s = (x, s')" "\<not> storesTicket h c"
  shows "fades (keyed (redis_world s) (ticketKey h)) (keyed (redis_world s') (ticketKey h))"
proof -
  obtain i a where c: "c = (i, a)" by (cases c)
  note step = command_snd_fades [of "ticketKey h"]
  show ?thesis
  proof (cases a)
    case OpenCall
    then show ?thesis using assms c connect_fades [of "config i" i s] by (auto simp: newHiredisRegistry_def prod_eq_iff)
  next
    case CloseCall
    then show ?thesis using assms c by (cases "contexts s i") (auto simp: deleteHiredisRegistry_def redisFree_def)
  next
    case PingCall
    then show ?thesis using assms c step [of "[''PING'']" "config i" i s] by (auto simp: redisPing_def command_defs split: prod.splits)
  next
    case (HeartbeatCall n ttl)
    then show ?thesis using assms c heartbeat_fades [where s = s and h = h and config = "config i" and i = i and n = n and ttl = ttl] by auto
  next
    case HealthyCall
    then show ?thesis using assms c healthy_fades [where s = s and h = h and config = "config i" and i = i] by auto
  next
    case AllocateCall
    then show ?thesis using assms c step [of "[''INCR'', ''poker:ids:table'']" "config i" i s]
      by (auto simp: redisAllocateTableId_def command_defs split: prod.splits option.splits Reply.splits)
  next
    case (AssignCall t n ttl)
    then show ?thesis using assms c step [of "[''EVAL'', assignScript, ''1'', roomKey t, n, to_string (unat ttl)]" "config i" i s]
      by (auto simp: redisAssignRoom_def command_defs split: prod.splits if_splits)
  next
    case (OwnerCall t)
    then show ?thesis using assms c step [of "[''GET'', roomKey t]" "config i" i s]
      by (auto simp: redisRoomOwner_def command_defs split: prod.splits)
  next
    case (StoreCall h' y ttl)
    then show ?thesis using assms c step [of "setCommand (ticketKey h') (ticketValue y) ttl @ [''NX'']" "config i" i s]
      by (auto simp: redisStoreJoinTicket_def command_defs split: prod.splits if_splits)
  next
    case (ConsumeCall h')
    then show ?thesis using assms c step [of "[''GETDEL'', ticketKey h']" "config i" i s]
      by (auto simp: redisConsumeJoinTicket_def command_defs split: prod.splits)
  qed
qed

lemma consume_removes:
  assumes "redisConsumeJoinTicket lib config i h s = (Some x, s')"
  shows "\<exists>v. keyed (redis_world s) (ticketKey h) = Some v \<and> parseTicket v = Some x \<and> keyed (redis_world s') (ticketKey h) = None"
proof -
  obtain v where v: "commandLocked lib config i [''GETDEL'', ticketKey h] s = (Some (StringReply v), s')" and x: "parseTicket v = Some x"
    using assms by (auto simp: redisConsumeJoinTicket_def split: prod.splits option.splits Reply.splits)
  show ?thesis
  proof (rule command_cases [OF v, of "ticketKey h"])
    fix w assume "redis_command lib i [''GETDEL'', ticketKey h] w = (Some (StringReply v), redis_world s')"
      and f: "fades (keyed (redis_world s) (ticketKey h)) (keyed w (ticketKey h))"
    from getdel_law [OF this(1)] f x show ?thesis by (metis option.discI)
  qed simp
qed

text \<open>A key without a value hands out nothing any more; one with the value of a ticket hands out that ticket, once.\<close>

lemma absent_ticket:
  assumes "performCalls lib config calls s = (rs, s')" "list_all (\<lambda>c. \<not> storesTicket h c) calls" "keyed (redis_world s) (ticketKey h) = None"
  shows "handedOut h calls rs = []"
  using assms
proof (induction calls arbitrary: s rs)
  case (Cons c calls)
  obtain r s1 where s1: "performCall lib config c s = (r, s1)" by (metis surj_pair)
  obtain rs1 where rs1: "performCalls lib config calls s1 = (rs1, s')" "rs = r # rs1"
    using Cons.prems(1) s1 by (auto split: prod.splits)
  have none: "keyed (redis_world s1) (ticketKey h) = None" using perform_fades [OF s1, of h] Cons.prems(2,3) by auto
  have "r = None" if "snd c = ConsumeCall h"
    using that s1 Cons.prems(3) consume_removes [of "config (fst c)" "fst c" h s] by (cases c; cases r) fastforce+
  then show ?case using Cons.IH [OF rs1(1) _ none] Cons.prems(2) rs1(2) by (auto split: option.splits)
qed simp

lemma present_ticket:
  assumes "performCalls lib config calls s = (rs, s')" "list_all (\<lambda>c. \<not> storesTicket h c) calls"
    "fades (Some (ticketValue x)) (keyed (redis_world s) (ticketKey h))"
  shows "handedOut h calls rs = [] \<or> handedOut h calls rs = [x]"
  using assms
proof (induction calls arbitrary: s rs)
  case (Cons c calls)
  obtain r s1 where s1: "performCall lib config c s = (r, s1)" by (metis surj_pair)
  obtain rs1 where rs1: "performCalls lib config calls s1 = (rs1, s')" "rs = r # rs1"
    using Cons.prems(1) s1 by (auto split: prod.splits)
  have rest: "list_all (\<lambda>c. \<not> storesTicket h c) calls" using Cons.prems(2) by simp
  show ?case
  proof (cases "snd c = ConsumeCall h \<and> r \<noteq> None")
    case True
    then obtain y where y: "r = Some y" "redisConsumeJoinTicket lib (config (fst c)) (fst c) h s = (Some y, s1)"
      using s1 by (cases c) auto
    have "y = x" "keyed (redis_world s1) (ticketKey h) = None"
      using consume_removes [OF y(2)] Cons.prems(3) by (auto simp: parse_ticketValue)
    then show ?thesis using absent_ticket [OF rs1(1) rest] True y(1) rs1(2) by simp
  next
    case False
    have "fades (Some (ticketValue x)) (keyed (redis_world s1) (ticketKey h))"
      using perform_fades [OF s1, of h] Cons.prems(2,3) by auto
    then show ?thesis using Cons.IH [OF rs1(1) rest] False rs1(2) by (auto split: option.splits)
  qed
qed simp

lemma store_ticket:
  assumes "redisStoreJoinTicket lib config i h x ttl s = (b, s')" "keyed (redis_world s) (ticketKey h) = None"
  shows "fades (Some (ticketValue x)) (keyed (redis_world s') (ticketKey h))"
proof (cases "h = [] \<or> ticket_user x = 0 \<or> ticket_table x = 0 \<or> ttl = 0")
  case True
  then show ?thesis using assms by (auto simp: redisStoreJoinTicket_def)
next
  case False
  then obtain r where r: "commandLocked lib config i (setCommand (ticketKey h) (ticketValue x) ttl @ [''NX'']) s = (r, s')"
    using assms(1) by (auto simp: redisStoreJoinTicket_def split: prod.splits)
  show ?thesis
  proof (rule command_cases [OF r, of "ticketKey h"])
    fix w assume "redis_command lib i (setCommand (ticketKey h) (ticketValue x) ttl @ [''NX'']) w = (r, redis_world s')"
      and f: "fades (keyed (redis_world s) (ticketKey h)) (keyed w (ticketKey h))"
    from set_law [OF this(1)] f assms(2) show ?thesis by auto
  qed (use assms(2) in auto)
qed

end

section \<open>A server as documented\<close>

datatype RedisFault = Answers | Denies | Breaks bool

text \<open>Values with their expiry, the sorted set \<open>poker:nodes:load\<close>, and what the outside decides: the time of the n-th command,
  whether it is answered, denied or the connection breaks (before or after it took effect), which attempts to connect
  succeed, and the nearest floating-point number of a score.\<close>

record RedisServer =
  strings :: "string \<rightharpoonup> string \<times> int option"
  load_index :: "(string, nat) assoc_map"
  served :: nat
  attempts :: nat
  time_ms :: "nat \<Rightarrow> int"
  trouble :: "nat \<Rightarrow> RedisFault"
  reachable :: "nat \<Rightarrow> bool"
  to_double :: "nat \<Rightarrow> nat"

definition purge :: "int \<Rightarrow> RedisServer \<Rightarrow> RedisServer" where
  "purge now w = w\<lparr>strings := (\<lambda>k. case strings w k of
     Some (v, Some e) \<Rightarrow> if e < now then None else Some (v, Some e) | x \<Rightarrow> x)\<rparr>"

definition serveSet :: "int \<Rightarrow> string \<Rightarrow> string \<Rightarrow> string \<Rightarrow> bool \<Rightarrow> RedisServer \<Rightarrow> Reply \<times> RedisServer" where
  "serveSet now k v ttl nx w =
     (if nx \<and> strings w k \<noteq> None then (NilReply, w)
      else (StatusReply ''OK'', w\<lparr>strings := (strings w)(k \<mapsto> (v, Some (now + int (decimal ttl) * 1000)))\<rparr>))"

definition serveGet :: "string \<Rightarrow> RedisServer \<Rightarrow> Reply" where
  "serveGet k w = (case strings w k of None \<Rightarrow> NilReply | Some (v, e) \<Rightarrow> StringReply v)"

definition serveIncr :: "string \<Rightarrow> RedisServer \<Rightarrow> Reply \<times> RedisServer" where
  "serveIncr k w =
     (case strings w k of
        None \<Rightarrow> (IntegerReply 1, w\<lparr>strings := (strings w)(k \<mapsto> (''1'', None))\<rparr>)
      | Some (v, e) \<Rightarrow>
          (case stoll v of
             Inl x \<Rightarrow> (ErrorReply ''ERR'', w)
           | Inr (n, m) \<Rightarrow>
               (if int_text n \<noteq> v \<or> n = 2 ^ 63 - 1 then (ErrorReply ''ERR'', w)
                else (IntegerReply (n + 1), w\<lparr>strings := (strings w)(k \<mapsto> (int_text (n + 1), e))\<rparr>))))"

text \<open>The script of \<open>assignRoom\<close>.\<close>

definition runAssignScript :: "int \<Rightarrow> string \<Rightarrow> string \<Rightarrow> string \<Rightarrow> RedisServer \<Rightarrow> Reply \<times> RedisServer" where
  "runAssignScript now key n ttl w =
     (case serveGet key w of
        StringReply current \<Rightarrow>
          (if current = n then (IntegerReply 1, snd (serveSet now key n ttl False w)) else (IntegerReply 0, w))
      | _ \<Rightarrow>
          (let w1 = snd (serveSet now key n ttl False w);
               score = (case map_of (load_index w1) n of None \<Rightarrow> 0 | Some x \<Rightarrow> x)
           in (IntegerReply 1, w1\<lparr>load_index := put n (to_double w1 (score + 1000000)) (load_index w1)\<rparr>)))"

definition sortedMembers :: "(string, nat) assoc_map \<Rightarrow> string list" where
  "sortedMembers z = map fst (sort_key (\<lambda>(m, score). (score, m)) z)"

fun serveCommand :: "redisWords \<Rightarrow> int \<Rightarrow> RedisServer \<Rightarrow> Reply \<times> RedisServer" where
  "serveCommand [name] now w = (if name = ''PING'' then (StatusReply ''PONG'', w) else (ErrorReply ''ERR'', w))"
| "serveCommand [name, k] now w =
         (if name = ''GET'' then (serveGet k w, w)
          else if name = ''GETDEL'' then (serveGet k w, w\<lparr>strings := (strings w)(k := None)\<rparr>)
          else if name = ''INCR'' then serveIncr k w
          else if name = ''AUTH'' \<or> name = ''SELECT'' then (StatusReply ''OK'', w)
          else (ErrorReply ''ERR'', w))"
| "serveCommand [name, k, m] now w =
         (if name = ''ZREM''
          then (IntegerReply (if map_of (load_index w) m = None then 0 else 1), w\<lparr>load_index := erase m (load_index w)\<rparr>)
          else (ErrorReply ''ERR'', w))"
| "serveCommand [name, k, a, b] now w =
         (if name = ''ZADD''
          then (IntegerReply (if map_of (load_index w) b = None then 1 else 0),
                w\<lparr>load_index := put b (to_double w (decimal a)) (load_index w)\<rparr>)
          else if name = ''ZRANGE'' then (ArrayReply (map StringReply (sortedMembers (load_index w))), w)
          else (ErrorReply ''ERR'', w))"
| "serveCommand [name, k, v, a, ttl] now w =
         (if name = ''SET'' then serveSet now k v ttl False w else (ErrorReply ''ERR'', w))"
| "serveCommand [name, a, b, c, d, e] now w =
         (if name = ''SET'' then serveSet now a b d True w
          else if name = ''EVAL'' \<and> a = assignScript then runAssignScript now c d e w
          else (ErrorReply ''ERR'', w))"
| "serveCommand _ now w = (ErrorReply ''ERR'', w)"

definition documentedRedis :: "RedisServer Hiredis" where
  "documentedRedis = \<lparr>
     redis_connect = (\<lambda>i host p timeout w. (reachable w (attempts w), w\<lparr>attempts := Suc (attempts w)\<rparr>)),
     redis_command = (\<lambda>i cmd w.
       let now = time_ms w (served w);
           w1 = purge now (w\<lparr>served := Suc (served w)\<rparr>)
       in (case trouble w (served w) of
             Answers \<Rightarrow> (case serveCommand cmd now w1 of (r, w2) \<Rightarrow> (Some r, w2))
           | Denies \<Rightarrow> (Some (ErrorReply ''ERR''), w1)
           | Breaks effect \<Rightarrow> (None, if effect then snd (serveCommand cmd now w1) else w1)))\<rparr>"

definition storedValue :: "RedisServer \<Rightarrow> string \<Rightarrow> string option" where
  "storedValue w k = map_option fst (strings w k)"

lemma purge_fades: "fades (strings w k) (strings (purge now w) k)"
  by (auto simp: purge_def split: option.splits prod.splits)

lemma served_elsewhere:
  "k' \<noteq> k \<Longrightarrow> strings (snd (serveSet now k' v ttl nx w)) k = strings w k"
  "k' \<noteq> k \<Longrightarrow> strings (snd (serveIncr k' w)) k = strings w k"
  "k' \<noteq> k \<Longrightarrow> strings (snd (runAssignScript now k' n ttl w)) k = strings w k"
    apply (simp add: serveSet_def)
   apply (simp add: serveIncr_def split: option.splits prod.splits sum.splits)
  apply (simp add: runAssignScript_def serveSet_def Let_def split: Reply.splits)
  done

lemma mayWrite_simps [simp]:
  "mayWrite (''SET'' # k # cmd) = [k]" "mayWrite [''INCR'', k] = [k]" "mayWrite [''EVAL'', a, b, k, c, d] = [''poker:nodes:load'', k]"
  by (simp_all add: mayWrite_def)

lemma serve_other:
  "k \<notin> set (mayWrite cmd) \<Longrightarrow> fades (strings w k) (strings (snd (serveCommand cmd now w)) k)"
  by (induction cmd now w rule: serveCommand.induct) (auto simp: served_elsewhere)

lemma serve_set:
  "fades (strings w k) (strings (snd (serveCommand (setCommand k v ttl @ options) now w)) k) \<or>
   storedValue (snd (serveCommand (setCommand k v ttl @ options) now w)) k = Some v"
proof (cases options)
  case (Cons x xs)
  then show ?thesis by (cases xs) (simp_all add: setCommand_def serveSet_def storedValue_def)
qed (simp add: setCommand_def serveSet_def storedValue_def)

lemma documented_command:
  assumes "redis_command documentedRedis i cmd w = (r, w')"
  obtains (untouched) now where "w' = purge now (w\<lparr>served := Suc (served w)\<rparr>)" "r = None \<or> r = Some (ErrorReply ''ERR'')"
  | (executed) now where "w' = snd (serveCommand cmd now (purge now (w\<lparr>served := Suc (served w)\<rparr>)))"
      "r = None \<or> r = Some (fst (serveCommand cmd now (purge now (w\<lparr>served := Suc (served w)\<rparr>))))"
proof -
  let ?now = "time_ms w (served w)"
  show ?thesis
    using assms untouched [of ?now] executed [of ?now]
    by (simp add: documentedRedis_def Let_def split: RedisFault.splits prod.splits if_splits)
qed

lemma purged_value: "fades (storedValue w k) (storedValue (purge now (w\<lparr>served := n\<rparr>)) k)"
  using purge_fades [where w = "w\<lparr>served := n\<rparr>" and now = now and k = k] by (auto simp: storedValue_def)

lemma stored_fades: "fades (strings w k) (strings w' k) \<Longrightarrow> fades (storedValue w k) (storedValue w' k)"
  by (auto simp: storedValue_def)

interpretation documented: redis_library documentedRedis storedValue
proof unfold_locales
  fix i host p timeout w ok w' k
  show "redis_connect documentedRedis i host p timeout w = (ok, w') \<Longrightarrow> fades (storedValue w k) (storedValue w' k)"
    by (auto simp: documentedRedis_def storedValue_def)
next
  fix i cmd w r w' k
  assume c: "redis_command documentedRedis i cmd w = (r, w')" and k: "k \<notin> set (mayWrite cmd)"
  show "fades (storedValue w k) (storedValue w' k)"
    using c by (cases rule: documented_command) (metis purged_value, metis (no_types) purged_value stored_fades [OF serve_other [OF k]])
next
  fix i k v ttl options w r w'
  assume "redis_command documentedRedis i (setCommand k v ttl @ options) w = (r, w')"
  then show "fades (storedValue w k) (storedValue w' k) \<or> storedValue w' k = Some v"
    by (cases rule: documented_command) (metis purged_value, metis (no_types) purged_value stored_fades serve_set)
next
  fix i k w v w'
  assume "redis_command documentedRedis i [''GETDEL'', k] w = (Some (StringReply v), w')"
  then show "storedValue w k = Some v \<and> storedValue w' k = None"
  proof (cases rule: documented_command)
    case (executed now)
    have "storedValue (purge now (w\<lparr>served := Suc (served w)\<rparr>)) k = Some v"
      using executed(2) by (auto simp: serveGet_def storedValue_def split: option.splits)
    moreover have "storedValue w' k = None" using executed(1) by (simp add: storedValue_def)
    ultimately show ?thesis using purged_value by (metis option.discI)
  qed simp
qed

section \<open>Tickets\<close>

text \<open>C12. A ticket stored in Redis admits at most once, and only the user and the table it was issued for: after a registry
  object has stored a ticket under a new hash (whether it was told so or not), any sequence of calls of any number of registry
  objects, with connections that fail at any point and answers that get lost, hands out nothing for the hash or exactly the one
  ticket.\<close>
theorem redis_ticket_admits_once:
  assumes "redis_library lib keyed" "keyed (redis_world s) (ticketKey h) = None"
    "redisStoreJoinTicket lib (config i) i h x ttl s = (b, s1)"
    "list_all (\<lambda>c. \<not> storesTicket h c) calls" "performCalls lib config calls s1 = (rs, s2)"
  shows "handedOut h calls rs = [] \<or> handedOut h calls rs = [x]"
  using redis_library.present_ticket [OF assms(1) assms(5,4)] redis_library.store_ticket [OF assms(1,3,2)] by blast

definition demoRedisConfig :: RedisConfig where
  "demoRedisConfig = \<lparr>redis_host = ''r'', redis_port = 6379, redis_password = ''pw'', redis_database = 1, connect_timeout_ms = 1500\<rparr>"

text \<open>A server that breaks the connection at the given commands, without an effect.\<close>

definition demoRedis :: "nat list \<Rightarrow> RedisServer Registries" where
  "demoRedis broken = \<lparr>redis_world = \<lparr>strings = (\<lambda>k. None), load_index = [], served = 0, attempts = 0, time_ms = (\<lambda>n. 1000 + int n),
     trouble = (\<lambda>n. if n \<in> set broken then Breaks False else Answers), reachable = (\<lambda>n. True), to_double = (\<lambda>n. n)\<rparr>,
     contexts = (\<lambda>i. False)\<rparr>"

definition demoTicket :: JoinTicket where
  "demoTicket = \<lparr>ticket_user = 7, ticket_table = 9\<rparr>"

definition demoStored :: "bool \<times> RedisServer Registries" where
  "demoStored = redisStoreJoinTicket documentedRedis demoRedisConfig 0 ''h'' demoTicket 3 (demoRedis [5])"

definition demoAttempts :: "(nat \<times> RegistryCall) list" where
  "demoAttempts = [(1, ConsumeCall ''h''), (2, ConsumeCall ''h''), (1, ConsumeCall ''h'')]"

theorem redis_ticket_admits_once_witness:
  "fst (performCalls documentedRedis (\<lambda>i. demoRedisConfig) demoAttempts (snd demoStored)) = [None, Some demoTicket, None] \<and>
   handedOut ''h'' demoAttempts (fst (performCalls documentedRedis (\<lambda>i. demoRedisConfig) demoAttempts (snd demoStored))) = [demoTicket]"
proof
  let ?p = "performCalls documentedRedis (\<lambda>i. demoRedisConfig) demoAttempts (snd demoStored)"
  show 1: "fst ?p = [None, Some demoTicket, None]" by code_simp
  have "storedValue (redis_world (demoRedis [5])) (ticketKey ''h'') = None" by (simp add: storedValue_def demoRedis_def)
  moreover have "redisStoreJoinTicket documentedRedis demoRedisConfig 0 ''h'' demoTicket 3 (demoRedis [5]) = (fst demoStored, snd demoStored)"
    by (simp add: demoStored_def)
  moreover have "list_all (\<lambda>c. \<not> storesTicket ''h'' c) demoAttempts" by (simp add: demoAttempts_def)
  moreover have "performCalls documentedRedis (\<lambda>i. demoRedisConfig) demoAttempts (snd demoStored) = (fst ?p, snd ?p)" by simp
  ultimately have "handedOut ''h'' demoAttempts (fst ?p) = [] \<or> handedOut ''h'' demoAttempts (fst ?p) = [demoTicket]"
    by (rule redis_ticket_admits_once [OF documented.redis_library_axioms])
  then show "handedOut ''h'' demoAttempts (fst ?p) = [demoTicket]" unfolding 1 by (simp add: demoAttempts_def)
qed

section \<open>Nodes\<close>

text \<open>The server while it answers.\<close>

definition redisUp :: "RedisServer \<Rightarrow> bool" where
  "redisUp w \<longleftrightarrow> (\<forall>n. trouble w n = Answers)"

definition aliveAt :: "RedisServer \<Rightarrow> string \<Rightarrow> string \<Rightarrow> bool" where
  "aliveAt w k v \<longleftrightarrow> (\<exists>e. strings w k = Some (v, Some e) \<and> (\<forall>n. time_ms w n \<le> e))"

lemma redisUp_command:
  assumes "contexts s i" "redisUp (redis_world s)"
  shows "commandLocked documentedRedis config i cmd s =
    (let now = time_ms (redis_world s) (served (redis_world s));
         x = serveCommand cmd now (purge now ((redis_world s)\<lparr>served := Suc (served (redis_world s))\<rparr>))
     in (Some (fst x), s\<lparr>redis_world := snd x\<rparr>))"
  using assms by (simp add: commandLocked_def sendCommand_def documentedRedis_def redisUp_def Let_def split: prod.splits)

lemma purge_alive: "aliveAt w k v \<Longrightarrow> strings (purge (time_ms w m) (w\<lparr>served := n\<rparr>)) k = strings w k"
  by (auto simp: aliveAt_def purge_def not_less [symmetric])

lemma purge_fields [simp]:
  "time_ms (purge now w) = time_ms w" "trouble (purge now w) = trouble w" "load_index (purge now w) = load_index w" "served (purge now w) = served w"
  "reachable (purge now w) = reachable w" "attempts (purge now w) = attempts w"
  by (simp_all add: purge_def)

lemma readNodes_alive:
  assumes "contexts s i" "redisUp (redis_world s)" "aliveAt (redis_world s) (nodeKey (node_name n)) (nodeValue n)" "node_name n \<in> set ids"
  shows "n \<in> set (fst (readNodes documentedRedis config i (map StringReply ids) s))"
  using assms
proof (induction ids arbitrary: s)
  case (Cons m ids)
  let ?now = "time_ms (redis_world s) (served (redis_world s))"
  let ?w = "purge ?now ((redis_world s)\<lparr>served := Suc (served (redis_world s))\<rparr>)"
  let ?s1 = "s\<lparr>redis_world := ?w\<rparr>"
  let ?s2 = "snd (commandLocked documentedRedis config i [''ZREM'', ''poker:nodes:load'', m] ?s1)"
  have keep: "strings ?w (nodeKey (node_name n)) = strings (redis_world s) (nodeKey (node_name n))" by (rule purge_alive [OF Cons.prems(3)])
  have get: "commandLocked documentedRedis config i [''GET'', nodeKey m] s = (Some (serveGet (nodeKey m) ?w), ?s1)"
    using redisUp_command [OF Cons.prems(1,2)] by (simp add: Let_def)
  have s1: "contexts ?s1 i" "redisUp (redis_world ?s1)" "aliveAt (redis_world ?s1) (nodeKey (node_name n)) (nodeValue n)"
    using Cons.prems(1-3) keep by (simp_all add: redisUp_def aliveAt_def)
  have s2: "contexts ?s2 i" "redisUp (redis_world ?s2)" "aliveAt (redis_world ?s2) (nodeKey (node_name n)) (nodeValue n)"
    using s1 purge_alive [OF s1(3)] by (simp_all add: redisUp_command [OF s1(1,2)] Let_def redisUp_def aliveAt_def)
  show ?case
  proof (cases "m = node_name n")
    case True
    have "serveGet (nodeKey m) ?w = StringReply (nodeValue n)" using keep Cons.prems(3) True by (auto simp: serveGet_def aliveAt_def)
    then show ?thesis using get parse_nodeValue [of n] True by (simp split: prod.splits)
  next
    case False
    then have m: "node_name n \<in> set ids" using Cons.prems(4) by simp
    show ?thesis
      using Cons.IH [OF s1 m] Cons.IH [OF s2 m]
      by (auto simp: get split: prod.splits Reply.splits option.splits)
  qed
qed simp

lemma key_of_put: "k \<in> fst ` set (put k v m)"
  by (metis dom_map_of_conv_image_fst domI fun_upd_same map_of_put)


definition demoNode :: NodeInfo where
  "demoNode = \<lparr>node_name = ''a'', endpoint = ''h|:1'', active_tables = 0, connections = 5\<rparr>"

text \<open>Both objects connect first (four commands: a password and a database each).\<close>

definition demoConnected :: "nat list \<Rightarrow> RedisServer Registries" where
  "demoConnected broken =
     newHiredisRegistry documentedRedis demoRedisConfig 1 (newHiredisRegistry documentedRedis demoRedisConfig 0
       ((demoRedis broken)\<lparr>redis_world := (redis_world (demoRedis broken))\<lparr>time_ms := (\<lambda>n. 1000 + int (min n 20))\<rparr>\<rparr>))"


text \<open>What happens when the answer to a \<open>GET\<close> gets lost: the node is taken for dead and removed from the index over a new
  connection, although its value is there and has not expired; it stays invisible to everybody until its next heartbeat.\<close>

definition demoHidden :: "NodeInfo list \<times> RedisServer Registries" where
  "demoHidden = redisHealthyNodes documentedRedis demoRedisConfig 1 (snd (redisHeartbeat documentedRedis demoRedisConfig 0 demoNode 6 (demoConnected [7])))"

lemma lost_answer_hides_node:
  "fst demoHidden = [] \<and> fst (redisHealthyNodes documentedRedis demoRedisConfig 0 (snd demoHidden)) = [] \<and>
   storedValue (redis_world (snd demoHidden)) (nodeKey ''a'') = Some (nodeValue demoNode)"
proof (intro conjI)
  show "fst demoHidden = []" by code_simp
  show "fst (redisHealthyNodes documentedRedis demoRedisConfig 0 (snd demoHidden)) = []" by code_simp
  show "storedValue (redis_world (snd demoHidden)) (nodeKey ''a'') = Some (nodeValue demoNode)" by code_simp
qed

end
